(* ===== verification/GoPrelude.thy ===== *)
theory GoPrelude
  imports
    Complex_Main
    "HOL-Library.AList"
    "HOL-Library.Char_ord"
    "HOL-Library.List_Lexorder"
begin

text \<open>
  Shared ground of the development: what the Go sources use of the Go language and of its
  standard library, and the generic lemmas the component theories rest on.

  \<^item> Text is a byte list (\<open>string\<close>).  \<open>TrimSpace\<close>, \<open>ToLower\<close> and
    \<open>EqualFold\<close> are the ASCII part of the Go functions: the six ASCII white space bytes and the
    letters A to Z.  Every key, level name, format name and status the program compares with is
    ASCII; a byte above 127 is left alone.
  \<^item> \<open>int\<close> and \<open>int64\<close> of Go are 64 bit wide.  They are modelled by \<open>int\<close>, with
    \<open>wrap64\<close> written out where the code's arithmetic may leave the range.
  \<^item> \<open>time.Time\<close> is the number of nanoseconds since Go's zero time, so \<open>IsZero\<close> is
    equality with 0 and \<open>After\<close>, \<open>Before\<close>, \<open>Equal\<close> are the order of the integers.
    \<open>time.Duration\<close> is a number of nanoseconds.  \<open>time.Now()\<close> is always an argument.
  \<^item> A Go map is an association list with pairwise distinct keys; its order is one possible
    iteration order.  \<open>map_of\<close> looks up, \<open>AList.update\<close> stores, \<open>AList.delete\<close> deletes.
\<close>

section \<open>Collections of facts\<close>

named_theorems gomap_simps \<open>look-up after a map operation\<close>
named_theorems ring_lemmas \<open>facts on rotation through a sorted candidate list\<close>
named_theorems sched_defs \<open>definitions of the scheduler operations that proofs unfold\<close>
named_theorems avail_defs \<open>definitions of the availability checks that proofs unfold\<close>

section \<open>Strings\<close>

definition is_space :: "char \<Rightarrow> bool" where
  "is_space c \<longleftrightarrow> of_char c \<in> ({9, 10, 11, 12, 13, 32} :: nat set)"

definition TrimLeft :: "string \<Rightarrow> string" where
  "TrimLeft s = dropWhile is_space s"

definition TrimSpace :: "string \<Rightarrow> string" where
  "TrimSpace s = rev (TrimLeft (rev (TrimLeft s)))"

definition lower_char :: "char \<Rightarrow> char" where
  "lower_char c =
     (if 65 \<le> (of_char c :: nat) \<and> (of_char c :: nat) \<le> 90
      then char_of ((of_char c :: nat) + 32) else c)"

definition ToLower :: "string \<Rightarrow> string" where
  "ToLower s = map lower_char s"

definition EqualFold :: "string \<Rightarrow> string \<Rightarrow> bool" where
  "EqualFold s t \<longleftrightarrow> ToLower s = ToLower t"

definition HasPrefix :: "string \<Rightarrow> string \<Rightarrow> bool" where
  "HasPrefix s p \<longleftrightarrow> take (length p) s = p"

definition HasSuffix :: "string \<Rightarrow> string \<Rightarrow> bool" where
  "HasSuffix s p \<longleftrightarrow> HasPrefix (rev s) (rev p)"

text \<open>\<open>strings.Contains\<close>: a search at every offset.\<close>

fun Contains :: "string \<Rightarrow> string \<Rightarrow> bool" where
  "Contains [] p \<longleftrightarrow> p = []"
| "Contains (c # s) p \<longleftrightarrow> HasPrefix (c # s) p \<or> Contains s p"

text \<open>\<open>strings.LastIndex\<close> for a one-byte needle; \<open>None\<close> stands for -1.\<close>

fun LastIndex :: "string \<Rightarrow> char \<Rightarrow> nat option" where
  "LastIndex [] c = None"
| "LastIndex (d # s) c =
     (case LastIndex s c of
        Some i \<Rightarrow> Some (Suc i)
      | None \<Rightarrow> if d = c then Some 0 else None)"

lemma is_space_imp_not_Nil [simp]: "TrimLeft [] = []"
  by (simp add: TrimLeft_def)

lemma TrimSpace_Nil [simp]: "TrimSpace [] = []"
  by (simp add: TrimSpace_def)

lemma dropWhile_eq_self: "(xs = [] \<or> \<not> P (hd xs)) \<Longrightarrow> dropWhile P xs = xs"
  by (cases xs) auto

lemma hd_dropWhile_not: "dropWhile P xs \<noteq> [] \<Longrightarrow> \<not> P (hd (dropWhile P xs))"
  by (rule hd_dropWhile)

lemma TrimLeft_idem [simp]: "TrimLeft (TrimLeft s) = TrimLeft s"
  unfolding TrimLeft_def by (rule dropWhile_idem)

text \<open>Trimming from one side does not bring back a space at the other side.\<close>

lemma hd_rev_TrimLeft_rev:
  assumes "s \<noteq> [] \<Longrightarrow> \<not> is_space (hd s)" and "rev (TrimLeft (rev s)) \<noteq> []"
  shows "hd (rev (TrimLeft (rev s))) = hd s"
proof -
  obtain zs where s: "rev s = zs @ TrimLeft (rev s)"
    unfolding TrimLeft_def by (metis takeWhile_dropWhile_id)
  then have "s = rev (TrimLeft (rev s)) @ rev zs"
    by (metis rev_append rev_rev_ident)
  with assms(2) show ?thesis by (metis hd_append2)
qed

lemma TrimLeft_TrimSpace [simp]: "TrimLeft (TrimSpace s) = TrimSpace s"
proof (cases "TrimSpace s = []")
  case False
  let ?l = "TrimLeft s"
  have l: "?l \<noteq> [] \<Longrightarrow> \<not> is_space (hd ?l)"
    unfolding TrimLeft_def by (rule hd_dropWhile)
  have "hd (TrimSpace s) = hd ?l"
    using hd_rev_TrimLeft_rev [OF l] False by (simp add: TrimSpace_def)
  moreover have "?l \<noteq> []" using False by (auto simp: TrimSpace_def)
  ultimately have "\<not> is_space (hd (TrimSpace s))" using l by simp
  then show ?thesis unfolding TrimLeft_def by (simp add: dropWhile_eq_self)
qed simp

lemma TrimSpace_idem [simp]: "TrimSpace (TrimSpace s) = TrimSpace s"
proof -
  have "TrimSpace (TrimSpace s) = rev (TrimLeft (rev (TrimSpace s)))"
    by (subst TrimSpace_def) simp
  also have "\<dots> = TrimSpace s"
    by (simp add: TrimSpace_def)
  finally show ?thesis .
qed

lemma lower_char_idem [simp]: "lower_char (lower_char c) = lower_char c"
  by (simp add: lower_char_def)

lemma ToLower_idem [simp]: "ToLower (ToLower s) = ToLower s"
  by (simp add: ToLower_def)

lemma EqualFold_refl [simp]: "EqualFold s s"
  by (simp add: EqualFold_def)

lemma EqualFold_ToLower [simp]:
  "EqualFold (ToLower s) t = EqualFold s t" "EqualFold s (ToLower t) = EqualFold s t"
  by (simp_all add: EqualFold_def)

lemma LastIndex_None: "LastIndex s c = None \<longleftrightarrow> c \<notin> set s"
  by (induction s) (auto split: option.splits)

lemma LastIndex_SomeD:
  "LastIndex s c = Some i \<Longrightarrow> i < length s \<and> s ! i = c \<and> c \<notin> set (drop (Suc i) s)"
proof (induction s arbitrary: i)
  case (Cons d s)
  then show ?case by (auto split: option.splits if_splits simp: LastIndex_None)
qed simp

lemma LastIndex_append_not_in:
  "c \<notin> set t \<Longrightarrow> LastIndex (s @ c # t) c = Some (length s)"
proof (induction s)
  case Nil
  then show ?case by (simp add: LastIndex_None [THEN iffD2])
qed simp

section \<open>Results\<close>

text \<open>Sequencing of fallible steps: an early return of an error skips the rest.\<close>

fun sbind :: "'e + 'a \<Rightarrow> ('a \<Rightarrow> 'e + 'b) \<Rightarrow> 'e + 'b" where
  "sbind (Inl e) f = Inl e"
| "sbind (Inr x) f = f x"

lemma sbind_Inr: "sbind m f = Inr y \<longleftrightarrow> (\<exists>x. m = Inr x \<and> f x = Inr y)"
  by (cases m) auto

lemma sbind_Inl: "sbind m f = Inl e \<longleftrightarrow> m = Inl e \<or> (\<exists>x. m = Inr x \<and> f x = Inl e)"
  by (cases m) auto

section \<open>64 bit integers\<close>

definition maxInt64 :: int where "maxInt64 = 2 ^ 63 - 1"

definition minInt64 :: int where "minInt64 = - (2 ^ 63)"

definition in_int64 :: "int \<Rightarrow> bool" where
  "in_int64 x \<longleftrightarrow> minInt64 \<le> x \<and> x \<le> maxInt64"

text \<open>Two's complement wrap-around of a Go \<open>int64\<close> (or 64 bit \<open>int\<close>) operation.\<close>

definition wrap64 :: "int \<Rightarrow> int" where
  "wrap64 x = (x + 2 ^ 63) mod 2 ^ 64 - 2 ^ 63"

lemmas int64_defs = maxInt64_def minInt64_def in_int64_def

lemma wrap64_id [simp]: "in_int64 x \<Longrightarrow> wrap64 x = x"
  by (simp add: wrap64_def int64_defs)

lemma in_int64_wrap64 [simp]: "in_int64 (wrap64 x)"
  using pos_mod_bound [of "2 ^ 64" "x + 2 ^ 63"] pos_mod_sign [of "2 ^ 64" "x + 2 ^ 63"]
  by (simp add: wrap64_def int64_defs)

lemma in_int64_0 [simp]: "in_int64 0"
  by (simp add: int64_defs)

text \<open>Go division truncates towards zero.\<close>

definition go_div :: "int \<Rightarrow> int \<Rightarrow> int" where
  "go_div a b = sgn a * sgn b * (\<bar>a\<bar> div \<bar>b\<bar>)"

lemma go_div_nonneg: "0 \<le> a \<Longrightarrow> 0 < b \<Longrightarrow> go_div a b = a div b"
  by (cases "a = 0") (auto simp: go_div_def)

section \<open>Parsing of numbers and booleans\<close>

definition is_digit :: "char \<Rightarrow> bool" where
  "is_digit c \<longleftrightarrow> 48 \<le> (of_char c :: nat) \<and> (of_char c :: nat) \<le> 57"

fun digits_val :: "nat \<Rightarrow> string \<Rightarrow> nat option" where
  "digits_val acc [] = Some acc"
| "digits_val acc (c # s) =
     (if is_digit c then digits_val (10 * acc + (of_char c - 48)) s else None)"

text \<open>
  \<open>strconv.ParseInt(s, 10, 64)\<close>, which on a 64 bit platform is also \<open>strconv.Atoi\<close>: an
  optional sign, at least one digit, nothing else, and a value in the range; \<open>None\<close> is the error.
\<close>

definition ParseInt :: "string \<Rightarrow> int option" where
  "ParseInt s =
     (let neg = (s \<noteq> [] \<and> hd s = CHR ''-'');
          ds = (if s \<noteq> [] \<and> (hd s = CHR ''-'' \<or> hd s = CHR ''+'') then tl s else s)
      in if ds = [] then None
         else case digits_val 0 ds of
                None \<Rightarrow> None
              | Some n \<Rightarrow>
                  (let v = (if neg then - int n else int n)
                   in if in_int64 v then Some v else None))"

lemma ParseInt_range: "ParseInt s = Some v \<Longrightarrow> in_int64 v"
  by (auto simp: ParseInt_def Let_def split: if_splits option.splits)

lemma ParseInt_Nil [simp]: "ParseInt [] = None"
  by (simp add: ParseInt_def)

text \<open>\<open>strconv.ParseBool\<close>.\<close>

definition ParseBool :: "string \<Rightarrow> bool option" where
  "ParseBool s =
     (if s \<in> {''1'', ''t'', ''T'', ''true'', ''TRUE'', ''True''} then Some True
      else if s \<in> {''0'', ''f'', ''F'', ''false'', ''FALSE'', ''False''} then Some False
      else None)"

text \<open>Unsigned 64-bit counters; the modulus is taken on integers so that it evaluates fast.\<close>

definition wrapU64 :: "nat \<Rightarrow> nat" where
  "wrapU64 n = nat (int n mod 2 ^ 64)"

lemma wrapU64_small [simp]: "n < 2 ^ 64 \<Longrightarrow> wrapU64 n = n"
  by (simp add: wrapU64_def)

section \<open>Time\<close>

type_synonym gotime = int
type_synonym duration = int

abbreviation (input) IsZero :: "gotime \<Rightarrow> bool" where "IsZero t \<equiv> t = 0"

abbreviation (input) After :: "gotime \<Rightarrow> gotime \<Rightarrow> bool" where "After a b \<equiv> b < a"

abbreviation (input) Before :: "gotime \<Rightarrow> gotime \<Rightarrow> bool" where "Before a b \<equiv> a < b"

text \<open>\<open>Time.Sub\<close> saturates at the range of \<open>Duration\<close>.\<close>

definition time_Sub :: "gotime \<Rightarrow> gotime \<Rightarrow> duration" where
  "time_Sub a b = max minInt64 (min maxInt64 (a - b))"

definition Second :: duration where "Second = 1000000000"
definition Minute :: duration where "Minute = 60 * Second"
definition Hour :: duration where "Hour = 60 * Minute"

lemmas duration_defs = Hour_def Minute_def Second_def

section \<open>Maps\<close>

type_synonym ('k, 'v) gomap = "('k \<times> 'v) list"

definition wf_map :: "('k, 'v) gomap \<Rightarrow> bool" where
  "wf_map m \<longleftrightarrow> distinct (map fst m)"

lemma wf_map_Nil [simp]: "wf_map []"
  by (simp add: wf_map_def)

lemma wf_map_update [simp, intro]: "wf_map m \<Longrightarrow> wf_map (AList.update k v m)"
  by (simp add: wf_map_def distinct_update)

lemma wf_map_delete [simp, intro]: "wf_map m \<Longrightarrow> wf_map (AList.delete k m)"
  by (simp add: wf_map_def distinct_delete)

lemma map_of_update_gomap [gomap_simps]:
  "map_of (AList.update k v m) j = (if j = k then Some v else map_of m j)"
  by (simp add: update_conv')

lemma map_of_delete_gomap [gomap_simps]:
  "map_of (AList.delete k m) j = (if j = k then None else map_of m j)"
  by (simp add: delete_conv')

lemma wf_map_in_set: "wf_map m \<Longrightarrow> (k, v) \<in> set m \<longleftrightarrow> map_of m k = Some v"
  by (simp add: wf_map_def)

lemma fst_set_update [simp]: "fst ` set (AList.update k v m) = insert k (fst ` set m)"
  by (simp add: dom_update)

lemma fst_set_delete [simp]: "fst ` set (AList.delete k m) = fst ` set m - {k}"
  by (auto simp: AList.delete_eq)

lemma map_of_key_in: "map_of m k = Some v \<Longrightarrow> k \<in> fst ` set m"
  by (metis image_eqI map_of_SomeD fst_conv)

lemma map_of_not_key: "k \<notin> fst ` set m \<longleftrightarrow> map_of m k = None"
  by (simp add: map_of_eq_None_iff)

text \<open>Mapping over the values of a map keeps its keys.\<close>

definition map_vals :: "('k \<Rightarrow> 'v \<Rightarrow> 'w) \<Rightarrow> ('k, 'v) gomap \<Rightarrow> ('k, 'w) gomap" where
  "map_vals f m = map (\<lambda>(k, v). (k, f k v)) m"

lemma fst_map_vals [simp]: "map fst (map_vals f m) = map fst m"
  by (induction m) (auto simp: map_vals_def)

lemma wf_map_map_vals [simp]: "wf_map (map_vals f m) = wf_map m"
  by (simp add: wf_map_def)

lemma map_of_map_vals [gomap_simps]: "map_of (map_vals f m) k = map_option (f k) (map_of m k)"
  by (induction m) (auto simp: map_vals_def)

lemma filter_full: "length (filter P xs) = length xs \<Longrightarrow> filter P xs = xs"
proof (induction xs)
  case (Cons x xs)
  show ?case
  proof (cases "P x")
    case False
    with Cons.prems have "Suc (length xs) \<le> length (filter P xs)" by simp
    then have False using length_filter_le [of P xs] by (metis Suc_n_not_le_n order_trans)
    then show ?thesis ..
  qed (use Cons in simp)
qed simp

text \<open>\<open>m[f(x)] = append(m[f(x)], x)\<close>, the idiom that groups a slice into a map of slices.\<close>

definition addToBucket :: "('x \<Rightarrow> 'k) \<Rightarrow> 'x \<Rightarrow> ('k, 'x list) gomap \<Rightarrow> ('k, 'x list) gomap" where
  "addToBucket f x m =
     AList.update (f x) ((case map_of m (f x) of None \<Rightarrow> [] | Some b \<Rightarrow> b) @ [x]) m"

definition bucketed :: "('x \<Rightarrow> 'k) \<Rightarrow> 'x list \<Rightarrow> ('k, 'x list) gomap \<Rightarrow> bool" where
  "bucketed f xs m \<longleftrightarrow> wf_map m \<and>
     (\<forall>p. map_of m p = (let l = filter (\<lambda>x. f x = p) xs in if l = [] then None else Some l))"

lemma bucketed_Nil: "bucketed f [] []"
  by (simp add: bucketed_def)

lemma bucketed_add: "bucketed f xs m \<Longrightarrow> bucketed f (xs @ [x]) (addToBucket f x m)"
  by (auto simp: bucketed_def addToBucket_def gomap_simps Let_def)

lemma bucketed_fold: "bucketed f xs m \<Longrightarrow> bucketed f (xs @ ys) (fold (addToBucket f) ys m)"
proof (induction ys arbitrary: xs m)
  case (Cons y ys)
  from Cons.IH [OF bucketed_add [OF Cons.prems]] show ?case by simp
qed simp

lemma bucketed_keys: "bucketed f xs m \<Longrightarrow> set (map fst m) = f ` set xs"
proof -
  assume b: "bucketed f xs m"
  have "p \<in> set (map fst m) \<longleftrightarrow> map_of m p \<noteq> None" for p
    by (simp add: map_of_not_key [symmetric])
  also have "map_of m p \<noteq> None \<longleftrightarrow> p \<in> f ` set xs" for p
    using b by (auto simp: bucketed_def Let_def filter_empty_conv)
  finally show ?thesis by blast
qed

lemma bucketed_empty: "bucketed f xs m \<Longrightarrow> m = [] \<longleftrightarrow> xs = []"
  using bucketed_keys [of f xs m] by auto

section \<open>\<open>sort.Search\<close>\<close>

text \<open>Binary search for the least index in \<open>[0, n)\<close> at which \<open>f\<close> holds, as in Go's package sort.\<close>

function search_loop :: "(nat \<Rightarrow> bool) \<Rightarrow> nat \<Rightarrow> nat \<Rightarrow> nat" where
  "search_loop f i j =
     (if i < j then
        (let h = (i + j) div 2
         in if \<not> f h then search_loop f (Suc h) j else search_loop f i h)
      else i)"
  by pat_completeness auto
termination
  by (relation "measure (\<lambda>(f, i, j). j - i)") (auto simp: Let_def)

declare search_loop.simps [simp del]

definition sort_Search :: "nat \<Rightarrow> (nat \<Rightarrow> bool) \<Rightarrow> nat" where
  "sort_Search n f = search_loop f 0 n"

text \<open>What the search has found when it stops at \<open>r\<close>.\<close>

definition least_index :: "(nat \<Rightarrow> bool) \<Rightarrow> nat \<Rightarrow> nat \<Rightarrow> bool" where
  "least_index f n r \<longleftrightarrow> r \<le> n \<and> (\<forall>k < r. \<not> f k) \<and> (r < n \<longrightarrow> f r)"

lemma search_loop_correct:
  assumes mono: "\<And>a b. a \<le> b \<Longrightarrow> b < n \<Longrightarrow> f a \<Longrightarrow> f b"
  shows "i \<le> j \<Longrightarrow> j \<le> n \<Longrightarrow> \<forall>k < i. \<not> f k \<Longrightarrow> j < n \<longrightarrow> f j \<Longrightarrow>
    least_index f n (search_loop f i j)"
proof (induction "j - i" arbitrary: i j rule: less_induct)
  case less
  let ?h = "(i + j) div 2"
  show ?case
  proof (cases "i < j")
    case False
    with less.prems have "i = j" by simp
    with less.prems show ?thesis
      by (simp add: search_loop.simps [of f j j] least_index_def)
  next
    case True
    then have h: "i \<le> ?h" "?h < j" by auto
    show ?thesis
    proof (cases "f ?h")
      case fh: True
      have "least_index f n (search_loop f i ?h)"
        by (rule less.hyps) (use fh h less.prems in auto)
      with fh True show ?thesis by (simp add: search_loop.simps [of f i j] Let_def)
    next
      case fh: False
      have "\<forall>k < Suc ?h. \<not> f k"
      proof (intro allI impI notI)
        fix k assume "k < Suc ?h" and "f k"
        moreover have "?h < n" using h less.prems by linarith
        ultimately have "f ?h" using mono [of k ?h] by simp
        with fh show False by simp
      qed
      then have "least_index f n (search_loop f (Suc ?h) j)"
        using less.hyps [of j "Suc ?h"] h less.prems by simp
      with fh True show ?thesis by (simp add: search_loop.simps [of f i j] Let_def)
    qed
  qed
qed

lemma sort_Search_correct:
  assumes "\<And>a b. a \<le> b \<Longrightarrow> b < n \<Longrightarrow> f a \<Longrightarrow> f b"
  shows "least_index f n (sort_Search n f)"
  unfolding sort_Search_def by (rule search_loop_correct [OF assms]) auto

end
