(* ===== verification/Thinking.thy ===== *)
theory Thinking
  imports GoPrelude
begin

text \<open>
  Thinking configurations (\<open>src/internal/thinking\<close>): the suffix parser of \<open>suffix.go\<close>,
  the data types of \<open>types.go\<close>, the level/budget conversions of \<open>convert.go\<close>, the pure
  helpers of \<open>apply.go\<close> and the validation of \<open>validate.go\<close>.  Log output is left out.
  An error is a value of \<open>thinking_error\<close> that carries the arguments of its message.
\<close>

section \<open>Suffixes\<close>

record SuffixResult =
  ModelName :: string
  HasSuffixFlag :: bool
  RawSuffix :: string

definition ParseSuffix :: "string \<Rightarrow> SuffixResult" where
  "ParseSuffix model =
     (case LastIndex model (CHR ''('') of
        None \<Rightarrow> \<lparr>ModelName = model, HasSuffixFlag = False, RawSuffix = []\<rparr>
      | Some lastOpen \<Rightarrow>
          if \<not> HasSuffix model '')''
          then \<lparr>ModelName = model, HasSuffixFlag = False, RawSuffix = []\<rparr>
          else \<lparr>ModelName = take lastOpen model, HasSuffixFlag = True,
                RawSuffix = butlast (drop (Suc lastOpen) model)\<rparr>)"

definition ParseNumericSuffix :: "string \<Rightarrow> int option" where
  "ParseNumericSuffix rawSuffix =
     (if rawSuffix = [] then None
      else case ParseInt rawSuffix of
             None \<Rightarrow> None
           | Some v \<Rightarrow> if v < 0 then None else Some v)"

datatype ThinkingMode = ModeBudget | ModeLevel | ModeNone | ModeAuto

type_synonym ThinkingLevel = string

definition LevelNone :: ThinkingLevel where "LevelNone = ''none''"
definition LevelAuto :: ThinkingLevel where "LevelAuto = ''auto''"
definition LevelMinimal :: ThinkingLevel where "LevelMinimal = ''minimal''"
definition LevelLow :: ThinkingLevel where "LevelLow = ''low''"
definition LevelMedium :: ThinkingLevel where "LevelMedium = ''medium''"
definition LevelHigh :: ThinkingLevel where "LevelHigh = ''high''"
definition LevelXHigh :: ThinkingLevel where "LevelXHigh = ''xhigh''"
definition LevelMax :: ThinkingLevel where "LevelMax = ''max''"

lemmas level_defs = LevelNone_def LevelAuto_def LevelMinimal_def LevelLow_def LevelMedium_def
  LevelHigh_def LevelXHigh_def LevelMax_def

definition ParseSpecialSuffix :: "string \<Rightarrow> ThinkingMode option" where
  "ParseSpecialSuffix rawSuffix =
     (if rawSuffix = [] then None
      else if ToLower rawSuffix = ''none'' then Some ModeNone
      else if ToLower rawSuffix = ''auto'' \<or> ToLower rawSuffix = ''-1'' then Some ModeAuto
      else None)"

definition ParseLevelSuffix :: "string \<Rightarrow> ThinkingLevel option" where
  "ParseLevelSuffix rawSuffix =
     (if rawSuffix = [] then None
      else if ToLower rawSuffix = ''minimal'' then Some LevelMinimal
      else if ToLower rawSuffix = ''low'' then Some LevelLow
      else if ToLower rawSuffix = ''medium'' then Some LevelMedium
      else if ToLower rawSuffix = ''high'' then Some LevelHigh
      else if ToLower rawSuffix = ''xhigh'' then Some LevelXHigh
      else if ToLower rawSuffix = ''max'' then Some LevelMax
      else None)"

record ThinkingConfig =
  Mode :: ThinkingMode
  Budget :: int
  Level :: ThinkingLevel

definition emptyConfig :: ThinkingConfig where
  "emptyConfig = \<lparr>Mode = ModeBudget, Budget = 0, Level = []\<rparr>"

definition parseSuffixToConfig :: "string \<Rightarrow> ThinkingConfig" where
  "parseSuffixToConfig rawSuffix =
     (case ParseSpecialSuffix rawSuffix of
        Some ModeNone \<Rightarrow> emptyConfig\<lparr>Mode := ModeNone, Budget := 0\<rparr>
      | Some ModeAuto \<Rightarrow> emptyConfig\<lparr>Mode := ModeAuto, Budget := - 1\<rparr>
      | _ \<Rightarrow>
         (case ParseLevelSuffix rawSuffix of
            Some level \<Rightarrow> emptyConfig\<lparr>Mode := ModeLevel, Level := level\<rparr>
          | None \<Rightarrow>
             (case ParseNumericSuffix rawSuffix of
                Some budget \<Rightarrow>
                  if budget = 0 then emptyConfig\<lparr>Mode := ModeNone, Budget := 0\<rparr>
                  else emptyConfig\<lparr>Mode := ModeBudget, Budget := budget\<rparr>
              | None \<Rightarrow> emptyConfig)))"

definition hasThinkingConfig :: "ThinkingConfig \<Rightarrow> bool" where
  "hasThinkingConfig config \<longleftrightarrow>
     Mode config \<noteq> ModeBudget \<or> Budget config \<noteq> 0 \<or> Level config \<noteq> []"

definition HasThinkingSuffix :: "string \<Rightarrow> bool" where
  "HasThinkingSuffix model \<longleftrightarrow>
     HasSuffixFlag (ParseSuffix model)
     \<and> hasThinkingConfig (parseSuffixToConfig (RawSuffix (ParseSuffix model)))"

section \<open>Level and budget conversion\<close>

definition ConvertLevelToBudget :: "string \<Rightarrow> int option" where
  "ConvertLevelToBudget level =
     map_of [(''none'', 0), (''auto'', - 1), (''minimal'', 512), (''low'', 1024),
             (''medium'', 8192), (''high'', 24576), (''xhigh'', 32768), (''max'', 128000)]
       (ToLower level)"

definition ThresholdMinimal :: int where "ThresholdMinimal = 512"
definition ThresholdLow :: int where "ThresholdLow = 1024"
definition ThresholdMedium :: int where "ThresholdMedium = 8192"
definition ThresholdHigh :: int where "ThresholdHigh = 24576"

definition ConvertBudgetToLevel :: "int \<Rightarrow> string option" where
  "ConvertBudgetToLevel budget =
     (if budget < - 1 then None
      else if budget = - 1 then Some LevelAuto
      else if budget = 0 then Some LevelNone
      else if budget \<le> ThresholdMinimal then Some LevelMinimal
      else if budget \<le> ThresholdLow then Some LevelLow
      else if budget \<le> ThresholdMedium then Some LevelMedium
      else if budget \<le> ThresholdHigh then Some LevelHigh
      else Some LevelXHigh)"

definition HasLevel :: "string list \<Rightarrow> string \<Rightarrow> bool" where
  "HasLevel levels target \<longleftrightarrow> (\<exists>level \<in> set levels. EqualFold (TrimSpace level) target)"

definition MapToClaudeEffort :: "string \<Rightarrow> bool \<Rightarrow> string option" where
  "MapToClaudeEffort level supportsMax =
     (let level = ToLower (TrimSpace level)
      in if level = [] then None
         else if level = ''minimal'' then Some ''low''
         else if level \<in> {''low'', ''medium'', ''high''} then Some level
         else if level \<in> {''xhigh'', ''max''} then Some (if supportsMax then ''max'' else ''high'')
         else if level = ''auto'' then Some ''high''
         else None)"

datatype ModelCapability =
  CapabilityUnknown | CapabilityNone | CapabilityBudgetOnly | CapabilityLevelOnly | CapabilityHybrid

record ThinkingSupport =
  TMin :: int
  TMax :: int
  ZeroAllowed :: bool
  DynamicAllowed :: bool
  Levels :: "string list"

text \<open>The fields of \<open>registry.ModelInfo\<close> that the thinking package reads.\<close>

record ModelInfo =
  MID :: string
  MType :: string
  MThinking :: "ThinkingSupport option"
  MUserDefined :: bool

definition detectModelCapability :: "ModelInfo option \<Rightarrow> ModelCapability" where
  "detectModelCapability modelInfo =
     (case modelInfo of
        None \<Rightarrow> CapabilityUnknown
      | Some info \<Rightarrow>
         (case MThinking info of
            None \<Rightarrow> CapabilityNone
          | Some support \<Rightarrow>
             (let hasBudget = (TMin support > 0 \<or> TMax support > 0);
                  hasLevels = (Levels support \<noteq> [])
              in if hasBudget \<and> hasLevels then CapabilityHybrid
                 else if hasBudget then CapabilityBudgetOnly
                 else if hasLevels then CapabilityLevelOnly
                 else CapabilityNone)))"

definition reasoningEffortFromConfig :: "ThinkingConfig \<Rightarrow> string" where
  "reasoningEffortFromConfig config =
     (if \<not> hasThinkingConfig config then []
      else case Mode config of
             ModeNone \<Rightarrow> LevelNone
           | ModeAuto \<Rightarrow> LevelAuto
           | ModeLevel \<Rightarrow> ToLower (TrimSpace (Level config))
           | ModeBudget \<Rightarrow>
               (case ConvertBudgetToLevel (Budget config) of None \<Rightarrow> [] | Some level \<Rightarrow> level))"

definition reasoningEffortFromSuffix :: "SuffixResult \<Rightarrow> string" where
  "reasoningEffortFromSuffix suffix =
     (if \<not> HasSuffixFlag suffix then []
      else reasoningEffortFromConfig (parseSuffixToConfig (RawSuffix suffix)))"

section \<open>Validation helpers\<close>

definition standardLevelOrder :: "ThinkingLevel list" where
  "standardLevelOrder = [LevelMinimal, LevelLow, LevelMedium, LevelHigh, LevelXHigh, LevelMax]"

fun index_from :: "nat \<Rightarrow> string \<Rightarrow> string list \<Rightarrow> nat option" where
  "index_from i level [] = None"
| "index_from i level (l # ls) =
     (if EqualFold level l then Some i else index_from (Suc i) level ls)"

text \<open>\<open>None\<close> is the -1 of the source.\<close>

definition levelIndex :: "string \<Rightarrow> nat option" where
  "levelIndex level = index_from 0 level standardLevelOrder"

definition isLevelSupported :: "string \<Rightarrow> string list \<Rightarrow> bool" where
  "isLevelSupported level supported \<longleftrightarrow> (\<exists>s \<in> set supported. EqualFold level (TrimSpace s))"

definition normalizeLevels :: "string list \<Rightarrow> string list" where
  "normalizeLevels levels = map (\<lambda>l. ToLower (TrimSpace l)) levels"

fun lowest_loop :: "nat option \<Rightarrow> string list \<Rightarrow> nat option" where
  "lowest_loop best [] = best"
| "lowest_loop best (s # ss) =
     (case levelIndex (TrimSpace s) of
        None \<Rightarrow> lowest_loop best ss
      | Some idx \<Rightarrow>
          lowest_loop (case best of None \<Rightarrow> Some idx | Some b \<Rightarrow> if idx < b then Some idx else best) ss)"

definition lowestSupportedLevel :: "string list \<Rightarrow> ThinkingLevel option" where
  "lowestSupportedLevel supported =
     map_option (\<lambda>i. standardLevelOrder ! i) (lowest_loop None supported)"

text \<open>
  The search of \<open>clampLevel\<close>: the best index so far (\<open>None\<close> for -1) and its distance.  The
  guard \<open>dist == bestDist \<and> idx < bestIdx\<close> is false while no index is held.
\<close>

fun clamp_loop :: "int \<Rightarrow> nat option \<times> int \<Rightarrow> string list \<Rightarrow> nat option" where
  "clamp_loop pos (best, bestDist) [] = best"
| "clamp_loop pos (best, bestDist) (s # ss) =
     (case levelIndex (TrimSpace s) of
        None \<Rightarrow> clamp_loop pos (best, bestDist) ss
      | Some idx \<Rightarrow>
          (let dist = \<bar>pos - int idx\<bar>
           in if dist < bestDist \<or> (dist = bestDist \<and> (case best of None \<Rightarrow> False | Some b \<Rightarrow> idx < b))
              then clamp_loop pos (Some idx, dist) ss
              else clamp_loop pos (best, bestDist) ss))"

definition supportedLevels :: "ModelInfo option \<Rightarrow> string list" where
  "supportedLevels modelInfo =
     (case modelInfo of
        None \<Rightarrow> []
      | Some info \<Rightarrow> (case MThinking info of None \<Rightarrow> [] | Some support \<Rightarrow> Levels support))"

definition clampLevel :: "ThinkingLevel \<Rightarrow> ModelInfo option \<Rightarrow> ThinkingLevel" where
  "clampLevel level modelInfo =
     (let supported = supportedLevels modelInfo
      in if supported = [] \<or> isLevelSupported level supported then level
         else case levelIndex level of
                None \<Rightarrow> level
              | Some pos \<Rightarrow>
                 (case clamp_loop (int pos) (None, int (length standardLevelOrder) + 1) supported of
                    None \<Rightarrow> level
                  | Some bestIdx \<Rightarrow> standardLevelOrder ! bestIdx))"

definition clampBudget :: "int \<Rightarrow> ModelInfo option \<Rightarrow> int" where
  "clampBudget v modelInfo =
     (case modelInfo of
        None \<Rightarrow> v
      | Some info \<Rightarrow>
         (case MThinking info of
            None \<Rightarrow> v
          | Some support \<Rightarrow>
              if v = - 1 then v
              else if v = 0 \<and> \<not> ZeroAllowed support then TMin support
              else if TMin support = 0 \<and> TMax support = 0 then v
              else if v < TMin support then
                (if v = 0 \<and> ZeroAllowed support then 0 else TMin support)
              else if v > TMax support then TMax support
              else v))"

definition isBudgetCapableProvider :: "string \<Rightarrow> bool" where
  "isBudgetCapableProvider provider \<longleftrightarrow> provider \<in> {''gemini'', ''antigravity'', ''claude''}"

definition isGeminiFamily :: "string \<Rightarrow> bool" where
  "isGeminiFamily provider \<longleftrightarrow> provider \<in> {''gemini'', ''antigravity''}"

definition isOpenAIFamily :: "string \<Rightarrow> bool" where
  "isOpenAIFamily provider \<longleftrightarrow> provider \<in> {''openai'', ''openai-response'', ''codex''}"

definition isKnownProviderFamily :: "string \<Rightarrow> bool" where
  "isKnownProviderFamily provider \<longleftrightarrow>
     provider \<in> {''gemini'', ''antigravity'', ''claude'', ''openai'', ''openai-response'', ''codex'',
       ''kimi'', ''kimi-ai'', ''kimi.ai'', ''kimi.com'', ''xai'', ''interactions'', ''devin''}"

definition isSameProviderFamily :: "string \<Rightarrow> string \<Rightarrow> bool" where
  "isSameProviderFamily from to \<longleftrightarrow>
     from = to \<or> (isGeminiFamily from \<and> isGeminiFamily to)
     \<or> (isOpenAIFamily from \<and> isOpenAIFamily to)"

definition normalizeUserDefinedConfig :: "ThinkingConfig \<Rightarrow> string \<Rightarrow> ThinkingConfig" where
  "normalizeUserDefinedConfig config toFormat =
     (if Mode config \<noteq> ModeLevel then config
      else if toFormat = ''claude'' then config
      else if \<not> isBudgetCapableProvider toFormat then config
      else case ConvertLevelToBudget (Level config) of
             None \<Rightarrow> config
           | Some budget \<Rightarrow> config\<lparr>Mode := ModeBudget, Budget := budget, Level := []\<rparr>)"

definition shouldMapConfiguredHighIntent :: "string \<Rightarrow> string \<Rightarrow> ModelInfo option \<Rightarrow> bool" where
  "shouldMapConfiguredHighIntent fromFormat toFormat modelInfo =
     (let fromFormat = ToLower (TrimSpace fromFormat); toFormat = ToLower (TrimSpace toFormat)
      in if fromFormat \<noteq> toFormat then True
         else case modelInfo of
                None \<Rightarrow> False
              | Some info \<Rightarrow>
                  (let modelType = ToLower (TrimSpace (MType info))
                   in modelType \<noteq> [] \<and> \<not> isSameProviderFamily toFormat modelType))"

definition mapConfiguredHighIntent :: "ThinkingLevel \<Rightarrow> ModelInfo option \<Rightarrow> ThinkingLevel" where
  "mapConfiguredHighIntent level modelInfo =
     (if supportedLevels modelInfo = [] then level
      else
        (let level = ToLower (TrimSpace level);
             candidates =
               (if level = LevelXHigh then [LevelXHigh, LevelMax, LevelHigh]
                else if level = LevelMax then [LevelMax, LevelXHigh, LevelHigh]
                else [])
         in case find (\<lambda>c. isLevelSupported c (supportedLevels modelInfo)) candidates of
              Some c \<Rightarrow> c
            | None \<Rightarrow> level))"

definition convertAutoToMidRange :: "ThinkingConfig \<Rightarrow> ThinkingSupport \<Rightarrow> ThinkingConfig" where
  "convertAutoToMidRange config support =
     (if Levels support \<noteq> [] \<and> TMin support = 0 \<and> TMax support = 0
      then config\<lparr>Mode := ModeLevel, Level := LevelMedium, Budget := 0\<rparr>
      else
        (let mid = go_div (wrap64 (TMin support + TMax support)) 2
         in if mid \<le> 0 \<and> ZeroAllowed support then config\<lparr>Mode := ModeNone, Budget := 0\<rparr>
            else if mid \<le> 0 then config\<lparr>Mode := ModeBudget, Budget := TMin support\<rparr>
            else config\<lparr>Mode := ModeBudget, Budget := mid\<rparr>))"

end
