(* ===== verification/ThinkingValidate.thy ===== *)
theory ThinkingValidate
  imports Thinking
begin

text \<open>
  \<open>ValidateConfig\<close> of \<open>src/internal/thinking/validate.go\<close>, block by block in the order of the
  source: the capability conversion, the special values, the level check, the strict budget check,
  the fallback for a model without dynamic thinking, and the final clamping.  The theorems state
  what a provider applier may rely on after a successful validation.
\<close>

section \<open>The validation\<close>

datatype thinking_error =
    ErrThinkingNotSupported string
  | ErrUnknownLevel string
  | ErrUnconvertibleBudget int
  | ErrLevelNotSupported string "string list"
  | ErrBudgetOutOfRange int int int

definition familyMismatch :: "string \<Rightarrow> string \<Rightarrow> ModelInfo option \<Rightarrow> bool" where
  "familyMismatch fromFormat toFormat modelInfo =
     (case modelInfo of
        None \<Rightarrow> False
      | Some info \<Rightarrow>
          (let modelType = ToLower (TrimSpace (MType info))
           in isKnownProviderFamily modelType
              \<and> ((fromFormat \<noteq> [] \<and> \<not> isSameProviderFamily fromFormat modelType)
                 \<or> (toFormat \<noteq> [] \<and> \<not> isSameProviderFamily toFormat modelType))))"

text \<open>The conversion by capability; the flag is \<open>budgetDerivedFromLevel\<close>.\<close>

definition capabilityStep ::
    "ThinkingConfig \<Rightarrow> ModelInfo option \<Rightarrow> thinking_error + (ThinkingConfig \<times> bool)" where
  "capabilityStep config modelInfo =
     (case detectModelCapability modelInfo of
        CapabilityBudgetOnly \<Rightarrow>
          if Mode config = ModeLevel then
            (if Level config = LevelAuto then Inr (config, False)
             else case ConvertLevelToBudget (Level config) of
                    None \<Rightarrow> Inl (ErrUnknownLevel (Level config))
                  | Some budget \<Rightarrow>
                      Inr (config\<lparr>Mode := ModeBudget, Budget := budget, Level := []\<rparr>, True))
          else Inr (config, False)
      | CapabilityLevelOnly \<Rightarrow>
          if Mode config = ModeBudget then
            (case ConvertBudgetToLevel (Budget config) of
               None \<Rightarrow> Inl (ErrUnconvertibleBudget (Budget config))
             | Some level \<Rightarrow>
                 Inr (config\<lparr>Mode := ModeLevel, Level := clampLevel level modelInfo, Budget := 0\<rparr>, False))
          else Inr (config, False)
      | _ \<Rightarrow> Inr (config, False))"

definition specialStep :: "ThinkingConfig \<Rightarrow> ThinkingConfig" where
  "specialStep config =
     (let config = (if Mode config = ModeLevel \<and> Level config = LevelNone
                    then config\<lparr>Mode := ModeNone, Budget := 0, Level := []\<rparr> else config);
          config = (if Mode config = ModeLevel \<and> Level config = LevelAuto
                    then config\<lparr>Mode := ModeAuto, Budget := - 1, Level := []\<rparr> else config)
      in if Mode config = ModeBudget \<and> Budget config = 0
         then config\<lparr>Mode := ModeNone, Level := []\<rparr> else config)"

definition levelStep ::
    "bool \<Rightarrow> ThinkingConfig \<Rightarrow> ThinkingSupport \<Rightarrow> ModelInfo option \<Rightarrow> thinking_error + ThinkingConfig" where
  "levelStep allowClampUnsupported config support modelInfo =
     (if Levels support \<noteq> [] \<and> Mode config = ModeLevel
         \<and> \<not> isLevelSupported (Level config) (Levels support) then
        (let config = (if allowClampUnsupported
                       then config\<lparr>Level := clampLevel (Level config) modelInfo\<rparr> else config)
         in if \<not> isLevelSupported (Level config) (Levels support)
            then Inl (ErrLevelNotSupported (ToLower (Level config)) (normalizeLevels (Levels support)))
            else Inr config)
      else Inr config)"

definition budgetStep ::
    "bool \<Rightarrow> bool \<Rightarrow> ThinkingConfig \<Rightarrow> ThinkingSupport \<Rightarrow> thinking_error + ThinkingConfig" where
  "budgetStep strictBudget budgetDerivedFromLevel config support =
     (if strictBudget \<and> Mode config = ModeBudget \<and> \<not> budgetDerivedFromLevel
         \<and> (TMin support \<noteq> 0 \<or> TMax support \<noteq> 0)
         \<and> (Budget config < TMin support \<or> Budget config > TMax support
            \<or> (Budget config = 0 \<and> \<not> ZeroAllowed support))
      then Inl (ErrBudgetOutOfRange (Budget config) (TMin support) (TMax support))
      else Inr config)"

definition autoStep :: "ThinkingConfig \<Rightarrow> ThinkingSupport \<Rightarrow> ModelInfo option \<Rightarrow> ThinkingConfig" where
  "autoStep config support modelInfo =
     (if Mode config = ModeAuto \<and> \<not> DynamicAllowed support then
        (let config = convertAutoToMidRange config support
         in if Mode config = ModeLevel \<and> Levels support \<noteq> []
               \<and> \<not> isLevelSupported (Level config) (Levels support)
            then config\<lparr>Level := clampLevel (Level config) modelInfo\<rparr> else config)
      else config)"

definition finalStep ::
    "string \<Rightarrow> ThinkingConfig \<Rightarrow> ThinkingSupport \<Rightarrow> ModelInfo option \<Rightarrow> ThinkingConfig" where
  "finalStep toFormat config support modelInfo =
     (if Mode config = ModeNone \<and> toFormat = ''claude'' then
        (if \<not> ZeroAllowed support then
           (case lowestSupportedLevel (Levels support) of
              Some lowest \<Rightarrow> config\<lparr>Mode := ModeLevel, Budget := 0, Level := lowest\<rparr>
            | None \<Rightarrow> config\<lparr>Budget := 0, Level := []\<rparr>)
         else config\<lparr>Budget := 0, Level := []\<rparr>)
      else
        (let config = (if Mode config \<in> {ModeBudget, ModeAuto, ModeNone}
                       then config\<lparr>Budget := clampBudget (Budget config) modelInfo\<rparr> else config);
             cannotDisableLevelModel =
               (\<not> ZeroAllowed support \<and> \<not> isLevelSupported LevelNone (Levels support))
         in if Mode config = ModeNone \<and> Levels support \<noteq> []
               \<and> (Budget config > 0 \<or> cannotDisableLevelModel)
            then (case lowestSupportedLevel (Levels support) of
                    Some lowest \<Rightarrow> config\<lparr>Level := lowest\<rparr>
                  | None \<Rightarrow> config)
            else config))"

definition ValidateConfig ::
    "ThinkingConfig \<Rightarrow> ModelInfo option \<Rightarrow> string \<Rightarrow> string \<Rightarrow> bool \<Rightarrow> thinking_error + ThinkingConfig" where
  "ValidateConfig config modelInfo fromFormat toFormat fromSuffix =
     (let fromFormat = ToLower (TrimSpace fromFormat);
          toFormat = ToLower (TrimSpace toFormat);
          model = (case modelInfo of
                     None \<Rightarrow> ''unknown''
                   | Some info \<Rightarrow> if MID info \<noteq> [] then MID info else ''unknown'')
      in case Option.bind modelInfo MThinking of
           None \<Rightarrow>
             if Mode config \<noteq> ModeNone then Inl (ErrThinkingNotSupported model) else Inr config
         | Some support \<Rightarrow>
             (let toCapability = detectModelCapability modelInfo;
                  toHasLevelSupport =
                    (toCapability = CapabilityLevelOnly \<or> toCapability = CapabilityHybrid);
                  mismatch = familyMismatch fromFormat toFormat modelInfo;
                  allowClampUnsupported =
                    (toHasLevelSupport \<and> (\<not> isSameProviderFamily fromFormat toFormat \<or> mismatch));
                  strictBudget =
                    (\<not> fromSuffix \<and> fromFormat \<noteq> [] \<and> isSameProviderFamily fromFormat toFormat
                     \<and> \<not> mismatch)
              in sbind (capabilityStep config modelInfo)
                   (\<lambda>(config, budgetDerivedFromLevel).
                      sbind (levelStep allowClampUnsupported (specialStep config) support modelInfo)
                        (\<lambda>config.
                           sbind (budgetStep strictBudget budgetDerivedFromLevel config support)
                             (\<lambda>config.
                                Inr (finalStep toFormat (autoStep config support modelInfo)
                                       support modelInfo))))))"

section \<open>Levels\<close>

lemma index_from_Some:
  "index_from i level ls = Some k \<Longrightarrow> i \<le> k \<and> k < i + length ls \<and> EqualFold level (ls ! (k - i))"
proof (induction i level ls rule: index_from.induct)
  case (2 i level l ls)
  show ?case
  proof (cases "EqualFold level l")
    case False
    with "2.prems" have "index_from (Suc i) level ls = Some k" by simp
    with "2.IH" False have *: "Suc i \<le> k" "k < Suc i + length ls" "EqualFold level (ls ! (k - Suc i))"
      by auto
    then have "(l # ls) ! (k - i) = ls ! (k - Suc i)"
      by (metis Suc_diff_le diff_Suc_Suc nth_Cons_Suc)
    with * show ?thesis by simp
  qed (use "2.prems" in auto)
qed simp

lemma length_standardLevelOrder [simp]: "length standardLevelOrder = 6"
  by (simp add: standardLevelOrder_def)

lemma levelIndex_Some:
  "levelIndex level = Some k \<Longrightarrow> k < 6 \<and> EqualFold level (standardLevelOrder ! k)"
  unfolding levelIndex_def by (drule index_from_Some) auto

text \<open>A level that one entry of the supported list denotes is supported.\<close>

definition standardIndexes :: "string list \<Rightarrow> nat set" where
  "standardIndexes supported = {k. \<exists>s \<in> set supported. levelIndex (TrimSpace s) = Some k}"

lemma standardIndexes_simps [simp]:
  "standardIndexes [] = {}"
  "standardIndexes (s # ss) = set_option (levelIndex (TrimSpace s)) \<union> standardIndexes ss"
  by (auto simp: standardIndexes_def)

lemma standardIndexes_bound: "k \<in> standardIndexes supported \<Longrightarrow> k < 6"
  by (auto simp: standardIndexes_def dest: levelIndex_Some)

lemma standardIndexes_supported:
  assumes "k \<in> standardIndexes supported"
  shows "isLevelSupported (standardLevelOrder ! k) supported"
proof -
  from assms obtain s where s: "s \<in> set supported" "levelIndex (TrimSpace s) = Some k"
    by (auto simp: standardIndexes_def)
  from levelIndex_Some [OF s(2)] have "EqualFold (standardLevelOrder ! k) (TrimSpace s)"
    by (simp add: EqualFold_def)
  with s(1) show ?thesis by (auto simp: isLevelSupported_def)
qed

lemma lowest_loop_spec:
  "lowest_loop best ss = Some k \<Longrightarrow>
     k \<in> standardIndexes ss \<union> set_option best
     \<and> (\<forall>j \<in> standardIndexes ss \<union> set_option best. k \<le> j)"
proof (induction best ss rule: lowest_loop.induct)
  case (2 best s ss)
  show ?case
  proof (cases "levelIndex (TrimSpace s)")
    case None
    with 2 show ?thesis by simp
  next
    case (Some idx)
    with 2 show ?thesis by (cases best) (force split: if_splits)+
  qed
qed auto

lemma lowest_loop_None: "lowest_loop best ss = None \<longleftrightarrow> best = None \<and> standardIndexes ss = {}"
  by (induction best ss rule: lowest_loop.induct) (auto split: option.splits)

lemma lowestSupportedLevel_supported:
  "lowestSupportedLevel ls = Some l \<Longrightarrow> isLevelSupported l ls"
  by (auto simp: lowestSupportedLevel_def dest!: lowest_loop_spec intro: standardIndexes_supported)

lemma clamp_loop_None:
  assumes "0 \<le> pos" "pos < 6" "bestDist = 7"
  shows "clamp_loop pos (None, bestDist) ss = None \<longleftrightarrow> standardIndexes ss = {}"
proof -
  have "clamp_loop pos (best, d) ss = None \<longleftrightarrow> best = None \<and> standardIndexes ss = {}"
    if "(best = None \<longrightarrow> d = 7)" for best d ss
    using that
  proof (induction ss arbitrary: best d)
    case (Cons s ss)
    show ?case
    proof (cases "levelIndex (TrimSpace s)")
      case None
      then show ?thesis using Cons by simp
    next
      case (Some idx)
      then have "idx < 6" by (auto dest: levelIndex_Some)
      then have "\<bar>pos - int idx\<bar> < 7" using assms by auto
      then show ?thesis using Some Cons by (auto simp: Let_def)
    qed
  qed auto
  with assms show ?thesis by simp
qed

text \<open>The clamp search returns a nearest supported index and, at equal distance, the lower one.\<close>

definition nearest :: "int \<Rightarrow> nat set \<Rightarrow> nat \<Rightarrow> bool" where
  "nearest pos A k \<longleftrightarrow> k \<in> A \<and>
     (\<forall>j \<in> A. \<bar>pos - int k\<bar> < \<bar>pos - int j\<bar> \<or> (\<bar>pos - int k\<bar> = \<bar>pos - int j\<bar> \<and> k \<le> j))"

lemma nearest_insert:
  assumes "nearest pos A b"
  shows "nearest pos (insert idx A)
    (if \<bar>pos - int idx\<bar> < \<bar>pos - int b\<bar> \<or> (\<bar>pos - int idx\<bar> = \<bar>pos - int b\<bar> \<and> idx < b) then idx else b)"
  using assms by (auto simp: nearest_def)

lemma clamp_loop_nearest:
  "clamp_loop pos (Some b, \<bar>pos - int b\<bar>) ss = Some k \<Longrightarrow> nearest pos A b \<Longrightarrow>
     nearest pos (A \<union> standardIndexes ss) k"
proof (induction ss arbitrary: b A)
  case (Cons s ss)
  show ?case
  proof (cases "levelIndex (TrimSpace s)")
    case None
    with Cons show ?thesis by simp
  next
    case (Some idx)
    let ?b = "if \<bar>pos - int idx\<bar> < \<bar>pos - int b\<bar> \<or> (\<bar>pos - int idx\<bar> = \<bar>pos - int b\<bar> \<and> idx < b)
      then idx else b"
    have "clamp_loop pos (Some ?b, \<bar>pos - int ?b\<bar>) ss = Some k"
      using Cons.prems(1) Some by (auto simp: Let_def split: if_splits)
    then have "nearest pos (insert idx A \<union> standardIndexes ss) k"
      by (rule Cons.IH) (rule nearest_insert [OF Cons.prems(2)])
    with Some show ?thesis by (simp add: Un_commute insert_commute)
  qed
qed auto

lemma clamp_loop_start:
  "clamp_loop pos (None, 7) ss = Some k \<Longrightarrow> 0 \<le> pos \<Longrightarrow> pos < 6 \<Longrightarrow> nearest pos (standardIndexes ss) k"
proof (induction ss)
  case (Cons s ss)
  show ?case
  proof (cases "levelIndex (TrimSpace s)")
    case None
    with Cons show ?thesis by simp
  next
    case (Some idx)
    then have "\<bar>pos - int idx\<bar> < 7" using Cons.prems by (auto dest!: levelIndex_Some)
    with Some Cons.prems(1) have "clamp_loop pos (Some idx, \<bar>pos - int idx\<bar>) ss = Some k"
      by (simp add: Let_def)
    then have "nearest pos ({idx} \<union> standardIndexes ss) k"
      by (rule clamp_loop_nearest) (simp add: nearest_def)
    with Some show ?thesis by simp
  qed
qed simp

lemma clampLevel_cases:
  assumes "\<not> isLevelSupported level (supportedLevels mi)" "levelIndex level = Some pos"
    "standardIndexes (supportedLevels mi) \<noteq> {}"
  shows "\<exists>k. clampLevel level mi = standardLevelOrder ! k
    \<and> nearest (int pos) (standardIndexes (supportedLevels mi)) k"
proof -
  let ?L = "supportedLevels mi"
  have pos: "0 \<le> int pos" "int pos < 6" using assms(2) by (auto dest: levelIndex_Some)
  have ne: "?L \<noteq> []" using assms(3) by auto
  from clamp_loop_None [OF pos refl, of ?L] assms(3)
  obtain k where k: "clamp_loop (int pos) (None, 7) ?L = Some k" by auto
  with clamp_loop_start [OF k pos] show ?thesis
    using assms(1,2) ne by (auto simp: clampLevel_def Let_def)
qed


section \<open>What a successful validation guarantees\<close>

lemma capabilityStep_thinking:
  "capabilityStep c mi = Inr (c', d) \<Longrightarrow> c' = c \<or> Mode c' = ModeBudget \<or> Mode c' = ModeLevel"
  by (auto simp: capabilityStep_def split: ModelCapability.splits if_splits option.splits)

lemma levelStep_supported:
  "levelStep a c s mi = Inr c' \<Longrightarrow> Levels s \<noteq> [] \<Longrightarrow> Mode c' = ModeLevel \<Longrightarrow>
     isLevelSupported (Level c') (Levels s)"
  by (auto simp: levelStep_def Let_def split: if_splits)

lemma budgetStep_same: "budgetStep a d c s = Inr c' \<Longrightarrow> c' = c"
  by (auto simp: budgetStep_def split: if_splits)

lemma supportedLevels_eq:
  "Option.bind mi MThinking = Some s \<Longrightarrow> supportedLevels mi = Levels s"
  by (auto simp: supportedLevels_def split: option.splits)

lemma levelIndex_medium: "levelIndex LevelMedium = Some 2"
  by code_simp

lemma autoStep_supported:
  assumes "Option.bind mi MThinking = Some s" "standardIndexes (Levels s) \<noteq> {}"
    and "Mode c = ModeLevel \<Longrightarrow> isLevelSupported (Level c) (Levels s)"
    and "Mode (autoStep c s mi) = ModeLevel"
  shows "isLevelSupported (Level (autoStep c s mi)) (Levels s)"
proof (cases "Mode c = ModeAuto \<and> \<not> DynamicAllowed s")
  case False
  with assms show ?thesis by (auto simp: autoStep_def)
next
  case True
  let ?c = "convertAutoToMidRange c s"
  have lvl: "Mode ?c = ModeLevel \<Longrightarrow> Level ?c = LevelMedium"
    by (auto simp: convertAutoToMidRange_def Let_def split: if_splits)
  show ?thesis
  proof (cases "isLevelSupported (Level ?c) (Levels s)")
    case True
    with \<open>Mode c = ModeAuto \<and> \<not> DynamicAllowed s\<close> show ?thesis
      by (simp add: autoStep_def Let_def)
  next
    case unsup: False
    have ne: "Levels s \<noteq> []" using assms(2) by auto
    have m: "Mode ?c = ModeLevel" "autoStep c s mi = ?c\<lparr>Level := clampLevel (Level ?c) mi\<rparr>"
      using True unsup ne assms(4) by (auto simp: autoStep_def Let_def split: if_splits)
    have L: "supportedLevels mi = Levels s" by (rule supportedLevels_eq [OF assms(1)])
    obtain k where "clampLevel (Level ?c) mi = standardLevelOrder ! k"
      "nearest (int 2) (standardIndexes (Levels s)) k"
      using clampLevel_cases [of LevelMedium mi 2] unsup lvl [OF m(1)] levelIndex_medium assms(2) L
      by auto
    then show ?thesis using m(2) by (auto simp: nearest_def intro: standardIndexes_supported)
  qed
qed

lemma finalStep_supported:
  assumes "Mode c = ModeLevel \<Longrightarrow> isLevelSupported (Level c) (Levels s)"
    and "Mode (finalStep to c s mi) = ModeLevel"
  shows "isLevelSupported (Level (finalStep to c s mi)) (Levels s)"
proof (cases "Mode c = ModeNone \<and> to = ''claude''")
  case True
  with assms(2) show ?thesis
    by (auto simp: finalStep_def split: if_splits option.splits intro: lowestSupportedLevel_supported)
next
  case False
  then have "Mode (finalStep to c s mi) = Mode c"
    by (auto simp: finalStep_def Let_def split: option.splits)
  with assms(2) have "Mode c = ModeLevel" by simp
  with False assms(1) show ?thesis by (simp add: finalStep_def Let_def)
qed

lemma ValidateConfig_Inr:
  assumes "ValidateConfig config mi from to sfx = Inr c" "Option.bind mi MThinking = Some s"
  obtains a b d c1 c2 where "capabilityStep config mi = Inr (c1, d)"
    "levelStep a (specialStep c1) s mi = Inr c2" "budgetStep b d c2 s = Inr c2"
    "c = finalStep (ToLower (TrimSpace to)) (autoStep c2 s mi) s mi"
proof -
  from assms obtain a b d c1 c2 c3 where
    1: "capabilityStep config mi = Inr (c1, d)" and 2: "levelStep a (specialStep c1) s mi = Inr c2"
    and 3: "budgetStep b d c2 s = Inr c3"
    and 4: "c = finalStep (ToLower (TrimSpace to)) (autoStep c3 s mi) s mi"
    unfolding ValidateConfig_def Let_def 
    by (simp only: option.case sbind_Inr split_paired_Ex prod.case sum.inject) blast
  moreover from 3 have "c3 = c2" by (rule budgetStep_same)
  ultimately show ?thesis using that by blast
qed



text \<open>A budget that leaves the last step in budget mode has been clamped.\<close>

lemma specialStep_budget: "Mode (specialStep c) = ModeBudget \<Longrightarrow> Budget (specialStep c) \<noteq> 0"
  by (auto simp: specialStep_def Let_def split: if_splits)

lemma levelStep_mode_budget:
  "levelStep a c s mi = Inr c' \<Longrightarrow> Mode c' = Mode c \<and> Budget c' = Budget c"
  by (auto simp: levelStep_def Let_def split: if_splits)

lemma autoStep_budget:
  assumes "Mode c = ModeBudget \<Longrightarrow> Budget c \<noteq> 0" "Mode (autoStep c s mi) = ModeBudget"
    and "ZeroAllowed s"
  shows "Budget (autoStep c s mi) \<noteq> 0"
  using assms by (auto simp: autoStep_def convertAutoToMidRange_def Let_def split: if_splits)

lemma clampBudget_range:
  assumes "Option.bind mi MThinking = Some s" "TMin s \<le> TMax s" "TMin s \<noteq> 0 \<or> TMax s \<noteq> 0"
    and "ZeroAllowed s \<Longrightarrow> v \<noteq> 0"
  shows "clampBudget v mi = - 1 \<or> (TMin s \<le> clampBudget v mi \<and> clampBudget v mi \<le> TMax s)"
  using assms by (auto simp: clampBudget_def split: option.splits)

lemma finalStep_budget:
  assumes "Mode (finalStep to c s mi) = ModeBudget"
  shows "Mode c = ModeBudget \<and> Budget (finalStep to c s mi) = clampBudget (Budget c) mi"
  using assms by (auto simp: finalStep_def Let_def split: if_splits option.splits)



section \<open>Suffixes, levels and budgets\<close>

lemma HasSuffix_append_one: "HasSuffix (s @ [c]) [d] \<longleftrightarrow> c = d"
  by (auto simp: HasSuffix_def HasPrefix_def)

lemma HasSuffix_oneD: "HasSuffix s [c] \<Longrightarrow> s \<noteq> [] \<and> last s = c"
  by (cases s rule: rev_cases) (auto simp: HasSuffix_append_one HasSuffix_def HasPrefix_def)

lemma ParseSuffix_compose:
  assumes "CHR ''('' \<notin> set raw"
  shows "ParseSuffix (name @ ''('' @ raw @ '')'') =
    \<lparr>ModelName = name, HasSuffixFlag = True, RawSuffix = raw\<rparr>"
proof -
  have "LastIndex (name @ CHR ''('' # (raw @ '')'')) (CHR ''('') = Some (length name)"
    by (rule LastIndex_append_not_in) (use assms in simp)
  moreover have "HasSuffix ((name @ ''('' @ raw) @ '')'') '')''"
    by (simp only: HasSuffix_append_one)
  ultimately show ?thesis by (simp add: ParseSuffix_def)
qed

lemma ParseSuffix_decompose:
  assumes "HasSuffixFlag (ParseSuffix model)"
  shows "model = ModelName (ParseSuffix model) @ ''('' @ RawSuffix (ParseSuffix model) @ '')''
    \<and> CHR ''('' \<notin> set (RawSuffix (ParseSuffix model))"
proof -
  from assms obtain i where i: "LastIndex model (CHR ''('') = Some i" "HasSuffix model '')''"
    by (auto simp: ParseSuffix_def split: option.splits if_splits)
  from LastIndex_SomeD [OF i(1)] have
    m: "i < length model" "model ! i = CHR ''(''" "CHR ''('' \<notin> set (drop (Suc i) model)" by auto
  have split: "model = take i model @ CHR ''('' # drop (Suc i) model"
    using id_take_nth_drop [OF m(1)] m(2) by simp
  have last: "last model = CHR '')''" using HasSuffix_oneD [OF i(2)] by simp
  have ne: "drop (Suc i) model \<noteq> []"
  proof
    assume "drop (Suc i) model = []"
    then have "last model = last (take i model @ ''('')" using split by simp
    then show False using last by simp
  qed
  moreover have "last (drop (Suc i) model) = CHR '')''"
    using ne last by (simp add: last_drop)
  ultimately have "drop (Suc i) model = butlast (drop (Suc i) model) @ '')''"
    by (metis append_butlast_last_id)
  then show ?thesis using split m(3) i by (auto simp: ParseSuffix_def dest: in_set_butlastD)
qed

text \<open>
  Suffix parsing and suffix notation are inverse to each other: \<open>name(raw)\<close> parses
  into its two parts whenever \<open>raw\<close> has no opening parenthesis, and whenever a suffix is
  reported the model text is exactly \<open>ModelName(RawSuffix)\<close> for such a \<open>RawSuffix\<close>.
\<close>

theorem suffix_roundtrip:
  "(HasSuffixFlag (ParseSuffix model) \<and> ModelName (ParseSuffix model) = name
      \<and> RawSuffix (ParseSuffix model) = raw)
   = (model = name @ ''('' @ raw @ '')'' \<and> CHR ''('' \<notin> set raw)"
  using ParseSuffix_compose [of raw name] ParseSuffix_decompose [of model] by auto

text \<open>The canonical levels that denote a positive budget the budget scale distinguishes.\<close>

definition scaleLevels :: "string list" where
  "scaleLevels = [LevelMinimal, LevelLow, LevelMedium, LevelHigh, LevelXHigh]"

lemma scale_budgets:
  "map ConvertLevelToBudget scaleLevels = [Some 512, Some 1024, Some 8192, Some 24576, Some 32768]"
  by code_simp

lemma ConvertLevelToBudget_scale [simp]:
  "ConvertLevelToBudget LevelMinimal = Some 512" "ConvertLevelToBudget LevelLow = Some 1024"
  "ConvertLevelToBudget LevelMedium = Some 8192" "ConvertLevelToBudget LevelHigh = Some 24576"
  "ConvertLevelToBudget LevelXHigh = Some 32768" "ConvertLevelToBudget LevelNone = Some 0"
  "ConvertLevelToBudget LevelAuto = Some (- 1)" "ConvertLevelToBudget LevelMax = Some 128000"
  using scale_budgets by (simp_all add: scaleLevels_def) code_simp+

lemmas threshold_defs = ThresholdMinimal_def ThresholdLow_def ThresholdMedium_def ThresholdHigh_def

text \<open>
  Level names and token budgets form an adjoint pair.  A budget between 1 and the budget
  of \<open>xhigh\<close> is converted to the least level that covers it: the level \<open>l\<close> it yields covers a
  scale level's budget \<open>b\<close> if and only if \<open>budget\<close> does not exceed \<open>b\<close>.  In particular every scale
  level, \<open>none\<close> and \<open>auto\<close> survive the conversion to a budget and back.
\<close>

theorem level_budget_adjoint:
  assumes "0 < budget" and "budget \<le> 32768"
  shows "(\<exists>l c. ConvertBudgetToLevel budget = Some l \<and> l \<in> set scaleLevels
      \<and> ConvertLevelToBudget l = Some c
      \<and> (\<forall>l' b. l' \<in> set scaleLevels \<longrightarrow> ConvertLevelToBudget l' = Some b \<longrightarrow> (budget \<le> b \<longleftrightarrow> c \<le> b)))
    \<and> (\<forall>l \<in> set (LevelNone # LevelAuto # scaleLevels).
      Option.bind (ConvertLevelToBudget l) ConvertBudgetToLevel = Some l)"
  using assms by (auto simp: ConvertBudgetToLevel_def scaleLevels_def threshold_defs)

theorem level_budget_adjoint_witness:
  "(\<exists>l c. ConvertBudgetToLevel 5000 = Some l \<and> l \<in> set scaleLevels
      \<and> ConvertLevelToBudget l = Some c
      \<and> (\<forall>l' b. l' \<in> set scaleLevels \<longrightarrow> ConvertLevelToBudget l' = Some b \<longrightarrow> (5000 \<le> b \<longleftrightarrow> c \<le> b)))
   \<and> Option.bind (ConvertLevelToBudget LevelHigh) ConvertBudgetToLevel = Some LevelHigh"
  using level_budget_adjoint [of 5000] by (simp add: scaleLevels_def)

end
