(* ===== verification/CredentialWeight.thy ===== *)
theory CredentialWeight
  imports GoPrelude
begin

text \<open>
  Credential weights (\<open>src/internal/credentialweight/weight.go\<close>): the validation of an explicit
  weight and the parsers for scheduler attributes and for auth-file metadata values.  A value of
  Go's type \<open>any\<close>, as it occurs in a decoded auth file, is a \<open>goany\<close>; a finite
  \<open>float64\<close> is the rational number it denotes.
\<close>

section \<open>Dynamic values\<close>

datatype gofloat = FNaN | FInf bool | FNum rat

datatype goany =
    AInt int        \<comment> \<open>int, int8, ..., int64\<close>
  | AUint nat       \<comment> \<open>uint, uint8, ..., uint64\<close>
  | AFloat gofloat  \<comment> \<open>float64, and float32 after conversion\<close>
  | ANumber string  \<comment> \<open>json.Number\<close>
  | AString string
  | ABool bool
  | ANil
  | AOther          \<comment> \<open>any other dynamic type\<close>

section \<open>Parsing\<close>

datatype weight_error = ErrWeightMax | ErrWeightNotInteger

definition DefaultWeight :: int where "DefaultWeight = 1"

definition MaxWeight :: int where "MaxWeight = 1000000"

definition Normalize :: "int \<Rightarrow> weight_error + int" where
  "Normalize weight =
     (if weight \<le> 0 then Inr 0
      else if weight > MaxWeight then Inl ErrWeightMax
      else Inr weight)"

definition ParseString :: "string \<Rightarrow> weight_error + int" where
  "ParseString raw =
     (let raw = TrimSpace raw
      in if raw = [] then Inr DefaultWeight
         else case ParseInt raw of
                None \<Rightarrow> Inl ErrWeightNotInteger
              | Some weight \<Rightarrow> Normalize weight)"

fun ParseValue :: "goany \<Rightarrow> weight_error + int" where
  "ParseValue (AInt n) = Normalize n"
| "ParseValue (AUint n) = (if int n > MaxWeight then Inl ErrWeightMax else Inr (int n))"
| "ParseValue (AFloat FNaN) = Inl ErrWeightNotInteger"
| "ParseValue (AFloat (FInf _)) = Inl ErrWeightNotInteger"
| "ParseValue (AFloat (FNum q)) =
     (if of_int (floor q) \<noteq> q then Inl ErrWeightNotInteger
      else if q \<le> 0 then Inr 0
      else if q > of_int MaxWeight then Inl ErrWeightMax
      else Inr (floor q))"
| "ParseValue (ANumber s) =
     (case ParseInt s of None \<Rightarrow> Inl ErrWeightNotInteger | Some n \<Rightarrow> Normalize n)"
| "ParseValue (AString s) = ParseString s"
| "ParseValue (ABool _) = Inl ErrWeightNotInteger"
| "ParseValue ANil = Inl ErrWeightNotInteger"
| "ParseValue AOther = Inl ErrWeightNotInteger"

section \<open>Every accepted weight is in range\<close>

definition weight_ok :: "int \<Rightarrow> bool" where
  "weight_ok w \<longleftrightarrow> 0 \<le> w \<and> w \<le> MaxWeight"

lemma Normalize_range: "Normalize n = Inr w \<Longrightarrow> weight_ok w"
  by (auto simp: Normalize_def weight_ok_def MaxWeight_def split: if_splits)

lemma Normalize_id: "weight_ok w \<Longrightarrow> Normalize w = Inr w"
  by (auto simp: Normalize_def weight_ok_def)

lemma Normalize_error: "Normalize n = Inl e \<longleftrightarrow> n > MaxWeight \<and> e = ErrWeightMax"
  by (auto simp: Normalize_def MaxWeight_def split: if_splits)

lemma ParseString_range: "ParseString s = Inr w \<Longrightarrow> weight_ok w"
  by (auto simp: ParseString_def Let_def weight_ok_def MaxWeight_def DefaultWeight_def Normalize_def
      split: if_splits option.splits)

lemma ParseValue_range: "ParseValue v = Inr w \<Longrightarrow> weight_ok w"
proof (cases v)
  case (AFloat f)
  assume "ParseValue v = Inr w"
  with AFloat show ?thesis
    by (cases f) (auto simp: weight_ok_def MaxWeight_def floor_le_iff split: if_splits)
qed (auto simp: weight_ok_def MaxWeight_def Normalize_def dest: ParseString_range [unfolded weight_ok_def MaxWeight_def]
    split: if_splits option.splits)

text \<open>
  Every weight the parser accepts, from whatever dynamic type it comes, lies between 0 and
  \<open>MaxWeight\<close>, and parsing the accepted weight again (as an integer) changes nothing.
\<close>

theorem parsed_weight_in_range:
  assumes "ParseValue v = Inr w"
  shows "0 \<le> w \<and> w \<le> MaxWeight \<and> ParseValue (AInt w) = Inr w"
  using ParseValue_range [OF assms] by (simp add: Normalize_id weight_ok_def)

theorem parsed_weight_in_range_witness:
  "ParseValue (AString '' 25 '') = Inr 25 \<and> 0 \<le> (25::int) \<and> 25 \<le> MaxWeight
    \<and> ParseValue (AInt 25) = Inr 25"
proof -
  have "ParseValue (AString '' 25 '') = Inr 25" by code_simp
  with parsed_weight_in_range [OF this] show ?thesis by simp
qed

end
