(* ===== verification/AuthTypes.thy ===== *)
theory AuthTypes
  imports CredentialWeight Thinking
begin

text \<open>
  The credential record of \<open>src/sdk/cliproxy/auth\<close> and the functions that read scheduling
  attributes from it (\<open>types.go\<close>, \<open>status.go\<close>, \<open>errors.go\<close>, \<open>selector.go\<close>).

  \<^item> \<open>Auth\<close> keeps the fields the selection, scheduling, cooldown and result code reads or
    writes.  Storage handles, proxy settings, labels for humans and renewal bookkeeping are left
    out: no modelled operation touches them.
  \<^item> A \<open>*ModelState\<close> in the map \<open>ModelStates\<close> may be nil, so its values are options.
    A shadow state never carries a shadow of its own (\<open>cloneShallow\<close> drops it), so the shadow
    field is an extension of a base record.
  \<^item> Nil maps and empty maps are the same empty list: the code only ranges over them, looks up
    and takes their length.
\<close>

section \<open>Records\<close>

type_synonym Status = string

definition StatusUnknown :: Status where "StatusUnknown = ''unknown''"
definition StatusActive :: Status where "StatusActive = ''active''"
definition StatusPending :: Status where "StatusPending = ''pending''"
definition StatusRefreshing :: Status where "StatusRefreshing = ''refreshing''"
definition StatusError :: Status where "StatusError = ''error''"
definition StatusDisabled :: Status where "StatusDisabled = ''disabled''"

lemmas status_defs = StatusUnknown_def StatusActive_def StatusPending_def StatusRefreshing_def
  StatusError_def StatusDisabled_def

lemma status_distinct [simp]:
  "StatusActive \<noteq> StatusDisabled" "StatusError \<noteq> StatusDisabled" "StatusActive \<noteq> StatusError"
  "StatusDisabled \<noteq> StatusActive" "StatusDisabled \<noteq> StatusError" "StatusError \<noteq> StatusActive"
  by (simp_all add: status_defs)

record Error =
  Code :: string
  Message :: string
  Retryable :: bool
  HTTPStatus :: int

record QuotaState =
  Exceeded :: bool
  Reason :: string
  NextRecoverAt :: gotime
  BackoffLevel :: int
  ObservedAt :: gotime
  Signals :: "(string, string) gomap"

definition emptyQuota :: QuotaState where
  "emptyQuota = \<lparr>Exceeded = False, Reason = [], NextRecoverAt = 0, BackoffLevel = 0,
     ObservedAt = 0, Signals = []\<rparr>"

record ModelStateBase =
  MStatus :: Status
  MStatusMessage :: string
  MUnavailable :: bool
  MNextRetryAfter :: gotime
  MLastError :: "Error option"
  MQuota :: QuotaState
  MUpdatedAt :: gotime
  McooldownRecordedSeq :: nat
  credentialQuotaPropagated :: bool

record ModelState = ModelStateBase +
  credentialQuotaShadow :: "ModelStateBase option"

definition emptyModelState :: ModelState where
  "emptyModelState = \<lparr>MStatus = [], MStatusMessage = [], MUnavailable = False, MNextRetryAfter = 0,
     MLastError = None, MQuota = emptyQuota, MUpdatedAt = 0, McooldownRecordedSeq = 0,
     credentialQuotaPropagated = False, credentialQuotaShadow = None\<rparr>"

text \<open>\<open>cloneShallow\<close> yields the base layer; \<open>withoutShadow\<close> is the same value as a full state.\<close>

definition cloneShallow :: "ModelState \<Rightarrow> ModelStateBase" where
  "cloneShallow m = ModelStateBase.truncate m"

definition withoutShadow :: "ModelStateBase \<Rightarrow> ModelState" where
  "withoutShadow b = ModelStateBase.extend b \<lparr>credentialQuotaShadow = None\<rparr>"

record recentRequestBucket =
  bucketID :: int
  bsuccess :: int
  bfailed :: int

record Auth =
  ID :: string
  RegistrationEpoch :: nat
  CredentialVersion :: nat
  Generation :: nat
  Provider :: string
  Label :: string
  FileName :: string
  Status :: Status
  StatusMessage :: string
  Disabled :: bool
  Unavailable :: bool
  Attributes :: "(string, string) gomap"
  Metadata :: "(string, goany) gomap"
  Quota :: QuotaState
  LastError :: "Error option"
  UpdatedAt :: gotime
  LastRefreshedAt :: gotime
  NextRefreshAfter :: gotime
  NextRetryAfter :: gotime
  ModelStates :: "(string, ModelState option) gomap"
  InferenceVerified :: bool
  LastInferenceVerifiedAt :: gotime
  Success :: int
  Failed :: int
  cooldownRecordedSeq :: nat
  recentRequests :: "recentRequestBucket list"
  RejectedAccessToken :: string
  RejectedSIWCAccessToken :: string

definition recentRequestBucketCount :: nat where "recentRequestBucketCount = 20"

definition emptyRing :: "recentRequestBucket list" where
  "emptyRing = replicate recentRequestBucketCount \<lparr>bucketID = 0, bsuccess = 0, bfailed = 0\<rparr>"

text \<open>The zero value of \<open>Auth\<close>.\<close>

definition emptyAuth :: Auth where
  "emptyAuth = \<lparr>ID = [], RegistrationEpoch = 0, CredentialVersion = 0, Generation = 0, Provider = [],
     Label = [], FileName = [], Status = [], StatusMessage = [], Disabled = False, Unavailable = False,
     Attributes = [], Metadata = [], Quota = emptyQuota, LastError = None, UpdatedAt = 0,
     LastRefreshedAt = 0, NextRefreshAfter = 0, NextRetryAfter = 0, ModelStates = [],
     InferenceVerified = False, LastInferenceVerifiedAt = 0, Success = 0, Failed = 0,
     cooldownRecordedSeq = 0, recentRequests = emptyRing, RejectedAccessToken = [],
     RejectedSIWCAccessToken = []\<rparr>"

section \<open>Scheduling attributes\<close>

text \<open>\<open>m[k]\<close> of a map of strings: the empty string when the key is absent.\<close>

definition str_get :: "(string, string) gomap \<Rightarrow> string \<Rightarrow> string" where
  "str_get m k = (case map_of m k of None \<Rightarrow> [] | Some v \<Rightarrow> v)"

definition authPriority :: "Auth option \<Rightarrow> int" where
  "authPriority auth =
     (case auth of
        None \<Rightarrow> 0
      | Some a \<Rightarrow>
         (let raw = TrimSpace (str_get (Attributes a) ''priority'')
          in if raw = [] then 0
             else case ParseInt raw of None \<Rightarrow> 0 | Some parsed \<Rightarrow> parsed))"

definition weight_or_zero :: "weight_error + int \<Rightarrow> int" where
  "weight_or_zero r = (case r of Inl _ \<Rightarrow> 0 | Inr w \<Rightarrow> w)"

definition authWeight :: "Auth option \<Rightarrow> int" where
  "authWeight auth =
     (case auth of
        None \<Rightarrow> DefaultWeight
      | Some a \<Rightarrow>
         (case map_of (Attributes a) ''weight'' of
            Some rawWeight \<Rightarrow>
              if TrimSpace rawWeight \<noteq> [] then weight_or_zero (ParseString rawWeight)
              else (case map_of (Metadata a) ''weight'' of
                      Some v \<Rightarrow> weight_or_zero (ParseValue v)
                    | None \<Rightarrow> DefaultWeight)
          | None \<Rightarrow>
             (case map_of (Metadata a) ''weight'' of
                Some v \<Rightarrow> weight_or_zero (ParseValue v)
              | None \<Rightarrow> DefaultWeight)))"

definition canonicalModelKey :: "string \<Rightarrow> string" where
  "canonicalModelKey model =
     (let model = TrimSpace model
      in if model = [] then []
         else (let modelName = TrimSpace (ModelName (ParseSuffix model))
               in if modelName = [] then model else modelName))"

definition metadataWebsockets :: "(string, goany) gomap \<Rightarrow> bool" where
  "metadataWebsockets md =
     (case map_of md ''websockets'' of
        Some (ABool b) \<Rightarrow> b
      | Some (AString s) \<Rightarrow> ParseBool (TrimSpace s) = Some True
      | _ \<Rightarrow> False)"

definition authWebsocketsEnabled :: "Auth option \<Rightarrow> bool" where
  "authWebsocketsEnabled auth =
     (case auth of
        None \<Rightarrow> False
      | Some a \<Rightarrow>
         (let raw = TrimSpace (str_get (Attributes a) ''websockets'')
          in case (if raw = [] then None else ParseBool raw) of
               Some parsed \<Rightarrow> parsed
             | None \<Rightarrow> metadataWebsockets (Metadata a)))"

definition OpenAICompatibleProviderKey :: "string \<Rightarrow> string" where
  "OpenAICompatibleProviderKey name =
     (let name = ToLower (TrimSpace name)
      in if name = [] then ''openai-compatibility''
         else if name = ''openai-compatibility'' \<or> HasPrefix name ''openai-compatible-'' then name
         else ''openai-compatible-'' @ name)"

definition canonicalSchedulingProvider :: "string \<Rightarrow> string" where
  "canonicalSchedulingProvider key =
     (let lower = ToLower (TrimSpace key)
      in if lower = ''kimi.com'' then ''kimi''
         else if lower = ''kimi.ai'' then ''kimi-ai''
         else lower)"

definition executorKeyFromAuth :: "Auth option \<Rightarrow> string" where
  "executorKeyFromAuth auth =
     (case auth of
        None \<Rightarrow> []
      | Some a \<Rightarrow>
         (let providerKey = TrimSpace (str_get (Attributes a) ''provider_key'');
              compatName = TrimSpace (str_get (Attributes a) ''compat_name'')
          in if compatName \<noteq> [] then
               OpenAICompatibleProviderKey (if providerKey = [] then compatName else providerKey)
             else if EqualFold (TrimSpace (Provider a)) ''openai-compatibility'' then
               (let providerKey = TrimSpace (Label a)
                in OpenAICompatibleProviderKey
                     (if providerKey = [] then ''openai-compatibility'' else providerKey))
             else
               (let provider = ToLower (TrimSpace (Provider a))
                in if provider = ''kimi.com'' then ''kimi''
                   else if provider = ''kimi.ai'' then ''kimi-ai''
                   else provider)))"

lemma weight_or_zero_ok: "(\<And>w. r = Inr w \<Longrightarrow> weight_ok w) \<Longrightarrow> weight_ok (weight_or_zero r)"
  by (cases r) (auto simp: weight_or_zero_def weight_ok_def MaxWeight_def)

text \<open>The weight of any credential lies between 0 and \<open>MaxWeight\<close>: invalid text counts as 0.\<close>

lemma authWeight_ok: "weight_ok (authWeight auth)"
proof -
  have d: "weight_ok DefaultWeight" by (simp add: weight_ok_def DefaultWeight_def MaxWeight_def)
  show ?thesis
    by (auto simp: authWeight_def d split: option.splits
        intro!: weight_or_zero_ok dest: ParseString_range ParseValue_range)
qed

lemma authPriority_range: "in_int64 (authPriority auth)"
  by (auto simp: authPriority_def Let_def split: option.splits dest: ParseInt_range)

section \<open>Errors\<close>

text \<open>
  The values the selection code returns as \<open>error\<close>.  \<open>cause_err\<close> is a candidate's last error:
  an \<open>*Error\<close> or an \<open>errors.New\<close> text.  The four wrappers keep base error, cause and, for the
  two that carry a deadline, the duration until it.
\<close>

datatype cause_err = CauseError Error | CauseText string

datatype auth_error =
    PlainError Error
  | ErrorWithCause Error cause_err
  | ModelCooldownError string string duration "cause_err option"
      \<comment> \<open>model, provider, resetIn, cause\<close>
  | AuthUnavailableError Error duration "cause_err option"
  | TerminalAuthError Error "cause_err option"

definition errNew :: "string \<Rightarrow> string \<Rightarrow> Error" where
  "errNew code msg = \<lparr>Code = code, Message = msg, Retryable = False, HTTPStatus = 0\<rparr>"

definition WithCause :: "Error \<Rightarrow> cause_err option \<Rightarrow> auth_error" where
  "WithCause err cause = (case cause of None \<Rightarrow> PlainError err | Some c \<Rightarrow> ErrorWithCause err c)"

definition newModelCooldownErrorWithCause ::
  "string \<Rightarrow> string \<Rightarrow> duration \<Rightarrow> cause_err option \<Rightarrow> auth_error" where
  "newModelCooldownErrorWithCause model provider resetIn cause =
     ModelCooldownError model provider (if resetIn < 0 then 0 else resetIn) cause"

definition newAuthUnavailableErrorWithCause ::
  "gotime \<Rightarrow> gotime \<Rightarrow> cause_err option \<Rightarrow> auth_error" where
  "newAuthUnavailableErrorWithCause next now cause =
     (let err = errNew ''auth_unavailable'' ''no auth available''
      in if After next now then
           AuthUnavailableError (err\<lparr>HTTPStatus := 503, Retryable := True\<rparr>) (time_Sub next now) cause
         else WithCause err cause)"

definition NewTerminalAuthError :: "Error \<Rightarrow> cause_err option \<Rightarrow> auth_error" where
  "NewTerminalAuthError err cause = TerminalAuthError err cause"

text \<open>\<open>StatusCode\<close> of the wrappers.\<close>

fun StatusCode :: "auth_error \<Rightarrow> int" where
  "StatusCode (PlainError e) = HTTPStatus e"
| "StatusCode (ErrorWithCause e _) = HTTPStatus e"
| "StatusCode (ModelCooldownError _ _ _ _) = 429"
| "StatusCode (AuthUnavailableError e _ _) = HTTPStatus e"
| "StatusCode (TerminalAuthError e _) = HTTPStatus e"

end
