(* ===== verification/RecentRequests.thy ===== *)
theory RecentRequests
  imports AuthTypes
begin

text \<open>
  The ring of recent request counters in \<open>src/sdk/cliproxy/auth/types.go\<close>: twenty ten-minute
  buckets addressed by bucket number modulo twenty, reset lazily when a slot is reused.  The
  theory shows that the snapshot equals a recount over the complete history of requests.

  The label of a bucket depends on the local time zone, so \<open>RecentRequestsSnapshot\<close> takes the
  formatting function as an argument.
\<close>

section \<open>Operations\<close>

definition recentRequestBucketSeconds :: int where "recentRequestBucketSeconds = 600"

text \<open>Seconds between Go's zero time (year 1) and the Unix epoch.\<close>

definition unixOffset :: int where "unixOffset = 62135596800"

definition Unix :: "gotime \<Rightarrow> int" where
  "Unix t = t div Second - unixOffset"

definition recentRequestBucketID :: "gotime \<Rightarrow> int" where
  "recentRequestBucketID now =
     (if IsZero now then 0 else go_div (Unix now) recentRequestBucketSeconds)"

text \<open>Go's \<open>%\<close> takes the sign of the dividend; the code then adds the count to a negative result.\<close>

definition recentRequestBucketIndex :: "int \<Rightarrow> nat" where
  "recentRequestBucketIndex b =
     (let m = sgn b * (\<bar>b\<bar> mod int recentRequestBucketCount)
      in nat (if m < 0 then m + int recentRequestBucketCount else m))"

definition bump :: "bool \<Rightarrow> recentRequestBucket \<Rightarrow> recentRequestBucket" where
  "bump success b =
     (if success then b\<lparr>bsuccess := wrap64 (bsuccess b + 1)\<rparr>
      else b\<lparr>bfailed := wrap64 (bfailed b + 1)\<rparr>)"

definition recordRing ::
  "gotime \<Rightarrow> bool \<Rightarrow> recentRequestBucket list \<Rightarrow> recentRequestBucket list" where
  "recordRing now success ring =
     (let b = recentRequestBucketID now;
          idx = recentRequestBucketIndex b;
          bucket = ring ! idx;
          bucket = (if bucketID bucket \<noteq> b then \<lparr>bucketID = b, bsuccess = 0, bfailed = 0\<rparr> else bucket)
      in ring[idx := bump success bucket])"

definition recordRecentRequest :: "Auth \<Rightarrow> gotime \<Rightarrow> bool \<Rightarrow> Auth" where
  "recordRecentRequest a now success =
     a\<lparr>recentRequests := recordRing now success (recentRequests a)\<rparr>"

definition RecentRequestsSnapshot ::
  "(int \<Rightarrow> string) \<Rightarrow> Auth option \<Rightarrow> gotime \<Rightarrow> (string \<times> int \<times> int) list" where
  "RecentRequestsSnapshot label auth now =
     (case auth of
        None \<Rightarrow> []
      | Some a \<Rightarrow>
          map (\<lambda>i. let b = recentRequestBucketID now - int i;
                       bucket = recentRequests a ! recentRequestBucketIndex b
                   in if bucketID bucket = b then (label b, bsuccess bucket, bfailed bucket)
                      else (label b, 0, 0))
            (rev [0..<recentRequestBucketCount]))"

section \<open>The ring against the full history\<close>

type_synonym history = "(gotime \<times> bool) list"

definition count_in :: "history \<Rightarrow> int \<Rightarrow> bool \<Rightarrow> int" where
  "count_in h b success =
     int (length (filter (\<lambda>(t, s). recentRequestBucketID t = b \<and> s = success) h))"

definition replay :: "history \<Rightarrow> Auth \<Rightarrow> Auth" where
  "replay h a = fold (\<lambda>(t, s) a. recordRecentRequest a t s) h a"

lemma recentRequestBucketIndex_mod: "recentRequestBucketIndex b = nat (b mod 20)"
proof -
  have "sgn b * (\<bar>b\<bar> mod 20) = (if b < 0 \<and> b mod 20 \<noteq> 0 then b mod 20 - 20 else b mod 20)"
    using zmod_zminus1_eq_if [of b 20] by (cases "b < 0") (auto simp: sgn_if)
  moreover have "0 \<le> b mod 20" "b mod 20 < 20" by simp_all
  ultimately show ?thesis
    by (auto simp: recentRequestBucketIndex_def recentRequestBucketCount_def Let_def)
qed

lemma recentRequestBucketIndex_less [simp]: "recentRequestBucketIndex b < recentRequestBucketCount"
  by (simp add: recentRequestBucketIndex_mod recentRequestBucketCount_def nat_less_iff)

lemma recentRequestBucketIndex_eq:
  "recentRequestBucketIndex b = recentRequestBucketIndex c \<longleftrightarrow> b mod 20 = c mod 20"
  by (simp add: recentRequestBucketIndex_mod eq_nat_nat_iff)

text \<open>Two bucket numbers less than twenty apart that share a slot are equal.\<close>

lemma same_slot_close:
  assumes "recentRequestBucketIndex b = recentRequestBucketIndex c" and "b \<le> c" and "c - b < 20"
  shows "b = c"
proof -
  from assms(1) have "c mod 20 = b mod 20" using recentRequestBucketIndex_eq by metis
  then have "(c - b) mod 20 = 0" by (simp only: mod_eq_dvd_iff dvd_imp_mod_0)
  moreover have "(c - b) mod 20 = c - b" using assms by (simp add: mod_pos_pos_trivial)
  ultimately show ?thesis by simp
qed

text \<open>
  The invariant of the ring after a history: a slot some request fell into holds the newest bucket
  number recorded in it, and a slot whose bucket number belongs to it holds that bucket's counts.
\<close>

abbreviation bucket_of :: "gotime \<times> bool \<Rightarrow> int" where
  "bucket_of e \<equiv> recentRequestBucketID (fst e)"

definition slot_ok :: "history \<Rightarrow> nat \<Rightarrow> recentRequestBucket \<Rightarrow> bool" where
  "slot_ok h idx bk \<longleftrightarrow>
     (\<forall>e \<in> set h. recentRequestBucketIndex (bucket_of e) = idx \<longrightarrow>
        bucket_of e \<le> bucketID bk \<and> bucketID bk \<in> bucket_of ` set h
        \<and> recentRequestBucketIndex (bucketID bk) = idx)
     \<and> (recentRequestBucketIndex (bucketID bk) = idx \<longrightarrow>
          bsuccess bk = count_in h (bucketID bk) True \<and> bfailed bk = count_in h (bucketID bk) False)"

definition ring_ok :: "history \<Rightarrow> recentRequestBucket list \<Rightarrow> bool" where
  "ring_ok h ring \<longleftrightarrow> length ring = recentRequestBucketCount
     \<and> (\<forall>idx < recentRequestBucketCount. slot_ok h idx (ring ! idx))"

lemma count_in_Nil [simp]: "count_in [] b s = 0"
  by (simp add: count_in_def)

lemma count_in_append:
  "count_in (h @ [(t, s)]) b s' =
     count_in h b s' + (if recentRequestBucketID t = b \<and> s = s' then 1 else 0)"
  by (simp add: count_in_def)

lemma count_in_zero: "b \<notin> bucket_of ` set h \<Longrightarrow> count_in h b s = 0"
  by (force simp: count_in_def filter_empty_conv)

lemma ring_ok_empty: "ring_ok [] emptyRing"
  by (simp add: ring_ok_def slot_ok_def emptyRing_def)

lemma slot_ok_other:
  assumes "slot_ok h idx bk" and "recentRequestBucketIndex (recentRequestBucketID t) \<noteq> idx"
  shows "slot_ok (h @ [(t, s)]) idx bk"
  using assms by (auto simp: slot_ok_def count_in_append)

lemma slot_ok_record:
  fixes t :: gotime
  defines "b \<equiv> recentRequestBucketID t"
  assumes ok: "slot_ok h (recentRequestBucketIndex b) bk"
    and mono: "\<forall>e \<in> set h. bucket_of e \<le> b" and len: "int (length h) < maxInt64"
  shows "slot_ok (h @ [(t, s)]) (recentRequestBucketIndex b)
    (bump s (if bucketID bk \<noteq> b then \<lparr>bucketID = b, bsuccess = 0, bfailed = 0\<rparr> else bk))"
proof -
  have in64: "in_int64 (count_in h b s' + 1)" for s'
  proof -
    have "count_in h b s' \<le> int (length h)" "0 \<le> count_in h b s'"
      by (simp_all add: count_in_def)
    then show ?thesis using len by (simp add: int64_defs)
  qed
  have fresh: "bucketID bk \<noteq> b \<Longrightarrow> count_in h b s' = 0" for s'
  proof (rule count_in_zero, rule notI)
    assume ne: "bucketID bk \<noteq> b" and "b \<in> bucket_of ` set h"
    then obtain e where e: "e \<in> set h" "bucket_of e = b" by auto
    with ok have "b \<le> bucketID bk" "bucketID bk \<in> bucket_of ` set h" by (auto simp: slot_ok_def)
    with mono ne show False by auto
  qed
  show ?thesis
  proof (cases "bucketID bk = b")
    case True
    then have "bsuccess bk = count_in h b True" "bfailed bk = count_in h b False"
      using ok by (auto simp: slot_ok_def)
    with True mono in64 show ?thesis
      by (auto simp: slot_ok_def bump_def count_in_append b_def [symmetric])
  next
    case False
    with mono fresh in64 show ?thesis
      by (auto simp: slot_ok_def bump_def count_in_append b_def [symmetric])
  qed
qed

lemma ring_ok_record:
  assumes "ring_ok h ring" and "\<forall>e \<in> set h. bucket_of e \<le> recentRequestBucketID t"
    and "int (length h) < maxInt64"
  shows "ring_ok (h @ [(t, s)]) (recordRing t s ring)"
proof -
  let ?idx = "recentRequestBucketIndex (recentRequestBucketID t)"
  have len: "length ring = recentRequestBucketCount" and slots:
    "\<And>idx. idx < recentRequestBucketCount \<Longrightarrow> slot_ok h idx (ring ! idx)"
    using assms(1) by (auto simp: ring_ok_def)
  have "slot_ok (h @ [(t, s)]) idx (recordRing t s ring ! idx)" if "idx < recentRequestBucketCount" for idx
  proof (cases "idx = ?idx")
    case True
    with slot_ok_record [OF slots assms(2,3), of s] len show ?thesis
      by (simp add: recordRing_def Let_def)
  next
    case False
    with slots [OF that] show ?thesis
      by (simp add: recordRing_def Let_def slot_ok_other)
  qed
  with len show ?thesis by (simp add: ring_ok_def recordRing_def Let_def)
qed

lemma replay_recentRequests:
  "recentRequests (replay h a) = fold (\<lambda>(t, s) r. recordRing t s r) h (recentRequests a)"
  unfolding replay_def
  by (induction h arbitrary: a) (auto simp: recordRecentRequest_def)

lemma ring_ok_replay:
  assumes "sorted (map bucket_of h)" and "int (length h) \<le> maxInt64"
  shows "ring_ok h (fold (\<lambda>(t, s) r. recordRing t s r) h emptyRing)"
  using assms
proof (induction h rule: rev_induct)
  case (snoc e h)
  obtain t s where e: "e = (t, s)" by (cases e)
  with snoc.prems have "ring_ok h (fold (\<lambda>(t, s) r. recordRing t s r) h emptyRing)"
    by (intro snoc.IH) (auto simp: sorted_append)
  moreover have "\<forall>e \<in> set h. bucket_of e \<le> recentRequestBucketID t"
    using snoc.prems e by (auto simp: sorted_append)
  ultimately show ?case
    using ring_ok_record [of h _ t s] snoc.prems e by simp
qed (simp add: ring_ok_empty)

lemma ring_ok_lookup:
  assumes "ring_ok h ring" and "\<forall>e \<in> set h. bucket_of e \<le> cur" and "b \<le> cur" and "cur - b < 20"
  shows "(let bk = ring ! recentRequestBucketIndex b
          in if bucketID bk = b then (label b, bsuccess bk, bfailed bk) else (label b, 0, 0))
         = (label b, count_in h b True, count_in h b False)"
proof (cases "bucketID (ring ! recentRequestBucketIndex b) = b")
  case True
  with assms(1) show ?thesis
    by (auto simp: ring_ok_def slot_ok_def Let_def dest!: spec [of _ "recentRequestBucketIndex b"])
next
  case False
  let ?bk = "ring ! recentRequestBucketIndex b"
  have "b \<notin> bucket_of ` set h"
  proof
    assume "b \<in> bucket_of ` set h"
    then obtain e where e: "e \<in> set h" "bucket_of e = b" by auto
    with assms(1) have "b \<le> bucketID ?bk" "bucketID ?bk \<in> bucket_of ` set h"
      "recentRequestBucketIndex (bucketID ?bk) = recentRequestBucketIndex b"
      by (auto simp: ring_ok_def slot_ok_def)
    with assms have "b = bucketID ?bk" by (intro same_slot_close) force+
    with False show False by simp
  qed
  with False show ?thesis by (simp add: Let_def count_in_zero)
qed

lemma Unix_mono: "t \<le> u \<Longrightarrow> Unix t \<le> Unix u"
  by (simp add: Unix_def zdiv_mono1 Second_def)

lemma recentRequestBucketID_mono:
  "t \<le> u \<Longrightarrow> unixOffset * Second \<le> t \<Longrightarrow> recentRequestBucketID t \<le> recentRequestBucketID u"
proof -
  assume tu: "t \<le> u" and t: "unixOffset * Second \<le> t"
  then have "0 \<le> Unix t" "Unix t \<le> Unix u"
    using zdiv_mono1 [OF t, of Second] Unix_mono by (simp_all add: Unix_def Second_def)
  moreover have "t \<noteq> 0" "u \<noteq> 0" using t tu by (simp_all add: unixOffset_def Second_def)
  ultimately show ?thesis
    by (simp add: recentRequestBucketID_def go_div_nonneg recentRequestBucketSeconds_def zdiv_mono1)
qed

text \<open>
  Claim C40. For every history of requests recorded in order of time since the Unix epoch, the
  snapshot taken at \<open>now\<close> lists the twenty most recent ten-minute buckets, oldest first, with the
  exact number of successes and failures that fell into each: reusing slots modulo twenty never
  loses a count inside the window and never reports one from outside it.
\<close>

theorem recent_requests_exact:
  assumes "sorted (map fst h)" and "\<forall>t \<in> fst ` set h. unixOffset * Second \<le> t \<and> t \<le> now"
    and "int (length h) \<le> maxInt64" and "recentRequests a = emptyRing"
  shows "RecentRequestsSnapshot label (Some (replay h a)) now =
    map (\<lambda>i. let b = recentRequestBucketID now - int i in (label b, count_in h b True, count_in h b False))
      (rev [0..<20])"
proof -
  let ?cur = "recentRequestBucketID now"
  have "sorted (map bucket_of h)"
    using assms(1,2) by (induction h) (auto intro!: recentRequestBucketID_mono)
  then have ok: "ring_ok h (recentRequests (replay h a))"
    using ring_ok_replay assms by (simp add: replay_recentRequests)
  have "\<forall>e \<in> set h. bucket_of e \<le> ?cur"
    using assms(2) by (auto intro!: recentRequestBucketID_mono)
  then show ?thesis
    unfolding RecentRequestsSnapshot_def recentRequestBucketCount_def option.case Let_def
    by (intro map_cong refl ring_ok_lookup [OF ok, of ?cur, unfolded Let_def]) auto
qed

theorem recent_requests_exact_witness:
  "(let base = unixOffset * Second; h = [(base + 5, True), (base + 700 * Second, False), (base + 12001 * Second, True)]
    in RecentRequestsSnapshot (\<lambda>_. []) (Some (replay h emptyAuth)) (base + 12001 * Second)
       = map (\<lambda>i. let b = recentRequestBucketID (base + 12001 * Second) - int i
                  in ([], count_in h b True, count_in h b False)) (rev [0..<20]))"
  unfolding Let_def
  by (rule recent_requests_exact [unfolded Let_def])
    (auto simp: unixOffset_def Second_def maxInt64_def emptyAuth_def)

end
