(* ===== verification/Availability.thy ===== *)
theory Availability
  imports AuthTypes
begin

text \<open>
  When a credential may serve a model (\<open>selector.go\<close>, \<open>conductor_cooldown.go\<close> and
  \<open>scheduler.go\<close> under \<open>src/sdk/cliproxy/auth\<close>).

  The time an access token expires is read from token text (JWT decoding, several metadata
  layouts); it enters as the function \<open>accessExp\<close>, and every result holds for all such
  functions.  For a call with a request context \<open>accessExp\<close> stands for
  \<open>AccessTokenExpirationTimeForRequest\<close> of that context, for a call without one it is
  \<open>AccessTokenExpirationTime\<close>.

  The checks depend on the clock.  The locale \<open>availability_oracle\<close> states how their answers
  for one credential evolve while time passes; the scheduler is verified against that interface.
\<close>

section \<open>The checks\<close>

datatype blockReason = blockReasonNone | blockReasonCooldown | blockReasonDisabled | blockReasonOther

type_synonym block = "bool \<times> blockReason \<times> gotime"

abbreviation blocked :: "block \<Rightarrow> bool" where "blocked b \<equiv> fst b"
abbreviation reason :: "block \<Rightarrow> blockReason" where "reason b \<equiv> fst (snd b)"
abbreviation next_at :: "block \<Rightarrow> gotime" where "next_at b \<equiv> snd (snd b)"

definition notBlocked :: block where "notBlocked = (False, blockReasonNone, 0)"

definition latest_after :: "gotime \<Rightarrow> gotime list \<Rightarrow> gotime" where
  "latest_after now cs =
     fold (\<lambda>candidate next.
       if After candidate now \<and> (IsZero next \<or> After candidate next) then candidate else next) cs 0"

definition availabilityBlock :: "bool \<Rightarrow> bool \<Rightarrow> gotime \<Rightarrow> gotime \<Rightarrow> gotime \<Rightarrow> block" where
  "availabilityBlock unavailable quotaExceeded nextRetryAfter nextRecoverAt now =
     (if \<not> unavailable \<and> \<not> quotaExceeded then notBlocked
      else
        (let hasRecoveryTime = (\<not> IsZero nextRetryAfter \<or> \<not> IsZero nextRecoverAt);
             next = latest_after now [nextRetryAfter, nextRecoverAt]
         in if \<not> IsZero next then
              (True, if quotaExceeded then blockReasonCooldown else blockReasonOther, next)
            else if hasRecoveryTime then notBlocked
            else (True, blockReasonOther, 0)))"

definition hasUnauthorizedAuthFailure :: "Auth option \<Rightarrow> bool" where
  "hasUnauthorizedAuthFailure auth =
     (case auth of
        None \<Rightarrow> False
      | Some a \<Rightarrow>
         (case LastError a of
            None \<Rightarrow> False
          | Some e \<Rightarrow>
              Unavailable a \<and> Status a = StatusError \<and> IsZero (NextRefreshAfter a)
              \<and> IsZero (NextRetryAfter a)
              \<and> (HTTPStatus e = 401 \<or> EqualFold (Code e) ''unauthorized'')))"

definition tokenExpired :: "(Auth \<Rightarrow> gotime option) \<Rightarrow> Auth \<Rightarrow> gotime \<Rightarrow> bool" where
  "tokenExpired accessExp a now \<longleftrightarrow>
     (case accessExp a of None \<Rightarrow> False | Some expAt \<Rightarrow> \<not> IsZero expAt \<and> \<not> After expAt now)"

definition credentialQuotaActive :: "Auth \<Rightarrow> gotime \<Rightarrow> bool" where
  "credentialQuotaActive a now \<longleftrightarrow>
     Exceeded (Quota a) \<and> Reason (Quota a) = ''credential_quota'' \<and> After (NextRecoverAt (Quota a)) now"

definition stateBlock :: "ModelState \<Rightarrow> gotime \<Rightarrow> block" where
  "stateBlock s now =
     availabilityBlock (MUnavailable s) (Exceeded (MQuota s)) (MNextRetryAfter s)
       (NextRecoverAt (MQuota s)) now"

text \<open>The loop over \<open>auth.ModelStates\<close>; the accumulator is \<open>matched\<close> and the block so far.\<close>

fun stateLoop ::
  "string \<Rightarrow> gotime \<Rightarrow> (string, ModelState option) gomap \<Rightarrow> bool \<Rightarrow> block \<Rightarrow> block" where
  "stateLoop modelKey now [] matched acc = (if matched then acc else notBlocked)"
| "stateLoop modelKey now ((stateModel, None) # ss) matched acc =
     stateLoop modelKey now ss matched acc"
| "stateLoop modelKey now ((stateModel, Some state) # ss) matched acc =
     (if canonicalModelKey stateModel \<noteq> modelKey then stateLoop modelKey now ss matched acc
      else if MStatus state = StatusDisabled then (True, blockReasonDisabled, 0)
      else
        (let b = stateBlock state now
         in if \<not> blocked b then stateLoop modelKey now ss True acc
            else if IsZero (next_at b) then (True, reason b, 0)
            else if \<not> blocked acc \<or> After (next_at b) (next_at acc)
                 \<or> (next_at b = next_at acc \<and> reason b = blockReasonCooldown)
                 then stateLoop modelKey now ss True b
                 else stateLoop modelKey now ss True acc))"

definition isAuthBlockedForModelForRequest ::
  "(Auth \<Rightarrow> gotime option) \<Rightarrow> Auth option \<Rightarrow> string \<Rightarrow> gotime \<Rightarrow> block" where
  "isAuthBlockedForModelForRequest accessExp auth model now =
     (case auth of
        None \<Rightarrow> (True, blockReasonOther, 0)
      | Some a \<Rightarrow>
          if Disabled a \<or> Status a = StatusDisabled then (True, blockReasonDisabled, 0)
          else if hasUnauthorizedAuthFailure auth then (True, blockReasonOther, 0)
          else if tokenExpired accessExp a now then (True, blockReasonOther, 0)
          else if credentialQuotaActive a now then
            (True, blockReasonCooldown, NextRecoverAt (Quota a))
          else if model \<noteq> [] then
            (if ModelStates a \<noteq> [] then
               stateLoop (canonicalModelKey model) now (ModelStates a) False notBlocked
             else availabilityBlock (Unavailable a) (Exceeded (Quota a)) (NextRetryAfter a)
               (NextRecoverAt (Quota a)) now)
          else
            (let quotaExceeded =
                   (if ModelStates a \<noteq> [] \<and> Reason (Quota a) \<noteq> ''credential_quota'' \<and> \<not> Unavailable a
                    then False else Exceeded (Quota a))
             in availabilityBlock (Unavailable a) quotaExceeded (NextRetryAfter a)
                  (NextRecoverAt (Quota a)) now))"

definition isAuthBlockedForModel ::
  "(Auth \<Rightarrow> gotime option) \<Rightarrow> Auth option \<Rightarrow> string \<Rightarrow> gotime \<Rightarrow> block" where
  "isAuthBlockedForModel accessExp auth model now =
     isAuthBlockedForModelForRequest accessExp auth model now"

definition IsAuthAvailableForModel ::
  "(Auth \<Rightarrow> gotime option) \<Rightarrow> Auth option \<Rightarrow> string \<Rightarrow> gotime \<Rightarrow> bool" where
  "IsAuthAvailableForModel accessExp auth model now =
     (\<not> blocked (isAuthBlockedForModel accessExp auth model now))"

definition isCredentialBlocked ::
  "(Auth \<Rightarrow> gotime option) \<Rightarrow> Auth option \<Rightarrow> nat \<Rightarrow> gotime \<Rightarrow> bool" where
  "isCredentialBlocked accessExp auth supportedModelCount now =
     (case auth of
        None \<Rightarrow> True
      | Some a \<Rightarrow>
          if Disabled a \<or> Status a = StatusDisabled then True
          else if hasUnauthorizedAuthFailure auth then True
          else if tokenExpired accessExp a now then True
          else if credentialQuotaActive a now then True
          else if ModelStates a = [] then
            Unavailable a \<or> Exceeded (Quota a)
            \<or> (\<not> IsZero (NextRetryAfter a) \<and> After (NextRetryAfter a) now)
          else if supportedModelCount > 0 \<and> length (ModelStates a) < supportedModelCount then False
          else Unavailable a)"

definition isModelStateActiveCooldown :: "('a ModelStateBase_scheme) option \<Rightarrow> gotime \<Rightarrow> bool" where
  "isModelStateActiveCooldown state now =
     (case state of
        None \<Rightarrow> False
      | Some s \<Rightarrow>
          MStatus s = StatusDisabled
          \<or> (\<not> IsZero (MNextRetryAfter s) \<and> After (MNextRetryAfter s) now)
          \<or> (\<not> IsZero (NextRecoverAt (MQuota s)) \<and> After (NextRecoverAt (MQuota s)) now)
          \<or> (Exceeded (MQuota s) \<and> IsZero (NextRecoverAt (MQuota s))))"

definition isAuthActiveCooldown :: "Auth option \<Rightarrow> gotime \<Rightarrow> bool" where
  "isAuthActiveCooldown auth now =
     (case auth of
        None \<Rightarrow> False
      | Some a \<Rightarrow>
          if Disabled a \<or> Status a = StatusDisabled then False
          else (\<not> IsZero (NextRetryAfter a) \<and> After (NextRetryAfter a) now)
            \<or> (\<not> IsZero (NextRecoverAt (Quota a)) \<and> After (NextRecoverAt (Quota a)) now)
            \<or> (Exceeded (Quota a) \<and> IsZero (NextRecoverAt (Quota a))))"

section \<open>One pair of deadlines\<close>

lemma latest_after_two:
  "0 \<le> now \<Longrightarrow> latest_after now [a, b] =
     (if now < a \<and> now < b then max a b else if now < a then a else if now < b then b else 0)"
  by (auto simp: latest_after_def)

text \<open>What \<open>availabilityBlock\<close> decides, without the loop.\<close>

lemma availabilityBlock_blocked:
  "0 \<le> now \<Longrightarrow> blocked (availabilityBlock u q ra rc now) \<longleftrightarrow>
     (u \<or> q) \<and> (now < ra \<or> now < rc \<or> (ra = 0 \<and> rc = 0))"
  by (auto simp: availabilityBlock_def latest_after_two notBlocked_def Let_def)

lemma availabilityBlock_next:
  "0 \<le> now \<Longrightarrow> blocked (availabilityBlock u q ra rc now) \<Longrightarrow>
     next_at (availabilityBlock u q ra rc now) = (if now < max ra rc then max ra rc else 0)"
  by (auto simp: availabilityBlock_def latest_after_two notBlocked_def Let_def max_def split: if_splits)

lemma availabilityBlock_unblocked:
  "\<not> blocked (availabilityBlock u q ra rc now) \<Longrightarrow> availabilityBlock u q ra rc now = notBlocked"
  by (auto simp: availabilityBlock_def Let_def split: if_splits)

lemma availabilityBlock_reason:
  "blocked (availabilityBlock u q ra rc now) \<Longrightarrow>
     reason (availabilityBlock u q ra rc now) \<in> {blockReasonCooldown, blockReasonOther}"
  by (auto simp: availabilityBlock_def notBlocked_def Let_def split: if_splits)

section \<open>All states of a model\<close>

definition matching :: "string \<Rightarrow> (string, ModelState option) gomap \<Rightarrow> ModelState list" where
  "matching modelKey ss =
     map (the \<circ> snd) (filter (\<lambda>(k, s). s \<noteq> None \<and> canonicalModelKey k = modelKey) ss)"

definition state_blocks :: "gotime \<Rightarrow> ModelState \<Rightarrow> bool" where
  "state_blocks now s \<longleftrightarrow> MStatus s = StatusDisabled \<or> blocked (stateBlock s now)"

definition state_forever :: "gotime \<Rightarrow> ModelState \<Rightarrow> bool" where
  "state_forever now s \<longleftrightarrow>
     MStatus s = StatusDisabled \<or> (blocked (stateBlock s now) \<and> next_at (stateBlock s now) = 0)"

lemma matching_simps [simp]:
  "matching key [] = []"
  "matching key ((k, None) # ss) = matching key ss"
  "matching key ((k, Some s) # ss) =
     (if canonicalModelKey k = key then s # matching key ss else matching key ss)"
  by (simp_all add: matching_def)

lemma stateLoop_blocked:
  "(blocked acc \<longrightarrow> matched) \<Longrightarrow>
   blocked (stateLoop key now ss matched acc) \<longleftrightarrow>
     blocked acc \<or> (\<exists>s \<in> set (matching key ss). state_blocks now s)"
  by (induction key now ss matched acc rule: stateLoop.induct)
    (auto simp: state_blocks_def notBlocked_def Let_def)

lemma stateLoop_forever:
  "s \<in> set (matching key ss) \<Longrightarrow> state_forever now s \<Longrightarrow> next_at (stateLoop key now ss matched acc) = 0"
proof (induction key now ss matched acc rule: stateLoop.induct)
  case (3 key now k state ss matched acc)
  let ?b = "stateBlock state now"
  consider "canonicalModelKey k \<noteq> key" | "canonicalModelKey k = key" "state_forever now state"
    | "canonicalModelKey k = key" "\<not> state_forever now state" by blast
  then show ?case
  proof cases
    case 1
    with 3 show ?thesis by simp
  next
    case 2
    then show ?thesis by (auto simp: state_forever_def Let_def)
  next
    case c: 3
    with "3.prems" have s: "s \<in> set (matching key ss)" by auto
    with c "3.IH"(2-4) [OF _ _ refl] "3.prems" show ?thesis
      by (auto simp: state_forever_def Let_def)
  qed
qed auto

text \<open>With no state that blocks forever, the loop returns the latest of the deadlines.\<close>

definition is_latest :: "gotime \<Rightarrow> gotime set \<Rightarrow> bool" where
  "is_latest t T \<longleftrightarrow> t \<in> T \<and> (\<forall>u \<in> T. u \<le> t)"

definition deadlines :: "gotime \<Rightarrow> ModelState list \<Rightarrow> gotime set" where
  "deadlines now ss = {next_at (stateBlock s now) | s. s \<in> set ss \<and> blocked (stateBlock s now)}"

definition acc_deadlines :: "block \<Rightarrow> gotime set" where
  "acc_deadlines acc = (if blocked acc then {next_at acc} else {})"

lemma deadlines_Cons:
  "deadlines now (s # ss) =
     (if blocked (stateBlock s now) then insert (next_at (stateBlock s now)) (deadlines now ss)
      else deadlines now ss)"
  by (auto simp: deadlines_def)

lemma is_latest_insert: "is_latest t (insert b T) \<Longrightarrow> a \<le> b \<Longrightarrow> is_latest t (insert a (insert b T))"
  by (auto simp: is_latest_def)

lemma stateLoop_next:
  assumes "\<forall>s \<in> set (matching key ss). \<not> state_forever now s" and "blocked acc \<longrightarrow> matched"
    and "blocked (stateLoop key now ss matched acc)"
  shows "is_latest (next_at (stateLoop key now ss matched acc))
    (acc_deadlines acc \<union> deadlines now (matching key ss))"
  using assms
proof (induction key now ss matched acc rule: stateLoop.induct)
  case (1 key now matched acc)
  then show ?case
    by (auto simp: notBlocked_def is_latest_def acc_deadlines_def deadlines_def split: if_splits)
next
  case (2 key now k ss matched acc)
  then show ?case by simp
next
  case (3 key now k state ss matched acc)
  let ?b = "stateBlock state now"
  show ?case
  proof (cases "canonicalModelKey k = key")
    case False
    with 3 show ?thesis by simp
  next
    case key: True
    then have nd: "MStatus state \<noteq> StatusDisabled" and nz: "blocked ?b \<Longrightarrow> next_at ?b \<noteq> 0"
      using "3.prems"(1) by (auto simp: state_forever_def)
    consider (free) "\<not> blocked ?b"
      | (take) "blocked ?b" "\<not> blocked acc \<or> next_at acc < next_at ?b
          \<or> (next_at ?b = next_at acc \<and> reason ?b = blockReasonCooldown)"
      | (keep) "blocked ?b" "blocked acc" "next_at ?b \<le> next_at acc"
          "\<not> (next_at ?b = next_at acc \<and> reason ?b = blockReasonCooldown)"
      by fastforce
    then show ?thesis
    proof cases
      case free
      with 3 key nd show ?thesis by (auto simp: Let_def deadlines_Cons)
    next
      case take
      then have step: "stateLoop key now ((k, Some state) # ss) matched acc
          = stateLoop key now ss True ?b"
        using key nd nz by (auto simp: Let_def)
      then have "is_latest (next_at (stateLoop key now ss True ?b))
          (insert (next_at ?b) (deadlines now (matching key ss)))"
        using "3.IH"(3) [OF _ nd refl] key nz take "3.prems" by (auto simp: acc_deadlines_def)
      then have "is_latest (next_at (stateLoop key now ss True ?b))
          (acc_deadlines acc \<union> insert (next_at ?b) (deadlines now (matching key ss)))"
        using take by (auto simp: acc_deadlines_def is_latest_def)
      then show ?thesis unfolding step using take key by (simp add: deadlines_Cons)
    next
      case keep
      then have step: "stateLoop key now ((k, Some state) # ss) matched acc
          = stateLoop key now ss True acc"
        using key nd nz by (auto simp: Let_def)
      then have "is_latest (next_at (stateLoop key now ss True acc))
          (insert (next_at acc) (deadlines now (matching key ss)))"
        using "3.IH"(4) [OF _ nd refl] key nz keep "3.prems" by (auto simp: acc_deadlines_def)
      then have "is_latest (next_at (stateLoop key now ss True acc))
          (insert (next_at ?b) (insert (next_at acc) (deadlines now (matching key ss))))"
        using keep by (auto intro: is_latest_insert)
      then show ?thesis
        unfolding step using keep key by (simp add: deadlines_Cons acc_deadlines_def insert_commute)
    qed
  qed
qed

section \<open>How the answers evolve in time\<close>

text \<open>The part of the check below the credential-wide rejections.\<close>

definition modelBlock :: "Auth \<Rightarrow> string \<Rightarrow> gotime \<Rightarrow> block" where
  "modelBlock a model now =
     (if model \<noteq> [] \<and> ModelStates a \<noteq> [] then
        stateLoop (canonicalModelKey model) now (ModelStates a) False notBlocked
      else availabilityBlock (Unavailable a)
        (Exceeded (Quota a) \<and>
          \<not> (model = [] \<and> ModelStates a \<noteq> [] \<and> Reason (Quota a) \<noteq> ''credential_quota'' \<and> \<not> Unavailable a))
        (NextRetryAfter a) (NextRecoverAt (Quota a)) now)"

lemma isAuthBlockedForModel_Some:
  "isAuthBlockedForModel accessExp (Some a) model now =
     (if Disabled a \<or> Status a = StatusDisabled then (True, blockReasonDisabled, 0)
      else if hasUnauthorizedAuthFailure (Some a) then (True, blockReasonOther, 0)
      else if tokenExpired accessExp a now then (True, blockReasonOther, 0)
      else if credentialQuotaActive a now then (True, blockReasonCooldown, NextRecoverAt (Quota a))
      else modelBlock a model now)"
  by (auto simp: isAuthBlockedForModel_def isAuthBlockedForModelForRequest_def modelBlock_def Let_def)

lemma stateBlock_times:
  "0 \<le> t \<Longrightarrow> t \<le> u \<Longrightarrow> \<not> blocked (stateBlock s t) \<Longrightarrow> \<not> blocked (stateBlock s u)"
  "0 \<le> t \<Longrightarrow> t \<le> u \<Longrightarrow> blocked (stateBlock s t) \<Longrightarrow> next_at (stateBlock s t) = 0 \<Longrightarrow> blocked (stateBlock s u)"
  "0 \<le> t \<Longrightarrow> t \<le> u \<Longrightarrow> blocked (stateBlock s t) \<Longrightarrow> u < next_at (stateBlock s t) \<Longrightarrow> blocked (stateBlock s u)"
  "0 \<le> t \<Longrightarrow> blocked (stateBlock s t) \<Longrightarrow> next_at (stateBlock s t) = 0 \<or> t < next_at (stateBlock s t)"
  by (auto simp: stateBlock_def availabilityBlock_blocked availabilityBlock_next split: if_splits)

lemma stateLoop_blocked_iff:
  "blocked (stateLoop key now ss False notBlocked) \<longleftrightarrow> (\<exists>s \<in> set (matching key ss). state_blocks now s)"
  using stateLoop_blocked [of notBlocked False] by (simp add: notBlocked_def)

text \<open>When the loop blocks, its deadline is 0 exactly if a state blocks forever, else the latest one.\<close>

lemma stateLoop_deadline [consumes 2, case_names forever until]:
  assumes "0 \<le> now" and "blocked (stateLoop key now ss False notBlocked)"
  obtains (forever) s where "s \<in> set (matching key ss)" "state_forever now s"
      "next_at (stateLoop key now ss False notBlocked) = 0"
    | (until) s where "s \<in> set (matching key ss)" "blocked (stateBlock s now)" "now < next_at (stateBlock s now)"
      "next_at (stateLoop key now ss False notBlocked) = next_at (stateBlock s now)"
proof (cases "\<exists>s \<in> set (matching key ss). state_forever now s")
  case True
  then show ?thesis using stateLoop_forever forever by blast
next
  case False
  then have "is_latest (next_at (stateLoop key now ss False notBlocked)) (deadlines now (matching key ss))"
    using stateLoop_next [of key ss now notBlocked False] assms(2)
    by (simp add: acc_deadlines_def notBlocked_def)
  then obtain s where s: "s \<in> set (matching key ss)" "blocked (stateBlock s now)"
    "next_at (stateLoop key now ss False notBlocked) = next_at (stateBlock s now)"
    by (auto simp: is_latest_def deadlines_def)
  with False stateBlock_times(4) [OF assms(1) s(2)] show ?thesis
    by (intro until) (auto simp: state_forever_def)
qed

lemma state_forever_blocks: "0 \<le> t \<Longrightarrow> t \<le> u \<Longrightarrow> state_forever t s \<Longrightarrow> state_blocks u s"
  unfolding state_forever_def state_blocks_def using stateBlock_times(2) [of t u s] by blast

lemma modelBlock_times:
  assumes "0 \<le> t" and "t \<le> u"
  shows "\<not> blocked (modelBlock a m t) \<Longrightarrow> \<not> blocked (modelBlock a m u)"
    and "blocked (modelBlock a m t) \<Longrightarrow> next_at (modelBlock a m t) = 0 \<Longrightarrow> blocked (modelBlock a m u)"
    and "blocked (modelBlock a m t) \<Longrightarrow> u < next_at (modelBlock a m t) \<Longrightarrow> blocked (modelBlock a m u)"
    and "blocked (modelBlock a m t) \<Longrightarrow> next_at (modelBlock a m t) = 0 \<or> t < next_at (modelBlock a m t)"
proof -
  let ?loop = "m \<noteq> [] \<and> ModelStates a \<noteq> []"
  let ?k = "canonicalModelKey m"
  have u: "0 \<le> u" using assms by simp
  show "\<not> blocked (modelBlock a m t) \<Longrightarrow> \<not> blocked (modelBlock a m u)"
    using assms u stateBlock_times(1) [OF assms]
    by (cases ?loop)
      (auto simp: modelBlock_def stateLoop_blocked_iff state_blocks_def availabilityBlock_blocked)
  have loop: "blocked (modelBlock a m u)"
    if "?loop" "s \<in> set (matching ?k (ModelStates a))" "state_blocks u s" for s
    using that by (auto simp: modelBlock_def stateLoop_blocked_iff)
  show "blocked (modelBlock a m u)"
    if b: "blocked (modelBlock a m t)" and z: "next_at (modelBlock a m t) = 0"
  proof (cases ?loop)
    case True
    with b have "blocked (stateLoop ?k t (ModelStates a) False notBlocked)" by (simp add: modelBlock_def)
    with assms(1) show ?thesis
    proof (cases rule: stateLoop_deadline)
      case (forever s)
      with loop True state_forever_blocks [OF assms] show ?thesis by blast
    next
      case (until s)
      with z True assms(1) show ?thesis by (auto simp: modelBlock_def)
    qed
  next
    case False
    with b z assms u show ?thesis
      by (auto simp: modelBlock_def availabilityBlock_blocked availabilityBlock_next split: if_splits)
  qed
  show "blocked (modelBlock a m u)"
    if b: "blocked (modelBlock a m t)" and z: "u < next_at (modelBlock a m t)"
  proof (cases ?loop)
    case True
    with b have "blocked (stateLoop ?k t (ModelStates a) False notBlocked)" by (simp add: modelBlock_def)
    with assms(1) show ?thesis
    proof (cases rule: stateLoop_deadline)
      case (forever s)
      with z True u show ?thesis by (auto simp: modelBlock_def)
    next
      case (until s)
      with z True have "blocked (stateBlock s u)"
        using stateBlock_times(3) [OF assms] by (auto simp: modelBlock_def)
      with loop True until show ?thesis by (auto simp: state_blocks_def)
    qed
  next
    case False
    with b z assms u show ?thesis
      by (auto simp: modelBlock_def availabilityBlock_blocked availabilityBlock_next split: if_splits)
  qed
  show "next_at (modelBlock a m t) = 0 \<or> t < next_at (modelBlock a m t)" if b: "blocked (modelBlock a m t)"
  proof (cases ?loop)
    case True
    with b have "blocked (stateLoop ?k t (ModelStates a) False notBlocked)" by (simp add: modelBlock_def)
    with assms(1) show ?thesis
      by (cases rule: stateLoop_deadline) (use True in \<open>auto simp: modelBlock_def\<close>)
  next
    case False
    with b assms show ?thesis by (auto simp: modelBlock_def availabilityBlock_next split: if_splits)
  qed
qed

lemma tokenExpired_mono: "tokenExpired accessExp a t \<Longrightarrow> t \<le> u \<Longrightarrow> tokenExpired accessExp a u"
  by (auto simp: tokenExpired_def split: option.splits)

lemma credentialQuotaActive_antimono:
  "credentialQuotaActive a u \<Longrightarrow> t \<le> u \<Longrightarrow> credentialQuotaActive a t"
  by (auto simp: credentialQuotaActive_def)

text \<open>
  The interface the scheduler relies on.  \<open>check a t\<close> is the verdict on \<open>a\<close> at time \<open>t\<close>,
  \<open>expired a t\<close> says that the access token of \<open>a\<close> has run out.
\<close>

locale availability_oracle =
  fixes check :: "'a \<Rightarrow> gotime \<Rightarrow> block" and expired :: "'a \<Rightarrow> gotime \<Rightarrow> bool"
  assumes unblocked_stays:
      "0 \<le> t \<Longrightarrow> t \<le> u \<Longrightarrow> \<not> blocked (check a t) \<Longrightarrow> \<not> expired a u \<Longrightarrow> \<not> blocked (check a u)"
    and no_early_wake:
      "0 \<le> t \<Longrightarrow> t \<le> u \<Longrightarrow> blocked (check a t) \<Longrightarrow> u < next_at (check a t) \<Longrightarrow> blocked (check a u)"
    and zero_forever:
      "0 \<le> t \<Longrightarrow> t \<le> u \<Longrightarrow> blocked (check a t) \<Longrightarrow> next_at (check a t) = 0 \<Longrightarrow> blocked (check a u)"
    and expired_blocks: "expired a t \<Longrightarrow> blocked (check a t)"
    and disabled_forever: "blocked (check a t) \<Longrightarrow> reason (check a t) = blockReasonDisabled \<Longrightarrow>
      next_at (check a t) = 0"
begin

text \<open>
  A verdict taken at \<open>t\<close> answers for a later time \<open>u\<close> without asking again, unless the credential
  was free and its token expired meanwhile, or it was blocked until a deadline that has passed.
\<close>

lemma verdict_lasts:
  assumes "0 \<le> t" and "t \<le> u"
    and "\<not> blocked (check a t) \<Longrightarrow> \<not> expired a u"
    and "blocked (check a t) \<Longrightarrow> next_at (check a t) = 0 \<or> u < next_at (check a t)"
  shows "blocked (check a u) \<longleftrightarrow> blocked (check a t)"
  using assms unblocked_stays no_early_wake zero_forever by blast

end

lemma stateLoop_disabled:
  "reason (stateLoop key now ss matched acc) = blockReasonDisabled \<Longrightarrow>
   (reason acc \<noteq> blockReasonDisabled) \<Longrightarrow> next_at (stateLoop key now ss matched acc) = 0"
proof (induction key now ss matched acc rule: stateLoop.induct)
  case (1 key now matched acc)
  then show ?case by (auto simp: notBlocked_def split: if_splits)
next
  case (2 key now k ss matched acc)
  then show ?case by simp
next
  case (3 key now k state ss matched acc)
  let ?b = "stateBlock state now"
  have "blocked ?b \<Longrightarrow> reason ?b \<noteq> blockReasonDisabled"
    using availabilityBlock_reason unfolding stateBlock_def by fastforce
  with 3 show ?case by (auto simp: Let_def split: if_splits)
qed

lemma availabilityBlock_not_disabled:
  "blocked (availabilityBlock u q ra rc now) \<Longrightarrow> reason (availabilityBlock u q ra rc now) \<noteq> blockReasonDisabled"
  using availabilityBlock_reason by fastforce

lemma modelBlock_disabled:
  assumes "blocked (modelBlock a m t)" and "reason (modelBlock a m t) = blockReasonDisabled"
  shows "next_at (modelBlock a m t) = 0"
proof (cases "m \<noteq> [] \<and> ModelStates a \<noteq> []")
  case True
  with assms stateLoop_disabled [of _ _ _ False notBlocked] show ?thesis
    by (simp add: modelBlock_def notBlocked_def)
next
  case False
  then obtain u q ra rc where "modelBlock a m t = availabilityBlock u q ra rc t"
    unfolding modelBlock_def by (simp only: if_False)
  with assms availabilityBlock_not_disabled show ?thesis by simp
qed

interpretation avail: availability_oracle
  "\<lambda>a t. isAuthBlockedForModel accessExp (Some a) model t" "tokenExpired accessExp"
  for accessExp model
proof (unfold_locales, goal_cases)
  case (1 t u a)
  then show ?case
    using modelBlock_times(1) [of t u a model] credentialQuotaActive_antimono [of a u t]
    by (auto simp: isAuthBlockedForModel_Some split: if_splits)
next
  case (2 t u a)
  then show ?case
    using modelBlock_times(3) [of t u a model]
    by (auto simp: isAuthBlockedForModel_Some credentialQuotaActive_def split: if_splits)
next
  case (3 t u a)
  then show ?case
    using modelBlock_times(2) [of t u a model] tokenExpired_mono [of accessExp a t u]
    by (auto simp: isAuthBlockedForModel_Some credentialQuotaActive_def split: if_splits)
next
  case (4 a t)
  then show ?case by (simp add: isAuthBlockedForModel_Some)
next
  case (5 a t)
  then show ?case
    using modelBlock_disabled [of a model t] by (auto simp: isAuthBlockedForModel_Some split: if_splits)
qed

section \<open>Properties\<close>


definition wAuth :: Auth where
  "wAuth = emptyAuth\<lparr>ID := ''a'', Status := StatusActive, ModelStates :=
     [(''m'', Some (emptyModelState\<lparr>MUnavailable := True, MNextRetryAfter := 50\<rparr>)),
      (''m(high)'', Some (emptyModelState\<lparr>MUnavailable := True, MNextRetryAfter := 90\<rparr>))]\<rparr>"


text \<open>
  A credential that is free for a model stays free while its record is unchanged and
  its access token is valid: the passing of time alone never blocks it.
\<close>

theorem free_stays_free:
  assumes "0 \<le> t" and "t \<le> u" and "IsAuthAvailableForModel accessExp (Some a) model t"
    and "\<not> tokenExpired accessExp a u"
  shows "IsAuthAvailableForModel accessExp (Some a) model u"
  using assms avail.unblocked_stays unfolding IsAuthAvailableForModel_def by blast

theorem free_stays_free_witness:
  "IsAuthAvailableForModel (\<lambda>_. Some 500) (Some wAuth) ''m'' 499"
  by (rule free_stays_free [of 95]) (code_simp | simp)+

lemma stateLoop_released:
  assumes "0 \<le> t" and "t \<le> u" and "blocked (stateLoop key t ss False notBlocked)"
    and "next_at (stateLoop key t ss False notBlocked) \<noteq> 0"
    and "next_at (stateLoop key t ss False notBlocked) \<le> u"
  shows "\<not> blocked (stateLoop key u ss False notBlocked)"
proof -
  have nf: "\<forall>s \<in> set (matching key ss). \<not> state_forever t s"
    using stateLoop_forever assms(4) by blast
  have "is_latest (next_at (stateLoop key t ss False notBlocked)) (deadlines t (matching key ss))"
    using stateLoop_next [OF nf, of notBlocked False] assms(3)
    by (simp add: acc_deadlines_def notBlocked_def)
  then have le: "next_at (stateBlock s t) \<le> u"
    if "s \<in> set (matching key ss)" "blocked (stateBlock s t)" for s
    using assms(5) that by (fastforce simp: is_latest_def deadlines_def)
  have "\<not> blocked (stateBlock s u)" if s: "s \<in> set (matching key ss)" for s
  proof (cases "blocked (stateBlock s t)")
    case True
    with nf s le [OF s True] assms(1,2) show ?thesis
      by (auto simp: state_forever_def stateBlock_def availabilityBlock_blocked availabilityBlock_next
          split: if_splits)
  next
    case False
    with stateBlock_times(1) [OF assms(1,2)] show ?thesis by blast
  qed
  then show ?thesis using nf by (auto simp: stateLoop_blocked_iff state_blocks_def state_forever_def)
qed

text \<open>
  Once the deadline of a model-level block has passed the credential is free again:
  a finite deadline computed from the model states (no credential-wide quota window) is a
  promise, kept as long as the access token is valid.
\<close>

theorem block_released_at_deadline:
  assumes "0 \<le> t" and "t \<le> u" and "\<not> credentialQuotaActive a t"
    and "isAuthBlockedForModel accessExp (Some a) model t = (True, r, deadline)"
    and "deadline \<noteq> 0" and "deadline \<le> u" and "\<not> tokenExpired accessExp a u"
  shows "IsAuthAvailableForModel accessExp (Some a) model u"
proof -
  have d: "\<not> (Disabled a \<or> Status a = StatusDisabled)" "\<not> hasUnauthorizedAuthFailure (Some a)"
    and m: "modelBlock a model t = (True, r, deadline)"
    using assms(3-5) by (auto simp: isAuthBlockedForModel_Some split: if_splits)
  have "\<not> blocked (modelBlock a model u)"
  proof (cases "model \<noteq> [] \<and> ModelStates a \<noteq> []")
    case True
    with m assms(1,2,5,6) stateLoop_released [of t u "canonicalModelKey model" "ModelStates a"]
    show ?thesis by (simp add: modelBlock_def)
  next
    case False
    let ?b = "availabilityBlock (Unavailable a)
        (Exceeded (Quota a) \<and>
          \<not> (model = [] \<and> ModelStates a \<noteq> [] \<and> Reason (Quota a) \<noteq> ''credential_quota'' \<and> \<not> Unavailable a))
        (NextRetryAfter a) (NextRecoverAt (Quota a))"
    have "blocked (?b t)" "next_at (?b t) = deadline" using False m by (auto simp: modelBlock_def)
    then have "max (NextRetryAfter a) (NextRecoverAt (Quota a)) = deadline"
      using availabilityBlock_next [OF assms(1)] assms(5) by (auto split: if_splits)
    then have "\<not> blocked (?b u)"
      using availabilityBlock_blocked [of u] assms(1,2,5,6) by (auto simp: max_def split: if_splits)
    with False show ?thesis by (auto simp: modelBlock_def)
  qed
  moreover have "\<not> credentialQuotaActive a u"
    using assms(2,3) credentialQuotaActive_antimono by blast
  ultimately show ?thesis
    using d assms(7) by (simp add: IsAuthAvailableForModel_def isAuthBlockedForModel_Some)
qed

theorem block_released_at_deadline_witness:
  "IsAuthAvailableForModel (\<lambda>_. Some 500) (Some wAuth) ''m'' 90"
proof -
  have "isAuthBlockedForModel (\<lambda>_. Some 500) (Some wAuth) ''m'' 10 = (True, blockReasonOther, 90)"
    by code_simp
  then show ?thesis
    by (rule block_released_at_deadline [of 10, rotated 3]) (code_simp | simp)+
qed

end
