(* ===== verification/Rotation.thy ===== *)
theory Rotation
  imports GoPrelude
begin

text \<open>
  Rotation by identity.  Both the selector (\<open>selector.go\<close>) and the scheduler
  (\<open>scheduler.go\<close>) remember the identifier of the previous pick and continue with the next
  larger one among the candidates of the moment, wrapping around at the end.  The locale
  \<open>rotation\<close> is that contract; the starvation bound is proved once inside it.  The binary search
  both use to find the continuation is here too.
\<close>

section \<open>The index of the successor\<close>

text \<open>The body of \<open>successorIndex\<close> and of \<open>scheduledSuccessorIndex\<close>.\<close>

definition succIndex :: "('x \<Rightarrow> string) \<Rightarrow> 'x list \<Rightarrow> string \<Rightarrow> nat" where
  "succIndex key xs lastID =
     (if lastID = [] then 0
      else (let index = sort_Search (length xs) (\<lambda>i. key (xs ! i) > lastID)
            in if index \<ge> length xs then 0 else index))"

definition rot_next :: "string list \<Rightarrow> string \<Rightarrow> string" where
  "rot_next ids lastID = (case filter (\<lambda>x. lastID < x) ids of [] \<Rightarrow> hd ids | y # _ \<Rightarrow> y)"

lemma succIndex_less: "xs \<noteq> [] \<Longrightarrow> succIndex key xs lastID < length xs"
  by (auto simp: succIndex_def Let_def)

lemma hd_filter_nth:
  assumes "r < length xs" and "P (xs ! r)" and "\<forall>k < r. \<not> P (xs ! k)"
  shows "filter P xs = xs ! r # filter P (drop (Suc r) xs)"
proof -
  have "filter P (take r xs) = []"
    using assms(1,3) by (auto simp: filter_empty_conv in_set_conv_nth)
  moreover have "xs = take r xs @ xs ! r # drop (Suc r) xs" by (rule id_take_nth_drop [OF assms(1)])
  ultimately show ?thesis using assms(2) by (metis append_Nil filter.simps(2) filter_append)
qed

lemma string_Nil_less: "([] :: string) < s \<longleftrightarrow> s \<noteq> []"
  by (cases s) auto

lemma filter_Cons_in: "filter P ids = y # ys \<Longrightarrow> P y \<and> y \<in> set ids"
  by (simp add: filter_eq_Cons_iff) auto

lemma succ_mono:
  assumes "sorted_wrt (<) (map key xs)" and "a \<le> b" and "b < length xs" and "lastID < key (xs ! a)"
  shows "(lastID :: string) < key (xs ! b)"
proof -
  have "a = b \<or> key (xs ! a) < key (xs ! b)"
    using assms(1-3) by (cases "a = b") (auto simp: sorted_wrt_map sorted_wrt_iff_nth_less)
  with assms(4) show ?thesis by (auto dest: less_trans)
qed

lemma succIndex_rot_next:
  assumes "sorted_wrt (<) (map key xs)" and "xs \<noteq> []" and "[] \<notin> set (map key xs)"
  shows "key (xs ! succIndex key xs lastID) = rot_next (map key xs) lastID"
proof (cases "lastID = []")
  case True
  have "filter (\<lambda>x. [] < x) (map key xs) = map key xs"
    using assms(3) by (force simp: filter_id_conv string_Nil_less)
  with True assms(2) show ?thesis by (cases xs) (auto simp: succIndex_def rot_next_def)
next
  case False
  let ?f = "\<lambda>i. key (xs ! i) > lastID"
  have mono: "?f a \<Longrightarrow> ?f b" if "a \<le> b" "b < length xs" for a b
    by (rule succ_mono [OF assms(1) that])
  have li: "least_index ?f (length xs) (sort_Search (length xs) ?f)"
    by (rule sort_Search_correct) (rule mono)
  show ?thesis
  proof (cases "sort_Search (length xs) ?f < length xs")
    case True
    let ?r = "sort_Search (length xs) ?f"
    have "filter (\<lambda>x. lastID < x) (map key xs) =
        map key xs ! ?r # filter (\<lambda>x. lastID < x) (drop (Suc ?r) (map key xs))"
      by (rule hd_filter_nth) (use True li in \<open>auto simp: least_index_def\<close>)
    with True False show ?thesis by (simp add: succIndex_def rot_next_def Let_def)
  next
    case ge: False
    then have "\<forall>i < length xs. \<not> ?f i" using li by (auto simp: least_index_def)
    then have "filter (\<lambda>x. lastID < x) (map key xs) = []"
      by (auto simp: filter_empty_conv in_set_conv_nth)
    with ge False assms(2) show ?thesis by (simp add: succIndex_def rot_next_def Let_def hd_conv_nth)
  qed
qed

text \<open>
  Scanning the ring from the successor for the first candidate that satisfies \<open>P\<close> is the rotation
  among the candidates that satisfy \<open>P\<close>.
\<close>

definition ringFrom :: "nat \<Rightarrow> 'x list \<Rightarrow> 'x list" where
  "ringFrom start xs = map (\<lambda>offset. xs ! ((start + offset) mod length xs)) [0..<length xs]"

lemma ringFrom_rotate:
  assumes "start < length xs"
  shows "ringFrom start xs = drop start xs @ take start xs"
proof (rule nth_equalityI)
  show "length (ringFrom start xs) = length (drop start xs @ take start xs)"
    using assms by (simp add: ringFrom_def)
  fix i assume "i < length (ringFrom start xs)"
  then have i: "i < length xs" by (simp add: ringFrom_def)
  show "ringFrom start xs ! i = (drop start xs @ take start xs) ! i"
  proof (cases "start + i < length xs")
    case True
    then have "i < length xs - start" by arith
    with True i show ?thesis by (simp add: ringFrom_def nth_append)
  next
    case False
    then have "(start + i) mod length xs = start + i - length xs" using assms i by (simp add: mod_if)
    moreover have "\<not> i < length xs - start" "i - (length xs - start) = start + i - length xs"
      using False assms by arith+
    ultimately show ?thesis using False assms i by (simp add: ringFrom_def nth_append)
  qed
qed

lemma find_filter: "find P xs = (case filter P xs of [] \<Rightarrow> None | y # _ \<Rightarrow> Some y)"
  by (induction xs) auto

lemma split_at_filter:
  "(\<forall>k < i. k < length xs \<longrightarrow> \<not> P (xs ! k)) \<Longrightarrow> (\<forall>k. i \<le> k \<longrightarrow> k < length xs \<longrightarrow> P (xs ! k)) \<Longrightarrow>
     drop i xs = filter P xs \<and> take i xs = filter (\<lambda>x. \<not> P x) xs"
proof (induction xs arbitrary: i)
  case (Cons x xs)
  show ?case
  proof (cases i)
    case 0
    with Cons.prems(2) have "\<forall>y \<in> set (x # xs). P y" by (metis in_set_conv_nth le0)
    with 0 show ?thesis by (auto simp: filter_id_conv filter_empty_conv)
  next
    case (Suc j)
    have "\<not> P x" using Cons.prems(1) Suc by force
    moreover have "drop j xs = filter P xs \<and> take j xs = filter (\<lambda>x. \<not> P x) xs"
      using Cons.prems Suc by (intro Cons.IH) force+
    ultimately show ?thesis using Suc by simp
  qed
qed simp

lemma succIndex_split:
  assumes "sorted_wrt (<) (map key xs)" and "[] \<notin> set (map key xs)"
  shows "if \<exists>x \<in> set xs. lastID < key x
    then drop (succIndex key xs lastID) xs = filter (\<lambda>x. lastID < key x) xs
      \<and> take (succIndex key xs lastID) xs = filter (\<lambda>x. \<not> lastID < key x) xs
    else succIndex key xs lastID = 0"
proof (cases "lastID = []")
  case True
  have "\<forall>x \<in> set xs. [] < key x" using assms(2) by (force simp: string_Nil_less)
  with True show ?thesis by (simp add: succIndex_def filter_id_conv filter_empty_conv)
next
  case False
  let ?f = "\<lambda>i. key (xs ! i) > lastID" and ?r = "sort_Search (length xs) (\<lambda>i. key (xs ! i) > lastID)"
  have mono: "?f a \<Longrightarrow> ?f b" if "a \<le> b" "b < length xs" for a b
    by (rule succ_mono [OF assms(1) that])
  have li: "least_index ?f (length xs) ?r" by (rule sort_Search_correct) (rule mono)
  show ?thesis
  proof (cases "\<exists>x \<in> set xs. lastID < key x")
    case True
    then obtain k where "k < length xs" "?f k" by (auto simp: in_set_conv_nth)
    then have lt: "?r < length xs" using li unfolding least_index_def by (meson leI order_less_le_trans)
    then have "drop ?r xs = filter (\<lambda>x. lastID < key x) xs \<and> take ?r xs = filter (\<lambda>x. \<not> lastID < key x) xs"
      using li mono by (intro split_at_filter) (auto simp: least_index_def)
    with True lt False show ?thesis by (simp add: succIndex_def Let_def)
  next
    case none: False
    then have "length xs \<le> ?r" using li by (force simp: least_index_def)
    with none False show ?thesis by (simp add: succIndex_def Let_def)
  qed
qed

lemma ring_scan_rot_next:
  assumes "sorted_wrt (<) (map key xs)" and m: "filter P xs \<noteq> []" and ne: "[] \<notin> set (map key xs)"
  shows "\<exists>x \<in> set (filter P xs). find P (ringFrom (succIndex key xs lastID) xs) = Some x
    \<and> key x = rot_next (map key (filter P xs)) lastID"
proof -
  let ?i = "succIndex key xs lastID" and ?up = "\<lambda>x. lastID < key x"
  have xs: "xs \<noteq> []" using m by auto
  have ring: "ringFrom ?i xs = drop ?i xs @ take ?i xs" by (rule ringFrom_rotate [OF succIndex_less [OF xs]])
  have fm: "filter ?up (filter P xs) = filter P (filter ?up xs)" by (simp add: conj_commute)
  have rn: "rot_next (map key (filter P xs)) lastID =
      (case filter P (filter ?up xs) of [] \<Rightarrow> key (hd (filter P xs)) | y # _ \<Rightarrow> key y)"
    using m unfolding rot_next_def filter_map comp_def fm by (simp add: hd_map split: list.splits)
  show ?thesis
  proof (cases "filter P (filter ?up xs)")
    case (Cons y ys)
    then have "\<exists>x \<in> set xs. ?up x" using filter_Cons_in [OF Cons] by auto
    then have "filter P (ringFrom ?i xs) = y # ys @ filter P (take ?i xs)"
      using succIndex_split [OF assms(1) ne, of lastID] Cons by (simp add: ring)
    moreover have "y \<in> set (filter P xs)" using filter_Cons_in [OF Cons] by auto
    ultimately show ?thesis using rn Cons by (auto simp: find_filter)
  next
    case Nil
    have "filter P (ringFrom ?i xs) = filter P xs"
    proof (cases "\<exists>x \<in> set xs. ?up x")
      case True
      with Nil succIndex_split [OF assms(1) ne, of lastID]
      have "filter P (ringFrom ?i xs) = filter P (filter (\<lambda>x. \<not> ?up x) xs)" by (simp add: ring)
      also have "\<dots> = filter P xs" using Nil by (auto simp: filter_empty_conv intro: filter_cong)
      finally show ?thesis .
    next
      case False
      with succIndex_split [OF assms(1) ne, of lastID] have "?i = 0" by simp
      with ring show ?thesis by simp
    qed
    with rn Nil m show ?thesis by (cases "filter P xs") (auto simp: find_filter)
  qed
qed

section \<open>Distance on the ring\<close>

text \<open>The keys of \<open>U\<close> that come strictly between the last pick and \<open>k\<close> when walking upwards.\<close>

definition between :: "string set \<Rightarrow> string \<Rightarrow> string \<Rightarrow> string set" where
  "between U lastID k =
     (if lastID < k then {x \<in> U. lastID < x \<and> x < k} else {x \<in> U. lastID < x \<or> x < k})"

lemma rot_next_in: "ids \<noteq> [] \<Longrightarrow> rot_next ids lastID \<in> set ids"
  by (cases "filter (\<lambda>x. lastID < x) ids") (auto simp: rot_next_def dest: filter_Cons_in)

lemma filter_hd_least:
  assumes "sorted_wrt (<) ids" and "filter P ids = y # ys" and "x \<in> set ids" and "P x"
  shows "(y :: string) \<le> x"
proof -
  have "sorted_wrt (<) (y # ys)" using assms(1,2) sorted_wrt_filter by metis
  moreover have "x \<in> set (y # ys)" using assms(2-4) by (simp flip: assms(2))
  ultimately show ?thesis by (auto simp: less_imp_le)
qed

lemma hd_least: "sorted_wrt (<) ids \<Longrightarrow> x \<in> set ids \<Longrightarrow> hd ids \<le> (x :: string)"
  by (cases ids) (auto simp: less_imp_le)

text \<open>Every pick that is not \<open>k\<close> although \<open>k\<close> is a candidate comes closer to \<open>k\<close>.\<close>

lemma rot_next_closer:
  assumes "sorted_wrt (<) ids" and "k \<in> set ids" and "set ids \<subseteq> U" and "rot_next ids lastID \<noteq> k"
  shows "between U (rot_next ids lastID) k \<subset> between U lastID k"
proof (cases "filter (\<lambda>x. lastID < x) ids")
  case Nil
  then have none: "\<forall>x \<in> set ids. \<not> lastID < x" by (simp add: filter_empty_conv)
  let ?p = "hd ids"
  have p: "rot_next ids lastID = ?p" using Nil by (simp add: rot_next_def)
  have pin: "?p \<in> U" using assms(2,3) by (cases ids) auto
  have "?p < k" using hd_least [OF assms(1,2)] assms(4) p by simp
  then have "between U ?p k \<subseteq> between U lastID k" "?p \<in> between U lastID k" "?p \<notin> between U ?p k"
    using none assms(2) pin by (auto simp: between_def)
  with p show ?thesis by auto
next
  case (Cons y ys)
  then have p: "rot_next ids lastID = y" by (simp add: rot_next_def)
  have y: "lastID < y" "y \<in> set ids" using filter_Cons_in [OF Cons] by auto
  have least: "y \<le> x" if "x \<in> set ids" "lastID < x" for x
    using filter_hd_least [OF assms(1) Cons that(1)] that(2) by simp
  have "between U y k \<subseteq> between U lastID k"
    using y least [OF assms(2)] assms(4) p by (auto simp: between_def split: if_splits)
  moreover have "y \<in> between U lastID k" "y \<notin> between U y k"
    using y least [OF assms(2)] assms(3,4) p by (auto simp: between_def)
  ultimately show ?thesis using p by auto
qed

section \<open>The contract\<close>

text \<open>
  \<open>cands v\<close> are the candidates a request sees in view \<open>v\<close>; \<open>pick v lastID\<close> is the pick;
  \<open>ok v\<close> is the invariant of views, which includes that the candidates are in order.
\<close>

locale rotation =
  fixes key :: "'x \<Rightarrow> string" and ok :: "'v \<Rightarrow> bool" and cands :: "'v \<Rightarrow> 'x list"
    and pick :: "'v \<Rightarrow> string \<Rightarrow> 'x option"
  assumes ok_sorted: "ok v \<Longrightarrow> sorted_wrt (<) (map key (cands v))"
    and pick_next:
    "ok v \<Longrightarrow> cands v \<noteq> [] \<Longrightarrow> [] \<notin> set (map key (cands v)) \<Longrightarrow>
       \<exists>x \<in> set (cands v). pick v lastID = Some x \<and> key x = rot_next (map key (cands v)) lastID"
begin

primrec picks :: "'v list \<Rightarrow> string \<Rightarrow> string list" where
  "picks [] lastID = []"
| "picks (v # vs) lastID =
     (case pick v lastID of
        None \<Rightarrow> picks vs lastID
      | Some x \<Rightarrow> key x # picks vs (key x))"

definition fair_view :: "string set \<Rightarrow> string \<Rightarrow> 'v \<Rightarrow> bool" where
  "fair_view U k v \<longleftrightarrow> ok v \<and> k \<in> set (map key (cands v))
     \<and> set (map key (cands v)) \<subseteq> U"

text \<open>
  A candidate that is present in every view is picked before the picks outnumber the identifiers
  that occur, however the other candidates come and go.
\<close>

lemma bounded_wait_between:
  "finite U \<Longrightarrow> [] \<notin> U \<Longrightarrow> \<forall>v \<in> set vs. fair_view U k v \<Longrightarrow> card (between U lastID k) < length vs \<Longrightarrow>
     k \<in> set (picks vs lastID)"
proof (induction vs arbitrary: lastID)
  case (Cons v vs)
  let ?ids = "map key (cands v)"
  have ok: "ok v" and v: "sorted_wrt (<) ?ids" "k \<in> set ?ids" "set ?ids \<subseteq> U"
    using Cons.prems(3) ok_sorted [of v] by (auto simp: fair_view_def)
  then obtain x where x: "pick v lastID = Some x" "key x = rot_next ?ids lastID"
    using pick_next [OF ok, of lastID] Cons.prems(2) by fastforce
  show ?case
  proof (cases "key x = k")
    case True
    with x show ?thesis by simp
  next
    case False
    then have "between U (key x) k \<subset> between U lastID k"
      using rot_next_closer [OF v, of lastID] x by simp
    moreover have "finite (between U lastID k)" using Cons.prems(1) by (simp add: between_def)
    ultimately have "card (between U (key x) k) < card (between U lastID k)"
      by (intro psubset_card_mono)
    with Cons.prems x show ?thesis by (auto intro!: Cons.IH)
  qed
qed simp

lemma bounded_wait:
  assumes "finite U" and "[] \<notin> U" and "\<forall>v \<in> set vs. fair_view U k v" and "card U \<le> length vs" and "vs \<noteq> []"
  shows "k \<in> set (picks vs lastID)"
proof (rule bounded_wait_between [OF assms(1-3)])
  have "k \<in> U" using assms(3,5) by (cases vs) (auto simp: fair_view_def)
  then have "between U lastID k \<subset> U" by (auto simp: between_def)
  then have "card (between U lastID k) < card U" using assms(1) by (intro psubset_card_mono)
  with assms(4) show "card (between U lastID k) < length vs" by simp
qed

lemma picks_length_le: "length (picks vs lastID) \<le> length vs"
  by (induction vs arbitrary: lastID) (auto split: option.splits intro: le_SucI)

text \<open>On one unchanged view a round of as many picks as candidates serves everyone once.\<close>

lemma full_round:
  assumes "ok v" and "cands v \<noteq> []" and "[] \<notin> set (map key (cands v))"
  shows "set (picks (replicate (length (cands v)) v) lastID) = set (map key (cands v))
    \<and> distinct (picks (replicate (length (cands v)) v) lastID)"
proof -
  let ?ids = "map key (cands v)" and ?vs = "replicate (length (cands v)) v"
  have d: "distinct ?ids" using ok_sorted [OF assms(1)] strict_sorted_iff [of ?ids] by simp
  have sub: "set (picks vs l) \<subseteq> set ?ids" if "set vs \<subseteq> {v}" for vs l
    using that
  proof (induction vs arbitrary: l)
    case (Cons w vs)
    from pick_next [OF assms, of l] obtain x where
      "x \<in> set (cands v)" "pick v l = Some x" by blast
    with Cons.prems Cons.IH [of "key x"] show ?case by auto
  qed simp
  have "k \<in> set (picks ?vs lastID)" if "k \<in> set ?ids" for k
    by (rule bounded_wait [of "set ?ids"])
      (use assms that distinct_card [OF d] in \<open>auto simp: fair_view_def\<close>)
  then have eq: "set (picks ?vs lastID) = set ?ids" using sub [of ?vs lastID] by (simp add: set_replicate_conv_if subset_antisym subsetI)
  have "card (set ?ids) = length ?ids" using d by (rule distinct_card)
  then have "length (picks ?vs lastID) \<le> card (set (picks ?vs lastID))"
    using eq picks_length_le [of ?vs lastID] by simp
  then have "distinct (picks ?vs lastID)"
    using card_length [of "picks ?vs lastID"] by (intro card_distinct) simp
  with eq show ?thesis by simp
qed

end

end
