(* ===== verification/SmoothWeighted.thy ===== *)
theory SmoothWeighted
  imports AuthTypes
begin

text \<open>
  Smooth weighted round robin, as \<open>selector.go\<close> (\<open>pickSmoothWeightedAuth\<close>) and
  \<open>scheduler.go\<close> (\<open>pickSmoothWeightedScheduled\<close>) under \<open>src/sdk/cliproxy/auth\<close> implement it:
  every live candidate gains its weight, the first of the richest is picked and pays the total
  weight.  Both Go functions are the same loop over different element types; \<open>swPick\<close> is that
  loop with the identifier, the weight and the filter of an element as arguments.

  The second half is the specification: an accumulator per candidate in unbounded integers, with
  the fairness theorems.  The loop refines it as long as no accumulator reaches the limits of
  \<open>int64\<close>, which a bound on the total weight guarantees.
\<close>

section \<open>The code\<close>

definition saturatingAddInt64 :: "int \<Rightarrow> int \<Rightarrow> int" where
  "saturatingAddInt64 v delta =
     (if delta > 0 \<and> v > maxInt64 - delta then maxInt64
      else if delta < 0 \<and> v < minInt64 - delta then minInt64
      else wrap64 (v + delta))"

text \<open>\<open>m[k]\<close> of a map of integers: 0 when the key is absent.\<close>

definition int_get :: "(string, int) gomap \<Rightarrow> string \<Rightarrow> int" where
  "int_get m k = (case map_of m k of None \<Rightarrow> 0 | Some v \<Rightarrow> v)"

type_synonym 'x swAcc = "(string, int) gomap \<times> ('x \<times> int) option \<times> int"

text \<open>The accumulator holds the map, the candidate picked so far with its value, and the total.\<close>

fun swLoop :: "('x \<Rightarrow> string) \<Rightarrow> ('x \<Rightarrow> int) \<Rightarrow> ('x \<Rightarrow> bool) \<Rightarrow> 'x list \<Rightarrow> 'x swAcc \<Rightarrow> 'x swAcc" where
  "swLoop key weight live [] acc = acc"
| "swLoop key weight live (x # xs) (current, picked, totalWeight) =
     (if weight x \<le> 0 \<or> \<not> live x then swLoop key weight live xs (current, picked, totalWeight)
      else
        (let v = saturatingAddInt64 (int_get current (key x)) (weight x);
             current = AList.update (key x) v current;
             totalWeight = saturatingAddInt64 totalWeight (weight x);
             picked = (case picked of
                         None \<Rightarrow> Some (x, v)
                       | Some (p, pickedCurrent) \<Rightarrow> if v > pickedCurrent then Some (x, v) else picked)
         in swLoop key weight live xs (current, picked, totalWeight)))"

definition swPick ::
  "('x \<Rightarrow> string) \<Rightarrow> ('x \<Rightarrow> int) \<Rightarrow> ('x \<Rightarrow> bool) \<Rightarrow> 'x list \<Rightarrow> (string, int) gomap
   \<Rightarrow> 'x option \<times> (string, int) gomap" where
  "swPick key weight live xs current =
     (case swLoop key weight live xs (current, None, 0) of
        (current, None, totalWeight) \<Rightarrow> (None, current)
      | (current, Some (p, v), totalWeight) \<Rightarrow>
          (Some p, AList.update (key p)
             (saturatingAddInt64 (int_get current (key p)) (- totalWeight)) current))"

definition pickSmoothWeightedAuth ::
  "Auth list \<Rightarrow> (string, int) gomap \<Rightarrow> Auth option \<times> (string, int) gomap" where
  "pickSmoothWeightedAuth = swPick ID (\<lambda>a. authWeight (Some a)) (\<lambda>_. True)"

record smoothWeightedState =
  swCurrent :: "(string, int) gomap"
  swWeights :: "(string, int) gomap"

definition emptyWeightedState :: smoothWeightedState where
  "emptyWeightedState = \<lparr>swCurrent = [], swWeights = []\<rparr>"

definition maxSmoothWeightedStateEntries :: nat where "maxSmoothWeightedStateEntries = 1024"

definition weightsConfigChanged :: "(string, int) gomap \<Rightarrow> (string, int) gomap \<Rightarrow> bool" where
  "weightsConfigChanged left right \<longleftrightarrow>
     left \<noteq> [] \<and> (\<exists>(authID, weight) \<in> set right.
        case map_of left authID of None \<Rightarrow> False | Some previous \<Rightarrow> previous \<noteq> weight)"

definition pruneStale :: "(string, int) gomap \<Rightarrow> smoothWeightedState \<Rightarrow> smoothWeightedState" where
  "pruneStale weights s =
     (if length (swCurrent s) \<le> maxSmoothWeightedStateEntries
         \<and> length (swWeights s) \<le> maxSmoothWeightedStateEntries then s
      else s\<lparr>swCurrent := filter (\<lambda>(k, _). map_of weights k \<noteq> None) (swCurrent s),
             swWeights := filter (\<lambda>(k, _). map_of weights k \<noteq> None) (swWeights s)\<rparr>)"

definition prepare :: "(string, int) gomap \<Rightarrow> smoothWeightedState \<Rightarrow> smoothWeightedState" where
  "prepare weights s =
     (let s = (if weightsConfigChanged (swWeights s) weights then s\<lparr>swCurrent := []\<rparr> else s);
          s = s\<lparr>swWeights := fold (\<lambda>(k, w) m. AList.update k w m) weights (swWeights s)\<rparr>
      in pruneStale weights s)"

definition authWeightVector :: "Auth list \<Rightarrow> (string, int) gomap" where
  "authWeightVector auths =
     fold (\<lambda>a m. if authWeight (Some a) > 0 then AList.update (ID a) (authWeight (Some a)) m else m) auths []"

section \<open>The specification\<close>

definition richest :: "('k \<Rightarrow> int) \<Rightarrow> 'k list \<Rightarrow> 'k" where
  "richest c ks = fold (\<lambda>k b. if c b < c k then k else b) (tl ks) (hd ks)"

definition earn :: "'k list \<Rightarrow> ('k \<Rightarrow> int) \<Rightarrow> ('k \<Rightarrow> int) \<Rightarrow> 'k \<Rightarrow> int" where
  "earn ks w c = (\<lambda>k. if k \<in> set ks then c k + w k else c k)"

definition tot :: "'k list \<Rightarrow> ('k \<Rightarrow> int) \<Rightarrow> int" where
  "tot ks w = sum w (set ks)"

definition swStep :: "'k list \<Rightarrow> ('k \<Rightarrow> int) \<Rightarrow> ('k \<Rightarrow> int) \<Rightarrow> 'k \<times> ('k \<Rightarrow> int)" where
  "swStep ks w c =
     (let e = earn ks w c; p = richest e ks in (p, e(p := e p - tot ks w)))"

fun swPicks :: "'k list \<Rightarrow> ('k \<Rightarrow> int) \<Rightarrow> nat \<Rightarrow> ('k \<Rightarrow> int) \<Rightarrow> 'k list \<times> ('k \<Rightarrow> int)" where
  "swPicks ks w 0 c = ([], c)"
| "swPicks ks w (Suc n) c =
     (let (p, c) = swStep ks w c; (ps, c) = swPicks ks w n c in (p # ps, c))"

definition picked_times :: "'k \<Rightarrow> 'k list \<Rightarrow> int" where
  "picked_times k ps = int (count_list ps k)"

lemma richest_fold:
  "(\<forall>x \<in> insert b (set ks). c x \<le> c (fold (\<lambda>k b. if c b < c k then k else b) ks b))
   \<and> fold (\<lambda>k b. if c b < c k then k else b) ks b \<in> insert b (set ks)"
  for c :: "'k \<Rightarrow> int"
proof (induction ks arbitrary: b)
  case (Cons k ks)
  from Cons.IH [of "if c b < c k then k else b"] show ?case
    by (auto split: if_splits)
qed simp

lemma richest_in: "ks \<noteq> [] \<Longrightarrow> richest c ks \<in> set ks"
  using richest_fold [of "hd ks" "tl ks" c] by (cases ks) (auto simp: richest_def)

lemma richest_max: "k \<in> set ks \<Longrightarrow> c k \<le> c (richest c ks)"
  using richest_fold [of "hd ks" "tl ks" c] by (cases ks) (auto simp: richest_def)

lemma sum_earn: "sum (earn ks w c) (set ks) = sum c (set ks) + tot ks w"
  by (simp add: earn_def tot_def sum.distrib)

definition balanced :: "'k list \<Rightarrow> ('k \<Rightarrow> int) \<Rightarrow> ('k \<Rightarrow> int) \<Rightarrow> bool" where
  "balanced ks w c \<longleftrightarrow> sum c (set ks) = 0 \<and> (\<forall>k \<in> set ks. - tot ks w < c k)"

lemma tot_pos: "ks \<noteq> [] \<Longrightarrow> \<forall>k \<in> set ks. 0 < w k \<Longrightarrow> 0 < tot ks w"
  unfolding tot_def by (rule sum_pos) auto

lemma swStep_pick: "ks \<noteq> [] \<Longrightarrow> fst (swStep ks w c) \<in> set ks"
  by (simp add: swStep_def Let_def richest_in)

text \<open>The richest candidate owns something after the pay day, so paying leaves it above minus the total.\<close>

lemma richest_pos:
  assumes "ks \<noteq> []" and "\<forall>k \<in> set ks. 0 < w k" and "sum c (set ks) = 0"
  shows "0 < earn ks w c (richest (earn ks w c) ks)"
proof (rule ccontr)
  assume "\<not> ?thesis"
  then have "\<forall>k \<in> set ks. earn ks w c k \<le> 0"
    using richest_max [of _ ks "earn ks w c"] by force
  then have "sum (earn ks w c) (set ks) \<le> 0" by (simp add: sum_nonpos)
  with sum_earn [of ks w c] tot_pos [OF assms(1,2)] assms(3) show False by simp
qed

lemma balanced_step:
  assumes "ks \<noteq> []" and w: "\<forall>k \<in> set ks. 0 < w k" and b: "balanced ks w c"
  shows "balanced ks w (snd (swStep ks w c))"
proof -
  let ?e = "earn ks w c" and ?p = "richest (earn ks w c) ks"
  have p: "?p \<in> set ks" by (rule richest_in [OF assms(1)])
  have "sum (?e(?p := ?e ?p - tot ks w)) (set ks) = sum ?e (set ks) - tot ks w"
    using p by (simp add: sum.remove [of "set ks" ?p] fun_upd_def cong: if_cong)
  then have "sum (?e(?p := ?e ?p - tot ks w)) (set ks) = 0"
    using b sum_earn [of ks w c] by (simp add: balanced_def)
  moreover have "- tot ks w < (?e(?p := ?e ?p - tot ks w)) k" if "k \<in> set ks" for k
  proof (cases "k = ?p")
    case True
    then show ?thesis using richest_pos [OF assms(1) w, of c] b by (simp add: balanced_def)
  next
    case False
    moreover have "- tot ks w < c k" "0 < w k" using b w that by (auto simp: balanced_def)
    ultimately show ?thesis using that by (simp add: earn_def)
  qed
  ultimately show ?thesis by (simp add: swStep_def Let_def balanced_def)
qed

lemma balanced_swPicks:
  assumes "ks \<noteq> []" and "\<forall>k \<in> set ks. 0 < w k"
  shows "balanced ks w c \<Longrightarrow> balanced ks w (snd (swPicks ks w n c))"
proof (induction n arbitrary: c)
  case (Suc n)
  then show ?case using balanced_step [OF assms] by (auto simp: split_beta Let_def)
qed simp

text \<open>The accumulator counts: weight earned in every round, total paid for every pick.\<close>

lemma swPicks_account:
  "k \<in> set ks \<Longrightarrow> snd (swPicks ks w n c) k =
     c k + int n * w k - tot ks w * picked_times k (fst (swPicks ks w n c))"
proof (induction n arbitrary: c)
  case (Suc n)
  obtain p c1 where s: "swStep ks w c = (p, c1)" by (cases "swStep ks w c")
  then have c1: "c1 k = c k + w k - (if k = p then tot ks w else 0)"
    using Suc.prems by (auto simp: swStep_def Let_def earn_def)
  show ?case
    using Suc.IH [OF Suc.prems, of c1] c1 s
    by (auto simp: Let_def split_beta picked_times_def algebra_simps)
qed (simp add: picked_times_def)

lemma swPicks_length [simp]: "length (fst (swPicks ks w n c)) = n"
  by (induction n arbitrary: c) (auto simp: Let_def split_beta)

lemma swPicks_in: "ks \<noteq> [] \<Longrightarrow> set (fst (swPicks ks w n c)) \<subseteq> set ks"
  by (induction n arbitrary: c) (auto simp: Let_def split_beta swStep_pick)

lemma sum_picked_times: "set ps \<subseteq> A \<Longrightarrow> finite A \<Longrightarrow> (\<Sum>k\<in>A. picked_times k ps) = int (length ps)"
  using sum_count_set [of ps A] by (simp add: picked_times_def of_nat_sum [symmetric])

lemma balanced_zero:
  "ks \<noteq> [] \<Longrightarrow> \<forall>k \<in> set ks. 0 < w k \<Longrightarrow> \<forall>k \<in> set ks. c k = 0 \<Longrightarrow> balanced ks w c"
  using tot_pos [of ks w] by (simp add: balanced_def)

text \<open>
  From a fresh state, after \<open>n\<close> rounds no candidate is a full round ahead of its share, and
  none is more than one round per other candidate behind.
\<close>

lemma swPicks_share:
  assumes "ks \<noteq> []" and "\<forall>k \<in> set ks. 0 < w k" and "\<forall>k \<in> set ks. c k = 0" and "k \<in> set ks"
  shows "tot ks w * picked_times k (fst (swPicks ks w n c)) < int n * w k + tot ks w"
    and "int n * w k - int (card (set ks) - 1) * tot ks w
      \<le> tot ks w * picked_times k (fst (swPicks ks w n c))"
proof -
  let ?c = "snd (swPicks ks w n c)"
  have b: "balanced ks w ?c" using balanced_swPicks balanced_zero assms by blast
  then show "tot ks w * picked_times k (fst (swPicks ks w n c)) < int n * w k + tot ks w"
    using swPicks_account [OF assms(4), of w n c] assms(3,4) by (auto simp: balanced_def)
  have "sum ?c (set ks) = ?c k + sum ?c (set ks - {k})"
    using assms(4) by (simp add: sum.remove)
  moreover have "- int (card (set ks) - 1) * tot ks w \<le> sum ?c (set ks - {k})"
  proof -
    have "(\<Sum>i\<in>set ks - {k}. - tot ks w) \<le> sum ?c (set ks - {k})"
      using b by (intro sum_mono) (auto simp: balanced_def less_imp_le)
    then show ?thesis using assms(4) by (simp add: card_Diff_singleton)
  qed
  ultimately show "int n * w k - int (card (set ks) - 1) * tot ks w
      \<le> tot ks w * picked_times k (fst (swPicks ks w n c))"
    using b swPicks_account [OF assms(4), of w n c] assms(3,4) by (auto simp: balanced_def)
qed

text \<open>After a full cycle of \<open>total\<close> rounds everyone has got exactly its weight.\<close>

lemma swPicks_cycle:
  assumes "ks \<noteq> []" and "\<forall>k \<in> set ks. 0 < w k" and "\<forall>k \<in> set ks. c k = 0" and "k \<in> set ks"
  shows "picked_times k (fst (swPicks ks w (nat (tot ks w)) c)) = w k"
    and "snd (swPicks ks w (nat (tot ks w)) c) k = 0"
proof -
  let ?W = "tot ks w" and ?ps = "fst (swPicks ks w (nat (tot ks w)) c)"
  have W: "0 < ?W" using tot_pos assms by blast
  have le: "picked_times j ?ps \<le> w j" if "j \<in> set ks" for j
  proof -
    have "?W * picked_times j ?ps < ?W * (w j + 1)"
      using swPicks_share(1) [OF assms(1-3) that, of "nat ?W"] W by (simp add: algebra_simps)
    then show ?thesis using W by (simp add: mult_less_cancel_left_pos)
  qed
  have "(\<Sum>j\<in>set ks. picked_times j ?ps) = ?W"
    using sum_picked_times [OF swPicks_in [OF assms(1)]] W by simp
  then have "(\<Sum>j\<in>set ks. w j - picked_times j ?ps) = 0"
    by (simp add: sum_subtractf tot_def)
  then have "\<forall>j \<in> set ks. w j - picked_times j ?ps = 0"
    using le by (subst (asm) sum_nonneg_eq_0_iff) auto
  then show k: "picked_times k ?ps = w k" using assms(4) by auto
  show "snd (swPicks ks w (nat ?W) c) k = 0"
    using swPicks_account [OF assms(4), of w "nat ?W" c] k assms(3,4) W by simp
qed

section \<open>The loop refines the specification\<close>

lemma saturatingAddInt64_exact:
  "in_int64 v \<Longrightarrow> in_int64 (v + delta) \<Longrightarrow> saturatingAddInt64 v delta = v + delta"
  by (auto simp: saturatingAddInt64_def) (auto simp: int64_defs)

lemma int_get_update: "int_get (AList.update k v m) j = (if j = k then v else int_get m j)"
  by (simp add: int_get_def gomap_simps)

definition eligible :: "('x \<Rightarrow> int) \<Rightarrow> ('x \<Rightarrow> bool) \<Rightarrow> 'x list \<Rightarrow> 'x list" where
  "eligible weight live xs = filter (\<lambda>x. 0 < weight x \<and> live x) xs"

lemma eligible_simps [simp]:
  "eligible weight live [] = []"
  "eligible weight live (x # xs) =
     (if 0 < weight x \<and> live x then x # eligible weight live xs else eligible weight live xs)"
  by (simp_all add: eligible_def)

text \<open>The running maximum of the loop.\<close>

definition better :: "('x \<Rightarrow> int) \<Rightarrow> 'x \<Rightarrow> ('x \<times> int) option \<Rightarrow> ('x \<times> int) option" where
  "better v y p =
     (case p of None \<Rightarrow> Some (y, v y) | Some (q, pv) \<Rightarrow> if v y > pv then Some (y, v y) else p)"

lemma fold_better_Some:
  "fold (better v) ys (Some (b, v b)) =
     (let r = fold (\<lambda>k b. if v b < v k then k else b) ys b in Some (r, v r))"
  by (induction ys arbitrary: b) (auto simp: better_def Let_def)

lemma fold_better: "ys \<noteq> [] \<Longrightarrow> fold (better v) ys None = Some (richest v ys, v (richest v ys))"
  by (cases ys) (auto simp: better_def [of _ _ None] fold_better_Some richest_def Let_def)

lemma fold_better_cong:
  "(\<And>y. y \<in> set ys \<Longrightarrow> v y = v' y) \<Longrightarrow> fold (better v) ys p = fold (better v') ys p"
proof (intro fold_cong refl)
  fix x assume e: "\<And>y. y \<in> set ys \<Longrightarrow> v y = v' y" and "x \<in> set ys"
  then have "v x = v' x" by blast
  then show "better v x = better v' x" by (intro ext) (auto simp: better_def split: option.splits)
qed

definition earned :: "('x \<Rightarrow> string) \<Rightarrow> ('x \<Rightarrow> int) \<Rightarrow> (string, int) gomap \<Rightarrow> 'x \<Rightarrow> int" where
  "earned key weight current y = int_get current (key y) + weight y"

lemma swLoop_spec:
  assumes "distinct (map key (eligible weight live xs))"
    and "\<forall>y \<in> set (eligible weight live xs).
      in_int64 (int_get current (key y)) \<and> in_int64 (earned key weight current y)"
    and "0 \<le> t" and "t + sum_list (map weight (eligible weight live xs)) \<le> maxInt64"
    and "swLoop key weight live xs (current, picked, t) = (current', picked', t')"
  shows "(\<forall>k. int_get current' k =
        (case find (\<lambda>y. key y = k) (eligible weight live xs) of
           None \<Rightarrow> int_get current k | Some y \<Rightarrow> earned key weight current y))
    \<and> picked' = fold (better (earned key weight current)) (eligible weight live xs) picked
    \<and> t' = t + sum_list (map weight (eligible weight live xs))"
  using assms
proof (induction xs arbitrary: current picked t)
  case Nil
  then show ?case by simp
next
  case (Cons x xs)
  let ?ys = "eligible weight live xs"
  show ?case
  proof (cases "0 < weight x \<and> live x")
    case False
    with Cons.prems(5) have "swLoop key weight live xs (current, picked, t) = (current', picked', t')"
      by (auto split: if_splits)
    from Cons.IH [OF _ _ Cons.prems(3) _ this] Cons.prems False show ?thesis by auto
  next
    case True
    let ?v = "earned key weight current x"
    let ?c = "AList.update (key x) ?v current"
    have nn: "0 \<le> sum_list (map weight ?ys)" by (rule sum_list_nonneg) (auto simp: eligible_def)
    have v: "saturatingAddInt64 (int_get current (key x)) (weight x) = ?v"
      using Cons.prems(2) True by (simp add: earned_def saturatingAddInt64_exact)
    have tt: "saturatingAddInt64 t (weight x) = t + weight x"
      using Cons.prems(3,4) True nn by (intro saturatingAddInt64_exact) (auto simp: int64_defs)
    have fresh: "key x \<notin> key ` set ?ys" using Cons.prems(1) True by auto
    then have same: "earned key weight ?c y = earned key weight current y"
      "int_get ?c (key y) = int_get current (key y)" if "y \<in> set ?ys" for y
      using that by (auto simp: earned_def int_get_update dest: image_eqI [of "key x" key, OF sym])
    have loop: "swLoop key weight live xs (?c, better (earned key weight current) x picked, t + weight x)
        = (current', picked', t')"
      using Cons.prems(5) True v tt by (auto simp: better_def Let_def split: option.splits)
    have r: "(\<forall>k. int_get current' k = (case find (\<lambda>y. key y = k) ?ys of
           None \<Rightarrow> int_get ?c k | Some y \<Rightarrow> earned key weight ?c y))
      \<and> picked' = fold (better (earned key weight ?c)) ?ys (better (earned key weight current) x picked)
      \<and> t' = t + weight x + sum_list (map weight ?ys)"
      by (rule Cons.IH [OF _ _ _ _ loop]) (use Cons.prems True same in auto)
    have "int_get current' k = (case find (\<lambda>y. key y = k) (x # ?ys) of
           None \<Rightarrow> int_get current k | Some y \<Rightarrow> earned key weight current y)" for k
    proof (cases "find (\<lambda>y. key y = k) ?ys")
      case None
      with r show ?thesis by (auto simp: int_get_update)
    next
      case (Some y)
      then have "y \<in> set ?ys" "key y = k" by (auto simp: find_Some_iff)
      with Some r fresh same show ?thesis by auto
    qed
    moreover have "fold (better (earned key weight ?c)) ?ys p = fold (better (earned key weight current)) ?ys p" for p
      by (rule fold_better_cong) (rule same)
    ultimately show ?thesis using r True by simp
  qed
qed

lemma find_key_distinct:
  "distinct (map key ys) \<Longrightarrow> y \<in> set ys \<Longrightarrow> find (\<lambda>z. key z = key y) ys = Some y"
  by (induction ys) auto

lemma find_key_None: "k \<notin> key ` set ys \<Longrightarrow> find (\<lambda>z. key z = k) ys = None"
  by (auto simp: find_None_iff)

lemma sum_list_tot: "distinct ys \<Longrightarrow> sum_list (map w ys) = tot ys w"
  by (simp add: tot_def sum_list_distinct_conv_sum_set)

lemma richest_cong: "(\<And>k. k \<in> set ks \<Longrightarrow> c k = d k) \<Longrightarrow> ks \<noteq> [] \<Longrightarrow> richest c ks = richest d ks"
  using fold_better_cong [of ks c d None] fold_better [of ks c] fold_better [of ks d] by simp

text \<open>
  One pick of the code is one step of the specification.  \<open>room\<close> says that the accumulators of the
  candidates and their total are far enough from the limits of \<open>int64\<close>.
\<close>

definition room :: "('x \<Rightarrow> string) \<Rightarrow> ('x \<Rightarrow> int) \<Rightarrow> 'x list \<Rightarrow> (string, int) gomap \<Rightarrow> bool" where
  "room key weight ys current \<longleftrightarrow> tot ys weight \<le> maxInt64 \<and>
     (\<forall>y \<in> set ys. in_int64 (int_get current (key y)) \<and> in_int64 (earned key weight current y)
        \<and> in_int64 (earned key weight current y - tot ys weight))"

lemma swPick_refines:
  fixes key :: "'x \<Rightarrow> string" and weight :: "'x \<Rightarrow> int" and live :: "'x \<Rightarrow> bool" and xs :: "'x list"
  defines "ys \<equiv> eligible weight live xs" and "c \<equiv> \<lambda>cur y. int_get cur (key y)"
  assumes "distinct (map key ys)" and "ys \<noteq> []" and "room key weight ys current"
  shows "\<exists>current'. swPick key weight live xs current = (Some (fst (swStep ys weight (c current))), current')
    \<and> (\<forall>y \<in> set ys. c current' y = snd (swStep ys weight (c current)) y)
    \<and> (\<forall>k. k \<notin> key ` set ys \<longrightarrow> int_get current' k = int_get current k)"
proof -
  obtain cur1 pk t1 where loop: "swLoop key weight live xs (current, None, 0) = (cur1, pk, t1)"
    using prod_cases3 by blast
  let ?e = "earned key weight current" and ?W = "tot ys weight"
  let ?p = "richest ?e ys"
  have d: "distinct ys" using assms(3) by (simp add: distinct_map)
  have spec: "(\<forall>k. int_get cur1 k = (case find (\<lambda>y. key y = k) ys of
        None \<Rightarrow> int_get current k | Some y \<Rightarrow> ?e y))
      \<and> pk = fold (better ?e) ys None \<and> t1 = 0 + sum_list (map weight ys)"
    unfolding ys_def
    by (rule swLoop_spec [OF _ _ _ _ loop])
      (use assms(3,5) d in \<open>auto simp: ys_def room_def sum_list_tot\<close>)
  have p: "?p \<in> set ys" by (rule richest_in [OF assms(4)])
  have cur1: "int_get cur1 (key y) = ?e y" if "y \<in> set ys" for y
    using spec that assms(3) by (simp add: find_key_distinct)
  have pick: "swPick key weight live xs current =
      (Some ?p, AList.update (key ?p) (?e ?p - ?W) cur1)"
    using loop spec cur1 [OF p] p assms(5) fold_better [OF assms(4)] sum_list_tot [OF d, of weight]
    by (simp add: swPick_def saturatingAddInt64_exact room_def)
  have e: "earn ys weight (c current) y = ?e y" if "y \<in> set ys" for y
    using that by (simp add: earn_def earned_def c_def)
  then have rp: "richest (earn ys weight (c current)) ys = ?p"
    using assms(4) by (intro richest_cong)
  have "c (AList.update (key ?p) (?e ?p - ?W) cur1) y = snd (swStep ys weight (c current)) y"
    if "y \<in> set ys" for y
    using that p cur1 assms(3) e rp inj_on_eq_iff [of key "set ys"]
    by (auto simp: c_def int_get_update swStep_def Let_def distinct_map)
  moreover have "int_get (AList.update (key ?p) (?e ?p - ?W) cur1) k = int_get current k"
    if "k \<notin> key ` set ys" for k
    using that p spec find_key_None [OF that] by (auto simp: int_get_update)
  ultimately show ?thesis using pick rp by (auto simp: swStep_def Let_def)
qed

text \<open>Whatever the accumulators hold, a pick is an eligible candidate and exists if there is one.\<close>

lemma swLoop_picked:
  "swLoop key weight live xs (current, picked, t) = (current', picked', t') \<Longrightarrow>
     (picked' = None \<longleftrightarrow> picked = None \<and> eligible weight live xs = [])
     \<and> (\<forall>p v. picked' = Some (p, v) \<longrightarrow> p \<in> set (eligible weight live xs) \<or> (\<exists>v'. picked = Some (p, v')))"
proof (induction xs arbitrary: current picked t)
  case (Cons x xs)
  show ?case
  proof (cases "0 < weight x \<and> live x")
    case False
    with Cons.prems Cons.IH [of current picked t] show ?thesis by (auto split: if_splits)
  next
    case True
    let ?v = "saturatingAddInt64 (int_get current (key x)) (weight x)"
    define pk where "pk = (case picked of None \<Rightarrow> Some (x, ?v)
        | Some (p, pc) \<Rightarrow> if ?v > pc then Some (x, ?v) else picked)"
    have loop: "swLoop key weight live xs
        (AList.update (key x) ?v current, pk, saturatingAddInt64 t (weight x)) = (current', picked', t')"
      using Cons.prems True by (simp add: Let_def pk_def)
    have pk: "pk \<noteq> None" "\<And>p v. pk = Some (p, v) \<Longrightarrow> p = x \<or> picked = Some (p, v)"
      by (auto simp: pk_def split: option.splits if_splits)
    from Cons.IH [OF loop] pk True show ?thesis by fastforce
  qed
qed auto

lemma swPick_picked:
  "(fst (swPick key weight live xs current) = None \<longleftrightarrow> eligible weight live xs = [])
   \<and> (\<forall>p. fst (swPick key weight live xs current) = Some p \<longrightarrow> p \<in> set (eligible weight live xs))"
proof -
  obtain c pk t where l: "swLoop key weight live xs (current, None, 0) = (c, pk, t)"
    using prod_cases3 by blast
  from swLoop_picked [OF l] l show ?thesis by (cases pk) (auto simp: swPick_def)
qed

section \<open>Fairness of the code\<close>

text \<open>Repeated picks from the same candidates, threading the accumulator map.\<close>

fun swRun ::
  "('x \<Rightarrow> string) \<Rightarrow> ('x \<Rightarrow> int) \<Rightarrow> ('x \<Rightarrow> bool) \<Rightarrow> 'x list \<Rightarrow> nat \<Rightarrow> (string, int) gomap
   \<Rightarrow> 'x option list \<times> (string, int) gomap" where
  "swRun key weight live xs 0 current = ([], current)"
| "swRun key weight live xs (Suc n) current =
     (let (p, current) = swPick key weight live xs current;
          (ps, current) = swRun key weight live xs n current
      in (p # ps, current))"

definition fits :: "('x \<Rightarrow> int) \<Rightarrow> 'x list \<Rightarrow> bool" where
  "fits weight ys \<longleftrightarrow> 2 * (int (length ys) * tot ys weight) < maxInt64"

lemma balanced_upper:
  assumes "balanced ys w c" and "y \<in> set ys" and "distinct ys"
  shows "c y \<le> (int (length ys) - 1) * tot ys w"
proof -
  have "(\<Sum>i\<in>set ys - {y}. - tot ys w) \<le> sum c (set ys - {y})"
    using assms(1) by (intro sum_mono) (auto simp: balanced_def less_imp_le)
  moreover have "int (card (set ys - {y})) = int (length ys) - 1"
    using assms(2,3) by (cases ys) (auto simp: distinct_card card_Diff_singleton)
  moreover have "c y + sum c (set ys - {y}) = 0"
    using assms(1,2) by (simp add: balanced_def sum.remove [symmetric])
  ultimately show ?thesis by simp
qed

lemma balanced_room:
  assumes "balanced ys weight (\<lambda>y. int_get current (key y))" and "distinct ys" and "fits weight ys"
    and pos: "\<forall>y \<in> set ys. 0 < weight y" and "ys \<noteq> []"
  shows "room key weight ys current"
proof -
  let ?W = "tot ys weight"
  have W: "0 < ?W" using tot_pos pos assms(5) by blast
  have len: "1 \<le> int (length ys)" using assms(5) by (cases ys) auto
  define M where "M = int (length ys) * ?W"
  have Wle: "?W \<le> M" using W len by (simp add: M_def)
  have fit: "2 * M < maxInt64" using assms(3) by (simp add: fits_def M_def)
  have "in_int64 (int_get current (key y)) \<and> in_int64 (earned key weight current y)
      \<and> in_int64 (earned key weight current y - ?W)" if y: "y \<in> set ys" for y
  proof -
    have "- ?W < int_get current (key y)" using assms(1) y by (simp add: balanced_def)
    moreover have "int_get current (key y) \<le> M - ?W"
      using balanced_upper [OF assms(1) y assms(2)] by (simp add: left_diff_distrib M_def)
    moreover have "0 < weight y" "weight y \<le> ?W"
      using pos y member_le_sum [of y "set ys" weight] by (auto simp: tot_def less_imp_le)
    ultimately show ?thesis
      using W Wle fit unfolding earned_def int64_defs by auto
  qed
  with Wle fit W show ?thesis by (simp add: room_def)
qed

lemma swStep_cong:
  assumes "\<And>k. k \<in> set ks \<Longrightarrow> c k = d k" and "ks \<noteq> []"
  shows "fst (swStep ks w c) = fst (swStep ks w d)"
    and "k \<in> set ks \<Longrightarrow> snd (swStep ks w c) k = snd (swStep ks w d) k"
proof -
  have "richest (earn ks w c) ks = richest (earn ks w d) ks"
    by (rule richest_cong) (use assms in \<open>auto simp: earn_def\<close>)
  then show "fst (swStep ks w c) = fst (swStep ks w d)"
    and "k \<in> set ks \<Longrightarrow> snd (swStep ks w c) k = snd (swStep ks w d) k"
    using assms by (auto simp: swStep_def Let_def earn_def)
qed

lemma swPicks_cong:
  assumes "ks \<noteq> []"
  shows "(\<And>k. k \<in> set ks \<Longrightarrow> c k = d k) \<Longrightarrow> fst (swPicks ks w n c) = fst (swPicks ks w n d)
    \<and> (\<forall>k \<in> set ks. snd (swPicks ks w n c) k = snd (swPicks ks w n d) k)"
proof (induction n arbitrary: c d)
  case (Suc n)
  note st = swStep_cong [OF Suc.prems assms, where w = w]
  have "fst (swPicks ks w n (snd (swStep ks w c))) = fst (swPicks ks w n (snd (swStep ks w d)))
    \<and> (\<forall>k \<in> set ks. snd (swPicks ks w n (snd (swStep ks w c))) k = snd (swPicks ks w n (snd (swStep ks w d))) k)"
    by (rule Suc.IH) (rule st(2))
  with st(1) show ?case by (simp add: Let_def split_beta)
qed simp

lemma swRun_refines:
  assumes "distinct (map key (eligible weight live xs))" and "eligible weight live xs \<noteq> []"
    and "fits weight (eligible weight live xs)"
    and "balanced (eligible weight live xs) weight (\<lambda>y. int_get current (key y))"
  shows "fst (swRun key weight live xs n current)
      = map Some (fst (swPicks (eligible weight live xs) weight n (\<lambda>y. int_get current (key y))))
    \<and> (\<forall>y \<in> set (eligible weight live xs). int_get (snd (swRun key weight live xs n current)) (key y)
        = snd (swPicks (eligible weight live xs) weight n (\<lambda>y. int_get current (key y))) y)"
  using assms(4)
proof (induction n arbitrary: current)
  case (Suc n)
  let ?ys = "eligible weight live xs" and ?c = "\<lambda>y. int_get current (key y)"
  have pos: "\<forall>y \<in> set ?ys. 0 < weight y" by (auto simp: eligible_def)
  have d: "distinct ?ys" using assms(1) by (simp add: distinct_map)
  obtain cur' where pick: "swPick key weight live xs current = (Some (fst (swStep ?ys weight ?c)), cur')"
    and get: "\<And>y. y \<in> set ?ys \<Longrightarrow> int_get cur' (key y) = snd (swStep ?ys weight ?c) y"
    using swPick_refines [OF assms(1,2) balanced_room [OF Suc.prems d assms(3) pos assms(2)]] by blast
  have "balanced ?ys weight (snd (swStep ?ys weight ?c))"
    by (rule balanced_step [OF assms(2) pos Suc.prems])
  then have b: "balanced ?ys weight (\<lambda>y. int_get cur' (key y))"
    using get by (simp add: balanced_def cong: sum.cong)
  from swPicks_cong [OF assms(2), of "\<lambda>y. int_get cur' (key y)" "snd (swStep ?ys weight ?c)" weight n]
  show ?case using Suc.IH [OF b] get pick by (simp add: Let_def split_beta)
qed simp

lemma count_list_map_Some: "count_list (map Some xs) (Some x) = count_list xs x"
  by (induction xs) auto

lemmas swRun_fresh = swRun_refines [OF _ _ _ balanced_zero]

text \<open>Two million credentials of the largest weight are still far from saturation.\<close>

lemma fits_authWeight:
  assumes "length auths \<le> 2000000"
  shows "fits (\<lambda>a. authWeight (Some a)) auths"
proof -
  let ?W = "tot auths (\<lambda>a. authWeight (Some a))" and ?n = "int (length auths)"
  have "?W \<le> of_nat (card (set auths)) * MaxWeight"
    unfolding tot_def by (rule sum_bounded_above) (use authWeight_ok in \<open>auto simp: weight_ok_def\<close>)
  also have "\<dots> \<le> 2000000 * 1000000"
    using card_length [of auths] assms by (simp add: MaxWeight_def)
  finally have "?n * ?W \<le> ?n * 2000000000000"
    by (intro mult_left_mono) simp_all
  also have "\<dots> \<le> 2000000 * 2000000000000" using assms by simp
  finally show ?thesis by (simp add: fits_def maxInt64_def)
qed

text \<open>
  Claim C18. Weighted selection is exactly proportional: starting with empty credit, as many
  consecutive picks of \<open>pickSmoothWeightedAuth\<close> as the weights sum up to choose every credential
  exactly as often as its weight says and leave every credit at zero again, so the next cycle
  starts afresh.
\<close>

theorem weighted_pick_cycle_exact:
  assumes "distinct (map ID auths)" and "\<forall>a \<in> set auths. 0 < authWeight (Some a)" and "auths \<noteq> []"
    and "\<forall>a \<in> set auths. int_get current (ID a) = 0"
    and "length auths \<le> 2000000" and "a \<in> set auths"
  shows "let W = tot auths (\<lambda>a. authWeight (Some a));
             (picks, current') = swRun ID (\<lambda>a. authWeight (Some a)) (\<lambda>_. True) auths (nat W) current
         in int (count_list picks (Some a)) = authWeight (Some a) \<and> int_get current' (ID a) = 0"
proof -
  let ?w = "\<lambda>a. authWeight (Some a)" and ?c = "\<lambda>a. int_get current (ID a)"
  have e: "eligible ?w (\<lambda>_. True) auths = auths" using assms(2) by (simp add: eligible_def)
  from swRun_fresh [of ID ?w "\<lambda>_. True" auths, unfolded e, OF assms(1,3) fits_authWeight [OF assms(5)] assms(3,2,4), of "nat (tot auths ?w)"]
    swPicks_cycle [OF assms(3,2), of ?c a] assms(4,6)
  show ?thesis
    by (auto simp: Let_def split_beta count_list_map_Some picked_times_def)
qed

definition wWeighted :: "Auth list" where
  "wWeighted = [emptyAuth\<lparr>ID := ''a'', Attributes := [(''weight'', ''3'')]\<rparr>,
                emptyAuth\<lparr>ID := ''b''\<rparr>]"

lemma wWeighted_weights: "map (\<lambda>a. authWeight (Some a)) wWeighted = [3, 1]" "map ID wWeighted = [''a'', ''b'']"
  by code_simp+

lemma wWeighted_tot: "tot wWeighted (\<lambda>a. authWeight (Some a)) = 4"
proof -
  have "distinct (map ID wWeighted)" unfolding wWeighted_weights by simp
  then have "distinct wWeighted" by (simp only: distinct_map)
  then show ?thesis using sum_list_tot [of wWeighted "\<lambda>a. authWeight (Some a)"] wWeighted_weights(1) by simp
qed

lemma wWeighted_pos: "\<forall>a \<in> set wWeighted. 0 < authWeight (Some a)"
proof -
  have "\<forall>w \<in> set (map (\<lambda>a. authWeight (Some a)) wWeighted). 0 < w" unfolding wWeighted_weights by simp
  then show ?thesis by simp
qed

theorem weighted_pick_cycle_exact_witness:
  "let (picks, current') = swRun ID (\<lambda>a. authWeight (Some a)) (\<lambda>_. True) wWeighted 4 []
   in int (count_list picks (Some (hd wWeighted))) = authWeight (Some (hd wWeighted))
      \<and> int_get current' (ID (hd wWeighted)) = 0"
  using weighted_pick_cycle_exact [of wWeighted "[]" "hd wWeighted"] wWeighted_weights wWeighted_tot wWeighted_pos
  by (simp add: int_get_def wWeighted_def)

text \<open>
  Claim C19. Weighted selection is smooth at every moment, not only at the end of a cycle: after
  any number \<open>n\<close> of picks from fresh credit, the number of times a credential was chosen exceeds
  its exact share \<open>n w / W\<close> by less than one and falls behind it by at most the number of the other
  credentials.
\<close>

theorem weighted_pick_share_bounds:
  assumes "distinct (map ID auths)" and "\<forall>a \<in> set auths. 0 < authWeight (Some a)" and "auths \<noteq> []"
    and "\<forall>a \<in> set auths. int_get current (ID a) = 0"
    and "length auths \<le> 2000000" and "a \<in> set auths"
  shows "let W = tot auths (\<lambda>a. authWeight (Some a)); w = authWeight (Some a);
             times = int (count_list (fst (swRun ID (\<lambda>a. authWeight (Some a)) (\<lambda>_. True) auths n current)) (Some a))
         in W * times < int n * w + W \<and> int n * w \<le> W * times + int (length auths - 1) * W"
proof -
  let ?w = "\<lambda>a. authWeight (Some a)" and ?c = "\<lambda>a. int_get current (ID a)"
  have e: "eligible ?w (\<lambda>_. True) auths = auths" using assms(2) by (simp add: eligible_def)
  have "card (set auths) = length auths" using assms(1) by (simp add: distinct_map distinct_card)
  with swRun_fresh [of ID ?w "\<lambda>_. True" auths, unfolded e, OF assms(1,3) fits_authWeight [OF assms(5)] assms(3,2,4), of n]
    swPicks_share [OF assms(3,2) _ assms(6), of ?c n] assms(4)
  show ?thesis
    by (simp add: Let_def count_list_map_Some picked_times_def)
qed

theorem weighted_pick_share_bounds_witness:
  "let times = int (count_list (fst (swRun ID (\<lambda>a. authWeight (Some a)) (\<lambda>_. True) wWeighted 2 [])) (Some (hd wWeighted)))
   in 4 * times < 2 * 3 + 4 \<and> 2 * 3 \<le> 4 * times + 4"
  using weighted_pick_share_bounds [of wWeighted "[]" "hd wWeighted" 2] wWeighted_weights wWeighted_tot wWeighted_pos
  by (simp add: int_get_def wWeighted_def)

end
