(* ===== verification/Selector.thy ===== *)
theory Selector
  imports Availability Rotation SmoothWeighted "HOL-Library.Multiset"
begin

text \<open>
  The built-in selectors of \<open>src/sdk/cliproxy/auth/selector.go\<close>: round robin, weighted round
  robin and fill first.  Each narrows the candidates to the free ones of the highest priority and
  then applies its own order.

  What the selectors read from the request context is the record \<open>pickCtx\<close>: the websocket flag, the
  mark of candidates the manager has validated already, the route model for the state of the weighted selector
  and the token expiry as seen by this request.  Candidate slices hold no nil pointers.
\<close>

record pickCtx =
  downstreamWebsocket :: bool
  prevalidated :: bool
  stateModel :: "string option"
  expForRequest :: "Auth \<Rightarrow> gotime option"

section \<open>Candidates\<close>

definition preferCodexWebsocketAuths :: "pickCtx \<Rightarrow> string \<Rightarrow> Auth list \<Rightarrow> Auth list" where
  "preferCodexWebsocketAuths ctx provider available =
     (if available = [] then available
      else if \<not> downstreamWebsocket ctx then available
      else if \<not> EqualFold (TrimSpace provider) ''codex'' then available
      else (let wsEnabled = filter (\<lambda>a. authWebsocketsEnabled (Some a)) available
            in if wsEnabled \<noteq> [] then wsEnabled else available))"

type_synonym priorityBuckets = "(int, Auth list) gomap"

definition collectStep ::
  "(Auth \<Rightarrow> gotime option) \<Rightarrow> string \<Rightarrow> gotime \<Rightarrow> Auth \<Rightarrow> priorityBuckets \<times> nat \<times> gotime
   \<Rightarrow> priorityBuckets \<times> nat \<times> gotime" where
  "collectStep accessExp model now candidate acc =
     (case acc of (available, cooldownCount, earliest) \<Rightarrow>
       (case isAuthBlockedForModelForRequest accessExp (Some candidate) model now of
          (False, _, _) \<Rightarrow>
            (addToBucket (\<lambda>a. authPriority (Some a)) candidate available, cooldownCount, earliest)
        | (True, why, next) \<Rightarrow>
            (available,
             if why = blockReasonCooldown then cooldownCount + 1 else cooldownCount,
             if why \<noteq> blockReasonDisabled \<and> After next now \<and> (IsZero earliest \<or> Before next earliest)
             then next else earliest)))"

definition collectAvailableByPriorityForRequest ::
  "(Auth \<Rightarrow> gotime option) \<Rightarrow> Auth list \<Rightarrow> string \<Rightarrow> gotime \<Rightarrow> priorityBuckets \<times> nat \<times> gotime" where
  "collectAvailableByPriorityForRequest accessExp auths model now =
     fold (collectStep accessExp model now) auths ([], 0, 0)"

definition bestBucket :: "int list \<Rightarrow> int" where
  "bestBucket priorities =
     fst (fold (\<lambda>p (best, found). if \<not> found \<or> p > best then (p, True) else (best, found)) priorities (0, False))"

definition sortByID :: "Auth list \<Rightarrow> Auth list" where
  "sortByID candidates = (if length candidates > 1 then sort_key ID candidates else candidates)"

definition availableAuthsFromPriorityBuckets :: "priorityBuckets \<Rightarrow> bool \<Rightarrow> Auth list" where
  "availableAuthsFromPriorityBuckets availableByPriority allPriorities =
     sortByID
       (if allPriorities then concat (map snd availableByPriority)
        else case map_of availableByPriority (bestBucket (map fst availableByPriority)) of
               None \<Rightarrow> [] | Some bucket \<Rightarrow> bucket)"

definition highestStep :: "Auth \<Rightarrow> int \<times> nat \<Rightarrow> int \<times> nat" where
  "highestStep auth acc =
     (case acc of (bestPriority, bestCount) \<Rightarrow>
       (let priority = authPriority (Some auth)
        in if bestCount = 0 \<or> priority > bestPriority then (priority, 1)
           else if priority = bestPriority then (bestPriority, bestCount + 1)
           else (bestPriority, bestCount)))"

definition highestPriorityAuths :: "Auth list \<Rightarrow> Auth list" where
  "highestPriorityAuths auths =
     (if length auths \<le> 1 then auths
      else
        (case fold highestStep auths (0, 0) of (bestPriority, bestCount) \<Rightarrow>
           if bestCount = length auths then auths
           else filter (\<lambda>a. authPriority (Some a) = bestPriority) auths))"

definition getAvailableAuthsWithPriorityModeForRequest ::
  "(Auth \<Rightarrow> gotime option) \<Rightarrow> Auth list \<Rightarrow> string \<Rightarrow> string \<Rightarrow> gotime \<Rightarrow> bool
   \<Rightarrow> auth_error + Auth list" where
  "getAvailableAuthsWithPriorityModeForRequest accessExp auths provider model now allPriorities =
     (if auths = [] then Inl (PlainError (errNew ''auth_not_found'' ''no auth candidates''))
      else
        (case collectAvailableByPriorityForRequest accessExp auths model now of
           (availableByPriority, cooldownCount, earliest) \<Rightarrow>
             if availableByPriority = [] then
               (if cooldownCount = length auths \<and> \<not> IsZero earliest then
                  (let resetIn = time_Sub earliest now
                   in Inl (newModelCooldownErrorWithCause model
                        (if provider = ''mixed'' then [] else provider)
                        (if resetIn < 0 then 0 else resetIn) None))
                else Inl (newAuthUnavailableErrorWithCause earliest now None))
             else Inr (availableAuthsFromPriorityBuckets availableByPriority allPriorities)))"

definition getSelectorAvailableAuthsWithPriorityMode ::
  "pickCtx \<Rightarrow> Auth list \<Rightarrow> string \<Rightarrow> string \<Rightarrow> gotime \<Rightarrow> bool \<Rightarrow> auth_error + Auth list" where
  "getSelectorAvailableAuthsWithPriorityMode ctx auths provider model now allPriorities =
     (if prevalidated ctx \<and> auths \<noteq> [] then
        (if \<not> allPriorities then Inr (highestPriorityAuths auths) else Inr auths)
      else getAvailableAuthsWithPriorityModeForRequest (expForRequest ctx) auths provider model now
        allPriorities)"

definition getSelectorAvailableAuths ::
  "pickCtx \<Rightarrow> Auth list \<Rightarrow> string \<Rightarrow> string \<Rightarrow> gotime \<Rightarrow> auth_error + Auth list" where
  "getSelectorAvailableAuths ctx auths provider model now =
     getSelectorAvailableAuthsWithPriorityMode ctx auths provider model now False"

section \<open>Selectors\<close>

type_synonym selectorKey = string

definition rotationKey :: "string \<Rightarrow> string \<Rightarrow> selectorKey" where
  "rotationKey provider model = provider @ '':'' @ canonicalModelKey model"

record RoundRobinSelector =
  lastPicked :: "(selectorKey, string) gomap"
  rrMaxKeys :: int

record WeightedRoundRobinSelector =
  wstates :: "(selectorKey, smoothWeightedState) gomap"
  wMaxKeys :: int

definition keyLimit :: "int \<Rightarrow> int" where
  "keyLimit maxKeys = (if maxKeys \<le> 0 then 4096 else maxKeys)"

definition successorIndex :: "Auth list \<Rightarrow> string \<Rightarrow> nat" where
  "successorIndex available lastID = succIndex ID available lastID"

definition ensureRotationKey :: "selectorKey \<Rightarrow> int \<Rightarrow> RoundRobinSelector \<Rightarrow> RoundRobinSelector" where
  "ensureRotationKey key limit s =
     (if map_of (lastPicked s) key = None \<and> int (length (lastPicked s)) \<ge> limit
      then s\<lparr>lastPicked := []\<rparr> else s)"

definition RoundRobin_Pick ::
  "pickCtx \<Rightarrow> string \<Rightarrow> string \<Rightarrow> gotime \<Rightarrow> Auth list \<Rightarrow> RoundRobinSelector
   \<Rightarrow> RoundRobinSelector \<times> (auth_error + Auth)" where
  "RoundRobin_Pick ctx provider model now auths s =
     (case getSelectorAvailableAuths ctx auths provider model now of
        Inl err \<Rightarrow> (s, Inl err)
      | Inr available \<Rightarrow>
         (let available = preferCodexWebsocketAuths ctx provider available;
              key = rotationKey provider model;
              s = ensureRotationKey key (keyLimit (rrMaxKeys s)) s;
              picked = available ! successorIndex available (str_get (lastPicked s) key)
          in (s\<lparr>lastPicked := AList.update key (ID picked) (lastPicked s)\<rparr>, Inr picked)))"

definition positiveWeightAuths :: "Auth list \<Rightarrow> Auth list" where
  "positiveWeightAuths auths = filter (\<lambda>a. authWeight (Some a) > 0) auths"

definition weightedSelectorStateModel :: "pickCtx \<Rightarrow> string \<Rightarrow> string" where
  "weightedSelectorStateModel ctx availabilityModel =
     (case stateModel ctx of
        Some routeModel \<Rightarrow> if TrimSpace routeModel \<noteq> [] then routeModel else availabilityModel
      | None \<Rightarrow> availabilityModel)"

text \<open>The locked part of the weighted pick: limit the map, prepare the state of the key, pick.\<close>

definition weightedPickFrom ::
  "selectorKey \<Rightarrow> Auth list \<Rightarrow> WeightedRoundRobinSelector \<Rightarrow> WeightedRoundRobinSelector \<times> Auth option" where
  "weightedPickFrom key available s =
     (let states = (if map_of (wstates s) key = None \<and> int (length (wstates s)) \<ge> keyLimit (wMaxKeys s)
                    then [] else wstates s);
          state = (case map_of states key of None \<Rightarrow> emptyWeightedState | Some st \<Rightarrow> st);
          state = prepare (authWeightVector available) state;
          (picked, current) = pickSmoothWeightedAuth available (swCurrent state)
      in (s\<lparr>wstates := AList.update key (state\<lparr>swCurrent := current\<rparr>) states\<rparr>, picked))"

definition WeightedRoundRobin_Pick ::
  "pickCtx \<Rightarrow> string \<Rightarrow> string \<Rightarrow> gotime \<Rightarrow> Auth list \<Rightarrow> WeightedRoundRobinSelector
   \<Rightarrow> WeightedRoundRobinSelector \<times> (auth_error + Auth)" where
  "WeightedRoundRobin_Pick ctx provider model now auths s =
     (case getSelectorAvailableAuths ctx (positiveWeightAuths auths) provider model now of
        Inl err \<Rightarrow> (s, Inl err)
      | Inr available \<Rightarrow>
         (case weightedPickFrom (rotationKey provider (weightedSelectorStateModel ctx model))
                 (preferCodexWebsocketAuths ctx provider available) s of
            (s, None) \<Rightarrow> (s, Inl (PlainError (errNew ''auth_unavailable'' ''no auth available with positive weight'')))
          | (s, Some a) \<Rightarrow> (s, Inr a)))"

definition FillFirst_Pick ::
  "pickCtx \<Rightarrow> string \<Rightarrow> string \<Rightarrow> gotime \<Rightarrow> Auth list \<Rightarrow> unit \<Rightarrow> unit \<times> (auth_error + Auth)" where
  "FillFirst_Pick ctx provider model now auths s =
     (case getSelectorAvailableAuths ctx auths provider model now of
        Inl err \<Rightarrow> (s, Inl err)
      | Inr available \<Rightarrow> (s, Inr (preferCodexWebsocketAuths ctx provider available ! 0)))"

section \<open>The tier of available candidates\<close>

definition free :: "pickCtx \<Rightarrow> string \<Rightarrow> gotime \<Rightarrow> Auth \<Rightarrow> bool" where
  "free ctx model now a \<longleftrightarrow>
     prevalidated ctx \<or> \<not> blocked (isAuthBlockedForModelForRequest (expForRequest ctx) (Some a) model now)"

definition tier :: "Auth list \<Rightarrow> Auth list" where
  "tier as = filter (\<lambda>a. \<forall>b \<in> set as. authPriority (Some b) \<le> authPriority (Some a)) as"

lemma tier_subset: "set (tier as) \<subseteq> set as"
  by (auto simp: tier_def)

lemma tier_nonempty: "as \<noteq> [] \<Longrightarrow> tier as \<noteq> []"
proof -
  assume "as \<noteq> []"
  let ?p = "\<lambda>a. authPriority (Some a)"
  have "Max (?p ` set as) \<in> ?p ` set as" using \<open>as \<noteq> []\<close> by (intro Max_in) auto
  then obtain a where "a \<in> set as" "?p a = Max (?p ` set as)" by auto
  then have "a \<in> set (tier as)" by (auto simp: tier_def)
  then show ?thesis by auto
qed

lemma tier_max: "a \<in> set (tier as) \<Longrightarrow> b \<in> set as \<Longrightarrow> authPriority (Some b) \<le> authPriority (Some a)"
  by (auto simp: tier_def)

lemma tier_by_priority:
  assumes "a \<in> set as" and "\<forall>b \<in> set as. authPriority (Some b) \<le> authPriority (Some a)"
  shows "tier as = filter (\<lambda>b. authPriority (Some b) = authPriority (Some a)) as"
  unfolding tier_def using assms by (intro filter_cong refl) (force intro: order_antisym)

abbreviation byPriority :: "Auth list \<Rightarrow> priorityBuckets \<Rightarrow> bool" where
  "byPriority \<equiv> bucketed (\<lambda>a. authPriority (Some a))"

lemma fold_collect:
  assumes "byPriority as m"
    and "fold (collectStep accessExp model now) xs (m, c, e) = (m', c', e')"
  shows "byPriority (as @ filter (\<lambda>a. \<not> blocked (isAuthBlockedForModelForRequest accessExp (Some a) model now)) xs) m'"
  using assms
proof (induction xs arbitrary: as m c e)
  case Nil
  then show ?case by simp
next
  case (Cons x xs)
  obtain bl r n where b: "isAuthBlockedForModelForRequest accessExp (Some x) model now = (bl, r, n)"
    using prod_cases3 by blast
  obtain m1 c1 e1 where s: "collectStep accessExp model now x (m, c, e) = (m1, c1, e1)"
    using prod_cases3 by blast
  have "byPriority (as @ (if bl then [] else [x])) m1"
    using s b Cons.prems(1) bucketed_add [OF Cons.prems(1), of x]
    by (cases bl) (auto simp: collectStep_def Let_def)
  from Cons.IH [OF this] Cons.prems(2) s b show ?case by (cases bl) auto
qed

lemma bestBucket_fold:
  "fst (fold (\<lambda>p (best, found). if found \<longrightarrow> best < p then (p, True) else (best, found)) ps (b, True))
     = Max (insert b (set ps))" for b :: int
proof (induction ps arbitrary: b)
  case (Cons p ps)
  have "Max (insert b (insert p (set ps))) = Max (insert (max b p) (set ps))"
    by (cases "set ps = {}") (auto simp: max.assoc)
  then show ?case using Cons.IH by (simp add: max_def)
qed simp

lemma bestBucket_Max: "ps \<noteq> [] \<Longrightarrow> bestBucket ps = Max (set ps)"
  by (cases ps) (auto simp: bestBucket_def bestBucket_fold)

lemma bucketed_best:
  assumes "byPriority as m" and "as \<noteq> []"
  shows "map_of m (bestBucket (map fst m)) = Some (tier as)"
proof -
  let ?p = "\<lambda>a. authPriority (Some a)"
  have keys: "set (map fst m) = ?p ` set as" by (rule bucketed_keys [OF assms(1)])
  have "map fst m \<noteq> []" using keys assms(2) by auto
  then have best: "bestBucket (map fst m) = Max (?p ` set as)" using bestBucket_Max keys by simp
  have "Max (?p ` set as) \<in> ?p ` set as" using assms(2) by (intro Max_in) auto
  then obtain a where a: "a \<in> set as" "?p a = Max (?p ` set as)" by auto
  then have t: "tier as = filter (\<lambda>b. ?p b = Max (?p ` set as)) as"
    using tier_by_priority [of a as] by simp
  then have "map_of m (Max (?p ` set as)) = Some (tier as)"
    using assms(1) a by (auto simp: bucketed_def Let_def filter_empty_conv)
  with best show ?thesis by simp
qed

lemma fold_highest:
  "as \<noteq> [] \<Longrightarrow> fold highestStep as (0, 0) =
     (Max ((\<lambda>a. authPriority (Some a)) ` set as), length (tier as))"
proof (induction as rule: rev_induct)
  case (snoc x as)
  let ?p = "\<lambda>a. authPriority (Some a)"
  show ?case
  proof (cases "as = []")
    case True
    then show ?thesis by (simp add: highestStep_def tier_def)
  next
    case False
    let ?M = "Max (?p ` set as)"
    have M: "Max (?p ` set (as @ [x])) = max ?M (?p x)"
      using False by (simp add: max.commute)
    have "?M \<in> ?p ` set as" using False by (intro Max_in) auto
    then obtain a where a: "a \<in> set as" "?p a = ?M" by auto
    have up: "\<forall>b \<in> set as. ?p b \<le> ?M" by simp
    have t: "tier as = filter (\<lambda>b. ?p b = ?M) as"
      using tier_by_priority [of a as] a by simp
    then have ne: "length (tier as) \<noteq> 0" using a tier_nonempty [OF False] by simp
    consider (gt) "?p x > ?M" | (eq) "?p x = ?M" | (lt) "?p x < ?M" by linarith
    then show ?thesis
    proof cases
      case gt
      then have lt: "\<forall>b \<in> set as. ?p b < ?p x" using order_le_less_trans [OF bspec [OF up] gt] by blast
      then have "filter (\<lambda>b. ?p b = ?p x) as = []" by (auto simp: filter_empty_conv)
      moreover have "\<forall>b \<in> set (as @ [x]). ?p b \<le> ?p x" using lt by (auto intro: less_imp_le)
      ultimately have "tier (as @ [x]) = [x]" using tier_by_priority [of x "as @ [x]"] by simp
      with gt M snoc.IH [OF False] show ?thesis by (simp add: highestStep_def Let_def)
    next
      case eq
      then have "tier (as @ [x]) = tier as @ [x]"
        using tier_by_priority [of x "as @ [x]"] up t by simp
      with eq M ne snoc.IH [OF False] show ?thesis by (simp add: highestStep_def Let_def)
    next
      case lt
      then have "tier (as @ [x]) = tier as"
        using tier_by_priority [of a "as @ [x]"] a up t by simp
      with lt M ne snoc.IH [OF False] show ?thesis by (simp add: highestStep_def Let_def)
    qed
  qed
qed simp

lemma highestPriorityAuths_tier: "highestPriorityAuths as = tier as"
proof (cases "length as \<le> 1")
  case True
  then show ?thesis by (cases as) (auto simp: highestPriorityAuths_def tier_def)
next
  case False
  then have ne: "as \<noteq> []" by auto
  let ?p = "\<lambda>a. authPriority (Some a)"
  have "Max (?p ` set as) \<in> ?p ` set as" using ne by (intro Max_in) auto
  then obtain a where a: "a \<in> set as" "?p a = Max (?p ` set as)" by auto
  then have t: "tier as = filter (\<lambda>b. ?p b = Max (?p ` set as)) as"
    using tier_by_priority [of a as] by simp
  have "highestPriorityAuths as = (if length (tier as) = length as then as else tier as)"
    using False t fold_highest [OF ne] by (simp add: highestPriorityAuths_def)
  moreover have "length (tier as) = length as \<Longrightarrow> tier as = as"
    unfolding tier_def by (rule filter_full)
  ultimately show ?thesis by (cases "length (tier as) = length as") simp_all
qed

lemma sortByID_props: "mset (sortByID as) = mset as" "sorted (map ID (sortByID as))"
proof -
  show "mset (sortByID as) = mset as" by (simp add: sortByID_def)
  show "sorted (map ID (sortByID as))"
  proof (cases "length as > 1")
    case False
    then show ?thesis by (cases as) (auto simp: sortByID_def)
  qed (simp add: sortByID_def)
qed

text \<open>What every selector starts from: the free candidates of the highest priority.\<close>

lemma available_spec:
  shows "(\<exists>e. getSelectorAvailableAuths ctx auths provider model now = Inl e)
      \<longleftrightarrow> filter (free ctx model now) auths = []"
    and "getSelectorAvailableAuths ctx auths provider model now = Inr L \<Longrightarrow>
      mset L = mset (tier (filter (free ctx model now) auths)) \<and> (\<not> prevalidated ctx \<longrightarrow> sorted (map ID L))
      \<and> (prevalidated ctx \<longrightarrow> L = tier (filter (free ctx model now) auths))"
proof -
  let ?F = "filter (free ctx model now) auths"
  have "(\<exists>e. getSelectorAvailableAuths ctx auths provider model now = Inl e) = (?F = [])
    \<and> (\<forall>L. getSelectorAvailableAuths ctx auths provider model now = Inr L \<longrightarrow>
      mset L = mset (tier ?F) \<and> (\<not> prevalidated ctx \<longrightarrow> sorted (map ID L)) \<and> (prevalidated ctx \<longrightarrow> L = tier ?F))"
  proof (cases "prevalidated ctx \<and> auths \<noteq> []")
    case True
    then have "?F = auths" by (simp add: free_def)
    with True show ?thesis
      by (simp add: getSelectorAvailableAuths_def getSelectorAvailableAuthsWithPriorityMode_def
          highestPriorityAuths_tier)
  next
    case not_pre: False
    show ?thesis
    proof (cases "auths = []")
      case True
      then show ?thesis
        by (simp add: getSelectorAvailableAuths_def getSelectorAvailableAuthsWithPriorityMode_def
            getAvailableAuthsWithPriorityModeForRequest_def)
    next
      case False
      with not_pre have np: "\<not> prevalidated ctx" by simp
      obtain m c e where col: "collectAvailableByPriorityForRequest (expForRequest ctx) auths model now = (m, c, e)"
        using prod_cases3 by blast
      have "?F = filter (\<lambda>a. \<not> blocked (isAuthBlockedForModelForRequest (expForRequest ctx) (Some a) model now)) auths"
        using np by (intro filter_cong refl) (simp add: free_def)
      then have b: "byPriority ?F m"
        using fold_collect [OF bucketed_Nil, of "expForRequest ctx" model now auths 0 0 m c e] col
        by (simp add: collectAvailableByPriorityForRequest_def)
      have g: "getSelectorAvailableAuths ctx auths provider model now =
          getAvailableAuthsWithPriorityModeForRequest (expForRequest ctx) auths provider model now False"
        using np by (simp add: getSelectorAvailableAuths_def getSelectorAvailableAuthsWithPriorityMode_def)
      show ?thesis
      proof (cases "?F = []")
        case True
        with bucketed_empty [OF b] have "m = []" by simp
        with True False col g show ?thesis
          by (auto simp: getAvailableAuthsWithPriorityModeForRequest_def Let_def)
      next
        case F: False
        with bucketed_empty [OF b] have "m \<noteq> []" by simp
        with False col g F bucketed_best [OF b F] np sortByID_props [of "tier ?F"] show ?thesis
          by (simp add: getAvailableAuthsWithPriorityModeForRequest_def availableAuthsFromPriorityBuckets_def)
      qed
    qed
  qed
  then show "(\<exists>e. getSelectorAvailableAuths ctx auths provider model now = Inl e) \<longleftrightarrow> ?F = []"
    and "getSelectorAvailableAuths ctx auths provider model now = Inr L \<Longrightarrow>
      mset L = mset (tier ?F) \<and> (\<not> prevalidated ctx \<longrightarrow> sorted (map ID L)) \<and> (prevalidated ctx \<longrightarrow> L = tier ?F)"
    by blast+
qed

section \<open>The contract of a selector\<close>

type_synonym 's picker =
  "pickCtx \<Rightarrow> string \<Rightarrow> string \<Rightarrow> gotime \<Rightarrow> Auth list \<Rightarrow> 's \<Rightarrow> 's \<times> (auth_error + Auth)"

text \<open>
  The manager's failover: pick, exclude the pick by its identifier, pick again, until the selector
  reports an error.  \<open>n\<close> bounds the number of rounds.
\<close>

fun retryPicks :: "'s picker \<Rightarrow> nat \<Rightarrow> pickCtx \<Rightarrow> string \<Rightarrow> string \<Rightarrow> gotime \<Rightarrow> Auth list \<Rightarrow> 's \<Rightarrow> Auth list" where
  "retryPicks pick 0 ctx provider model now auths s = []"
| "retryPicks pick (Suc n) ctx provider model now auths s =
     (case pick ctx provider model now auths s of
        (s, Inl _) \<Rightarrow> []
      | (s, Inr a) \<Rightarrow> a # retryPicks pick n ctx provider model now (filter (\<lambda>b. ID b \<noteq> ID a) auths) s)"

text \<open>
  \<open>elig\<close> is what a selector additionally demands of a candidate.
\<close>

locale selector_contract =
  fixes pick :: "'s picker"
    and elig :: "Auth \<Rightarrow> bool"
  assumes pick_sound: "snd (pick ctx provider model now auths s) = Inr a \<Longrightarrow>
      a \<in> set (tier (filter (free ctx model now) (filter elig auths)))"
    and pick_complete: "filter (free ctx model now) (filter elig auths) \<noteq> [] \<Longrightarrow>
      \<exists>a. snd (pick ctx provider model now auths s) = Inr a"
begin

lemma pick_none: "filter (free ctx model now) (filter elig auths) = [] \<Longrightarrow>
    \<exists>e. snd (pick ctx provider model now auths s) = Inl e"
  using pick_sound [of ctx provider model now auths s]
  by (cases "snd (pick ctx provider model now auths s)") (auto simp: tier_def)

lemma retry_visits:
  assumes "distinct (map ID auths)" and "length auths \<le> n"
  shows "mset (retryPicks pick n ctx provider model now auths s) = mset (filter (free ctx model now) (filter elig auths))
    \<and> sorted_wrt (\<ge>) (map (\<lambda>a. authPriority (Some a)) (retryPicks pick n ctx provider model now auths s))"
  using assms
proof (induction n arbitrary: auths s)
  case 0
  then show ?case by simp
next
  case (Suc n)
  let ?F = "\<lambda>as. filter (free ctx model now) (filter elig as)"
  obtain s' r where p: "pick ctx provider model now auths s = (s', r)" by (cases "pick ctx provider model now auths s")
  show ?case
  proof (cases "?F auths = []")
    case True
    with pick_none [of ctx model now auths provider s] p show ?thesis by auto
  next
    case False
    with pick_complete [of ctx model now auths provider s] p obtain a where r: "r = Inr a" by auto
    have a: "a \<in> set (tier (?F auths))" using pick_sound [of ctx provider model now auths s a] p r by simp
    then have aF: "a \<in> set (?F auths)" using tier_subset by blast
    let ?rest = "filter (\<lambda>b. ID b \<noteq> ID a) auths"
    have rest: "?rest = remove1 a auths"
      using Suc.prems(1) aF
    proof (induction auths)
      case (Cons x xs)
      show ?case
      proof (cases "x = a")
        case True
        with Cons.prems have "ID a \<notin> ID ` set xs" by auto
        then have "\<forall>b \<in> set xs. ID b \<noteq> ID a" by (metis rev_image_eqI)
        then have "filter (\<lambda>b. ID b \<noteq> ID a) xs = xs" by (simp add: filter_id_conv)
        with True show ?thesis by simp
      next
        case False
        then have "a \<in> set (?F xs)" using Cons.prems by (auto split: if_splits)
        moreover from this have "ID x \<noteq> ID a" using Cons.prems by force
        ultimately show ?thesis using Cons False by simp
      qed
    qed simp
    have "mset (retryPicks pick n ctx provider model now ?rest s') = mset (?F ?rest)
      \<and> sorted_wrt (\<ge>) (map (\<lambda>a. authPriority (Some a)) (retryPicks pick n ctx provider model now ?rest s'))"
    proof (rule Suc.IH)
      show "distinct (map ID ?rest)" using Suc.prems(1) by (rule distinct_map_filter)
      have "a \<in> set auths" using aF by simp
      then show "length ?rest \<le> n" using Suc.prems(2) rest by (simp add: length_remove1)
    qed
    then have IH: "mset (retryPicks pick n ctx provider model now ?rest s') = mset (?F ?rest)"
      "sorted_wrt (\<ge>) (map (\<lambda>a. authPriority (Some a)) (retryPicks pick n ctx provider model now ?rest s'))"
      by blast+
    have eq: "?F ?rest = remove1 a (?F auths)"
      unfolding rest using aF by (simp add: filter_remove1)
    have step: "mset (?F auths) = add_mset a (mset (?F ?rest))"
      unfolding eq using aF by (metis insert_DiffM mset_remove1 set_mset_mset)
    have le: "\<forall>b \<in> set (retryPicks pick n ctx provider model now ?rest s'). authPriority (Some b) \<le> authPriority (Some a)"
    proof
      fix b assume "b \<in> set (retryPicks pick n ctx provider model now ?rest s')"
      then have "b \<in> set (?F ?rest)" using IH(1) by (metis set_mset_mset)
      then have "b \<in> set (?F auths)" by auto
      then show "authPriority (Some b) \<le> authPriority (Some a)" using tier_max [OF a] by blast
    qed
    have go: "retryPicks pick (Suc n) ctx provider model now auths s =
        a # retryPicks pick n ctx provider model now ?rest s'"
      using p r by simp
    show ?thesis unfolding go step using IH le by (simp only: mset.simps list.map sorted_wrt.simps set_map) auto
  qed
qed

end

lemma prefer_subset: "set (preferCodexWebsocketAuths ctx provider L) \<subseteq> set L"
  by (auto simp: preferCodexWebsocketAuths_def Let_def)

lemma prefer_nonempty: "L \<noteq> [] \<Longrightarrow> preferCodexWebsocketAuths ctx provider L \<noteq> []"
  by (auto simp: preferCodexWebsocketAuths_def Let_def)

lemma prefer_sorted:
  "sorted (map ID L) \<Longrightarrow> sorted (map ID (preferCodexWebsocketAuths ctx provider L))"
  by (auto simp: preferCodexWebsocketAuths_def Let_def sorted_filter)

text \<open>The narrowed list a selector chooses from.\<close>

lemma available_cases:
  fixes ctx model now auths provider
  defines "F \<equiv> filter (free ctx model now) auths"
  obtains (none) e where "F = []" "getSelectorAvailableAuths ctx auths provider model now = Inl e"
    | (some) L where "F \<noteq> []" "getSelectorAvailableAuths ctx auths provider model now = Inr L" "L \<noteq> []"
        "set L = set (tier F)" "preferCodexWebsocketAuths ctx provider L \<noteq> []"
        "set (preferCodexWebsocketAuths ctx provider L) \<subseteq> set (tier F)"
proof (cases "getSelectorAvailableAuths ctx auths provider model now")
  case (Inl e)
  then show ?thesis using none available_spec(1) [of ctx auths provider model now] by (simp add: F_def)
next
  case (Inr L)
  have F: "F \<noteq> []" using Inr available_spec(1) [of ctx auths provider model now] by (auto simp: F_def)
  have m: "mset L = mset (tier F)" using available_spec(2) [OF Inr] by (simp add: F_def)
  then have L: "set L = set (tier F)" by (metis set_mset_mset)
  moreover have "L \<noteq> []" using m tier_nonempty [OF F] by auto
  ultimately show ?thesis
    using some [OF F Inr] prefer_nonempty [of L ctx provider] prefer_subset [of ctx provider L] by simp
qed

interpretation rr: selector_contract RoundRobin_Pick "\<lambda>_. True"
proof
  fix ctx provider model now auths s a
  let ?F = "filter (free ctx model now) (filter (\<lambda>_. True) auths)"
  show "a \<in> set (tier ?F)" if r: "snd (RoundRobin_Pick ctx provider model now auths s) = Inr a"
  proof (rule available_cases [of ctx model now auths provider])
    fix L assume L: "getSelectorAvailableAuths ctx auths provider model now = Inr L"
      "preferCodexWebsocketAuths ctx provider L \<noteq> []"
      "set (preferCodexWebsocketAuths ctx provider L) \<subseteq> set (tier (filter (free ctx model now) auths))"
    from r L(1) obtain i where "a = preferCodexWebsocketAuths ctx provider L ! i"
      "i < length (preferCodexWebsocketAuths ctx provider L)"
      using succIndex_less [OF L(2)] by (auto simp: RoundRobin_Pick_def Let_def successorIndex_def)
    with L(3) show ?thesis by (auto dest: nth_mem)
  qed (use r in \<open>simp add: RoundRobin_Pick_def\<close>)
  show "?F \<noteq> [] \<Longrightarrow> \<exists>a. snd (RoundRobin_Pick ctx provider model now auths s) = Inr a"
    by (rule available_cases [of ctx model now auths provider]) (auto simp: RoundRobin_Pick_def Let_def)
qed

interpretation ff: selector_contract FillFirst_Pick "\<lambda>_. True"
proof
  fix ctx provider model now auths s a
  let ?F = "filter (free ctx model now) (filter (\<lambda>_. True) auths)"
  show "a \<in> set (tier ?F)" if r: "snd (FillFirst_Pick ctx provider model now auths s) = Inr a"
  proof (rule available_cases [of ctx model now auths provider])
    fix L assume L: "getSelectorAvailableAuths ctx auths provider model now = Inr L"
      "preferCodexWebsocketAuths ctx provider L \<noteq> []"
      "set (preferCodexWebsocketAuths ctx provider L) \<subseteq> set (tier (filter (free ctx model now) auths))"
    have "preferCodexWebsocketAuths ctx provider L ! 0 \<in> set (preferCodexWebsocketAuths ctx provider L)"
      using L(2) by simp
    with r L(1,3) show ?thesis by (auto simp: FillFirst_Pick_def)
  qed (use r in \<open>simp add: FillFirst_Pick_def\<close>)
  show "?F \<noteq> [] \<Longrightarrow> \<exists>a. snd (FillFirst_Pick ctx provider model now auths s) = Inr a"
    by (rule available_cases [of ctx model now auths provider]) (auto simp: FillFirst_Pick_def)
qed

lemma weightedPickFrom_picked:
  "(snd (weightedPickFrom key L s) = None \<longleftrightarrow> filter (\<lambda>a. 0 < authWeight (Some a)) L = [])
   \<and> (\<forall>a. snd (weightedPickFrom key L s) = Some a \<longrightarrow> a \<in> set L)"
proof -
  obtain c where c: "snd (weightedPickFrom key L s) = fst (pickSmoothWeightedAuth L c)"
    by (simp add: weightedPickFrom_def Let_def split_beta)
  then show ?thesis
    using swPick_picked [of ID "\<lambda>a. authWeight (Some a)" "\<lambda>_. True" L c]
    by (auto simp: pickSmoothWeightedAuth_def eligible_def)
qed

interpretation wr: selector_contract WeightedRoundRobin_Pick "\<lambda>a. authWeight (Some a) > 0"
proof
  fix ctx provider model now auths s a
  let ?pos = "filter (\<lambda>a. authWeight (Some a) > 0) auths"
  let ?key = "rotationKey provider (weightedSelectorStateModel ctx model)"
  have pos: "positiveWeightAuths auths = ?pos" by (simp add: positiveWeightAuths_def)
  show "a \<in> set (tier (filter (free ctx model now) ?pos))"
    if r: "snd (WeightedRoundRobin_Pick ctx provider model now auths s) = Inr a"
  proof (rule available_cases [of ctx model now ?pos provider])
    fix L assume L: "getSelectorAvailableAuths ctx ?pos provider model now = Inr L"
      "set (preferCodexWebsocketAuths ctx provider L) \<subseteq> set (tier (filter (free ctx model now) ?pos))"
    from r L(1) have "snd (weightedPickFrom ?key (preferCodexWebsocketAuths ctx provider L) s) = Some a"
      by (auto simp: WeightedRoundRobin_Pick_def pos split: prod.splits option.splits)
    with weightedPickFrom_picked [of ?key "preferCodexWebsocketAuths ctx provider L" s] L(2)
    show ?thesis by blast
  qed (use r in \<open>simp add: WeightedRoundRobin_Pick_def pos\<close>)
  show "\<exists>a. snd (WeightedRoundRobin_Pick ctx provider model now auths s) = Inr a"
    if ne: "filter (free ctx model now) ?pos \<noteq> []"
  proof (rule available_cases [of ctx model now ?pos provider])
    fix L assume L: "getSelectorAvailableAuths ctx ?pos provider model now = Inr L"
      "preferCodexWebsocketAuths ctx provider L \<noteq> []"
      "set (preferCodexWebsocketAuths ctx provider L) \<subseteq> set (tier (filter (free ctx model now) ?pos))"
    then have "set (preferCodexWebsocketAuths ctx provider L) \<subseteq> set ?pos"
      using tier_subset [of "filter (free ctx model now) ?pos"] by auto
    then have "filter (\<lambda>a. 0 < authWeight (Some a)) (preferCodexWebsocketAuths ctx provider L) \<noteq> []"
      using L(2) by (cases "preferCodexWebsocketAuths ctx provider L") auto
    with weightedPickFrom_picked [of ?key "preferCodexWebsocketAuths ctx provider L" s]
    obtain a where "snd (weightedPickFrom ?key (preferCodexWebsocketAuths ctx provider L) s) = Some a" by blast
    with L(1) show ?thesis
      by (auto simp: WeightedRoundRobin_Pick_def pos split: prod.splits)
  qed (use ne in auto)
qed

section \<open>Properties\<close>

text \<open>
  The round robin selector returns a credential exactly when one of the candidates is
  free for the model, and the credential it returns is a free candidate of the highest priority
  among the free candidates.
\<close>

theorem round_robin_picks_best_free:
  "(case snd (RoundRobin_Pick ctx provider model now auths s) of
      Inl e \<Rightarrow> \<forall>b \<in> set auths. \<not> free ctx model now b
    | Inr a \<Rightarrow> a \<in> set auths \<and> free ctx model now a
        \<and> (\<forall>b \<in> set auths. free ctx model now b \<longrightarrow> authPriority (Some b) \<le> authPriority (Some a)))"
proof (cases "snd (RoundRobin_Pick ctx provider model now auths s)")
  case (Inl e)
  then show ?thesis
    using rr.pick_complete [of ctx model now auths provider s] by (auto simp: filter_empty_conv)
next
  case (Inr a)
  then show ?thesis
    using rr.pick_sound [of ctx provider model now auths s a] by (auto simp: tier_def)
qed

definition wCtx :: pickCtx where
  "wCtx = \<lparr>downstreamWebsocket = False, prevalidated = False, stateModel = None, expForRequest = \<lambda>_. None\<rparr>"

definition wPool :: "Auth list" where
  "wPool = [emptyAuth\<lparr>ID := ''c'', Status := StatusActive\<rparr>,
            emptyAuth\<lparr>ID := ''a'', Status := StatusActive\<rparr>,
            emptyAuth\<lparr>ID := ''b'', Status := StatusActive, Attributes := [(''priority'', ''-5'')]\<rparr>]"

theorem round_robin_picks_best_free_witness:
  "(case snd (RoundRobin_Pick wCtx ''p'' ''m'' 10 wPool \<lparr>lastPicked = [], rrMaxKeys = 0\<rparr>) of
      Inl e \<Rightarrow> \<forall>b \<in> set wPool. \<not> free wCtx ''m'' 10 b
    | Inr a \<Rightarrow> a \<in> set wPool \<and> free wCtx ''m'' 10 a
        \<and> (\<forall>b \<in> set wPool. free wCtx ''m'' 10 b \<longrightarrow> authPriority (Some b) \<le> authPriority (Some a)))"
  by (rule round_robin_picks_best_free)

text \<open>
  The weighted selector never returns a credential of weight zero; it returns one
  exactly when a free candidate with positive weight exists, again of the highest priority among those.
\<close>

theorem weighted_picks_best_positive:
  "(case snd (WeightedRoundRobin_Pick ctx provider model now auths s) of
      Inl e \<Rightarrow> \<forall>b \<in> set auths. \<not> (free ctx model now b \<and> 0 < authWeight (Some b))
    | Inr a \<Rightarrow> a \<in> set auths \<and> free ctx model now a \<and> 0 < authWeight (Some a)
        \<and> (\<forall>b \<in> set auths. free ctx model now b \<and> 0 < authWeight (Some b)
              \<longrightarrow> authPriority (Some b) \<le> authPriority (Some a)))"
proof (cases "snd (WeightedRoundRobin_Pick ctx provider model now auths s)")
  case (Inl e)
  then show ?thesis
    using wr.pick_complete [of ctx model now auths provider s] by (auto simp: filter_empty_conv)
next
  case (Inr a)
  then show ?thesis
    using wr.pick_sound [of ctx provider model now auths s a] by (auto simp: tier_def)
qed

theorem weighted_picks_best_positive_witness:
  "(case snd (WeightedRoundRobin_Pick wCtx ''p'' ''m'' 10 wWeighted \<lparr>wstates = [], wMaxKeys = 0\<rparr>) of
      Inl e \<Rightarrow> \<forall>b \<in> set wWeighted. \<not> (free wCtx ''m'' 10 b \<and> 0 < authWeight (Some b))
    | Inr a \<Rightarrow> a \<in> set wWeighted \<and> free wCtx ''m'' 10 a \<and> 0 < authWeight (Some a)
        \<and> (\<forall>b \<in> set wWeighted. free wCtx ''m'' 10 b \<and> 0 < authWeight (Some b)
              \<longrightarrow> authPriority (Some b) \<le> authPriority (Some a)))"
  by (rule weighted_picks_best_positive)

text \<open>
  Claim C21. Failover is exhaustive and ordered, for each of the three selectors: picking again and
  again while excluding what was tried visits every free candidate (for the weighted selector:
  every free candidate of positive weight) exactly once, in order of falling priority, before the
  selector gives up.
\<close>

theorem failover_visits_all_free:
  assumes "distinct (map ID auths)" and "length auths \<le> n"
  shows "let Fr = filter (free ctx model now) auths;
             falling = sorted_wrt (\<ge>) \<circ> map (\<lambda>a. authPriority (Some a));
             R = retryPicks RoundRobin_Pick n ctx provider model now auths s1;
             Fi = retryPicks FillFirst_Pick n ctx provider model now auths s2;
             W = retryPicks WeightedRoundRobin_Pick n ctx provider model now auths s3
         in mset R = mset Fr \<and> falling R \<and> mset Fi = mset Fr \<and> falling Fi
            \<and> mset W = mset (filter (free ctx model now) (filter (\<lambda>a. 0 < authWeight (Some a)) auths)) \<and> falling W"
  using rr.retry_visits [OF assms, of ctx provider model now s1]
    ff.retry_visits [OF assms, of ctx provider model now s2]
    wr.retry_visits [OF assms, of ctx provider model now s3]
  by (simp add: Let_def conj_commute)

theorem failover_visits_all_free_witness:
  "let R = retryPicks RoundRobin_Pick 3 wCtx ''p'' ''m'' 10 wPool \<lparr>lastPicked = [], rrMaxKeys = 0\<rparr>
   in mset R = mset (filter (free wCtx ''m'' 10) wPool) \<and> map ID R = [''a'', ''c'', ''b'']"
proof -
  have "map ID (retryPicks RoundRobin_Pick 3 wCtx ''p'' ''m'' 10 wPool \<lparr>lastPicked = [], rrMaxKeys = 0\<rparr>)
      = [''a'', ''c'', ''b'']"
    by code_simp
  then show ?thesis
    using failover_visits_all_free [of wPool 3 wCtx "''m''" 10 "''p''" "\<lparr>lastPicked = [], rrMaxKeys = 0\<rparr>"
        "()" "\<lparr>wstates = [], wMaxKeys = 0\<rparr>"]
    by (simp add: Let_def wPool_def)
qed

section \<open>Rotation of the round robin selector\<close>

interpretation sel_rot: rotation ID "\<lambda>L. sorted_wrt (<) (map ID L)" "\<lambda>L. L"
  "\<lambda>L lastID. if L = [] then None else Some (L ! successorIndex L lastID)"
  by unfold_locales
    (auto simp: successorIndex_def succIndex_rot_next [symmetric] succIndex_less)

text \<open>The identifiers picked by consecutive calls for the same provider and model.\<close>

fun rrRun ::
  "pickCtx \<Rightarrow> string \<Rightarrow> string \<Rightarrow> (gotime \<times> Auth list) list \<Rightarrow> RoundRobinSelector \<Rightarrow> string list" where
  "rrRun ctx provider model [] s = []"
| "rrRun ctx provider model ((now, auths) # calls) s =
     (case RoundRobin_Pick ctx provider model now auths s of
        (s, Inl _) \<Rightarrow> rrRun ctx provider model calls s
      | (s, Inr a) \<Rightarrow> ID a # rrRun ctx provider model calls s)"

definition narrowed :: "pickCtx \<Rightarrow> string \<Rightarrow> string \<Rightarrow> gotime \<times> Auth list \<Rightarrow> Auth list" where
  "narrowed ctx provider model call =
     (case getSelectorAvailableAuths ctx (snd call) provider model (fst call) of
        Inl _ \<Rightarrow> [] | Inr L \<Rightarrow> preferCodexWebsocketAuths ctx provider L)"

text \<open>Making room for a key never changes what is remembered for that key.\<close>

lemma ensureRotationKey_get:
  "str_get (lastPicked (ensureRotationKey key limit s)) key = str_get (lastPicked s) key"
  by (auto simp: ensureRotationKey_def str_get_def)

lemma str_get_update: "str_get (AList.update k v m) j = (if j = k then v else str_get m j)"
  by (simp add: str_get_def gomap_simps)

lemma narrowed_nonempty:
  "getSelectorAvailableAuths ctx auths provider model now = Inr L \<Longrightarrow> preferCodexWebsocketAuths ctx provider L \<noteq> []"
  by (rule available_cases [of ctx model now auths provider]) auto

lemma rrRun_picks:
  "rrRun ctx provider model calls s =
     sel_rot.picks (map (narrowed ctx provider model) calls)
       (str_get (lastPicked s) (rotationKey provider model))"
proof (induction calls arbitrary: s)
  case (Cons call calls)
  obtain now auths where c: "call = (now, auths)" by (cases call)
  let ?key = "rotationKey provider model"
  show ?case
  proof (cases "getSelectorAvailableAuths ctx auths provider model now")
    case (Inl e)
    with c Cons.IH [of s] show ?thesis by (simp add: RoundRobin_Pick_def narrowed_def)
  next
    case (Inr L)
    let ?L = "preferCodexWebsocketAuths ctx provider L"
    let ?p = "?L ! successorIndex ?L (str_get (lastPicked s) ?key)"
    obtain s' where pick: "RoundRobin_Pick ctx provider model now auths s = (s', Inr ?p)"
      and s': "str_get (lastPicked s') ?key = ID ?p"
      using Inr by (simp add: RoundRobin_Pick_def Let_def ensureRotationKey_get str_get_update)
    with c Inr narrowed_nonempty [OF Inr] Cons.IH [of s'] show ?thesis
      by (simp add: narrowed_def)
  qed
qed simp



end
