(* ===== verification/ErrorClass.thy ===== *)
theory ErrorClass
  imports AuthTypes
begin

text \<open>
  Classification of a recorded failure (\<open>conductor_cooldown.go\<close> and \<open>errors.go\<close> under
  \<open>src/sdk/cliproxy/auth\<close>, \<open>src/internal/clienterror/client_error.go\<close>): which failures are the
  request's own fault, which are a lost connection, and which condemn a model or a credential.

  A result carries its failure as an \<open>*Error\<close>.  That type has a code, a message and a status and
  no \<open>Unwrap\<close>, \<open>ResponseBody\<close> or typed markers besides \<open>IsRequestScoped\<close>, so the type switches
  of the sources take the branches written out here; a body is the error's own text.

  Bodies are read with a JSON library.  It is the parameter \<open>errorEnv\<close>: validity, look-up by path
  and the text of a result for the third-party reader, and the decoder into values for the nested
  walk.  Every result of the development holds for all such functions.
\<close>

section \<open>Parameters\<close>

datatype jsonValue =
    JNull
  | JBool bool
  | JNumber
  | JString string
  | JArray "jsonValue list"
  | JObject "(string \<times> jsonValue) list"

record 'r errorEnv =
  ojValid :: "string \<Rightarrow> bool"
  ojGet :: "string \<Rightarrow> string \<Rightarrow> 'r"
  ojSub :: "'r \<Rightarrow> string \<Rightarrow> 'r"
  ojExists :: "'r \<Rightarrow> bool"
  ojString :: "'r \<Rightarrow> string"
  ojIsJSON :: "'r \<Rightarrow> bool"
  jsonUnmarshal :: "string \<Rightarrow> jsonValue option"

section \<open>Text helpers\<close>

text \<open>\<open>strings.Trim\<close> with a set of bytes, \<open>strings.TrimPrefix\<close>, and a replacer of single bytes.\<close>

definition TrimSet :: "char list \<Rightarrow> string \<Rightarrow> string" where
  "TrimSet cutset s =
     rev (dropWhile (\<lambda>c. c \<in> set cutset) (rev (dropWhile (\<lambda>c. c \<in> set cutset) s)))"

definition TrimPrefix :: "string \<Rightarrow> string \<Rightarrow> string" where
  "TrimPrefix s p = (if HasPrefix s p then drop (length p) s else s)"

definition replaceBytes :: "char list \<Rightarrow> string \<Rightarrow> string" where
  "replaceBytes olds s = map (\<lambda>c. if c \<in> set olds then CHR ''_'' else c) s"

definition containsAny :: "string \<Rightarrow> string list \<Rightarrow> bool" where
  "containsAny s ps = list_ex (Contains s) ps"

definition punctuation :: "char list" where
  "punctuation = '' .!;'' @ [CHR 0x09, CHR 0x0D, CHR 0x0A]"

section \<open>The error value\<close>

definition ErrorCodeRequestScoped :: string where "ErrorCodeRequestScoped = ''request_scoped''"
definition ErrorCodeConnectionLifecycle :: string where
  "ErrorCodeConnectionLifecycle = ''connection_lifecycle''"
definition ErrorCodeTransientTransport :: string where
  "ErrorCodeTransientTransport = ''transient_transport''"
definition ErrorCodeForceCooldown :: string where "ErrorCodeForceCooldown = ''force_cooldown''"
definition ErrorCodeStreamTruncated :: string where "ErrorCodeStreamTruncated = ''stream_truncated''"
definition ErrorCodeTransientRateLimit :: string where
  "ErrorCodeTransientRateLimit = ''transient_rate_limit''"

lemmas error_code_defs = ErrorCodeRequestScoped_def ErrorCodeConnectionLifecycle_def
  ErrorCodeTransientTransport_def ErrorCodeForceCooldown_def ErrorCodeStreamTruncated_def
  ErrorCodeTransientRateLimit_def

definition errorText :: "Error \<Rightarrow> string" where
  "errorText e = (if Code e = [] then Message e else Code e @ '': '' @ Message e)"

definition cloneError :: "Error option \<Rightarrow> Error option" where
  "cloneError err =
     (case err of
        None \<Rightarrow> None
      | Some e \<Rightarrow> Some \<lparr>Code = Code e, Message = Message e, Retryable = Retryable e, HTTPStatus = HTTPStatus e\<rparr>)"

lemma cloneError_id [simp]: "cloneError err = err"
  by (cases err) (auto simp: cloneError_def)

definition statusCodeFromResult :: "Error option \<Rightarrow> int" where
  "statusCodeFromResult err = (case err of None \<Rightarrow> 0 | Some e \<Rightarrow> HTTPStatus e)"

section \<open>Lost connections\<close>

definition isHTTP2ClosedConnectionMessage :: "string \<Rightarrow> bool" where
  "isHTTP2ClosedConnectionMessage lower \<longleftrightarrow>
     Contains lower ''http2: client connection force closed via clientconn.close''
     \<or> Contains lower ''http2: client conn is closed''"

definition isConnectionLifecycleMessage :: "string \<Rightarrow> bool" where
  "isConnectionLifecycleMessage message =
     (let lower = ToLower (TrimSpace message)
      in if lower = [] then False
         else if lower \<in> {''context canceled'', ''context deadline exceeded'', ''eof'', ''unexpected eof''} then True
         else if Contains lower ''websocket: close 1000'' \<or> Contains lower ''websocket: close 1001''
              \<or> Contains lower ''websocket: close 1006'' then True
         else Contains lower ''unexpected eof'' \<or> isHTTP2ClosedConnectionMessage lower)"

definition isConnectionLifecycleResultError :: "Error option \<Rightarrow> bool" where
  "isConnectionLifecycleResultError err =
     (case err of
        None \<Rightarrow> False
      | Some e \<Rightarrow>
          if Code e = ErrorCodeConnectionLifecycle then True
          else if Code e = ErrorCodeTransientTransport then False
          else if statusCodeFromResult err \<noteq> 0 then False
          else isConnectionLifecycleMessage (Message e))"

definition isTransientTransportMessage :: "string \<Rightarrow> bool" where
  "isTransientTransportMessage message =
     (let lower = ToLower (TrimSpace message)
      in if lower = [] then False
         else containsAny lower
                [''tls: tls handshake'', ''tls handshake timeout'', ''wsarecv'', ''wsasend'',
                 ''a connection attempt failed'', ''connection refused'', ''connection reset'',
                 ''i/o timeout'', ''no such host'', ''server misbehaving'', ''network is unreachable'',
                 ''no route to host'', ''broken pipe'', ''connection aborted'',
                 ''use of closed network connection'', ''unexpected eof'']
              \<or> isHTTP2ClosedConnectionMessage lower)"

definition isTransientTransportResultError :: "Error option \<Rightarrow> bool" where
  "isTransientTransportResultError err =
     (case err of
        None \<Rightarrow> False
      | Some e \<Rightarrow>
          if Code e = ErrorCodeTransientTransport then True
          else if statusCodeFromResult err \<noteq> 0 then False
          else if Contains (ToLower (Message e)) ''tls handshake timeout'' then False
          else isTransientTransportMessage (Message e))"

definition isStreamTruncatedResultError :: "Error option \<Rightarrow> bool" where
  "isStreamTruncatedResultError err = (case err of None \<Rightarrow> False | Some e \<Rightarrow> Code e = ErrorCodeStreamTruncated)"

definition isTransientRateLimitResultError :: "Error option \<Rightarrow> bool" where
  "isTransientRateLimitResultError err =
     (case err of None \<Rightarrow> False | Some e \<Rightarrow> Code e = ErrorCodeTransientRateLimit)"

section \<open>Model failures\<close>

text \<open>\<open>isModelNotFoundIdentifier\<close> accepts a bare identifier, a URL fragment or a last path segment.\<close>

definition takeUntil :: "char \<Rightarrow> string \<Rightarrow> string" where
  "takeUntil c s = takeWhile (\<lambda>d. d \<noteq> c) s"

definition lastSegment :: "char list \<Rightarrow> string \<Rightarrow> string" where
  "lastSegment seps s = rev (takeWhile (\<lambda>d. d \<notin> set seps) (rev s))"

definition isModelNotFoundIdentifier :: "string \<Rightarrow> bool" where
  "isModelNotFoundIdentifier value =
     (let candidate = ToLower (TrimSpace value);
          candidate =
            (case LastIndex candidate (CHR ''#'') of
               Some fragment \<Rightarrow>
                 if fragment + 1 < length candidate then drop (fragment + 1) candidate
                 else lastSegment ''/:'' (rev (dropWhile (\<lambda>c. c = CHR ''/'') (rev (takeUntil (CHR ''?'') candidate))))
             | None \<Rightarrow> lastSegment ''/:'' (rev (dropWhile (\<lambda>c. c = CHR ''/'') (rev (takeUntil (CHR ''?'') candidate)))));
          normalized = replaceBytes ''- '' candidate
      in normalized \<in> {''model_not_found'', ''model_not_found_error'', ''unknown_model'',
                        ''model_does_not_exist'', ''model_not_exist''})"

definition isNotFoundErrorIdentifier :: "string \<Rightarrow> bool" where
  "isNotFoundErrorIdentifier value =
     (replaceBytes ''- '' (ToLower (TrimSpace value)) \<in> {''not_found'', ''not_found_error''})"

definition isMissingModelPhrase :: "string \<Rightarrow> bool" where
  "isMissingModelPhrase value =
     (TrimSet punctuation value \<in>
        {''not found'', ''was not found'', ''could not be found'', ''does not exist'',
         ''doesn'' @ [CHR 0x27] @ ''t exist'', ''not exist'', ''is unknown'',
         ''does not exist or you do not have access to it''})"

fun trimCandidates :: "string \<Rightarrow> string list \<Rightarrow> string option" where
  "trimCandidates value [] = None"
| "trimCandidates value (candidate # cs) =
     (if value = candidate then Some []
      else if \<not> HasPrefix value candidate then trimCandidates value cs
      else
        (let remainder = drop (length candidate) value
         in if remainder = [] \<or> hd remainder \<in> set '' :,''
            then Some (dropWhile (\<lambda>c. c \<in> set '' :,'') remainder)
            else trimCandidates value cs))"

text \<open>\<open>None\<close> stands for \<open>matches = false\<close>.\<close>

definition trimRequestedModelReference :: "string \<Rightarrow> string \<Rightarrow> string option" where
  "trimRequestedModelReference value requestedModel =
     (let model = ToLower (TrimSpace requestedModel)
      in if model = [] then None
         else trimCandidates value
           [model, [CHR 0x27] @ model @ [CHR 0x27], [CHR 0x22] @ model @ [CHR 0x22], [CHR 0x60] @ model @ [CHR 0x60]])"

definition leadsWith :: "string \<Rightarrow> string \<Rightarrow> bool" where
  "leadsWith lower prefix \<longleftrightarrow> lower = prefix \<or> HasPrefix lower (prefix @ '' '') \<or> HasPrefix lower (prefix @ '':'')"

definition afterPrefix :: "string \<Rightarrow> string \<Rightarrow> string" where
  "afterPrefix lower prefix =
     TrimSpace (TrimPrefix (TrimSpace (TrimPrefix lower prefix)) '':'')"

text \<open>A loop over prefixes that answers at the first prefix the text leads with.\<close>

definition firstLed :: "string \<Rightarrow> string list \<Rightarrow> (string \<Rightarrow> bool) \<Rightarrow> bool option" where
  "firstLed lower prefixes decide =
     map_option (\<lambda>p. decide (afterPrefix lower p)) (List.find (leadsWith lower) prefixes)"

definition isExplicitModelNotFoundMessage :: "string \<Rightarrow> string \<Rightarrow> bool" where
  "isExplicitModelNotFoundMessage message requestedModel =
     (let lower = TrimSet punctuation (ToLower (TrimSpace message));
          normalized = replaceBytes ''-'' lower
      in if lower = [] then False
         else if containsAny lower [''in request'', ''in body'', ''request body''] then False
         else if Contains normalized ''model_not_found'' \<or> Contains normalized ''unknown_model'' then True
         else
           (case firstLed lower [''no such model'', ''unknown model'']
                   (\<lambda>remainder. remainder = [] \<or> trimRequestedModelReference remainder requestedModel = Some []) of
              Some verdict \<Rightarrow> verdict
            | None \<Rightarrow>
                (case firstLed lower [''the requested model'', ''requested model'', ''the model'', ''model'']
                        (\<lambda>remainder. isMissingModelPhrase remainder
                           \<or> (case trimRequestedModelReference remainder requestedModel of
                                None \<Rightarrow> False | Some missingSuffix \<Rightarrow> isMissingModelPhrase missingSuffix)) of
                   Some verdict \<Rightarrow> verdict
                 | None \<Rightarrow> False)))"

definition isExactRequestedModelReference :: "string \<Rightarrow> string \<Rightarrow> bool" where
  "isExactRequestedModelReference message requestedModel =
     (let lower = TrimSet punctuation (ToLower (TrimSpace message))
      in firstLed lower [''the requested model'', ''requested model'', ''the model'', ''model'']
           (\<lambda>remainder. trimRequestedModelReference remainder requestedModel = Some []) = Some True)"

text \<open>
  The walk through a decoded body.  The loop over an object's members returns true as soon as one
  member says so and otherwise combines two flags, so its answer does not depend on the order.
\<close>

definition memberNamesMissing :: "string \<Rightarrow> string \<times> jsonValue \<Rightarrow> bool" where
  "memberNamesMissing requestedModel m =
     (case m of
        (key, JString text) \<Rightarrow>
          (let k = ToLower (TrimSpace key)
           in if k = ''code'' \<or> k = ''type'' then isModelNotFoundIdentifier text
              else if k \<in> {''error'', ''message'', ''detail'', ''error_description'', ''title''}
              then isExplicitModelNotFoundMessage text requestedModel
              else False)
      | _ \<Rightarrow> False)"

definition memberSaysNotFound :: "string \<times> jsonValue \<Rightarrow> bool" where
  "memberSaysNotFound m =
     (case m of
        (key, JString text) \<Rightarrow> ToLower (TrimSpace key) = ''type'' \<and> isNotFoundErrorIdentifier text
      | _ \<Rightarrow> False)"

definition memberNamesModel :: "string \<Rightarrow> string \<times> jsonValue \<Rightarrow> bool" where
  "memberNamesModel requestedModel m =
     (case m of
        (key, JString text) \<Rightarrow>
          ToLower (TrimSpace key) \<in> {''error'', ''message'', ''detail'', ''error_description'', ''title''}
          \<and> isExactRequestedModelReference text requestedModel
      | _ \<Rightarrow> False)"

fun containsStructuredModelNotFound :: "jsonValue \<Rightarrow> string \<Rightarrow> bool"
  and anyElement :: "jsonValue list \<Rightarrow> string \<Rightarrow> bool"
  and anyMember :: "(string \<times> jsonValue) list \<Rightarrow> string \<Rightarrow> bool" where
  "containsStructuredModelNotFound (JObject members) requestedModel =
     (anyMember members requestedModel
      \<or> (list_ex memberSaysNotFound members \<and> list_ex (memberNamesModel requestedModel) members))"
| "containsStructuredModelNotFound (JArray items) requestedModel = anyElement items requestedModel"
| "containsStructuredModelNotFound _ requestedModel = False"
| "anyElement [] requestedModel = False"
| "anyElement (item # items) requestedModel =
     ((case item of JString text \<Rightarrow> isExplicitModelNotFoundMessage text requestedModel | _ \<Rightarrow> False)
      \<or> containsStructuredModelNotFound item requestedModel \<or> anyElement items requestedModel)"
| "anyMember [] requestedModel = False"
| "anyMember ((key, item) # members) requestedModel =
     (memberNamesMissing requestedModel (key, item)
      \<or> containsStructuredModelNotFound item requestedModel \<or> anyMember members requestedModel)"

definition isStructuredModelNotFoundError :: "'r errorEnv \<Rightarrow> string \<Rightarrow> string \<Rightarrow> bool" where
  "isStructuredModelNotFoundError env message requestedModel =
     (case jsonUnmarshal env (TrimSpace message) of
        None \<Rightarrow> False
      | Some payload \<Rightarrow> containsStructuredModelNotFound payload requestedModel)"

definition errorCodeFromError :: "Error \<Rightarrow> string" where
  "errorCodeFromError e = TrimSpace (Code e)"

definition isExplicitModelNotFoundError :: "'r errorEnv \<Rightarrow> Error \<Rightarrow> string \<Rightarrow> bool" where
  "isExplicitModelNotFoundError env e requestedModel \<longleftrightarrow>
     isModelNotFoundIdentifier (errorCodeFromError e)
     \<or> isModelNotFoundIdentifier (Code e)
     \<or> isStructuredModelNotFoundError env (Message e) requestedModel
     \<or> isStructuredModelNotFoundError env (errorText e) requestedModel"

definition isModelSupportErrorMessage :: "string \<Rightarrow> bool" where
  "isModelSupportErrorMessage message =
     (let lower = ToLower (TrimSpace message)
      in if lower = [] then False
         else containsAny lower
           [''model_not_supported'', ''requested model is not supported'', ''requested model is unsupported'',
            ''requested model is unavailable'', ''model is not supported'', ''model not supported'',
            ''unsupported model'', ''model unavailable'', ''not available for your plan'',
            ''not available for your account''])"

text \<open>\<open>isModelSupportError\<close> reads the error's whole text, \<open>isModelSupportResultError\<close> its message.\<close>

definition isModelSupportError :: "'r errorEnv \<Rightarrow> Error \<Rightarrow> bool" where
  "isModelSupportError env e =
     (if isExplicitModelNotFoundError env e [] then True
      else if HTTPStatus e \<noteq> 400 \<and> HTTPStatus e \<noteq> 422 \<and> HTTPStatus e \<noteq> 404 then False
      else isModelSupportErrorMessage (errorText e))"

definition isModelSupportResultError :: "'r errorEnv \<Rightarrow> Error option \<Rightarrow> bool" where
  "isModelSupportResultError env err =
     (case err of
        None \<Rightarrow> False
      | Some e \<Rightarrow>
          if isExplicitModelNotFoundError env e [] then True
          else (let status = statusCodeFromResult err
                in if status \<noteq> 400 \<and> status \<noteq> 422 \<and> status \<noteq> 404 then False
                   else isModelSupportErrorMessage (Message e)))"

section \<open>Credential failures\<close>

definition isUnauthorizedError :: "Error option \<Rightarrow> bool" where
  "isUnauthorizedError err =
     (case err of
        None \<Rightarrow> False
      | Some e \<Rightarrow>
          HTTPStatus e = 401
          \<or> (let raw = ToLower (errorText e)
             in Contains raw ''status 401'' \<or> Contains raw ''401 unauthorized'' \<or> Contains raw ''(401)''))"

definition isInvalidGrantErrorMessage :: "string \<Rightarrow> bool" where
  "isInvalidGrantErrorMessage message = Contains (ToLower message) ''invalid_grant''"

definition isInvalidGrantError :: "Error \<Rightarrow> bool" where
  "isInvalidGrantError e \<longleftrightarrow>
     isInvalidGrantErrorMessage (errorText e)
     \<and> (HTTPStatus e = 400 \<or> HTTPStatus e = 401 \<or> HTTPStatus e = 0)"

definition isInvalidGrantResultError :: "Error option \<Rightarrow> bool" where
  "isInvalidGrantResultError err =
     (case err of
        None \<Rightarrow> False
      | Some e \<Rightarrow>
          if \<not> isInvalidGrantErrorMessage (Code e) \<and> \<not> isInvalidGrantErrorMessage (Message e) then False
          else (let status = statusCodeFromResult err in status = 400 \<or> status = 401 \<or> status = 0))"

definition isCloudflareChallengeErrorMessage :: "string \<Rightarrow> bool" where
  "isCloudflareChallengeErrorMessage message =
     (let lower = ToLower (TrimSpace message)
      in Contains lower ''challenge-platform'' \<or> Contains lower ''cf-mitigated''
         \<or> Contains lower ''cloudflare challenge''
         \<or> (Contains lower ''just a moment'' \<and> Contains lower ''cloudflare''))"

definition isCloudflareChallengeError :: "Error \<Rightarrow> bool" where
  "isCloudflareChallengeError e =
     (if HTTPStatus e \<ge> 500 then False else isCloudflareChallengeErrorMessage (errorText e))"

definition isCloudflareChallengeResultError :: "Error option \<Rightarrow> bool" where
  "isCloudflareChallengeResultError err =
     (case err of
        None \<Rightarrow> False
      | Some e \<Rightarrow>
          if statusCodeFromResult err \<ge> 500 then False
          else isCloudflareChallengeErrorMessage (Message e))"

definition hasCreditBalanceTooLowBody :: "'r errorEnv \<Rightarrow> string \<Rightarrow> bool" where
  "hasCreditBalanceTooLowBody env text =
     (let body = TrimSpace text
      in if body = [] \<or> \<not> ojValid env body then False
         else list_ex (\<lambda>path. HasPrefix (ToLower (TrimSpace (ojString env (ojGet env body path))))
                                ''your credit balance is too low'')
                [''error.message'', ''message'', ''response.error.message'', ''body.error.message''])"

definition IsCreditBalanceTooLow :: "'r errorEnv \<Rightarrow> int \<Rightarrow> string \<Rightarrow> bool" where
  "IsCreditBalanceTooLow env status text \<longleftrightarrow> status = 400 \<and> hasCreditBalanceTooLowBody env text"

definition isCreditBalanceTooLowResultError :: "'r errorEnv \<Rightarrow> Error option \<Rightarrow> bool" where
  "isCreditBalanceTooLowResultError env err =
     (case err of
        None \<Rightarrow> False
      | Some e \<Rightarrow>
          (let status = statusCodeFromResult err
           in IsCreditBalanceTooLow env status (errorText e)
              \<or> (Message e \<noteq> [] \<and> IsCreditBalanceTooLow env status (Message e))))"

section \<open>Request faults\<close>

definition codeAt :: "'r errorEnv \<Rightarrow> string \<Rightarrow> string \<Rightarrow> string" where
  "codeAt env body path = ToLower (TrimSpace (ojString env (ojGet env body path)))"

definition codePaths :: "string list" where
  "codePaths = [''error.code'', ''code'', ''response.error.code'', ''body.error.code'']"

definition typePaths :: "string list" where
  "typePaths = [''error.type'', ''type'', ''response.error.type'', ''body.error.type'']"

definition requestFaultCodes :: "string list" where
  "requestFaultCodes =
     [''cyber_policy'', ''context_length_exceeded'', ''message_too_big'', ''string_above_max_length'',
      ''invalid_prompt'', ''invalid_value'', ''unsupported_value'', ''invalid_request_error'',
      ''previous_response_not_found'']"

definition requestFaultTypes :: "string list" where
  "requestFaultTypes = [''invalid_request'', ''invalid_request_error'', ''bad_request_error'', ''invalid_prompt'']"

definition hasModelNotFoundErrorBody :: "'r errorEnv \<Rightarrow> string \<Rightarrow> bool" where
  "hasModelNotFoundErrorBody env text =
     (let body = TrimSpace text
      in if body = [] \<or> \<not> ojValid env body then False
         else list_ex (\<lambda>path. codeAt env body path \<in> {''model_not_found'', ''model_not_found_error''}) codePaths)"

definition hasAuthenticationErrorBody :: "'r errorEnv \<Rightarrow> string \<Rightarrow> bool" where
  "hasAuthenticationErrorBody env text =
     (let body = TrimSpace text
      in if body = [] \<or> \<not> ojValid env body then False
         else list_ex (\<lambda>path. codeAt env body path = ''authentication_error'') typePaths)"

definition hasRequestFaultBody :: "'r errorEnv \<Rightarrow> string \<Rightarrow> bool" where
  "hasRequestFaultBody env text =
     (let body = TrimSpace text
      in if body = [] \<or> \<not> ojValid env body then False
         else list_ex (\<lambda>path. codeAt env body path \<in> set requestFaultCodes) codePaths
              \<or> list_ex (\<lambda>path. codeAt env body path \<in> set requestFaultTypes) typePaths)"

definition IsItemNotPersisted :: "string \<Rightarrow> bool" where
  "IsItemNotPersisted message =
     (let lower = ToLower message
      in Contains lower ''item with id'' \<and> Contains lower ''not found''
         \<and> Contains lower (''items are not persisted when '' @ [CHR 0x60] @ ''store'' @ [CHR 0x60] @ '' is set to false''))"

definition isGeminiFilterBlockText :: "string \<Rightarrow> bool" where
  "isGeminiFilterBlockText text =
     (let trimmed = TrimSpace text
      in HasPrefix trimmed (''This request was blocked by Gemini'' @ [CHR 0x27] @ ''s filters.'')
         \<and> Contains trimmed ''https://policies.google.com/terms/generative-ai/use-policy'')"

definition isClaudePolicyRefusalText :: "string \<Rightarrow> bool" where
  "isClaudePolicyRefusalText text =
     (let lower = ToLower (TrimSpace text)
      in lower = ''claude refusal'' \<or> HasPrefix lower ''claude refusal ('' \<or> HasPrefix lower ''claude refusal:''
         \<or> (Contains lower ''triggered restrictions on violative cyber content''
            \<and> Contains lower (''anthropic'' @ [CHR 0x27] @ ''s usage policy'')))"

text \<open>Whether \<open>ClaudePolicyRefusalMessage\<close> finds a refusal; its text is not needed here.\<close>

definition refusalAt :: "'r errorEnv \<Rightarrow> string \<Rightarrow> string \<Rightarrow> bool" where
  "refusalAt env payload prefix =
     (let dotted = (if prefix = [] then [] else prefix @ ''.'');
          stopReason = codeAt env payload (dotted @ ''stop_reason'');
          details = ojGet env payload (dotted @ ''stop_details'')
      in if \<not> ojExists env details \<or> \<not> ojIsJSON env details then False
         else stopReason = ''refusal''
              \<or> ToLower (TrimSpace (ojString env (ojSub env details ''type''))) = ''refusal''
              \<or> ToLower (TrimSpace (ojString env (ojSub env details ''category''))) = ''cyber'')"

definition ClaudePolicyRefusalMessage :: "'r errorEnv \<Rightarrow> string \<Rightarrow> bool" where
  "ClaudePolicyRefusalMessage env payload =
     (if payload = [] \<or> \<not> Contains payload ''stop_details'' \<or> \<not> ojValid env payload then False
      else refusalAt env payload ''delta'' \<or> refusalAt env payload [])"

definition IsClaudeThreadNotFound :: "'r errorEnv \<Rightarrow> int \<Rightarrow> string \<Rightarrow> bool" where
  "IsClaudeThreadNotFound env status text =
     (let body = TrimSpace text
      in if status \<noteq> 404 then False
         else if body = [] then False
         else if ojValid env body then
           (let msg = ToLower (ojString env (ojGet env body ''error.message''))
            in EqualFold (TrimSpace (ojString env (ojGet env body ''error.type''))) ''not_found_error''
               \<and> Contains msg ''thread state'' \<and> Contains msg ''previous_message_id'')
         else (let lower = ToLower body
               in Contains lower ''thread state'' \<and> Contains lower ''previous_message_id''))"

definition isDevinRequestPermissionDeniedText :: "string \<Rightarrow> bool" where
  "isDevinRequestPermissionDeniedText text =
     (let lower = ToLower (TrimSpace text)
      in if lower = [] \<or> \<not> Contains lower ''permission_denied'' then False
         else Contains lower ''unable to process request due to an mcp configuration issue''
              \<or> Contains lower ''blocked by our content policy'')"

definition IsDevinRequestPermissionDenied :: "int \<Rightarrow> string \<Rightarrow> bool" where
  "IsDevinRequestPermissionDenied status text \<longleftrightarrow> status = 403 \<and> isDevinRequestPermissionDeniedText text"

definition IsRequestFault :: "'r errorEnv \<Rightarrow> int \<Rightarrow> string \<Rightarrow> bool" where
  "IsRequestFault env status text =
     (if status = 402 \<or> status = 429 then False
      else if status = 401 \<and> hasAuthenticationErrorBody env text then False
      else if IsClaudeThreadNotFound env status text then True
      else if IsDevinRequestPermissionDenied status text then True
      else if IsCreditBalanceTooLow env status text then False
      else if hasModelNotFoundErrorBody env text then False
      else if hasRequestFaultBody env text then True
      else if IsItemNotPersisted text \<or> isGeminiFilterBlockText text
           \<or> isClaudePolicyRefusalText text \<or> ClaudePolicyRefusalMessage env text then True
      else status = 400 \<or> status = 409 \<or> status = 413 \<or> status = 422)"

definition isRequestInvalidError :: "'r errorEnv \<Rightarrow> Error \<Rightarrow> bool" where
  "isRequestInvalidError env e =
     (if Code e = ErrorCodeStreamTruncated then True
      else if Code e = ErrorCodeRequestScoped then True
      else if isCloudflareChallengeError e then False
      else if isInvalidGrantError e then False
      else if isCreditBalanceTooLowResultError env (Some e) then False
      else if isModelSupportError env e then False
      else IsRequestFault env (HTTPStatus e) (errorText e)
           \<or> (Message e \<noteq> [] \<and> IsRequestFault env (HTTPStatus e) (Message e)))"

definition isRequestScopedNotFoundResultError :: "Error option \<Rightarrow> bool" where
  "isRequestScopedNotFoundResultError err =
     (case err of None \<Rightarrow> False | Some e \<Rightarrow> statusCodeFromResult err = 404 \<and> IsItemNotPersisted (Message e))"

definition isRequestScopedResultError :: "'r errorEnv \<Rightarrow> Error option \<Rightarrow> bool" where
  "isRequestScopedResultError env err =
     (case err of
        None \<Rightarrow> False
      | Some e \<Rightarrow>
          if Code e = ErrorCodeRequestScoped \<or> isRequestScopedNotFoundResultError err then True
          else isRequestInvalidError env e)"

definition shouldSkipCredentialCooldown :: "'r errorEnv \<Rightarrow> Error option \<Rightarrow> bool" where
  "shouldSkipCredentialCooldown env err =
     (if (case err of None \<Rightarrow> False | Some e \<Rightarrow> Code e = ErrorCodeForceCooldown) then False
      else isRequestScopedResultError env err \<or> isConnectionLifecycleResultError err
           \<or> isTransientTransportResultError err \<or> isStreamTruncatedResultError err)"

end
