(* ===== verification/Cooldown.thy ===== *)
theory Cooldown
  imports ErrorClass Availability
begin

text \<open>
  Cooldowns of credentials and models (\<open>conductor_cooldown.go\<close>, \<open>quota_signals.go\<close>,
  \<open>conductor_refresh.go\<close>, \<open>types.go\<close> under \<open>src/sdk/cliproxy/auth\<close>): the deadlines a failure
  sets, the quota backoff ladder, the per-model state map and what is aggregated from it, and the
  state change for a failure that names no model.

  \<^item> Process-wide settings, the loaded configuration and the JSON readers are the environment
    \<open>cooldownEnv\<close>.  The nested \<open>siwc\<close> map of a credential's metadata enters through
    \<open>siwcAccessToken\<close> and \<open>siwcHasRefresh\<close>, the alias resolution of a route model through
    \<open>selectionModelForAuth\<close>.
  \<^item> A backoff level is a 64 bit \<open>int\<close>: the shift and the product of \<open>nextQuotaCooldown\<close> wrap.
  \<^item> \<open>Round(0)\<close> only strips the monotonic clock reading and is the identity here.
\<close>

section \<open>Environment\<close>

record compatEntry =
  compatDisabled :: bool
  compatName :: string
  compatDisableCooling :: "bool option"

record coolingConfig =
  HomeEnabled :: bool
  DisableCooling :: bool
  OpenAICompatibility :: "compatEntry list"

record 'r cooldownEnv = "'r errorEnv" +
  transientErrorCooldownSeconds :: int
  quotaCooldownDisabled :: bool
  runtimeConfig :: "coolingConfig option"
  selectionModelForAuth :: "Auth \<Rightarrow> string \<Rightarrow> string"
  siwcAccessToken :: "Auth \<Rightarrow> string"
  siwcHasRefresh :: "Auth \<Rightarrow> gotime \<Rightarrow> bool"

definition jsonOf :: "'r cooldownEnv \<Rightarrow> 'r errorEnv" where
  "jsonOf env = errorEnv.truncate env"

definition quotaBackoffBase :: duration where "quotaBackoffBase = Second"
definition quotaBackoffMax :: duration where "quotaBackoffMax = 30 * Minute"
definition minQuotaCooldownFloor :: duration where "minQuotaCooldownFloor = 10 * Second"
definition quotaSyntheticBackoffMax :: duration where "quotaSyntheticBackoffMax = Minute"
definition transientErrorCooldown :: duration where "transientErrorCooldown = Minute"
definition refreshFailureBackoff :: duration where "refreshFailureBackoff = 5 * Minute"

lemmas cooldown_consts = quotaBackoffBase_def quotaBackoffMax_def minQuotaCooldownFloor_def
  quotaSyntheticBackoffMax_def transientErrorCooldown_def refreshFailureBackoff_def duration_defs

section \<open>Whether cooling is on\<close>

definition parseBoolAny :: "goany \<Rightarrow> bool option" where
  "parseBoolAny v =
     (case v of
        ABool b \<Rightarrow> Some b
      | AString s \<Rightarrow> if TrimSpace s = [] then None else ParseBool (TrimSpace s)
      | AFloat f \<Rightarrow> Some (f \<noteq> FNum 0)
      | ANumber n \<Rightarrow> map_option (\<lambda>p. p \<noteq> 0) (ParseInt n)
      | _ \<Rightarrow> None)"

definition DisableCoolingOverride :: "Auth \<Rightarrow> bool option" where
  "DisableCoolingOverride a =
     (case Option.bind (map_of (Metadata a) ''disable_cooling'') parseBoolAny of
        Some parsed \<Rightarrow> Some parsed
      | None \<Rightarrow> Option.bind (map_of (Metadata a) ''disable-cooling'') parseBoolAny)"

definition resolveOpenAICompatConfig ::
  "coolingConfig \<Rightarrow> string \<Rightarrow> string \<Rightarrow> string \<Rightarrow> compatEntry option" where
  "resolveOpenAICompatConfig cfg providerKey compatNm authProvider =
     (let candidates = filter (\<lambda>v. v \<noteq> []) [TrimSpace compatNm, TrimSpace providerKey, TrimSpace authProvider]
      in List.find (\<lambda>e. \<not> compatDisabled e
           \<and> list_ex (\<lambda>candidate. EqualFold (TrimSpace candidate) (compatName e)) candidates)
         (OpenAICompatibility cfg))"

definition providerCoolingOverrideForAuth :: "Auth \<Rightarrow> coolingConfig option \<Rightarrow> bool option" where
  "providerCoolingOverrideForAuth a cfg =
     (case cfg of
        None \<Rightarrow> None
      | Some c \<Rightarrow>
         (let provider = ToLower (TrimSpace (Provider a));
              providerKey = TrimSpace (str_get (Attributes a) ''provider_key'');
              compatNm = TrimSpace (str_get (Attributes a) ''compat_name'')
          in if provider = [] then None
             else if providerKey = [] \<and> compatNm = [] \<and> provider \<noteq> ''openai-compatibility'' then None
             else
               (case resolveOpenAICompatConfig c (if providerKey = [] then provider else providerKey) compatNm provider of
                  None \<Rightarrow> None
                | Some entry \<Rightarrow> compatDisableCooling entry)))"

definition quotaCooldownDisabledForAuthWithConfig :: "'r cooldownEnv \<Rightarrow> Auth \<Rightarrow> coolingConfig option \<Rightarrow> bool" where
  "quotaCooldownDisabledForAuthWithConfig env a cfg =
     (if (case cfg of None \<Rightarrow> False | Some c \<Rightarrow> HomeEnabled c) then True
      else
        (case DisableCoolingOverride a of
           Some override \<Rightarrow> override
         | None \<Rightarrow>
            (case providerCoolingOverrideForAuth a cfg of
               Some override \<Rightarrow> override
             | None \<Rightarrow>
                 if (case cfg of None \<Rightarrow> False | Some c \<Rightarrow> DisableCooling c) then True
                 else quotaCooldownDisabled env)))"

definition cooldownDisabledForAuth :: "'r cooldownEnv \<Rightarrow> Auth \<Rightarrow> bool" where
  "cooldownDisabledForAuth env a = quotaCooldownDisabledForAuthWithConfig env a (runtimeConfig env)"

section \<open>Deadlines\<close>

definition recoverableFailureRetryAfterWithHint ::
  "'r cooldownEnv \<Rightarrow> gotime \<Rightarrow> duration option \<Rightarrow> bool \<Rightarrow> gotime" where
  "recoverableFailureRetryAfterWithHint env now retryAfter disableCooling =
     (let seconds = transientErrorCooldownSeconds env
      in if disableCooling then 0
         else if seconds < 0 then 0
         else if (case retryAfter of None \<Rightarrow> False | Some d \<Rightarrow> d > 0) then now + the retryAfter
         else if seconds = 0 then now + transientErrorCooldown
         else now + wrap64 (seconds * Second))"

definition recoverableFailureRetryAfter :: "'r cooldownEnv \<Rightarrow> gotime \<Rightarrow> bool \<Rightarrow> gotime" where
  "recoverableFailureRetryAfter env now disableCooling =
     recoverableFailureRetryAfterWithHint env now None disableCooling"

definition transientRateLimitRetryAfter ::
  "'r cooldownEnv \<Rightarrow> gotime \<Rightarrow> duration option \<Rightarrow> bool \<Rightarrow> gotime" where
  "transientRateLimitRetryAfter env now retryAfter disableCooling =
     (if retryAfter = Some 0 then 0
      else recoverableFailureRetryAfterWithHint env now retryAfter disableCooling)"

text \<open>\<open>1 << n\<close> of a 64 bit \<open>int\<close>.\<close>

definition shiftOne :: "int \<Rightarrow> int" where
  "shiftOne n = (if n \<ge> 64 then 0 else wrap64 (2 ^ nat n))"

definition nextQuotaCooldown :: "int \<Rightarrow> bool \<Rightarrow> duration \<times> int" where
  "nextQuotaCooldown prevLevel disableCooling =
     (let prevLevel = (if prevLevel < 0 then 0 else prevLevel)
      in if disableCooling then (0, prevLevel)
         else
           (let cooldown = wrap64 (quotaBackoffBase * shiftOne prevLevel);
                cooldown = (if cooldown < quotaBackoffBase then quotaBackoffBase else cooldown)
            in if cooldown \<ge> quotaBackoffMax then (quotaBackoffMax, prevLevel)
               else (cooldown, wrap64 (prevLevel + 1))))"

definition quotaCooldownAfterFailure :: "QuotaState \<Rightarrow> gotime \<Rightarrow> gotime \<times> int" where
  "quotaCooldownAfterFailure quota now =
     (if After (NextRecoverAt quota) now then (NextRecoverAt quota, BackoffLevel quota)
      else
        (let (cooldown, nextLevel) = nextQuotaCooldown (BackoffLevel quota) False;
             cooldown = (if cooldown > quotaSyntheticBackoffMax then quotaSyntheticBackoffMax else cooldown)
         in (if cooldown > 0 then now + cooldown else 0, nextLevel)))"

definition nextCloudflareCooldown :: "int \<Rightarrow> bool \<Rightarrow> gotime \<Rightarrow> gotime \<times> int" where
  "nextCloudflareCooldown backoffLevel disableCooling now =
     (if disableCooling then (0, backoffLevel)
      else
        (let (cooldown, nextLevel) = nextQuotaCooldown backoffLevel disableCooling;
             cooldown = (if cooldown < 10 * Second then 10 * Second else cooldown)
         in (if cooldown > 0 then now + cooldown else 0, nextLevel)))"

definition applyCooldownFields :: "bool \<Rightarrow> string \<Rightarrow> gotime \<Rightarrow> int \<Rightarrow> QuotaState \<Rightarrow> QuotaState" where
  "applyCooldownFields exceeded rsn recoverAt level dst =
     dst\<lparr>Exceeded := exceeded, Reason := rsn, NextRecoverAt := recoverAt, BackoffLevel := level\<rparr>"

definition mergeQuotaObservation :: "QuotaState \<Rightarrow> QuotaState \<Rightarrow> QuotaState" where
  "mergeQuotaObservation target source =
     (if IsZero (ObservedAt source) \<or> Before (ObservedAt source) (ObservedAt target) then target
      else target\<lparr>ObservedAt := ObservedAt source, Signals := Signals source\<rparr>)"

section \<open>Model states\<close>

definition resetModelState :: "gotime \<Rightarrow> ModelState \<Rightarrow> ModelState" where
  "resetModelState now state =
     state\<lparr>MUnavailable := False, MStatus := StatusActive, MStatusMessage := [], MNextRetryAfter := 0,
       MLastError := None, MQuota := applyCooldownFields False [] 0 0 (MQuota state),
       McooldownRecordedSeq := 0, credentialQuotaShadow := None, credentialQuotaPropagated := False,
       MUpdatedAt := now\<rparr>"

definition mergedShadow :: "ModelState \<Rightarrow> ModelState \<Rightarrow> ModelStateBase option" where
  "mergedShadow preferred fallback =
     (case credentialQuotaShadow preferred of Some s \<Rightarrow> Some s | None \<Rightarrow> credentialQuotaShadow fallback)"

definition mergedQuota :: "ModelState \<Rightarrow> ModelState \<Rightarrow> ModelState \<Rightarrow> ModelState \<Rightarrow> QuotaState" where
  "mergedQuota target source preferred fallback =
     (let q = \<lparr>Exceeded = Exceeded (MQuota target) \<or> Exceeded (MQuota source),
               Reason = Reason (MQuota preferred),
               NextRecoverAt = NextRecoverAt (MQuota target),
               BackoffLevel = BackoffLevel (MQuota target), ObservedAt = 0, Signals = []\<rparr>;
          q = mergeQuotaObservation q (MQuota fallback);
          q = mergeQuotaObservation q (MQuota preferred);
          q = (if After (NextRecoverAt (MQuota source)) (NextRecoverAt q)
               then q\<lparr>NextRecoverAt := NextRecoverAt (MQuota source)\<rparr> else q);
          q = (if BackoffLevel (MQuota source) > BackoffLevel q
               then q\<lparr>BackoffLevel := BackoffLevel (MQuota source)\<rparr> else q)
      in if Reason q = [] then q\<lparr>Reason := Reason (MQuota fallback)\<rparr> else q)"

definition mergeModelState :: "ModelState option \<Rightarrow> ModelState option \<Rightarrow> ModelState option" where
  "mergeModelState targetState sourceState =
     (case (targetState, sourceState) of
        (None, _) \<Rightarrow> sourceState
      | (Some target, None) \<Rightarrow> targetState
      | (Some target, Some source) \<Rightarrow>
         (let newer = After (MUpdatedAt source) (MUpdatedAt target);
              preferred = (if newer then source else target);
              fallback = (if newer then target else source);
              quota = mergedQuota target source preferred fallback;
              unavailable = (MUnavailable target \<or> MUnavailable source);
              wrapped = (Reason quota = ''credential_quota'' \<or> Reason quota = ''quota''
                         \<or> credentialQuotaPropagated target \<or> credentialQuotaPropagated source
                         \<or> credentialQuotaShadow target \<noteq> None \<or> credentialQuotaShadow source \<noteq> None)
          in Some
            \<lparr>MStatus = (if MStatus target = StatusDisabled \<or> MStatus source = StatusDisabled then StatusDisabled
                        else if unavailable \<or> Exceeded quota then StatusError else MStatus preferred),
             MStatusMessage = (if MStatusMessage preferred = [] then MStatusMessage fallback
                               else MStatusMessage preferred),
             MUnavailable = unavailable,
             MNextRetryAfter = (if After (MNextRetryAfter source) (MNextRetryAfter target)
                                then MNextRetryAfter source else MNextRetryAfter target),
             MLastError = (if cloneError (MLastError preferred) = None then cloneError (MLastError fallback)
                           else cloneError (MLastError preferred)),
             MQuota = quota,
             MUpdatedAt = (if newer then MUpdatedAt source else MUpdatedAt target),
             McooldownRecordedSeq = (if McooldownRecordedSeq source > McooldownRecordedSeq target
                                     then McooldownRecordedSeq source else McooldownRecordedSeq target),
             credentialQuotaPropagated =
               wrapped \<and> (credentialQuotaPropagated target \<or> credentialQuotaPropagated source),
             credentialQuotaShadow = (if wrapped then mergedShadow preferred fallback else None)\<rparr>))"

definition stateKey :: "string \<Rightarrow> string" where
  "stateKey model = (let modelKey = canonicalModelKey model in if modelKey = [] then TrimSpace model else modelKey)"

fun mergeStatesLoop ::
  "(string, ModelState option) gomap \<Rightarrow> (string, ModelState option) gomap \<times> bool
   \<Rightarrow> (string, ModelState option) gomap \<times> bool" where
  "mergeStatesLoop [] acc = acc"
| "mergeStatesLoop ((model, state) # ss) (normalized, changed) =
     (let modelKey = stateKey model; changed = (changed \<or> modelKey \<noteq> model)
      in case map_of normalized modelKey of
           Some existing \<Rightarrow>
             mergeStatesLoop ss (AList.update modelKey (mergeModelState existing state) normalized, True)
         | None \<Rightarrow> mergeStatesLoop ss (AList.update modelKey state normalized, changed))"

definition normalizeModelStates :: "Auth \<Rightarrow> Auth" where
  "normalizeModelStates a =
     (case mergeStatesLoop (ModelStates a) ([], False) of
        (normalized, changed) \<Rightarrow> if changed then a\<lparr>ModelStates := normalized\<rparr> else a)"

definition existingModelState :: "Auth \<Rightarrow> string \<Rightarrow> ModelState option" where
  "existingModelState a model =
     (let model = canonicalModelKey model
      in if model = [] then None
         else case map_of (ModelStates a) model of Some s \<Rightarrow> s | None \<Rightarrow> None)"

text \<open>
  \<open>ensureModelState\<close> returns a pointer into the map.  Here it returns the credential and the key
  the pointer is stored under; \<open>stateAt\<close> reads through it and \<open>putState\<close> writes through it.
\<close>

definition ensureModelState :: "Auth \<Rightarrow> string \<Rightarrow> (Auth \<times> string) option" where
  "ensureModelState a model =
     (let model = canonicalModelKey model
      in if model = [] then None
         else
           (let a = normalizeModelStates a
            in case map_of (ModelStates a) model of
                 Some (Some _) \<Rightarrow> Some (a, model)
               | _ \<Rightarrow> Some (a\<lparr>ModelStates := AList.update model
                         (Some (emptyModelState\<lparr>MStatus := StatusActive\<rparr>)) (ModelStates a)\<rparr>, model)))"

definition stateAt :: "Auth \<Rightarrow> string \<Rightarrow> ModelState" where
  "stateAt a key = (case map_of (ModelStates a) key of Some (Some s) \<Rightarrow> s | _ \<Rightarrow> emptyModelState)"

definition putState :: "string \<Rightarrow> ModelState \<Rightarrow> Auth \<Rightarrow> Auth" where
  "putState key s a = a\<lparr>ModelStates := AList.update key (Some s) (ModelStates a)\<rparr>"

definition modelStateIsClean :: "ModelState option \<Rightarrow> bool" where
  "modelStateIsClean state =
     (case state of
        None \<Rightarrow> True
      | Some s \<Rightarrow>
          MStatus s = StatusActive \<and> \<not> MUnavailable s \<and> MStatusMessage s = [] \<and> IsZero (MNextRetryAfter s)
          \<and> MLastError s = None \<and> \<not> Exceeded (MQuota s) \<and> Reason (MQuota s) = []
          \<and> IsZero (NextRecoverAt (MQuota s)) \<and> BackoffLevel (MQuota s) = 0)"

definition hasActiveUsageLimitBlock :: "ModelState \<Rightarrow> gotime \<Rightarrow> bool" where
  "hasActiveUsageLimitBlock s now \<longleftrightarrow>
     MUnavailable s \<and> Reason (MQuota s) = ''usage_limit'' \<and> After (MNextRetryAfter s) now"

section \<open>Aggregation over the models\<close>

definition clearAggregatedAvailability :: "Auth \<Rightarrow> Auth" where
  "clearAggregatedAvailability a =
     a\<lparr>Unavailable := False, NextRetryAfter := 0, Quota := applyCooldownFields False [] 0 0 (Quota a)\<rparr>"

record aggregate =
  allUnavailable :: bool
  earliestRetry :: gotime
  quotaExceeded :: bool
  quotaRecover :: gotime
  maxBackoffLevel :: int
  hasState :: bool

definition stateUnavailable :: "gotime \<Rightarrow> ModelState \<Rightarrow> bool" where
  "stateUnavailable now s =
     (if MStatus s = StatusDisabled then True
      else MUnavailable s \<and> \<not> IsZero (MNextRetryAfter s) \<and> After (MNextRetryAfter s) now)"

text \<open>The loop also clears the flag of a state whose retry time has passed.\<close>

definition expireState :: "gotime \<Rightarrow> ModelState \<Rightarrow> ModelState" where
  "expireState now s =
     (if MStatus s \<noteq> StatusDisabled \<and> MUnavailable s \<and> \<not> IsZero (MNextRetryAfter s)
         \<and> \<not> After (MNextRetryAfter s) now
      then s\<lparr>MUnavailable := False, MNextRetryAfter := 0\<rparr> else s)"

definition aggregateStep :: "gotime \<Rightarrow> ModelState \<Rightarrow> aggregate \<Rightarrow> aggregate" where
  "aggregateStep now s g =
     (let g = g\<lparr>hasState := True\<rparr>;
          g = (if MStatus s \<noteq> StatusDisabled \<and> stateUnavailable now s
                  \<and> (IsZero (earliestRetry g) \<or> Before (MNextRetryAfter s) (earliestRetry g))
               then g\<lparr>earliestRetry := MNextRetryAfter s\<rparr> else g);
          g = (if \<not> stateUnavailable now s then g\<lparr>allUnavailable := False\<rparr> else g)
      in if Exceeded (MQuota s) then
           (let recoverAt = NextRecoverAt (MQuota s);
                g = g\<lparr>quotaExceeded := True\<rparr>;
                g = (if IsZero (quotaRecover g) \<or> (\<not> IsZero recoverAt \<and> Before recoverAt (quotaRecover g))
                     then g\<lparr>quotaRecover := recoverAt\<rparr> else g)
            in if BackoffLevel (MQuota s) > maxBackoffLevel g
               then g\<lparr>maxBackoffLevel := BackoffLevel (MQuota s)\<rparr> else g)
         else g)"

definition emptyAggregate :: aggregate where
  "emptyAggregate = \<lparr>allUnavailable = True, earliestRetry = 0, quotaExceeded = False, quotaRecover = 0,
     maxBackoffLevel = 0, hasState = False\<rparr>"

definition liveStates :: "Auth \<Rightarrow> ModelState list" where
  "liveStates a = List.map_filter snd (ModelStates a)"

definition aggregateQuota :: "aggregate \<Rightarrow> gotime \<Rightarrow> QuotaState \<Rightarrow> QuotaState" where
  "aggregateQuota g now q =
     (if quotaExceeded g then
        applyCooldownFields True ''quota''
          (if After (NextRecoverAt q) (quotaRecover g) then NextRecoverAt q else quotaRecover g)
          (maxBackoffLevel g) q
      else if Exceeded q \<and> After (NextRecoverAt q) now then q
      else applyCooldownFields False [] 0 0 q)"

definition updateAggregatedAvailability :: "gotime \<Rightarrow> Auth \<Rightarrow> Auth" where
  "updateAggregatedAvailability now a =
     (if hasUnauthorizedAuthFailure (Some a) then a\<lparr>Unavailable := True\<rparr>
      else if credentialQuotaActive a now then a\<lparr>Unavailable := True\<rparr>
      else if ModelStates a = [] then clearAggregatedAvailability a
      else
        (let g = fold (aggregateStep now) (liveStates a) emptyAggregate;
             a = a\<lparr>ModelStates := map (map_prod id (map_option (expireState now))) (ModelStates a)\<rparr>
         in if \<not> hasState g then clearAggregatedAvailability a
            else a\<lparr>Unavailable := allUnavailable g,
                   NextRetryAfter := (if allUnavailable g then earliestRetry g else 0),
                   Quota := aggregateQuota g now (Quota a)\<rparr>))"

definition hasModelError :: "Auth \<Rightarrow> gotime \<Rightarrow> bool" where
  "hasModelError a now =
     list_ex (\<lambda>s. MLastError s \<noteq> None
        \<or> (MStatus s = StatusError \<and> MUnavailable s
           \<and> (IsZero (MNextRetryAfter s) \<or> After (MNextRetryAfter s) now))) (liveStates a)"

definition clearAuthStateOnSuccess :: "gotime \<Rightarrow> Auth \<Rightarrow> Auth" where
  "clearAuthStateOnSuccess now a =
     (if hasUnauthorizedAuthFailure (Some a) then a\<lparr>Unavailable := True\<rparr>
      else a\<lparr>Unavailable := False, Status := StatusActive, StatusMessage := [],
        Quota := applyCooldownFields False [] 0 0 (Quota a), LastError := None, NextRetryAfter := 0,
        cooldownRecordedSeq := 0, UpdatedAt := now\<rparr>)"

definition stateCooling :: "ModelState \<Rightarrow> bool" where
  "stateCooling s \<longleftrightarrow>
     MUnavailable s \<or> \<not> IsZero (MNextRetryAfter s) \<or> Exceeded (MQuota s) \<or> \<not> IsZero (NextRecoverAt (MQuota s))
     \<or> credentialQuotaShadow s \<noteq> None \<or> credentialQuotaPropagated s"

definition clearStateCooldown :: "gotime \<Rightarrow> ModelState \<Rightarrow> ModelState" where
  "clearStateCooldown now s =
     (if stateCooling s then
        s\<lparr>MUnavailable := False, MNextRetryAfter := 0, MQuota := applyCooldownFields False [] 0 0 (MQuota s),
          credentialQuotaShadow := None, credentialQuotaPropagated := False, MUpdatedAt := now\<rparr>
      else s)"

text \<open>\<open>Generation\<close> is a \<open>uint64\<close>.\<close>

definition clearCooldownStateForAuth :: "gotime \<Rightarrow> Auth \<Rightarrow> Auth \<times> bool" where
  "clearCooldownStateForAuth now a =
     (if hasUnauthorizedAuthFailure (Some a) then (a, False)
      else
        (let own = (Unavailable a \<or> \<not> IsZero (NextRetryAfter a) \<or> Exceeded (Quota a)
                    \<or> \<not> IsZero (NextRecoverAt (Quota a)));
             changed = (own \<or> list_ex stateCooling (liveStates a));
             a = (if own then a\<lparr>Unavailable := False, NextRetryAfter := 0,
                    Quota := applyCooldownFields False [] 0 0 (Quota a), UpdatedAt := now\<rparr> else a);
             a = a\<lparr>ModelStates := map (map_prod id (map_option (clearStateCooldown now))) (ModelStates a)\<rparr>;
             a = (if ModelStates a \<noteq> [] then updateAggregatedAvailability now a else a)
         in (if changed then a\<lparr>Generation := wrapU64 (Generation a + 1), UpdatedAt := now\<rparr> else a, changed)))"

section \<open>A failure without a model\<close>

definition forced :: "Error option \<Rightarrow> bool" where
  "forced err = (case err of None \<Rightarrow> False | Some e \<Rightarrow> Code e = ErrorCodeForceCooldown)"

definition transientStatuses :: "int list" where
  "transientStatuses = [408, 500, 502, 503, 504, 520, 521, 522, 523, 524, 525, 526]"

definition zeroIf :: "bool \<Rightarrow> gotime \<Rightarrow> gotime" where
  "zeroIf disableCooling t = (if disableCooling then 0 else t)"

text \<open>A transient capacity rejection never ends before a live quota window.\<close>

definition transientDeadline :: "gotime \<Rightarrow> QuotaState \<Rightarrow> gotime \<Rightarrow> gotime" where
  "transientDeadline now q next =
     (let next = (if \<not> IsZero next \<and> Exceeded q \<and> After (NextRecoverAt q) next then NextRecoverAt q else next)
      in if IsZero next \<and> Exceeded q \<and> After (NextRecoverAt q) now then NextRecoverAt q else next)"

definition missingDeadline :: "gotime \<Rightarrow> duration option \<Rightarrow> bool \<Rightarrow> gotime" where
  "missingDeadline now retryAfter disableCooling =
     (if disableCooling then 0
      else if (case retryAfter of None \<Rightarrow> False | Some d \<Rightarrow> d > 0) then now + the retryAfter
      else now + 12 * Hour)"

definition flooredHint :: "gotime \<Rightarrow> duration \<Rightarrow> gotime" where
  "flooredHint now d = now + (if d < minQuotaCooldownFloor then minQuotaCooldownFloor else d)"

definition authQuotaFailure :: "gotime \<Rightarrow> duration option \<Rightarrow> bool \<Rightarrow> Auth \<Rightarrow> Auth" where
  "authQuotaFailure now retryAfter disableCooling a =
     (let a = a\<lparr>StatusMessage := ''quota exhausted'',
                Quota := (Quota a)\<lparr>Exceeded := True, Reason := ''quota''\<rparr>\<rparr>;
          (next, level) =
            (if disableCooling then (0, BackoffLevel (Quota a))
             else
               (let (next, level) =
                      (case retryAfter of
                         Some d \<Rightarrow> (flooredHint now d, BackoffLevel (Quota a))
                       | None \<Rightarrow> quotaCooldownAfterFailure (Quota a) now)
                in (if Exceeded (Quota a) \<and> After (NextRecoverAt (Quota a)) next
                    then NextRecoverAt (Quota a) else next, level)))
      in a\<lparr>Quota := (Quota a)\<lparr>NextRecoverAt := next, BackoffLevel := level\<rparr>, NextRetryAfter := next\<rparr>)"

text \<open>The branches of the switch: the deadline and the message each writes.\<close>

definition authFailureBranch ::
  "'r cooldownEnv \<Rightarrow> Error option \<Rightarrow> duration option \<Rightarrow> gotime \<Rightarrow> bool \<Rightarrow> Auth \<Rightarrow> Auth" where
  "authFailureBranch env resultErr retryAfter now disableCooling a =
     (let statusCode = statusCodeFromResult resultErr
      in if isTransientRateLimitResultError resultErr \<and> statusCode = 429 then
           (let next = transientDeadline now (Quota a)
                  (transientRateLimitRetryAfter env now retryAfter disableCooling)
            in a\<lparr>NextRetryAfter := next, Unavailable := (\<not> IsZero next)\<rparr>)
         else if isCloudflareChallengeResultError resultErr then
           (case nextCloudflareCooldown (BackoffLevel (Quota a)) disableCooling now of
              (next, backoffLevel) \<Rightarrow>
                a\<lparr>StatusMessage := ''cloudflare challenge'',
                  Quota := applyCooldownFields True ''cloudflare challenge'' next backoffLevel (Quota a),
                  NextRetryAfter := next\<rparr>)
         else if isInvalidGrantResultError resultErr then
           a\<lparr>StatusMessage := ''invalid_grant'', NextRetryAfter := zeroIf disableCooling (now + 30 * Minute)\<rparr>
         else if isCreditBalanceTooLowResultError (jsonOf env) resultErr then
           a\<lparr>StatusMessage := ''payment_required'', NextRetryAfter := zeroIf disableCooling (now + 30 * Minute)\<rparr>
         else if statusCode = 401 then
           a\<lparr>StatusMessage := ''unauthorized'', NextRetryAfter := zeroIf disableCooling (now + 30 * Minute)\<rparr>
         else if statusCode = 402 \<or> statusCode = 403 then
           a\<lparr>StatusMessage := ''payment_required'', NextRetryAfter := zeroIf disableCooling (now + 30 * Minute)\<rparr>
         else if statusCode = 404 then
           a\<lparr>StatusMessage := ''not_found'', NextRetryAfter := missingDeadline now retryAfter disableCooling\<rparr>
         else if statusCode = 429 then authQuotaFailure now retryAfter disableCooling a
         else if statusCode \<in> set transientStatuses then
           (let next = recoverableFailureRetryAfterWithHint env now retryAfter disableCooling
            in a\<lparr>StatusMessage := ''transient upstream error'', NextRetryAfter := next,
                 Unavailable := (\<not> IsZero next)\<rparr>)
         else
           (let next = recoverableFailureRetryAfter env now disableCooling
            in a\<lparr>StatusMessage := (if StatusMessage a = [] then ''request failed'' else StatusMessage a),
                 NextRetryAfter := next, Unavailable := (\<not> IsZero next)\<rparr>))"

definition applyAuthFailureState ::
  "'r cooldownEnv \<Rightarrow> Error option \<Rightarrow> duration option \<Rightarrow> gotime \<Rightarrow> bool \<Rightarrow> Auth \<Rightarrow> Auth" where
  "applyAuthFailureState env resultErr retryAfter now disableCooling a =
     (let prevAuthRetryAfter = NextRetryAfter a
      in if shouldSkipCredentialCooldown (jsonOf env) resultErr then a
         else
           (let a = a\<lparr>Unavailable := True, Status := StatusError, UpdatedAt := now\<rparr>;
                a = (case resultErr of
                       None \<Rightarrow> a
                     | Some e \<Rightarrow>
                         a\<lparr>LastError := cloneError resultErr,
                           StatusMessage := (if Message e \<noteq> [] then Message e else StatusMessage a)\<rparr>);
                a = authFailureBranch env resultErr retryAfter now disableCooling a;
                a = (if \<not> IsZero (NextRetryAfter a) \<and> After prevAuthRetryAfter (NextRetryAfter a)
                        \<and> After prevAuthRetryAfter now
                     then a\<lparr>NextRetryAfter := prevAuthRetryAfter\<rparr> else a);
                a = (if forced resultErr \<and> IsZero (NextRetryAfter a)
                     then a\<lparr>NextRetryAfter := now + transientErrorCooldown, Unavailable := True\<rparr> else a)
            in if disableCooling \<and> IsZero (NextRetryAfter a) \<and> IsZero (NextRecoverAt (Quota a))
               then a\<lparr>Unavailable := False, Quota := (Quota a)\<lparr>Exceeded := False\<rparr>\<rparr> else a))"

end
