(* ===== verification/CooldownProofs.thy ===== *)
theory CooldownProofs
  imports Cooldown
begin

text \<open>
  Facts on the cooldown operations: the quota backoff ladder, the deadlines of the failure
  branches, and what the aggregation over the model states computes, whatever the order in which
  Go ranges over the map.
\<close>

section \<open>The backoff ladder\<close>

text \<open>The wrapped product stays within the bounds for every level.\<close>

lemma nextQuotaCooldown_bounds:
  "quotaBackoffBase \<le> fst (nextQuotaCooldown level False) \<and> fst (nextQuotaCooldown level False) \<le> quotaBackoffMax"
  by (simp add: nextQuotaCooldown_def Let_def cooldown_consts)

lemma ladder_levels: "(0::int) \<le> level \<Longrightarrow> level \<le> 11 \<Longrightarrow>
  level = 0 \<or> level = 1 \<or> level = 2 \<or> level = 3 \<or> level = 4 \<or> level = 5 \<or> level = 6 \<or> level = 7
  \<or> level = 8 \<or> level = 9 \<or> level = 10 \<or> level = 11" by presburger

lemma nextQuotaCooldown_ladder:
  "0 \<le> level \<Longrightarrow> level \<le> 11 \<Longrightarrow>
   nextQuotaCooldown level False = (min (2 ^ nat level * Second) quotaBackoffMax, min 11 (level + 1))"
  by (drule (1) ladder_levels, elim disjE)
    (simp_all add: nextQuotaCooldown_def Let_def shiftOne_def wrap64_def cooldown_consts)

text \<open>Length of the window a failure opens at a level of the ladder.\<close>

definition windowLength :: "int \<Rightarrow> duration" where
  "windowLength level = min (2 ^ nat level) 60 * Second"

lemma windowLength_bounds: "Second \<le> windowLength level \<and> windowLength level \<le> Minute"
  by (auto simp: windowLength_def duration_defs min_def)

lemma quotaCooldownAfterFailure_closed:
  assumes "0 \<le> BackoffLevel q" and "BackoffLevel q \<le> 11" and "NextRecoverAt q \<le> now"
  shows "quotaCooldownAfterFailure q now =
    (now + windowLength (BackoffLevel q), min 11 (BackoffLevel q + 1))"
  using assms(3) nextQuotaCooldown_ladder [OF assms(1,2)]
  by (auto simp: quotaCooldownAfterFailure_def windowLength_def cooldown_consts min_def not_less)

lemma quotaCooldownAfterFailure_open:
  "now < NextRecoverAt q \<Longrightarrow> quotaCooldownAfterFailure q now = (NextRecoverAt q, BackoffLevel q)"
  by (simp add: quotaCooldownAfterFailure_def)

text \<open>Whatever the level, a failure opens a window of one second to one minute or keeps the open one.\<close>

lemma quotaCooldownAfterFailure_bounds:
  "now < fst (quotaCooldownAfterFailure q now)
   \<and> (NextRecoverAt q \<le> now \<longrightarrow> fst (quotaCooldownAfterFailure q now) \<le> now + Minute)"
  using nextQuotaCooldown_bounds [of "BackoffLevel q"]
  by (auto simp: quotaCooldownAfterFailure_def cooldown_consts split: prod.splits)

text \<open>
  A run of quota failures without a retry hint at the given times, as the 429 branch records them;
  the list collects the moments at which a window was opened.
\<close>

fun quotaFailures :: "gotime list \<Rightarrow> QuotaState \<Rightarrow> gotime list \<times> QuotaState" where
  "quotaFailures [] q = ([], q)"
| "quotaFailures (t # ts) q =
     (let (next, level) = quotaCooldownAfterFailure q t;
          (opened, q') = quotaFailures ts (applyCooldownFields True ''quota'' next level q)
      in (if t < NextRecoverAt q then opened else t # opened, q'))"

lemma windowLength_pos: "0 < windowLength level"
  using windowLength_bounds [of level] by (simp add: duration_defs)

lemma quotaFailures_ladder:
  assumes "0 \<le> BackoffLevel q" and "BackoffLevel q \<le> 11"
    and "quotaFailures ts q = (opened, q')"
  shows "BackoffLevel q' = min 11 (BackoffLevel q + int (length opened))
    \<and> (\<forall>t \<in> set opened. NextRecoverAt q \<le> t)
    \<and> (\<forall>i. Suc i < length opened \<longrightarrow>
         opened ! i + windowLength (min 11 (BackoffLevel q + int i)) \<le> opened ! Suc i)
    \<and> NextRecoverAt q' = (if opened = [] then NextRecoverAt q
         else List.last opened + windowLength (min 11 (BackoffLevel q + int (length opened - 1))))"
  using assms
proof (induction ts arbitrary: q opened q')
  case Nil
  then show ?case by (simp add: min_def)
next
  case (Cons t ts)
  show ?case
  proof (cases "t < NextRecoverAt q")
    case True
    let ?q = "applyCooldownFields True ''quota'' (NextRecoverAt q) (BackoffLevel q) q"
    from True Cons.prems(3) have r: "quotaFailures ts ?q = (opened, q')"
      by (auto simp: quotaCooldownAfterFailure_open split: prod.splits)
    from Cons.IH [OF _ _ r] Cons.prems(1,2) show ?thesis
      by (simp add: applyCooldownFields_def)
  next
    case False
    let ?n = "t + windowLength (BackoffLevel q)" and ?l = "min 11 (BackoffLevel q + 1)"
    let ?q = "applyCooldownFields True ''quota'' ?n ?l q"
    from False Cons.prems(1-3) obtain rest where r: "quotaFailures ts ?q = (rest, q')"
      and o: "opened = t # rest"
      by (auto simp: quotaCooldownAfterFailure_closed split: prod.splits)
    have l: "0 \<le> BackoffLevel ?q" "BackoffLevel ?q \<le> 11" "BackoffLevel ?q = ?l" "NextRecoverAt ?q = ?n"
      using Cons.prems(1) by (auto simp: applyCooldownFields_def)
    note ih = Cons.IH [OF l(1,2) r, unfolded l(3,4)]
    have ih1: "BackoffLevel q' = min 11 (?l + int (length rest))"
      and ih2: "\<forall>u \<in> set rest. ?n \<le> u"
      and ih3: "\<forall>i. Suc i < length rest \<longrightarrow>
         rest ! i + windowLength (min 11 (?l + int i)) \<le> rest ! Suc i"
      and ih4: "NextRecoverAt q' = (if rest = [] then ?n
         else List.last rest + windowLength (min 11 (?l + int (length rest - 1))))"
      using ih by auto
    have lvl: "min 11 (?l + int i) = min 11 (BackoffLevel q + int (Suc i))" for i
      using Cons.prems(1) by (simp add: min_def)
    have gaps: "opened ! i + windowLength (min 11 (BackoffLevel q + int i)) \<le> opened ! Suc i"
      if i: "Suc i < length opened" for i
    proof (cases i)
      case 0
      with i o ih2 Cons.prems(2) show ?thesis by (simp add: nth_mem min_absorb2)
    next
      case (Suc j)
      with i o ih3 have "rest ! j + windowLength (min 11 (?l + int j)) \<le> rest ! Suc j" by simp
      with Suc o show ?thesis unfolding lvl by simp
    qed
    have "NextRecoverAt q' = (if opened = [] then NextRecoverAt q
         else List.last opened + windowLength (min 11 (BackoffLevel q + int (length opened - 1))))"
      using ih4 o Cons.prems(2) lvl [of "length rest - 1"] by (cases rest) (auto simp: min_absorb2)
    moreover have "BackoffLevel q' = min 11 (BackoffLevel q + int (length opened))"
      using ih1 o by (simp add: min_def)
    moreover have "\<forall>u \<in> set opened. NextRecoverAt q \<le> u"
      using o ih2 False windowLength_pos [of "BackoffLevel q"] by fastforce
    ultimately show ?thesis using gaps by blast
  qed
qed

section \<open>The aggregation\<close>

text \<open>The least member of a finite set of times, and the zero time for the empty set.\<close>

definition earliest :: "gotime set \<Rightarrow> gotime" where
  "earliest T = (if T = {} then 0 else Min T)"

lemma earliest_insert:
  assumes "finite T" and "0 \<notin> T" and "t \<noteq> 0"
  shows "earliest (insert t T) = (if earliest T = 0 \<or> t < earliest T then t else earliest T)"
proof (cases "T = {}")
  case False
  have "Min T \<in> T" using assms(1) False by (rule Min_in)
  with assms(2) have "Min T \<noteq> 0" by metis
  moreover have "Min (insert t T) = min t (Min T)" using assms(1) False by (rule Min_insert)
  ultimately show ?thesis using False unfolding earliest_def min_def by simp
qed (simp add: earliest_def)

lemma earliest_in: "finite T \<Longrightarrow> T \<noteq> {} \<Longrightarrow> earliest T \<in> T"
  by (simp add: earliest_def)

lemma earliest_le: "finite T \<Longrightarrow> t \<in> T \<Longrightarrow> earliest T \<le> t"
  by (auto simp: earliest_def)

definition retryTimes :: "gotime \<Rightarrow> ModelState set \<Rightarrow> gotime set" where
  "retryTimes now S = {MNextRetryAfter s | s. s \<in> S \<and> MStatus s \<noteq> StatusDisabled \<and> stateUnavailable now s}"

definition recoverTimes :: "ModelState set \<Rightarrow> gotime set" where
  "recoverTimes S = {NextRecoverAt (MQuota s) | s. s \<in> S \<and> Exceeded (MQuota s) \<and> NextRecoverAt (MQuota s) \<noteq> 0}"

definition quotaLevels :: "ModelState set \<Rightarrow> int set" where
  "quotaLevels S = {BackoffLevel (MQuota s) | s. s \<in> S \<and> Exceeded (MQuota s)}"

lemma time_sets_insert:
  "retryTimes now (insert s S) =
     (if MStatus s \<noteq> StatusDisabled \<and> stateUnavailable now s then {MNextRetryAfter s} else {}) \<union> retryTimes now S"
  "recoverTimes (insert s S) =
     (if Exceeded (MQuota s) \<and> NextRecoverAt (MQuota s) \<noteq> 0 then {NextRecoverAt (MQuota s)} else {}) \<union> recoverTimes S"
  "quotaLevels (insert s S) =
     (if Exceeded (MQuota s) then {BackoffLevel (MQuota s)} else {}) \<union> quotaLevels S"
  by (auto simp: retryTimes_def recoverTimes_def quotaLevels_def)

lemma time_sets_empty [simp]: "retryTimes now {} = {}" "recoverTimes {} = {}" "quotaLevels {} = {}"
  by (auto simp: retryTimes_def recoverTimes_def quotaLevels_def)

lemma time_sets_finite [simp]:
  "finite S \<Longrightarrow> finite (retryTimes now S)" "finite S \<Longrightarrow> finite (recoverTimes S)"
  "finite S \<Longrightarrow> finite (quotaLevels S)"
  by (auto simp: retryTimes_def recoverTimes_def quotaLevels_def Collect_conj_eq setcompr_eq_image)

lemma time_sets_nonzero [simp]: "0 \<notin> retryTimes now S" "0 \<notin> recoverTimes S"
  by (auto simp: retryTimes_def recoverTimes_def stateUnavailable_def)

text \<open>What the loop has computed after a list of states.\<close>

definition aggregates :: "gotime \<Rightarrow> ModelState set \<Rightarrow> aggregate" where
  "aggregates now S =
     \<lparr>allUnavailable = (\<forall>s \<in> S. stateUnavailable now s), earliestRetry = earliest (retryTimes now S),
      quotaExceeded = (\<exists>s \<in> S. Exceeded (MQuota s)), quotaRecover = earliest (recoverTimes S),
      maxBackoffLevel = Max (insert 0 (quotaLevels S)), hasState = (S \<noteq> {})\<rparr>"

lemma aggregateStep_aggregates:
  assumes "finite S"
  shows "aggregateStep now s (aggregates now S) = aggregates now (insert s S)"
proof -
  have r: "earliest (retryTimes now (insert s S)) =
      (if MStatus s \<noteq> StatusDisabled \<and> stateUnavailable now s
          \<and> (earliest (retryTimes now S) = 0 \<or> MNextRetryAfter s < earliest (retryTimes now S))
       then MNextRetryAfter s else earliest (retryTimes now S))"
    using assms by (auto simp: time_sets_insert earliest_insert stateUnavailable_def)
  have q: "earliest (recoverTimes (insert s S)) =
      (if Exceeded (MQuota s) \<and> (earliest (recoverTimes S) = 0
          \<or> (NextRecoverAt (MQuota s) \<noteq> 0 \<and> NextRecoverAt (MQuota s) < earliest (recoverTimes S)))
       then NextRecoverAt (MQuota s) else earliest (recoverTimes S))"
    using assms by (auto simp: time_sets_insert earliest_insert)
  have b: "Max (insert 0 (quotaLevels (insert s S))) =
      (if Exceeded (MQuota s) \<and> BackoffLevel (MQuota s) > Max (insert 0 (quotaLevels S))
       then BackoffLevel (MQuota s) else Max (insert 0 (quotaLevels S)))"
  proof (cases "Exceeded (MQuota s)")
    case True
    have "insert 0 (quotaLevels (insert s S)) = insert (BackoffLevel (MQuota s)) (insert 0 (quotaLevels S))"
      using True by (auto simp: time_sets_insert)
    moreover have "Max (insert (BackoffLevel (MQuota s)) (insert 0 (quotaLevels S))) =
        max (BackoffLevel (MQuota s)) (Max (insert 0 (quotaLevels S)))"
      using assms by (intro Max_insert) auto
    ultimately show ?thesis using True by (simp add: max_def)
  qed (simp add: time_sets_insert)
  show ?thesis
    unfolding aggregates_def r q b by (simp add: aggregateStep_def Let_def)
qed

lemma fold_aggregates:
  "finite S \<Longrightarrow> fold (aggregateStep now) ss (aggregates now S) = aggregates now (set ss \<union> S)"
  by (induction ss arbitrary: S) (simp_all add: aggregateStep_aggregates)

lemma aggregate_loop: "fold (aggregateStep now) ss emptyAggregate = aggregates now (set ss)"
  using fold_aggregates [of "{}" now ss]
  by (simp add: emptyAggregate_def aggregates_def earliest_def)

lemma liveStates_Nil_iff: "liveStates a = [] \<longleftrightarrow> (\<forall>s \<in> snd ` set (ModelStates a). s = None)"
  by (auto simp: liveStates_def map_filter_def filter_empty_conv)

lemma set_liveStates: "set (liveStates a) = {s. Some s \<in> snd ` set (ModelStates a)}"
  by (force simp: liveStates_def map_filter_def)

lemma updateAggregated_eq:
  assumes "\<not> hasUnauthorizedAuthFailure (Some a)" and "\<not> credentialQuotaActive a now" and "liveStates a \<noteq> []"
  shows "updateAggregatedAvailability now a =
    (let g = aggregates now (set (liveStates a))
     in a\<lparr>ModelStates := map (map_prod id (map_option (expireState now))) (ModelStates a),
          Unavailable := allUnavailable g, NextRetryAfter := (if allUnavailable g then earliestRetry g else 0),
          Quota := aggregateQuota g now (Quota a)\<rparr>)"
proof -
  have "ModelStates a \<noteq> []" using assms(3) by (auto simp: liveStates_def)
  moreover have "hasState (aggregates now (set (liveStates a)))"
    using assms(3) by (simp add: aggregates_def)
  ultimately show ?thesis
    using assms(1,2) by (simp add: updateAggregatedAvailability_def aggregate_loop Let_def)
qed

text \<open>The aggregation touches neither identity nor last error, and states only by expiring them.\<close>

lemma updateAggregated_frame [simp]:
  "ID (updateAggregatedAvailability now a) = ID a"
  "Status (updateAggregatedAvailability now a) = Status a"
  "Disabled (updateAggregatedAvailability now a) = Disabled a"
  "LastError (updateAggregatedAvailability now a) = LastError a"
  "NextRefreshAfter (updateAggregatedAvailability now a) = NextRefreshAfter a"
  "Metadata (updateAggregatedAvailability now a) = Metadata a"
  "Attributes (updateAggregatedAvailability now a) = Attributes a"
  "Provider (updateAggregatedAvailability now a) = Provider a"
  by (auto simp: updateAggregatedAvailability_def clearAggregatedAvailability_def Let_def)

lemma updateAggregated_states:
  "ModelStates (updateAggregatedAvailability now a) = ModelStates a
   \<or> ModelStates (updateAggregatedAvailability now a) =
       map (map_prod id (map_option (expireState now))) (ModelStates a)"
  by (auto simp: updateAggregatedAvailability_def clearAggregatedAvailability_def Let_def)

lemma map_of_map_prod:
  "map_of (map (map_prod id f) ss) k = map_option f (map_of ss k)"
  by (induction ss) auto

lemma updateAggregated_lookup:
  "map_of (ModelStates (updateAggregatedAvailability now a)) k = map_of (ModelStates a) k
   \<or> map_of (ModelStates (updateAggregatedAvailability now a)) k =
       map_option (map_option (expireState now)) (map_of (ModelStates a) k)"
  using updateAggregated_states [of now a] by (auto simp: map_of_map_prod)

lemma expireState_live [simp]: "now < MNextRetryAfter s \<Longrightarrow> expireState now s = s"
  by (simp add: expireState_def)

lemma stateUnavailable_blocks:
  "0 \<le> now \<Longrightarrow> stateUnavailable now s \<Longrightarrow> state_blocks now (expireState now s)"
  by (auto simp: stateUnavailable_def state_blocks_def expireState_def stateBlock_def
      availabilityBlock_blocked split: if_splits)

end
