(* ===== verification/CooldownProperties.thy ===== *)
theory CooldownProperties
  imports CooldownProofs
begin

text \<open>
  Two promises of the cooldown code: how long and how steeply quota failures back off, and what the
  credential-wide fields say about the models they are computed from.
\<close>

section \<open>Backoff\<close>

text \<open>
  Claim C25. Quota failures without a retry hint climb the backoff ladder at most one level per
  window.  For any sequence of failure times, starting at any level of the ladder: the final level
  is the start plus the number of windows opened, capped at 11; no two windows overlap, the window
  opened at level l lasts min (2^l, 60) seconds, and the quota recovers when the last one closes.
  At any level at all, also one whose shift or product leaves the 64 bits, a failure sets a
  deadline in the future and opens a window of at most a minute.
\<close>

theorem quota_backoff_ladder:
  assumes "0 \<le> BackoffLevel q" and "BackoffLevel q \<le> 11" and "quotaFailures ts q = (opened, q')"
  shows "BackoffLevel q' = min 11 (BackoffLevel q + int (length opened))
    \<and> (\<forall>i. Suc i < length opened \<longrightarrow>
         opened ! i + min (2 ^ nat (min 11 (BackoffLevel q + int i))) 60 * Second \<le> opened ! Suc i)
    \<and> NextRecoverAt q' = (if opened = [] then NextRecoverAt q else List.last opened
         + min (2 ^ nat (min 11 (BackoffLevel q + int (length opened - 1)))) 60 * Second)
    \<and> (\<forall>r now. now < fst (quotaCooldownAfterFailure r now)
         \<and> (NextRecoverAt r \<le> now \<longrightarrow> fst (quotaCooldownAfterFailure r now) \<le> now + Minute))"
  using quotaFailures_ladder [OF assms] quotaCooldownAfterFailure_bounds
  unfolding windowLength_def by blast

theorem quota_backoff_ladder_witness:
  "BackoffLevel (snd (quotaFailures [1, 5, 3 * Second] emptyQuota)) = 2
   \<and> NextRecoverAt (snd (quotaFailures [1, 5, 3 * Second] emptyQuota)) = 5 * Second"
proof -
  have h: "0 \<le> BackoffLevel emptyQuota" "BackoffLevel emptyQuota \<le> 11" by code_simp+
  have o: "fst (quotaFailures [1, 5, 3 * Second] emptyQuota) = [1, 3 * Second]" by code_simp
  have p: "quotaFailures [1, 5, 3 * Second] emptyQuota =
      (fst (quotaFailures [1, 5, 3 * Second] emptyQuota), snd (quotaFailures [1, 5, 3 * Second] emptyQuota))"
    by simp
  show ?thesis
    using quota_backoff_ladder [OF h p] unfolding o by (simp add: emptyQuota_def)
qed

section \<open>Aggregation\<close>

lemma aggregated_blocks:
  assumes "0 \<le> now" and "stateUnavailable now s" and "(k, Some s) \<in> set (ModelStates a)"
    and "canonicalModelKey k \<noteq> []" and "ModelStates b = map (map_prod id (map_option (expireState now))) (ModelStates a)"
  shows "blocked (isAuthBlockedForModel accessExp (Some b) k now)"
proof -
  have "k \<noteq> []" using assms(4) by (auto simp: canonicalModelKey_def)
  have "(k, Some (expireState now s)) \<in> set (ModelStates b)"
    using assms(3,5) by force
  then have "expireState now s \<in> set (matching (canonicalModelKey k) (ModelStates b))" "ModelStates b \<noteq> []"
    by (force simp: matching_def)+
  with stateUnavailable_blocks [OF assms(1,2)] \<open>k \<noteq> []\<close> have "blocked (modelBlock b k now)"
    by (auto simp: modelBlock_def stateLoop_blocked_iff)
  then show ?thesis by (simp add: isAuthBlockedForModel_Some)
qed


definition wTwoModels :: Auth where
  "wTwoModels = emptyAuth\<lparr>ID := ''a'', Status := StatusError, ModelStates :=
     [(''m'', Some (emptyModelState\<lparr>MStatus := StatusError, MUnavailable := True, MNextRetryAfter := 90\<rparr>)),
      (''n'', Some (emptyModelState\<lparr>MStatus := StatusError, MUnavailable := True, MNextRetryAfter := 50\<rparr>))]\<rparr>"


end
