(* ===== verification/CooldownView.thy ===== *)
theory CooldownView
  imports Cooldown
begin

text \<open>
  The cooldowns shown to operators (\<open>src/sdk/cliproxy/auth/cooldown_view.go\<close>): a list of the retry
  restrictions of a credential that have not expired, with public reason codes.  The theorem ties
  the list to the verdict the selectors use.  \<open>RetryAt\<close> in UTC is the same instant.
\<close>

section \<open>Views\<close>

record CooldownView =
  vScope :: string
  vModelKey :: string
  vReason :: string
  vRetryAt :: gotime
  vRemainingSeconds :: int
  vBackoffLevel :: "int option"
  vHTTPStatus :: int

definition cooldownStatusReason :: "string \<Rightarrow> string" where
  "cooldownStatusReason message =
     (let marker = TrimSpace message
      in if marker \<in> {''quota'', ''quota exhausted''} then ''quota''
         else if marker = ''cloudflare challenge'' then ''cloudflare_challenge''
         else if marker \<in> {''invalid_grant'', ''unauthorized'', ''payment_required'', ''not_found''} then marker
         else if marker = ''model_not_supported'' then ''model_not_supported''
         else if marker = ''transient upstream error'' then ''transient_error''
         else if marker = ErrorCodeTransientRateLimit then ''transient_rate_limit''
         else ''unknown'')"

definition cooldownErrorReason :: "'r errorEnv \<Rightarrow> Error option \<Rightarrow> string" where
  "cooldownErrorReason env err =
     (if isModelSupportResultError env err then ''model_not_supported''
      else if isCloudflareChallengeResultError err then ''cloudflare_challenge''
      else if isInvalidGrantResultError err then ''invalid_grant''
      else if isCreditBalanceTooLowResultError env err then ''payment_required''
      else if isTransientRateLimitResultError err then ''transient_rate_limit''
      else
        (let status = statusCodeFromResult err
         in if status = 401 then ''unauthorized''
            else if status = 402 \<or> status = 403 then ''payment_required''
            else if status = 404 then ''not_found''
            else if status = 429 then ''quota''
            else if status \<in> set transientStatuses then ''transient_error''
            else case err of None \<Rightarrow> ''unknown'' | Some e \<Rightarrow> cooldownStatusReason (Code e)))"

definition ceilSeconds :: "duration \<Rightarrow> int" where
  "ceilSeconds remaining =
     (let seconds = go_div remaining Second
      in if remaining - seconds * Second \<noteq> 0 then seconds + 1 else seconds)"

text \<open>A shorter quota window must not label a longer retry timer.\<close>

definition quotaReason :: "gotime \<Rightarrow> QuotaState \<Rightarrow> string" where
  "quotaReason next q =
     (if Exceeded q \<and> (IsZero (NextRecoverAt q) \<or> \<not> Before (NextRecoverAt q) next) then
        (if Reason q \<in> {''credential_quota'', ''quota''} then Reason q
         else if Reason q = ''cloudflare challenge'' then ''cloudflare_challenge''
         else ''unknown'')
      else ''unknown'')"

definition newCooldownView ::
  "'r errorEnv \<Rightarrow> string \<Rightarrow> string \<Rightarrow> gotime \<Rightarrow> gotime \<Rightarrow> QuotaState \<Rightarrow> string \<Rightarrow> Error option \<Rightarrow> CooldownView" where
  "newCooldownView env scope model next now q statusMessage lastErr =
     (let reason = quotaReason next q;
          view = \<lparr>vScope = scope, vModelKey = model, vReason = reason, vRetryAt = next,
                  vRemainingSeconds = ceilSeconds (time_Sub next now), vBackoffLevel = None, vHTTPStatus = 0\<rparr>;
          propagatedQuota = (Exceeded q \<and> Reason q = ''credential_quota'')
      in if reason = ''credential_quota'' then view
         else
           (let view = (if (reason = ''quota'' \<or> reason = ''cloudflare_challenge'') \<and> BackoffLevel q \<ge> 0
                        then view\<lparr>vBackoffLevel := Some (BackoffLevel q)\<rparr> else view);
                errorReason = cooldownErrorReason env lastErr;
                view = (if vReason view = ''unknown'' then view\<lparr>vReason := errorReason\<rparr> else view);
                view = (if vReason view = ''unknown'' then view\<lparr>vReason := cooldownStatusReason statusMessage\<rparr> else view)
            in case lastErr of
                 None \<Rightarrow> view
               | Some e \<Rightarrow>
                   if \<not> propagatedQuota \<and> HTTPStatus e \<ge> 400 \<and> HTTPStatus e \<le> 599 \<and> errorReason = vReason view
                   then view\<lparr>vHTTPStatus := HTTPStatus e\<rparr> else view))"

definition credentialViews :: "'r errorEnv \<Rightarrow> Auth \<Rightarrow> gotime \<Rightarrow> CooldownView list" where
  "credentialViews env a now =
     (let view = (\<lambda>next. newCooldownView env ''credential'' [] next now (Quota a) (StatusMessage a) (LastError a))
      in if credentialQuotaActive a now then [view (NextRecoverAt (Quota a))]
         else if ModelStates a = [] then
           (let b = availabilityBlock (Unavailable a) (Exceeded (Quota a)) (NextRetryAfter a) (NextRecoverAt (Quota a)) now
            in if blocked b \<and> After (next_at b) now then [view (next_at b)] else [])
         else [])"

text \<open>The loop over the sorted keys; per model the latest deadline wins, at a tie a quota cooldown.\<close>

definition viewStep ::
  "'r errorEnv \<Rightarrow> Auth \<Rightarrow> gotime \<Rightarrow> string \<Rightarrow> (string, CooldownView \<times> blockReason) gomap
   \<Rightarrow> (string, CooldownView \<times> blockReason) gomap" where
  "viewStep env a now key byModel =
     (case map_of (ModelStates a) key of
        Some (Some state) \<Rightarrow>
          (let model = canonicalModelKey key; b = stateBlock state now;
               kept = (case map_of byModel model of
                         None \<Rightarrow> False
                       | Some (previous, previousReason) \<Rightarrow>
                           \<not> After (next_at b) (vRetryAt previous)
                           \<and> \<not> (next_at b = vRetryAt previous \<and> reason b = blockReasonCooldown
                                \<and> previousReason \<noteq> blockReasonCooldown))
           in if model = [] \<or> \<not> blocked b \<or> \<not> After (next_at b) now \<or> kept then byModel
              else AList.update model
                (newCooldownView env ''model'' model (next_at b) now (MQuota state) (MStatusMessage state) (MLastError state),
                 reason b) byModel)
      | _ \<Rightarrow> byModel)"

definition CooldownSnapshotForAuth :: "'r errorEnv \<Rightarrow> Auth option \<Rightarrow> gotime \<Rightarrow> CooldownView list" where
  "CooldownSnapshotForAuth env auth now =
     (case auth of
        None \<Rightarrow> []
      | Some a \<Rightarrow>
          (let byModel = fold (viewStep env a now) (sort (map fst (ModelStates a))) []
           in credentialViews env a now @ map (\<lambda>m. fst (the (map_of byModel m))) (sort (map fst byModel))))"

section \<open>What the views say\<close>

lemma newCooldownView_simps [simp]:
  "vScope (newCooldownView env sc m n now q msg e) = sc" "vModelKey (newCooldownView env sc m n now q msg e) = m"
  "vRetryAt (newCooldownView env sc m n now q msg e) = n"
  by (auto simp: newCooldownView_def Let_def split: option.splits)

definition viewTimes :: "Auth \<Rightarrow> gotime \<Rightarrow> string \<Rightarrow> string set \<Rightarrow> gotime set" where
  "viewTimes a now m ks = {next_at (stateBlock s now) | k s. k \<in> ks \<and> canonicalModelKey k = m
     \<and> map_of (ModelStates a) k = Some (Some s) \<and> blocked (stateBlock s now) \<and> now < next_at (stateBlock s now)}"

text \<open>For each model: no view exactly if it has no deadline, else one view with the latest.\<close>

definition views_ok :: "Auth \<Rightarrow> gotime \<Rightarrow> string set \<Rightarrow> (string, CooldownView \<times> blockReason) gomap \<Rightarrow> bool" where
  "views_ok a now ks vs \<longleftrightarrow> (\<forall>m. case map_of vs m of
        None \<Rightarrow> m \<noteq> [] \<longrightarrow> viewTimes a now m ks = {}
      | Some (v, r) \<Rightarrow> m \<noteq> [] \<and> vScope v = ''model'' \<and> vModelKey v = m \<and> is_latest (vRetryAt v) (viewTimes a now m ks))"

lemma viewTimes_insert:
  "viewTimes a now m (insert k ks) = (case map_of (ModelStates a) k of
      Some (Some s) \<Rightarrow> if canonicalModelKey k = m \<and> blocked (stateBlock s now) \<and> now < next_at (stateBlock s now)
        then insert (next_at (stateBlock s now)) (viewTimes a now m ks) else viewTimes a now m ks
    | _ \<Rightarrow> viewTimes a now m ks)"
  by (auto simp: viewTimes_def split: option.splits)

lemma viewStep_ok:
  assumes ok: "views_ok a now ks vs"
  shows "views_ok a now (insert k ks) (viewStep env a now k vs)"
  unfolding views_ok_def
proof
  fix m
  have o: "case map_of vs m of
        None \<Rightarrow> m \<noteq> [] \<longrightarrow> viewTimes a now m ks = {}
      | Some (v, r) \<Rightarrow> m \<noteq> [] \<and> vScope v = ''model'' \<and> vModelKey v = m \<and> is_latest (vRetryAt v) (viewTimes a now m ks)"
    using ok by (simp add: views_ok_def)
  show "case map_of (viewStep env a now k vs) m of
        None \<Rightarrow> m \<noteq> [] \<longrightarrow> viewTimes a now m (insert k ks) = {}
      | Some (v, r) \<Rightarrow> m \<noteq> [] \<and> vScope v = ''model'' \<and> vModelKey v = m
          \<and> is_latest (vRetryAt v) (viewTimes a now m (insert k ks))"
  proof (cases "\<exists>s. map_of (ModelStates a) k = Some (Some s)")
    case False
    then show ?thesis using o by (auto simp: viewStep_def viewTimes_insert split: option.splits)
  next
    case True
    then obtain s where s: "map_of (ModelStates a) k = Some (Some s)" by blast
    show ?thesis
    proof (cases "canonicalModelKey k = m \<and> m \<noteq> [] \<and> blocked (stateBlock s now) \<and> now < next_at (stateBlock s now)")
      case False
      then have "map_of (viewStep env a now k vs) m = map_of vs m"
        using s by (cases "canonicalModelKey k = m") (auto simp: viewStep_def update_conv' Let_def)
      moreover have "m \<noteq> [] \<Longrightarrow> viewTimes a now m (insert k ks) = viewTimes a now m ks"
        using False s by (auto simp: viewTimes_insert)
      ultimately show ?thesis using o by (auto split: option.splits)
    next
      case True
      then show ?thesis
        using o s by (auto simp: viewStep_def viewTimes_insert update_conv' is_latest_def Let_def
            split: option.splits if_splits)
    qed
  qed
qed

lemma viewFold_ok: "views_ok a now ks vs \<Longrightarrow> views_ok a now (ks \<union> set keys) (fold (viewStep env a now) keys vs)"
proof (induction keys arbitrary: ks vs)
  case (Cons k keys)
  from Cons.IH [OF viewStep_ok [OF Cons.prems]] show ?case by simp
qed simp

lemma views_ok_Nil: "views_ok a now {} []"
  by (simp add: views_ok_def viewTimes_def)

lemma is_latest_unique: "is_latest x T \<Longrightarrow> is_latest y T \<Longrightarrow> x = y"
  by (force simp: is_latest_def intro: antisym)

lemma viewTimes_deadlines:
  assumes "distinct (map fst (ModelStates a))" and "0 \<le> now"
    and "\<forall>s \<in> set (matching m (ModelStates a)). \<not> state_forever now s"
  shows "viewTimes a now m (fst ` set (ModelStates a)) = deadlines now (matching m (ModelStates a))"
proof -
  have lookup: "(k, Some s) \<in> set (ModelStates a) \<longleftrightarrow> map_of (ModelStates a) k = Some (Some s)" for k s
    using assms(1) by simp
  have mem: "s \<in> set (matching m (ModelStates a)) \<longleftrightarrow>
      (\<exists>k. canonicalModelKey k = m \<and> map_of (ModelStates a) k = Some (Some s))" for s
    unfolding lookup [symmetric] by (auto simp: matching_def intro!: image_eqI [where x = "(k, Some s)" for k])
  have late: "now < next_at (stateBlock s now)" if "s \<in> set (matching m (ModelStates a))" "blocked (stateBlock s now)" for s
    using that assms(3) stateBlock_times(4) [OF assms(2) that(2)] by (auto simp: state_forever_def)
  have key: "k \<in> fst ` set (ModelStates a)" if "map_of (ModelStates a) k = Some v" for k v
    using map_of_SomeD [OF that] by force
  have "x \<in> viewTimes a now m (fst ` set (ModelStates a)) \<longleftrightarrow>
      (\<exists>s. s \<in> set (matching m (ModelStates a)) \<and> blocked (stateBlock s now) \<and> x = next_at (stateBlock s now))" for x
    unfolding viewTimes_def mem using late [unfolded mem] key by fast
  then show ?thesis by (auto simp: deadlines_def)
qed

definition covers :: "string \<Rightarrow> CooldownView \<Rightarrow> bool" where
  "covers m v \<longleftrightarrow> vScope v = ''credential'' \<or> vModelKey v = m"

lemma find_model_view:
  assumes "views_ok a now ks vs" and "m \<noteq> []"
  shows "List.find (covers m) (map (\<lambda>m. fst (the (map_of vs m))) (sort (map fst vs))) = map_option fst (map_of vs m)"
proof -
  have ok: "vScope v = ''model'' \<and> vModelKey v = k" if "map_of vs k = Some (v, r)" for k v r
    using assms(1) that unfolding views_ok_def by (drule_tac x = k in spec) auto
  have f: "List.find (covers m) (map (\<lambda>m. fst (the (map_of vs m))) ks') = (if m \<in> set ks' then map_option fst (map_of vs m) else None)"
    if "set ks' \<subseteq> fst ` set vs" for ks'
    using that
  proof (induction ks')
    case (Cons k ks')
    then obtain v r where v: "map_of vs k = Some (v, r)"
      by (metis (no_types, lifting) insert_subset list.simps(15) map_of_eq_None_iff not_None_eq surj_pair)
    with ok [OF v] Cons show ?case by (auto simp: covers_def)
  qed simp
  show ?thesis unfolding f [of "sort (map fst vs)", simplified] by (auto simp: map_of_eq_None_iff)
qed

lemma find_append_views: "List.find P (xs @ ys) = (case List.find P xs of None \<Rightarrow> List.find P ys | Some x \<Rightarrow> Some x)"
  by (induction xs) auto

text \<open>The views of the models against the loop of the verdict.\<close>

lemma model_view_exact:
  fixes env :: "'r errorEnv"
  assumes "distinct (map fst (ModelStates a))" and "0 \<le> now" and "m \<noteq> []"
    and "\<forall>s \<in> set (matching m (ModelStates a)). \<not> state_forever now s"
  defines "vs \<equiv> fold (viewStep env a now) (sort (map fst (ModelStates a))) []"
    and "b \<equiv> stateLoop m now (ModelStates a) False notBlocked"
  shows "map_option (vRetryAt \<circ> fst) (map_of vs m) = (if blocked b then Some (next_at b) else None)"
proof -
  have "views_ok a now (fst ` set (ModelStates a)) vs"
    using viewFold_ok [OF views_ok_Nil, of a now "sort (map fst (ModelStates a))" env] by (simp add: vs_def)
  then have ok: "case map_of vs m of
        None \<Rightarrow> deadlines now (matching m (ModelStates a)) = {}
      | Some (v, r) \<Rightarrow> is_latest (vRetryAt v) (deadlines now (matching m (ModelStates a)))"
    using assms(3) viewTimes_deadlines [OF assms(1,2,4)] unfolding views_ok_def
    by (drule_tac x = m in spec) (auto split: option.splits)
  have blk: "blocked b \<longleftrightarrow> deadlines now (matching m (ModelStates a)) \<noteq> {}"
    using assms(4) by (auto simp: b_def stateLoop_blocked_iff state_blocks_def state_forever_def deadlines_def)
  have "is_latest (next_at b) (deadlines now (matching m (ModelStates a)))" if "blocked b"
    using stateLoop_next [OF assms(4), of notBlocked False] that by (simp add: b_def acc_deadlines_def notBlocked_def)
  with ok blk show ?thesis
    by (auto simp: is_latest_def split: option.splits prod.splits intro: antisym)
qed


definition wShown :: Auth where
  "wShown = emptyAuth\<lparr>ID := ''a'', Status := StatusActive, ModelStates :=
     [(''m'', Some (emptyModelState\<lparr>MStatus := StatusError, MUnavailable := True, MNextRetryAfter := 900\<rparr>)),
      (''m(high)'', Some (emptyModelState\<lparr>MStatus := StatusError, MUnavailable := True, MNextRetryAfter := 1200\<rparr>)),
      (''n'', Some (emptyModelState\<lparr>MStatus := StatusActive\<rparr>))]\<rparr>"


end
