(* ===== verification/MarkResult.thy ===== *)
theory MarkResult
  imports Cooldown RecentRequests
begin

text \<open>
  \<open>Manager.MarkResult\<close> of \<open>src/sdk/cliproxy/auth/conductor_cooldown.go\<close>: what a finished execution
  does to the credential it ran on.  The critical section of the source is one function per part:
  staleness, the model key, the success transition, the failure transition with its two layers
  (a credential-wide quota wrapped around each model's own cooldown), and the closing steps.

  \<^item> The second reading of the clock inside the critical section is the argument \<open>now\<close>; the stale
    path, which uses the first reading, gets the same argument.
  \<^item> \<open>codexClient\<close> says whether the request came from a Codex client (read from its headers);
    \<open>signals\<close> is what \<open>collectQuotaSignals\<close> returns for the provider and the response headers.
  \<^item> Hooks, events and persistence run after the state
    change and are left out; the snapshot handed to the scheduler is part of the result.  Its
    projection into the model registry is in \<open>RegistryProjection\<close>.
\<close>

section \<open>Results\<close>

record Result =
  rAuthID :: string
  rProvider :: string
  rModel :: string
  rRouteModel :: string
  rSuccess :: bool
  rCompletedResponse :: bool
  rRetryAfter :: "duration option"
  rCredentialScope :: bool
  rError :: "Error option"
  rSkipQuotaObservation :: bool
  rAccessToken :: string
  rCredentialVersion :: nat
  rRegistrationEpoch :: nat
  rExecutionSeq :: nat
  codexClient :: bool
  signals :: "(string, string) gomap"

section \<open>Tokens\<close>

definition authMetadataString :: "Auth \<Rightarrow> string \<Rightarrow> string" where
  "authMetadataString a key = (case map_of (Metadata a) key of Some (AString value) \<Rightarrow> TrimSpace value | _ \<Rightarrow> [])"

definition authOuterAccessToken :: "Auth \<Rightarrow> string" where
  "authOuterAccessToken a =
     (let token = authMetadataString a ''access_token''
      in if token \<noteq> [] then token else authMetadataString a ''accessToken'')"

definition IsCodexUseSIWC :: "Auth \<Rightarrow> bool" where
  "IsCodexUseSIWC a =
     (let raw = TrimSpace (str_get (Attributes a) ''use_siwc'');
          enabled = (raw \<noteq> [] \<and> parseBoolAny (AString raw) = Some True)
      in enabled \<or> Option.bind (map_of (Metadata a) ''use_siwc'') parseBoolAny = Some True)"

definition authAccessToken :: "'r cooldownEnv \<Rightarrow> Auth \<Rightarrow> string" where
  "authAccessToken env a = (if IsCodexUseSIWC a then siwcAccessToken env a else authOuterAccessToken a)"

definition authAccessTokenForRequest :: "'r cooldownEnv \<Rightarrow> bool \<Rightarrow> Auth \<Rightarrow> string" where
  "authAccessTokenForRequest env isCodexClient a =
     (if IsCodexUseSIWC a \<and> \<not> isCodexClient then siwcAccessToken env a else authOuterAccessToken a)"

definition authMatchesTokenPartition :: "'r cooldownEnv \<Rightarrow> Auth \<Rightarrow> string \<Rightarrow> bool" where
  "authMatchesTokenPartition env a token =
     (let token = TrimSpace token
      in token \<noteq> [] \<and> (authAccessToken env a = token \<or> authOuterAccessToken a = token))"

definition recordRejectedTokenOnAuth :: "'r cooldownEnv \<Rightarrow> string \<Rightarrow> Auth \<Rightarrow> Auth \<times> bool" where
  "recordRejectedTokenOnAuth env failedToken a =
     (let failedToken = TrimSpace failedToken
      in if failedToken = [] then (a, False)
         else
           (let siwcTok = siwcAccessToken env a;
                siwcHit = (siwcTok \<noteq> [] \<and> siwcTok = failedToken \<and> RejectedSIWCAccessToken a \<noteq> failedToken);
                a = (if siwcHit then a\<lparr>RejectedSIWCAccessToken := failedToken\<rparr> else a);
                hit = ((authAccessToken env a = failedToken \<or> authOuterAccessToken a = failedToken)
                       \<and> RejectedAccessToken a \<noteq> failedToken);
                a = (if hit then a\<lparr>RejectedAccessToken := failedToken\<rparr> else a)
            in (a, siwcHit \<or> hit)))"

definition authHasRefreshCredential :: "'r cooldownEnv \<Rightarrow> gotime \<Rightarrow> Auth \<Rightarrow> bool" where
  "authHasRefreshCredential env now a \<longleftrightarrow>
     authMetadataString a ''refresh_token'' \<noteq> [] \<or> authMetadataString a ''refreshToken'' \<noteq> []
     \<or> siwcHasRefresh env a now
     \<or> (EqualFold (TrimSpace (Provider a)) ''meta''
        \<and> (authMetadataString a ''dca_token'' \<noteq> [] \<or> TrimSpace (str_get (Attributes a) ''dca_token'') \<noteq> []))"

section \<open>Staleness and keys\<close>

definition isStaleExecutionResult :: "'r cooldownEnv \<Rightarrow> Result \<Rightarrow> Auth \<Rightarrow> bool" where
  "isStaleExecutionResult env result current =
     (if rRegistrationEpoch result > 0 \<and> rRegistrationEpoch result < RegistrationEpoch current then True
      else if rAccessToken result \<noteq> [] \<and> authMatchesTokenPartition env current (rAccessToken result) then False
      else rCredentialVersion result < CredentialVersion current
           \<and> (rCredentialVersion result > 0 \<or> CredentialVersion current > 1))"

definition rejectsToken :: "'r cooldownEnv \<Rightarrow> Result \<Rightarrow> bool" where
  "rejectsToken env result \<longleftrightarrow>
     \<not> rSuccess result \<and> \<not> forced (rError result)
     \<and> \<not> shouldSkipCredentialCooldown (jsonOf env) (rError result)
     \<and> (statusCodeFromResult (rError result) = 401 \<or> isUnauthorizedError (rError result))"

definition resultModelKey :: "'r cooldownEnv \<Rightarrow> Result \<Rightarrow> Auth \<Rightarrow> string" where
  "resultModelKey env result a =
     (let modelKey = canonicalModelKey (rModel result)
      in if modelKey = [] \<and> TrimSpace (rRouteModel result) \<noteq> [] then
           (let modelKey = canonicalModelKey (selectionModelForAuth env a (rRouteModel result))
            in if modelKey = [] then canonicalModelKey (rRouteModel result) else modelKey)
         else modelKey)"

definition staleResult :: "'r cooldownEnv \<Rightarrow> Result \<Rightarrow> gotime \<Rightarrow> Auth \<Rightarrow> Auth" where
  "staleResult env result now a =
     (let staleEpoch = (rRegistrationEpoch result > 0 \<and> rRegistrationEpoch result < RegistrationEpoch a)
      in if \<not> staleEpoch \<and> rejectsToken env result \<and> rAccessToken result \<noteq> [] then
           (case recordRejectedTokenOnAuth env (rAccessToken result) a of
              (a, changed) \<Rightarrow>
                if changed then a\<lparr>Generation := wrapU64 (Generation a + 1), UpdatedAt := now\<rparr> else a)
         else a)"

section \<open>Success\<close>

definition retainModelCooldown :: "Result \<Rightarrow> string \<Rightarrow> bool \<Rightarrow> gotime \<Rightarrow> Auth \<Rightarrow> bool" where
  "retainModelCooldown result modelKey wasTerminalUnauthorized now a \<longleftrightarrow>
     modelKey \<noteq> [] \<and> \<not> wasTerminalUnauthorized \<and> rExecutionSeq result > 0
     \<and> (case existingModelState a modelKey of
          None \<Rightarrow> False
        | Some existing \<Rightarrow>
            isModelStateActiveCooldown (Some existing) now \<and> McooldownRecordedSeq existing > 0
            \<and> rExecutionSeq result \<le> McooldownRecordedSeq existing)"

definition retainAuthCooldown :: "Result \<Rightarrow> string \<Rightarrow> bool \<Rightarrow> gotime \<Rightarrow> Auth \<Rightarrow> bool" where
  "retainAuthCooldown result modelKey wasTerminalUnauthorized now a \<longleftrightarrow>
     modelKey = [] \<and> \<not> wasTerminalUnauthorized \<and> rExecutionSeq result > 0
     \<and> isAuthActiveCooldown (Some a) now \<and> cooldownRecordedSeq a > 0
     \<and> rExecutionSeq result \<le> cooldownRecordedSeq a"

definition credentialQuotaOpen :: "Auth \<Rightarrow> gotime \<Rightarrow> bool" where
  "credentialQuotaOpen a now \<longleftrightarrow>
     Reason (Quota a) = ''credential_quota'' \<and> After (NextRecoverAt (Quota a)) now"

definition modelSuccess :: "gotime \<Rightarrow> Auth \<Rightarrow> string \<Rightarrow> Auth" where
  "modelSuccess now a key =
     (let state = stateAt a key
      in if hasActiveUsageLimitBlock state now then updateAggregatedAvailability now a
         else
           (let a = updateAggregatedAvailability now (putState key (resetModelState now state) a)
            in if hasModelError a now then a
               else a\<lparr>LastError := None, StatusMessage := [], Status := StatusActive\<rparr>))"

text \<open>Besides the credential: the key of the model state that later receives the quota signals.\<close>

definition successTransition ::
  "Result \<Rightarrow> string \<Rightarrow> bool \<Rightarrow> gotime \<Rightarrow> Auth \<Rightarrow> Auth \<times> string option" where
  "successTransition result modelKey wasTerminalUnauthorized now a =
     (let retained = (retainModelCooldown result modelKey wasTerminalUnauthorized now a
                      \<or> retainAuthCooldown result modelKey wasTerminalUnauthorized now a);
          current = map_option (\<lambda>_. canonicalModelKey modelKey) (existingModelState a modelKey);
          a = (if rCompletedResponse result \<and> \<not> rSkipQuotaObservation result \<and> \<not> wasTerminalUnauthorized
                  \<and> \<not> credentialQuotaOpen a now \<and> \<not> retained
               then a\<lparr>InferenceVerified := True, LastInferenceVerifiedAt := now\<rparr> else a)
      in if wasTerminalUnauthorized then
           (if modelKey = [] then (a, current)
            else case ensureModelState a modelKey of
                   None \<Rightarrow> (a, current)
                 | Some (a, key) \<Rightarrow> (putState key (resetModelState now (stateAt a key)) a, Some key))
         else if credentialQuotaOpen a now then (a, current)
         else if retained then (a, current)
         else if modelKey \<noteq> [] then
           (case ensureModelState a modelKey of
              None \<Rightarrow> (a, current)
            | Some (a, key) \<Rightarrow> (modelSuccess now a key, Some key))
         else (clearAuthStateOnSuccess now a, current))"

section \<open>Failure of a model\<close>

definition normalizeExpiredWrap :: "Auth \<Rightarrow> gotime \<Rightarrow> ModelState \<Rightarrow> ModelState" where
  "normalizeExpiredWrap a now state =
     (if (credentialQuotaPropagated state \<or> Reason (MQuota state) = ''credential_quota'')
         \<and> \<not> credentialQuotaActive a now
      then (case credentialQuotaShadow state of
              Some shadow \<Rightarrow>
                if isModelStateActiveCooldown (Some shadow) now then withoutShadow shadow
                else resetModelState now state
            | None \<Rightarrow> resetModelState now state)
      else state)"

definition ownLayer :: "ModelState \<Rightarrow> ModelState" where
  "ownLayer state =
     (case credentialQuotaShadow state of Some shadow \<Rightarrow> withoutShadow shadow | None \<Rightarrow> emptyModelState)"

datatype failureKind =
    FailModelSupport
  | FailCloudflare
  | FailGrantOrCredit
  | FailTransientRate
  | FailStatus int

definition failureKindOf :: "'r cooldownEnv \<Rightarrow> Error option \<Rightarrow> failureKind" where
  "failureKindOf env err =
     (if isModelSupportResultError (jsonOf env) err then FailModelSupport
      else if isCloudflareChallengeResultError err then FailCloudflare
      else if isInvalidGrantResultError err \<or> isCreditBalanceTooLowResultError (jsonOf env) err
           then FailGrantOrCredit
      else if isTransientRateLimitResultError err \<and> statusCodeFromResult err = 429 then FailTransientRate
      else FailStatus (statusCodeFromResult err))"

definition isDevinQuotaExhaustionMessage :: "string \<Rightarrow> bool" where
  "isDevinQuotaExhaustionMessage text =
     (let lower = ToLower text
      in if \<not> Contains lower ''quota'' \<or> \<not> Contains lower ''exhausted'' then False
         else Contains lower ''weekly'' \<or> Contains lower ''daily'')"

definition devinStateErrorText :: "('a ModelStateBase_scheme) \<Rightarrow> string" where
  "devinStateErrorText state =
     (case MLastError state of
        Some e \<Rightarrow> if TrimSpace (Message e) \<noteq> [] then Message e else MStatusMessage state
      | None \<Rightarrow> MStatusMessage state)"

text \<open>
  The 429 branch: the model's deadline, the credential's deadline and the backoff level.  A
  credential-scoped failure counts against the credential's own window and level.
\<close>

definition isCredentialQuota :: "QuotaState \<Rightarrow> bool" where
  "isCredentialQuota q \<longleftrightarrow> Exceeded q \<and> Reason q = ''credential_quota''"

definition quotaDeadlines ::
  "Result \<Rightarrow> bool \<Rightarrow> QuotaState \<Rightarrow> QuotaState \<Rightarrow> gotime \<Rightarrow> gotime \<times> gotime \<times> int" where
  "quotaDeadlines result disableCooling authQuota stateQuota now =
     (let scoped = rCredentialScope result;
          backoffLevel = (if scoped then (if isCredentialQuota authQuota then BackoffLevel authQuota else 0)
                          else BackoffLevel stateQuota)
      in if disableCooling then (0, 0, backoffLevel)
         else
           (let quotaForFailure =
                  (if scoped then
                     (if isCredentialQuota authQuota then authQuota
                      else stateQuota\<lparr>NextRecoverAt := 0, BackoffLevel := 0\<rparr>)
                   else stateQuota);
                (credentialNext, backoffLevel) =
                  (case rRetryAfter result of
                     Some d \<Rightarrow> (flooredHint now d, backoffLevel)
                   | None \<Rightarrow> quotaCooldownAfterFailure quotaForFailure now);
                next = (if Exceeded stateQuota \<and> After (NextRecoverAt stateQuota) credentialNext
                        then NextRecoverAt stateQuota else credentialNext)
            in (next, credentialNext, backoffLevel)))"

definition quotaShadow :: "Result \<Rightarrow> gotime \<Rightarrow> ModelState \<Rightarrow> gotime \<Rightarrow> ModelState \<Rightarrow> ModelStateBase option" where
  "quotaShadow result now savedOuterState prevModelRetryAfter state =
     (if \<not> rCredentialScope result then None
      else if \<not> credentialQuotaPropagated state \<and> Reason (MQuota savedOuterState) \<noteq> ''credential_quota'' then
        (if After prevModelRetryAfter now \<and> \<not> isDevinQuotaExhaustionMessage (devinStateErrorText savedOuterState)
         then Some ((cloneShallow savedOuterState)\<lparr>MNextRetryAfter := prevModelRetryAfter,
                      MUnavailable := True, MStatus := StatusError\<rparr>)
         else None)
      else credentialQuotaShadow state)"

definition quotaStateFailure ::
  "Result \<Rightarrow> bool \<Rightarrow> QuotaState \<Rightarrow> gotime \<Rightarrow> ModelState \<Rightarrow> gotime \<Rightarrow> ModelState \<Rightarrow> ModelState" where
  "quotaStateFailure result disableCooling authQuota now savedOuterState prevModelRetryAfter state =
     (case quotaDeadlines result disableCooling authQuota (MQuota state) now of
        (next, credentialNext, backoffLevel) \<Rightarrow>
          state\<lparr>MNextRetryAfter := next,
                MQuota := applyCooldownFields True ''quota'' next backoffLevel (MQuota state),
                credentialQuotaShadow := quotaShadow result now savedOuterState prevModelRetryAfter state\<rparr>)"

definition coolState ::
  "'r cooldownEnv \<Rightarrow> Result \<Rightarrow> bool \<Rightarrow> QuotaState \<Rightarrow> gotime \<Rightarrow> ModelState \<Rightarrow> gotime \<Rightarrow> ModelState \<Rightarrow> ModelState" where
  "coolState env result disableCooling authQuota now savedOuterState prevModelRetryAfter state =
     (case failureKindOf env (rError result) of
        FailModelSupport \<Rightarrow>
          state\<lparr>MNextRetryAfter := missingDeadline now (rRetryAfter result) disableCooling\<rparr>
      | FailCloudflare \<Rightarrow>
          (case nextCloudflareCooldown (BackoffLevel (MQuota state)) disableCooling now of
             (next, backoffLevel) \<Rightarrow>
               state\<lparr>MNextRetryAfter := next, MStatusMessage := ''cloudflare challenge'',
                     MQuota := applyCooldownFields True ''cloudflare challenge'' next backoffLevel (MQuota state)\<rparr>)
      | FailGrantOrCredit \<Rightarrow> state\<lparr>MNextRetryAfter := zeroIf disableCooling (now + 30 * Minute)\<rparr>
      | FailTransientRate \<Rightarrow>
          (let next = transientDeadline now (MQuota state)
                 (transientRateLimitRetryAfter env now (rRetryAfter result) disableCooling)
           in state\<lparr>MNextRetryAfter := next, MUnavailable := (\<not> IsZero next)\<rparr>)
      | FailStatus statusCode \<Rightarrow>
          if statusCode = 401 \<or> statusCode = 402 \<or> statusCode = 403 then
            state\<lparr>MNextRetryAfter := zeroIf disableCooling (now + 30 * Minute)\<rparr>
          else if statusCode = 404 then
            state\<lparr>MNextRetryAfter := missingDeadline now (rRetryAfter result) disableCooling\<rparr>
          else if statusCode = 429 then
            quotaStateFailure result disableCooling authQuota now savedOuterState prevModelRetryAfter state
          else if statusCode \<in> set transientStatuses then
            (let next = recoverableFailureRetryAfterWithHint env now (rRetryAfter result) disableCooling
             in state\<lparr>MNextRetryAfter := next, MUnavailable := (\<not> IsZero next)\<rparr>)
          else
            (let next = recoverableFailureRetryAfter env now disableCooling
             in state\<lparr>MNextRetryAfter := next, MUnavailable := (\<not> IsZero next)\<rparr>))"

text \<open>Propagation of a credential-wide quota failure to another model's state.\<close>

definition propagateQuota :: "Auth \<Rightarrow> gotime \<Rightarrow> gotime \<Rightarrow> int \<Rightarrow> ModelState \<Rightarrow> ModelState" where
  "propagateQuota a now credentialNext backoffLevel other =
     (let other = normalizeExpiredWrap a now other;
          alreadyPropagated = (credentialQuotaPropagated other \<or> Reason (MQuota other) = ''credential_quota'');
          shadow = (if alreadyPropagated then credentialQuotaShadow other
                    else if isModelStateActiveCooldown (Some other) now
                            \<and> \<not> isDevinQuotaExhaustionMessage (devinStateErrorText other)
                    then Some (cloneShallow other) else None);
          otherQuotaNext = (if Exceeded (MQuota other) \<and> After (NextRecoverAt (MQuota other)) credentialNext
                            then NextRecoverAt (MQuota other) else credentialNext);
          otherRetryAfter = (if \<not> IsZero (MNextRetryAfter other) \<and> After (MNextRetryAfter other) otherQuotaNext
                             then MNextRetryAfter other else otherQuotaNext)
      in other\<lparr>credentialQuotaShadow := shadow, credentialQuotaPropagated := True, MUnavailable := True,
               MStatus := StatusError, MNextRetryAfter := otherRetryAfter,
               MQuota := applyCooldownFields True ''credential_quota'' otherQuotaNext backoffLevel (MQuota other)\<rparr>)"

definition onSiblings :: "string \<Rightarrow> (ModelState \<Rightarrow> ModelState) \<Rightarrow> Auth \<Rightarrow> Auth" where
  "onSiblings key f a =
     a\<lparr>ModelStates := map (\<lambda>(k, s). (k, if k = key then s else map_option f s)) (ModelStates a)\<rparr>"

definition openCredentialQuota :: "gotime \<Rightarrow> int \<Rightarrow> Auth \<Rightarrow> Auth" where
  "openCredentialQuota credentialNext backoffLevel a =
     (let authNext = (if isCredentialQuota (Quota a) \<and> After (NextRecoverAt (Quota a)) credentialNext
                      then NextRecoverAt (Quota a) else credentialNext)
      in a\<lparr>Unavailable := True, Quota := applyCooldownFields True ''credential_quota'' authNext backoffLevel (Quota a),
           NextRetryAfter := authNext\<rparr>)"

text \<open>After the switch: cleared when cooling is off, forced when demanded, never shortened.\<close>

definition settleDeadline ::
  "Error option \<Rightarrow> bool \<Rightarrow> gotime \<Rightarrow> gotime \<Rightarrow> nat \<Rightarrow> ModelState \<Rightarrow> ModelState" where
  "settleDeadline err disableCooling now prevModelRetryAfter cooldownSeq state =
     (let state = (if disableCooling \<and> IsZero (MNextRetryAfter state) \<and> IsZero (NextRecoverAt (MQuota state))
                   then state\<lparr>MUnavailable := False, MQuota := (MQuota state)\<lparr>Exceeded := False\<rparr>\<rparr> else state);
          state = (if forced err \<and> IsZero (MNextRetryAfter state)
                   then state\<lparr>MNextRetryAfter := now + transientErrorCooldown, MUnavailable := True\<rparr> else state);
          state = (if \<not> IsZero (MNextRetryAfter state) \<and> After prevModelRetryAfter (MNextRetryAfter state)
                      \<and> After prevModelRetryAfter now
                   then state\<lparr>MNextRetryAfter := prevModelRetryAfter\<rparr> else state)
      in state\<lparr>McooldownRecordedSeq := cooldownSeq\<rparr>)"

text \<open>The outer presentation from the propagated layer and the model's own layer.\<close>

definition composeLayers :: "QuotaState \<Rightarrow> gotime \<Rightarrow> nat \<Rightarrow> ModelState \<Rightarrow> ModelState \<Rightarrow> ModelState" where
  "composeLayers authQuota now cooldownSeq savedOuterState state =
     (let outer = withoutShadow (cloneShallow savedOuterState);
          retry = (if After (MNextRetryAfter state) (MNextRetryAfter outer) then MNextRetryAfter state
                   else MNextRetryAfter outer);
          retry = (if After (NextRecoverAt authQuota) retry then NextRecoverAt authQuota else retry)
      in outer\<lparr>
           credentialQuotaShadow :=
             (if isModelStateActiveCooldown (Some state) now then Some (cloneShallow state) else None),
           McooldownRecordedSeq := cooldownSeq, credentialQuotaPropagated := True, MUnavailable := True,
           MStatus := StatusError, MUpdatedAt := now, MLastError := cloneError (MLastError state),
           MStatusMessage := MStatusMessage state, MNextRetryAfter := retry,
           MQuota := (if isCredentialQuota (MQuota outer) then MQuota outer
                      else applyCooldownFields True ''credential_quota'' (NextRecoverAt authQuota)
                             (BackoffLevel authQuota) (MQuota outer))\<rparr>)"

definition recordError :: "Error option \<Rightarrow> ModelState \<Rightarrow> ModelState" where
  "recordError err state =
     (case err of
        None \<Rightarrow> state
      | Some e \<Rightarrow> state\<lparr>MLastError := cloneError err, MStatusMessage := Message e\<rparr>)"

definition recordAuthError :: "Error option \<Rightarrow> bool \<Rightarrow> Auth \<Rightarrow> Auth" where
  "recordAuthError err wasTerminalUnauthorized a =
     (case err of
        None \<Rightarrow> a
      | Some e \<Rightarrow>
          if wasTerminalUnauthorized then a
          else a\<lparr>LastError := cloneError err, StatusMessage := Message e\<rparr>)"

text \<open>The credential's side of the switch.\<close>

definition coolAuth ::
  "'r cooldownEnv \<Rightarrow> Result \<Rightarrow> bool \<Rightarrow> bool \<Rightarrow> gotime \<Rightarrow> string \<Rightarrow> ModelState \<Rightarrow> Auth \<Rightarrow> Auth" where
  "coolAuth env result disableCooling wasTerminalUnauthorized now key state a =
     (case failureKindOf env (rError result) of
        FailCloudflare \<Rightarrow>
          if LastError a \<noteq> None \<and> \<not> wasTerminalUnauthorized
          then a\<lparr>StatusMessage := ''cloudflare challenge''\<rparr> else a
      | FailStatus statusCode \<Rightarrow>
          if statusCode = 429 \<and> rCredentialScope result \<and> \<not> disableCooling then
            (case quotaDeadlines result disableCooling (Quota a) (MQuota state) now of
               (next, credentialNext, backoffLevel) \<Rightarrow>
                 (let a = onSiblings key (propagateQuota a now credentialNext backoffLevel) a
                  in if wasTerminalUnauthorized then a else openCredentialQuota credentialNext backoffLevel a))
          else a
      | _ \<Rightarrow> a)"

definition marksWrap :: "'r cooldownEnv \<Rightarrow> Result \<Rightarrow> bool \<Rightarrow> bool \<Rightarrow> bool" where
  "marksWrap env result disableCooling wasTerminalUnauthorized \<longleftrightarrow>
     failureKindOf env (rError result) = FailStatus 429 \<and> rCredentialScope result
     \<and> \<not> disableCooling \<and> \<not> wasTerminalUnauthorized"

definition failModelState ::
  "'r cooldownEnv \<Rightarrow> nat \<Rightarrow> Result \<Rightarrow> bool \<Rightarrow> bool \<Rightarrow> gotime \<Rightarrow> Auth \<Rightarrow> string \<Rightarrow> Auth" where
  "failModelState env cooldownSeq result disableCooling wasTerminalUnauthorized now a key =
     (let savedOuterState = normalizeExpiredWrap a now (stateAt a key);
          ownLayerPending = (\<not> rCredentialScope result \<and> credentialQuotaOpen a now);
          state = (if ownLayerPending then ownLayer savedOuterState else savedOuterState);
          state = state\<lparr>MUnavailable := True, MStatus := StatusError, MUpdatedAt := now\<rparr>;
          prevModelRetryAfter = MNextRetryAfter state;
          state = recordError (rError result) state;
          a = recordAuthError (rError result) wasTerminalUnauthorized a;
          authQuota = Quota a;
          a = coolAuth env result disableCooling wasTerminalUnauthorized now key state a;
          state = coolState env result disableCooling authQuota now savedOuterState prevModelRetryAfter state;
          state = (if marksWrap env result disableCooling wasTerminalUnauthorized
                   then state\<lparr>credentialQuotaPropagated := True\<rparr> else state);
          state = settleDeadline (rError result) disableCooling now prevModelRetryAfter cooldownSeq state;
          state = (if ownLayerPending then composeLayers (Quota a) now cooldownSeq savedOuterState state
                   else state);
          a = (if rCredentialScope result \<and> \<not> disableCooling \<and> statusCodeFromResult (rError result) = 429
               then onSiblings key (\<lambda>s. s\<lparr>McooldownRecordedSeq := cooldownSeq\<rparr>) (a\<lparr>cooldownRecordedSeq := cooldownSeq\<rparr>)
               else a)
      in updateAggregatedAvailability now ((putState key state a)\<lparr>Status := StatusError\<rparr>))"

definition failureTransition ::
  "'r cooldownEnv \<Rightarrow> nat \<Rightarrow> Result \<Rightarrow> string \<Rightarrow> bool \<Rightarrow> gotime \<Rightarrow> Auth \<Rightarrow> Auth \<times> string option" where
  "failureTransition env executionSeq result modelKey wasTerminalUnauthorized now a =
     (let current = map_option (\<lambda>_. canonicalModelKey modelKey) (existingModelState a modelKey);
          disableCooling = (if forced (rError result) then False else cooldownDisabledForAuth env a)
      in if modelKey \<noteq> [] then
           (if shouldSkipCredentialCooldown (jsonOf env) (rError result) then (a, current)
            else case ensureModelState a modelKey of
                   None \<Rightarrow> (a, current)
                 | Some (a, key) \<Rightarrow>
                     (failModelState env executionSeq result disableCooling wasTerminalUnauthorized now a key, Some key))
         else if wasTerminalUnauthorized then (a, current)
         else ((applyAuthFailureState env (rError result) (rRetryAfter result) now disableCooling a)
                 \<lparr>cooldownRecordedSeq := executionSeq\<rparr>, current))"

section \<open>Closing steps\<close>

definition ProviderSupportsQuotaObservation :: "string \<Rightarrow> bool" where
  "ProviderSupportsQuotaObservation provider =
     (ToLower (TrimSpace provider) \<in> {''claude'', ''codex'', ''devin''})"

definition ObserveResponseHeadersForProvider ::
  "string \<Rightarrow> (string, string) gomap \<Rightarrow> gotime \<Rightarrow> QuotaState \<Rightarrow> QuotaState" where
  "ObserveResponseHeadersForProvider provider sigs observedAt q =
     (if \<not> ProviderSupportsQuotaObservation provider then q\<lparr>Signals := [], ObservedAt := 0\<rparr>
      else if sigs = [] then q
      else q\<lparr>Signals := sigs, ObservedAt := observedAt\<rparr>)"

definition observeQuota :: "Result \<Rightarrow> gotime \<Rightarrow> string option \<Rightarrow> Auth \<Rightarrow> Auth" where
  "observeQuota result now modelState a =
     (if rSkipQuotaObservation result then a
      else
        (let observe = ObserveResponseHeadersForProvider (rProvider result) (signals result) now;
             a = a\<lparr>Quota := observe (Quota a)\<rparr>
         in case modelState of
              None \<Rightarrow> a
            | Some key \<Rightarrow>
                putState key ((stateAt a key)\<lparr>MQuota := observe (MQuota (stateAt a key))\<rparr>) a))"

definition closeResult ::
  "'r cooldownEnv \<Rightarrow> Result \<Rightarrow> bool \<Rightarrow> gotime \<Rightarrow> Auth \<Rightarrow> Auth \<times> bool" where
  "closeResult env result wasTerminalUnauthorized now a =
     (let rejects = rejectsToken env result;
          tokenToReject = (if rAccessToken result = [] then authAccessTokenForRequest env (codexClient result) a
                           else rAccessToken result);
          a = (if rejects then fst (recordRejectedTokenOnAuth env tokenToReject a) else a)
      in if wasTerminalUnauthorized then
           (a\<lparr>Unavailable := True, Status := StatusError, NextRefreshAfter := 0, NextRetryAfter := 0\<rparr>, False)
         else if rejects \<and> authHasRefreshCredential env now a then
           (a\<lparr>NextRefreshAfter :=
               (if IsZero (NextRefreshAfter a) then
                  (if \<not> IsZero (LastRefreshedAt a) \<and> time_Sub now (LastRefreshedAt a) < refreshFailureBackoff
                   then now + refreshFailureBackoff else now)
                else NextRefreshAfter a)\<rparr>, True)
         else (a, False))"

definition countResult :: "Result \<Rightarrow> gotime \<Rightarrow> Auth \<Rightarrow> Auth" where
  "countResult result now a =
     (let a = recordRecentRequest a now (rSuccess result)
      in if rSuccess result then a\<lparr>Success := wrap64 (Success a + 1)\<rparr>
         else a\<lparr>Failed := wrap64 (Failed a + 1)\<rparr>)"

text \<open>A result that is not stale; also the model key and whether a refresh is due.\<close>

definition applyResult ::
  "'r cooldownEnv \<Rightarrow> nat \<Rightarrow> Result \<Rightarrow> gotime \<Rightarrow> Auth \<Rightarrow> Auth \<times> string \<times> bool" where
  "applyResult env executionSeq result now a =
     (let modelKey = resultModelKey env result a;
          a = countResult result now a;
          wasTerminalUnauthorized = hasUnauthorizedAuthFailure (Some a);
          (a, modelState) =
            (if rSuccess result then successTransition result modelKey wasTerminalUnauthorized now a
             else failureTransition env executionSeq result modelKey wasTerminalUnauthorized now a);
          (a, scheduleUnauthorizedRefresh) = closeResult env result wasTerminalUnauthorized now a;
          a = a\<lparr>Generation := wrapU64 (Generation a + 1), UpdatedAt := now\<rparr>
      in (observeQuota result now modelState a, modelKey, scheduleUnauthorizedRefresh))"

section \<open>The manager\<close>

record manager =
  mAuths :: "(string, Auth option) gomap"
  mExecutionSeq :: nat
  mResultPolicy :: "(Result \<Rightarrow> Result) option"

text \<open>What is handed to \<open>scheduler.upsertAuthResult\<close>.\<close>

record published =
  pubAuth :: Auth
  pubTargets :: "string list"
  pubCredentialScoped :: bool

definition targetModelsOf :: "Result \<Rightarrow> string \<Rightarrow> bool \<Rightarrow> string list" where
  "targetModelsOf result modelKey credentialScopedResult =
     (if \<not> credentialScopedResult \<and> modelKey \<noteq> [] then
        (let routeKey = canonicalModelKey (rRouteModel result)
         in modelKey # (if routeKey \<noteq> [] \<and> routeKey \<noteq> modelKey then [routeKey] else []))
      else [])"

definition MarkResult ::
  "'r cooldownEnv \<Rightarrow> Result \<Rightarrow> gotime \<Rightarrow> manager \<Rightarrow> manager \<times> published option" where
  "MarkResult env result now m =
     (if rAuthID result = [] then (m, None)
      else
        (let result = (case mResultPolicy m of None \<Rightarrow> result | Some policy \<Rightarrow> policy result)
         in if rAuthID result = [] then (m, None)
            else
              (case map_of (mAuths m) (rAuthID result) of
                 Some (Some a) \<Rightarrow>
                   if isStaleExecutionResult env result a
                   then (m\<lparr>mAuths := AList.update (rAuthID result) (Some (staleResult env result now a)) (mAuths m)\<rparr>, None)
                   else
                     (case applyResult env (mExecutionSeq m) result now a of
                        (a, modelKey, scheduleUnauthorizedRefresh) \<Rightarrow>
                          (let scoped = (rCredentialScope result \<or> scheduleUnauthorizedRefresh)
                           in (m\<lparr>mAuths := AList.update (rAuthID result) (Some a) (mAuths m)\<rparr>,
                               Some \<lparr>pubAuth = a, pubTargets = targetModelsOf result modelKey scoped,
                                     pubCredentialScoped = scoped\<rparr>)))
               | _ \<Rightarrow> (m, None))))"

definition recordAvailabilityNeutralResult ::
  "'r cooldownEnv \<Rightarrow> Result \<Rightarrow> gotime \<Rightarrow> manager \<Rightarrow> manager" where
  "recordAvailabilityNeutralResult env result now m =
     (if rAuthID result = [] then m
      else
        (case map_of (mAuths m) (rAuthID result) of
           Some (Some a) \<Rightarrow>
             if isStaleExecutionResult env result a then m
             else
               (let a = countResult result now a
                in m\<lparr>mAuths := AList.update (rAuthID result)
                       (Some (a\<lparr>Generation := wrapU64 (Generation a + 1), UpdatedAt := now\<rparr>)) (mAuths m)\<rparr>)
         | _ \<Rightarrow> m))"

definition recordExecutionResult ::
  "'r cooldownEnv \<Rightarrow> Result \<Rightarrow> Auth option \<Rightarrow> bool \<Rightarrow> gotime \<Rightarrow> manager \<Rightarrow> manager \<times> published option" where
  "recordExecutionResult env result auth ephemeral now m =
     (let result =
            (case auth of
               None \<Rightarrow> result
             | Some a \<Rightarrow>
                 result\<lparr>rCredentialVersion := (if rCredentialVersion result = 0 then CredentialVersion a else rCredentialVersion result),
                        rRegistrationEpoch := (if rRegistrationEpoch result = 0 then RegistrationEpoch a else rRegistrationEpoch result),
                        rAccessToken := (if rAccessToken result = [] then authAccessTokenForRequest env (codexClient result) a
                                         else rAccessToken result)\<rparr>)
      in if ephemeral then (m, None) else MarkResult env result now m)"

end
