(* ===== verification/MarkResultProofs.thy ===== *)
theory MarkResultProofs
  imports MarkResult CooldownProofs
begin

text \<open>
  Facts on the result transition.  \<open>timed\<close> says that a model state that blocks carries the time at
  which it stops blocking; the sections below show that every step of \<open>MarkResult\<close> keeps it, which
  deadlines a failure may set, and what a success leaves behind.
\<close>

section \<open>Model keys\<close>

lemma TrimSpace_Nil_iff: "TrimSpace (TrimSpace s) = [] \<longleftrightarrow> TrimSpace s = []"
  by simp

lemma canonicalModelKey_trimmed: "TrimSpace (canonicalModelKey m) = canonicalModelKey m"
  by (simp add: canonicalModelKey_def Let_def)

lemma canonicalModelKey_nonempty:
  "canonicalModelKey m \<noteq> [] \<Longrightarrow> canonicalModelKey (canonicalModelKey m) \<noteq> []"
proof -
  assume k: "canonicalModelKey m \<noteq> []"
  have t: "TrimSpace (canonicalModelKey m) \<noteq> []" using k by (simp add: canonicalModelKey_trimmed)
  then show ?thesis by (subst canonicalModelKey_def) (simp add: Let_def)
qed

lemma resultModelKey_ok:
  "resultModelKey env result a \<noteq> [] \<Longrightarrow> canonicalModelKey (resultModelKey env result a) \<noteq> []"
  by (auto simp: resultModelKey_def Let_def canonicalModelKey_nonempty split: if_splits)

text \<open>The pointer is never nil where the source dereferences it.\<close>

lemma ensureModelState_some:
  "canonicalModelKey model \<noteq> [] \<Longrightarrow> \<exists>a'. ensureModelState a model = Some (a', canonicalModelKey model)"
  by (auto simp: ensureModelState_def Let_def split: option.splits)

section \<open>States\<close>

lemma Some_eq_map_option: "Some y = map_option f x \<longleftrightarrow> (\<exists>z. x = Some z \<and> y = f z)"
  by (cases x) auto

lemma AList_update_mem: "(k', v') \<in> set (AList.update k v ss) \<Longrightarrow> (k' = k \<and> v' = v) \<or> (k', v') \<in> set ss"
  by (induction ss) (auto split: if_splits)

lemma stateAt_live: "stateAt a key = emptyModelState \<or> (key, Some (stateAt a key)) \<in> set (ModelStates a)"
  by (auto simp: stateAt_def dest: map_of_SomeD split: option.splits)

lemma withoutShadow_simps [simp]:
  "MStatus (withoutShadow b) = MStatus b" "MStatusMessage (withoutShadow b) = MStatusMessage b"
  "MUnavailable (withoutShadow b) = MUnavailable b" "MNextRetryAfter (withoutShadow b) = MNextRetryAfter b"
  "MLastError (withoutShadow b) = MLastError b" "MQuota (withoutShadow b) = MQuota b"
  "MUpdatedAt (withoutShadow b) = MUpdatedAt b" "McooldownRecordedSeq (withoutShadow b) = McooldownRecordedSeq b"
  "credentialQuotaPropagated (withoutShadow b) = credentialQuotaPropagated b"
  "credentialQuotaShadow (withoutShadow b) = None"
  by (simp_all add: withoutShadow_def ModelStateBase.defs)

lemma cloneShallow_simps [simp]:
  "MStatus (cloneShallow m) = MStatus m" "MStatusMessage (cloneShallow m) = MStatusMessage m"
  "MUnavailable (cloneShallow m) = MUnavailable m" "MNextRetryAfter (cloneShallow m) = MNextRetryAfter m"
  "MLastError (cloneShallow m) = MLastError m" "MQuota (cloneShallow m) = MQuota m"
  "MUpdatedAt (cloneShallow m) = MUpdatedAt m" "McooldownRecordedSeq (cloneShallow m) = McooldownRecordedSeq m"
  "credentialQuotaPropagated (cloneShallow m) = credentialQuotaPropagated m"
  by (simp_all add: cloneShallow_def ModelStateBase.defs)

lemma applyCooldownFields_simps [simp]:
  "Exceeded (applyCooldownFields e r t l q) = e" "Reason (applyCooldownFields e r t l q) = r"
  "NextRecoverAt (applyCooldownFields e r t l q) = t" "BackoffLevel (applyCooldownFields e r t l q) = l"
  by (simp_all add: applyCooldownFields_def)

section \<open>Every block has an end\<close>

definition timed :: "('a ModelStateBase_scheme) \<Rightarrow> bool" where
  "timed s \<longleftrightarrow> 0 \<le> MNextRetryAfter s \<and> 0 \<le> NextRecoverAt (MQuota s)
     \<and> (Exceeded (MQuota s) \<longrightarrow> NextRecoverAt (MQuota s) \<noteq> 0)
     \<and> (MUnavailable s \<longrightarrow> MNextRetryAfter s \<noteq> 0 \<or> NextRecoverAt (MQuota s) \<noteq> 0)"

definition timedState :: "ModelState \<Rightarrow> bool" where
  "timedState s \<longleftrightarrow> timed s \<and> (case credentialQuotaShadow s of None \<Rightarrow> True | Some sh \<Rightarrow> timed sh)"

definition timedMap :: "(string, ModelState option) gomap \<Rightarrow> bool" where
  "timedMap ss \<longleftrightarrow> (\<forall>k s. (k, Some s) \<in> set ss \<longrightarrow> timedState s)"

definition timedAuth :: "Auth \<Rightarrow> bool" where
  "timedAuth a \<longleftrightarrow> timedMap (ModelStates a)"

definition settings_ok :: "'r cooldownEnv \<Rightarrow> bool" where
  "settings_ok env \<longleftrightarrow> transientErrorCooldownSeconds env \<le> 9223372036"

lemma timed_empty [simp]: "timedState emptyModelState" "timedState (emptyModelState\<lparr>MStatus := s\<rparr>)"
  by (simp_all add: timedState_def timed_def emptyModelState_def emptyQuota_def)

lemma timed_cloneShallow [simp]: "timed (cloneShallow s) = timed s"
  by (simp add: timed_def)

lemma timed_withoutShadow [simp]: "timedState (withoutShadow b) = timed b"
  by (simp add: timedState_def timed_def)

lemma timed_reset [simp]: "timedState (resetModelState now s)"
  by (simp add: timedState_def timed_def resetModelState_def)

lemma timed_expire: "timedState s \<Longrightarrow> timedState (expireState now s)"
  by (auto simp: timedState_def timed_def expireState_def)

lemma timed_shadow: "timedState s \<Longrightarrow> credentialQuotaShadow s = Some sh \<Longrightarrow> timed sh"
  by (simp add: timedState_def)

lemma timed_normalizeExpiredWrap: "timedState s \<Longrightarrow> timedState (normalizeExpiredWrap a now s)"
  by (auto simp: normalizeExpiredWrap_def timed_shadow split: option.splits)

lemma timed_ownLayer: "timedState s \<Longrightarrow> timedState (ownLayer s)"
  by (auto simp: ownLayer_def timed_shadow split: option.splits)

lemma mergedQuota_simps:
  "Exceeded (mergedQuota t s p f) = (Exceeded (MQuota t) \<or> Exceeded (MQuota s))"
  "NextRecoverAt (mergedQuota t s p f) = max (NextRecoverAt (MQuota t)) (NextRecoverAt (MQuota s))"
  by (auto simp: mergedQuota_def mergeQuotaObservation_def Let_def)

lemma mergeModelState_fields:
  assumes "mergeModelState (Some t) (Some s) = Some m"
  shows "MUnavailable m = (MUnavailable t \<or> MUnavailable s)"
    and "MNextRetryAfter m = max (MNextRetryAfter t) (MNextRetryAfter s)"
    and "\<exists>p f. MQuota m = mergedQuota t s p f"
    and "credentialQuotaShadow m \<in> {None, credentialQuotaShadow t, credentialQuotaShadow s}"
proof -
  have m: "the (mergeModelState (Some t) (Some s)) = m" using assms by simp
  show "MUnavailable m = (MUnavailable t \<or> MUnavailable s)"
    "MNextRetryAfter m = max (MNextRetryAfter t) (MNextRetryAfter s)"
    "\<exists>p f. MQuota m = mergedQuota t s p f"
    "credentialQuotaShadow m \<in> {None, credentialQuotaShadow t, credentialQuotaShadow s}"
    unfolding m [symmetric]
    by (auto simp: mergeModelState_def Let_def max_def mergedShadow_def split: option.splits)
qed

lemma mergeModelState_timed:
  assumes "mergeModelState t s = Some m" and "\<And>x. t = Some x \<Longrightarrow> timedState x"
    and "\<And>x. s = Some x \<Longrightarrow> timedState x"
  shows "timedState m"
proof (cases "t = None \<or> s = None")
  case True
  with assms show ?thesis by (auto simp: mergeModelState_def split: option.splits)
next
  case False
  then obtain x y where ts: "t = Some x" "s = Some y" by auto
  note f = mergeModelState_fields [OF assms(1) [unfolded ts]]
  obtain p g where q: "MQuota m = mergedQuota x y p g" using f(3) by blast
  have "timedState x" "timedState y" using assms(2,3) ts by auto
  then have "timed m"
    using f(1,2) unfolding timedState_def timed_def q mergedQuota_simps by (auto simp: max_def)
  moreover have "timed sh" if "credentialQuotaShadow m = Some sh" for sh
    using f(4) that \<open>timedState x\<close> \<open>timedState y\<close> by (metis empty_iff insertE option.discI timed_shadow)
  ultimately show ?thesis by (simp add: timedState_def split: option.splits)
qed

lemma timedMap_update:
  "timedMap ss \<Longrightarrow> (\<And>x. v = Some x \<Longrightarrow> timedState x) \<Longrightarrow> timedMap (AList.update k v ss)"
  by (auto simp: timedMap_def dest!: AList_update_mem)

lemma timedMap_lookup: "timedMap ss \<Longrightarrow> map_of ss k = Some (Some s) \<Longrightarrow> timedState s"
  by (auto simp: timedMap_def dest: map_of_SomeD)

lemma timedMap_Cons: "timedMap ((k, v) # ss) \<longleftrightarrow> (\<forall>x. v = Some x \<longrightarrow> timedState x) \<and> timedMap ss"
  by (auto simp: timedMap_def)

lemma mergeStatesLoop_timed:
  "timedMap ss \<Longrightarrow> timedMap (fst acc) \<Longrightarrow> timedMap (fst (mergeStatesLoop ss acc))"
proof (induction ss acc rule: mergeStatesLoop.induct)
  case (2 model state ss ns c)
  have st: "timedState x" if "state = Some x" for x
    using "2.prems"(1) that by (simp add: timedMap_Cons)
  have ss: "timedMap ss" using "2.prems"(1) by (simp add: timedMap_Cons)
  show ?case
  proof (cases "map_of ns (stateKey model)")
    case None
    have "timedMap (AList.update (stateKey model) state ns)"
      using "2.prems"(2) st by (simp add: timedMap_update)
    with "2.IH"(1) [OF refl refl None ss] None show ?thesis by (simp add: Let_def)
  next
    case (Some existing)
    have ex: "timedState x" if "existing = Some x" for x
      using "2.prems"(2) that Some by (auto dest: timedMap_lookup)
    have "timedMap (AList.update (stateKey model) (mergeModelState existing state) ns)"
      using "2.prems"(2) mergeModelState_timed [OF _ ex st] by (simp add: timedMap_update)
    with "2.IH"(2) [OF refl refl Some ss] Some show ?thesis by (simp add: Let_def)
  qed
qed simp

lemma timed_normalizeModelStates: "timedAuth a \<Longrightarrow> timedAuth (normalizeModelStates a)"
  using mergeStatesLoop_timed [of "ModelStates a" "([], False)"]
  by (auto simp: timedAuth_def normalizeModelStates_def timedMap_def split: prod.splits)

lemma timed_putState: "timedAuth a \<Longrightarrow> timedState s \<Longrightarrow> timedAuth (putState key s a)"
  unfolding timedAuth_def putState_def by (auto intro: timedMap_update)

lemma timed_ensure:
  assumes "ensureModelState a model = Some (a', key)" and "timedAuth a"
  shows "timedAuth a'"
proof -
  let ?n = "normalizeModelStates a" and ?e = "emptyModelState\<lparr>MStatus := StatusActive\<rparr>"
  have n: "timedAuth ?n" by (rule timed_normalizeModelStates [OF assms(2)])
  have "a' = ?n \<or> a' = putState (canonicalModelKey model) ?e ?n"
    using assms(1) by (auto simp: ensureModelState_def putState_def Let_def split: option.splits if_splits)
  with n timed_putState [OF n, of ?e] show ?thesis by auto
qed

lemma timed_stateAt: "timedAuth a \<Longrightarrow> timedState (stateAt a key)"
  by (auto simp: stateAt_def timedAuth_def dest: timedMap_lookup split: option.splits)

lemma timed_updateAggregated: "timedAuth a \<Longrightarrow> timedAuth (updateAggregatedAvailability now a)"
  using updateAggregated_states [of now a]
  by (auto simp: timedAuth_def timedMap_def timed_expire Some_eq_map_option)

lemma timed_onSiblings:
  "timedAuth a \<Longrightarrow> (\<And>s. timedState s \<Longrightarrow> timedState (f s)) \<Longrightarrow> timedAuth (onSiblings key f a)"
  by (auto simp: timedAuth_def timedMap_def onSiblings_def Some_eq_map_option split: if_splits)

lemma timedAuth_cong: "ModelStates a = ModelStates b \<Longrightarrow> timedAuth a = timedAuth b"
  by (simp add: timedAuth_def)

section \<open>Deadlines of a failure\<close>

lemma recoverable_deadline:
  assumes "settings_ok env"
  shows "recoverableFailureRetryAfterWithHint env now hint disable = 0
    \<or> now < recoverableFailureRetryAfterWithHint env now hint disable"
proof -
  let ?s = "transientErrorCooldownSeconds env"
  have "wrap64 (?s * Second) = ?s * Second" if "0 < ?s"
    using that assms by (intro wrap64_id) (simp add: settings_ok_def Second_def int64_defs)
  then show ?thesis
    by (auto simp: recoverableFailureRetryAfterWithHint_def Let_def cooldown_consts split: option.splits)
qed

lemma transientRateLimit_deadline:
  "settings_ok env \<Longrightarrow> transientRateLimitRetryAfter env now hint disable = 0
    \<or> now < transientRateLimitRetryAfter env now hint disable"
  using recoverable_deadline [of env now hint disable] by (auto simp: transientRateLimitRetryAfter_def)

lemma transientDeadline_cases:
  "next = 0 \<or> now < next \<Longrightarrow> transientDeadline now q next = 0 \<or> now < transientDeadline now q next"
  by (auto simp: transientDeadline_def Let_def)

lemma fixed_deadlines:
  "missingDeadline now hint disable = 0 \<or> now < missingDeadline now hint disable"
  "\<not> disable \<Longrightarrow> now < missingDeadline now hint disable"
  "zeroIf disable t = (if disable then 0 else t)"
  "now < flooredHint now d"
  by (auto simp: missingDeadline_def zeroIf_def flooredHint_def cooldown_consts split: option.splits)

lemma cloudflare_deadline:
  "nextCloudflareCooldown level disable now = (t, l) \<Longrightarrow> (if disable then t = 0 else now < t)"
  by (auto simp: nextCloudflareCooldown_def cooldown_consts split: prod.splits if_splits)

lemma quotaDeadlines_cases:
  assumes "quotaDeadlines result disable aq sq now = (next, credNext, level)"
  shows "if disable then next = 0 \<and> credNext = 0 else now < credNext \<and> credNext \<le> next"
proof (cases disable)
  case True
  with assms show ?thesis by (simp add: quotaDeadlines_def Let_def)
next
  case False
  let ?q = "if rCredentialScope result then if isCredentialQuota aq then aq
      else sq\<lparr>NextRecoverAt := 0, BackoffLevel := 0\<rparr> else sq"
  from False assms have c: "credNext = (case rRetryAfter result of Some d \<Rightarrow> flooredHint now d
      | None \<Rightarrow> fst (quotaCooldownAfterFailure ?q now))"
    and n: "next = (if Exceeded sq \<and> credNext < NextRecoverAt sq then NextRecoverAt sq else credNext)"
    by (auto simp: quotaDeadlines_def Let_def split: option.splits prod.splits)
  have "now < credNext"
    unfolding c using quotaCooldownAfterFailure_bounds [of now ?q]
    by (auto simp: fixed_deadlines split: option.splits)
  with n False show ?thesis by auto
qed

text \<open>After the switch: timed, unless cooling is off and both deadlines are empty.\<close>

definition quotaTimed :: "QuotaState \<Rightarrow> bool" where
  "quotaTimed q \<longleftrightarrow> 0 \<le> NextRecoverAt q \<and> (Exceeded q \<longrightarrow> NextRecoverAt q \<noteq> 0)"

definition unsettled :: "bool \<Rightarrow> ModelState \<Rightarrow> bool" where
  "unsettled disable s \<longleftrightarrow> timed s \<or> (disable \<and> MNextRetryAfter s = 0 \<and> NextRecoverAt (MQuota s) = 0)"

lemma timed_quotaTimed: "timed s \<Longrightarrow> quotaTimed (MQuota s)"
  by (simp add: timed_def quotaTimed_def)

lemma unsettled_retry:
  assumes "quotaTimed (MQuota s)" and "0 \<le> now" and "now < t \<or> (disable \<and> t = 0)"
  shows "unsettled disable (s\<lparr>MNextRetryAfter := t\<rparr>)"
  using assms by (auto simp: unsettled_def timed_def quotaTimed_def)

lemma unsettled_flag:
  assumes "quotaTimed (MQuota s)" and "0 \<le> now" and "t = 0 \<or> now < t"
  shows "unsettled disable (s\<lparr>MNextRetryAfter := t, MUnavailable := (\<not> IsZero t)\<rparr>)"
  using assms by (auto simp: unsettled_def timed_def quotaTimed_def)

lemma unsettled_quota:
  assumes "0 \<le> now" and "if disable then t = 0 else now < t"
  shows "unsettled disable (s\<lparr>MNextRetryAfter := t, MQuota := applyCooldownFields e r t l q\<rparr>)"
  using assms by (auto simp: unsettled_def timed_def split: if_splits)

lemma unsettled_frame [simp]:
  "unsettled disable (s\<lparr>credentialQuotaShadow := x\<rparr>) = unsettled disable s"
  "unsettled disable (s\<lparr>credentialQuotaPropagated := b\<rparr>) = unsettled disable s"
  "unsettled disable (s\<lparr>MStatusMessage := m\<rparr>) = unsettled disable s"
  by (simp_all add: unsettled_def timed_def)

lemma coolState_unsettled:
  assumes q: "quotaTimed (MQuota s)" and now: "0 \<le> now" and env: "settings_ok env"
  shows "unsettled disable (coolState env result disable aq now saved prev s)"
proof -
  note retry = unsettled_retry [OF q now] and flag = unsettled_flag [OF q now]
  have rec: "recoverableFailureRetryAfterWithHint env now h disable = 0
      \<or> now < recoverableFailureRetryAfterWithHint env now h disable" for h
    by (rule recoverable_deadline [OF env])
  have mis: "now < missingDeadline now h disable \<or> (disable \<and> missingDeadline now h disable = 0)" for h
    using fixed_deadlines(1,2) [where hint = h] by (cases disable) (auto simp: missingDeadline_def)
  have half: "now < zeroIf disable (now + 30 * Minute) \<or> (disable \<and> zeroIf disable (now + 30 * Minute) = 0)"
    by (simp add: zeroIf_def duration_defs)
  have tr: "transientDeadline now (MQuota s) (transientRateLimitRetryAfter env now h disable) = 0
      \<or> now < transientDeadline now (MQuota s) (transientRateLimitRetryAfter env now h disable)" for h
    by (rule transientDeadline_cases [OF transientRateLimit_deadline [OF env]])
  have cf: "unsettled disable (s\<lparr>MNextRetryAfter := t, MStatusMessage := msg,
      MQuota := applyCooldownFields e r t l (MQuota s)\<rparr>)"
    if "nextCloudflareCooldown lvl disable now = (t, l)" for lvl t l e r msg
    using unsettled_quota [OF now cloudflare_deadline [OF that]]
    by (simp add: unsettled_def timed_def)
  have qf: "unsettled disable (quotaStateFailure result disable aq now saved prev s)"
  proof -
    obtain t c l where d: "quotaDeadlines result disable aq (MQuota s) now = (t, c, l)"
      using prod_cases3 by blast
    have t: "if disable then t = 0 else now < t"
      using quotaDeadlines_cases [OF d] by (auto split: if_splits)
    show ?thesis unfolding quotaStateFailure_def d using unsettled_quota [OF now t] by simp
  qed
  show ?thesis
    using retry [OF mis] retry [OF half] flag [OF tr] flag [OF rec] qf cf
    by (auto simp: coolState_def Let_def recoverableFailureRetryAfter_def
        split: failureKind.splits prod.splits)
qed

lemma settleDeadline_timed:
  assumes "unsettled disable s" and "0 \<le> now"
  shows "timed (settleDeadline err disable now prev n s)"
  using assms unfolding settleDeadline_def unsettled_def timed_def
  by (auto simp: Let_def cooldown_consts)

lemma settleDeadline_shadow [simp]:
  "credentialQuotaShadow (settleDeadline err disable now prev n s) = credentialQuotaShadow s"
  "credentialQuotaPropagated (settleDeadline err disable now prev n s) = credentialQuotaPropagated s"
  "McooldownRecordedSeq (settleDeadline err disable now prev n s) = n"
  "MStatus (settleDeadline err disable now prev n s) = MStatus s"
  by (simp_all add: settleDeadline_def Let_def)

lemma timedState_intro:
  "timed s \<Longrightarrow> (\<And>sh. credentialQuotaShadow s = Some sh \<Longrightarrow> timed sh) \<Longrightarrow> timedState s"
  by (auto simp: timedState_def split: option.splits)

lemma quotaShadow_timed:
  assumes "timedState saved" and "timedState s" and "0 \<le> now"
    and "quotaShadow result now saved prev s = Some sh"
  shows "timed sh"
  using assms by (auto simp: quotaShadow_def timedState_def timed_def split: if_splits)

lemma coolState_shadow:
  "credentialQuotaShadow (coolState env result disable aq now saved prev s) =
     (if failureKindOf env (rError result) = FailStatus 429 then quotaShadow result now saved prev s
      else credentialQuotaShadow s)"
  by (auto simp: coolState_def quotaStateFailure_def Let_def split: failureKind.splits prod.splits)

lemma coolState_frame [simp]:
  "credentialQuotaPropagated (coolState env result disable aq now saved prev s) = credentialQuotaPropagated s"
  "MStatus (coolState env result disable aq now saved prev s) = MStatus s"
  "MLastError (coolState env result disable aq now saved prev s) = MLastError s"
  by (auto simp: coolState_def quotaStateFailure_def Let_def split: failureKind.splits prod.splits)

lemma recordError_frame [simp]:
  "MNextRetryAfter (recordError err s) = MNextRetryAfter s" "MQuota (recordError err s) = MQuota s"
  "MUnavailable (recordError err s) = MUnavailable s" "MStatus (recordError err s) = MStatus s"
  "credentialQuotaShadow (recordError err s) = credentialQuotaShadow s"
  "credentialQuotaPropagated (recordError err s) = credentialQuotaPropagated s"
  by (simp_all add: recordError_def split: option.splits)

lemma composeLayers_timed:
  assumes "timedState saved" and "timed s" and "0 \<le> now" and "now < NextRecoverAt aq"
  shows "timedState (composeLayers aq now n saved s)"
proof (rule timedState_intro)
  show "timed (composeLayers aq now n saved s)"
    using assms by (auto simp: composeLayers_def Let_def timedState_def timed_def)
  show "timed sh" if "credentialQuotaShadow (composeLayers aq now n saved s) = Some sh" for sh
    using that assms(2) by (auto simp: composeLayers_def Let_def split: if_splits)
qed

lemma propagateQuota_timed:
  assumes "timedState s" and "0 \<le> now" and "now < credNext"
  shows "timedState (propagateQuota a now credNext level s)"
proof -
  let ?o = "normalizeExpiredWrap a now s"
  have o: "timedState ?o" by (rule timed_normalizeExpiredWrap [OF assms(1)])
  show ?thesis
  proof (rule timedState_intro)
    show "timed (propagateQuota a now credNext level s)"
      using o assms(2,3) by (auto simp: propagateQuota_def Let_def timedState_def timed_def)
    show "timed sh" if "credentialQuotaShadow (propagateQuota a now credNext level s) = Some sh" for sh
    proof -
      have "Some sh = credentialQuotaShadow ?o \<or> sh = cloneShallow ?o"
        using that by (auto simp: propagateQuota_def Let_def split: if_splits)
      with o show ?thesis by (auto simp: timedState_def dest: timed_shadow split: option.splits)
    qed
  qed
qed

lemma openCredentialQuota_frame [simp]:
  "ModelStates (openCredentialQuota t l a) = ModelStates a"
  by (simp add: openCredentialQuota_def Let_def)

lemma recordAuthError_frame [simp]:
  "ModelStates (recordAuthError err w a) = ModelStates a" "Quota (recordAuthError err w a) = Quota a"
  "NextRetryAfter (recordAuthError err w a) = NextRetryAfter a"
  "credentialQuotaActive (recordAuthError err w a) now = credentialQuotaActive a now"
  by (simp_all add: recordAuthError_def credentialQuotaActive_def split: option.splits)

lemma coolAuth_timed:
  assumes "timedAuth a" and "0 \<le> now"
  shows "timedAuth (coolAuth env result disable w now key s a)"
proof -
  obtain t c l where d: "quotaDeadlines result disable (Quota a) (MQuota s) now = (t, c, l)"
    using prod_cases3 by blast
  have "timedAuth (onSiblings key (propagateQuota a now c l) a)" if "\<not> disable"
    using that quotaDeadlines_cases [OF d] assms by (intro timed_onSiblings propagateQuota_timed) auto
  with assms(1) show ?thesis
    unfolding coolAuth_def d by (auto simp: Let_def timedAuth_def split: failureKind.splits)
qed

text \<open>The own layer of a failed model, before the two layers are composed.\<close>

definition failedState ::
  "'r cooldownEnv \<Rightarrow> nat \<Rightarrow> Result \<Rightarrow> bool \<Rightarrow> bool \<Rightarrow> gotime \<Rightarrow> Auth \<Rightarrow> string \<Rightarrow> ModelState" where
  "failedState env n result disable w now a key =
     (let saved = normalizeExpiredWrap a now (stateAt a key);
          s = (if \<not> rCredentialScope result \<and> credentialQuotaOpen a now then ownLayer saved else saved);
          s' = recordError (rError result) (s\<lparr>MUnavailable := True, MStatus := StatusError, MUpdatedAt := now\<rparr>);
          s' = coolState env result disable (Quota a) now saved (MNextRetryAfter s) s';
          s' = (if marksWrap env result disable w then s'\<lparr>credentialQuotaPropagated := True\<rparr> else s')
      in settleDeadline (rError result) disable now (MNextRetryAfter s) n s')"

definition failedAuth ::
  "'r cooldownEnv \<Rightarrow> nat \<Rightarrow> Result \<Rightarrow> bool \<Rightarrow> bool \<Rightarrow> gotime \<Rightarrow> Auth \<Rightarrow> string \<Rightarrow> Auth" where
  "failedAuth env n result disable w now a key =
     (let saved = normalizeExpiredWrap a now (stateAt a key);
          s = (if \<not> rCredentialScope result \<and> credentialQuotaOpen a now then ownLayer saved else saved);
          s' = recordError (rError result) (s\<lparr>MUnavailable := True, MStatus := StatusError, MUpdatedAt := now\<rparr>);
          b = coolAuth env result disable w now key s' (recordAuthError (rError result) w a)
      in if rCredentialScope result \<and> \<not> disable \<and> statusCodeFromResult (rError result) = 429
         then onSiblings key (\<lambda>s. s\<lparr>McooldownRecordedSeq := n\<rparr>) (b\<lparr>cooldownRecordedSeq := n\<rparr>) else b)"

lemma failModelState_eq:
  "failModelState env n result disable w now a key =
     (let saved = normalizeExpiredWrap a now (stateAt a key);
          s = failedState env n result disable w now a key;
          b = failedAuth env n result disable w now a key;
          s = (if \<not> rCredentialScope result \<and> credentialQuotaOpen a now
               then composeLayers (Quota a) now n saved s else s)
      in updateAggregatedAvailability now ((putState key s b)\<lparr>Status := StatusError\<rparr>))"
proof -
  have q: "Quota (coolAuth env result disable w now key s b) = Quota b"
    if "\<not> rCredentialScope result" for s b
    using that by (auto simp: coolAuth_def split: failureKind.splits)
  show ?thesis
    unfolding failModelState_def failedState_def failedAuth_def Let_def
    by (auto simp: q)
qed

lemma failedState_timed:
  assumes "timedAuth a" and "0 \<le> now" and "settings_ok env"
  shows "timedState (failedState env n result disable w now a key)"
proof -
  let ?saved = "normalizeExpiredWrap a now (stateAt a key)"
  let ?s = "if \<not> rCredentialScope result \<and> credentialQuotaOpen a now then ownLayer ?saved else ?saved"
  let ?r = "recordError (rError result) (?s\<lparr>MUnavailable := True, MStatus := StatusError, MUpdatedAt := now\<rparr>)"
  let ?c = "coolState env result disable (Quota a) now ?saved (MNextRetryAfter ?s) ?r"
  have saved: "timedState ?saved" using assms(1) by (intro timed_normalizeExpiredWrap timed_stateAt)
  then have s: "timedState ?s" by (simp add: timed_ownLayer)
  then have "quotaTimed (MQuota ?r)" by (simp add: timedState_def timed_quotaTimed)
  then have u: "unsettled disable ?c" by (rule coolState_unsettled [OF _ assms(2,3)])
  have sh: "timed sh" if "credentialQuotaShadow ?c = Some sh" for sh
    using that saved s assms(2)
    by (auto simp: coolState_shadow quotaShadow_def timedState_def timed_def split: if_splits)
  show ?thesis
  proof (rule timedState_intro)
    show "timed (failedState env n result disable w now a key)"
      unfolding failedState_def Let_def using u assms(2) by (intro settleDeadline_timed) auto
    show "timed x" if "credentialQuotaShadow (failedState env n result disable w now a key) = Some x" for x
      using that sh unfolding failedState_def Let_def by (auto split: if_splits)
  qed
qed

lemma failedAuth_timed:
  assumes "timedAuth a" and "0 \<le> now"
  shows "timedAuth (failedAuth env n result disable w now a key)"
proof -
  have r: "timedAuth (recordAuthError (rError result) w a)" using assms(1) by (simp add: timedAuth_def)
  have "timedAuth (onSiblings key (\<lambda>s. s\<lparr>McooldownRecordedSeq := n\<rparr>) (b\<lparr>cooldownRecordedSeq := n\<rparr>))"
    if "timedAuth b" for b
    using that by (intro timed_onSiblings) (auto simp: timedAuth_def timedState_def timed_def)
  moreover have "timedAuth (coolAuth env result disable w now key s (recordAuthError (rError result) w a))" for s
    by (rule coolAuth_timed [OF r assms(2)])
  ultimately show ?thesis unfolding failedAuth_def Let_def by auto
qed

lemma failModelState_timed:
  assumes "timedAuth a" and "0 \<le> now" and "settings_ok env"
  shows "timedAuth (failModelState env n result disable w now a key)"
proof -
  let ?saved = "normalizeExpiredWrap a now (stateAt a key)"
  let ?s = "failedState env n result disable w now a key"
  have saved: "timedState ?saved" using assms(1) by (intro timed_normalizeExpiredWrap timed_stateAt)
  have s: "timedState ?s" by (rule failedState_timed [OF assms])
  then have "timedState (composeLayers (Quota a) now n ?saved ?s)" if "credentialQuotaOpen a now"
    using that saved assms(2) by (intro composeLayers_timed) (auto simp: timedState_def credentialQuotaOpen_def)
  moreover have "timedAuth ((putState key x (failedAuth env n result disable w now a key))\<lparr>Status := StatusError\<rparr>)"
    if "timedState x" for x
    using timed_putState [OF failedAuth_timed [OF assms(1,2)] that] by (simp add: timedAuth_def)
  ultimately show ?thesis
    using s unfolding failModelState_eq Let_def by (intro timed_updateAggregated) auto
qed

section \<open>The whole transition\<close>

lemma countResult_frame [simp]:
  "ModelStates (countResult result now a) = ModelStates a" "Quota (countResult result now a) = Quota a"
  "NextRetryAfter (countResult result now a) = NextRetryAfter a" "Unavailable (countResult result now a) = Unavailable a"
  "Status (countResult result now a) = Status a" "Disabled (countResult result now a) = Disabled a"
  "LastError (countResult result now a) = LastError a" "NextRefreshAfter (countResult result now a) = NextRefreshAfter a"
  "Metadata (countResult result now a) = Metadata a" "Attributes (countResult result now a) = Attributes a"
  "Provider (countResult result now a) = Provider a" "ID (countResult result now a) = ID a"
  "cooldownRecordedSeq (countResult result now a) = cooldownRecordedSeq a"
  "Generation (countResult result now a) = Generation a"
  "RegistrationEpoch (countResult result now a) = RegistrationEpoch a"
  by (simp_all add: countResult_def recordRecentRequest_def Let_def)

lemma countResult_checks [simp]:
  "hasUnauthorizedAuthFailure (Some (countResult result now a)) = hasUnauthorizedAuthFailure (Some a)"
  "existingModelState (countResult result now a) k = existingModelState a k"
  "cooldownDisabledForAuth env (countResult result now a) = cooldownDisabledForAuth env a"
  "credentialQuotaOpen (countResult result now a) t = credentialQuotaOpen a t"
  "credentialQuotaActive (countResult result now a) t = credentialQuotaActive a t"
  "stateAt (countResult result now a) k = stateAt a k"
  "isAuthActiveCooldown (Some (countResult result now a)) t = isAuthActiveCooldown (Some a) t"
  by (simp_all add: hasUnauthorizedAuthFailure_def existingModelState_def cooldownDisabledForAuth_def
      quotaCooldownDisabledForAuthWithConfig_def DisableCoolingOverride_def providerCoolingOverrideForAuth_def
      credentialQuotaOpen_def credentialQuotaActive_def stateAt_def isAuthActiveCooldown_def Let_def
      cong: option.case_cong)

lemma applyAuthFailureState_states [simp]:
  "ModelStates (applyAuthFailureState env err hint now disable a) = ModelStates a"
proof -
  have b: "ModelStates (authFailureBranch env e hint now d c) = ModelStates c" for e d c
    by (auto simp: authFailureBranch_def authQuotaFailure_def Let_def split: prod.splits)
  show ?thesis
    by (auto simp: applyAuthFailureState_def Let_def b split: option.splits)
qed

lemma recordRejected_frame:
  "fst (recordRejectedTokenOnAuth env t a) =
     a\<lparr>RejectedAccessToken := RejectedAccessToken (fst (recordRejectedTokenOnAuth env t a)),
       RejectedSIWCAccessToken := RejectedSIWCAccessToken (fst (recordRejectedTokenOnAuth env t a))\<rparr>"
  by (simp add: recordRejectedTokenOnAuth_def Let_def)

lemma recordRejected_simps [simp]:
  "ModelStates (fst (recordRejectedTokenOnAuth env t a)) = ModelStates a"
  "Quota (fst (recordRejectedTokenOnAuth env t a)) = Quota a"
  "Status (fst (recordRejectedTokenOnAuth env t a)) = Status a"
  "Disabled (fst (recordRejectedTokenOnAuth env t a)) = Disabled a"
  "Unavailable (fst (recordRejectedTokenOnAuth env t a)) = Unavailable a"
  "LastError (fst (recordRejectedTokenOnAuth env t a)) = LastError a"
  "NextRetryAfter (fst (recordRejectedTokenOnAuth env t a)) = NextRetryAfter a"
  "ID (fst (recordRejectedTokenOnAuth env t a)) = ID a"
  "Generation (fst (recordRejectedTokenOnAuth env t a)) = Generation a"
  "RegistrationEpoch (fst (recordRejectedTokenOnAuth env t a)) = RegistrationEpoch a"
  by (subst recordRejected_frame, simp)+

lemma closeResult_frame [simp]:
  "ModelStates (fst (closeResult env result w now a)) = ModelStates a"
  "Quota (fst (closeResult env result w now a)) = Quota a"
  "Disabled (fst (closeResult env result w now a)) = Disabled a"
  "LastError (fst (closeResult env result w now a)) = LastError a"
  "ID (fst (closeResult env result w now a)) = ID a"
  "Generation (fst (closeResult env result w now a)) = Generation a"
  "RegistrationEpoch (fst (closeResult env result w now a)) = RegistrationEpoch a"
  "\<not> w \<Longrightarrow> Status (fst (closeResult env result w now a)) = Status a"
  "\<not> w \<Longrightarrow> Unavailable (fst (closeResult env result w now a)) = Unavailable a"
  by (auto simp: closeResult_def Let_def)

lemma observe_simps [simp]:
  "Exceeded (ObserveResponseHeadersForProvider p sg t q) = Exceeded q"
  "Reason (ObserveResponseHeadersForProvider p sg t q) = Reason q"
  "NextRecoverAt (ObserveResponseHeadersForProvider p sg t q) = NextRecoverAt q"
  "BackoffLevel (ObserveResponseHeadersForProvider p sg t q) = BackoffLevel q"
  by (simp_all add: ObserveResponseHeadersForProvider_def)

lemma timed_observeQuota: "timedAuth a \<Longrightarrow> timedAuth (observeQuota result now k a)"
proof -
  assume a: "timedAuth a"
  have s: "timedState ((stateAt b key)\<lparr>MQuota := ObserveResponseHeadersForProvider p sg t (MQuota (stateAt b key))\<rparr>)"
    if "timedAuth b" for b key p sg t
    using timed_stateAt [OF that, of key] by (auto simp: timedState_def timed_def)
  show ?thesis
    using a s timed_putState
    by (auto simp: observeQuota_def Let_def timedAuth_def split: option.splits)
qed

lemma timed_modelSuccess: "timedAuth a \<Longrightarrow> timedAuth (modelSuccess now a key)"
  using timed_updateAggregated [of a now]
    timed_updateAggregated [OF timed_putState, of a "resetModelState now (stateAt a key)" now key]
  by (auto simp: modelSuccess_def Let_def timedAuth_def)

lemma timed_successTransition:
  assumes "timedAuth a"
  shows "timedAuth (fst (successTransition result k w now a))"
proof -
  have e: "timedAuth b" if "ensureModelState c k = Some (b, key)" "ModelStates c = ModelStates a" for b c key
    using timed_ensure [OF that(1)] assms that(2) by (simp add: timedAuth_def)
  have r: "timedAuth (putState key (resetModelState now s) b)" if "timedAuth b" for b key s
    using that by (simp add: timed_putState)
  have f: "ModelStates (clearAuthStateOnSuccess now c) = ModelStates c" for c
    by (simp add: clearAuthStateOnSuccess_def)
  show ?thesis
    using assms e r timed_modelSuccess
    unfolding successTransition_def Let_def
    by (auto simp: f timedAuth_def split: option.splits prod.splits)
qed

lemma timed_failureTransition:
  assumes "timedAuth a" and "0 \<le> now" and "settings_ok env"
  shows "timedAuth (fst (failureTransition env n result k w now a))"
  using assms timed_ensure [OF _ assms(1)] failModelState_timed [OF _ assms(2,3)]
  by (auto simp: failureTransition_def Let_def timedAuth_def split: option.splits)

end
