(* ===== verification/ResultCooling.thy ===== *)
theory ResultCooling
  imports MarkResultProofs
begin

text \<open>
  Which state a verdict depends on once the keys of the model states are canonical, and what the
  failure transition does to a cooldown that is still running.
\<close>

section \<open>Canonical keys\<close>

text \<open>The keys of a credential's model states are pairwise distinct and their own canonical form.\<close>

definition keys_ok :: "Auth \<Rightarrow> bool" where
  "keys_ok a \<longleftrightarrow> distinct (map fst (ModelStates a))
     \<and> list_all (\<lambda>k. k \<noteq> [] \<and> canonicalModelKey k = k) (map fst (ModelStates a))"

lemma stateKey_canonical: "k \<noteq> [] \<Longrightarrow> canonicalModelKey k = k \<Longrightarrow> stateKey k = k"
  by (simp add: stateKey_def Let_def)

lemma mergeStatesLoop_canonical:
  assumes "distinct (map fst ss)" and "\<forall>k \<in> set (map fst ss). k \<noteq> [] \<and> canonicalModelKey k = k"
    and "\<forall>k \<in> set (map fst ss). map_of ns k = None"
  shows "snd (mergeStatesLoop ss (ns, c)) = c"
  using assms
proof (induction ss "(ns, c)" arbitrary: ns c rule: mergeStatesLoop.induct)
  case (2 model state ss ns c)
  have m: "stateKey model = model" using "2.prems"(2) by (simp add: stateKey_canonical)
  have n: "map_of ns (stateKey model) = None" using "2.prems"(3) m by simp
  have "snd (mergeStatesLoop ss (AList.update (stateKey model) state ns, c \<or> stateKey model \<noteq> model)) =
      (c \<or> stateKey model \<noteq> model)"
    using "2.prems" m by (intro "2.hyps"(1) [OF refl refl n]) (auto simp: update_conv')
  with n m show ?case by (simp add: Let_def)
qed simp

lemma normalizeModelStates_canonical: "keys_ok a \<Longrightarrow> normalizeModelStates a = a"
  using mergeStatesLoop_canonical [of "ModelStates a" "[]" False]
  by (auto simp: keys_ok_def normalizeModelStates_def list_all_iff split: prod.splits)

lemma ensureModelState_canonical:
  assumes "keys_ok a" and "canonicalModelKey k \<noteq> []"
  shows "ensureModelState a k = Some (case map_of (ModelStates a) (canonicalModelKey k) of
     Some (Some _) \<Rightarrow> a
   | _ \<Rightarrow> putState (canonicalModelKey k) (emptyModelState\<lparr>MStatus := StatusActive\<rparr>) a, canonicalModelKey k)"
  using assms
  by (auto simp: ensureModelState_def normalizeModelStates_canonical putState_def Let_def split: option.splits)

lemma matching_canonical:
  assumes "keys_ok a"
  shows "s \<in> set (matching k (ModelStates a)) \<longleftrightarrow> map_of (ModelStates a) k = Some (Some s)"
proof -
  have d: "distinct (map fst (ModelStates a))" and c: "\<forall>(x, y) \<in> set (ModelStates a). canonicalModelKey x = x"
    using assms by (auto simp: keys_ok_def list_all_iff)
  have "s \<in> set (matching k (ModelStates a)) \<longleftrightarrow> (k, Some s) \<in> set (ModelStates a)"
    using c by (force simp: matching_def image_iff)
  with d show ?thesis by simp
qed

text \<open>With canonical keys the verdict on a model is that of the one state under its key.\<close>

lemma modelBlock_canonical:
  assumes "keys_ok a" and "model \<noteq> []" and "map_of (ModelStates a) (canonicalModelKey model) = Some (Some s)"
  shows "blocked (modelBlock a model now) \<longleftrightarrow> state_blocks now s"
proof -
  have "ModelStates a \<noteq> []" using assms(3) by auto
  then show ?thesis
    using assms(2,3) by (auto simp: modelBlock_def stateLoop_blocked_iff matching_canonical [OF assms(1)])
qed

lemma keys_ok_cong: "map fst (ModelStates a) = map fst (ModelStates b) \<Longrightarrow> keys_ok a = keys_ok b"
  by (simp add: keys_ok_def)

lemma keys_ok_putState:
  "keys_ok a \<Longrightarrow> k \<noteq> [] \<Longrightarrow> canonicalModelKey k = k \<Longrightarrow> keys_ok (putState k s a)"
  by (auto simp: keys_ok_def putState_def list_all_iff distinct_update update_keys)

lemma keys_updateAggregated [simp]: "keys_ok (updateAggregatedAvailability now a) = keys_ok a"
proof (rule keys_ok_cong)
  show "map fst (ModelStates (updateAggregatedAvailability now a)) = map fst (ModelStates a)"
    using updateAggregated_states [of now a] by (auto simp: o_def)
qed

lemma keys_onSiblings [simp]: "keys_ok (onSiblings key f a) = keys_ok a"
  by (rule keys_ok_cong) (simp add: onSiblings_def o_def case_prod_beta)

lemma stateAt_Some: "map_of (ModelStates a) k = Some (Some s) \<Longrightarrow> stateAt a k = s"
  by (simp add: stateAt_def)

lemma putState_lookup: "map_of (ModelStates (putState k s a)) k' = (if k' = k then Some (Some s) else map_of (ModelStates a) k')"
  by (simp add: putState_def update_conv')

section \<open>Cooling failures\<close>

definition cooling_on :: "'r cooldownEnv \<Rightarrow> bool" where
  "cooling_on env \<longleftrightarrow> settings_ok env \<and> 0 \<le> transientErrorCooldownSeconds env"

text \<open>A transient capacity rejection with an explicit zero hint asks for an immediate retry.\<close>

definition immediateRetry :: "Result \<Rightarrow> bool" where
  "immediateRetry result \<longleftrightarrow> isTransientRateLimitResultError (rError result) \<and> rRetryAfter result = Some 0"

lemma recoverable_on:
  assumes "cooling_on env"
  shows "now < recoverableFailureRetryAfterWithHint env now hint False"
proof -
  let ?s = "transientErrorCooldownSeconds env"
  have "wrap64 (?s * Second) = ?s * Second" if "0 < ?s"
    using that assms by (intro wrap64_id) (simp add: cooling_on_def settings_ok_def Second_def int64_defs)
  then show ?thesis
    using assms
    by (auto simp: recoverableFailureRetryAfterWithHint_def Let_def cooldown_consts cooling_on_def
        split: option.splits)
qed

lemma transientDeadline_mono: "now < next \<Longrightarrow> 0 \<le> now \<Longrightarrow> next \<le> transientDeadline now q next"
  by (auto simp: transientDeadline_def Let_def)

lemma coolState_cools:
  assumes "cooling_on env" and "0 \<le> now" and "\<not> immediateRetry result" and "MUnavailable s"
  shows "now < MNextRetryAfter (coolState env result False aq now saved prev s)
    \<and> MUnavailable (coolState env result False aq now saved prev s)"
proof -
  note rec = recoverable_on [OF assms(1), of now]
  have tr: "now < transientDeadline now q (transientRateLimitRetryAfter env now (rRetryAfter result) False)"
    if "failureKindOf env (rError result) = FailTransientRate" for q
  proof -
    have "rRetryAfter result \<noteq> Some 0"
      using that assms(3) by (auto simp: failureKindOf_def immediateRetry_def split: if_splits)
    then have "now < transientRateLimitRetryAfter env now (rRetryAfter result) False"
      using rec [of "rRetryAfter result"] by (simp add: transientRateLimitRetryAfter_def)
    from this transientDeadline_mono [OF this assms(2)] show ?thesis by (rule less_le_trans)
  qed
  have qd: "now < MNextRetryAfter (quotaStateFailure result False aq now saved prev s)
      \<and> MUnavailable (quotaStateFailure result False aq now saved prev s)"
    using assms(4) quotaDeadlines_cases [of result False aq "MQuota s" now]
    by (auto simp: quotaStateFailure_def split: prod.splits)
  have mis: "now < missingDeadline now hint False" for hint by (rule fixed_deadlines(2)) simp
  have nz: "recoverableFailureRetryAfterWithHint env now hint False \<noteq> 0" for hint
    using rec [of hint] assms(2) by linarith
  have trz: "transientDeadline now q (transientRateLimitRetryAfter env now (rRetryAfter result) False) \<noteq> 0"
    if "failureKindOf env (rError result) = FailTransientRate" for q
    using tr [OF that, of q] assms(2) by linarith
  show ?thesis
    using assms(4) qd cloudflare_deadline [of _ False now]
    by (auto simp: rec nz mis tr trz coolState_def Let_def recoverableFailureRetryAfter_def zeroIf_def duration_defs
        split: failureKind.splits prod.splits)
qed

lemma settleDeadline_cools:
  assumes "now < MNextRetryAfter s" and "0 \<le> now" and "MUnavailable s"
  shows "MUnavailable (settleDeadline err False now prev n s)
    \<and> MNextRetryAfter (settleDeadline err False now prev n s) =
        (if now < prev then max prev (MNextRetryAfter s) else MNextRetryAfter s)"
  using assms by (auto simp: settleDeadline_def Let_def)

text \<open>The model state a failure leaves under its key.\<close>

lemma failModelState_lookup:
  defines "own a now result \<equiv> \<not> rCredentialScope result \<and> credentialQuotaOpen a now"
  shows "map_of (ModelStates (failModelState env n result disable w now a key)) key =
      map_of (ModelStates (updateAggregatedAvailability now
        ((putState key (if own a now result
            then composeLayers (Quota a) now n (normalizeExpiredWrap a now (stateAt a key))
                   (failedState env n result disable w now a key)
            else failedState env n result disable w now a key)
          (failedAuth env n result disable w now a key))\<lparr>Status := StatusError\<rparr>))) key"
  by (simp add: failModelState_eq own_def Let_def)

lemma updateAggregated_keeps:
  assumes "map_of (ModelStates a) k = Some (Some s)" and "now < MNextRetryAfter s"
  shows "map_of (ModelStates (updateAggregatedAvailability now a)) k = Some (Some s)"
  using updateAggregated_lookup [of now a k] assms by auto

lemma failedState_extends:
  fixes env :: "'r cooldownEnv"
  assumes "cooling_on env" and "0 \<le> now" and "\<not> immediateRetry result"
    and "saved = normalizeExpiredWrap a now (stateAt a key)"
    and "prev = MNextRetryAfter (if \<not> rCredentialScope result \<and> credentialQuotaOpen a now then ownLayer saved else saved)"
  shows "now < MNextRetryAfter (failedState env n result False w now a key)"
    and "MUnavailable (failedState env n result False w now a key)"
    and "now < prev \<Longrightarrow> prev \<le> MNextRetryAfter (failedState env n result False w now a key)"
proof -
  let ?s = "if \<not> rCredentialScope result \<and> credentialQuotaOpen a now then ownLayer saved else saved"
  let ?r = "recordError (rError result) (?s\<lparr>MUnavailable := True, MStatus := StatusError, MUpdatedAt := now\<rparr>)"
  let ?c = "coolState env result False (Quota a) now saved prev ?r"
  let ?m = "if marksWrap env result False w then ?c\<lparr>credentialQuotaPropagated := True\<rparr> else ?c"
  have f: "failedState env n result False w now a key = settleDeadline (rError result) False now prev n ?m"
    by (simp add: failedState_def assms(4,5) Let_def)
  have "now < MNextRetryAfter ?c \<and> MUnavailable ?c"
    by (rule coolState_cools [OF assms(1-3)]) simp
  then have m: "now < MNextRetryAfter ?m" "MUnavailable ?m" by auto
  note d = settleDeadline_cools [OF m(1) assms(2) m(2), of "rError result" prev n]
  show "now < MNextRetryAfter (failedState env n result False w now a key)"
    "MUnavailable (failedState env n result False w now a key)"
    "now < prev \<Longrightarrow> prev \<le> MNextRetryAfter (failedState env n result False w now a key)"
    unfolding f using d m(1) by (auto simp: max_def)
qed

lemma composeLayers_extends:
  "MUnavailable (composeLayers aq now n saved s)"
  "MNextRetryAfter saved \<le> MNextRetryAfter (composeLayers aq now n saved s)"
  "NextRecoverAt aq \<le> MNextRetryAfter (composeLayers aq now n saved s)"
  by (auto simp: composeLayers_def Let_def)

text \<open>A live state outside an expired wrap is where the failure starts from.\<close>

definition wrapSettled :: "Auth \<Rightarrow> gotime \<Rightarrow> ModelState \<Rightarrow> bool" where
  "wrapSettled a now s \<longleftrightarrow> credentialQuotaActive a now
     \<or> (\<not> credentialQuotaPropagated s \<and> Reason (MQuota s) \<noteq> ''credential_quota'')"

lemma normalizeExpiredWrap_settled: "wrapSettled a now s \<Longrightarrow> normalizeExpiredWrap a now s = s"
  by (auto simp: wrapSettled_def normalizeExpiredWrap_def)

lemma failModelState_extends:
  assumes "cooling_on env" and "0 \<le> now" and "\<not> immediateRetry result"
    and "map_of (ModelStates a) key = Some (Some s)"
  shows "\<exists>s'. map_of (ModelStates (failModelState env n result False w now a key)) key = Some (Some s')
    \<and> MUnavailable s' \<and> now < MNextRetryAfter s'
    \<and> (wrapSettled a now s \<longrightarrow> now < MNextRetryAfter s \<longrightarrow> MNextRetryAfter s \<le> MNextRetryAfter s')"
proof -
  let ?f = "failedState env n result False w now a key"
  let ?own = "\<not> rCredentialScope result \<and> credentialQuotaOpen a now"
  define saved where "saved = normalizeExpiredWrap a now (stateAt a key)"
  define x where "x = (if ?own then composeLayers (Quota a) now n saved ?f else ?f)"
  note ext = failedState_extends [OF assms(1-3) saved_def refl, of n w]
  have x: "MUnavailable x" using ext(2) composeLayers_extends(1) by (simp add: x_def)
  have now: "now < MNextRetryAfter x"
    using ext(1) less_le_trans [OF _ composeLayers_extends(3)] by (auto simp: x_def credentialQuotaOpen_def)
  have mono: "MNextRetryAfter s \<le> MNextRetryAfter x" if "wrapSettled a now s" "now < MNextRetryAfter s"
  proof -
    have "saved = s"
      using that(1) assms(4) by (simp add: saved_def stateAt_Some normalizeExpiredWrap_settled)
    then show ?thesis using ext(3) that(2) composeLayers_extends(2) by (auto simp: x_def)
  qed
  have "map_of (ModelStates ((putState key x (failedAuth env n result False w now a key))\<lparr>Status := StatusError\<rparr>)) key
      = Some (Some x)"
    by (simp add: putState_lookup)
  from updateAggregated_keeps [OF this now]
  have "map_of (ModelStates (failModelState env n result False w now a key)) key = Some (Some x)"
    unfolding failModelState_lookup x_def saved_def by simp
  with x now mono show ?thesis by blast
qed

section \<open>Verdicts after a result\<close>

lemma observeQuota_lookup:
  assumes "map_of (ModelStates a) k = Some (Some s)"
  shows "\<exists>q. map_of (ModelStates (observeQuota result now ko a)) k = Some (Some (s\<lparr>MQuota := q\<rparr>))
    \<and> Exceeded q = Exceeded (MQuota s) \<and> NextRecoverAt q = NextRecoverAt (MQuota s) \<and> Reason q = Reason (MQuota s)"
proof -
  let ?q = "ObserveResponseHeadersForProvider (rProvider result) (signals result) now (MQuota s)"
  have "map_of (ModelStates (observeQuota result now ko a)) k = Some (Some s)
      \<or> map_of (ModelStates (observeQuota result now ko a)) k = Some (Some (s\<lparr>MQuota := ?q\<rparr>))"
    using assms by (auto simp: observeQuota_def Let_def putState_lookup stateAt_def split: option.splits)
  then show ?thesis
  proof
    assume "map_of (ModelStates (observeQuota result now ko a)) k = Some (Some s)"
    then show ?thesis by (intro exI [of _ "MQuota s"]) simp
  next
    assume "map_of (ModelStates (observeQuota result now ko a)) k = Some (Some (s\<lparr>MQuota := ?q\<rparr>))"
    then show ?thesis by (intro exI [of _ ?q]) simp
  qed
qed

lemma canonicalModelKey_Nil [simp]: "canonicalModelKey [] = []"
  by (simp add: canonicalModelKey_def)

text \<open>A blocking state under the key of a model blocks the model, whatever else the record says.\<close>

lemma blocked_by_state:
  assumes "map_of (ModelStates a) key = Some (Some s)" and "canonicalModelKey key = key" and "key \<noteq> []"
    and "canonicalModelKey model = key" and "state_blocks u s"
  shows "blocked (isAuthBlockedForModel accessExp (Some a) model u)"
proof -
  have m: "model \<noteq> []" "ModelStates a \<noteq> []" using assms(1,3,4) by auto
  have "s \<in> set (matching key (ModelStates a))"
    using map_of_SomeD [OF assms(1)] assms(2) by (force simp: matching_def)
  with assms(4,5) m have "blocked (modelBlock a model u)"
    by (auto simp: modelBlock_def stateLoop_blocked_iff)
  then show ?thesis by (simp add: isAuthBlockedForModel_Some)
qed

lemma state_blocks_retry: "0 \<le> u \<Longrightarrow> MUnavailable s \<Longrightarrow> u < MNextRetryAfter s \<Longrightarrow> state_blocks u s"
  by (simp add: state_blocks_def stateBlock_def availabilityBlock_blocked)

lemma keys_ok_lookup:
  "keys_ok a \<Longrightarrow> map_of (ModelStates a) k = Some v \<Longrightarrow> canonicalModelKey k = k \<and> k \<noteq> []"
  by (force simp: keys_ok_def list_all_iff dest: map_of_SomeD)

lemma ensureModelState_lookup:
  assumes "keys_ok a" and "canonicalModelKey k \<noteq> []"
  obtains b s where "ensureModelState a k = Some (b, canonicalModelKey k)"
    "map_of (ModelStates b) (canonicalModelKey k) = Some (Some s)"
    "\<And>x. map_of (ModelStates a) (canonicalModelKey k) = Some (Some x) \<Longrightarrow> b = a \<and> s = x"
    "Quota b = Quota a"
proof (cases "\<exists>x. map_of (ModelStates a) (canonicalModelKey k) = Some (Some x)")
  case True
  then obtain x where x: "map_of (ModelStates a) (canonicalModelKey k) = Some (Some x)" by blast
  have e: "ensureModelState a k = Some (a, canonicalModelKey k)"
    using ensureModelState_canonical [OF assms] x by simp
  show ?thesis by (rule that [OF e x]) (simp_all add: x)
next
  case False
  let ?e = "emptyModelState\<lparr>MStatus := StatusActive\<rparr>"
  have e: "ensureModelState a k = Some (putState (canonicalModelKey k) ?e a, canonicalModelKey k)"
    using False ensureModelState_canonical [OF assms] by (auto split: option.splits)
  show ?thesis
  proof (rule that [OF e])
    show "map_of (ModelStates (putState (canonicalModelKey k) ?e a)) (canonicalModelKey k) = Some (Some ?e)"
      by (simp add: putState_lookup)
    show "Quota (putState (canonicalModelKey k) ?e a) = Quota a" by (simp add: putState_def)
  qed (use False in blast)
qed

text \<open>The parts of \<open>applyResult\<close> without its tuples.\<close>

definition transition :: "'r cooldownEnv \<Rightarrow> nat \<Rightarrow> Result \<Rightarrow> gotime \<Rightarrow> Auth \<Rightarrow> Auth \<times> string option" where
  "transition env n result now a =
     (let k = resultModelKey env result a; w = hasUnauthorizedAuthFailure (Some a); c = countResult result now a
      in if rSuccess result then successTransition result k w now c else failureTransition env n result k w now c)"

definition closed :: "'r cooldownEnv \<Rightarrow> Result \<Rightarrow> gotime \<Rightarrow> bool \<Rightarrow> Auth \<Rightarrow> Auth" where
  "closed env result now w a =
     (let c = fst (closeResult env result w now a) in c\<lparr>Generation := wrapU64 (Generation c + 1), UpdatedAt := now\<rparr>)"

lemma applyResult_eq:
  "fst (applyResult env n result now a) =
     observeQuota result now (snd (transition env n result now a))
       (closed env result now (hasUnauthorizedAuthFailure (Some a)) (fst (transition env n result now a)))"
  by (simp add: applyResult_def transition_def closed_def Let_def case_prod_beta)

lemma closed_frame [simp]:
  "ModelStates (closed env result now w a) = ModelStates a" "Quota (closed env result now w a) = Quota a"
  "Disabled (closed env result now w a) = Disabled a" "LastError (closed env result now w a) = LastError a"
  "\<not> w \<Longrightarrow> Status (closed env result now w a) = Status a"
  "\<not> w \<Longrightarrow> Unavailable (closed env result now w a) = Unavailable a"
  "ID (closed env result now w a) = ID a" "RegistrationEpoch (closed env result now w a) = RegistrationEpoch a"
  "Generation (closed env result now w a) = wrapU64 (Generation a + 1)"
  "UpdatedAt (closed env result now w a) = now"
  by (simp_all add: closed_def Let_def)

text \<open>A failure that counts leaves its model cooling, and no shorter than it was.\<close>

lemma applyResult_failure:
  assumes "cooling_on env" and "forced (rError result) \<or> \<not> cooldownDisabledForAuth env a" and "0 \<le> now"
    and "\<not> rSuccess result" and "\<not> immediateRetry result" and "keys_ok a"
    and "resultModelKey env result a \<noteq> []" and "key = canonicalModelKey (resultModelKey env result a)"
    and "\<not> shouldSkipCredentialCooldown (jsonOf env) (rError result)"
  shows "\<exists>s'. map_of (ModelStates (fst (applyResult env n result now a))) key = Some (Some s')
    \<and> MUnavailable s' \<and> now < MNextRetryAfter s'
    \<and> (\<forall>s. map_of (ModelStates a) key = Some (Some s) \<longrightarrow> wrapSettled a now s \<longrightarrow>
         now < MNextRetryAfter s \<longrightarrow> MNextRetryAfter s \<le> MNextRetryAfter s')"
proof -
  let ?c = "countResult result now a" and ?w = "hasUnauthorizedAuthFailure (Some a)"
  let ?k = "resultModelKey env result a"
  have kc: "keys_ok ?c" using assms(6) by (simp add: keys_ok_def)
  obtain b s where b: "ensureModelState ?c ?k = Some (b, key)" "map_of (ModelStates b) key = Some (Some s)"
    "\<And>x. map_of (ModelStates a) key = Some (Some x) \<Longrightarrow> b = ?c \<and> s = x"
    using ensureModelState_lookup [OF kc resultModelKey_ok [OF assms(7)]] assms(8) by (metis countResult_frame(1))
  let ?f = "failModelState env n result False ?w now b key"
  obtain s' where s': "map_of (ModelStates ?f) key = Some (Some s')" "MUnavailable s'" "now < MNextRetryAfter s'"
    "wrapSettled b now s \<longrightarrow> now < MNextRetryAfter s \<longrightarrow> MNextRetryAfter s \<le> MNextRetryAfter s'"
    using failModelState_extends [OF assms(1,3,5) b(2), of n ?w] by blast
  have t: "failureTransition env n result ?k ?w now ?c = (?f, Some key)"
    using assms(2,7,9) b(1) by (auto simp: failureTransition_def Let_def)
  let ?d = "closed env result now ?w ?f"
  have r: "fst (applyResult env n result now a) = observeQuota result now (Some key) ?d"
    using assms(4) t by (simp add: applyResult_eq transition_def Let_def)
  have "map_of (ModelStates ?d) key = Some (Some s')" using s'(1) by simp
  from observeQuota_lookup [OF this] obtain q where
    q: "map_of (ModelStates (observeQuota result now (Some key) ?d)) key = Some (Some (s'\<lparr>MQuota := q\<rparr>))"
    by blast
  have w: "wrapSettled ?c now x = wrapSettled a now x" for x by (simp add: wrapSettled_def)
  have "\<forall>x. map_of (ModelStates a) key = Some (Some x) \<longrightarrow> wrapSettled a now x \<longrightarrow>
         now < MNextRetryAfter x \<longrightarrow> MNextRetryAfter x \<le> MNextRetryAfter s'"
    using b(3) s'(4) w by metis
  with q s'(2,3) show ?thesis unfolding r by (intro exI [of _ "s'\<lparr>MQuota := q\<rparr>"]) simp
qed

section \<open>Results that change no verdict\<close>

text \<open>What the expiry of an access token is read from.\<close>

definition readsTokens :: "(Auth \<Rightarrow> gotime option) \<Rightarrow> bool" where
  "readsTokens accessExp \<longleftrightarrow>
     (\<forall>x y. Metadata x = Metadata y \<longrightarrow> Attributes x = Attributes y \<longrightarrow> Provider x = Provider y \<longrightarrow>
        RejectedAccessToken x = RejectedAccessToken y \<longrightarrow> RejectedSIWCAccessToken x = RejectedSIWCAccessToken y \<longrightarrow>
        accessExp x = accessExp y)"

definition sameState :: "ModelState \<Rightarrow> ModelState \<Rightarrow> bool" where
  "sameState x y \<longleftrightarrow> MStatus x = MStatus y \<and> stateBlock x = stateBlock y"

definition sameStates :: "(string, ModelState option) gomap \<Rightarrow> (string, ModelState option) gomap \<Rightarrow> bool" where
  "sameStates = list_all2 (\<lambda>x y. fst x = fst y \<and> rel_option sameState (snd x) (snd y))"

lemma sameState_refl [simp]: "sameState x x"
  by (simp add: sameState_def)

lemma sameStates_refl [simp]: "sameStates ss ss"
  unfolding sameStates_def by (rule list_all2_refl) (auto simp: option.rel_refl)

lemma sameStates_loop:
  "sameStates ss ss' \<Longrightarrow> stateLoop key now ss m acc = stateLoop key now ss' m acc"
  unfolding sameStates_def
proof (induction ss ss' arbitrary: m acc rule: list_all2_induct)
  case (Cons x ss y ss')
  obtain k s where x: "x = (k, s)" by (cases x)
  obtain s' where y: "y = (k, s')" "rel_option sameState s s'" using Cons(1) x by (cases y) auto
  from y(2) show ?case
    by (cases rule: option.rel_cases) (auto simp: x y(1) Cons.IH sameState_def Let_def)
qed simp

lemma sameStates_update:
  "map_of ss k = Some (Some s) \<Longrightarrow> sameState s s' \<Longrightarrow> sameStates ss (AList.update k (Some s') ss)"
proof (induction ss)
  case (Cons x ss)
  obtain k' v where x: "x = (k', v)" by (cases x)
  have r: "rel_option sameState v v" by (rule option.rel_refl) simp
  show ?case
  proof (cases "k' = k")
    case True
    with Cons.prems x show ?thesis using sameStates_refl [of ss] by (simp add: sameStates_def)
  next
    case False
    with Cons.prems x have "sameStates ss (AList.update k (Some s') ss)" by (intro Cons.IH) auto
    with False x r show ?thesis by (simp add: sameStates_def)
  qed
qed simp

text \<open>The verdict reads only these fields.\<close>

lemma verdict_cong:
  assumes "Disabled a = Disabled b" and "Status a = Status b" and "Unavailable a = Unavailable b"
    and "NextRetryAfter a = NextRetryAfter b" and "NextRefreshAfter a = NextRefreshAfter b"
    and "LastError a = LastError b" and "accessExp a = accessExp b"
    and "Exceeded (Quota a) = Exceeded (Quota b)" and "Reason (Quota a) = Reason (Quota b)"
    and "NextRecoverAt (Quota a) = NextRecoverAt (Quota b)" and "sameStates (ModelStates a) (ModelStates b)"
  shows "isAuthBlockedForModel accessExp (Some a) model now = isAuthBlockedForModel accessExp (Some b) model now"
proof -
  have n: "ModelStates a = [] \<longleftrightarrow> ModelStates b = []"
    using assms(11) by (auto simp: sameStates_def)
  have u: "hasUnauthorizedAuthFailure (Some a) = hasUnauthorizedAuthFailure (Some b)"
    using assms(2-6) by (simp add: hasUnauthorizedAuthFailure_def cong: option.case_cong)
  show ?thesis
    using assms(1-4,7-10) n u sameStates_loop [OF assms(11)]
    by (simp add: isAuthBlockedForModel_Some modelBlock_def tokenExpired_def credentialQuotaActive_def)
qed

lemma observeQuota_frame [simp]:
  "Disabled (observeQuota r now ko a) = Disabled a" "Status (observeQuota r now ko a) = Status a"
  "Unavailable (observeQuota r now ko a) = Unavailable a" "LastError (observeQuota r now ko a) = LastError a"
  "NextRetryAfter (observeQuota r now ko a) = NextRetryAfter a" "Metadata (observeQuota r now ko a) = Metadata a"
  "NextRefreshAfter (observeQuota r now ko a) = NextRefreshAfter a" "Attributes (observeQuota r now ko a) = Attributes a"
  "Provider (observeQuota r now ko a) = Provider a" "Exceeded (Quota (observeQuota r now ko a)) = Exceeded (Quota a)"
  "Reason (Quota (observeQuota r now ko a)) = Reason (Quota a)" "ID (observeQuota r now ko a) = ID a"
  "NextRecoverAt (Quota (observeQuota r now ko a)) = NextRecoverAt (Quota a)"
  "RejectedAccessToken (observeQuota r now ko a) = RejectedAccessToken a"
  "RejectedSIWCAccessToken (observeQuota r now ko a) = RejectedSIWCAccessToken a"
  "Generation (observeQuota r now ko a) = Generation a" "UpdatedAt (observeQuota r now ko a) = UpdatedAt a"
  "RegistrationEpoch (observeQuota r now ko a) = RegistrationEpoch a"
  by (auto simp: observeQuota_def putState_def Let_def split: option.splits)

lemma observeQuota_same:
  assumes "\<And>k. ko = Some k \<Longrightarrow> \<exists>s. map_of (ModelStates a) k = Some (Some s)"
  shows "sameStates (ModelStates a) (ModelStates (observeQuota r now ko a))"
proof (cases ko)
  case None
  then show ?thesis by (simp add: observeQuota_def Let_def)
next
  case (Some k)
  with assms obtain s where s: "map_of (ModelStates a) k = Some (Some s)" by blast
  have "sameState s (s\<lparr>MQuota := ObserveResponseHeadersForProvider p sg t (MQuota s)\<rparr>)" for p sg t
    by (simp add: sameState_def stateBlock_def fun_eq_iff)
  from sameStates_update [OF s this] s Some show ?thesis
    by (simp add: observeQuota_def putState_def stateAt_def Let_def)
qed

lemma countResult_seq:
  "(countResult result now a)\<lparr>cooldownRecordedSeq := cooldownRecordedSeq a\<rparr> = countResult result now a"
  by (simp add: countResult_def recordRecentRequest_def Let_def)

lemma existing_key:
  "map_option (\<lambda>_. canonicalModelKey k) (existingModelState a k) = Some key \<Longrightarrow>
   \<exists>s. map_of (ModelStates a) key = Some (Some s)"
  by (auto simp: existingModelState_def Let_def split: option.splits if_splits)

text \<open>A result whose transition leaves the credential alone and that rejects no token.\<close>

lemma quiet_result:
  assumes "readsTokens accessExp" and "\<not> rejectsToken env result"
    and "transition env n result now a = ((countResult result now a)\<lparr>cooldownRecordedSeq := q\<rparr>,
      map_option (\<lambda>_. canonicalModelKey k) (existingModelState a k))"
  shows "isAuthBlockedForModel accessExp (Some (fst (applyResult env n result now a))) model u =
    isAuthBlockedForModel accessExp (Some a) model u"
proof -
  let ?w = "hasUnauthorizedAuthFailure (Some a)" and ?c = "(countResult result now a)\<lparr>cooldownRecordedSeq := q\<rparr>"
  let ?ko = "map_option (\<lambda>_. canonicalModelKey k) (existingModelState a k)"
  let ?d = "closed env result now ?w ?c"
  have d: "Disabled ?d = Disabled a" "Status ?d = Status a" "Unavailable ?d = Unavailable a"
    "NextRetryAfter ?d = NextRetryAfter a" "NextRefreshAfter ?d = NextRefreshAfter a" "LastError ?d = LastError a"
    "Quota ?d = Quota a" "ModelStates ?d = ModelStates a" "Metadata ?d = Metadata a" "Attributes ?d = Attributes a"
    "Provider ?d = Provider a" "RejectedAccessToken ?d = RejectedAccessToken a"
    "RejectedSIWCAccessToken ?d = RejectedSIWCAccessToken a"
    using assms(2)
    by (auto simp: closed_def closeResult_def Let_def hasUnauthorizedAuthFailure_def countResult_def
        recordRecentRequest_def split: option.splits)
  have r: "fst (applyResult env n result now a) = observeQuota result now ?ko ?d"
    by (simp add: applyResult_eq assms(3))
  have "accessExp (observeQuota result now ?ko ?d) = accessExp a"
    using assms(1) d unfolding readsTokens_def by (metis observeQuota_frame)
  moreover have "sameStates (ModelStates a) (ModelStates (observeQuota result now ?ko ?d))"
    using observeQuota_same [of ?ko ?d] existing_key d(8) by metis
  ultimately show ?thesis
    unfolding r by (intro verdict_cong [symmetric]) (simp_all add: d)
qed

section \<open>A success that counts\<close>

lemma reset_not_blocking: "\<not> stateUnavailable now (resetModelState t s)" "\<not> state_blocks u (resetModelState t s)"
  "expireState now (resetModelState t s) = resetModelState t s"
  by (simp_all add: resetModelState_def stateUnavailable_def state_blocks_def stateBlock_def
      availabilityBlock_def notBlocked_def expireState_def)

lemma aggregateQuota_reason:
  "Reason (aggregateQuota g now q) = ''credential_quota'' \<Longrightarrow> now < NextRecoverAt (aggregateQuota g now q) \<Longrightarrow>
   Exceeded (aggregateQuota g now q) \<Longrightarrow> aggregateQuota g now q = q"
  by (auto simp: aggregateQuota_def split: if_splits)

lemma modelSuccess_frees:
  assumes "keys_ok b" and "map_of (ModelStates b) key = Some (Some s)" and "\<not> hasActiveUsageLimitBlock s now"
    and "0 \<le> now" and "\<not> hasUnauthorizedAuthFailure (Some b)" and "\<not> credentialQuotaOpen b now"
    and "Status b \<noteq> StatusDisabled"
  defines "f \<equiv> modelSuccess now b key"
  shows "map_of (ModelStates f) key = Some (Some (resetModelState now s))" and "keys_ok f"
    and "\<not> Unavailable f" and "\<not> credentialQuotaActive f now" and "Status f \<noteq> StatusDisabled"
    and "Disabled f = Disabled b"
proof -
  let ?r = "putState key (resetModelState now s) b"
  let ?u = "updateAggregatedAvailability now ?r"
  have f: "f = (if hasModelError ?u now then ?u else ?u\<lparr>LastError := None, StatusMessage := [], Status := StatusActive\<rparr>)"
    using assms(2,3) by (simp add: f_def modelSuccess_def stateAt_Some Let_def)
  have fr: "Status ?r = Status b" "Disabled ?r = Disabled b" "Quota ?r = Quota b" "LastError ?r = LastError b"
    "hasUnauthorizedAuthFailure (Some ?r) = hasUnauthorizedAuthFailure (Some b)"
    by (simp_all add: putState_def hasUnauthorizedAuthFailure_def cong: option.case_cong)
  have key: "canonicalModelKey key = key" "key \<noteq> []" using keys_ok_lookup [OF assms(1,2)] by auto
  have m: "map_of (ModelStates ?r) key = Some (Some (resetModelState now s))" by (simp add: putState_lookup)
  then have live: "resetModelState now s \<in> set (liveStates ?r)"
    by (force simp: set_liveStates dest: map_of_SomeD)
  have nq: "\<not> credentialQuotaActive ?r now"
    using assms(6) by (auto simp: credentialQuotaActive_def credentialQuotaOpen_def fr)
  have u: "?u = (let g = aggregates now (set (liveStates ?r))
     in ?r\<lparr>ModelStates := map (map_prod id (map_option (expireState now))) (ModelStates ?r),
          Unavailable := allUnavailable g, NextRetryAfter := (if allUnavailable g then earliestRetry g else 0),
          Quota := aggregateQuota g now (Quota ?r)\<rparr>)"
    using assms(5) fr(5) nq live by (intro updateAggregated_eq) auto
  have "\<not> allUnavailable (aggregates now (set (liveStates ?r)))"
    using live reset_not_blocking(1) by (auto simp: aggregates_def)
  then have "\<not> Unavailable ?u" by (subst u) (simp add: Let_def)
  then show "\<not> Unavailable f" by (simp add: f)
  have "map_of (ModelStates ?u) key = Some (Some (resetModelState now s))"
    by (subst u) (simp add: Let_def map_of_map_prod m reset_not_blocking)
  then show "map_of (ModelStates f) key = Some (Some (resetModelState now s))" by (simp add: f)
  have "keys_ok ?u" using keys_ok_putState [OF assms(1) key(2,1)] by simp
  then show "keys_ok f" by (simp add: f keys_ok_def)
  have "Quota ?u = aggregateQuota (aggregates now (set (liveStates ?r))) now (Quota b)"
    by (subst u) (simp add: Let_def fr)
  then have "\<not> credentialQuotaActive ?u now"
    using aggregateQuota_reason [of "aggregates now (set (liveStates ?r))" now "Quota b"] nq fr(3)
    by (auto simp: credentialQuotaActive_def)
  then show "\<not> credentialQuotaActive f now" by (simp add: f credentialQuotaActive_def)
  show "Status f \<noteq> StatusDisabled" using assms(7) by (simp add: f fr)
  show "Disabled f = Disabled b" by (simp add: f fr)
qed

lemma free_verdict:
  assumes "keys_ok f" and "map_of (ModelStates f) (canonicalModelKey model) = Some (Some s)"
    and "\<And>u. \<not> state_blocks u s" and "model \<noteq> []" and "\<not> Unavailable f" and "\<not> credentialQuotaActive f now"
    and "Status f \<noteq> StatusDisabled" and "\<not> Disabled f" and "now \<le> u" and "\<not> tokenExpired accessExp f u"
  shows "\<not> blocked (isAuthBlockedForModel accessExp (Some f) model u)"
proof -
  have "\<not> credentialQuotaActive f u" using assms(6,9) by (auto simp: credentialQuotaActive_def)
  moreover have "\<not> hasUnauthorizedAuthFailure (Some f)"
    using assms(5) by (auto simp: hasUnauthorizedAuthFailure_def split: option.splits)
  moreover have "\<not> blocked (modelBlock f model u)"
    using modelBlock_canonical [OF assms(1,4,2)] assms(3) by simp
  ultimately show ?thesis using assms(7,8,10) by (simp add: isAuthBlockedForModel_Some)
qed

text \<open>The verdict after the closing steps, whose observation of quota headers it does not see.\<close>

lemma observed_verdict:
  assumes "\<And>k. ko = Some k \<Longrightarrow> \<exists>s. map_of (ModelStates a) k = Some (Some s)"
  shows "isAuthBlockedForModel accessExp (Some (observeQuota r now ko a)) model u =
    isAuthBlockedForModel (\<lambda>_. accessExp (observeQuota r now ko a)) (Some a) model u"
proof -
  have "isAuthBlockedForModel accessExp (Some (observeQuota r now ko a)) model u =
      isAuthBlockedForModel (\<lambda>_. accessExp (observeQuota r now ko a)) (Some (observeQuota r now ko a)) model u"
    by (simp add: isAuthBlockedForModel_Some tokenExpired_def)
  also have "\<dots> = isAuthBlockedForModel (\<lambda>_. accessExp (observeQuota r now ko a)) (Some a) model u"
    by (rule verdict_cong [symmetric]) (simp_all add: observeQuota_same [OF assms])
  finally show ?thesis .
qed

end
