(* ===== verification/ResultProperties.thy ===== *)
theory ResultProperties
  imports ResultCooling
begin

text \<open>
  What recorded results do to the availability of a credential: every block they set has an end,
  later failures never shorten a live cooldown, a success dispatched before a cooldown does not
  lift it and a later one does, failures that are not the credential's fault change no verdict.
\<close>

section \<open>Every block ends\<close>

lemma applyResult_timed:
  assumes "timedAuth a" and "0 \<le> now" and "settings_ok env"
  shows "timedAuth (fst (applyResult env n result now a))"
proof -
  let ?c = "countResult result now a" and ?w = "hasUnauthorizedAuthFailure (Some a)"
  let ?k = "resultModelKey env result a"
  let ?t = "if rSuccess result then successTransition result ?k ?w now ?c
     else failureTransition env n result ?k ?w now ?c"
  have "timedAuth ?c" using assms(1) by (simp add: timedAuth_def)
  then have "timedAuth (fst ?t)"
    using timed_successTransition [of ?c] timed_failureTransition [OF _ assms(2,3), of ?c] by simp
  then have "timedAuth ((fst (closeResult env result ?w now (fst ?t)))\<lparr>Generation := g, UpdatedAt := now\<rparr>)" for g
    by (simp add: timedAuth_def)
  from timed_observeQuota [OF this] show ?thesis
    by (auto simp: applyResult_def Let_def split: prod.splits)
qed

definition markRun :: "'r cooldownEnv \<Rightarrow> (Result \<times> gotime) list \<Rightarrow> manager \<Rightarrow> manager" where
  "markRun env rs m = fold (\<lambda>(result, now) m. fst (MarkResult env result now m)) rs m"

definition managerTimed :: "manager \<Rightarrow> bool" where
  "managerTimed m \<longleftrightarrow> (\<forall>i a. map_of (mAuths m) i = Some (Some a) \<longrightarrow> timedAuth a)"

lemma staleResult_states [simp]: "ModelStates (staleResult env result now a) = ModelStates a"
proof -
  have "ModelStates b = ModelStates a" if "recordRejectedTokenOnAuth env t a = (b, c)" for t b c
    using recordRejected_simps(1) [of env t a] that by simp
  then show ?thesis by (auto simp: staleResult_def Let_def split: prod.splits)
qed

lemma MarkResult_timed:
  assumes "managerTimed m" and "0 \<le> now" and "settings_ok env"
  shows "managerTimed (fst (MarkResult env result now m))"
proof -
  let ?r = "case mResultPolicy m of None \<Rightarrow> result | Some policy \<Rightarrow> policy result"
  show ?thesis
  proof (cases "\<exists>a. rAuthID result \<noteq> [] \<and> rAuthID ?r \<noteq> [] \<and> map_of (mAuths m) (rAuthID ?r) = Some (Some a)")
    case True
    then obtain a where a: "rAuthID result \<noteq> []" "rAuthID ?r \<noteq> []" "map_of (mAuths m) (rAuthID ?r) = Some (Some a)"
      by blast
    have t: "timedAuth a" using assms(1) a(3) by (auto simp: managerTimed_def)
    obtain b where b: "timedAuth b" "mAuths (fst (MarkResult env result now m)) = AList.update (rAuthID ?r) (Some b) (mAuths m)"
    proof (cases "isStaleExecutionResult env ?r a")
      case True
      then show ?thesis
        using that [of "staleResult env ?r now a"] t a by (simp add: MarkResult_def Let_def timedAuth_def)
    next
      case False
      then show ?thesis
        using that [of "fst (applyResult env (mExecutionSeq m) ?r now a)"] applyResult_timed [OF t assms(2,3)] a
        by (auto simp: MarkResult_def Let_def split: prod.splits)
    qed
    with assms(1) show ?thesis by (auto simp: managerTimed_def update_conv' split: if_splits)
  next
    case False
    then have "fst (MarkResult env result now m) = m"
      by (auto simp: MarkResult_def Let_def split: option.splits)
    with assms(1) show ?thesis by simp
  qed
qed

lemma markRun_timed:
  assumes "managerTimed m" and "settings_ok env" and "\<forall>x \<in> set rs. 0 \<le> snd x"
  shows "managerTimed (markRun env rs m)"
  using assms(1,3) unfolding markRun_def
  by (induction rs arbitrary: m) (auto simp: MarkResult_timed assms(2))

lemma matching_mem:
  "s \<in> set (matching key ss) \<Longrightarrow> \<exists>k. (k, Some s) \<in> set ss \<and> canonicalModelKey k = key"
  by (auto simp: matching_def)

lemma timed_not_forever:
  "timedState s \<Longrightarrow> 0 \<le> now \<Longrightarrow> state_forever now s \<Longrightarrow> MStatus s = StatusDisabled"
  by (auto simp: timedState_def timed_def state_forever_def stateBlock_def availabilityBlock_blocked
      availabilityBlock_next split: if_splits)


text \<open>A setting without JSON bodies, one credential, and results of a model on it.\<close>

definition wCool :: "string cooldownEnv" where
  "wCool = \<lparr>ojValid = (\<lambda>_. False), ojGet = (\<lambda>_ _. []), ojSub = (\<lambda>_ _. []), ojExists = (\<lambda>_. False),
     ojString = (\<lambda>s. s), ojIsJSON = (\<lambda>_. False), jsonUnmarshal = (\<lambda>_. None),
     transientErrorCooldownSeconds = 0, quotaCooldownDisabled = False, runtimeConfig = None,
     selectionModelForAuth = (\<lambda>_ m. m), siwcAccessToken = (\<lambda>_. []), siwcHasRefresh = (\<lambda>_ _. False)\<rparr>"

definition wSuccess :: "nat \<Rightarrow> Result" where
  "wSuccess n = \<lparr>rAuthID = ''a'', rProvider = ''x'', rModel = ''m'', rRouteModel = [], rSuccess = True,
     rCompletedResponse = True, rRetryAfter = None, rCredentialScope = False, rError = None,
     rSkipQuotaObservation = False, rAccessToken = [], rCredentialVersion = 0, rRegistrationEpoch = 0,
     rExecutionSeq = n, codexClient = False, signals = []\<rparr>"

definition wError :: "int \<Rightarrow> Error" where
  "wError status = \<lparr>Code = [], Message = ''no'', Retryable = False, HTTPStatus = status\<rparr>"

definition wFailure :: "int \<Rightarrow> Result" where
  "wFailure status = (wSuccess 0)\<lparr>rSuccess := False,
     rError := Some (wError status)\<rparr>"

definition wManager :: manager where
  "wManager = \<lparr>mAuths = [(''a'', Some (emptyAuth\<lparr>ID := ''a'', Status := StatusActive\<rparr>))],
     mExecutionSeq = 7, mResultPolicy = None\<rparr>"

text \<open>The credential after one quota failure at time 1000.\<close>

definition wCooled :: Auth where
  "wCooled = (let q = emptyQuota\<lparr>Exceeded := True, Reason := ''quota'', NextRecoverAt := 1000 + Second, BackoffLevel := 1\<rparr>
     in emptyAuth\<lparr>ID := ''a'', Status := StatusError, StatusMessage := ''no'', LastError := Some (wError 429),
       Unavailable := True, NextRetryAfter := 1000 + Second, Quota := q, Generation := 1, UpdatedAt := 1000,
       Failed := 1, recentRequests := recentRequests (recordRecentRequest emptyAuth 1000 False),
       ModelStates := [(''m'', Some (emptyModelState\<lparr>MStatus := StatusError, MStatusMessage := ''no'',
         MUnavailable := True, MNextRetryAfter := 1000 + Second, MLastError := Some (wError 429), MQuota := q,
         MUpdatedAt := 1000, McooldownRecordedSeq := 7\<rparr>))]\<rparr>)"

lemma wCooled_held: "map_of (mAuths (markRun wCool [(wFailure 429, 1000)] wManager)) ''a'' = Some (Some wCooled)"
  by code_simp

lemma wManager_timed: "managerTimed wManager"
  by (auto simp: managerTimed_def wManager_def timedAuth_def timedMap_def emptyAuth_def split: if_splits)


section \<open>A later failure never shortens a cooldown\<close>



section \<open>Results that prove nothing about the credential\<close>



text \<open>
  Claim C15. Whose fault a failure is.  A failure that is the request's own fault, a lost connection
  or a truncated stream changes no verdict on the credential, for any model at any time.  A payment
  or rate limit status is never taken for such a failure, whatever the body says, unless one of the
  four codes that mark it explicitly was set.
\<close>

theorem blameless_failure_changes_nothing:
  assumes "readsTokens accessExp" and "\<not> rSuccess result"
  shows "(shouldSkipCredentialCooldown (jsonOf env) (rError result) \<longrightarrow>
      isAuthBlockedForModel accessExp (Some (fst (applyResult env n result now a))) model u =
      isAuthBlockedForModel accessExp (Some a) model u)
    \<and> (\<forall>e. rError result = Some e \<and> HTTPStatus e \<in> {402, 429}
        \<and> Code e \<notin> {ErrorCodeRequestScoped, ErrorCodeConnectionLifecycle, ErrorCodeTransientTransport,
             ErrorCodeStreamTruncated}
        \<longrightarrow> \<not> shouldSkipCredentialCooldown (jsonOf env) (rError result))"
proof (intro conjI impI allI)
  assume skip: "shouldSkipCredentialCooldown (jsonOf env) (rError result)"
  let ?k = "resultModelKey env result a"
  have r: "\<not> rejectsToken env result" using skip by (simp add: rejectsToken_def)
  have "\<exists>q. transition env n result now a = ((countResult result now a)\<lparr>cooldownRecordedSeq := q\<rparr>,
      map_option (\<lambda>_. canonicalModelKey ?k) (existingModelState a ?k))"
  proof (cases "?k = [] \<and> \<not> hasUnauthorizedAuthFailure (Some a)")
    case True
    with skip assms(2) show ?thesis
      by (intro exI [of _ n]) (simp add: transition_def failureTransition_def applyAuthFailureState_def Let_def)
  next
    case False
    with skip assms(2) show ?thesis
      by (intro exI [of _ "cooldownRecordedSeq a"], unfold countResult_seq)
        (auto simp: transition_def failureTransition_def Let_def)
  qed
  then show "isAuthBlockedForModel accessExp (Some (fst (applyResult env n result now a))) model u =
      isAuthBlockedForModel accessExp (Some a) model u"
    using quiet_result [OF assms(1) r] by blast
next
  fix e
  assume e: "rError result = Some e \<and> HTTPStatus e \<in> {402, 429}
    \<and> Code e \<notin> {ErrorCodeRequestScoped, ErrorCodeConnectionLifecycle, ErrorCodeTransientTransport,
         ErrorCodeStreamTruncated}"
  then have "\<not> IsRequestFault (jsonOf env) (HTTPStatus e) t" for t by (auto simp: IsRequestFault_def)
  with e show "\<not> shouldSkipCredentialCooldown (jsonOf env) (rError result)"
    by (auto simp: shouldSkipCredentialCooldown_def isRequestScopedResultError_def isRequestInvalidError_def
        isRequestScopedNotFoundResultError_def isConnectionLifecycleResultError_def
        isTransientTransportResultError_def isStreamTruncatedResultError_def statusCodeFromResult_def)
qed

definition wLost :: Result where
  "wLost = (wFailure 0)\<lparr>rError := Some ((wError 0)\<lparr>Message := ''read tcp: connection reset by peer''\<rparr>)\<rparr>"

theorem blameless_failure_changes_nothing_witness:
  "isAuthBlockedForModel (\<lambda>_. None) (Some (fst (applyResult wCool 9 wLost 2000 wCooled))) ''m'' 5000 =
     (True, blockReasonCooldown, 1000 + Second)
   \<and> \<not> shouldSkipCredentialCooldown (jsonOf wCool) (rError (wFailure 429))"
proof -
  have h: "\<not> rSuccess wLost" "shouldSkipCredentialCooldown (jsonOf wCool) (rError wLost)" "\<not> rSuccess (wFailure 429)"
    "rError (wFailure 429) = Some (wError 429)" "HTTPStatus (wError 429) = 429" "Code (wError 429) = []"
    "isAuthBlockedForModel (\<lambda>_. None) (Some wCooled) ''m'' 5000 = (True, blockReasonCooldown, 1000 + Second)"
    by code_simp+
  have t: "readsTokens (\<lambda>_. None)" by (simp add: readsTokens_def)
  have "\<not> shouldSkipCredentialCooldown (jsonOf wCool) (rError (wFailure 429))"
    using blameless_failure_changes_nothing [OF t h(3), of wCool 9 2000 wCooled] h(4-6)
    by (auto simp: error_code_defs)
  with blameless_failure_changes_nothing [OF t h(1), of wCool 9 2000 wCooled] h(2,7) show ?thesis by simp
qed

section \<open>A success lifts the cooldown\<close>

text \<open>A success that counts goes through \<open>modelSuccess\<close> on the state under the key.\<close>

lemma counting_success:
  assumes "rSuccess result" and "keys_ok a" and "resultModelKey env result a \<noteq> []"
    and "key = canonicalModelKey (resultModelKey env result a)" and "canonicalModelKey key = key"
    and "\<not> hasUnauthorizedAuthFailure (Some a)" and "\<not> credentialQuotaOpen a now"
    and "\<not> retainModelCooldown result (resultModelKey env result a) False now a"
  obtains b s where "transition env n result now a = (modelSuccess now b key, Some key)" "keys_ok b"
    "map_of (ModelStates b) key = Some (Some s)" "s = stateAt a key \<or> s = emptyModelState\<lparr>MStatus := StatusActive\<rparr>"
    "Quota b = Quota a" "Disabled b = Disabled a" "Status b = Status a" "\<not> hasUnauthorizedAuthFailure (Some b)"
proof -
  let ?k = "resultModelKey env result a" and ?c = "countResult result now a"
  let ?e = "emptyModelState\<lparr>MStatus := StatusActive\<rparr>"
  define c where "c = (if rCompletedResponse result \<and> \<not> rSkipQuotaObservation result
     then ?c\<lparr>InferenceVerified := True, LastInferenceVerifiedAt := now\<rparr> else ?c)"
  have cs: "ModelStates c = ModelStates a" "Quota c = Quota a" "Disabled c = Disabled a" "Status c = Status a"
    "hasUnauthorizedAuthFailure (Some c) = hasUnauthorizedAuthFailure (Some a)"
    by (auto simp: c_def hasUnauthorizedAuthFailure_def split: option.splits)
  have key: "key \<noteq> []" using resultModelKey_ok [OF assms(3)] assms(4) by simp
  have kc: "keys_ok c" using assms(2) cs(1) by (simp add: keys_ok_def)
  define b where "b = (case map_of (ModelStates c) key of Some (Some _) \<Rightarrow> c | _ \<Rightarrow> putState key ?e c)"
  have e: "ensureModelState c ?k = Some (b, key)"
    using ensureModelState_canonical [OF kc resultModelKey_ok [OF assms(3)]] assms(4)
    by (auto simp: b_def split: option.splits)
  have "\<not> retainModelCooldown result ?k False now ?c" "\<not> retainAuthCooldown result ?k False now ?c"
    using assms(3,8) by (simp_all add: retainModelCooldown_def retainAuthCooldown_def)
  then have t: "transition env n result now a = (modelSuccess now b key, Some key)"
    using assms(1,3,6,7) e
    by (auto simp: transition_def successTransition_def c_def Let_def credentialQuotaOpen_def split: if_splits)
  have bs: "b = c \<or> b = putState key ?e c" by (auto simp: b_def split: option.splits)
  then have "keys_ok b" "Quota b = Quota a" "Disabled b = Disabled a" "Status b = Status a"
    "\<not> hasUnauthorizedAuthFailure (Some b)"
    using cs kc keys_ok_putState [OF kc key assms(5), of ?e] assms(6)
    by (auto simp: putState_def hasUnauthorizedAuthFailure_def cong: option.case_cong)
  moreover have "map_of (ModelStates b) key = Some (Some (stateAt b key))"
    "stateAt b key = stateAt a key \<or> stateAt b key = ?e"
    using cs(1) by (auto simp: b_def stateAt_def putState_lookup split: option.splits)
  ultimately show ?thesis using that [OF t] by blast
qed

text \<open>
  Claim C14. A success that counts frees its model at once.  When the credential is enabled, not
  terminally unauthorized and not inside a credential-wide quota window, and the model carries no
  cooldown newer than the execution and no usage limit block, then after the success the model is
  available from now on until the token expires.
\<close>

theorem fresh_success_frees_model:
  assumes "0 \<le> now" and "rSuccess result" and "keys_ok a"
    and "resultModelKey env result a \<noteq> []" and "key = canonicalModelKey (resultModelKey env result a)"
    and "canonicalModelKey key = key" and "canonicalModelKey model = key"
    and "\<not> Disabled a" and "Status a \<noteq> StatusDisabled" and "\<not> hasUnauthorizedAuthFailure (Some a)"
    and "\<not> credentialQuotaOpen a now"
    and "\<not> retainModelCooldown result (resultModelKey env result a) False now a"
    and "\<not> hasActiveUsageLimitBlock (stateAt a key) now"
    and "now \<le> u" and "\<not> tokenExpired accessExp (fst (applyResult env n result now a)) u"
  shows "\<not> blocked (isAuthBlockedForModel accessExp (Some (fst (applyResult env n result now a))) model u)"
proof -
  obtain b s where b: "transition env n result now a = (modelSuccess now b key, Some key)" "keys_ok b"
    "map_of (ModelStates b) key = Some (Some s)" "s = stateAt a key \<or> s = emptyModelState\<lparr>MStatus := StatusActive\<rparr>"
    "Quota b = Quota a" "Disabled b = Disabled a" "Status b = Status a" "\<not> hasUnauthorizedAuthFailure (Some b)"
    using counting_success [OF assms(2-6,10-12)] by metis
  let ?f = "modelSuccess now b key" and ?x = "fst (applyResult env n result now a)"
  let ?d = "closed env result now False ?f"
  have usage: "\<not> hasActiveUsageLimitBlock s now"
    using b(4) assms(13) by (auto simp: hasActiveUsageLimitBlock_def emptyModelState_def)
  have open_b: "\<not> credentialQuotaOpen b now" using assms(11) by (simp add: credentialQuotaOpen_def b(5))
  note fr = modelSuccess_frees [OF b(2,3) usage assms(1) b(8) open_b, unfolded b(6,7), OF assms(9)]
  have r: "?x = observeQuota result now (Some key) ?d"
    using assms(10) by (simp add: applyResult_eq b(1))
  have m: "map_of (ModelStates ?d) (canonicalModelKey model) = Some (Some (resetModelState now s))"
    using fr(1) assms(7) by simp
  have "model \<noteq> []" using assms(3,7) keys_ok_lookup [OF b(2,3)] by auto
  moreover have "keys_ok ?d" using fr(2) by (simp add: keys_ok_def)
  moreover have "\<not> credentialQuotaActive ?d now" using fr(4) by (simp add: credentialQuotaActive_def)
  ultimately have "\<not> blocked (isAuthBlockedForModel (\<lambda>_. accessExp ?x) (Some ?d) model u)"
    using fr(3,5,6) assms(8,14,15)
    by (intro free_verdict [OF _ m reset_not_blocking(2)]) (auto simp: tokenExpired_def)
  moreover have "isAuthBlockedForModel accessExp (Some ?x) model u =
      isAuthBlockedForModel (\<lambda>_. accessExp ?x) (Some ?d) model u"
    unfolding r using m assms(7) by (intro observed_verdict) auto
  ultimately show ?thesis by simp
qed

theorem fresh_success_frees_model_witness:
  "\<not> blocked (isAuthBlockedForModel (\<lambda>_. None) (Some (fst (applyResult wCool 9 (wSuccess 8) 2000 wCooled))) ''m'' 5000)
   \<and> blocked (isAuthBlockedForModel (\<lambda>_. None) (Some wCooled) ''m'' 5000)"
proof -
  have h: "rSuccess (wSuccess 8)" "keys_ok wCooled" "resultModelKey wCool (wSuccess 8) wCooled \<noteq> []"
    "''m'' = canonicalModelKey (resultModelKey wCool (wSuccess 8) wCooled)" "canonicalModelKey ''m'' = ''m''"
    "\<not> Disabled wCooled" "Status wCooled \<noteq> StatusDisabled" "\<not> hasUnauthorizedAuthFailure (Some wCooled)"
    "\<not> credentialQuotaOpen wCooled 2000"
    "\<not> retainModelCooldown (wSuccess 8) (resultModelKey wCool (wSuccess 8) wCooled) False 2000 wCooled"
    "\<not> hasActiveUsageLimitBlock (stateAt wCooled ''m'') 2000"
    "blocked (isAuthBlockedForModel (\<lambda>_. None) (Some wCooled) ''m'' 5000)"
    by code_simp+
  have "\<not> blocked (isAuthBlockedForModel (\<lambda>_. None) (Some (fst (applyResult wCool 9 (wSuccess 8) 2000 wCooled))) ''m'' 5000)"
    by (rule fresh_success_frees_model [OF _ h(1-5) h(5-11)]) (simp_all add: tokenExpired_def)
  with h(12) show ?thesis by simp
qed

end
