(* ===== verification/ModelScheduler.thy ===== *)
theory ModelScheduler
  imports Selector
begin

text \<open>
  One shard of the scheduler, \<open>modelScheduler\<close> in \<open>src/sdk/cliproxy/auth/scheduler.go\<close>: the
  credentials of a provider that support one model, with ready views per priority and a queue of
  blocked ones.

  The Go code shares \<open>*scheduledAuth\<close> pointers between the map \<open>entries\<close>, the ready views and the
  blocked queue, and mutates the entries in place.  Here \<open>entries\<close> is the store, and views and queue
  hold the keys that are looked up in it.  An entry's \<open>auth\<close> is always its \<open>meta.auth\<close>, so only the
  latter is kept.  Entries, metas and their auths are never nil: the operations that create them
  return early on nil.

  \<open>time.Now()\<close> and the token expiry function are arguments.  The predicate a pick filters by is
  a function on entries, as in the code.
\<close>

section \<open>State\<close>

datatype scheduledState =
  scheduledStateReady | scheduledStateCooldown | scheduledStateBlocked | scheduledStateDisabled

record scheduledAuthMeta =
  mAuth :: Auth
  mProviderKey :: string
  mPriority :: int
  mWeight :: int
  mWebsocketEnabled :: bool
  supportedModelSet :: "string list option"
  registryEpoch :: nat

record scheduledAuth =
  smeta :: scheduledAuthMeta
  sstate :: scheduledState
  nextRetryAt :: gotime

record readyView =
  flat :: "string list"
  vLastPicked :: string
  weightedState :: smoothWeightedState

record readyBucket =
  ball :: readyView
  bws :: readyView

record modelScheduler =
  modelKey :: string
  entries :: "(string, scheduledAuth) gomap"
  priorityOrder :: "int list"
  readyByPriority :: "(int, readyBucket) gomap"
  blockedQueue :: "string list"

type_synonym schedPredicate = "scheduledAuth \<Rightarrow> bool"

datatype schedulerStrategy =
    schedulerStrategyCurrent | schedulerStrategyCustom | schedulerStrategyRoundRobin
  | schedulerStrategyFillFirst | schedulerStrategyWeightedRoundRobin

abbreviation entryID :: "scheduledAuth \<Rightarrow> string" where
  "entryID e \<equiv> ID (mAuth (smeta e))"

definition lookupAll :: "(string, scheduledAuth) gomap \<Rightarrow> string list \<Rightarrow> scheduledAuth list" where
  "lookupAll es ids = List.map_filter (map_of es) ids"

section \<open>Indexes\<close>

definition scheduledWeightVectorMatching ::
  "scheduledAuth list \<Rightarrow> schedPredicate \<Rightarrow> (string, int) gomap" where
  "scheduledWeightVectorMatching xs predicate =
     fold (\<lambda>e m. if mWeight (smeta e) \<le> 0 \<or> \<not> predicate e then m
                 else AList.update (entryID e) (mWeight (smeta e)) m) xs []"

definition scheduledWeightVector :: "scheduledAuth list \<Rightarrow> (string, int) gomap" where
  "scheduledWeightVector xs = scheduledWeightVectorMatching xs (\<lambda>_. True)"

record readyViewCursorState =
  cLastPicked :: string
  cWeightedState :: smoothWeightedState

definition snapshotReadyViewCursors :: "readyView \<Rightarrow> readyViewCursorState" where
  "snapshotReadyViewCursors view =
     \<lparr>cLastPicked = vLastPicked view, cWeightedState = weightedState view\<rparr>"

definition restoreReadyViewCursors ::
  "(string, scheduledAuth) gomap \<Rightarrow> readyView \<Rightarrow> readyViewCursorState \<Rightarrow> readyView" where
  "restoreReadyViewCursors es view state =
     (let view = view\<lparr>vLastPicked := cLastPicked state\<rparr>;
          weights = scheduledWeightVector (lookupAll es (flat view));
          saved = cWeightedState state
      in if swCurrent saved = [] \<or> weightsConfigChanged (swWeights saved) weights then view
         else view\<lparr>weightedState :=
           \<lparr>swCurrent = fold (\<lambda>id m. case map_of (swCurrent saved) id of
                                None \<Rightarrow> m | Some val \<Rightarrow> AList.update id val m) (flat view) [],
            swWeights = weights\<rparr>\<rparr>)"

definition buildReadyView :: "string list \<Rightarrow> readyView" where
  "buildReadyView ids = \<lparr>flat = ids, vLastPicked = [], weightedState = emptyWeightedState\<rparr>"

definition buildReadyBucket :: "scheduledAuth list \<Rightarrow> readyBucket" where
  "buildReadyBucket xs =
     \<lparr>ball = buildReadyView (map entryID xs),
      bws = buildReadyView (map entryID (filter (\<lambda>e. mWebsocketEnabled (smeta e)) xs))\<rparr>"

definition isReady :: "scheduledAuth \<Rightarrow> bool" where
  "isReady e \<longleftrightarrow> sstate e = scheduledStateReady"

definition isQueued :: "scheduledAuth \<Rightarrow> bool" where
  "isQueued e \<longleftrightarrow> sstate e = scheduledStateCooldown \<or> sstate e = scheduledStateBlocked"

text \<open>
  The order of the queue: by deadline, entries without a deadline last, ties by identifier.  Three
  stable sorts, the most significant key last.
\<close>

definition sortQueue :: "scheduledAuth list \<Rightarrow> scheduledAuth list" where
  "sortQueue xs =
     sort_key (\<lambda>e. if IsZero (nextRetryAt e) then 1 else 0 :: nat)
       (sort_key nextRetryAt (sort_key entryID xs))"

definition restoreBucket ::
  "(string, scheduledAuth) gomap \<Rightarrow> (int, readyBucket) gomap \<Rightarrow> int \<Rightarrow> readyBucket \<Rightarrow> readyBucket" where
  "restoreBucket es old priority bucket =
     (case map_of old priority of
        None \<Rightarrow> bucket
      | Some b \<Rightarrow>
          bucket\<lparr>ball := restoreReadyViewCursors es (ball bucket) (snapshotReadyViewCursors (ball b)),
                 bws := restoreReadyViewCursors es (bws bucket) (snapshotReadyViewCursors (bws b))\<rparr>)"

definition rebuildIndexesLocked :: "modelScheduler \<Rightarrow> modelScheduler" where
  "rebuildIndexesLocked m =
     (let es = map snd (entries m);
          priorityBuckets = fold (addToBucket (\<lambda>e. mPriority (smeta e))) (filter isReady es) [];
          ready = map_vals (\<lambda>priority xs.
                    restoreBucket (entries m) (readyByPriority m) priority
                      (buildReadyBucket (sort_key entryID xs))) priorityBuckets
      in m\<lparr>readyByPriority := ready,
           priorityOrder := rev (sort (map fst priorityBuckets)),
           blockedQueue := map entryID (sortQueue (filter isQueued es))\<rparr>)"

section \<open>Entries\<close>

text \<open>The three-way switch shared by insertion, demotion and promotion.\<close>

fun withVerdict :: "block \<Rightarrow> scheduledAuth \<Rightarrow> scheduledAuth" where
  "withVerdict (False, _, _) e = e\<lparr>sstate := scheduledStateReady, nextRetryAt := 0\<rparr>"
| "withVerdict (True, blockReasonCooldown, next) e = e\<lparr>sstate := scheduledStateCooldown, nextRetryAt := next\<rparr>"
| "withVerdict (True, blockReasonDisabled, next) e = e\<lparr>sstate := scheduledStateDisabled, nextRetryAt := 0\<rparr>"
| "withVerdict (True, _, next) e = e\<lparr>sstate := scheduledStateBlocked, nextRetryAt := next\<rparr>"

definition upsertEntryLocked ::
  "(Auth \<Rightarrow> gotime option) \<Rightarrow> scheduledAuthMeta \<Rightarrow> gotime \<Rightarrow> modelScheduler \<Rightarrow> modelScheduler" where
  "upsertEntryLocked accessExp meta now m =
     (let old = map_of (entries m) (ID (mAuth meta));
          entry = withVerdict (isAuthBlockedForModel accessExp (Some (mAuth meta)) (modelKey m) now)
            \<lparr>smeta = meta, sstate = scheduledStateReady, nextRetryAt = 0\<rparr>;
          m' = m\<lparr>entries := AList.update (ID (mAuth meta)) entry (entries m)\<rparr>
      in case old of
           Some o' \<Rightarrow>
             if sstate o' = sstate entry \<and> nextRetryAt o' = nextRetryAt entry
                \<and> mPriority (smeta o') = mPriority meta
                \<and> mWebsocketEnabled (smeta o') = mWebsocketEnabled meta
             then m' else rebuildIndexesLocked m'
         | None \<Rightarrow> rebuildIndexesLocked m')"

definition removeEntryLocked :: "string \<Rightarrow> modelScheduler \<Rightarrow> modelScheduler" where
  "removeEntryLocked authID m =
     (if authID = [] then m
      else if map_of (entries m) authID = None then m
      else rebuildIndexesLocked (m\<lparr>entries := AList.delete authID (entries m)\<rparr>))"

definition demoteEntry ::
  "(Auth \<Rightarrow> gotime option) \<Rightarrow> string \<Rightarrow> gotime \<Rightarrow> scheduledAuth \<Rightarrow> scheduledAuth \<times> bool" where
  "demoteEntry accessExp key now e =
     (if sstate e \<noteq> scheduledStateReady then (e, False)
      else if tokenExpired accessExp (mAuth (smeta e)) now then
        (let b = isAuthBlockedForModel accessExp (Some (mAuth (smeta e))) key now
         in if blocked b then (withVerdict b e, True) else (e, False))
      else (e, False))"

definition demoteExpiredTokensLocked ::
  "(Auth \<Rightarrow> gotime option) \<Rightarrow> gotime \<Rightarrow> modelScheduler \<Rightarrow> modelScheduler \<times> bool" where
  "demoteExpiredTokensLocked accessExp now m =
     (m\<lparr>entries := map_vals (\<lambda>_ e. fst (demoteEntry accessExp (modelKey m) now e)) (entries m)\<rparr>,
      \<exists>(_, e) \<in> set (entries m). snd (demoteEntry accessExp (modelKey m) now e))"

definition promoteDue :: "gotime \<Rightarrow> scheduledAuth \<Rightarrow> bool" where
  "promoteDue now e \<longleftrightarrow> \<not> IsZero (nextRetryAt e) \<and> \<not> After (nextRetryAt e) now"

fun promoteLoop ::
  "(Auth \<Rightarrow> gotime option) \<Rightarrow> string \<Rightarrow> gotime \<Rightarrow> string list \<Rightarrow> (string, scheduledAuth) gomap \<times> bool
   \<Rightarrow> (string, scheduledAuth) gomap \<times> bool" where
  "promoteLoop accessExp key now [] acc = acc"
| "promoteLoop accessExp key now (authID # ids) (es, changed) =
     (case map_of es authID of
        None \<Rightarrow> promoteLoop accessExp key now ids (es, changed)
      | Some e \<Rightarrow>
          if \<not> promoteDue now e then promoteLoop accessExp key now ids (es, changed)
          else promoteLoop accessExp key now ids
            (AList.update authID (withVerdict (isAuthBlockedForModel accessExp (Some (mAuth (smeta e))) key now) e) es,
             True))"

definition promoteExpiredLocked ::
  "(Auth \<Rightarrow> gotime option) \<Rightarrow> gotime \<Rightarrow> modelScheduler \<Rightarrow> modelScheduler" where
  "promoteExpiredLocked accessExp now m =
     (case demoteExpiredTokensLocked accessExp now m of (m, changed) \<Rightarrow>
       (case promoteLoop accessExp (modelKey m) now (blockedQueue m) (entries m, changed) of (es, changed) \<Rightarrow>
         (let m = m\<lparr>entries := es\<rparr> in if changed then rebuildIndexesLocked m else m)))"

section \<open>Picks\<close>

definition pickFirst :: "(string, scheduledAuth) gomap \<Rightarrow> schedPredicate \<Rightarrow> readyView \<Rightarrow> scheduledAuth option" where
  "pickFirst es predicate v = find predicate (lookupAll es (flat v))"

definition scheduledSuccessorIndex :: "scheduledAuth list \<Rightarrow> string \<Rightarrow> nat" where
  "scheduledSuccessorIndex xs lastID = succIndex entryID xs lastID"

definition pickRoundRobin ::
  "(string, scheduledAuth) gomap \<Rightarrow> schedPredicate \<Rightarrow> readyView \<Rightarrow> scheduledAuth option \<times> readyView" where
  "pickRoundRobin es predicate v =
     (let xs = lookupAll es (flat v)
      in if xs = [] then (None, v)
         else case find predicate (ringFrom (scheduledSuccessorIndex xs (vLastPicked v)) xs) of
                None \<Rightarrow> (None, v)
              | Some e \<Rightarrow> (Some e, v\<lparr>vLastPicked := entryID e\<rparr>))"

definition pickSmoothWeightedScheduled ::
  "scheduledAuth list \<Rightarrow> (string, int) gomap \<Rightarrow> schedPredicate \<Rightarrow> scheduledAuth option \<times> (string, int) gomap" where
  "pickSmoothWeightedScheduled xs current predicate =
     swPick entryID (\<lambda>e. mWeight (smeta e)) predicate xs current"

definition pickWeighted ::
  "(string, scheduledAuth) gomap \<Rightarrow> schedPredicate \<Rightarrow> readyView \<Rightarrow> scheduledAuth option \<times> readyView" where
  "pickWeighted es predicate v =
     (let xs = lookupAll es (flat v)
      in if xs = [] then (None, v)
         else
           (let st = prepare (scheduledWeightVectorMatching xs predicate) (weightedState v);
                (picked, current) = pickSmoothWeightedScheduled xs (swCurrent st) predicate
            in (picked, v\<lparr>weightedState := st\<lparr>swCurrent := current\<rparr>\<rparr>)))"

fun firstPriority ::
  "modelScheduler \<Rightarrow> (readyBucket \<Rightarrow> readyView) \<Rightarrow> schedPredicate \<Rightarrow> int list \<Rightarrow> int option" where
  "firstPriority m view predicate [] = None"
| "firstPriority m view predicate (priority # ps) =
     (case map_of (readyByPriority m) priority of
        None \<Rightarrow> firstPriority m view predicate ps
      | Some bucket \<Rightarrow>
          if pickFirst (entries m) predicate (view bucket) \<noteq> None then Some priority
          else firstPriority m view predicate ps)"

definition highestReadyPriorityLocked :: "bool \<Rightarrow> schedPredicate \<Rightarrow> modelScheduler \<Rightarrow> int option" where
  "highestReadyPriorityLocked preferWebsocket predicate m =
     (case (if preferWebsocket then firstPriority m bws predicate (priorityOrder m) else None) of
        Some priority \<Rightarrow> Some priority
      | None \<Rightarrow> firstPriority m ball predicate (priorityOrder m))"

definition pickView ::
  "schedulerStrategy \<Rightarrow> (string, scheduledAuth) gomap \<Rightarrow> schedPredicate \<Rightarrow> readyView
   \<Rightarrow> scheduledAuth option \<times> readyView" where
  "pickView strategy es predicate v =
     (case strategy of
        schedulerStrategyFillFirst \<Rightarrow> (pickFirst es predicate v, v)
      | schedulerStrategyWeightedRoundRobin \<Rightarrow> pickWeighted es predicate v
      | _ \<Rightarrow> pickRoundRobin es predicate v)"

definition usesWs :: "bool \<Rightarrow> schedPredicate \<Rightarrow> modelScheduler \<Rightarrow> readyBucket \<Rightarrow> bool" where
  "usesWs preferWebsocket predicate m bucket \<longleftrightarrow>
     preferWebsocket \<and> pickFirst (entries m) predicate (bws bucket) \<noteq> None"

definition pickReadyAtPriorityLocked ::
  "bool \<Rightarrow> int \<Rightarrow> schedulerStrategy \<Rightarrow> schedPredicate \<Rightarrow> modelScheduler
   \<Rightarrow> scheduledAuth option \<times> modelScheduler" where
  "pickReadyAtPriorityLocked preferWebsocket priority strategy predicate m =
     (case map_of (readyByPriority m) priority of
        None \<Rightarrow> (None, m)
      | Some bucket \<Rightarrow>
          if usesWs preferWebsocket predicate m bucket then
            (let (picked, v) = pickView strategy (entries m) predicate (bws bucket)
             in (picked, m\<lparr>readyByPriority := AList.update priority (bucket\<lparr>bws := v\<rparr>) (readyByPriority m)\<rparr>))
          else
            (let (picked, v) = pickView strategy (entries m) predicate (ball bucket)
             in (picked, m\<lparr>readyByPriority := AList.update priority (bucket\<lparr>ball := v\<rparr>) (readyByPriority m)\<rparr>)))"

definition pickReadyLocked ::
  "(Auth \<Rightarrow> gotime option) \<Rightarrow> bool \<Rightarrow> schedulerStrategy \<Rightarrow> schedPredicate \<Rightarrow> gotime \<Rightarrow> modelScheduler
   \<Rightarrow> scheduledAuth option \<times> modelScheduler" where
  "pickReadyLocked accessExp preferWebsocket strategy predicate now m =
     (let m = promoteExpiredLocked accessExp now m
      in case highestReadyPriorityLocked preferWebsocket predicate m of
           None \<Rightarrow> (None, m)
         | Some priorityReady \<Rightarrow>
             pickReadyAtPriorityLocked preferWebsocket priorityReady strategy predicate m)"

definition readyCountAtPriorityLocked :: "bool \<Rightarrow> int \<Rightarrow> schedPredicate \<Rightarrow> modelScheduler \<Rightarrow> nat" where
  "readyCountAtPriorityLocked preferWebsocket priority predicate m =
     (case map_of (readyByPriority m) priority of
        None \<Rightarrow> 0
      | Some bucket \<Rightarrow>
          length (filter predicate (lookupAll (entries m)
            (flat (if usesWs preferWebsocket predicate m bucket then bws bucket else ball bucket)))))"

section \<open>Errors\<close>

record availSummary =
  sumTotal :: nat
  sumCooldown :: nat
  sumUnauthorized :: nat
  sumEarliest :: gotime

definition summaryStep :: "schedPredicate \<Rightarrow> scheduledAuth \<Rightarrow> availSummary \<Rightarrow> availSummary" where
  "summaryStep predicate e acc =
     (if \<not> predicate e then acc
      else
        \<lparr>sumTotal = sumTotal acc + 1,
         sumCooldown = sumCooldown acc + (if sstate e = scheduledStateCooldown then 1 else 0),
         sumUnauthorized = sumUnauthorized acc
           + (if hasUnauthorizedAuthFailure (Some (mAuth (smeta e))) then 1 else 0),
         sumEarliest =
           (if isQueued e \<and> \<not> IsZero (nextRetryAt e)
               \<and> (IsZero (sumEarliest acc) \<or> Before (nextRetryAt e) (sumEarliest acc))
            then nextRetryAt e else sumEarliest acc)\<rparr>)"

definition availabilitySummaryLocked :: "schedPredicate \<Rightarrow> modelScheduler \<Rightarrow> availSummary" where
  "availabilitySummaryLocked predicate m =
     fold (summaryStep predicate) (map snd (entries m))
       \<lparr>sumTotal = 0, sumCooldown = 0, sumUnauthorized = 0, sumEarliest = 0\<rparr>"

text \<open>A candidate's latest error with its time and the credential it comes from.\<close>

type_synonym candErr = "(cause_err \<times> gotime \<times> string) option"

definition newerErr :: "candErr \<Rightarrow> candErr \<Rightarrow> candErr" where
  "newerErr best cand =
     (case cand of
        None \<Rightarrow> best
      | Some (e, t, aid) \<Rightarrow>
         (case best of
            None \<Rightarrow> cand
          | Some (_, bt, bid) \<Rightarrow> if After t bt \<or> (t = bt \<and> aid > bid) then cand else best))"

definition stateErr :: "ModelState \<Rightarrow> (cause_err \<times> gotime) option" where
  "stateErr s =
     (case MLastError s of
        Some e \<Rightarrow> Some (CauseError e, MUpdatedAt s)
      | None \<Rightarrow> if TrimSpace (MStatusMessage s) \<noteq> [] then Some (CauseText (MStatusMessage s), MUpdatedAt s)
                else None)"

definition entryModelErr :: "string \<Rightarrow> Auth \<Rightarrow> candErr" where
  "entryModelErr model a =
     (case (case map_of (ModelStates a) model of
              Some (Some s) \<Rightarrow> stateErr s
            | _ \<Rightarrow> (case map_of (ModelStates a) (canonicalModelKey model) of
                      Some (Some s) \<Rightarrow> stateErr s
                    | _ \<Rightarrow> None)) of
        None \<Rightarrow> None
      | Some (e, t) \<Rightarrow> Some (e, if IsZero t then UpdatedAt a else t, ID a))"

definition entryAuthErr :: "Auth \<Rightarrow> candErr" where
  "entryAuthErr a =
     (case LastError a of
        Some e \<Rightarrow> Some (CauseError e, UpdatedAt a, ID a)
      | None \<Rightarrow> if TrimSpace (StatusMessage a) \<noteq> [] then Some (CauseText (StatusMessage a), UpdatedAt a, ID a)
                else None)"

definition candidateErrorsLocked :: "string \<Rightarrow> schedPredicate \<Rightarrow> modelScheduler \<Rightarrow> candErr \<times> candErr" where
  "candidateErrorsLocked model predicate m =
     fold (\<lambda>e (me, ae). if \<not> predicate e then (me, ae)
             else (newerErr me (entryModelErr model (mAuth (smeta e))), newerErr ae (entryAuthErr (mAuth (smeta e)))))
       (map snd (entries m)) (None, None)"

definition errOf :: "candErr \<Rightarrow> cause_err option" where
  "errOf c = map_option fst c"

definition lastCandidateErr :: "candErr \<times> candErr \<Rightarrow> cause_err option" where
  "lastCandidateErr c = (if fst c \<noteq> None then errOf (fst c) else errOf (snd c))"

text \<open>The classification shared by the single and the mixed provider error.\<close>

definition classifyUnavailable ::
  "string \<Rightarrow> string \<Rightarrow> gotime \<Rightarrow> availSummary \<Rightarrow> candErr \<times> candErr \<Rightarrow> auth_error" where
  "classifyUnavailable providerForError model now sm errs =
     (let lastErr = lastCandidateErr errs
      in if sumTotal sm = 0 then
           WithCause (errNew ''auth_not_found'' ''no auth available'') lastErr
         else if sumCooldown sm = sumTotal sm \<and> \<not> IsZero (sumEarliest sm) then
           (let resetIn = time_Sub (sumEarliest sm) now
            in newModelCooldownErrorWithCause model providerForError (if resetIn < 0 then 0 else resetIn) lastErr)
         else if sumUnauthorized sm = sumTotal sm then
           NewTerminalAuthError
             ((errNew ''auth_unavailable'' ''no auth available'')\<lparr>HTTPStatus := 503\<rparr>)
             (case errOf (snd errs) of None \<Rightarrow> lastErr | Some e \<Rightarrow> Some e)
         else newAuthUnavailableErrorWithCause (sumEarliest sm) now lastErr)"

definition unavailableErrorLocked ::
  "string \<Rightarrow> string \<Rightarrow> schedPredicate \<Rightarrow> gotime \<Rightarrow> modelScheduler \<Rightarrow> auth_error" where
  "unavailableErrorLocked provider model predicate now m =
     classifyUnavailable (if provider = ''mixed'' then [] else provider) model now
       (availabilitySummaryLocked predicate m) (candidateErrorsLocked model predicate m)"

end
