(* ===== verification/ModelSchedulerProofs.thy ===== *)
theory ModelSchedulerProofs
  imports ModelScheduler
begin

text \<open>
  Correctness of one scheduler shard.

  \<^item> \<open>indexed\<close>: the ready views and the blocked queue are exactly the index of the entries that
    \<open>rebuildIndexesLocked\<close> would compute.  Every operation keeps it, including the in-place updates
    that skip the rebuild.
  \<^item> \<open>judged_by\<close>: every entry carries a verdict that was right at some time not later than now.
    Together with the laws of \<open>availability_oracle\<close> this makes the lazy promotion exact.
\<close>

section \<open>Index invariant\<close>

definition keyed :: "(string, scheduledAuth) gomap \<Rightarrow> bool" where
  "keyed es \<longleftrightarrow> wf_map es \<and> (\<forall>k e. map_of es k = Some e \<longrightarrow> entryID e = k)"

definition keysWith :: "(string, scheduledAuth) gomap \<Rightarrow> (scheduledAuth \<Rightarrow> bool) \<Rightarrow> string set" where
  "keysWith es P = {k. \<exists>e. map_of es k = Some e \<and> P e}"

abbreviation readyAt :: "int \<Rightarrow> scheduledAuth \<Rightarrow> bool" where
  "readyAt p e \<equiv> isReady e \<and> mPriority (smeta e) = p"

definition enumerates :: "string list \<Rightarrow> string set \<Rightarrow> bool" where
  "enumerates ids K \<longleftrightarrow> sorted_wrt (<) ids \<and> set ids = K"

definition bucket_ok :: "(string, scheduledAuth) gomap \<Rightarrow> int \<Rightarrow> readyBucket \<Rightarrow> bool" where
  "bucket_ok es p b \<longleftrightarrow> keysWith es (readyAt p) \<noteq> {}
     \<and> enumerates (flat (ball b)) (keysWith es (readyAt p))
     \<and> enumerates (flat (bws b)) (keysWith es (\<lambda>e. readyAt p e \<and> mWebsocketEnabled (smeta e)))"

definition tier_ok :: "(string, scheduledAuth) gomap \<Rightarrow> int \<Rightarrow> readyBucket option \<Rightarrow> bool" where
  "tier_ok es p ob \<longleftrightarrow>
     (case ob of None \<Rightarrow> keysWith es (readyAt p) = {} | Some b \<Rightarrow> bucket_ok es p b)"

definition indexed :: "modelScheduler \<Rightarrow> bool" where
  "indexed m \<longleftrightarrow> keyed (entries m) \<and> wf_map (readyByPriority m)
     \<and> (\<forall>p. tier_ok (entries m) p (map_of (readyByPriority m) p))
     \<and> sorted_wrt (>) (priorityOrder m) \<and> set (priorityOrder m) = fst ` set (readyByPriority m)
     \<and> distinct (blockedQueue m) \<and> set (blockedQueue m) = keysWith (entries m) isQueued"

lemma keyed_entry: "keyed es \<Longrightarrow> (k, e) \<in> set es \<Longrightarrow> map_of es k = Some e \<and> entryID e = k"
  by (simp add: keyed_def wf_map_in_set)

lemma keyed_in_set: "keyed es \<Longrightarrow> e \<in> snd ` set es \<longleftrightarrow> map_of es (entryID e) = Some e"
  by (force dest: keyed_entry map_of_SomeD)

lemma keyed_distinct: "keyed es \<Longrightarrow> distinct (map (entryID \<circ> snd) es)"
proof -
  assume k: "keyed es"
  then have eq: "map (entryID \<circ> snd) es = map fst es" by (auto dest: keyed_entry)
  show ?thesis unfolding eq using k by (simp add: keyed_def wf_map_def)
qed

lemma keysWith_image:
  assumes "keyed es"
  shows "entryID ` {e \<in> snd ` set es. P e} = keysWith es P"
proof (intro set_eqI iffI)
  fix k assume "k \<in> entryID ` {e \<in> snd ` set es. P e}"
  then obtain e where "e \<in> snd ` set es" "P e" "k = entryID e" by blast
  then show "k \<in> keysWith es P" using keyed_in_set [OF assms] by (auto simp: keysWith_def)
next
  fix k assume "k \<in> keysWith es P"
  then obtain e where e: "map_of es k = Some e" "P e" by (auto simp: keysWith_def)
  then have "entryID e = k" using assms by (simp add: keyed_def)
  with e keyed_in_set [OF assms, of e] show "k \<in> entryID ` {e \<in> snd ` set es. P e}" by blast
qed

lemma sorted_ids_lists:
  assumes "keyed es" and "mset xs = mset (filter P (map snd es))"
  shows "enumerates (map entryID (sort_key entryID xs)) (keysWith es P)"
proof -
  have "distinct (map entryID (filter P (map snd es)))"
    by (rule distinct_map_filter) (use keyed_distinct [OF assms(1)] in simp)
  then have "distinct (map entryID xs)"
    using assms(2) by (metis mset_eq_imp_distinct_iff mset_map)
  moreover have "mset (map entryID (sort_key entryID xs)) = mset (map entryID xs)" by simp
  ultimately have "distinct (map entryID (sort_key entryID xs))" by (metis mset_eq_imp_distinct_iff)
  moreover have "set xs = {e \<in> snd ` set es. P e}" using arg_cong [OF assms(2), of set_mset] by auto
  ultimately show ?thesis
    using keysWith_image [OF assms(1), of P] by (simp add: enumerates_def strict_sorted_iff)
qed

lemma flat_restore [simp]: "flat (restoreReadyViewCursors es v st) = flat v"
  by (simp add: restoreReadyViewCursors_def Let_def)

lemma flat_restoreBucket [simp]:
  "flat (ball (restoreBucket es old p b)) = flat (ball b)" "flat (bws (restoreBucket es old p b)) = flat (bws b)"
  by (simp_all add: restoreBucket_def split: option.splits)

lemma bucket_ok_build:
  assumes "keyed es" and "xs = filter (\<lambda>e. mPriority (smeta e) = p) (filter isReady (map snd es))" and "xs \<noteq> []"
  shows "bucket_ok es p (restoreBucket es' old p (buildReadyBucket (sort_key entryID xs)))"
proof -
  have f: "xs = filter (readyAt p) (map snd es)" using assms(2) by (simp add: conj_commute)
  have all: "enumerates (map entryID (sort_key entryID xs)) (keysWith es (readyAt p))"
    by (rule sorted_ids_lists [OF assms(1)]) (simp add: f)
  have "filter (\<lambda>e. mWebsocketEnabled (smeta e)) (sort_key entryID xs)
      = sort_key entryID (filter (\<lambda>e. mWebsocketEnabled (smeta e)) xs)"
    by (rule filter_sort)
  moreover have "enumerates (map entryID (sort_key entryID (filter (\<lambda>e. mWebsocketEnabled (smeta e)) xs)))
      (keysWith es (\<lambda>e. readyAt p e \<and> mWebsocketEnabled (smeta e)))"
    by (rule sorted_ids_lists [OF assms(1)]) (simp add: f conj_commute conj_left_commute)
  moreover have "keysWith es (readyAt p) \<noteq> {}"
    using all assms(3) by (auto simp: enumerates_def)
  ultimately show ?thesis
    using all by (simp add: bucket_ok_def buildReadyBucket_def buildReadyView_def)
qed

lemma set_sortQueue [simp]: "set (sortQueue xs) = set xs"
  by (simp add: sortQueue_def)

lemma mset_sortQueue [simp]: "mset (sortQueue xs) = mset xs"
  by (simp add: sortQueue_def)

text \<open>A rebuild establishes the invariant from any keyed entry map.\<close>

lemma indexed_rebuild:
  assumes "keyed (entries m)"
  shows "indexed (rebuildIndexesLocked m)"
proof -
  let ?es = "entries m"
  let ?R = "filter isReady (map snd ?es)" and ?f = "\<lambda>e. mPriority (smeta e)"
  let ?B = "fold (addToBucket ?f) ?R []"
  have b: "bucketed ?f ?R ?B" using bucketed_fold [OF bucketed_Nil, of ?f ?R] by simp
  let ?m = "rebuildIndexesLocked m"
  have ent: "entries ?m = ?es" by (simp add: rebuildIndexesLocked_def Let_def)
  have rdy: "readyByPriority ?m = map_vals (\<lambda>priority xs.
      restoreBucket ?es (readyByPriority m) priority (buildReadyBucket (sort_key entryID xs))) ?B"
    by (simp add: rebuildIndexesLocked_def Let_def)
  have buckets: "tier_ok ?es p (map_of (readyByPriority ?m) p)" for p
  proof (cases "filter (\<lambda>e. ?f e = p) ?R = []")
    case True
    then have "map_of (readyByPriority ?m) p = None"
      using b by (simp add: rdy gomap_simps bucketed_def Let_def)
    moreover have "keysWith ?es (readyAt p) = {}"
      using True keysWith_image [OF assms, of "readyAt p"] by (auto simp: filter_empty_conv)
    ultimately show ?thesis by (simp add: tier_ok_def)
  next
    case False
    then have "map_of ?B p = Some (filter (\<lambda>e. ?f e = p) ?R)"
      using b by (simp add: bucketed_def Let_def)
    with bucket_ok_build [OF assms refl False] show ?thesis by (simp add: rdy gomap_simps tier_ok_def)
  qed
  have d: "distinct (map fst ?B)" using b by (simp add: bucketed_def wf_map_def)
  then have "sorted_wrt (<) (sort (map fst ?B))" by (simp add: strict_sorted_iff)
  then have "sorted_wrt (>) (priorityOrder ?m)"
    by (simp add: rebuildIndexesLocked_def Let_def sorted_wrt_rev)
  moreover have "set (priorityOrder ?m) = fst ` set (readyByPriority ?m)"
  proof -
    have "fst ` set (readyByPriority ?m) = set (map fst (readyByPriority ?m))" by simp
    also have "\<dots> = set (map fst ?B)" unfolding rdy fst_map_vals ..
    finally show ?thesis by (simp add: rebuildIndexesLocked_def Let_def)
  qed
  moreover have "wf_map (readyByPriority ?m)" using d by (simp add: rdy) (simp add: wf_map_def)
  moreover have "set (blockedQueue ?m) = keysWith ?es isQueued"
    using keysWith_image [OF assms, of isQueued]
    by (auto simp: rebuildIndexesLocked_def Let_def)
  moreover have "distinct (blockedQueue ?m)"
  proof -
    have "distinct (map entryID (filter isQueued (map snd ?es)))"
      by (rule distinct_map_filter) (use keyed_distinct [OF assms] in simp)
    moreover have "mset (blockedQueue ?m) = mset (map entryID (filter isQueued (map snd ?es)))"
      by (simp add: rebuildIndexesLocked_def Let_def)
    ultimately show ?thesis by (metis mset_eq_imp_distinct_iff)
  qed
  ultimately show ?thesis using assms buckets by (simp add: indexed_def ent)
qed

lemma rebuild_simps [simp]:
  "entries (rebuildIndexesLocked m) = entries m" "modelKey (rebuildIndexesLocked m) = modelKey m"
  by (simp_all add: rebuildIndexesLocked_def Let_def)

text \<open>Index contents depend on the entries only through the sets of keys.\<close>

lemma indexed_cong:
  assumes "indexed m" and "keyed es"
    and "\<And>p. keysWith es (readyAt p) = keysWith (entries m) (readyAt p)"
    and "\<And>p. keysWith es (\<lambda>e. readyAt p e \<and> mWebsocketEnabled (smeta e)) =
      keysWith (entries m) (\<lambda>e. readyAt p e \<and> mWebsocketEnabled (smeta e))"
    and "keysWith es isQueued = keysWith (entries m) isQueued"
  shows "indexed (m\<lparr>entries := es\<rparr>)"
proof -
  have "tier_ok es p b = tier_ok (entries m) p b" for p b
    using assms(3,4) by (simp add: tier_ok_def bucket_ok_def split: option.splits)
  with assms show ?thesis by (simp add: indexed_def)
qed

lemma keysWith_update:
  "keysWith (AList.update k e es) P = (if P e then insert k (keysWith es P) else keysWith es P - {k})"
  by (auto simp: keysWith_def gomap_simps)

lemma keyed_update: "keyed es \<Longrightarrow> entryID e = k \<Longrightarrow> keyed (AList.update k e es)"
  by (auto simp: keyed_def gomap_simps)

lemma keyed_delete: "keyed es \<Longrightarrow> keyed (AList.delete k es)"
  by (auto simp: keyed_def gomap_simps split: if_splits)

lemma keyed_map_vals: "keyed es \<Longrightarrow> (\<And>k e. entryID (f k e) = entryID e) \<Longrightarrow> keyed (map_vals f es)"
  by (auto simp: keyed_def gomap_simps)

lemma smeta_withVerdict [simp]: "smeta (withVerdict b e) = smeta e"
  by (cases "(b, e)" rule: withVerdict.cases) auto

lemma indexed_upsert:
  assumes "indexed m"
  shows "indexed (upsertEntryLocked accessExp meta now m)"
proof -
  let ?id = "ID (mAuth meta)"
  define e where "e = withVerdict (isAuthBlockedForModel accessExp (Some (mAuth meta)) (modelKey m) now)
            \<lparr>smeta = meta, sstate = scheduledStateReady, nextRetryAt = 0\<rparr>"
  have me: "smeta e = meta" by (simp add: e_def)
  let ?es = "AList.update ?id e (entries m)"
  have k: "keyed ?es" using assms me by (intro keyed_update) (auto simp: indexed_def)
  show ?thesis
  proof (cases "map_of (entries m) ?id")
    case None
    with k indexed_rebuild [of "m\<lparr>entries := ?es\<rparr>"] show ?thesis
      by (simp add: upsertEntryLocked_def Let_def e_def)
  next
    case (Some old)
    show ?thesis
    proof (cases "sstate old = sstate e \<and> nextRetryAt old = nextRetryAt e
        \<and> mPriority (smeta old) = mPriority meta \<and> mWebsocketEnabled (smeta old) = mWebsocketEnabled meta")
      case True
      have same: "keysWith ?es P = keysWith (entries m) P" if "P e = P old" for P
        using Some that by (auto simp: keysWith_update) (auto simp: keysWith_def)
      have "indexed (m\<lparr>entries := ?es\<rparr>)"
        by (rule indexed_cong [OF assms k]; rule same)
          (use True me in \<open>auto simp: isReady_def isQueued_def\<close>)
      with Some True show ?thesis by (simp add: upsertEntryLocked_def Let_def e_def)
    next
      case False
      with Some k indexed_rebuild [of "m\<lparr>entries := ?es\<rparr>"] show ?thesis
        by (auto simp: upsertEntryLocked_def Let_def e_def)
    qed
  qed
qed

lemma upsert_entries [simp]:
  "entries (upsertEntryLocked accessExp meta now m) =
     AList.update (ID (mAuth meta))
       (withVerdict (isAuthBlockedForModel accessExp (Some (mAuth meta)) (modelKey m) now)
          \<lparr>smeta = meta, sstate = scheduledStateReady, nextRetryAt = 0\<rparr>) (entries m)"
  "modelKey (upsertEntryLocked accessExp meta now m) = modelKey m"
  by (simp_all add: upsertEntryLocked_def Let_def split: option.splits)

lemma indexed_remove: "indexed m \<Longrightarrow> indexed (removeEntryLocked authID m)"
  by (auto simp: removeEntryLocked_def indexed_def [of m] intro!: indexed_rebuild keyed_delete)

lemma remove_entries:
  "map_of (entries (removeEntryLocked authID m)) k =
     (if k = authID \<and> authID \<noteq> [] then None else map_of (entries m) k)"
  by (auto simp: removeEntryLocked_def gomap_simps)

lemma remove_modelKey [simp]: "modelKey (removeEntryLocked authID m) = modelKey m"
  by (simp add: removeEntryLocked_def)

section \<open>Verdicts\<close>

abbreviation check :: "(Auth \<Rightarrow> gotime option) \<Rightarrow> string \<Rightarrow> scheduledAuth \<Rightarrow> gotime \<Rightarrow> block" where
  "check accessExp key e t \<equiv> isAuthBlockedForModel accessExp (Some (mAuth (smeta e))) key t"

definition judged_at :: "(Auth \<Rightarrow> gotime option) \<Rightarrow> string \<Rightarrow> gotime \<Rightarrow> scheduledAuth \<Rightarrow> bool" where
  "judged_at accessExp key t e \<longleftrightarrow>
     (let b = check accessExp key e t
      in (isReady e \<longleftrightarrow> \<not> blocked b) \<and> (isQueued e \<longrightarrow> nextRetryAt e = next_at b)
         \<and> (blocked b \<and> \<not> isQueued e \<longrightarrow> next_at b = 0))"

definition judged_by :: "(Auth \<Rightarrow> gotime option) \<Rightarrow> gotime \<Rightarrow> modelScheduler \<Rightarrow> bool" where
  "judged_by accessExp t m \<longleftrightarrow>
     (\<forall>k e. map_of (entries m) k = Some e \<longrightarrow>
        (\<exists>u. 0 \<le> u \<and> u \<le> t \<and> judged_at accessExp (modelKey m) u e))"

lemma judged_at_withVerdict: "judged_at accessExp key t (withVerdict (check accessExp key e t) e)"
proof -
  obtain b r n where v: "check accessExp key e t = (b, r, n)" using prod_cases3 by blast
  have "b \<Longrightarrow> r = blockReasonDisabled \<Longrightarrow> n = 0"
    using avail.disabled_forever [of accessExp "mAuth (smeta e)" key t] v by simp
  with v show ?thesis
    by (cases b; cases r) (auto simp: judged_at_def Let_def isReady_def isQueued_def)
qed

lemma judged_by_mono: "judged_by accessExp t m \<Longrightarrow> t \<le> u \<Longrightarrow> judged_by accessExp u m"
  by (meson judged_by_def order_trans)

lemma judged_by_entries:
  "judged_by accessExp t m \<Longrightarrow> (\<And>k. map_of (entries m') k \<noteq> None \<Longrightarrow> map_of (entries m') k = map_of (entries m) k)
   \<Longrightarrow> modelKey m' = modelKey m \<Longrightarrow> judged_by accessExp t m'"
  unfolding judged_by_def by (metis option.distinct(1))

lemma judged_by_upsert:
  assumes "judged_by accessExp t m" and "0 \<le> now" and "t \<le> now"
  shows "judged_by accessExp now (upsertEntryLocked accessExp meta now m)"
proof -
  let ?e = "withVerdict (isAuthBlockedForModel accessExp (Some (mAuth meta)) (modelKey m) now)
          \<lparr>smeta = meta, sstate = scheduledStateReady, nextRetryAt = 0\<rparr>"
  have "judged_at accessExp (modelKey m) now ?e"
    using judged_at_withVerdict [of accessExp "modelKey m" now
        "\<lparr>smeta = meta, sstate = scheduledStateReady, nextRetryAt = 0\<rparr>"] by simp
  with judged_by_mono [OF assms(1,3)] assms(2) show ?thesis
    by (auto simp: judged_by_def gomap_simps)
qed

lemma judged_by_remove: "judged_by accessExp t m \<Longrightarrow> judged_by accessExp t (removeEntryLocked authID m)"
  by (rule judged_by_entries) (auto simp: remove_entries)

section \<open>Promotion\<close>

text \<open>What one promotion does to an entry: judge it again if its old verdict may have run out.\<close>

definition rejudge :: "(Auth \<Rightarrow> gotime option) \<Rightarrow> string \<Rightarrow> gotime \<Rightarrow> scheduledAuth \<Rightarrow> scheduledAuth" where
  "rejudge accessExp key now e =
     (if (isReady e \<and> tokenExpired accessExp (mAuth (smeta e)) now) \<or> (isQueued e \<and> promoteDue now e)
      then withVerdict (check accessExp key e now) e else e)"

lemma smeta_rejudge [simp]: "smeta (rejudge accessExp key now e) = smeta e"
  by (simp add: rejudge_def)

lemma promoteLoop_lookup:
  "distinct ids \<Longrightarrow> promoteLoop accessExp key now ids (es, ch) = (es', ch') \<Longrightarrow>
     (\<forall>k. map_of es' k =
        (case map_of es k of None \<Rightarrow> None
         | Some e \<Rightarrow> Some (if k \<in> set ids \<and> promoteDue now e
                           then withVerdict (check accessExp key e now) e else e)))
     \<and> (ch' \<longleftrightarrow> ch \<or> (\<exists>k \<in> set ids. \<exists>e. map_of es k = Some e \<and> promoteDue now e))
     \<and> (keyed es \<longrightarrow> keyed es')"
proof (induction ids arbitrary: es ch)
  case Nil
  then show ?case by (auto split: option.splits)
next
  case (Cons aid ids)
  show ?case
  proof (cases "\<exists>e. map_of es aid = Some e \<and> promoteDue now e")
    case False
    then have "promoteLoop accessExp key now ids (es, ch) = (es', ch')"
      using Cons.prems(2) by (auto split: option.splits if_splits)
    from Cons.IH [OF _ this] Cons.prems(1) False show ?thesis by (auto split: option.splits)
  next
    case True
    then obtain e where e: "map_of es aid = Some e" "promoteDue now e" by blast
    let ?es = "AList.update aid (withVerdict (check accessExp key e now) e) es"
    have "promoteLoop accessExp key now ids (?es, True) = (es', ch')" using Cons.prems(2) e by simp
    note IH = Cons.IH [OF _ this]
    have "map_of es' k = (case map_of es k of None \<Rightarrow> None
         | Some e \<Rightarrow> Some (if k \<in> set (aid # ids) \<and> promoteDue now e
                           then withVerdict (check accessExp key e now) e else e))" for k
      using IH Cons.prems(1) e by (cases "k = aid"; cases "map_of es k") (simp_all add: gomap_simps)
    moreover have "keyed es \<Longrightarrow> keyed ?es" using e by (intro keyed_update) (auto simp: keyed_def)
    ultimately show ?thesis using IH Cons.prems(1) e by auto
  qed
qed

lemma isReady_not_queued: "isReady e \<Longrightarrow> \<not> isQueued e"
  by (auto simp: isReady_def isQueued_def)

lemma demoteEntry_rejudge:
  "fst (demoteEntry accessExp key now e) =
     (if isReady e \<and> tokenExpired accessExp (mAuth (smeta e)) now
      then withVerdict (check accessExp key e now) e else e)"
  "snd (demoteEntry accessExp key now e) \<longleftrightarrow> isReady e \<and> tokenExpired accessExp (mAuth (smeta e)) now"
  using avail.expired_blocks [of accessExp "mAuth (smeta e)" now key]
  by (auto simp: demoteEntry_def isReady_def Let_def)

lemma promote_structure:
  assumes "indexed m"
  shows "indexed (promoteExpiredLocked accessExp now m)"
    and "map_of (entries (promoteExpiredLocked accessExp now m)) k =
      map_option (rejudge accessExp (modelKey m) now) (map_of (entries m) k)"
    and "modelKey (promoteExpiredLocked accessExp now m) = modelKey m"
proof -
  let ?d = "\<lambda>e. fst (demoteEntry accessExp (modelKey m) now e)"
  let ?es1 = "map_vals (\<lambda>_ e. ?d e) (entries m)"
  define ch1 where "ch1 = (\<exists>(_, e) \<in> set (entries m). snd (demoteEntry accessExp (modelKey m) now e))"
  obtain es2 ch2 where loop: "promoteLoop accessExp (modelKey m) now (blockedQueue m) (?es1, ch1) = (es2, ch2)"
    by fastforce
  have ix: "keyed (entries m)" "distinct (blockedQueue m)" "set (blockedQueue m) = keysWith (entries m) isQueued"
    using assms by (auto simp: indexed_def)
  have pr: "promoteExpiredLocked accessExp now m =
      (if ch2 then rebuildIndexesLocked (m\<lparr>entries := es2\<rparr>) else m\<lparr>entries := es2\<rparr>)"
    using loop by (simp add: promoteExpiredLocked_def demoteExpiredTokensLocked_def ch1_def Let_def)
  have k1: "keyed ?es1" using ix(1) by (rule keyed_map_vals) (simp add: demoteEntry_rejudge)
  note L = promoteLoop_lookup [OF ix(2) loop]
  have look: "map_of es2 k = map_option (rejudge accessExp (modelKey m) now) (map_of (entries m) k)" for k
  proof (cases "map_of (entries m) k")
    case None
    then show ?thesis using L by (auto simp: gomap_simps)
  next
    case (Some e)
    then have q: "k \<in> set (blockedQueue m) \<longleftrightarrow> isQueued e" using ix(3) by (auto simp: keysWith_def)
    have "map_of es2 k = Some (if k \<in> set (blockedQueue m) \<and> promoteDue now (?d e)
        then withVerdict (check accessExp (modelKey m) (?d e) now) (?d e) else ?d e)"
      using L Some by (simp add: gomap_simps)
    moreover have "isQueued e \<Longrightarrow> ?d e = e" using isReady_not_queued by (auto simp: demoteEntry_rejudge)
    ultimately show ?thesis
      using q Some isReady_not_queued [of e] by (auto simp: rejudge_def demoteEntry_rejudge)
  qed
  then show "map_of (entries (promoteExpiredLocked accessExp now m)) k =
      map_option (rejudge accessExp (modelKey m) now) (map_of (entries m) k)"
    by (simp add: pr)
  show "modelKey (promoteExpiredLocked accessExp now m) = modelKey m" by (simp add: pr)
  have k2: "keyed es2" using L k1 by blast
  show "indexed (promoteExpiredLocked accessExp now m)"
  proof (cases ch2)
    case True
    with k2 indexed_rebuild [of "m\<lparr>entries := es2\<rparr>"] show ?thesis by (simp add: pr)
  next
    case False
    then have none: "\<not> ch1" "\<And>k e. k \<in> set (blockedQueue m) \<Longrightarrow> map_of ?es1 k = Some e \<Longrightarrow> \<not> promoteDue now e"
      using L by blast+
    have "rejudge accessExp (modelKey m) now e = e" if e: "map_of (entries m) k = Some e" for k e
    proof -
      have "(k, e) \<in> set (entries m)" using e ix(1) by (simp add: keyed_def wf_map_in_set)
      then have nd: "\<not> (isReady e \<and> tokenExpired accessExp (mAuth (smeta e)) now)"
        using none(1) by (auto simp: ch1_def demoteEntry_rejudge)
      moreover have "\<not> (isQueued e \<and> promoteDue now e)"
        using none(2) [of k "?d e"] e nd ix(3) by (auto simp: gomap_simps demoteEntry_rejudge keysWith_def)
      ultimately show ?thesis by (auto simp: rejudge_def)
    qed
    then have "map_of es2 k = map_of (entries m) k" for k
      using look [of k] by (cases "map_of (entries m) k") auto
    then have "keysWith es2 P = keysWith (entries m) P" for P by (simp add: keysWith_def)
    then show ?thesis using False indexed_cong [OF assms k2] by (simp add: pr)
  qed
qed

text \<open>A verdict that was right earlier is right now after the rejudging rule.\<close>

lemma rejudge_exact:
  assumes "judged_at accessExp key u e" and "0 \<le> u" and "u \<le> now"
  shows "(isReady (rejudge accessExp key now e) \<longleftrightarrow> \<not> blocked (check accessExp key e now))
    \<and> (judged_at accessExp key now (rejudge accessExp key now e)
       \<or> (rejudge accessExp key now e = e))"
proof (cases "(isReady e \<and> tokenExpired accessExp (mAuth (smeta e)) now) \<or> (isQueued e \<and> promoteDue now e)")
  case True
  then have "judged_at accessExp key now (rejudge accessExp key now e)"
    by (simp add: rejudge_def judged_at_withVerdict)
  then show ?thesis by (simp add: judged_at_def Let_def)
next
  case False
  let ?u = "check accessExp key e u"
  have "blocked (check accessExp key e now) \<longleftrightarrow> blocked ?u"
  proof (rule avail.verdict_lasts [OF assms(2,3)])
    show "\<not> blocked ?u \<Longrightarrow> \<not> tokenExpired accessExp (mAuth (smeta e)) now"
      using False assms(1) by (auto simp: judged_at_def Let_def)
    show "blocked ?u \<Longrightarrow> next_at ?u = 0 \<or> now < next_at ?u"
      using False assms(1) by (auto simp: judged_at_def Let_def promoteDue_def)
  qed
  moreover have "rejudge accessExp key now e = e" unfolding rejudge_def using False by (rule if_not_P)
  ultimately show ?thesis using assms(1) by (simp add: judged_at_def Let_def)
qed

text \<open>After a promotion the ready entries are exactly the credentials that are free now.\<close>

lemma promote_exact:
  assumes "indexed m" and "judged_by accessExp t m" and "t \<le> now"
    and "map_of (entries (promoteExpiredLocked accessExp now m)) k = Some e"
  shows "isReady e \<longleftrightarrow> \<not> blocked (check accessExp (modelKey m) e now)"
proof -
  obtain e0 where e0: "map_of (entries m) k = Some e0" "e = rejudge accessExp (modelKey m) now e0"
    using assms(4) promote_structure(2) [OF assms(1)] by auto
  then obtain u where "0 \<le> u" "u \<le> t" "judged_at accessExp (modelKey m) u e0"
    using assms(2) by (auto simp: judged_by_def)
  with rejudge_exact [of accessExp "modelKey m" u e0 now] assms(3) e0 show ?thesis by simp
qed

lemma judged_by_promote:
  assumes "indexed m" and "judged_by accessExp t m" and "t \<le> now" and "0 \<le> now"
  shows "judged_by accessExp now (promoteExpiredLocked accessExp now m)"
  unfolding judged_by_def promote_structure(3) [OF assms(1)]
proof (intro allI impI)
  fix k e assume "map_of (entries (promoteExpiredLocked accessExp now m)) k = Some e"
  then obtain e0 where e0: "map_of (entries m) k = Some e0" "e = rejudge accessExp (modelKey m) now e0"
    using promote_structure(2) [OF assms(1)] by auto
  then obtain u where u: "0 \<le> u" "u \<le> t" "judged_at accessExp (modelKey m) u e0"
    using assms(2) by (auto simp: judged_by_def)
  with assms(3) have "u \<le> now" by simp
  with rejudge_exact [OF u(3,1) this] e0(2)
  have "judged_at accessExp (modelKey m) now e \<or> judged_at accessExp (modelKey m) u e" using u(3) by metis
  with u \<open>u \<le> now\<close> assms(4) show "\<exists>u\<ge>0. u \<le> now \<and> judged_at accessExp (modelKey m) u e" by blast
qed

section \<open>Ready views\<close>

lemma lookupAll_map: "\<forall>k \<in> set ids. map_of es k \<noteq> None \<Longrightarrow> lookupAll es ids = map (the \<circ> map_of es) ids"
  by (induction ids) (auto simp: lookupAll_def List.map_filter_simps)

lemma lookupAll_ids:
  assumes "keyed es" and "\<forall>k \<in> set ids. map_of es k \<noteq> None"
  shows "map entryID (lookupAll es ids) = ids"
  unfolding lookupAll_map [OF assms(2)] using assms by (auto simp: keyed_def intro: map_idI)

lemma enumerates_lookup:
  assumes "keyed es" and "enumerates ids (keysWith es P)"
  shows "map entryID (lookupAll es ids) = ids"
    and "e \<in> set (lookupAll es ids) \<longleftrightarrow> map_of es (entryID e) = Some e \<and> P e"
    and "sorted_wrt (<) (map entryID (lookupAll es ids))"
proof -
  have all: "\<forall>k \<in> set ids. map_of es k \<noteq> None" using assms(2) by (auto simp: enumerates_def keysWith_def)
  show ids: "map entryID (lookupAll es ids) = ids" by (rule lookupAll_ids [OF assms(1) all])
  then show "sorted_wrt (<) (map entryID (lookupAll es ids))" using assms(2) by (simp add: enumerates_def)
  show "e \<in> set (lookupAll es ids) \<longleftrightarrow> map_of es (entryID e) = Some e \<and> P e"
  proof
    assume "e \<in> set (lookupAll es ids)"
    then obtain k where k: "k \<in> set ids" "map_of es k = Some e"
      using all by (auto simp: lookupAll_map [OF all])
    then have "entryID e = k" "P e" using assms by (auto simp: keyed_def enumerates_def keysWith_def)
    with k show "map_of es (entryID e) = Some e \<and> P e" by simp
  next
    assume e: "map_of es (entryID e) = Some e \<and> P e"
    then have "entryID e \<in> set ids" using assms(2) by (auto simp: enumerates_def keysWith_def)
    with e show "e \<in> set (lookupAll es ids)" by (force simp: lookupAll_map [OF all])
  qed
qed

section \<open>Picks from a view\<close>

definition view_ok :: "(string, scheduledAuth) gomap \<Rightarrow> readyView \<Rightarrow> bool" where
  "view_ok es v \<longleftrightarrow> sorted_wrt (<) (map entryID (lookupAll es (flat v)))"

interpretation sched_rot: rotation entryID
  "\<lambda>(es, v, predicate). view_ok es v \<and> [] \<notin> set (map entryID (lookupAll es (flat v)))"
  "\<lambda>(es, v, predicate). filter predicate (lookupAll es (flat v))"
  "\<lambda>(es, v, predicate) lastID. fst (pickRoundRobin es predicate (v\<lparr>vLastPicked := lastID\<rparr>))"
proof (unfold_locales, goal_cases)
  case (1 v)
  obtain es w predicate where v: "v = (es, w, predicate)" by (cases v)
  have "sorted_wrt (<) (map entryID (filter predicate (lookupAll es (flat w))))"
    using 1 v by (auto simp: view_ok_def sorted_wrt_map intro: sorted_wrt_filter)
  with v show ?case by simp
next
  case (2 v lastID)
  obtain es w predicate where v: "v = (es, w, predicate)" by (cases v)
  let ?xs = "lookupAll es (flat w)"
  have s: "sorted_wrt (<) (map entryID ?xs)" "[] \<notin> set (map entryID ?xs)" "filter predicate ?xs \<noteq> []"
    using 2 v by (auto simp: view_ok_def)
  from ring_scan_rot_next [OF s(1,3,2), of lastID] obtain x where x: "x \<in> set (filter predicate ?xs)"
    "find predicate (ringFrom (succIndex entryID ?xs lastID) ?xs) = Some x"
    "entryID x = rot_next (map entryID (filter predicate ?xs)) lastID" by blast
  moreover have "?xs \<noteq> []" using s(3) by auto
  ultimately show ?case using v by (auto simp: pickRoundRobin_def Let_def scheduledSuccessorIndex_def)
qed

text \<open>
  Whatever the strategy, a view yields a match exactly when it has one.  The weighted strategy
  needs the predicate to demand a positive weight, as the scheduler's predicate does.
\<close>

lemma pickRoundRobin_sound:
  "(fst (pickRoundRobin es predicate v) = None \<longleftrightarrow> filter predicate (lookupAll es (flat v)) = [])
   \<and> (\<forall>e. fst (pickRoundRobin es predicate v) = Some e \<longrightarrow> e \<in> set (lookupAll es (flat v)) \<and> predicate e)"
proof (cases "lookupAll es (flat v) = []")
  case True
  then show ?thesis by (simp add: pickRoundRobin_def)
next
  case False
  let ?xs = "lookupAll es (flat v)"
  let ?i = "scheduledSuccessorIndex ?xs (vLastPicked v)"
  have "?i < length ?xs" unfolding scheduledSuccessorIndex_def by (rule succIndex_less [OF False])
  then have "set (ringFrom ?i ?xs) = set ?xs"
    using ringFrom_rotate by (metis append_take_drop_id set_append sup_commute)
  then show ?thesis
    using False find_None_iff [of predicate "ringFrom ?i ?xs"] find_Some_iff [of predicate "ringFrom ?i ?xs"]
    by (auto simp: pickRoundRobin_def Let_def filter_empty_conv split: option.splits)
qed

lemma pickWeighted_sound:
  assumes "\<forall>e. predicate e \<longrightarrow> 0 < mWeight (smeta e)"
  shows "(fst (pickWeighted es predicate v) = None \<longleftrightarrow> filter predicate (lookupAll es (flat v)) = [])
   \<and> (\<forall>e. fst (pickWeighted es predicate v) = Some e \<longrightarrow> e \<in> set (lookupAll es (flat v)) \<and> predicate e)"
proof (cases "lookupAll es (flat v) = []")
  case True
  then show ?thesis by (simp add: pickWeighted_def)
next
  case False
  let ?xs = "lookupAll es (flat v)"
  have el: "eligible (\<lambda>e. mWeight (smeta e)) predicate ?xs = filter predicate ?xs"
    unfolding eligible_def using assms by (intro filter_cong) auto
  obtain c where c: "fst (pickWeighted es predicate v) = fst (pickSmoothWeightedScheduled ?xs c predicate)"
    using False by (simp add: pickWeighted_def Let_def split_beta)
  show ?thesis
    unfolding c pickSmoothWeightedScheduled_def
    using swPick_picked [of entryID "\<lambda>e. mWeight (smeta e)" predicate ?xs c] el by simp
qed

lemma pickFirst_sound:
  "(pickFirst es predicate v = None \<longleftrightarrow> filter predicate (lookupAll es (flat v)) = [])
   \<and> (\<forall>e. pickFirst es predicate v = Some e \<longrightarrow> e \<in> set (lookupAll es (flat v)) \<and> predicate e)"
  by (auto simp: pickFirst_def find_None_iff find_Some_iff filter_empty_conv)

lemma pickView_sound:
  assumes "strategy = schedulerStrategyWeightedRoundRobin \<longrightarrow> (\<forall>e. predicate e \<longrightarrow> 0 < mWeight (smeta e))"
  shows "(fst (pickView strategy es predicate v) = None \<longleftrightarrow> filter predicate (lookupAll es (flat v)) = [])
   \<and> (\<forall>e. fst (pickView strategy es predicate v) = Some e \<longrightarrow> e \<in> set (lookupAll es (flat v)) \<and> predicate e)"
  using assms pickFirst_sound [of es predicate v] pickRoundRobin_sound [of es predicate v]
    pickWeighted_sound [of predicate es v]
  by (cases strategy) (simp_all add: pickView_def)

lemma flat_pickView [simp]: "flat (snd (pickView strategy es predicate v)) = flat v"
  by (cases strategy)
    (auto simp: pickView_def pickRoundRobin_def pickWeighted_def Let_def split_beta split: option.splits)

section \<open>Picks from a shard\<close>

definition candidates :: "modelScheduler \<Rightarrow> schedPredicate \<Rightarrow> scheduledAuth set" where
  "candidates m predicate = {e. map_of (entries m) (entryID e) = Some e \<and> isReady e \<and> predicate e}"

definition wsCandidates :: "modelScheduler \<Rightarrow> schedPredicate \<Rightarrow> scheduledAuth set" where
  "wsCandidates m predicate = {e \<in> candidates m predicate. mWebsocketEnabled (smeta e)}"

lemma indexed_keyed: "indexed m \<Longrightarrow> keyed (entries m)"
  by (simp add: indexed_def)

lemma indexed_bucket:
  assumes "indexed m" and "map_of (readyByPriority m) p = Some b"
  shows "set (filter predicate (lookupAll (entries m) (flat (ball b)))) =
      {e \<in> candidates m predicate. mPriority (smeta e) = p}"
    and "set (filter predicate (lookupAll (entries m) (flat (bws b)))) =
      {e \<in> wsCandidates m predicate. mPriority (smeta e) = p}"
proof -
  have k: "keyed (entries m)" using assms(1) by (rule indexed_keyed)
  have "tier_ok (entries m) p (Some b)" using assms by (metis indexed_def)
  then have b: "enumerates (flat (ball b)) (keysWith (entries m) (readyAt p))"
    "enumerates (flat (bws b)) (keysWith (entries m) (\<lambda>e. readyAt p e \<and> mWebsocketEnabled (smeta e)))"
    by (auto simp: tier_ok_def bucket_ok_def)
  show "set (filter predicate (lookupAll (entries m) (flat (ball b)))) =
      {e \<in> candidates m predicate. mPriority (smeta e) = p}"
    using enumerates_lookup(2) [OF k b(1)] by (auto simp: candidates_def)
  show "set (filter predicate (lookupAll (entries m) (flat (bws b)))) =
      {e \<in> wsCandidates m predicate. mPriority (smeta e) = p}"
    using enumerates_lookup(2) [OF k b(2)] by (auto simp: candidates_def wsCandidates_def)
qed

lemma indexed_has_bucket:
  assumes "indexed m" and "e \<in> candidates m predicate"
  shows "mPriority (smeta e) \<in> set (priorityOrder m)"
    and "\<exists>b. map_of (readyByPriority m) (mPriority (smeta e)) = Some b"
proof -
  have "entryID e \<in> keysWith (entries m) (readyAt (mPriority (smeta e)))"
    using assms(2) by (auto simp: keysWith_def candidates_def)
  moreover have "tier_ok (entries m) (mPriority (smeta e)) (map_of (readyByPriority m) (mPriority (smeta e)))"
    using assms(1) by (simp add: indexed_def)
  ultimately show b: "\<exists>b. map_of (readyByPriority m) (mPriority (smeta e)) = Some b"
    by (cases "map_of (readyByPriority m) (mPriority (smeta e))") (auto simp: tier_ok_def)
  then have "mPriority (smeta e) \<in> fst ` set (readyByPriority m)" by (auto dest: map_of_key_in)
  then show "mPriority (smeta e) \<in> set (priorityOrder m)" using assms(1) by (simp add: indexed_def)
qed

text \<open>The search through the priorities finds the highest one with a match.\<close>

lemma firstPriority_spec:
  assumes "sorted_wrt (>) ps"
  shows "firstPriority m view predicate ps = None \<longleftrightarrow>
      (\<forall>p \<in> set ps. \<forall>b. map_of (readyByPriority m) p = Some b \<longrightarrow> filter predicate (lookupAll (entries m) (flat (view b))) = [])"
    and "firstPriority m view predicate ps = Some q \<Longrightarrow>
      (\<exists>b. map_of (readyByPriority m) q = Some b \<and> filter predicate (lookupAll (entries m) (flat (view b))) \<noteq> [])
      \<and> (\<forall>p \<in> set ps. q < p \<longrightarrow> (\<forall>b. map_of (readyByPriority m) p = Some b \<longrightarrow>
            filter predicate (lookupAll (entries m) (flat (view b))) = []))"
proof -
  have "(firstPriority m view predicate ps = None \<longleftrightarrow>
      (\<forall>p \<in> set ps. \<forall>b. map_of (readyByPriority m) p = Some b \<longrightarrow> filter predicate (lookupAll (entries m) (flat (view b))) = []))
    \<and> (\<forall>q. firstPriority m view predicate ps = Some q \<longrightarrow> q \<in> set ps \<and>
      (\<exists>b. map_of (readyByPriority m) q = Some b \<and> filter predicate (lookupAll (entries m) (flat (view b))) \<noteq> [])
      \<and> (\<forall>p \<in> set ps. q < p \<longrightarrow> (\<forall>b. map_of (readyByPriority m) p = Some b \<longrightarrow>
            filter predicate (lookupAll (entries m) (flat (view b))) = [])))"
    using assms
  proof (induction ps)
    case (Cons p ps)
    then have IH: "(firstPriority m view predicate ps = None \<longleftrightarrow>
      (\<forall>p \<in> set ps. \<forall>b. map_of (readyByPriority m) p = Some b \<longrightarrow> filter predicate (lookupAll (entries m) (flat (view b))) = []))"
      "\<And>q. firstPriority m view predicate ps = Some q \<Longrightarrow> q \<in> set ps \<and>
      (\<exists>b. map_of (readyByPriority m) q = Some b \<and> filter predicate (lookupAll (entries m) (flat (view b))) \<noteq> [])
      \<and> (\<forall>p \<in> set ps. q < p \<longrightarrow> (\<forall>b. map_of (readyByPriority m) p = Some b \<longrightarrow>
            filter predicate (lookupAll (entries m) (flat (view b))) = []))" by auto
    have gt: "\<forall>q \<in> set ps. q < p" using Cons.prems by simp
    show ?case
    proof (cases "\<exists>b. map_of (readyByPriority m) p = Some b \<and> filter predicate (lookupAll (entries m) (flat (view b))) \<noteq> []")
      case True
      then have "firstPriority m view predicate (p # ps) = Some p"
        using pickFirst_sound [of "entries m" predicate] by auto
      with True gt show ?thesis by (metis less_asym list.set_intros(1) option.distinct(1) option.inject set_ConsD less_irrefl)
    next
      case False
      then have "firstPriority m view predicate (p # ps) = firstPriority m view predicate ps"
        using pickFirst_sound [of "entries m" predicate] by (auto split: option.splits)
      with False IH show ?thesis by (metis list.set_intros(2) set_ConsD)
    qed
  qed simp
  then show "firstPriority m view predicate ps = None \<longleftrightarrow>
      (\<forall>p \<in> set ps. \<forall>b. map_of (readyByPriority m) p = Some b \<longrightarrow> filter predicate (lookupAll (entries m) (flat (view b))) = [])"
    and "firstPriority m view predicate ps = Some q \<Longrightarrow>
      (\<exists>b. map_of (readyByPriority m) q = Some b \<and> filter predicate (lookupAll (entries m) (flat (view b))) \<noteq> [])
      \<and> (\<forall>p \<in> set ps. q < p \<longrightarrow> (\<forall>b. map_of (readyByPriority m) p = Some b \<longrightarrow>
            filter predicate (lookupAll (entries m) (flat (view b))) = []))"
    by blast+
qed

text \<open>The pool a pick draws from: websocket credentials first when they are preferred.\<close>

definition pool :: "bool \<Rightarrow> modelScheduler \<Rightarrow> schedPredicate \<Rightarrow> scheduledAuth set" where
  "pool preferWebsocket m predicate =
     (if preferWebsocket \<and> wsCandidates m predicate \<noteq> {} then wsCandidates m predicate
      else candidates m predicate)"

lemma firstPriority_pool:
  assumes "indexed m" and cover: "S \<subseteq> candidates m predicate"
    and view: "\<And>p b. map_of (readyByPriority m) p = Some b \<Longrightarrow>
      set (filter predicate (lookupAll (entries m) (flat (view b)))) = {e \<in> S. mPriority (smeta e) = p}"
  shows "firstPriority m view predicate (priorityOrder m) = None \<longleftrightarrow> S = {}"
    and "firstPriority m view predicate (priorityOrder m) = Some q \<Longrightarrow>
      (\<exists>e \<in> S. mPriority (smeta e) = q) \<and> (\<forall>e \<in> S. mPriority (smeta e) \<le> q)
      \<and> (\<exists>b. map_of (readyByPriority m) q = Some b)"
proof -
  have so: "sorted_wrt (>) (priorityOrder m)" using assms(1) by (simp add: indexed_def)
  have has: "mPriority (smeta e) \<in> set (priorityOrder m)
      \<and> (\<exists>b. map_of (readyByPriority m) (mPriority (smeta e)) = Some b)" if "e \<in> S" for e
    using indexed_has_bucket [OF assms(1)] cover that by blast
  have emp: "filter predicate (lookupAll (entries m) (flat (view b))) = [] \<longleftrightarrow> {e \<in> S. mPriority (smeta e) = p} = {}"
    if "map_of (readyByPriority m) p = Some b" for p b
    using view [OF that] by (metis set_empty)
  show "firstPriority m view predicate (priorityOrder m) = None \<longleftrightarrow> S = {}"
    unfolding firstPriority_spec(1) [OF so] using has emp by blast
  assume q: "firstPriority m view predicate (priorityOrder m) = Some q"
  note sp = firstPriority_spec(2) [OF so q]
  then obtain b where b: "map_of (readyByPriority m) q = Some b" and
    ne: "filter predicate (lookupAll (entries m) (flat (view b))) \<noteq> []" by blast
  have "mPriority (smeta e) \<le> q" if e: "e \<in> S" for e
  proof (rule ccontr)
    assume "\<not> ?thesis"
    then have "q < mPriority (smeta e)" by simp
    with sp has [OF e] emp e show False by blast
  qed
  with b ne emp [OF b] show "(\<exists>e \<in> S. mPriority (smeta e) = q) \<and> (\<forall>e \<in> S. mPriority (smeta e) \<le> q)
      \<and> (\<exists>b. map_of (readyByPriority m) q = Some b)" by blast
qed

lemma wsCandidates_subset: "wsCandidates m predicate \<subseteq> candidates m predicate"
  by (auto simp: wsCandidates_def)

lemma highestReadyPriority_pool:
  assumes "indexed m"
  shows "highestReadyPriorityLocked pw predicate m = None \<longleftrightarrow> pool pw m predicate = {}"
    and "highestReadyPriorityLocked pw predicate m = Some q \<Longrightarrow>
      (\<exists>e \<in> pool pw m predicate. mPriority (smeta e) = q)
      \<and> (\<forall>e \<in> pool pw m predicate. mPriority (smeta e) \<le> q) \<and> (\<exists>b. map_of (readyByPriority m) q = Some b)"
proof -
  note A = firstPriority_pool [OF assms subset_refl, where view = ball, OF indexed_bucket(1) [OF assms]]
  note W = firstPriority_pool [OF assms wsCandidates_subset, where view = bws, OF indexed_bucket(2) [OF assms]]
  have sub: "wsCandidates m predicate \<noteq> {} \<Longrightarrow> candidates m predicate \<noteq> {}"
    using wsCandidates_subset by blast
  show "highestReadyPriorityLocked pw predicate m = None \<longleftrightarrow> pool pw m predicate = {}"
    using A(1) [of predicate] W(1) [of predicate] sub
    by (auto simp: highestReadyPriorityLocked_def pool_def split: option.splits)
  assume "highestReadyPriorityLocked pw predicate m = Some q"
  then show "(\<exists>e \<in> pool pw m predicate. mPriority (smeta e) = q)
      \<and> (\<forall>e \<in> pool pw m predicate. mPriority (smeta e) \<le> q) \<and> (\<exists>b. map_of (readyByPriority m) q = Some b)"
    using A(2) [of predicate q] W [of predicate] W(2) [of predicate q]
    by (auto simp: highestReadyPriorityLocked_def pool_def split: option.splits if_splits)
qed

lemma usesWs_iff:
  assumes "indexed m" and "map_of (readyByPriority m) p = Some b"
  shows "usesWs pw predicate m b \<longleftrightarrow> pw \<and> {e \<in> wsCandidates m predicate. mPriority (smeta e) = p} \<noteq> {}"
  unfolding usesWs_def indexed_bucket(2) [OF assms, symmetric]
  using pickFirst_sound [of "entries m" predicate "bws b"] by (auto simp: filter_empty_conv)

lemma pickAtPriority_sound:
  assumes "indexed m" and "map_of (readyByPriority m) p = Some b"
    and w: "strategy = schedulerStrategyWeightedRoundRobin \<longrightarrow> (\<forall>e. predicate e \<longrightarrow> 0 < mWeight (smeta e))"
    and tp: "T = (if usesWs pw predicate m b then wsCandidates m predicate else candidates m predicate)"
  shows "(fst (pickReadyAtPriorityLocked pw p strategy predicate m) = None \<longleftrightarrow> {e \<in> T. mPriority (smeta e) = p} = {})
    \<and> (\<forall>e. fst (pickReadyAtPriorityLocked pw p strategy predicate m) = Some e \<longrightarrow> e \<in> T \<and> mPriority (smeta e) = p)"
proof -
  define v where "v = (if usesWs pw predicate m b then bws b else ball b)"
  have f: "fst (pickReadyAtPriorityLocked pw p strategy predicate m) = fst (pickView strategy (entries m) predicate v)"
    using assms(2) by (simp add: pickReadyAtPriorityLocked_def v_def Let_def split_beta)
  have s: "set (filter predicate (lookupAll (entries m) (flat v))) = {e \<in> T. mPriority (smeta e) = p}"
    using indexed_bucket [OF assms(1,2), of predicate] tp by (simp add: v_def)
  note P = pickView_sound [OF w, of "entries m" v]
  have "filter predicate (lookupAll (entries m) (flat v)) = [] \<longleftrightarrow> {e \<in> T. mPriority (smeta e) = p} = {}"
    using s by (metis set_empty)
  moreover have "e \<in> T \<and> mPriority (smeta e) = p" if "e \<in> set (lookupAll (entries m) (flat v)) \<and> predicate e" for e
  proof -
    have "e \<in> set (filter predicate (lookupAll (entries m) (flat v)))" using that by simp
    then show ?thesis unfolding s by simp
  qed
  ultimately show ?thesis using P unfolding f by blast
qed

text \<open>A pick only moves cursors.\<close>

lemma pickAtPriority_entries [simp]:
  "entries (snd (pickReadyAtPriorityLocked pw p strategy predicate m)) = entries m"
  "modelKey (snd (pickReadyAtPriorityLocked pw p strategy predicate m)) = modelKey m"
  by (auto simp: pickReadyAtPriorityLocked_def Let_def split_beta split: option.splits)

lemma indexed_pickAtPriority:
  assumes "indexed m"
  shows "indexed (snd (pickReadyAtPriorityLocked pw p strategy predicate m))"
proof (cases "map_of (readyByPriority m) p")
  case None
  with assms show ?thesis by (simp add: pickReadyAtPriorityLocked_def)
next
  case (Some b)
  have upd: "indexed (m\<lparr>readyByPriority := AList.update p b' (readyByPriority m)\<rparr>)"
    if "flat (ball b') = flat (ball b)" "flat (bws b') = flat (bws b)" for b'
  proof -
    have "tier_ok (entries m) p (Some b)" using assms Some by (metis indexed_def)
    then have "tier_ok (entries m) p (Some b')" using that by (simp add: tier_ok_def bucket_ok_def)
    moreover have "insert p (fst ` set (readyByPriority m)) = fst ` set (readyByPriority m)"
      using map_of_key_in [OF Some] by blast
    ultimately show ?thesis using assms by (auto simp: indexed_def gomap_simps)
  qed
  show ?thesis
    using Some by (auto simp: pickReadyAtPriorityLocked_def Let_def split_beta intro!: upd)
qed

lemma pickReady_state:
  assumes "indexed m" and "judged_by accessExp t m" and "t \<le> now" and "0 \<le> now"
  shows "indexed (snd (pickReadyLocked accessExp pw strategy predicate now m))"
    and "judged_by accessExp now (snd (pickReadyLocked accessExp pw strategy predicate now m))"
    and "modelKey (snd (pickReadyLocked accessExp pw strategy predicate now m)) = modelKey m"
proof -
  let ?m = "promoteExpiredLocked accessExp now m"
  have i: "indexed ?m" and k: "modelKey ?m = modelKey m" using promote_structure [OF assms(1)] by auto
  have j: "judged_by accessExp now ?m" by (rule judged_by_promote [OF assms])
  show "indexed (snd (pickReadyLocked accessExp pw strategy predicate now m))"
    using i by (auto simp: pickReadyLocked_def Let_def indexed_pickAtPriority split: option.splits)
  have "judged_by accessExp now (snd (pickReadyAtPriorityLocked pw q strategy predicate ?m))" for q
    using j by (simp add: judged_by_def)
  then show "judged_by accessExp now (snd (pickReadyLocked accessExp pw strategy predicate now m))"
    using j by (auto simp: pickReadyLocked_def Let_def split: option.splits)
  show "modelKey (snd (pickReadyLocked accessExp pw strategy predicate now m)) = modelKey m"
    using k by (auto simp: pickReadyLocked_def Let_def split: option.splits)
qed

section \<open>The shard against a scan of all its credentials\<close>

text \<open>
  The reference: the metas of the shard whose credential is free for the model at this moment and
  that satisfy the request's predicate.
\<close>

definition freeMetas ::
  "(Auth \<Rightarrow> gotime option) \<Rightarrow> gotime \<Rightarrow> (scheduledAuthMeta \<Rightarrow> bool) \<Rightarrow> modelScheduler \<Rightarrow> scheduledAuthMeta set" where
  "freeMetas accessExp now P m =
     {meta. (\<exists>e \<in> snd ` set (entries m). smeta e = meta) \<and> P meta
        \<and> \<not> blocked (isAuthBlockedForModel accessExp (Some (mAuth meta)) (modelKey m) now)}"

definition metaPool :: "bool \<Rightarrow> scheduledAuthMeta set \<Rightarrow> scheduledAuthMeta set" where
  "metaPool preferWebsocket M =
     (if preferWebsocket \<and> (\<exists>x \<in> M. mWebsocketEnabled x) then {x \<in> M. mWebsocketEnabled x} else M)"

lemma candidates_freeMetas:
  assumes "indexed m" and "judged_by accessExp t m" and "t \<le> now"
  shows "smeta ` candidates (promoteExpiredLocked accessExp now m) (P \<circ> smeta) = freeMetas accessExp now P m"
proof -
  let ?m = "promoteExpiredLocked accessExp now m"
  note st = promote_structure [OF assms(1), of accessExp now]
  have k: "keyed (entries m)" "keyed (entries ?m)" using assms(1) st(1) by (auto intro: indexed_keyed)
  have ready: "isReady e \<longleftrightarrow> \<not> blocked (check accessExp (modelKey m) e now)"
    if "map_of (entries ?m) (entryID e) = Some e" for e
    by (rule promote_exact [OF assms that])
  show ?thesis
  proof (intro set_eqI iffI)
    fix x assume "x \<in> smeta ` candidates ?m (P \<circ> smeta)"
    then obtain e where e: "map_of (entries ?m) (entryID e) = Some e" "isReady e" "P (smeta e)" "x = smeta e"
      by (auto simp: candidates_def)
    then obtain e0 where e0: "map_of (entries m) (entryID e) = Some e0" "e = rejudge accessExp (modelKey m) now e0"
      using st(2) by auto
    then have "e0 \<in> snd ` set (entries m)" by (force dest: map_of_SomeD)
    with e e0 ready show "x \<in> freeMetas accessExp now P m" by (auto simp: freeMetas_def)
  next
    fix x assume "x \<in> freeMetas accessExp now P m"
    then obtain e0 where e0: "e0 \<in> snd ` set (entries m)" "smeta e0 = x" "P x"
      and nb: "\<not> blocked (isAuthBlockedForModel accessExp (Some (mAuth x)) (modelKey m) now)"
      by (auto simp: freeMetas_def)
    let ?e = "rejudge accessExp (modelKey m) now e0"
    have "map_of (entries m) (entryID e0) = Some e0" using keyed_in_set [OF k(1)] e0(1) by blast
    then have "map_of (entries ?m) (entryID ?e) = Some ?e" using st(2) by simp
    with ready e0 nb have "?e \<in> candidates ?m (P \<circ> smeta)" by (auto simp: candidates_def)
    moreover have "x = smeta ?e" using e0(2) by simp
    ultimately show "x \<in> smeta ` candidates ?m (P \<circ> smeta)" by blast
  qed
qed

lemma pool_metaPool: "smeta ` pool pw m (P \<circ> smeta) = metaPool pw (smeta ` candidates m (P \<circ> smeta))"
  by (auto simp: pool_def metaPool_def wsCandidates_def)

lemma pickReady_pool:
  assumes "indexed m" and w: "strategy = schedulerStrategyWeightedRoundRobin \<longrightarrow> (\<forall>e. predicate e \<longrightarrow> 0 < mWeight (smeta e))"
  shows "let m' = promoteExpiredLocked accessExp now m in
    (case fst (pickReadyLocked accessExp pw strategy predicate now m) of
       None \<Rightarrow> pool pw m' predicate = {}
     | Some e \<Rightarrow> e \<in> pool pw m' predicate
         \<and> (\<forall>e' \<in> pool pw m' predicate. mPriority (smeta e') \<le> mPriority (smeta e)))"
proof -
  let ?m = "promoteExpiredLocked accessExp now m"
  have i: "indexed ?m" by (rule promote_structure(1) [OF assms(1)])
  show ?thesis
  proof (cases "highestReadyPriorityLocked pw predicate ?m")
    case None
    then have "pool pw ?m predicate = {}" using highestReadyPriority_pool(1) [OF i] by blast
    then show ?thesis by (simp add: pickReadyLocked_def Let_def None)
  next
    case (Some q)
    note H = highestReadyPriority_pool(2) [OF i Some]
    then obtain b where b: "map_of (readyByPriority ?m) q = Some b" by blast
    define T where "T = (if usesWs pw predicate ?m b then wsCandidates ?m predicate else candidates ?m predicate)"
    have pk: "fst (pickReadyLocked accessExp pw strategy predicate now m)
        = fst (pickReadyAtPriorityLocked pw q strategy predicate ?m)"
      using Some by (simp add: pickReadyLocked_def Let_def)
    have T: "{e \<in> T. mPriority (smeta e) = q} = {e \<in> pool pw ?m predicate. mPriority (smeta e) = q}"
      using H usesWs_iff [OF i b, of pw predicate] by (auto simp: T_def pool_def split: if_splits)
    from pickAtPriority_sound [OF i b w T_def] T H show ?thesis
      unfolding pk Let_def by (auto split: option.splits)
  qed
qed

lemma pickReady_free:
  assumes "indexed m" and "judged_by accessExp t m" and "t \<le> now"
    and "strategy = schedulerStrategyWeightedRoundRobin \<longrightarrow> (\<forall>meta. P meta \<longrightarrow> 0 < mWeight meta)"
  shows "case fst (pickReadyLocked accessExp preferWebsocket strategy (P \<circ> smeta) now m) of
      None \<Rightarrow> metaPool preferWebsocket (freeMetas accessExp now P m) = {}
    | Some e \<Rightarrow> smeta e \<in> metaPool preferWebsocket (freeMetas accessExp now P m)
        \<and> (\<forall>meta \<in> metaPool preferWebsocket (freeMetas accessExp now P m). mPriority meta \<le> mPriority (smeta e))"
proof -
  have w: "strategy = schedulerStrategyWeightedRoundRobin \<longrightarrow> (\<forall>e. (P \<circ> smeta) e \<longrightarrow> 0 < mWeight (smeta e))"
    using assms(4) by simp
  have eq: "metaPool preferWebsocket (freeMetas accessExp now P m) =
      smeta ` pool preferWebsocket (promoteExpiredLocked accessExp now m) (P \<circ> smeta)"
    unfolding pool_metaPool candidates_freeMetas [OF assms(1-3)] ..
  from pickReady_pool [OF assms(1) w, of accessExp now preferWebsocket] show ?thesis
    unfolding eq Let_def
    by (cases "fst (pickReadyLocked accessExp preferWebsocket strategy (P \<circ> smeta) now m)")
      (auto simp del: o_apply)
qed


definition emptyShard :: "string \<Rightarrow> modelScheduler" where
  "emptyShard key = \<lparr>modelKey = key, entries = [], priorityOrder = [], readyByPriority = [], blockedQueue = []\<rparr>"

lemma emptyShard_ok: "indexed (emptyShard key)" "judged_by accessExp t (emptyShard key)"
  by (simp_all add: indexed_def emptyShard_def keyed_def tier_ok_def keysWith_def judged_by_def)

definition wMeta :: "Auth \<Rightarrow> scheduledAuthMeta" where
  "wMeta a = \<lparr>mAuth = a, mProviderKey = ''p'', mPriority = authPriority (Some a), mWeight = 1,
     mWebsocketEnabled = False, supportedModelSet = Some [''m''], registryEpoch = 0\<rparr>"

definition wShard :: modelScheduler where
  "wShard = upsertEntryLocked (\<lambda>_. None) (wMeta wAuth) 10
     (upsertEntryLocked (\<lambda>_. None) (wMeta (emptyAuth\<lparr>ID := ''z'', Status := StatusActive,
        Attributes := [(''priority'', ''-1'')]\<rparr>)) 10 (emptyShard ''m''))"

lemma wShard_ok: "indexed wShard" "judged_by (\<lambda>_. None) 10 wShard"
proof -
  show "indexed wShard" unfolding wShard_def by (intro indexed_upsert emptyShard_ok)
  have "judged_by (\<lambda>_. None) 10 (upsertEntryLocked (\<lambda>_. None) meta 10 m)" if "judged_by (\<lambda>_. None) 10 m" for meta m
    by (rule judged_by_upsert [OF that]) simp_all
  then show "judged_by (\<lambda>_. None) 10 wShard" unfolding wShard_def using emptyShard_ok(2) by blast
qed


end
