(* ===== verification/AuthScheduler.thy ===== *)
theory AuthScheduler
  imports ModelSchedulerProofs
begin

text \<open>
  The whole scheduler of \<open>src/sdk/cliproxy/auth/scheduler.go\<close>: providers with their model shards,
  the routing of credentials to providers, the generation table that orders concurrent updates,
  and the picks for one and for several providers.

  What the scheduler asks of its surroundings is the record \<open>schedEnv\<close>: the token expiry, and the
  two look-ups in the global model registry (the identifiers of the models registered for a
  client, and the client's registration epoch).  A request is the record \<open>schedReq\<close>: websocket
  transport, pinned credential, eligibility test and the credentials tried already.

  Methods that hold the mutex are functions on the state.  Every call of \<open>time.Now()\<close> is an
  argument.  Generations and epochs are \<open>uint64\<close>; the only arithmetic on them wraps.
\<close>

section \<open>State\<close>

record schedEnv =
  accessExp :: "Auth \<Rightarrow> gotime option"
  modelsForClient :: "string \<Rightarrow> string list"
  clientEpoch :: "string \<Rightarrow> nat"

record scheduledGenerationMeta =
  gEpoch :: nat
  gGeneration :: nat
  gUpdatedAt :: gotime

record providerScheduler =
  pProviderKey :: string
  pAuths :: "(string, scheduledAuthMeta) gomap"
  modelShards :: "(string, modelScheduler) gomap"

record authScheduler =
  strategy :: schedulerStrategy
  providers :: "(string, providerScheduler) gomap"
  authProviders :: "(string, string) gomap"
  authGenerations :: "(string, scheduledGenerationMeta) gomap"
  mixedCursors :: "(string, nat) gomap"
  mixedWeightedStates :: "(string, smoothWeightedState) gomap"

datatype builtinSelector = SelFillFirst | SelWeighted | SelRoundRobin | SelNil | SelOther

definition selectorStrategy :: "builtinSelector \<Rightarrow> schedulerStrategy" where
  "selectorStrategy selector =
     (case selector of
        SelFillFirst \<Rightarrow> schedulerStrategyFillFirst
      | SelWeighted \<Rightarrow> schedulerStrategyWeightedRoundRobin
      | SelNil \<Rightarrow> schedulerStrategyRoundRobin
      | SelRoundRobin \<Rightarrow> schedulerStrategyRoundRobin
      | SelOther \<Rightarrow> schedulerStrategyCustom)"

definition newAuthScheduler :: "builtinSelector \<Rightarrow> authScheduler" where
  "newAuthScheduler selector =
     \<lparr>strategy = selectorStrategy selector, providers = [], authProviders = [], authGenerations = [],
      mixedCursors = [], mixedWeightedStates = []\<rparr>"

definition setSelector :: "builtinSelector \<Rightarrow> authScheduler \<Rightarrow> authScheduler" where
  "setSelector selector s =
     s\<lparr>strategy := selectorStrategy selector, mixedCursors := [], mixedWeightedStates := []\<rparr>"

section \<open>Providers and shards\<close>

definition supportedModelSetForAuth :: "schedEnv \<Rightarrow> string \<Rightarrow> string list option" where
  "supportedModelSetForAuth env authID =
     (let authID = TrimSpace authID
      in if authID = [] then None
         else if modelsForClient env authID = [] then None
         else Some (remdups (filter (\<lambda>k. k \<noteq> []) (map canonicalModelKey (modelsForClient env authID)))))"

definition buildScheduledAuthMetaWithModelSet ::
  "Auth \<Rightarrow> string list option \<Rightarrow> nat \<Rightarrow> scheduledAuthMeta" where
  "buildScheduledAuthMetaWithModelSet auth modelSet epoch =
     \<lparr>mAuth = auth, mProviderKey = executorKeyFromAuth (Some auth), mPriority = authPriority (Some auth),
      mWeight = authWeight (Some auth), mWebsocketEnabled = authWebsocketsEnabled (Some auth),
      supportedModelSet = modelSet, registryEpoch = epoch\<rparr>"

definition modelSetOf :: "scheduledAuthMeta \<Rightarrow> string list" where
  "modelSetOf meta = (case supportedModelSet meta of None \<Rightarrow> [] | Some l \<Rightarrow> l)"

definition supportsModel :: "scheduledAuthMeta \<Rightarrow> string \<Rightarrow> bool" where
  "supportsModel meta key =
     (let key = canonicalModelKey key
      in if key = [] then True else key \<in> set (modelSetOf meta))"

definition syncShard ::
  "schedEnv \<Rightarrow> scheduledAuthMeta \<Rightarrow> gotime \<Rightarrow> string \<Rightarrow> modelScheduler \<Rightarrow> modelScheduler" where
  "syncShard env meta now key shard =
     (if \<not> supportsModel meta key then removeEntryLocked (ID (mAuth meta)) shard
      else upsertEntryLocked (accessExp env) meta now shard)"

fun targetLoop ::
  "schedEnv \<Rightarrow> scheduledAuthMeta \<Rightarrow> gotime \<Rightarrow> string list \<Rightarrow> string list
   \<Rightarrow> (string, modelScheduler) gomap \<Rightarrow> (string, modelScheduler) gomap" where
  "targetLoop env meta now seen [] shards = shards"
| "targetLoop env meta now seen (t # ts) shards =
     (let key = canonicalModelKey t
      in if key \<in> set seen then targetLoop env meta now seen ts shards
         else case map_of shards key of
                None \<Rightarrow> targetLoop env meta now (key # seen) ts shards
              | Some shard \<Rightarrow>
                  targetLoop env meta now (key # seen) ts
                    (AList.update key (syncShard env meta now key shard) shards))"

definition updateTargetShardsLocked ::
  "schedEnv \<Rightarrow> scheduledAuthMeta \<Rightarrow> string list \<Rightarrow> gotime \<Rightarrow> providerScheduler \<Rightarrow> providerScheduler" where
  "updateTargetShardsLocked env meta targetModels now p =
     (let shards = (case map_of (modelShards p) [] of
                      None \<Rightarrow> modelShards p
                    | Some shard \<Rightarrow>
                        AList.update [] (syncShard env meta now [] shard) (modelShards p))
      in p\<lparr>modelShards := targetLoop env meta now [] targetModels shards\<rparr>)"

definition upsertAuthForModelsLocked ::
  "schedEnv \<Rightarrow> scheduledAuthMeta \<Rightarrow> string list \<Rightarrow> bool \<Rightarrow> gotime \<Rightarrow> providerScheduler \<Rightarrow> providerScheduler" where
  "upsertAuthForModelsLocked env meta targetModels credentialScoped now p =
     (let p = p\<lparr>pAuths := AList.update (ID (mAuth meta)) meta (pAuths p)\<rparr>
      in if credentialScoped \<or> targetModels = [] then
           p\<lparr>modelShards := map_vals (syncShard env meta now) (modelShards p)\<rparr>
         else updateTargetShardsLocked env meta targetModels now p)"

definition provider_removeAuthLocked :: "string \<Rightarrow> providerScheduler \<Rightarrow> providerScheduler" where
  "provider_removeAuthLocked authID p =
     (if authID = [] then p
      else p\<lparr>pAuths := AList.delete authID (pAuths p),
             modelShards := map_vals (\<lambda>_. removeEntryLocked authID) (modelShards p)\<rparr>)"

text \<open>\<open>ensureModelLocked\<close> stores the shard in the provider; the caller reads it back by its key.\<close>

definition buildShard :: "schedEnv \<Rightarrow> string \<Rightarrow> gotime \<Rightarrow> scheduledAuthMeta list \<Rightarrow> modelScheduler" where
  "buildShard env key now metas =
     fold (\<lambda>meta shard. if \<not> supportsModel meta key then shard
                         else upsertEntryLocked (accessExp env) meta now shard)
       metas (emptyShard key)"

definition ensureModelLocked ::
  "schedEnv \<Rightarrow> string \<Rightarrow> gotime \<Rightarrow> providerScheduler \<Rightarrow> providerScheduler \<times> modelScheduler" where
  "ensureModelLocked env model now p =
     (let key = canonicalModelKey model;
          shard = (case map_of (modelShards p) key of
                     Some shard \<Rightarrow> promoteExpiredLocked (accessExp env) now shard
                   | None \<Rightarrow> buildShard env key now (map snd (pAuths p)))
      in (p\<lparr>modelShards := AList.update key shard (modelShards p)\<rparr>, shard))"

section \<open>Generations\<close>

definition isStaleScheduledAuth :: "string \<Rightarrow> nat \<Rightarrow> nat \<Rightarrow> gotime \<Rightarrow> authScheduler \<Rightarrow> bool" where
  "isStaleScheduledAuth authID incomingEpoch incomingGen incomingUpdatedAt s =
     (case map_of (authGenerations s) authID of
        None \<Rightarrow> False
      | Some existing \<Rightarrow>
          gEpoch existing > incomingEpoch
          \<or> (gEpoch existing = incomingEpoch
             \<and> (gGeneration existing > incomingGen
                \<or> (gGeneration existing = incomingGen \<and> After (gUpdatedAt existing) incomingUpdatedAt))))"

definition setGeneration :: "string \<Rightarrow> nat \<Rightarrow> nat \<Rightarrow> gotime \<Rightarrow> authScheduler \<Rightarrow> authScheduler" where
  "setGeneration authID epoch gen updated s =
     s\<lparr>authGenerations := AList.update authID \<lparr>gEpoch = epoch, gGeneration = gen, gUpdatedAt = updated\<rparr>
         (authGenerations s)\<rparr>"

definition updateProvider ::
  "string \<Rightarrow> (providerScheduler \<Rightarrow> providerScheduler) \<Rightarrow> authScheduler \<Rightarrow> authScheduler" where
  "updateProvider key f s =
     (case map_of (providers s) key of
        None \<Rightarrow> s
      | Some p \<Rightarrow> s\<lparr>providers := AList.update key (f p) (providers s)\<rparr>)"

definition removeAuthFromProvidersLocked :: "string \<Rightarrow> authScheduler \<Rightarrow> authScheduler" where
  "removeAuthFromProvidersLocked authID s =
     (let providerKey = str_get (authProviders s) authID
      in if providerKey = [] then s
         else (let s = updateProvider providerKey (provider_removeAuthLocked authID) s
               in s\<lparr>authProviders := AList.delete authID (authProviders s)\<rparr>))"

definition removeAuthLocked :: "string \<Rightarrow> gotime \<Rightarrow> authScheduler \<Rightarrow> authScheduler" where
  "removeAuthLocked authID now s =
     (if authID = [] then s
      else
        (let epoch = (case map_of (authGenerations s) authID of
                        None \<Rightarrow> 1 | Some existing \<Rightarrow> (gEpoch existing + 1) mod 2 ^ 64)
         in removeAuthFromProvidersLocked authID (setGeneration authID epoch 0 now s)))"

definition removeAuth :: "string \<Rightarrow> gotime \<Rightarrow> authScheduler \<Rightarrow> authScheduler" where
  "removeAuth authID now s = removeAuthLocked (TrimSpace authID) now s"

definition recordRemovalTombstoneLocked :: "string \<Rightarrow> nat \<Rightarrow> gotime \<Rightarrow> authScheduler \<Rightarrow> authScheduler" where
  "recordRemovalTombstoneLocked authID tombstoneEpoch now s =
     (if authID = [] then s
      else if (case map_of (authGenerations s) authID of
                 None \<Rightarrow> False | Some existing \<Rightarrow> tombstoneEpoch < gEpoch existing) then s
      else removeAuthFromProvidersLocked authID (setGeneration authID tombstoneEpoch 0 now s))"

definition RecordRemovalTombstone :: "string \<Rightarrow> nat \<Rightarrow> gotime \<Rightarrow> authScheduler \<Rightarrow> authScheduler" where
  "RecordRemovalTombstone authID tombstoneEpoch now s =
     recordRemovalTombstoneLocked (TrimSpace authID) tombstoneEpoch now s"

definition ResetAuthGeneration :: "string \<Rightarrow> authScheduler \<Rightarrow> authScheduler" where
  "ResetAuthGeneration authID s =
     (let authID = TrimSpace authID
      in if authID = [] then s else s\<lparr>authGenerations := AList.delete authID (authGenerations s)\<rparr>)"

definition ensureProviderLocked :: "string \<Rightarrow> authScheduler \<Rightarrow> authScheduler" where
  "ensureProviderLocked providerKey s =
     (case map_of (providers s) providerKey of
        Some _ \<Rightarrow> s
      | None \<Rightarrow>
          s\<lparr>providers := AList.update providerKey
              \<lparr>pProviderKey = providerKey, pAuths = [], modelShards = []\<rparr> (providers s)\<rparr>)"

definition leavePreviousProvider :: "string \<Rightarrow> string \<Rightarrow> authScheduler \<Rightarrow> authScheduler" where
  "leavePreviousProvider authID providerKey s =
     (let previousProvider = str_get (authProviders s) authID
      in if previousProvider \<noteq> [] \<and> previousProvider \<noteq> providerKey
         then updateProvider previousProvider (provider_removeAuthLocked authID) s
         else s)"

definition unschedulable :: "Auth \<Rightarrow> bool" where
  "unschedulable auth \<longleftrightarrow>
     executorKeyFromAuth (Some auth) = [] \<or> Disabled auth \<or> Status auth = StatusDisabled"

text \<open>The tail shared by the lifecycle and the rebuild path: move the credential to its provider
  and synchronise all shards with freshly registered models.\<close>

definition placeAuth :: "schedEnv \<Rightarrow> string \<Rightarrow> Auth \<Rightarrow> gotime \<Rightarrow> authScheduler \<Rightarrow> authScheduler" where
  "placeAuth env authID auth now s =
     (let providerKey = executorKeyFromAuth (Some auth);
          s = ensureProviderLocked providerKey (leavePreviousProvider authID providerKey s);
          meta = buildScheduledAuthMetaWithModelSet auth (supportedModelSetForAuth env (ID auth))
                   (clientEpoch env authID);
          s = s\<lparr>authProviders := AList.update authID providerKey (authProviders s)\<rparr>
      in updateProvider providerKey (upsertAuthForModelsLocked env meta [] True now) s)"

definition upsertAuthLifecycleLocked ::
  "schedEnv \<Rightarrow> Auth option \<Rightarrow> gotime \<Rightarrow> authScheduler \<Rightarrow> authScheduler" where
  "upsertAuthLifecycleLocked env auth now s =
     (case auth of
        None \<Rightarrow> s
      | Some a \<Rightarrow>
         (let authID = TrimSpace (ID a)
          in if authID = [] then s
             else if isStaleScheduledAuth authID (RegistrationEpoch a) (Generation a) (UpdatedAt a) s then s
             else
               (let s = setGeneration authID (RegistrationEpoch a) (Generation a) (UpdatedAt a) s
                in if unschedulable a then removeAuthFromProvidersLocked authID s
                   else placeAuth env authID a now s)))"

definition effectiveGeneration :: "string \<Rightarrow> Auth \<Rightarrow> authScheduler \<Rightarrow> nat \<times> gotime" where
  "effectiveGeneration authID a s =
     (case map_of (authGenerations s) authID of
        None \<Rightarrow> (Generation a, UpdatedAt a)
      | Some existing \<Rightarrow>
          if gEpoch existing = RegistrationEpoch a \<and> gGeneration existing > Generation a
          then (gGeneration existing,
                if After (gUpdatedAt existing) (UpdatedAt a) then gUpdatedAt existing else UpdatedAt a)
          else (Generation a, UpdatedAt a))"

definition rebuildChoice ::
  "string \<Rightarrow> Auth \<Rightarrow> (string, scheduledAuthMeta) gomap \<Rightarrow> authScheduler \<Rightarrow> Auth option" where
  "rebuildChoice authID a existingMetas s =
     (case map_of (authGenerations s) authID of
        None \<Rightarrow> Some a
      | Some existing \<Rightarrow>
          if gEpoch existing > RegistrationEpoch a then None
          else if gEpoch existing = RegistrationEpoch a \<and> gGeneration existing > Generation a then
            (case map_of existingMetas authID of
               None \<Rightarrow> None
             | Some meta \<Rightarrow>
                 if Disabled (mAuth meta) \<or> Status (mAuth meta) = StatusDisabled then None
                 else Some (mAuth meta))
          else Some a)"

definition upsertAuthRebuildLocked ::
  "schedEnv \<Rightarrow> (string, scheduledAuthMeta) gomap \<Rightarrow> gotime \<Rightarrow> Auth option \<Rightarrow> authScheduler \<Rightarrow> authScheduler" where
  "upsertAuthRebuildLocked env existingMetas now auth s =
     (case auth of
        None \<Rightarrow> s
      | Some a \<Rightarrow>
         (let authID = TrimSpace (ID a)
          in if authID = [] then s
             else
               (case rebuildChoice authID a existingMetas s of
                  None \<Rightarrow> s
                | Some authToSchedule \<Rightarrow>
                    if unschedulable authToSchedule then removeAuthFromProvidersLocked authID s
                    else
                      (let (gen, updated) = effectiveGeneration authID authToSchedule s
                       in placeAuth env authID authToSchedule now
                            (setGeneration authID (RegistrationEpoch authToSchedule) gen updated s)))))"

definition rebuild :: "schedEnv \<Rightarrow> Auth option list \<Rightarrow> gotime \<Rightarrow> authScheduler \<Rightarrow> authScheduler" where
  "rebuild env auths now s =
     (let existingMetas = fold (\<lambda>(_, p) m. fold (\<lambda>(k, meta) m. AList.update k meta m) (pAuths p) m) (providers s) [];
          s = s\<lparr>providers := [], authProviders := [], mixedCursors := [], mixedWeightedStates := []\<rparr>
      in fold (upsertAuthRebuildLocked env existingMetas now) auths s)"

definition upsertAuthResultLocked ::
  "schedEnv \<Rightarrow> Auth option \<Rightarrow> string list \<Rightarrow> bool \<Rightarrow> gotime \<Rightarrow> authScheduler \<Rightarrow> authScheduler" where
  "upsertAuthResultLocked env auth targetModels credentialScoped now s =
     (case auth of
        None \<Rightarrow> s
      | Some a \<Rightarrow>
         (let authID = TrimSpace (ID a);
              providerKey = executorKeyFromAuth auth
          in if authID = [] then s
             else if isStaleScheduledAuth authID (RegistrationEpoch a) (Generation a) (UpdatedAt a) s then
               (if providerKey = [] then s
                else updateProvider providerKey
                  (\<lambda>p. case map_of (pAuths p) authID of
                         None \<Rightarrow> p
                       | Some latestMeta \<Rightarrow>
                           upsertAuthForModelsLocked env latestMeta targetModels credentialScoped now p) s)
             else
               (let s = setGeneration authID (RegistrationEpoch a) (Generation a) (UpdatedAt a) s
                in if unschedulable a then removeAuthFromProvidersLocked authID s
                   else
                     (let s = ensureProviderLocked providerKey (leavePreviousProvider authID providerKey s);
                          currentRegEpoch = clientEpoch env authID;
                          existingMeta = (case map_of (providers s) providerKey of
                                            None \<Rightarrow> None | Some p \<Rightarrow> map_of (pAuths p) authID);
                          reusable = (case existingMeta of
                                        None \<Rightarrow> None
                                      | Some em \<Rightarrow> if registryEpoch em \<noteq> currentRegEpoch then None
                                                     else supportedModelSet em);
                          modelSetChanged = (reusable = None);
                          modelSet = (case reusable of
                                        Some known \<Rightarrow> Some known
                                      | None \<Rightarrow> supportedModelSetForAuth env (ID a));
                          meta = buildScheduledAuthMetaWithModelSet a modelSet currentRegEpoch;
                          s = s\<lparr>authProviders := AList.update authID providerKey (authProviders s)\<rparr>;
                          modelCount = (case modelSet of None \<Rightarrow> 0 | Some l \<Rightarrow> length l);
                          wasBlocked = (case existingMeta of
                                          None \<Rightarrow> False
                                        | Some em \<Rightarrow> isCredentialBlocked (accessExp env) (Some (mAuth em)) modelCount now);
                          isBlocked = isCredentialBlocked (accessExp env) auth modelCount now
                      in if modelSetChanged \<or> credentialScoped \<or> wasBlocked \<noteq> isBlocked \<or> targetModels = []
                         then updateProvider providerKey (upsertAuthForModelsLocked env meta [] True now) s
                         else updateProvider providerKey
                                (upsertAuthForModelsLocked env meta targetModels credentialScoped now) s))))"

definition isSchedulableAuth :: "Auth option \<Rightarrow> (string \<times> string) option" where
  "isSchedulableAuth auth =
     (case auth of
        None \<Rightarrow> None
      | Some a \<Rightarrow>
          if Disabled a \<or> Status a = StatusDisabled then None
          else if TrimSpace (ID a) = [] then None
          else if executorKeyFromAuth auth = [] then None
          else Some (TrimSpace (ID a), executorKeyFromAuth auth))"

definition authNeedsSync :: "schedEnv \<Rightarrow> authScheduler \<Rightarrow> Auth option \<Rightarrow> bool" where
  "authNeedsSync env s auth =
     (case auth of
        None \<Rightarrow> False
      | Some a \<Rightarrow>
         (case isSchedulableAuth auth of
            None \<Rightarrow> TrimSpace (ID a) \<noteq> [] \<and> map_of (authProviders s) (TrimSpace (ID a)) \<noteq> None
          | Some (authID, providerKey) \<Rightarrow>
              str_get (authProviders s) authID \<noteq> providerKey
              \<or> (case map_of (providers s) providerKey of
                   None \<Rightarrow> True
                 | Some p \<Rightarrow>
                    (case map_of (pAuths p) authID of
                       None \<Rightarrow> True
                     | Some meta \<Rightarrow>
                        (case map_of (authGenerations s) authID of
                           None \<Rightarrow> True
                         | Some g \<Rightarrow> gEpoch g \<noteq> RegistrationEpoch a
                             \<or> registryEpoch meta \<noteq> clientEpoch env authID)))))"

definition needsSyncFromMapLocked :: "schedEnv \<Rightarrow> (string, Auth option) gomap \<Rightarrow> authScheduler \<Rightarrow> bool" where
  "needsSyncFromMapLocked env auths s \<longleftrightarrow>
     length (filter (\<lambda>(_, a). isSchedulableAuth a \<noteq> None) auths) \<noteq> length (authProviders s)
     \<or> (\<exists>(_, a) \<in> set auths. authNeedsSync env s a)"

section \<open>Picks\<close>

record schedReq =
  reqWebsocket :: bool
  pinnedAuthID :: string
  allows :: "Auth \<Rightarrow> bool"
  tried :: "string list"

definition scheduledAuthPredicate ::
  "schedReq \<Rightarrow> string \<Rightarrow> bool \<Rightarrow> scheduledAuthMeta \<Rightarrow> bool" where
  "scheduledAuthPredicate req pinned requirePositiveWeight meta \<longleftrightarrow>
     allows req (mAuth meta)
     \<and> \<not> (requirePositiveWeight \<and> mWeight meta \<le> 0)
     \<and> \<not> (pinned \<noteq> [] \<and> ID (mAuth meta) \<noteq> pinned)
     \<and> ID (mAuth meta) \<notin> set (tried req)"

definition providerPrefersWebsocketTransport :: "string \<Rightarrow> bool" where
  "providerPrefersWebsocketTransport providerKey \<longleftrightarrow> ToLower (TrimSpace providerKey) \<in> {''codex'', ''xai''}"

definition resolveStrategy :: "schedulerStrategy \<Rightarrow> authScheduler \<Rightarrow> schedulerStrategy" where
  "resolveStrategy strat s = (if strat = schedulerStrategyCurrent then strategy s else strat)"

definition requestPredicate :: "schedReq \<Rightarrow> string \<Rightarrow> schedulerStrategy \<Rightarrow> scheduledAuthMeta \<Rightarrow> bool" where
  "requestPredicate req pinned strat =
     scheduledAuthPredicate req pinned (strat = schedulerStrategyWeightedRoundRobin)"

definition errNotFound :: auth_error where
  "errNotFound = PlainError (errNew ''auth_not_found'' ''no auth available'')"

text \<open>Store a provider with one of its shards replaced.\<close>

definition putShard ::
  "string \<Rightarrow> providerScheduler \<Rightarrow> string \<Rightarrow> modelScheduler \<Rightarrow> authScheduler \<Rightarrow> authScheduler" where
  "putShard providerKey p key shard s =
     s\<lparr>providers := AList.update providerKey (p\<lparr>modelShards := AList.update key shard (modelShards p)\<rparr>)
         (providers s)\<rparr>"

text \<open>Ensure the shard, pick from it, and report the shard's error when nothing matches.  The three
  times are those of \<open>ensureModelLocked\<close>, \<open>pickReadyLocked\<close> and \<open>unavailableErrorLocked\<close>.\<close>

definition pickFromProvider ::
  "schedEnv \<Rightarrow> string \<Rightarrow> string \<Rightarrow> string \<Rightarrow> bool \<Rightarrow> schedulerStrategy \<Rightarrow> (scheduledAuthMeta \<Rightarrow> bool)
   \<Rightarrow> gotime \<times> gotime \<times> gotime \<Rightarrow> authScheduler \<Rightarrow> authScheduler \<times> (auth_error + Auth)" where
  "pickFromProvider env providerKey providerForError model preferWebsocket strat P clock s =
     (case clock of (t1, t2, t3) \<Rightarrow>
       (case map_of (providers s) providerKey of
          None \<Rightarrow> (s, Inl errNotFound)
        | Some p \<Rightarrow>
           (let (p, shard) = ensureModelLocked env (canonicalModelKey model) t1 p;
                key = canonicalModelKey (canonicalModelKey model);
                (picked, shard) = pickReadyLocked (accessExp env) preferWebsocket strat (P \<circ> smeta) t2 shard;
                s = putShard providerKey p key shard s
            in case picked of
                 Some e \<Rightarrow> (s, Inr (mAuth (smeta e)))
               | None \<Rightarrow> (s, Inl (unavailableErrorLocked providerForError model (P \<circ> smeta) t3 shard)))))"

definition pickSingleWithStrategy ::
  "schedEnv \<Rightarrow> schedReq \<Rightarrow> string \<Rightarrow> string \<Rightarrow> schedulerStrategy \<Rightarrow> gotime \<times> gotime \<times> gotime
   \<Rightarrow> authScheduler \<Rightarrow> authScheduler \<times> (auth_error + Auth)" where
  "pickSingleWithStrategy env req provider model strat clock s =
     (let providerKey = canonicalSchedulingProvider provider;
          preferWebsocket = (reqWebsocket req \<and> providerPrefersWebsocketTransport providerKey
                             \<and> pinnedAuthID req = []);
          strat = resolveStrategy strat s
      in pickFromProvider env providerKey provider model preferWebsocket strat
           (requestPredicate req (pinnedAuthID req) strat) clock s)"

definition pickSingle ::
  "schedEnv \<Rightarrow> schedReq \<Rightarrow> string \<Rightarrow> string \<Rightarrow> gotime \<times> gotime \<times> gotime
   \<Rightarrow> authScheduler \<Rightarrow> authScheduler \<times> (auth_error + Auth)" where
  "pickSingle env req provider model clock s =
     pickSingleWithStrategy env req provider model schedulerStrategyCurrent clock s"

fun normalizeLoop :: "string list \<Rightarrow> string list \<Rightarrow> string list" where
  "normalizeLoop seen [] = []"
| "normalizeLoop seen (provider # ps) =
     (let providerKey = canonicalSchedulingProvider provider
      in if providerKey = [] \<or> providerKey \<in> set seen then normalizeLoop seen ps
         else providerKey # normalizeLoop (providerKey # seen) ps)"

definition normalizeProviderKeys :: "string list \<Rightarrow> string list" where
  "normalizeProviderKeys ps = normalizeLoop [] ps"

section \<open>Picks across providers\<close>

definition ensureProviderModel :: "schedEnv \<Rightarrow> string \<Rightarrow> gotime \<Rightarrow> string \<Rightarrow> authScheduler \<Rightarrow> authScheduler" where
  "ensureProviderModel env model now providerKey s =
     updateProvider providerKey (\<lambda>p. fst (ensureModelLocked env model now p)) s"

definition shardOf :: "authScheduler \<Rightarrow> string \<Rightarrow> string \<Rightarrow> modelScheduler option" where
  "shardOf s model providerKey =
     (case map_of (providers s) providerKey of
        None \<Rightarrow> None
      | Some p \<Rightarrow> map_of (modelShards p) (canonicalModelKey model))"

definition bestReadyPriority :: "(scheduledAuthMeta \<Rightarrow> bool) \<Rightarrow> modelScheduler option list \<Rightarrow> int option" where
  "bestReadyPriority P shards =
     fold (\<lambda>sh best.
       case sh of
         None \<Rightarrow> best
       | Some shard \<Rightarrow>
          (case highestReadyPriorityLocked False (P \<circ> smeta) shard of
             None \<Rightarrow> best
           | Some priorityReady \<Rightarrow>
              (case best of
                 None \<Rightarrow> Some priorityReady
               | Some b \<Rightarrow> if priorityReady > b then Some priorityReady else best))) shards None"

definition mergeSummary :: "availSummary \<Rightarrow> availSummary \<Rightarrow> availSummary" where
  "mergeSummary acc local =
     \<lparr>sumTotal = sumTotal acc + sumTotal local, sumCooldown = sumCooldown acc + sumCooldown local,
      sumUnauthorized = sumUnauthorized acc + sumUnauthorized local,
      sumEarliest =
        (if \<not> IsZero (sumEarliest local) \<and> (IsZero (sumEarliest acc) \<or> Before (sumEarliest local) (sumEarliest acc))
         then sumEarliest local else sumEarliest acc)\<rparr>"

definition mixedUnavailableErrorLocked ::
  "schedEnv \<Rightarrow> string list \<Rightarrow> string \<Rightarrow> (scheduledAuthMeta \<Rightarrow> bool) \<Rightarrow> gotime \<Rightarrow> authScheduler
   \<Rightarrow> authScheduler \<times> auth_error" where
  "mixedUnavailableErrorLocked env ps model P now s =
     (let key = canonicalModelKey model;
          s = fold (ensureProviderModel env key now) ps s;
          shards = List.map_filter (shardOf s key) ps;
          sm = fold (\<lambda>sh acc. mergeSummary acc (availabilitySummaryLocked (P \<circ> smeta) sh)) shards
                 \<lparr>sumTotal = 0, sumCooldown = 0, sumUnauthorized = 0, sumEarliest = 0\<rparr>;
          errs = fold (\<lambda>sh (me, ae).
                   (let (cm, ca) = candidateErrorsLocked model (P \<circ> smeta) sh
                    in (newerErr me cm, newerErr ae ca))) shards (None, None)
      in (s, classifyUnavailable [] model now sm errs))"

text \<open>One attempt at a provider's shard during a mixed pick.\<close>

definition tryShard ::
  "string \<Rightarrow> int \<Rightarrow> schedulerStrategy \<Rightarrow> (scheduledAuthMeta \<Rightarrow> bool) \<Rightarrow> string \<Rightarrow> authScheduler
   \<Rightarrow> authScheduler \<times> Auth option" where
  "tryShard model priority strat P providerKey s =
     (case map_of (providers s) providerKey of
        None \<Rightarrow> (s, None)
      | Some p \<Rightarrow>
         (case map_of (modelShards p) (canonicalModelKey model) of
            None \<Rightarrow> (s, None)
          | Some shard \<Rightarrow>
             (let (picked, shard) = pickReadyAtPriorityLocked False priority strat (P \<circ> smeta) shard
              in (putShard providerKey p (canonicalModelKey model) shard s, map_option (mAuth \<circ> smeta) picked))))"

fun fillFirstLoop ::
  "string \<Rightarrow> int \<Rightarrow> (scheduledAuthMeta \<Rightarrow> bool) \<Rightarrow> string list \<Rightarrow> authScheduler
   \<Rightarrow> authScheduler \<times> (Auth \<times> string) option" where
  "fillFirstLoop model priority P [] s = (s, None)"
| "fillFirstLoop model priority P (providerKey # ps) s =
     (case tryShard model priority schedulerStrategyFillFirst P providerKey s of
        (s, Some a) \<Rightarrow> (s, Some (a, providerKey))
      | (s, None) \<Rightarrow> fillFirstLoop model priority P ps s)"

definition mixedEntries :: "int \<Rightarrow> modelScheduler option list \<Rightarrow> scheduledAuth list" where
  "mixedEntries priority shards =
     sort_key entryID (concat (map (\<lambda>sh.
       case sh of
         None \<Rightarrow> []
       | Some shard \<Rightarrow>
          (case map_of (readyByPriority shard) priority of
             None \<Rightarrow> []
           | Some bucket \<Rightarrow> lookupAll (entries shard) (flat (ball bucket)))) shards))"

definition mixedWeightedPick ::
  "string \<Rightarrow> scheduledAuth list \<Rightarrow> (scheduledAuthMeta \<Rightarrow> bool) \<Rightarrow> authScheduler
   \<Rightarrow> authScheduler \<times> (Auth \<times> string) option" where
  "mixedWeightedPick cursorKey es P s =
     (let state = (case map_of (mixedWeightedStates s) cursorKey of None \<Rightarrow> emptyWeightedState | Some st \<Rightarrow> st);
          state = prepare (scheduledWeightVectorMatching es (P \<circ> smeta)) state;
          (picked, current) = pickSmoothWeightedScheduled es (swCurrent state) (P \<circ> smeta)
      in (s\<lparr>mixedWeightedStates := AList.update cursorKey (state\<lparr>swCurrent := current\<rparr>) (mixedWeightedStates s)\<rparr>,
          map_option (\<lambda>e. (mAuth (smeta e), mProviderKey (smeta e))) picked))"

definition segmentStart :: "nat list \<Rightarrow> nat \<Rightarrow> nat" where
  "segmentStart weights i = sum_list (take i weights)"

definition startProvider :: "nat list \<Rightarrow> nat \<Rightarrow> nat option" where
  "startProvider weights slot =
     find (\<lambda>i. weights ! i \<noteq> 0 \<and> slot < segmentStart weights (Suc i)) [0..<length weights]"

text \<open>The walk over the providers from the one that owns the cursor's slot.\<close>

fun mixedRRLoop ::
  "string \<Rightarrow> string \<Rightarrow> int \<Rightarrow> (scheduledAuthMeta \<Rightarrow> bool) \<Rightarrow> string list \<Rightarrow> nat list \<Rightarrow> nat \<Rightarrow> nat \<Rightarrow> nat list
   \<Rightarrow> authScheduler \<Rightarrow> authScheduler \<times> (Auth \<times> string) option" where
  "mixedRRLoop cursorKey model priority P ps weights startIndex slot [] s = (s, None)"
| "mixedRRLoop cursorKey model priority P ps weights startIndex slot (offset # offsets) s =
     (let i = (startIndex + offset) mod length ps
      in if weights ! i = 0 then mixedRRLoop cursorKey model priority P ps weights startIndex slot offsets s
         else
           (let slot = (if i \<noteq> startIndex then segmentStart weights i else slot)
            in case tryShard model priority schedulerStrategyRoundRobin P (ps ! i) s of
                 (s, None) \<Rightarrow> mixedRRLoop cursorKey model priority P ps weights startIndex slot offsets s
               | (s, Some a) \<Rightarrow>
                   (s\<lparr>mixedCursors := AList.update cursorKey (slot + 1) (mixedCursors s)\<rparr>, Some (a, ps ! i))))"

fun joinComma :: "string list \<Rightarrow> string" where
  "joinComma [] = []"
| "joinComma [p] = p"
| "joinComma (p # q # ps) = p @ '','' @ joinComma (q # ps)"

definition mixedRoundRobin ::
  "string \<Rightarrow> string \<Rightarrow> int \<Rightarrow> (scheduledAuthMeta \<Rightarrow> bool) \<Rightarrow> string list \<Rightarrow> modelScheduler option list
   \<Rightarrow> authScheduler \<Rightarrow> authScheduler \<times> (Auth \<times> string) option" where
  "mixedRoundRobin cursorKey model priority P ps shards s =
     (let weights = map (\<lambda>sh. case sh of None \<Rightarrow> 0
                              | Some shard \<Rightarrow> readyCountAtPriorityLocked False priority (P \<circ> smeta) shard) shards;
          totalWeight = sum_list weights
      in if totalWeight = 0 then (s, None)
         else
           (let cursor = (case map_of (mixedCursors s) cursorKey of None \<Rightarrow> 0 | Some c \<Rightarrow> c);
                startSlot = cursor mod totalWeight
            in case startProvider weights startSlot of
                 None \<Rightarrow> (s, None)
               | Some i \<Rightarrow> mixedRRLoop cursorKey model priority P ps weights i startSlot [0..<length ps] s))"

text \<open>The pick over several providers without a pinned credential: bring the shards up to date, find the
  best priority any of them can serve, and pick there by the strategy.\<close>

definition mixedOutcome ::
  "schedEnv \<Rightarrow> schedulerStrategy \<Rightarrow> (scheduledAuthMeta \<Rightarrow> bool) \<Rightarrow> string list \<Rightarrow> string \<Rightarrow> gotime
   \<Rightarrow> authScheduler \<Rightarrow> authScheduler \<times> (Auth \<times> string) option" where
  "mixedOutcome env strat P normalized key now s =
     (let s = fold (ensureProviderModel env key now) normalized s;
          shards = map (shardOf s key) normalized;
          cursorKey = joinComma normalized @ '':'' @ key
      in case bestReadyPriority P shards of
           None \<Rightarrow> (s, None)
         | Some best \<Rightarrow>
             if strat = schedulerStrategyFillFirst then fillFirstLoop key best P normalized s
             else if strat = schedulerStrategyWeightedRoundRobin then
               mixedWeightedPick cursorKey (mixedEntries best shards) P s
             else mixedRoundRobin cursorKey key best P normalized shards s)"

text \<open>
  The times: one for ensuring and ranking the shards (also of the pinned path), one for a pick in the pinned
  or single provider path, one for the error.
\<close>

definition pickMixedWithStrategy ::
  "schedEnv \<Rightarrow> schedReq \<Rightarrow> string list \<Rightarrow> string \<Rightarrow> schedulerStrategy \<Rightarrow> gotime \<times> gotime \<times> gotime
   \<Rightarrow> authScheduler \<Rightarrow> authScheduler \<times> (auth_error + Auth \<times> string)" where
  "pickMixedWithStrategy env req provs model strat clock s =
     (let normalized = normalizeProviderKeys provs
      in if normalized = [] then (s, Inl (PlainError (errNew ''provider_not_found'' ''no provider supplied'')))
         else if length normalized = 1 then
           (case pickSingleWithStrategy env req (hd normalized) model strat clock s of
              (s, Inl e) \<Rightarrow> (s, Inl e)
            | (s, Inr a) \<Rightarrow> (s, Inr (a, hd normalized)))
         else
           (let strat = resolveStrategy strat s
            in if pinnedAuthID req \<noteq> [] then
                 (let providerKey = str_get (authProviders s) (pinnedAuthID req)
                  in if providerKey = [] \<or> providerKey \<notin> set normalized then (s, Inl errNotFound)
                     else
                       (case pickFromProvider env providerKey ''mixed'' model False strat
                               (requestPredicate req (pinnedAuthID req) strat) clock s of
                          (s, Inl e) \<Rightarrow> (s, Inl e)
                        | (s, Inr a) \<Rightarrow> (s, Inr (a, providerKey))))
               else
                 (let P = requestPredicate req [] strat
                  in case mixedOutcome env strat P normalized (canonicalModelKey model) (fst clock) s of
                       (s, Some r) \<Rightarrow> (s, Inr r)
                     | (s, None) \<Rightarrow>
                         (case mixedUnavailableErrorLocked env normalized model P (snd (snd clock)) s of
                            (s, err) \<Rightarrow> (s, Inl err)))))"

end
