(* ===== verification/AuthSchedulerProofs.thy ===== *)
theory AuthSchedulerProofs
  imports AuthScheduler
begin

text \<open>
  Correctness of the whole scheduler.

  The operations are collected in a datatype with one executor, so that a run of the process is a
  sequence of operations with the times at which they happen.  An invariant of single providers is
  carried through every operation once, inside the locale \<open>provider_invariant\<close>; its interpretation
  discharges the provider's laws for the actual code.  The routing table between credentials and
  providers and the generation table get invariants of their own.
\<close>

section \<open>Operations\<close>

datatype schedOp =
    OpSetSelector builtinSelector
  | OpUpsert "Auth option"
  | OpResult "Auth option" "string list" bool
  | OpRebuild "Auth option list"
  | OpRemove string
  | OpTombstone string nat
  | OpReset string
  | OpPickSingle schedReq string string schedulerStrategy
  | OpPickMixed schedReq "string list" string schedulerStrategy

type_synonym clock = "gotime \<times> gotime \<times> gotime"

fun schedExec :: "schedEnv \<Rightarrow> clock \<Rightarrow> schedOp \<Rightarrow> authScheduler \<Rightarrow> authScheduler" where
  "schedExec env clock (OpSetSelector sel) s = setSelector sel s"
| "schedExec env clock (OpUpsert a) s = upsertAuthLifecycleLocked env a (fst clock) s"
| "schedExec env clock (OpResult a ms scoped) s = upsertAuthResultLocked env a ms scoped (fst clock) s"
| "schedExec env clock (OpRebuild auths) s = rebuild env auths (fst clock) s"
| "schedExec env clock (OpRemove i) s = removeAuth i (fst clock) s"
| "schedExec env clock (OpTombstone i ep) s = RecordRemovalTombstone i ep (fst clock) s"
| "schedExec env clock (OpReset i) s = ResetAuthGeneration i s"
| "schedExec env clock (OpPickSingle req prov model strat) s =
     fst (pickSingleWithStrategy env req prov model strat clock s)"
| "schedExec env clock (OpPickMixed req provs model strat) s =
     fst (pickMixedWithStrategy env req provs model strat clock s)"

fun opAuths :: "schedOp \<Rightarrow> Auth set" where
  "opAuths (OpUpsert a) = set_option a"
| "opAuths (OpResult a ms scoped) = set_option a"
| "opAuths (OpRebuild auths) = {a. Some a \<in> set auths}"
| "opAuths _ = {}"

definition ticks :: "gotime \<Rightarrow> clock \<Rightarrow> bool" where
  "ticks t clock \<longleftrightarrow> 0 \<le> t \<and> t \<le> fst clock \<and> fst clock \<le> fst (snd clock) \<and> fst (snd clock) \<le> snd (snd clock)"

section \<open>Invariants of one provider, carried through every operation\<close>

text \<open>A meta that belongs to a provider: built from its credential, and routed there.\<close>

definition metaFor :: "(Auth \<Rightarrow> bool) \<Rightarrow> providerScheduler \<Rightarrow> scheduledAuthMeta \<Rightarrow> bool" where
  "metaFor Q p meta \<longleftrightarrow>
     meta = buildScheduledAuthMetaWithModelSet (mAuth meta) (supportedModelSet meta) (registryEpoch meta)
     \<and> mProviderKey meta = pProviderKey p \<and> Q (mAuth meta)
     \<and> \<not> unschedulable (mAuth meta) \<and> TrimSpace (ID (mAuth meta)) = ID (mAuth meta) \<and> ID (mAuth meta) \<noteq> []"

text \<open>Admissible credentials of an operation: their identifiers carry no surrounding blanks, and
  those that can be scheduled satisfy the property under study.\<close>

definition admits :: "(Auth \<Rightarrow> bool) \<Rightarrow> Auth \<Rightarrow> bool" where
  "admits Q a \<longleftrightarrow> TrimSpace (ID a) = ID a \<and> (\<not> unschedulable a \<longrightarrow> Q a)"

text \<open>An older registration than the one on record is turned away, so it need not satisfy anything.\<close>

definition epoch_stale :: "authScheduler \<Rightarrow> Auth \<Rightarrow> bool" where
  "epoch_stale s a \<longleftrightarrow> (\<exists>g. map_of (authGenerations s) (ID a) = Some g \<and> RegistrationEpoch a < gEpoch g)"

definition accepted :: "(Auth \<Rightarrow> bool) \<Rightarrow> authScheduler \<Rightarrow> Auth \<Rightarrow> bool" where
  "accepted Q s a \<longleftrightarrow> TrimSpace (ID a) = ID a \<and> (Q a \<or> unschedulable a \<or> epoch_stale s a)"

lemma admits_accepted: "admits Q a \<Longrightarrow> accepted Q s a"
  by (auto simp: admits_def accepted_def)

lemma accepted_admits: "accepted Q s a \<Longrightarrow> \<not> epoch_stale s a \<Longrightarrow> admits Q a"
  by (auto simp: admits_def accepted_def)

lemma epoch_stale_isStale:
  "epoch_stale s a \<Longrightarrow> isStaleScheduledAuth (ID a) (RegistrationEpoch a) gen u s"
  by (auto simp: epoch_stale_def isStaleScheduledAuth_def)

lemma epoch_stale_rebuild: "epoch_stale s a \<Longrightarrow> rebuildChoice (ID a) a em s = None"
  by (auto simp: epoch_stale_def rebuildChoice_def)

lemma metaFor_build:
  "admits Q a \<Longrightarrow> \<not> unschedulable a \<Longrightarrow> ID a \<noteq> [] \<Longrightarrow> executorKeyFromAuth (Some a) = pProviderKey p \<Longrightarrow>
   metaFor Q p (buildScheduledAuthMetaWithModelSet a ms ep)"
  by (simp add: metaFor_def admits_def buildScheduledAuthMetaWithModelSet_def)

lemma build_simps [simp]:
  "mAuth (buildScheduledAuthMetaWithModelSet a ms ep) = a"
  "supportedModelSet (buildScheduledAuthMetaWithModelSet a ms ep) = ms"
  "mProviderKey (buildScheduledAuthMetaWithModelSet a ms ep) = executorKeyFromAuth (Some a)"
  by (simp_all add: buildScheduledAuthMetaWithModelSet_def)

locale provider_invariant =
  fixes X :: "Auth \<Rightarrow> gotime option"
    and Q :: "Auth \<Rightarrow> bool"
    and Inv :: "gotime \<Rightarrow> providerScheduler \<Rightarrow> bool"
  assumes inv_mono: "Inv t p \<Longrightarrow> t \<le> u \<Longrightarrow> Inv u p"
    and inv_empty: "Inv t \<lparr>pProviderKey = k, pAuths = [], modelShards = []\<rparr>"
    and inv_remove: "Inv t p \<Longrightarrow> Inv t (provider_removeAuthLocked authID p)"
    and inv_upsert: "Inv t p \<Longrightarrow> 0 \<le> t \<Longrightarrow> t \<le> now \<Longrightarrow> accessExp env = X \<Longrightarrow> metaFor Q p meta \<Longrightarrow>
      targets = [] \<or> scoped \<or> (\<exists>old. map_of (pAuths p) (ID (mAuth meta)) = Some old
         \<and> supportedModelSet old = supportedModelSet meta) \<Longrightarrow>
      Inv now (upsertAuthForModelsLocked env meta targets scoped now p)"
    and inv_ensure: "Inv t p \<Longrightarrow> 0 \<le> t \<Longrightarrow> t \<le> now \<Longrightarrow> accessExp env = X \<Longrightarrow>
      Inv now (fst (ensureModelLocked env model now p))"
    and inv_pick: "Inv t p \<Longrightarrow> 0 \<le> t \<Longrightarrow> t \<le> now \<Longrightarrow> map_of (modelShards p) key = Some m \<Longrightarrow>
      Inv now (p\<lparr>modelShards := AList.update key (snd (pickReadyLocked X pw strat P now m)) (modelShards p)\<rparr>)"
    and inv_pickAt: "Inv t p \<Longrightarrow> map_of (modelShards p) key = Some m \<Longrightarrow>
      Inv t (p\<lparr>modelShards := AList.update key (snd (pickReadyAtPriorityLocked pw q strat P m)) (modelShards p)\<rparr>)"
    and inv_wf: "Inv t p \<Longrightarrow> wf_map (pAuths p)"
    and inv_known: "Inv t p \<Longrightarrow> map_of (pAuths p) k = Some meta \<Longrightarrow> ID (mAuth meta) = k \<and> metaFor Q p meta"
begin

definition all_ok :: "gotime \<Rightarrow> authScheduler \<Rightarrow> bool" where
  "all_ok t s \<longleftrightarrow> wf_map (providers s) \<and> (\<forall>k p. map_of (providers s) k = Some p \<longrightarrow> pProviderKey p = k \<and> Inv t p)"

lemma all_ok_mono: "all_ok t s \<Longrightarrow> t \<le> u \<Longrightarrow> all_ok u s"
  by (meson all_ok_def inv_mono)

lemma all_ok_providers: "providers s' = providers s \<Longrightarrow> all_ok t s' = all_ok t s"
  by (simp add: all_ok_def)

lemma all_ok_updateProvider:
  assumes "all_ok t s" and "t \<le> u"
    and "\<And>p. map_of (providers s) k = Some p \<Longrightarrow> pProviderKey p = k \<Longrightarrow> Inv t p \<Longrightarrow> pProviderKey (f p) = k \<and> Inv u (f p)"
  shows "all_ok u (updateProvider k f s)"
proof (cases "map_of (providers s) k")
  case None
  then show ?thesis using all_ok_mono [OF assms(1,2)] by (simp add: updateProvider_def)
next
  case (Some p)
  then have "pProviderKey (f p) = k \<and> Inv u (f p)" using assms(1,3) by (simp add: all_ok_def)
  with Some all_ok_mono [OF assms(1,2)] show ?thesis
    by (auto simp: updateProvider_def all_ok_def gomap_simps)
qed

lemma key_remove [simp]: "pProviderKey (provider_removeAuthLocked i p) = pProviderKey p"
  by (simp add: provider_removeAuthLocked_def)

lemma key_upsert [simp]: "pProviderKey (upsertAuthForModelsLocked env meta ts sc now p) = pProviderKey p"
  by (simp add: upsertAuthForModelsLocked_def updateTargetShardsLocked_def Let_def)

lemma key_ensure [simp]: "pProviderKey (fst (ensureModelLocked env model now p)) = pProviderKey p"
  by (simp add: ensureModelLocked_def Let_def)

lemma all_ok_drop: "all_ok t s \<Longrightarrow> all_ok t (updateProvider k (provider_removeAuthLocked i) s)"
  by (rule all_ok_updateProvider) (auto intro: inv_remove)

lemma all_ok_removeFromProviders: "all_ok t s \<Longrightarrow> all_ok t (removeAuthFromProvidersLocked i s)"
  using all_ok_drop [of t s "str_get (authProviders s) i" i]
  by (simp add: removeAuthFromProvidersLocked_def Let_def all_ok_def)

lemma all_ok_leave: "all_ok t s \<Longrightarrow> all_ok t (leavePreviousProvider i k s)"
  by (simp add: leavePreviousProvider_def Let_def all_ok_drop)

lemma all_ok_ensureProvider: "all_ok t s \<Longrightarrow> all_ok t (ensureProviderLocked k s)"
  by (auto simp: ensureProviderLocked_def all_ok_def gomap_simps inv_empty split: option.splits)

lemma all_ok_setGeneration [simp]: "all_ok t (setGeneration i e g u s) = all_ok t s"
  by (simp add: all_ok_def setGeneration_def)

lemma all_ok_authProviders [simp]: "all_ok t (s\<lparr>authProviders := m\<rparr>) = all_ok t s"
  by (simp add: all_ok_def)

lemma all_ok_upsert:
  assumes "all_ok t s" "0 \<le> t" "t \<le> now" "accessExp env = X"
    and "\<And>p. map_of (providers s) k = Some p \<Longrightarrow> pProviderKey p = k \<Longrightarrow> Inv t p \<Longrightarrow>
      metaFor Q p meta \<and> (targets = [] \<or> scoped \<or> (\<exists>old. map_of (pAuths p) (ID (mAuth meta)) = Some old
         \<and> supportedModelSet old = supportedModelSet meta))"
  shows "all_ok now (updateProvider k (upsertAuthForModelsLocked env meta targets scoped now) s)"
  using assms by (intro all_ok_updateProvider [OF assms(1,3)]) (auto intro!: inv_upsert)

lemma all_ok_place:
  assumes "all_ok t s" "0 \<le> t" "t \<le> now" "accessExp env = X"
    and "admits Q a" "\<not> unschedulable a" "ID a \<noteq> []"
  shows "all_ok now (placeAuth env i a now s)"
  unfolding placeAuth_def Let_def
  by (rule all_ok_upsert [where t = t])
    (use assms in \<open>auto intro!: all_ok_ensureProvider all_ok_leave metaFor_build\<close>)

lemma all_ok_lifecycle:
  assumes "all_ok t s" "0 \<le> t" "t \<le> now" "accessExp env = X" "\<forall>a \<in> set_option auth. accepted Q s a"
  shows "all_ok now (upsertAuthLifecycleLocked env auth now s)"
proof (cases auth)
  case None
  with all_ok_mono [OF assms(1,3)] show ?thesis by (simp add: upsertAuthLifecycleLocked_def)
next
  case (Some a)
  then have acc: "accepted Q s a" "TrimSpace (ID a) = ID a" using assms(5) by (auto simp: accepted_def)
  let ?s = "setGeneration (ID a) (RegistrationEpoch a) (Generation a) (UpdatedAt a) s"
  let ?stale = "isStaleScheduledAuth (ID a) (RegistrationEpoch a) (Generation a) (UpdatedAt a) s"
  have "all_ok now (placeAuth env (ID a) a now ?s)" if "\<not> unschedulable a" "ID a \<noteq> []" "\<not> ?stale"
    by (rule all_ok_place [OF _ assms(2-4)])
      (use that assms(1) accepted_admits [OF acc(1)] epoch_stale_isStale in auto)
  with Some acc all_ok_mono [OF assms(1,3)] show ?thesis
    by (simp add: upsertAuthLifecycleLocked_def Let_def all_ok_removeFromProviders)
qed

lemma all_ok_result:
  assumes "all_ok t s" "0 \<le> t" "t \<le> now" "accessExp env = X" "\<forall>a \<in> set_option auth. accepted Q s a"
  shows "all_ok now (upsertAuthResultLocked env auth targets scoped now s)"
proof (cases "auth = None \<or> (\<exists>a. auth = Some a \<and> TrimSpace (ID a) = [])")
  case True
  with all_ok_mono [OF assms(1,3)] show ?thesis by (auto simp: upsertAuthResultLocked_def Let_def)
next
  case False
  then obtain a where a: "auth = Some a" "TrimSpace (ID a) \<noteq> []" by auto
  with assms(5) have acc: "accepted Q s a" and tr: "TrimSpace (ID a) = ID a" by (auto simp: accepted_def)
  let ?stale = "isStaleScheduledAuth (ID a) (RegistrationEpoch a) (Generation a) (UpdatedAt a) s"
  have adm: "\<not> ?stale \<Longrightarrow> admits Q a" using accepted_admits [OF acc] epoch_stale_isStale by blast
  let ?i = "ID a" and ?k = "executorKeyFromAuth (Some a)"
  let ?s = "setGeneration ?i (RegistrationEpoch a) (Generation a) (UpdatedAt a) s"
  let ?s2 = "ensureProviderLocked ?k (leavePreviousProvider ?i ?k ?s)"
  let ?latest = "\<lambda>p. case map_of (pAuths p) ?i of None \<Rightarrow> p
      | Some meta \<Rightarrow> upsertAuthForModelsLocked env meta targets scoped now p"
  have stale: "all_ok now (updateProvider ?k ?latest s)"
  proof (rule all_ok_updateProvider [OF assms(1,3)])
    fix p assume p: "pProviderKey p = ?k" "Inv t p"
    show "pProviderKey (?latest p) = ?k \<and> Inv now (?latest p)"
      using p inv_known [OF p(2), of ?i] inv_mono [OF p(2) assms(3)]
      by (auto split: option.splits intro!: inv_upsert [OF p(2) assms(2-4)])
  qed
  have s2: "all_ok t (?s2\<lparr>authProviders := ap\<rparr>)" for ap
    using assms(1) by (simp add: all_ok_ensureProvider all_ok_leave)
  have full: "all_ok now (updateProvider ?k (upsertAuthForModelsLocked env
      (buildScheduledAuthMetaWithModelSet a ms ep) [] True now) (?s2\<lparr>authProviders := ap\<rparr>))"
    if "\<not> unschedulable a" "\<not> ?stale" for ms ep ap
    by (rule all_ok_upsert [OF s2 assms(2-4)]) (use adm that a tr metaFor_build in auto)
  have part: "all_ok now (updateProvider ?k (upsertAuthForModelsLocked env
      (buildScheduledAuthMetaWithModelSet a ms ep) targets sc now) (?s2\<lparr>authProviders := ap\<rparr>))"
    if "\<not> unschedulable a" "\<not> ?stale"
      and "\<exists>p old. map_of (providers ?s2) ?k = Some p \<and> map_of (pAuths p) ?i = Some old \<and> supportedModelSet old = ms"
    for ms ep ap sc
    by (rule all_ok_upsert [OF s2 assms(2-4)]) (use adm that a tr metaFor_build in auto)
  show ?thesis
  proof (cases "unschedulable a \<or> ?stale")
    case True
    then show ?thesis
      using stale all_ok_mono [OF assms(1,3)] a(1) tr a(2)
      by (auto simp: upsertAuthResultLocked_def Let_def all_ok_removeFromProviders)
  next
    case False
    then show ?thesis
      using a tr
      by (auto simp: upsertAuthResultLocked_def Let_def split: option.splits if_splits intro!: full part)
  qed
qed

definition metas_ok :: "(string, scheduledAuthMeta) gomap \<Rightarrow> bool" where
  "metas_ok em \<longleftrightarrow> (\<forall>k meta. map_of em k = Some meta \<longrightarrow> ID (mAuth meta) = k \<and> admits Q (mAuth meta))"

lemma existing_ok:
  assumes "all_ok t s"
  shows "metas_ok (fold (\<lambda>(_, p) m. fold (\<lambda>(k, meta) m. AList.update k meta m) (pAuths p) m) (providers s) [])"
proof -
  have inner: "metas_ok (fold (\<lambda>(k, meta) m. AList.update k meta m) xs m)"
    if "metas_ok m" "\<forall>(k, meta) \<in> set xs. ID (mAuth meta) = k \<and> admits Q (mAuth meta)" for xs m
    using that
  proof (induction xs arbitrary: m)
    case (Cons x xs)
    obtain k meta where x: "x = (k, meta)" by fastforce
    have "metas_ok (AList.update k meta m)" using Cons.prems x by (simp add: metas_ok_def gomap_simps)
    from Cons.IH [OF this] Cons.prems(2) x show ?case by simp
  qed simp
  have outer: "metas_ok (fold (\<lambda>(_, p) m. fold (\<lambda>(k, meta) m. AList.update k meta m) (pAuths p) m) ps m)"
    if "metas_ok m" "\<forall>(_, p) \<in> set ps. \<forall>(k, meta) \<in> set (pAuths p). ID (mAuth meta) = k \<and> admits Q (mAuth meta)" for ps m
    using that
  proof (induction ps arbitrary: m)
    case (Cons q ps)
    obtain pk p where q: "q = (pk, p)" by fastforce
    have "metas_ok (fold (\<lambda>(k, meta) m. AList.update k meta m) (pAuths p) m)"
      by (rule inner [OF Cons.prems(1)]) (use Cons.prems(2) q in simp)
    from Cons.IH [OF this] Cons.prems(2) q show ?case by simp
  qed simp
  have "\<forall>(_, p) \<in> set (providers s). \<forall>(k, meta) \<in> set (pAuths p). ID (mAuth meta) = k \<and> admits Q (mAuth meta)"
  proof clarify
    fix pk p k meta assume m: "(pk, p) \<in> set (providers s)" "(k, meta) \<in> set (pAuths p)"
    then have i: "Inv t p" using assms by (auto simp: all_ok_def wf_map_in_set)
    with m have "map_of (pAuths p) k = Some meta" using inv_wf by (simp add: wf_map_in_set)
    with inv_known [OF i] show "ID (mAuth meta) = k \<and> admits Q (mAuth meta)"
      by (auto simp: metaFor_def admits_def)
  qed
  then show ?thesis by (intro outer) (simp_all add: metas_ok_def)
qed

lemma all_ok_rebuild_step:
  assumes "all_ok t s" "0 \<le> t" "t \<le> now" "accessExp env = X" "\<forall>a \<in> set_option auth. accepted Q s a" "metas_ok em"
  shows "all_ok now (upsertAuthRebuildLocked env em now auth s)"
proof (cases "auth = None \<or> (\<exists>a. auth = Some a \<and> TrimSpace (ID a) = [])")
  case True
  with all_ok_mono [OF assms(1,3)] show ?thesis by (auto simp: upsertAuthRebuildLocked_def Let_def)
next
  case False
  then obtain a where a: "auth = Some a" "TrimSpace (ID a) \<noteq> []" by auto
  with assms(5) have acc: "accepted Q s a" and tr: "TrimSpace (ID a) = ID a" by (auto simp: accepted_def)
  have choice: "admits Q b \<and> ID b = ID a" if ch: "rebuildChoice (ID a) a em s = Some b" for b
  proof -
    have "admits Q a" using accepted_admits [OF acc] epoch_stale_rebuild [of s a em] ch by fastforce
    with ch assms(6) show ?thesis
      by (auto simp: rebuildChoice_def metas_ok_def split: option.splits if_splits)
  qed
  show ?thesis
  proof (cases "rebuildChoice (ID a) a em s")
    case None
    with a tr all_ok_mono [OF assms(1,3)] show ?thesis by (simp add: upsertAuthRebuildLocked_def Let_def)
  next
    case (Some b)
    have "all_ok now (placeAuth env (ID a) b now (setGeneration i e g u s))" if "\<not> unschedulable b" for i e g u
      by (rule all_ok_place [OF _ assms(2-4)]) (use that assms(1) choice [OF Some] a tr in auto)
    with a tr Some all_ok_mono [OF assms(1,3)] show ?thesis
      by (simp add: upsertAuthRebuildLocked_def Let_def all_ok_removeFromProviders split_beta)
  qed
qed

lemma all_ok_rebuild:
  assumes "all_ok t s" "0 \<le> t" "t \<le> now" "accessExp env = X" "K s"
    and acc: "\<And>s' a. K s' \<Longrightarrow> Some a \<in> set auths \<Longrightarrow> accepted Q s' a"
    and clear: "K (s\<lparr>providers := [], authProviders := [], mixedCursors := [], mixedWeightedStates := []\<rparr>)"
    and keep: "\<And>s' em a. K s' \<Longrightarrow> metas_ok em \<Longrightarrow> Some a \<in> set auths \<Longrightarrow> K (upsertAuthRebuildLocked env em now (Some a) s')"
  shows "all_ok now (rebuild env auths now s)"
proof -
  have "all_ok now (fold (upsertAuthRebuildLocked env em now) xs s0)"
    if "all_ok now s0" "K s0" "metas_ok em" "set xs \<subseteq> set auths" for em xs s0
    using that
  proof (induction xs arbitrary: s0)
    case (Cons x xs)
    have "all_ok now (upsertAuthRebuildLocked env em now x s0)"
      by (rule all_ok_rebuild_step [where t = now]) (use Cons.prems assms(2-4) acc in \<open>auto split: option.splits\<close>)
    moreover have "K (upsertAuthRebuildLocked env em now x s0)"
      using Cons.prems keep by (cases x) (auto simp: upsertAuthRebuildLocked_def)
    ultimately show ?case using Cons by simp
  qed simp
  moreover have "all_ok now (s\<lparr>providers := [], authProviders := [], mixedCursors := [], mixedWeightedStates := []\<rparr>)"
    by (simp add: all_ok_def)
  ultimately show ?thesis using existing_ok [OF assms(1)] clear by (simp add: rebuild_def Let_def)
qed

lemma all_ok_putShard:
  assumes "all_ok t s" "t \<le> u" "pProviderKey p = k" "Inv u (p\<lparr>modelShards := AList.update key m (modelShards p)\<rparr>)"
  shows "all_ok u (putShard k p key m s)"
  using all_ok_mono [OF assms(1,2)] assms(3,4) by (auto simp: putShard_def all_ok_def gomap_simps)

lemma all_ok_pickFrom:
  assumes "all_ok t s" "ticks t clock" "accessExp env = X"
  shows "all_ok (snd (snd clock)) (fst (pickFromProvider env k pe model pw strat P clock s))"
proof -
  obtain t1 t2 t3 where c: "clock = (t1, t2, t3)" using prod_cases3 by blast
  have le: "0 \<le> t" "t \<le> t1" "t1 \<le> t2" "t2 \<le> t3" "0 \<le> t1" "t \<le> t3" using assms(2) by (auto simp: ticks_def c)
  show ?thesis
  proof (cases "map_of (providers s) k")
    case None
    then show ?thesis using all_ok_mono [OF assms(1) le(6)] by (simp add: pickFromProvider_def c)
  next
    case (Some p)
    then have p: "pProviderKey p = k" "Inv t p" using assms(1) by (auto simp: all_ok_def)
    obtain p2 m where e: "ensureModelLocked env (canonicalModelKey model) t1 p = (p2, m)" by fastforce
    let ?key = "canonicalModelKey (canonicalModelKey model)"
    have p2: "Inv t1 p2" "pProviderKey p2 = k" "map_of (modelShards p2) ?key = Some m"
      using inv_ensure [OF p(2) le(1,2) assms(3), of "canonicalModelKey model"] p(1) e
        key_ensure [of env "canonicalModelKey model" t1 p]
      by (auto simp: ensureModelLocked_def Let_def gomap_simps)
    obtain r m2 where pk: "pickReadyLocked (accessExp env) pw strat (P \<circ> smeta) t2 m = (r, m2)" by fastforce
    have "Inv t2 (p2\<lparr>modelShards := AList.update ?key m2 (modelShards p2)\<rparr>)"
      using inv_pick [OF p2(1) le(5,3) p2(3), of pw strat "P \<circ> smeta"] pk assms(3) by simp
    then have "all_ok t2 (putShard k p2 ?key m2 s)"
      using all_ok_putShard [OF assms(1) _ p2(2)] le by simp
    from all_ok_mono [OF this le(4)] show ?thesis
      using Some e pk by (simp add: pickFromProvider_def c Let_def split: option.splits)
  qed
qed

lemma all_ok_ensureModels:
  assumes "all_ok t s" "0 \<le> t" "t \<le> now" "accessExp env = X"
  shows "all_ok now (fold (ensureProviderModel env model now) ks s)"
proof -
  have "all_ok now (ensureProviderModel env model now k s0)" if "all_ok now s0" for k s0
    unfolding ensureProviderModel_def
    by (rule all_ok_updateProvider [OF that order_refl]) (use assms in \<open>auto intro!: inv_ensure [where t = now]\<close>)
  then have "all_ok now s0 \<Longrightarrow> all_ok now (fold (ensureProviderModel env model now) ks s0)" for s0
    by (induction ks arbitrary: s0) simp_all
  with all_ok_mono [OF assms(1,3)] show ?thesis by blast
qed

lemma all_ok_tryShard: "all_ok t s \<Longrightarrow> all_ok t (fst (tryShard model q strat P k s))"
proof -
  assume ok: "all_ok t s"
  show ?thesis
  proof (cases "\<exists>p m. map_of (providers s) k = Some p \<and> map_of (modelShards p) (canonicalModelKey model) = Some m")
    case True
    then obtain p m where p: "map_of (providers s) k = Some p" "map_of (modelShards p) (canonicalModelKey model) = Some m"
      by blast
    with ok have "pProviderKey p = k" "Inv t p" by (auto simp: all_ok_def)
    with ok p show ?thesis
      by (simp add: tryShard_def Let_def split_beta all_ok_putShard inv_pickAt)
  next
    case False
    with ok show ?thesis by (auto simp: tryShard_def split: option.splits)
  qed
qed

lemma all_ok_fillFirst: "all_ok t s \<Longrightarrow> all_ok t (fst (fillFirstLoop model q P ks s))"
proof (induction ks arbitrary: s)
  case (Cons k ks)
  from all_ok_tryShard [OF Cons.prems, of model q schedulerStrategyFillFirst P k] Cons.IH show ?case
    by (auto split: prod.splits option.splits)
qed simp

lemma all_ok_mixedRRLoop: "all_ok t s \<Longrightarrow> all_ok t (fst (mixedRRLoop ck model q P ps ws i slot os s))"
proof (induction os arbitrary: s slot)
  case (Cons j js)
  let ?i = "(i + j) mod length ps"
  obtain s2 r where tr: "tryShard model q schedulerStrategyRoundRobin P (ps ! ?i) s = (s2, r)" by fastforce
  then have s2: "all_ok t s2" using all_ok_tryShard [OF Cons.prems] by (metis fst_conv)
  moreover have "all_ok t (s2\<lparr>mixedCursors := mc\<rparr>)" for mc using s2 by (simp add: all_ok_def)
  ultimately show ?case using Cons tr by (simp add: Let_def split: option.splits)
qed simp

lemma all_ok_mixedRoundRobin: "all_ok t s \<Longrightarrow> all_ok t (fst (mixedRoundRobin ck model q P ps shards s))"
  by (auto simp: mixedRoundRobin_def Let_def all_ok_mixedRRLoop split: option.splits)

lemma all_ok_mixedWeighted: "all_ok t s \<Longrightarrow> all_ok t (fst (mixedWeightedPick ck es P s))"
  by (simp add: mixedWeightedPick_def Let_def split_beta all_ok_def)

lemma all_ok_mixedOutcome:
  assumes "all_ok t s" "0 \<le> t" "t \<le> now" "accessExp env = X"
  shows "all_ok now (fst (mixedOutcome env st P ks key now s))"
  using all_ok_ensureModels [OF assms, of key ks]
  by (simp add: mixedOutcome_def Let_def all_ok_fillFirst all_ok_mixedWeighted all_ok_mixedRoundRobin
      split: option.splits)

lemma all_ok_mixedError:
  "all_ok t s \<Longrightarrow> 0 \<le> t \<Longrightarrow> t \<le> now \<Longrightarrow> accessExp env = X \<Longrightarrow>
   all_ok now (fst (mixedUnavailableErrorLocked env ks model P now s))"
  by (simp add: mixedUnavailableErrorLocked_def Let_def all_ok_ensureModels)

lemma all_ok_pickSingle:
  "all_ok t s \<Longrightarrow> ticks t clock \<Longrightarrow> accessExp env = X \<Longrightarrow>
   all_ok (snd (snd clock)) (fst (pickSingleWithStrategy env req prov model strat clock s))"
  by (simp add: pickSingleWithStrategy_def Let_def all_ok_pickFrom)

lemma ticks_last: "ticks t clock \<Longrightarrow> t \<le> snd (snd clock)"
  by (auto simp: ticks_def)

lemma all_ok_pickMixed:
  assumes "all_ok t s" "ticks t clock" "accessExp env = X"
  shows "all_ok (snd (snd clock)) (fst (pickMixedWithStrategy env req provs model strat clock s))"
proof -
  obtain t1 t2 t3 where c: "clock = (t1, t2, t3)" using prod_cases3 by blast
  have le: "0 \<le> t" "t \<le> t1" "t1 \<le> t3" "0 \<le> t1" using assms(2) by (auto simp: ticks_def c)
  let ?n = "normalizeProviderKeys provs"
  have same: "all_ok t3 s" using all_ok_mono [OF assms(1)] le by simp
  have single: "all_ok t3 (fst (pickSingleWithStrategy env req prov model strat (t1, t2, t3) s))" for prov
    using all_ok_pickSingle [OF assms] c by simp
  have pinned: "all_ok t3 (fst (pickFromProvider env k pe model pw st P (t1, t2, t3) s))" for k pe pw st P
    using all_ok_pickFrom [OF assms] c by simp
  have out: "all_ok t1 (fst (mixedOutcome env st P ?n key t1 s))" for st P key
    by (rule all_ok_mixedOutcome [OF assms(1) le(1,2) assms(3)])
  have err: "all_ok t3 (fst (mixedUnavailableErrorLocked env ?n model P t3 s2))" if "all_ok t1 s2" for s2 P
    by (rule all_ok_mixedError [OF that le(4,3) assms(3)])
  have many: "all_ok t3 (fst (case mixedOutcome env st P ?n key t1 s of
       (s, Some r) \<Rightarrow> (s, Inr r)
     | (s, None) \<Rightarrow> (case mixedUnavailableErrorLocked env ?n model P t3 s of (s, err) \<Rightarrow> (s, Inl err))))"
    for st P key
    using out [of st P key] err [OF out [of st P key], of P] all_ok_mono [OF out [of st P key] le(3)]
    by (cases "mixedOutcome env st P ?n key t1 s") (simp add: split_beta split: option.splits)
  have fst2: "fst (case r of (s, Inl e) \<Rightarrow> (s, Inl e) | (s, Inr a) \<Rightarrow> (s, Inr (a, k))) = fst r"
    for r :: "authScheduler \<times> (auth_error + Auth)" and k :: string
    by (simp add: split_beta split: sum.splits)
  show ?thesis
    unfolding pickMixedWithStrategy_def Let_def c
    using same single pinned many by (simp add: fst2)
qed

text \<open>
  \<open>K\<close> is what the caller knows of the generation table; it only matters for a rebuild, which
  processes many credentials.
\<close>

lemma all_ok_exec:
  assumes "all_ok t s" "ticks t clock" "accessExp env = X" "K s"
    and acc: "\<And>s' a. K s' \<Longrightarrow> a \<in> opAuths op \<Longrightarrow> accepted Q s' a"
    and clear: "K (s\<lparr>providers := [], authProviders := [], mixedCursors := [], mixedWeightedStates := []\<rparr>)"
    and keep: "\<And>s' em a. K s' \<Longrightarrow> metas_ok em \<Longrightarrow> a \<in> opAuths op \<Longrightarrow>
       K (upsertAuthRebuildLocked env em (fst clock) (Some a) s')"
  shows "all_ok (snd (snd clock)) (schedExec env clock op s)"
proof -
  have le: "0 \<le> t" "t \<le> fst clock" "fst clock \<le> snd (snd clock)" using assms(2) by (auto simp: ticks_def)
  note last = all_ok_mono [OF _ le(3)] all_ok_mono [OF assms(1) ticks_last [OF assms(2)]]
  have same: "all_ok (snd (snd clock)) s'" if "providers s' = providers s" for s'
    using that last(2) by (simp add: all_ok_def)
  show ?thesis
  proof (cases op)
    case (OpRemove i)
    then show ?thesis using last(2)
      by (simp add: removeAuth_def removeAuthLocked_def Let_def all_ok_removeFromProviders)
  next
    case (OpTombstone i ep)
    then show ?thesis using last(2)
      by (simp add: RecordRemovalTombstone_def recordRemovalTombstoneLocked_def Let_def all_ok_removeFromProviders)
  next
    case (OpUpsert a)
    with last(1) [OF all_ok_lifecycle [OF assms(1) le(1,2) assms(3)]] acc [OF assms(4)] show ?thesis by simp
  next
    case (OpResult a ms sc)
    with last(1) [OF all_ok_result [OF assms(1) le(1,2) assms(3)]] acc [OF assms(4)] show ?thesis by simp
  next
    case (OpRebuild as)
    have "all_ok (fst clock) (rebuild env as (fst clock) s)"
      by (rule all_ok_rebuild [OF assms(1) le(1,2) assms(3), where K = K])
        (use assms(4) acc clear keep OpRebuild in auto)
    with last(1) OpRebuild show ?thesis by simp
  next
    case (OpSetSelector sel)
    show ?thesis by (rule same) (simp add: OpSetSelector setSelector_def)
  next
    case (OpReset i)
    show ?thesis by (rule same) (simp add: OpReset ResetAuthGeneration_def Let_def)
  qed (simp_all add: all_ok_pickSingle [OF assms(1-3)] all_ok_pickMixed [OF assms(1-3)])
qed

end

section \<open>What a provider guarantees\<close>

text \<open>
  A shard of a provider: indexed and judged, holding an entry for exactly the credentials that support
  its model, each with a meta of this provider.  The second form leaves one credential open; it
  is what holds between the update of the provider's table and the update of the shard.
\<close>

definition shard_near ::
  "(Auth \<Rightarrow> gotime option) \<Rightarrow> (Auth \<Rightarrow> bool) \<Rightarrow> gotime \<Rightarrow> providerScheduler \<Rightarrow> (string \<Rightarrow> bool) \<Rightarrow> string \<Rightarrow> modelScheduler \<Rightarrow> bool" where
  "shard_near X Q t p sure key m \<longleftrightarrow>
     modelKey m = key \<and> indexed m \<and> judged_by X t m
     \<and> (\<forall>k. sure k \<longrightarrow> (map_of (entries m) k \<noteq> None \<longleftrightarrow>
            (\<exists>meta. map_of (pAuths p) k = Some meta \<and> supportsModel meta key)))
     \<and> (\<forall>k e. map_of (entries m) k = Some e \<longrightarrow> metaFor Q p (smeta e))"

abbreviation shard_ok ::
  "(Auth \<Rightarrow> gotime option) \<Rightarrow> (Auth \<Rightarrow> bool) \<Rightarrow> gotime \<Rightarrow> providerScheduler \<Rightarrow> string \<Rightarrow> modelScheduler \<Rightarrow> bool" where
  "shard_ok X Q t p \<equiv> shard_near X Q t p (\<lambda>_. True)"

definition provider_ok ::
  "(Auth \<Rightarrow> gotime option) \<Rightarrow> (Auth \<Rightarrow> bool) \<Rightarrow> gotime \<Rightarrow> providerScheduler \<Rightarrow> bool" where
  "provider_ok X Q t p \<longleftrightarrow>
     wf_map (pAuths p)
     \<and> (\<forall>k meta. map_of (pAuths p) k = Some meta \<longrightarrow> ID (mAuth meta) = k \<and> metaFor Q p meta)
     \<and> (\<forall>key m. map_of (modelShards p) key = Some m \<longrightarrow> shard_ok X Q t p key m)"

lemma metaFor_cong: "pProviderKey p' = pProviderKey p \<Longrightarrow> metaFor Q p' meta = metaFor Q p meta"
  by (simp add: metaFor_def)

lemma supportsModel_cong:
  "supportedModelSet a = supportedModelSet b \<Longrightarrow> supportsModel a key = supportsModel b key"
  by (simp add: supportsModel_def modelSetOf_def)

lemma shard_near_mono:
  "shard_near X Q t p sure key m \<Longrightarrow> t \<le> u \<Longrightarrow> (\<And>k. sure' k \<Longrightarrow> sure k) \<Longrightarrow> shard_near X Q u p sure' key m"
  using judged_by_mono [of X t m u] by (simp add: shard_near_def)

text \<open>Changing the table at one credential leaves the shards right everywhere else.\<close>

lemma shard_near_table:
  assumes "shard_ok X Q t p key m" and "pProviderKey p' = pProviderKey p"
    and "\<And>k. k \<noteq> i \<Longrightarrow> map_of (pAuths p') k = map_of (pAuths p) k"
  shows "shard_near X Q t p' (\<lambda>k. k \<noteq> i) key m"
  using assms(1,3) by (simp add: shard_near_def metaFor_cong [OF assms(2)])

lemma shard_near_complete:
  assumes "shard_near X Q t p (\<lambda>k. k \<noteq> i) key m"
    and "map_of (entries m) i \<noteq> None \<longleftrightarrow> (\<exists>meta. map_of (pAuths p) i = Some meta \<and> supportsModel meta key)"
  shows "shard_ok X Q t p key m"
  using assms unfolding shard_near_def by metis

lemma shard_ok_remove:
  assumes "shard_near X Q t p (\<lambda>k. k \<noteq> i) key m" and "map_of (pAuths p) i = None" and "i \<noteq> []"
  shows "shard_ok X Q t p key (removeEntryLocked i m)"
  using assms by (auto simp: shard_near_def remove_entries indexed_remove judged_by_remove)

lemma shard_near_upsert:
  assumes "shard_near X Q t p sure key m" and "0 \<le> t" and "t \<le> now" and "metaFor Q p meta"
    and "\<And>k. sure' k \<Longrightarrow> k \<noteq> ID (mAuth meta) \<Longrightarrow> sure k"
    and "sure' (ID (mAuth meta)) \<Longrightarrow> map_of (pAuths p) (ID (mAuth meta)) = Some meta \<and> supportsModel meta key"
  shows "shard_near X Q now p sure' key (upsertEntryLocked X meta now m)"
  using assms judged_by_upsert [of X t m now meta] indexed_upsert [of m X meta now]
  by (auto simp: shard_near_def gomap_simps)

lemma shard_ok_sync:
  assumes "shard_near X Q t p (\<lambda>k. k \<noteq> ID (mAuth meta)) key m" and "0 \<le> t" and "t \<le> now"
    and "accessExp env = X" and "metaFor Q p meta" and "map_of (pAuths p) (ID (mAuth meta)) = Some meta"
  shows "shard_ok X Q now p key (syncShard env meta now key m)"
proof (cases "supportsModel meta key")
  case True
  then show ?thesis
    using shard_near_upsert [OF assms(1-3,5), of "\<lambda>_. True"] assms(4,6) by (simp add: syncShard_def)
next
  case False
  moreover have "ID (mAuth meta) \<noteq> []" using assms(5) by (simp add: metaFor_def)
  ultimately show ?thesis
    using assms shard_near_mono [OF assms(1,3)]
    by (auto simp: syncShard_def shard_near_def remove_entries indexed_remove judged_by_remove)
qed

lemma targetLoop_ok:
  assumes "\<And>key m. map_of shards key = Some m \<Longrightarrow> shard_ok X Q now p key m"
    and "0 \<le> now" and "accessExp env = X" and "metaFor Q p meta" and "map_of (pAuths p) (ID (mAuth meta)) = Some meta"
    and "map_of (targetLoop env meta now seen ts shards) key = Some m"
  shows "shard_ok X Q now p key m"
  using assms
proof (induction ts arbitrary: seen shards)
  case (Cons t ts)
  show ?case
  proof (cases "canonicalModelKey t \<in> set seen \<or> map_of shards (canonicalModelKey t) = None")
    case True
    with Cons show ?thesis by (auto simp: Let_def split: if_splits)
  next
    case False
    then obtain m0 where m0: "map_of shards (canonicalModelKey t) = Some m0" by auto
    let ?m = "syncShard env meta now (canonicalModelKey t) m0"
    have "shard_ok X Q now p (canonicalModelKey t) ?m"
      by (rule shard_ok_sync [OF _ Cons.prems(2) order_refl Cons.prems(3-5)])
        (use Cons.prems(1) [OF m0] in \<open>auto intro: shard_near_mono\<close>)
    then have "\<And>key m. map_of (AList.update (canonicalModelKey t) ?m shards) key = Some m \<Longrightarrow> shard_ok X Q now p key m"
      using Cons.prems(1) by (auto simp: gomap_simps split: if_splits)
    from Cons.IH [OF this Cons.prems(2-5)] Cons.prems(6) False m0 show ?thesis by (simp add: Let_def)
  qed
qed simp

lemma provider_ok_upsert:
  assumes ok: "provider_ok X Q t p" and t: "0 \<le> t" "t \<le> now" and env: "accessExp env = X"
    and meta: "metaFor Q p meta"
    and scope: "targets = [] \<or> scoped \<or> (\<exists>old. map_of (pAuths p) (ID (mAuth meta)) = Some old
       \<and> supportedModelSet old = supportedModelSet meta)"
  shows "provider_ok X Q now (upsertAuthForModelsLocked env meta targets scoped now p)"
proof -
  let ?i = "ID (mAuth meta)"
  let ?p = "p\<lparr>pAuths := AList.update ?i meta (pAuths p)\<rparr>"
  have key: "pProviderKey ?p = pProviderKey p" by simp
  have at_i: "map_of (pAuths ?p) ?i = Some meta" by (simp add: gomap_simps)
  have meta': "metaFor Q ?p meta" using meta by (simp add: metaFor_cong [OF key])
  have near: "shard_near X Q t ?p (\<lambda>k. k \<noteq> ?i) k m" if "map_of (modelShards p) k = Some m" for k m
    by (rule shard_near_table [OF _ key]) (use ok that in \<open>auto simp: provider_ok_def gomap_simps\<close>)
  have sync: "shard_ok X Q now ?p k (syncShard env meta now k m)" if "map_of (modelShards p) k = Some m" for k m
    by (rule shard_ok_sync [OF near [OF that] t env meta' at_i])
  have table: "wf_map (pAuths ?p)" "map_of (pAuths ?p) k = Some x \<Longrightarrow> ID (mAuth x) = k \<and> metaFor Q ?p x" for k x
    using ok meta by (auto simp: provider_ok_def gomap_simps metaFor_cong [OF key] split: if_splits)
  have cong: "shard_ok X Q now (?p\<lparr>modelShards := ms\<rparr>) k m \<longleftrightarrow> shard_ok X Q now ?p k m"
    and mcong: "metaFor Q (?p\<lparr>modelShards := ms\<rparr>) x \<longleftrightarrow> metaFor Q ?p x" for ms k m x
    by (simp_all add: shard_near_def metaFor_def)
  have fin: "provider_ok X Q now (?p\<lparr>modelShards := ms\<rparr>)"
    if that': "\<And>k m. map_of ms k = Some m \<Longrightarrow> shard_ok X Q now ?p k m" for ms
  proof -
    have "wf_map (pAuths (?p\<lparr>modelShards := ms\<rparr>))" using table(1) by simp
    moreover have "ID (mAuth x) = k \<and> metaFor Q ?p x" if "map_of (pAuths (?p\<lparr>modelShards := ms\<rparr>)) k = Some x" for k x
      by (rule table(2)) (use that in simp)
    moreover have "shard_ok X Q now ?p k m" if "map_of (modelShards (?p\<lparr>modelShards := ms\<rparr>)) k = Some m" for k m
      by (rule that') (use that in simp)
    ultimately show ?thesis unfolding provider_ok_def cong mcong by blast
  qed
  show ?thesis
  proof (cases "scoped \<or> targets = []")
    case True
    then have eq: "upsertAuthForModelsLocked env meta targets scoped now p =
        ?p\<lparr>modelShards := map_vals (syncShard env meta now) (modelShards p)\<rparr>"
      by (simp add: upsertAuthForModelsLocked_def Let_def)
    show ?thesis unfolding eq by (rule fin) (use sync in \<open>auto simp: gomap_simps\<close>)
  next
    case False
    with scope obtain old where old: "map_of (pAuths p) ?i = Some old" "supportedModelSet old = supportedModelSet meta"
      by blast
    have same: "shard_ok X Q now ?p k m" if m: "map_of (modelShards p) k = Some m" for k m
    proof -
      have "map_of (entries m) ?i \<noteq> None \<longleftrightarrow> supportsModel meta k"
        using ok m old supportsModel_cong [OF old(2), of k] by (simp add: provider_ok_def shard_near_def)
      then have "shard_ok X Q t ?p k m" using at_i by (intro shard_near_complete [OF near [OF m]]) simp
      then show ?thesis by (rule shard_near_mono [OF _ t(2)]) simp
    qed
    let ?ms = "case map_of (modelShards p) [] of None \<Rightarrow> modelShards p
        | Some m \<Rightarrow> AList.update [] (syncShard env meta now [] m) (modelShards p)"
    have ms: "shard_ok X Q now ?p k m" if "map_of ?ms k = Some m" for k m
      using that same sync by (auto simp: gomap_simps split: option.splits if_splits)
    have eq: "upsertAuthForModelsLocked env meta targets scoped now p =
        ?p\<lparr>modelShards := targetLoop env meta now [] targets ?ms\<rparr>"
      using False by (simp add: upsertAuthForModelsLocked_def updateTargetShardsLocked_def Let_def split: option.split)
    show ?thesis
      unfolding eq by (rule fin, rule targetLoop_ok [OF ms _ env meta' at_i]) (use t in auto)
  qed
qed

lemma provider_ok_remove:
  assumes ok: "provider_ok X Q t p"
  shows "provider_ok X Q t (provider_removeAuthLocked i p)"
proof (cases "i = []")
  case False
  let ?p = "p\<lparr>pAuths := AList.delete i (pAuths p), modelShards := map_vals (\<lambda>_. removeEntryLocked i) (modelShards p)\<rparr>"
  have key: "pProviderKey ?p = pProviderKey p" by simp
  have "shard_ok X Q t ?p k (removeEntryLocked i m)" if "map_of (modelShards p) k = Some m" for k m
    by (rule shard_ok_remove [OF shard_near_table [OF _ key]])
      (use ok that False in \<open>auto simp: provider_ok_def gomap_simps\<close>)
  with ok False show ?thesis
    by (auto simp: provider_removeAuthLocked_def provider_ok_def gomap_simps metaFor_cong [OF key] split: if_splits)
qed (use ok in \<open>simp add: provider_removeAuthLocked_def\<close>)

lemma buildShard_ok:
  assumes ok: "provider_ok X Q t p" and t: "0 \<le> t" "t \<le> now" and env: "accessExp env = X"
  shows "shard_ok X Q now p key (buildShard env key now (map snd (pAuths p)))"
proof -
  let ?step = "\<lambda>meta shard. if \<not> supportsModel meta key then shard else upsertEntryLocked (accessExp env) meta now shard"
  have now: "0 \<le> now" using t by simp
  have wf: "wf_map (pAuths p)" using ok by (simp add: provider_ok_def)
  have known: "\<And>k x. (k, x) \<in> set (pAuths p) \<Longrightarrow> (ID (mAuth x), x) \<in> set (pAuths p) \<and> metaFor Q p x \<and> k = ID (mAuth x)"
    using ok unfolding provider_ok_def wf_map_in_set [OF wf] by metis
  have upto: "shard_near X Q now p (\<lambda>k. k \<in> S \<union> (\<lambda>meta. ID (mAuth meta)) ` set ms) key (fold ?step ms m)"
    if "shard_near X Q now p (\<lambda>k. k \<in> S) key m" "set ms \<subseteq> snd ` set (pAuths p)"
      "\<forall>k. k \<notin> S \<longrightarrow> map_of (entries m) k = None" for S ms m
    using that
  proof (induction ms arbitrary: S m)
    case (Cons x ms)
    obtain k where "(k, x) \<in> set (pAuths p)" using Cons.prems(2) by auto
    from known [OF this] have x: "map_of (pAuths p) (ID (mAuth x)) = Some x" "metaFor Q p x"
      by (simp_all add: wf_map_in_set [OF wf])
    let ?S = "insert (ID (mAuth x)) S"
    have "shard_near X Q now p (\<lambda>k. k \<in> ?S) key (?step x m)"
    proof (cases "supportsModel x key")
      case True
      then show ?thesis
        using shard_near_upsert [OF Cons.prems(1) now order_refl x(2), of "\<lambda>k. k \<in> ?S"] x(1) env by simp
    next
      case False
      then show ?thesis
        using Cons.prems(1,3) x(1) by (cases "ID (mAuth x) \<in> S") (auto simp: shard_near_def insert_absorb)
    qed
    moreover have "\<forall>k. k \<notin> ?S \<longrightarrow> map_of (entries (?step x m)) k = None"
      using Cons.prems(3) by (auto simp: gomap_simps)
    ultimately have "shard_near X Q now p (\<lambda>k. k \<in> ?S \<union> (\<lambda>meta. ID (mAuth meta)) ` set ms) key (fold ?step ms (?step x m))"
      using Cons.prems(2) by (intro Cons.IH) auto
    then show ?case by simp
  qed simp
  have start: "shard_near X Q now p (\<lambda>k. k \<notin> fst ` set (pAuths p)) key (emptyShard key)"
    using emptyShard_ok by (simp add: shard_near_def map_of_not_key) (simp add: emptyShard_def)
  have ids: "(\<lambda>meta. ID (mAuth meta)) ` set (map snd (pAuths p)) = fst ` set (pAuths p)"
    using known by force
  show ?thesis
    using upto [where S = "- (fst ` set (pAuths p))" and ms = "map snd (pAuths p)" and m = "emptyShard key"] start
    unfolding ids by (simp add: buildShard_def emptyShard_def)
qed

lemma shard_ok_promote:
  assumes "shard_ok X Q t p key m" and "0 \<le> t" and "t \<le> now"
  shows "shard_ok X Q now p key (promoteExpiredLocked X now m)"
  using assms promote_structure [of m X now] judged_by_promote [of m X t now]
  by (auto simp: shard_near_def)

lemma shard_ok_pickAt:
  assumes "shard_ok X Q t p key m"
  shows "shard_ok X Q t p key (snd (pickReadyAtPriorityLocked pw q strat P m))"
proof -
  have "judged_by X t (snd (pickReadyAtPriorityLocked pw q strat P m)) \<longleftrightarrow> judged_by X t m"
    by (simp add: judged_by_def)
  with assms show ?thesis by (simp add: shard_near_def indexed_pickAtPriority)
qed

lemma shard_ok_pick:
  assumes "shard_ok X Q t p key m" and "0 \<le> t" and "t \<le> now"
  shows "shard_ok X Q now p key (snd (pickReadyLocked X pw strat P now m))"
proof -
  let ?m = "promoteExpiredLocked X now m"
  have m: "shard_ok X Q now p key ?m" by (rule shard_ok_promote [OF assms])
  then have "shard_ok X Q now p key (snd (pickReadyAtPriorityLocked pw q strat P ?m))" for q
    by (rule shard_ok_pickAt)
  with m show ?thesis by (simp add: pickReadyLocked_def Let_def split: option.splits)
qed

lemma provider_ok_shard:
  assumes "provider_ok X Q t p" and "t \<le> now" and "shard_ok X Q now p key m"
  shows "provider_ok X Q now (p\<lparr>modelShards := AList.update key m (modelShards p)\<rparr>)"
proof -
  let ?p = "p\<lparr>modelShards := AList.update key m (modelShards p)\<rparr>"
  have cong: "shard_ok X Q now ?p k x \<longleftrightarrow> shard_ok X Q now p k x" "metaFor Q ?p y \<longleftrightarrow> metaFor Q p y" for k x y
    by (simp_all add: shard_near_def metaFor_def)
  have "shard_ok X Q now p k x" if "map_of (modelShards ?p) k = Some x" for k x
  proof (cases "k = key")
    case True
    with that assms(3) show ?thesis by (simp add: gomap_simps)
  next
    case False
    with that have "shard_ok X Q t p k x" using assms(1) by (simp add: gomap_simps provider_ok_def)
    then show ?thesis by (rule shard_near_mono [OF _ assms(2)]) simp
  qed
  with assms(1) show ?thesis unfolding provider_ok_def cong by simp
qed

lemma ensured_shard_ok:
  assumes "provider_ok X Q t p" and "0 \<le> t" "t \<le> now" and "accessExp env = X"
  shows "shard_ok X Q now p (canonicalModelKey model) (snd (ensureModelLocked env model now p))"
proof (cases "map_of (modelShards p) (canonicalModelKey model)")
  case None
  with buildShard_ok [OF assms] show ?thesis by (simp add: ensureModelLocked_def Let_def)
next
  case (Some m)
  with assms(1) have "shard_ok X Q t p (canonicalModelKey model) m" by (simp add: provider_ok_def)
  from shard_ok_promote [OF this assms(2,3)] Some assms(4) show ?thesis
    by (simp add: ensureModelLocked_def Let_def)
qed

interpretation prov: provider_invariant X Q "provider_ok X Q" for X Q
proof
  fix t u p assume "provider_ok X Q t p" "t \<le> u"
  then show "provider_ok X Q u p" using shard_near_mono unfolding provider_ok_def by blast
next
  fix t k show "provider_ok X Q t \<lparr>pProviderKey = k, pAuths = [], modelShards = []\<rparr>"
    by (simp add: provider_ok_def)
next
  fix t p now model and env :: schedEnv
  assume ok: "provider_ok X Q t p" and t: "0 \<le> t" "t \<le> now" and env: "accessExp env = X"
  from provider_ok_shard [OF ok t(2) ensured_shard_ok [OF this]]
  show "provider_ok X Q now (fst (ensureModelLocked env model now p))"
    by (simp add: ensureModelLocked_def Let_def)
next
  fix t p now key m pw strat P
  assume "provider_ok X Q t p" and t: "0 \<le> t" "t \<le> now" and m: "map_of (modelShards p) key = Some m"
  moreover from this have "shard_ok X Q t p key m" by (simp add: provider_ok_def)
  ultimately show "provider_ok X Q now (p\<lparr>modelShards :=
      AList.update key (snd (pickReadyLocked X pw strat P now m)) (modelShards p)\<rparr>)"
    by (intro provider_ok_shard [where t = t] shard_ok_pick [where t = t])
next
  fix t p key m pw q strat P
  assume ok: "provider_ok X Q t p" and "map_of (modelShards p) key = Some m"
  then have "shard_ok X Q t p key m" by (simp add: provider_ok_def)
  then have "shard_ok X Q t p key (snd (pickReadyAtPriorityLocked pw q strat P m))"
    by (rule shard_ok_pickAt)
  with ok show "provider_ok X Q t (p\<lparr>modelShards :=
      AList.update key (snd (pickReadyAtPriorityLocked pw q strat P m)) (modelShards p)\<rparr>)"
    by (intro provider_ok_shard [where t = t]) simp_all
next
  fix t p assume "provider_ok X Q t p" then show "wf_map (pAuths p)" by (simp add: provider_ok_def)
next
  fix t p k meta assume "provider_ok X Q t p" "map_of (pAuths p) k = Some meta"
  then show "ID (mAuth meta) = k \<and> metaFor Q p meta" by (simp add: provider_ok_def)
qed (rule provider_ok_remove provider_ok_upsert; assumption)+

section \<open>Reachable states\<close>

text \<open>
  The states the scheduler can reach: from a new scheduler by any sequence of operations with a
  clock that does not run backwards.  The model registry may change between operations; the token
  expiry is a function of the credential.
\<close>

inductive sched_reach ::
  "(Auth \<Rightarrow> gotime option) \<Rightarrow> (Auth \<Rightarrow> bool) \<Rightarrow> gotime \<Rightarrow> authScheduler \<Rightarrow> bool" for X Q where
  start: "0 \<le> t \<Longrightarrow> sched_reach X Q t (newAuthScheduler sel)"
| step: "sched_reach X Q t s \<Longrightarrow> ticks t clock \<Longrightarrow> accessExp env = X \<Longrightarrow> \<forall>a \<in> opAuths op. admits Q a \<Longrightarrow>
    sched_reach X Q (snd (snd clock)) (schedExec env clock op s)"

lemma ticks_nonneg: "ticks t clock \<Longrightarrow> 0 \<le> t \<and> 0 \<le> snd (snd clock)"
  by (auto simp: ticks_def)

lemma sched_reach_nonneg: "sched_reach X Q t s \<Longrightarrow> 0 \<le> t"
  by (induction rule: sched_reach.induct) (auto dest: ticks_nonneg)

lemma reach_providers: "sched_reach X Q t s \<Longrightarrow> prov.all_ok X Q t s"
proof (induction rule: sched_reach.induct)
  case (start t sel)
  then show ?case by (simp add: prov.all_ok_def newAuthScheduler_def)
next
  case (step t s clock env op)
  show ?case
    by (rule prov.all_ok_exec [OF step.IH step.hyps(2,3), where K = "\<lambda>_. True"])
      (use step.hyps(4) in \<open>auto intro: admits_accepted\<close>)
qed

subsection \<open>Routing\<close>

text \<open>Where a credential is scheduled, and the invariant that the routing table says exactly this.\<close>

definition located :: "authScheduler \<Rightarrow> string \<Rightarrow> string set" where
  "located s i = {k. \<exists>p. map_of (providers s) k = Some p \<and> map_of (pAuths p) i \<noteq> None}"

definition routed :: "authScheduler \<Rightarrow> bool" where
  "routed s \<longleftrightarrow> (\<forall>i. located s i = set_option (map_of (authProviders s) i)) \<and> (\<forall>i k. map_of (authProviders s) i = Some k \<longrightarrow> k \<noteq> [])"

lemma located_updateProvider:
  "located (updateProvider k f s) i =
     (case map_of (providers s) k of None \<Rightarrow> located s i
      | Some p \<Rightarrow> if map_of (pAuths (f p)) i \<noteq> None then insert k (located s i) else located s i - {k})"
  by (auto simp: located_def updateProvider_def gomap_simps split: option.splits if_splits)

lemma pAuths_remove: "map_of (pAuths (provider_removeAuthLocked j p)) i = (if i = j \<and> j \<noteq> [] then None else map_of (pAuths p) i)"
  by (simp add: provider_removeAuthLocked_def gomap_simps)

lemma pAuths_upsert:
  "map_of (pAuths (upsertAuthForModelsLocked env meta ts sc now p)) i =
     (if i = ID (mAuth meta) then Some meta else map_of (pAuths p) i)"
  by (simp add: upsertAuthForModelsLocked_def updateTargetShardsLocked_def Let_def gomap_simps)

lemma located_remove:
  "located (updateProvider k (provider_removeAuthLocked j) s) i =
     (if i = j \<and> j \<noteq> [] then located s i - {k} else located s i)"
  unfolding located_updateProvider
  by (auto simp: pAuths_remove located_def split: option.splits)

lemma located_upsert:
  "located (updateProvider k (upsertAuthForModelsLocked env meta ts sc now) s) i =
     (if i = ID (mAuth meta) \<and> map_of (providers s) k \<noteq> None then insert k (located s i) else located s i)"
  unfolding located_updateProvider
  by (auto simp: pAuths_upsert located_def split: option.splits)

lemma located_simps [simp]:
  "located (s\<lparr>authProviders := ap\<rparr>) i = located s i"
  "located (setGeneration j e g u s) i = located s i"
  "authProviders (setGeneration j e g u s) = authProviders s"
  "authProviders (updateProvider k f s) = authProviders s"
  "authProviders (ensureProviderLocked k s) = authProviders s"
  "authProviders (leavePreviousProvider j k s) = authProviders s"
  by (simp_all add: located_def setGeneration_def updateProvider_def ensureProviderLocked_def
      leavePreviousProvider_def Let_def split: option.splits)

lemma located_ensureProvider [simp]: "located (ensureProviderLocked k s) i = located s i"
  by (auto simp: located_def ensureProviderLocked_def gomap_simps split: option.splits)

lemma ensureProvider_present: "map_of (providers (ensureProviderLocked k s)) k \<noteq> None"
  by (simp add: ensureProviderLocked_def gomap_simps split: option.splits)

lemma routed_setGeneration [simp]: "routed (setGeneration j e g u s) = routed s"
  by (simp add: routed_def)

lemma str_get_routed: "routed s \<Longrightarrow> str_get (authProviders s) i = [] \<longleftrightarrow> map_of (authProviders s) i = None"
  by (auto simp: routed_def str_get_def split: option.splits)

lemma routed_removeFromProviders:
  assumes "routed s" and "j \<noteq> []"
  shows "routed (removeAuthFromProvidersLocked j s)" and "located (removeAuthFromProvidersLocked j s) j = {}"
proof -
  have loc: "located s j = set_option (map_of (authProviders s) j)" using assms by (simp add: routed_def)
  show "located (removeAuthFromProvidersLocked j s) j = {}"
    using loc str_get_routed [OF assms(1), of j] assms(2)
    by (auto simp: removeAuthFromProvidersLocked_def Let_def located_remove str_get_def split: option.splits)
  then show "routed (removeAuthFromProvidersLocked j s)"
    using assms str_get_routed [OF assms(1), of j]
    by (auto simp: routed_def removeAuthFromProvidersLocked_def Let_def located_remove gomap_simps split: if_splits)
qed

lemma routed_put:
  assumes "routed s" and "i \<noteq> []" and "k \<noteq> []" and "ID (mAuth meta) = i"
  shows "routed (updateProvider k (upsertAuthForModelsLocked env meta ts sc now)
    ((ensureProviderLocked k (leavePreviousProvider i k s))\<lparr>authProviders := AList.update i k (authProviders s)\<rparr>))"
    (is "routed (updateProvider k ?f ?s)")
proof -
  have left: "located (leavePreviousProvider i k s) j = (if j = i then located s i \<inter> {k} else located s j)" for j
  proof -
    have "located s i = set_option (map_of (authProviders s) i)" using assms(1) by (simp add: routed_def)
    then show ?thesis
      using str_get_routed [OF assms(1), of i] assms(2)
      by (auto simp: leavePreviousProvider_def Let_def located_remove str_get_def split: option.splits if_splits)
  qed
  have "map_of (providers ?s) k \<noteq> None" using ensureProvider_present [of k] by simp
  then have "located (updateProvider k ?f ?s) j = (if j = i then {k} else located s j)" for j
    using assms(4) left by (auto simp: located_upsert)
  with assms show ?thesis by (auto simp: routed_def gomap_simps)
qed

lemma routed_place:
  "routed s \<Longrightarrow> ID a \<noteq> [] \<Longrightarrow> \<not> unschedulable a \<Longrightarrow> routed (placeAuth env (ID a) a now s)"
  unfolding placeAuth_def Let_def
  using routed_put [of s "ID a" "executorKeyFromAuth (Some a)"
      "buildScheduledAuthMetaWithModelSet a (supportedModelSetForAuth env (ID a)) (clientEpoch env (ID a))" env "[]" True now]
  by (simp add: unschedulable_def)

text \<open>Picks touch neither the tables of credentials nor routing nor generations.\<close>

definition same_tables :: "authScheduler \<Rightarrow> authScheduler \<Rightarrow> bool" where
  "same_tables s s' \<longleftrightarrow> authProviders s' = authProviders s \<and> authGenerations s' = authGenerations s
     \<and> (\<forall>k. map_option pAuths (map_of (providers s') k) = map_option pAuths (map_of (providers s) k))"

lemma same_tables_refl [simp, intro]: "same_tables s s"
  by (simp add: same_tables_def)

lemma same_tables_trans: "same_tables s s' \<Longrightarrow> same_tables s' s'' \<Longrightarrow> same_tables s s''"
  by (simp add: same_tables_def)

lemma same_tables_put:
  "map_of (providers s) k = Some p0 \<Longrightarrow> pAuths p = pAuths p0 \<Longrightarrow> same_tables s (putShard k p key m s)"
  by (simp add: same_tables_def putShard_def gomap_simps)

lemma same_tables_updateProvider: "(\<And>p. pAuths (f p) = pAuths p) \<Longrightarrow> same_tables s (updateProvider k f s)"
  by (auto simp: same_tables_def updateProvider_def gomap_simps split: option.splits)

lemma pAuths_ensure [simp]: "pAuths (fst (ensureModelLocked env model now p)) = pAuths p"
  by (simp add: ensureModelLocked_def Let_def)

lemma same_tables_ensureModels: "same_tables s (fold (ensureProviderModel env model now) ks s)"
proof (induction ks arbitrary: s)
  case (Cons k ks)
  have "same_tables s (ensureProviderModel env model now k s)"
    unfolding ensureProviderModel_def by (rule same_tables_updateProvider) simp
  from same_tables_trans [OF this Cons] show ?case by simp
qed simp

lemma same_tables_pickFrom: "same_tables s (fst (pickFromProvider env k pe model pw strat P clock s))"
proof (cases "map_of (providers s) k")
  case (Some p)
  obtain t1 t2 t3 where c: "clock = (t1, t2, t3)" using prod_cases3 by blast
  obtain p2 m where e: "ensureModelLocked env (canonicalModelKey model) t1 p = (p2, m)" by fastforce
  obtain r m2 where pk: "pickReadyLocked (accessExp env) pw strat (P \<circ> smeta) t2 m = (r, m2)" by fastforce
  have "pAuths p2 = pAuths p" using pAuths_ensure [of env "canonicalModelKey model" t1 p] e by simp
  from same_tables_put [OF Some this] Some e pk show ?thesis
    by (simp add: pickFromProvider_def c Let_def split: option.splits)
qed (simp add: pickFromProvider_def split_beta)

lemma same_tables_tryShard: "same_tables s (fst (tryShard model q strat P k s))"
  by (simp add: tryShard_def Let_def split_beta same_tables_put split: option.splits)

lemma same_tables_fillFirst: "same_tables s (fst (fillFirstLoop model q P ks s))"
proof (induction ks arbitrary: s)
  case (Cons k ks)
  obtain s2 r where t: "tryShard model q schedulerStrategyFillFirst P k s = (s2, r)" by fastforce
  then have "same_tables s s2" using same_tables_tryShard by (metis fst_conv)
  with t same_tables_trans [OF this Cons [of s2]] show ?case by (simp split: option.splits)
qed simp

lemma same_tables_mixedRR: "same_tables s (fst (mixedRRLoop ck model q P ps ws i slot os s))"
proof (induction os arbitrary: s slot)
  case (Cons j js)
  let ?i = "(i + j) mod length ps"
  obtain s2 r where t: "tryShard model q schedulerStrategyRoundRobin P (ps ! ?i) s = (s2, r)" by fastforce
  then have s2: "same_tables s s2" using same_tables_tryShard by (metis fst_conv)
  moreover have "same_tables s (s2\<lparr>mixedCursors := mc\<rparr>)" for mc using s2 by (simp add: same_tables_def)
  ultimately show ?case
    using t Cons same_tables_trans [OF s2 Cons [of s2]] by (simp add: Let_def split: option.splits)
qed simp

lemma same_tables_mixedOutcome: "same_tables s (fst (mixedOutcome env st P ks key now s))"
proof -
  let ?s = "fold (ensureProviderModel env key now) ks s"
  have w: "same_tables ?s (fst (mixedWeightedPick ck es P ?s))" for ck es
    by (simp add: mixedWeightedPick_def Let_def split_beta same_tables_def)
  have r: "same_tables ?s (fst (mixedRoundRobin ck key b P ks sh ?s))" for ck b sh
    by (simp add: mixedRoundRobin_def Let_def same_tables_mixedRR split: option.splits)
  have "same_tables ?s (fst (mixedOutcome env st P ks key now s))"
    using w r same_tables_fillFirst by (simp add: mixedOutcome_def Let_def split: option.splits)
  from same_tables_trans [OF same_tables_ensureModels this] show ?thesis .
qed

lemma same_tables_mixedError: "same_tables s (fst (mixedUnavailableErrorLocked env ks model P now s))"
  by (simp add: mixedUnavailableErrorLocked_def Let_def same_tables_ensureModels)

lemma same_tables_pickSingle: "same_tables s (fst (pickSingleWithStrategy env req prov model strat clock s))"
  by (simp add: pickSingleWithStrategy_def Let_def same_tables_pickFrom)

lemma same_tables_pickMixed: "same_tables s (fst (pickMixedWithStrategy env req provs model strat clock s))"
proof -
  have fst2: "fst (case r of (s, Inl e) \<Rightarrow> (s, Inl e) | (s, Inr a) \<Rightarrow> (s, Inr (a, k))) = fst r"
    for r :: "authScheduler \<times> (auth_error + Auth)" and k :: string
    by (simp add: split_beta split: sum.splits)
  have many: "same_tables s (fst (case mixedOutcome env st P ks key now s of
       (s, Some r) \<Rightarrow> (s, Inr r)
     | (s, None) \<Rightarrow> (case mixedUnavailableErrorLocked env ks model P t3 s of (s, err) \<Rightarrow> (s, Inl err))))"
    for st P key now t3 ks
  proof -
    obtain s2 oc where o: "mixedOutcome env st P ks key now s = (s2, oc)" by fastforce
    then have s2: "same_tables s s2" using same_tables_mixedOutcome by (metis fst_conv)
    from o s2 same_tables_trans [OF s2 same_tables_mixedError, of env ks model P t3] show ?thesis
      by (simp add: split_beta split: option.splits)
  qed
  show ?thesis
    unfolding pickMixedWithStrategy_def Let_def
    using many same_tables_pickSingle same_tables_pickFrom by (simp add: fst2)
qed

lemma same_tables_located: "same_tables s s' \<Longrightarrow> located s' i = located s i"
proof -
  assume "same_tables s s'"
  then have eq: "map_option pAuths (map_of (providers s') k) = map_option pAuths (map_of (providers s) k)" for k
    by (simp add: same_tables_def)
  have mem: "k \<in> located x i \<longleftrightarrow> (\<exists>m. map_option pAuths (map_of (providers x) k) = Some m \<and> map_of m i \<noteq> None)" for x k
    by (auto simp: located_def)
  show ?thesis by (rule set_eqI) (simp only: mem eq)
qed

lemma same_tables_routed: "same_tables s s' \<Longrightarrow> routed s \<Longrightarrow> routed s'"
  by (simp add: routed_def same_tables_located) (simp add: same_tables_def)

lemma routed_lifecycle:
  assumes "routed s" and "\<forall>a \<in> set_option auth. TrimSpace (ID a) = ID a"
  shows "routed (upsertAuthLifecycleLocked env auth now s)"
  using assms
  by (auto simp: upsertAuthLifecycleLocked_def Let_def split: option.splits
      intro!: routed_place routed_removeFromProviders(1))

lemma routed_result:
  assumes "routed s" and "\<forall>a \<in> set_option auth. TrimSpace (ID a) = ID a"
    and known: "\<And>k p i meta. map_of (providers s) k = Some p \<Longrightarrow> map_of (pAuths p) i = Some meta \<Longrightarrow> ID (mAuth meta) = i"
  shows "routed (upsertAuthResultLocked env auth targets scoped now s)"
proof (cases "auth = None \<or> (\<exists>a. auth = Some a \<and> ID a = [])")
  case True
  with assms(1,2) show ?thesis by (auto simp: upsertAuthResultLocked_def Let_def)
next
  case False
  then obtain a where a: "auth = Some a" "ID a \<noteq> []" "TrimSpace (ID a) = ID a" using assms(2) by auto
  let ?k = "executorKeyFromAuth (Some a)"
  let ?latest = "\<lambda>p. case map_of (pAuths p) (ID a) of None \<Rightarrow> p
      | Some meta \<Rightarrow> upsertAuthForModelsLocked env meta targets scoped now p"
  have stale: "routed (updateProvider ?k ?latest s)"
  proof (cases "map_of (providers s) ?k")
    case None
    with assms(1) show ?thesis by (simp add: updateProvider_def)
  next
    case (Some p)
    have "map_of (pAuths (?latest p)) i = map_of (pAuths p) i" for i
      using known [OF Some] by (auto simp: pAuths_upsert split: option.splits)
    moreover have "?k \<in> located s i \<longleftrightarrow> map_of (pAuths p) i \<noteq> None" for i using Some by (simp add: located_def)
    ultimately have "located (updateProvider ?k ?latest s) i = located s i" for i
      using Some unfolding located_updateProvider by auto
    with assms(1) show ?thesis by (simp add: routed_def)
  qed
  have put: "routed (updateProvider ?k (upsertAuthForModelsLocked env (buildScheduledAuthMetaWithModelSet a ms ep) ts sc now)
      ((ensureProviderLocked ?k (leavePreviousProvider (ID a) ?k s'))\<lparr>authProviders := AList.update (ID a) ?k (authProviders s')\<rparr>))"
    if "\<not> unschedulable a" "routed s'" for ms ep ts sc s'
    by (rule routed_put) (use that a in \<open>auto simp: unschedulable_def\<close>)
  show ?thesis
  proof (cases "unschedulable a \<or> isStaleScheduledAuth (ID a) (RegistrationEpoch a) (Generation a) (UpdatedAt a) s")
    case True
    with stale assms(1) a show ?thesis
      by (auto simp: upsertAuthResultLocked_def Let_def intro!: routed_removeFromProviders(1))
  next
    case False
    let ?s = "setGeneration (ID a) (RegistrationEpoch a) (Generation a) (UpdatedAt a) s"
    from False assms(1) a put [of ?s] show ?thesis
      by (simp add: upsertAuthResultLocked_def Let_def)
  qed
qed

lemma routed_rebuild_step:
  assumes "routed s" and "\<forall>a \<in> set_option auth. TrimSpace (ID a) = ID a"
    and "\<forall>k meta. map_of em k = Some meta \<longrightarrow> ID (mAuth meta) = k"
  shows "routed (upsertAuthRebuildLocked env em now auth s)"
proof (cases "auth = None \<or> (\<exists>a. auth = Some a \<and> ID a = [])")
  case True
  with assms(1,2) show ?thesis by (auto simp: upsertAuthRebuildLocked_def Let_def)
next
  case False
  then obtain a where a: "auth = Some a" "ID a \<noteq> []" "TrimSpace (ID a) = ID a" using assms(2) by auto
  show ?thesis
  proof (cases "rebuildChoice (ID a) a em s")
    case None
    with a assms(1) show ?thesis by (simp add: upsertAuthRebuildLocked_def Let_def)
  next
    case (Some b)
    then have b: "ID b = ID a" using assms(3) by (auto simp: rebuildChoice_def split: option.splits if_splits)
    have "routed (placeAuth env (ID a) b now (setGeneration i e g u s))" if "\<not> unschedulable b" for i e g u
      using routed_place [of "setGeneration i e g u s" b env now] assms(1) a(2) b that by simp
    with a Some assms(1) show ?thesis
      by (auto simp: upsertAuthRebuildLocked_def Let_def split_beta intro!: routed_removeFromProviders(1))
  qed
qed

lemma routed_exec:
  assumes "routed s" and ok: "prov.all_ok X Q t s" and "\<forall>a \<in> opAuths op. TrimSpace (ID a) = ID a"
  shows "routed (schedExec env clock op s)"
proof -
  have rem: "routed (removeAuthFromProvidersLocked j s')" if "routed s'" "j \<noteq> []" for j s'
    using that by (rule routed_removeFromProviders)
  show ?thesis
  proof (cases op)
    case (OpUpsert a)
    with assms show ?thesis by (simp add: routed_lifecycle)
  next
    case (OpResult a ms sc)
    have "ID (mAuth meta) = i" if "map_of (providers s) k = Some p" "map_of (pAuths p) i = Some meta" for k p i meta
      using ok that by (auto simp: prov.all_ok_def provider_ok_def)
    with OpResult assms(1,3) show ?thesis by (simp add: routed_result)
  next
    case (OpRebuild as)
    define em where "em = fold (\<lambda>(_, p) m. fold (\<lambda>(k, meta) m. AList.update k meta m) (pAuths p) m) (providers s) []"
    have em: "\<forall>k meta. map_of em k = Some meta \<longrightarrow> ID (mAuth meta) = k"
      using prov.existing_ok [OF ok] by (simp add: em_def prov.metas_ok_def)
    have "routed (fold (upsertAuthRebuildLocked env em now) xs s')" if "routed s'" "set xs \<subseteq> set as" for xs s' now
      using that
    proof (induction xs arbitrary: s')
      case (Cons x xs)
      have "routed (upsertAuthRebuildLocked env em now x s')"
        by (rule routed_rebuild_step [OF _ _ em]) (use Cons.prems assms(3) OpRebuild in auto)
      with Cons show ?case by simp
    qed simp
    moreover have "routed (s\<lparr>providers := [], authProviders := [], mixedCursors := [], mixedWeightedStates := []\<rparr>)"
      by (simp add: routed_def located_def)
    ultimately show ?thesis using OpRebuild by (simp add: rebuild_def Let_def em_def)
  next
    case (OpRemove j)
    with assms(1) rem show ?thesis by (simp add: removeAuth_def removeAuthLocked_def Let_def)
  next
    case (OpTombstone j ep)
    with assms(1) rem show ?thesis by (simp add: RecordRemovalTombstone_def recordRemovalTombstoneLocked_def)
  next
    case (OpSetSelector sel)
    with assms(1) show ?thesis by (simp add: setSelector_def routed_def located_def)
  next
    case (OpReset j)
    with assms(1) show ?thesis by (simp add: ResetAuthGeneration_def Let_def routed_def located_def)
  qed (simp_all add: same_tables_routed [OF same_tables_pickSingle assms(1)]
      same_tables_routed [OF same_tables_pickMixed assms(1)])
qed

lemma reach_routed: "sched_reach X Q t s \<Longrightarrow> routed s"
proof (induction rule: sched_reach.induct)
  case (start t sel)
  then show ?case by (simp add: routed_def located_def newAuthScheduler_def)
next
  case (step t s clock env op)
  show ?case
    by (rule routed_exec [OF step.IH reach_providers [OF step.hyps(1)]]) (use step.hyps(4) in \<open>simp add: admits_def\<close>)
qed

end
