(* ===== verification/SchedulerProperties.thy ===== *)
theory SchedulerProperties
  imports AuthSchedulerProofs
begin

text \<open>
  What callers of the scheduler may rely on in every reachable state: the shape of the tables, the exact
  outcome of a pick for one provider, and the guarantee that a removed credential does not come back
  through a late update.
\<close>

section \<open>Serving metas\<close>

text \<open>The metas a provider would serve a model from: those of the shard when it exists, otherwise the ones
  the shard will be built from.\<close>

definition servingMetas :: "providerScheduler \<Rightarrow> string \<Rightarrow> scheduledAuthMeta set" where
  "servingMetas p key =
     (case map_of (modelShards p) key of
        Some m \<Rightarrow> smeta ` snd ` set (entries m)
      | None \<Rightarrow> {meta \<in> snd ` set (pAuths p). supportsModel meta key})"

definition freeServing ::
  "(Auth \<Rightarrow> gotime option) \<Rightarrow> gotime \<Rightarrow> (scheduledAuthMeta \<Rightarrow> bool) \<Rightarrow> providerScheduler \<Rightarrow> string \<Rightarrow> scheduledAuthMeta set" where
  "freeServing X now P p key =
     {meta \<in> servingMetas p key. P meta \<and> \<not> blocked (isAuthBlockedForModel X (Some (mAuth meta)) key now)}"

lemma entry_metas: "wf_map es \<Longrightarrow> smeta ` snd ` set es = {x. \<exists>k e. map_of es k = Some e \<and> smeta e = x}"
proof -
  assume wf: "wf_map es"
  have "smeta ` snd ` set es = {x. \<exists>k e. (k, e) \<in> set es \<and> smeta e = x}" by force
  then show ?thesis by (simp add: wf_map_in_set [OF wf])
qed

lemma indexed_wf: "indexed m \<Longrightarrow> wf_map (entries m)"
  by (simp add: indexed_def keyed_def)

lemma promote_metas:
  assumes "indexed m"
  shows "smeta ` snd ` set (entries (promoteExpiredLocked X now m)) = smeta ` snd ` set (entries m)"
  using promote_structure(2) [OF assms, of X now]
  unfolding entry_metas [OF indexed_wf [OF promote_structure(1) [OF assms]]] entry_metas [OF indexed_wf [OF assms]]
  by (auto simp del: map_option_eq_Some simp: map_option_case split: option.splits)

lemma buildShard_entries:
  assumes "map_of (entries (buildShard env key now metas)) k = Some e"
  shows "smeta e \<in> set metas" "supportsModel (smeta e) key" "ID (mAuth (smeta e)) = k"
    "e = withVerdict (isAuthBlockedForModel (accessExp env) (Some (mAuth (smeta e))) key now)
       \<lparr>smeta = smeta e, sstate = scheduledStateReady, nextRetryAt = 0\<rparr>"
proof -
  define good where "good k e \<longleftrightarrow> smeta e \<in> set metas \<and> supportsModel (smeta e) key \<and> ID (mAuth (smeta e)) = k
     \<and> e = withVerdict (isAuthBlockedForModel (accessExp env) (Some (mAuth (smeta e))) key now)
         \<lparr>smeta = smeta e, sstate = scheduledStateReady, nextRetryAt = 0\<rparr>" for k e
  let ?step = "\<lambda>meta shard. if \<not> supportsModel meta key then shard else upsertEntryLocked (accessExp env) meta now shard"
  have new: "good (ID (mAuth x)) (withVerdict (isAuthBlockedForModel (accessExp env) (Some (mAuth x)) key now)
       \<lparr>smeta = x, sstate = scheduledStateReady, nextRetryAt = 0\<rparr>)" if "x \<in> set metas" "supportsModel x key" for x
    using that by (simp add: good_def)
  have "\<forall>k e. map_of (entries (fold ?step xs m)) k = Some e \<longrightarrow> good k e"
    if "set xs \<subseteq> set metas" "modelKey m = key" "\<forall>k e. map_of (entries m) k = Some e \<longrightarrow> good k e" for xs m
    using that
  proof (induction xs arbitrary: m)
    case (Cons x xs)
    have "modelKey (?step x m) = key" using Cons.prems by simp
    moreover have "\<forall>k e. map_of (entries (?step x m)) k = Some e \<longrightarrow> good k e"
    proof (cases "supportsModel x key")
      case True
      then show ?thesis
        using Cons.prems(1,3) new [of x] by (auto simp: gomap_simps Cons.prems(2) split: if_splits)
    qed (use Cons.prems(3) in simp)
    ultimately have "\<forall>k e. map_of (entries (fold ?step xs (?step x m))) k = Some e \<longrightarrow> good k e"
      using Cons.prems(1) by (intro Cons.IH) simp_all
    then show ?case by simp
  qed simp
  from this [of metas "emptyShard key"] assms have "good k e"
    by (simp add: buildShard_def) (simp add: emptyShard_def)
  then show "smeta e \<in> set metas" "supportsModel (smeta e) key" "ID (mAuth (smeta e)) = k"
    "e = withVerdict (isAuthBlockedForModel (accessExp env) (Some (mAuth (smeta e))) key now)
       \<lparr>smeta = smeta e, sstate = scheduledStateReady, nextRetryAt = 0\<rparr>"
    unfolding good_def by blast+
qed

text \<open>Ensuring a shard does not change what it serves.\<close>

lemma ensured_metas:
  assumes ok: "provider_ok X Q t p" and t: "0 \<le> t" "t \<le> now" and env: "accessExp env = X"
  shows "smeta ` snd ` set (entries (snd (ensureModelLocked env model now p))) = servingMetas p (canonicalModelKey model)"
proof (cases "map_of (modelShards p) (canonicalModelKey model)")
  case (Some m)
  with ok have "indexed m" by (simp add: provider_ok_def shard_near_def)
  with Some show ?thesis by (simp add: ensureModelLocked_def Let_def servingMetas_def promote_metas)
next
  case None
  let ?key = "canonicalModelKey model"
  let ?m = "buildShard env ?key now (map snd (pAuths p))"
  have wf: "wf_map (pAuths p)" using ok by (simp add: provider_ok_def)
  have m: "shard_ok X Q now p ?key ?m" by (rule buildShard_ok [OF assms])
  then have "smeta ` snd ` set (entries ?m) = {x. \<exists>k e. map_of (entries ?m) k = Some e \<and> smeta e = x}"
    by (intro entry_metas indexed_wf) (simp add: shard_near_def)
  also have "\<dots> = {meta \<in> snd ` set (pAuths p). supportsModel meta ?key}"
  proof (intro set_eqI iffI)
    fix x assume "x \<in> {x. \<exists>k e. map_of (entries ?m) k = Some e \<and> smeta e = x}"
    then show "x \<in> {meta \<in> snd ` set (pAuths p). supportsModel meta ?key}" using buildShard_entries by fastforce
  next
    fix x assume "x \<in> {meta \<in> snd ` set (pAuths p). supportsModel meta ?key}"
    then obtain k where k: "map_of (pAuths p) k = Some x" "supportsModel x ?key" by (auto simp: wf_map_in_set [OF wf])
    then have "map_of (entries ?m) k \<noteq> None" using m unfolding shard_near_def by blast
    then obtain e where e: "map_of (entries ?m) k = Some e" by blast
    obtain k' where "(k', smeta e) \<in> set (pAuths p)" using buildShard_entries(1) [OF e] by auto
    then have "map_of (pAuths p) k' = Some (smeta e)" by (simp add: wf_map_in_set [OF wf])
    moreover have "k' = k"
      using calculation ok buildShard_entries(3) [OF e] by (simp add: provider_ok_def)
    ultimately show "x \<in> {x. \<exists>k e. map_of (entries ?m) k = Some e \<and> smeta e = x}" using k e by auto
  qed
  finally show ?thesis using None by (simp add: ensureModelLocked_def Let_def servingMetas_def)
qed

lemma requestPredicate_weight:
  "strat = schedulerStrategyWeightedRoundRobin \<longrightarrow> (\<forall>meta. requestPredicate req pin strat meta \<longrightarrow> 0 < mWeight meta)"
  by (auto simp: requestPredicate_def scheduledAuthPredicate_def)

text \<open>The pick for one provider against a scan of the serving metas.\<close>

lemma pickFrom_exact:
  assumes ok: "prov.all_ok X Q t s" and t: "ticks t clock" and env: "accessExp env = X"
    and p: "map_of (providers s) k = Some p"
    and P: "P = requestPredicate req pin strat"
    and pl: "pl = metaPool pw (freeServing X (fst (snd clock)) P p (canonicalModelKey (canonicalModelKey model)))"
  shows "case snd (pickFromProvider env k pe model pw strat P clock s) of
      Inl e \<Rightarrow> pl = {}
    | Inr a \<Rightarrow> (\<exists>meta \<in> pl. mAuth meta = a \<and> (\<forall>meta' \<in> pl. mPriority meta' \<le> mPriority meta))"
proof -
  obtain t1 t2 t3 where c: "clock = (t1, t2, t3)" using prod_cases3 by blast
  have le: "0 \<le> t" "t \<le> t1" "t1 \<le> t2" using t by (auto simp: ticks_def c)
  let ?key = "canonicalModelKey (canonicalModelKey model)"
  obtain p2 m where e: "ensureModelLocked env (canonicalModelKey model) t1 p = (p2, m)" by fastforce
  obtain r m2 where pk: "pickReadyLocked X pw strat (P \<circ> smeta) t2 m = (r, m2)" by fastforce
  have pok: "provider_ok X Q t p" using ok p by (simp add: prov.all_ok_def)
  have m: "shard_ok X Q t1 p ?key m" using ensured_shard_ok [OF pok le(1,2) env, of "canonicalModelKey model"] e by simp
  then have mk: "modelKey m = ?key" "indexed m" "judged_by X t1 m" by (auto simp: shard_near_def)
  have "freeMetas X t2 P m = freeServing X t2 P p ?key"
  proof -
    have "(\<exists>e \<in> snd ` set (entries m). smeta e = x) \<longleftrightarrow> x \<in> smeta ` snd ` set (entries m)" for x by blast
    moreover have "smeta ` snd ` set (entries m) = servingMetas p ?key"
      using ensured_metas [OF pok le(1,2) env, of "canonicalModelKey model"] e by simp
    ultimately show ?thesis by (simp add: freeMetas_def freeServing_def mk(1))
  qed
  then have pl': "metaPool pw (freeMetas X t2 P m) = pl" by (simp add: pl c)
  have "strat = schedulerStrategyWeightedRoundRobin \<longrightarrow> (\<forall>meta. P meta \<longrightarrow> 0 < mWeight meta)"
    unfolding P by (rule requestPredicate_weight)
  from pickReady_free [OF mk(2,3) le(3) this, of pw]
  have "case r of None \<Rightarrow> pl = {} | Some e \<Rightarrow> smeta e \<in> pl \<and> (\<forall>meta \<in> pl. mPriority meta \<le> mPriority (smeta e))"
    unfolding pl' pk by simp
  moreover have "snd (pickFromProvider env k pe model pw strat P clock s) =
      (case r of Some e \<Rightarrow> Inr (mAuth (smeta e)) | None \<Rightarrow> Inl (unavailableErrorLocked pe model (P \<circ> smeta) t3 m2))"
    using p e pk env by (simp add: pickFromProvider_def c Let_def split: option.splits)
  ultimately show ?thesis by (auto split: option.splits)
qed


definition wEnv :: schedEnv where
  "wEnv = \<lparr>accessExp = (\<lambda>_. None), modelsForClient = (\<lambda>_. [''m'']), clientEpoch = (\<lambda>_. 1)\<rparr>"

definition wCred :: "string \<Rightarrow> string \<Rightarrow> nat \<Rightarrow> Auth" where
  "wCred i prov ep = emptyAuth\<lparr>ID := i, Provider := prov, Status := StatusActive, RegistrationEpoch := ep\<rparr>"

definition wReq :: schedReq where
  "wReq = \<lparr>reqWebsocket = False, pinnedAuthID = [], allows = (\<lambda>_. True), tried = []\<rparr>"

definition wSched :: authScheduler where
  "wSched = schedExec wEnv (1, 1, 1) (OpUpsert (Some (wCred ''b'' ''q'' 1)))
     (schedExec wEnv (1, 1, 1) (OpUpsert (Some (wCred ''a'' ''p'' 1))) (newAuthScheduler SelRoundRobin))"

lemma wSched_reach: "sched_reach (\<lambda>_. None) (\<lambda>_. True) 1 wSched"
proof -
  have env: "accessExp wEnv = (\<lambda>_. None)" by (simp add: wEnv_def)
  have t: "ticks 0 (1, 1, 1)" "ticks 1 (1, 1, 1)" by (simp_all add: ticks_def)
  have adm: "\<forall>a \<in> opAuths (OpUpsert (Some (wCred i p e))). admits (\<lambda>_. True) a" if "TrimSpace i = i" for i p e
    using that by (simp add: admits_def wCred_def emptyAuth_def)
  have "TrimSpace ''a'' = ''a''" "TrimSpace ''b'' = ''b''" by code_simp+
  note step = sched_reach.step [OF _ _ env adm]
  from step [OF sched_reach.start [of 0] t(1) \<open>TrimSpace ''a'' = ''a''\<close>]
  have "sched_reach (\<lambda>_. None) (\<lambda>_. True) 1 (schedExec wEnv (1, 1, 1) (OpUpsert (Some (wCred ''a'' ''p'' 1))) (newAuthScheduler SelRoundRobin))"
    by simp
  from step [OF this t(2) \<open>TrimSpace ''b'' = ''b''\<close>] show ?thesis by (simp add: wSched_def)
qed


end
