(* ===== verification/ResultScheduling.thy ===== *)
theory ResultScheduling
  imports ResultProperties SchedulerProperties
begin

text \<open>
  Results and scheduling together: \<open>MarkResult\<close> publishes the credential it has changed to the
  scheduler, and a pick that follows sees the new cooldown.
\<close>

definition publishResult :: "schedEnv \<Rightarrow> published option \<Rightarrow> gotime \<Rightarrow> authScheduler \<Rightarrow> authScheduler" where
  "publishResult env pub now s =
     (case pub of
        None \<Rightarrow> s
      | Some p \<Rightarrow> upsertAuthResultLocked env (Some (pubAuth p)) (pubTargets p) (pubCredentialScoped p) now s)"

section \<open>What a published credential replaces\<close>

lemma targetLoop_entry:
  assumes "key \<in> canonicalModelKey ` set ts" and "key \<notin> set seen"
    and "map_of (targetLoop env meta now seen ts shards) key = Some m"
  shows "\<exists>m0. m = syncShard env meta now key m0"
  using assms
proof (induction ts arbitrary: seen shards)
  case (Cons t ts)
  have keep: "map_of (targetLoop env meta now seen' us shards') key = map_of shards' key"
    if "key \<in> set seen'" for seen' us shards'
    using that
    by (induction us arbitrary: seen' shards') (auto simp: Let_def gomap_simps split: option.splits)
  show ?case
  proof (cases "canonicalModelKey t = key")
    case True
    with Cons.prems keep [of "key # seen"] show ?thesis
      by (auto simp: Let_def gomap_simps split: option.splits if_splits)
  next
    case False
    with Cons.prems have in_ts: "key \<in> canonicalModelKey ` set ts" by auto
    let ?c = "canonicalModelKey t"
    consider "?c \<in> set seen" | "?c \<notin> set seen" "map_of shards ?c = None"
      | m0 where "?c \<notin> set seen" "map_of shards ?c = Some m0" by blast
    then show ?thesis
    proof cases
      case 1
      with Cons.prems(3) show ?thesis by (intro Cons.IH [OF in_ts Cons.prems(2)]) (simp add: Let_def)
    next
      case 2
      with Cons.prems(2,3) False show ?thesis by (intro Cons.IH [OF in_ts, of "?c # seen"]) (auto simp: Let_def)
    next
      case 3
      with Cons.prems(2,3) False show ?thesis by (intro Cons.IH [OF in_ts, of "?c # seen"]) (auto simp: Let_def)
    qed
  qed
qed simp

lemma synced_meta:
  assumes "indexed (syncShard env meta now key m)" and "x \<in> smeta ` snd ` set (entries (syncShard env meta now key m))"
    and "ID (mAuth x) = ID (mAuth meta)" and "ID (mAuth meta) \<noteq> []"
  shows "x = meta"
proof -
  let ?m = "syncShard env meta now key m"
  obtain k e where e: "(k, e) \<in> set (entries ?m)" "x = smeta e" using assms(2) by force
  then have "map_of (entries ?m) (ID (mAuth meta)) = Some e"
    using keyed_entry assms(1,3) by (fastforce simp: indexed_def)
  with e(2) assms(4) show ?thesis
    by (auto simp: syncShard_def remove_entries gomap_simps split: if_splits)
qed

lemma upsert_serving:
  assumes "provider_ok X Q u p'" and "p' = upsertAuthForModelsLocked env meta targets scoped now p"
    and "scoped \<or> targets = [] \<or> key \<in> canonicalModelKey ` set targets" and "ID (mAuth meta) \<noteq> []"
    and "x \<in> servingMetas p' key" and "ID (mAuth x) = ID (mAuth meta)"
  shows "x = meta"
proof (cases "map_of (modelShards p') key")
  case None
  with assms(5) obtain k where "(k, x) \<in> set (pAuths p')" by (force simp: servingMetas_def)
  moreover have "wf_map (pAuths p')" using assms(1) by (simp add: provider_ok_def)
  ultimately have k: "map_of (pAuths p') k = Some x" by (simp add: wf_map_in_set)
  then have "ID (mAuth x) = k" using assms(1) unfolding provider_ok_def by blast
  with k assms(6) have "map_of (pAuths p') (ID (mAuth meta)) = Some x" by simp
  moreover have "map_of (pAuths p') (ID (mAuth meta)) = Some meta" unfolding assms(2) by (simp add: pAuths_upsert)
  ultimately show ?thesis by simp
next
  case (Some m)
  then have m: "x \<in> smeta ` snd ` set (entries m)" "indexed m"
    using assms(1,5) by (auto simp: servingMetas_def provider_ok_def shard_near_def)
  have "\<exists>m0. m = syncShard env meta now key m0"
  proof (cases "scoped \<or> targets = []")
    case True
    with Some assms(2) show ?thesis
      by (auto simp: upsertAuthForModelsLocked_def Let_def gomap_simps)
  next
    case False
    with Some assms(2,3) show ?thesis
      by (intro targetLoop_entry)
        (auto simp: upsertAuthForModelsLocked_def updateTargetShardsLocked_def Let_def)
  qed
  with m assms(4,6) synced_meta show ?thesis by blast
qed

text \<open>An accepted result leaves one snapshot of the credential behind for the models it names.\<close>

lemma result_provider:
  assumes "\<not> isStaleScheduledAuth (ID a) (RegistrationEpoch a) (Generation a) (UpdatedAt a) s"
    and "TrimSpace (ID a) = ID a" and "ID a \<noteq> []" and "\<not> unschedulable a"
    and "map_of (providers (upsertAuthResultLocked env (Some a) targets scoped now s)) (executorKeyFromAuth (Some a)) = Some p"
  shows "\<exists>meta targets' scoped' p0. p = upsertAuthForModelsLocked env meta targets' scoped' now p0 \<and> mAuth meta = a
    \<and> (scoped' \<or> targets' = [] \<or> (\<not> scoped \<and> targets' = targets))"
proof -
  let ?k = "executorKeyFromAuth (Some a)"
  let ?s = "ensureProviderLocked ?k (leavePreviousProvider (ID a) ?k
     (setGeneration (ID a) (RegistrationEpoch a) (Generation a) (UpdatedAt a) s))"
  obtain p0 where p0: "map_of (providers ?s) ?k = Some p0"
    using ensureProvider_present by blast
  let ?s' = "?s\<lparr>authProviders := AList.update (ID a) ?k (authProviders ?s)\<rparr>"
  let ?put = "\<lambda>ms ts sc. updateProvider ?k
     (upsertAuthForModelsLocked env (buildScheduledAuthMetaWithModelSet a ms (clientEpoch env (ID a))) ts sc now) ?s'"
  have "\<exists>ms A B. upsertAuthResultLocked env (Some a) targets scoped now s =
      (if A \<or> scoped \<or> B \<or> targets = [] then ?put ms [] True else ?put ms targets scoped)"
    unfolding upsertAuthResultLocked_def Let_def option.case assms(2) if_not_P [OF assms(1)] if_not_P [OF assms(3)]
      if_not_P [OF assms(4)]
    by (intro exI, rule refl)
  then obtain ms ts sc where put: "upsertAuthResultLocked env (Some a) targets scoped now s = ?put ms ts sc"
    "sc \<or> ts = [] \<or> (\<not> scoped \<and> ts = targets)"
    by (metis (full_types))
  have "providers (?put ms ts sc) = AList.update ?k (upsertAuthForModelsLocked env
      (buildScheduledAuthMetaWithModelSet a ms (clientEpoch env (ID a))) ts sc now p0) (providers ?s)"
    using p0 by (simp add: updateProvider_def)
  with assms(5) have "p = upsertAuthForModelsLocked env
      (buildScheduledAuthMetaWithModelSet a ms (clientEpoch env (ID a))) ts sc now p0"
    unfolding put(1) by (simp add: gomap_simps)
  with put(2) show ?thesis by (intro exI conjI) auto
qed

section \<open>Picks after a failure\<close>

lemma MarkResult_publishes:
  assumes "mResultPolicy m = None" and "rAuthID result \<noteq> []" and "map_of (mAuths m) (rAuthID result) = Some (Some a)"
    and "\<not> isStaleExecutionResult env result a" and "snd (MarkResult env result now m) = Some pub"
  shows "pubAuth pub = fst (applyResult env (mExecutionSeq m) result now a)"
    and "resultModelKey env result a \<noteq> [] \<Longrightarrow>
      pubCredentialScoped pub \<or> resultModelKey env result a \<in> set (pubTargets pub)"
proof -
  obtain b k r where ap: "applyResult env (mExecutionSeq m) result now a = (b, k, r)" using prod_cases3 by blast
  have k: "k = resultModelKey env result a"
    using ap by (auto simp: applyResult_def Let_def split: prod.splits)
  have p: "pub = \<lparr>pubAuth = b, pubTargets = targetModelsOf result k (rCredentialScope result \<or> r),
      pubCredentialScoped = (rCredentialScope result \<or> r)\<rparr>"
    using assms ap by (simp add: MarkResult_def Let_def)
  show "pubAuth pub = fst (applyResult env (mExecutionSeq m) result now a)" by (simp add: p ap)
  show "pubCredentialScoped pub \<or> resultModelKey env result a \<in> set (pubTargets pub)"
    if "resultModelKey env result a \<noteq> []"
    using that k by (auto simp: p targetModelsOf_def Let_def)
qed

text \<open>A pick for the credential's provider returns it only if it is free for the model.\<close>

lemma picked_is_free:
  assumes "sched_reach X Q t s" and "ticks t clock" and "accessExp env = X"
    and "map_of (providers s) k = Some p" and "canonicalSchedulingProvider name = k"
    and "snd (pickSingleWithStrategy env req name model strat clock s) = Inr x"
  obtains meta where "meta \<in> servingMetas p (canonicalModelKey (canonicalModelKey model))" "mAuth meta = x"
    "\<not> blocked (isAuthBlockedForModel X (Some x) (canonicalModelKey (canonicalModelKey model)) (fst (snd clock)))"
proof -
  let ?st = "resolveStrategy strat s"
  let ?P = "requestPredicate req (pinnedAuthID req) ?st"
  let ?pw = "reqWebsocket req \<and> providerPrefersWebsocketTransport k \<and> pinnedAuthID req = []"
  have "pickSingleWithStrategy env req name model strat clock s = pickFromProvider env k name model ?pw ?st ?P clock s"
    using assms(5) by (simp add: pickSingleWithStrategy_def Let_def)
  with pickFrom_exact [OF reach_providers [OF assms(1)] assms(2,3,4) refl refl,
      where req = req and pin = "pinnedAuthID req" and strat = ?st and pe = name and model = model and pw = ?pw]
    assms(6)
  obtain meta where "meta \<in> metaPool ?pw (freeServing X (fst (snd clock)) ?P p (canonicalModelKey (canonicalModelKey model)))"
    "mAuth meta = x" by auto
  then show ?thesis by (intro that [of meta]) (auto simp: metaPool_def freeServing_def split: if_splits)
qed

lemma published_snapshot:
  assumes "sched_reach X (\<lambda>_. True) t s" and "ticks t (pt, pt, pt)" and "accessExp env = X"
    and "TrimSpace (ID a) = ID a" and "ID a \<noteq> []" and "\<not> unschedulable a"
    and "\<not> isStaleScheduledAuth (ID a) (RegistrationEpoch a) (Generation a) (UpdatedAt a) s"
    and "scoped \<or> key \<in> canonicalModelKey ` set targets"
    and "s' = upsertAuthResultLocked env (Some a) targets scoped pt s"
  shows "sched_reach X (\<lambda>_. True) pt s'"
    and "map_of (providers s') (executorKeyFromAuth (Some a)) = Some p \<Longrightarrow> meta \<in> servingMetas p key \<Longrightarrow>
      ID (mAuth meta) = ID a \<Longrightarrow> mAuth meta = a"
proof -
  have r: "sched_reach X (\<lambda>_. True) (snd (snd (pt, pt, pt))) (schedExec env (pt, pt, pt) (OpResult (Some a) targets scoped) s)"
    by (rule sched_reach.step [OF assms(1,2,3)]) (simp add: admits_def assms(4))
  then show reach: "sched_reach X (\<lambda>_. True) pt s'" by (simp add: assms(9))
  assume p: "map_of (providers s') (executorKeyFromAuth (Some a)) = Some p"
    and m: "meta \<in> servingMetas p key" "ID (mAuth meta) = ID a"
  from result_provider [OF assms(7,4,5,6) p [unfolded assms(9)]] obtain new ts sc p0 where
    new: "p = upsertAuthForModelsLocked env new ts sc pt p0" "mAuth new = a"
      "sc \<or> ts = [] \<or> (\<not> scoped \<and> ts = targets)" by blast
  have ok: "provider_ok X (\<lambda>_. True) pt p"
    using reach_providers [OF reach] p by (auto simp: prov.all_ok_def)
  have "meta = new"
    by (rule upsert_serving [OF ok new(1)]) (use new assms(5,8) m in auto)
  with new(2) show "mAuth meta = a" by simp
qed

text \<open>
  Claim C5. A failure that counts takes the credential out of rotation for its model.  Record the
  failure, publish the credential to the scheduler in any reachable state that has nothing newer,
  and pick for its provider and that model: until the deadline the failure has set, which lies in
  the future, no pick returns the credential.
\<close>

theorem cooled_credential_not_picked:
  assumes "sched_reach X (\<lambda>_. True) t s" and "ticks t (pt, pt, pt)" and "accessExp env = X"
    and "mResultPolicy m = None" and "rAuthID result \<noteq> []" and "map_of (mAuths m) (rAuthID result) = Some (Some a)"
    and "\<not> isStaleExecutionResult cool result a" and "snd (MarkResult cool result now m) = Some pub"
    and "cooling_on cool" and "\<not> cooldownDisabledForAuth cool a" and "0 \<le> now" and "\<not> rSuccess result"
    and "\<not> immediateRetry result" and "keys_ok a" and "resultModelKey cool result a \<noteq> []"
    and "\<not> shouldSkipCredentialCooldown (jsonOf cool) (rError result)"
    and "key = canonicalModelKey (resultModelKey cool result a)" and "canonicalModelKey key = key"
    and "c = pubAuth pub" and "TrimSpace (ID c) = ID c" and "ID c \<noteq> []" and "\<not> unschedulable c"
    and "\<not> isStaleScheduledAuth (ID c) (RegistrationEpoch c) (Generation c) (UpdatedAt c) s"
    and "ticks pt clock" and "accessExp env' = X"
    and "canonicalSchedulingProvider name = executorKeyFromAuth (Some c)"
    and "canonicalModelKey (canonicalModelKey model) = key"
  shows "now < MNextRetryAfter (stateAt c key)
    \<and> (fst (snd clock) < MNextRetryAfter (stateAt c key) \<longrightarrow>
         (case snd (pickSingleWithStrategy env' req name model strat clock (publishResult env (Some pub) pt s)) of
            Inl e \<Rightarrow> True | Inr x \<Rightarrow> ID x \<noteq> ID c))"
proof -
  let ?s = "publishResult env (Some pub) pt s"
  have s': "?s = upsertAuthResultLocked env (Some c) (pubTargets pub) (pubCredentialScoped pub) pt s"
    by (simp add: publishResult_def assms(19))
  note pub = MarkResult_publishes [OF assms(4-8)]
  obtain st where st: "map_of (ModelStates c) key = Some (Some st)" "MUnavailable st" "now < MNextRetryAfter st"
    using applyResult_failure [OF assms(9) _ assms(11-15,17,16), of "mExecutionSeq m"] assms(10) pub(1) assms(19) by auto
  have D: "MNextRetryAfter (stateAt c key) = MNextRetryAfter st" using st(1) by (simp add: stateAt_Some)
  have scope: "pubCredentialScoped pub \<or> key \<in> canonicalModelKey ` set (pubTargets pub)"
    using pub(2) assms(15,17) by auto
  note snap = published_snapshot [OF assms(1-3,20-23) scope s']
  have key: "key \<noteq> []" using resultModelKey_ok [OF assms(15)] assms(17) by simp
  have "ID x \<noteq> ID c" if early: "fst (snd clock) < MNextRetryAfter st"
    and x: "snd (pickSingleWithStrategy env' req name model strat clock ?s) = Inr x" for x
  proof (cases "map_of (providers ?s) (executorKeyFromAuth (Some c))")
    case None
    with x assms(26) show ?thesis
      by (simp add: pickSingleWithStrategy_def pickFromProvider_def Let_def split_beta)
  next
    case (Some p)
    from picked_is_free [OF snap(1) assms(24,25) Some assms(26) x] obtain meta where
      meta: "meta \<in> servingMetas p key" "mAuth meta = x" "\<not> blocked (isAuthBlockedForModel X (Some x) key (fst (snd clock)))"
      using assms(27) by metis
    have "blocked (isAuthBlockedForModel X (Some c) key (fst (snd clock)))"
      using assms(24) early st(2)
      by (intro blocked_by_state [OF st(1) assms(18) key assms(18)] state_blocks_retry) (auto simp: ticks_def)
    with meta snap(2) [OF Some meta(1)] show ?thesis by auto
  qed
  then show ?thesis using st(3) by (auto simp: D split: sum.splits)
qed

definition wHeld :: manager where
  "wHeld = wManager\<lparr>mAuths := [(''a'', Some (wCred ''a'' ''p'' 1))]\<rparr>"

definition wStruck :: Auth where
  "wStruck = wCooled\<lparr>Provider := ''p'', RegistrationEpoch := 1\<rparr>"

definition wPub :: published where
  "wPub = \<lparr>pubAuth = wStruck, pubTargets = [''m''], pubCredentialScoped = False\<rparr>"

theorem cooled_credential_not_picked_witness:
  "MNextRetryAfter (stateAt wStruck ''m'') = 1000 + Second
   \<and> (case snd (pickSingleWithStrategy wEnv wReq ''p'' ''m'' schedulerStrategyCurrent (5000, 5000, 5000)
            (publishResult wEnv (Some wPub) 1000 wSched)) of
        Inl e \<Rightarrow> True | Inr x \<Rightarrow> ID x \<noteq> ''a'')"
proof -
  have t: "ticks 1 (1000, 1000, 1000)" "ticks 1000 (5000, 5000, 5000)" by (simp_all add: ticks_def)
  have e: "accessExp wEnv = (\<lambda>_. None)" by (simp add: wEnv_def)
  have m: "mResultPolicy wHeld = None" by (simp add: wHeld_def wManager_def)
  have pub: "snd (MarkResult wCool (wFailure 429) 1000 wHeld) = Some wPub" by code_simp
  have a: "rAuthID (wFailure 429) \<noteq> []" "map_of (mAuths wHeld) (rAuthID (wFailure 429)) = Some (Some (wCred ''a'' ''p'' 1))"
    "\<not> isStaleExecutionResult wCool (wFailure 429) (wCred ''a'' ''p'' 1)"
    by code_simp+
  have b: "cooling_on wCool" "\<not> cooldownDisabledForAuth wCool (wCred ''a'' ''p'' 1)" "(0::int) \<le> 1000"
    "\<not> rSuccess (wFailure 429)" "\<not> immediateRetry (wFailure 429)" "keys_ok (wCred ''a'' ''p'' 1)"
    "resultModelKey wCool (wFailure 429) (wCred ''a'' ''p'' 1) \<noteq> []"
    "\<not> shouldSkipCredentialCooldown (jsonOf wCool) (rError (wFailure 429))"
    "''m'' = canonicalModelKey (resultModelKey wCool (wFailure 429) (wCred ''a'' ''p'' 1))"
    "canonicalModelKey ''m'' = ''m''"
    by code_simp+
  have c: "wStruck = pubAuth wPub" "TrimSpace (ID wStruck) = ID wStruck" "ID wStruck \<noteq> []" "\<not> unschedulable wStruck"
    "\<not> isStaleScheduledAuth (ID wStruck) (RegistrationEpoch wStruck) (Generation wStruck) (UpdatedAt wStruck) wSched"
    "canonicalSchedulingProvider ''p'' = executorKeyFromAuth (Some wStruck)"
    "canonicalModelKey (canonicalModelKey ''m'') = ''m''" "ID wStruck = ''a''"
    "MNextRetryAfter (stateAt wStruck ''m'') = 1000 + Second"
    by code_simp+
  note x = cooled_credential_not_picked [OF wSched_reach t(1) e m a pub b c(1-5) t(2) e c(6,7),
      of wReq schedulerStrategyCurrent]
  from this [unfolded c(8,9)] show ?thesis
    unfolding c(9) by (simp add: Second_def)
qed

end
