(* ===== verification/CooldownStore.thy ===== *)
theory CooldownStore
  imports MarkResult
begin

text \<open>
  Persistence and manual reset of cooldowns (\<open>conductor_cooldown.go\<close>, \<open>cooldown_state.go\<close> under
  \<open>src/sdk/cliproxy/auth\<close>): the records written for a pool of credentials, the file store, the
  restoration of records into registered credentials, and the operations that clear cooldowns.

  \<^item> A file of the store is the list of its decoded records, the directory a map from paths to
    files.  The path of a record is computed by Go's \<open>path/filepath\<close> and is the argument
    \<open>statePath\<close>; \<open>None\<close> is its error.  Failures of the file system itself are left out.
  \<^item> JSON drops \<open>AuthFile\<close> (its tag says so) and the unexported fields of the independent state:
    \<open>decoded\<close> is what comes back from a file.
  \<^item> The sources sort with \<open>sort.Slice\<close>; \<open>sort_key\<close> is one of the orders that may result.
\<close>

section \<open>Records\<close>

record CooldownStateRecord =
  recProvider :: string
  recAuthID :: string
  recAuthFile :: string
  recModel :: string
  recStatus :: string
  recNextRetryAfter :: gotime
  recReason :: string
  recQuota :: QuotaState
  recLastError :: "Error option"
  recUpdatedAt :: gotime
  recIndependentState :: "ModelStateBase option"
  recPropagated :: bool

definition cooldownFieldsOf :: "QuotaState \<Rightarrow> QuotaState" where
  "cooldownFieldsOf q = \<lparr>Exceeded = Exceeded q, Reason = Reason q, NextRecoverAt = NextRecoverAt q,
     BackoffLevel = BackoffLevel q, ObservedAt = 0, Signals = []\<rparr>"

definition cooldownReason :: "string \<Rightarrow> QuotaState \<Rightarrow> Error option \<Rightarrow> string" where
  "cooldownReason statusMessage quota lastErr =
     (if TrimSpace (Reason quota) \<noteq> [] then TrimSpace (Reason quota)
      else if TrimSpace statusMessage \<noteq> [] then TrimSpace statusMessage
      else case lastErr of
             None \<Rightarrow> []
           | Some e \<Rightarrow> if TrimSpace (Code e) \<noteq> [] then TrimSpace (Code e) else TrimSpace (Message e))"

definition cooldownAuthFile :: "Auth \<Rightarrow> string" where
  "cooldownAuthFile a =
     (let path = TrimSpace (str_get (Attributes a) ''path'')
      in if path \<noteq> [] then path else TrimSpace (FileName a))"

definition authCooldownStateRecord :: "Auth \<Rightarrow> gotime \<Rightarrow> CooldownStateRecord option" where
  "authCooldownStateRecord a now =
     (if \<not> Unavailable a \<or> IsZero (NextRetryAfter a) \<or> \<not> After (NextRetryAfter a) now then None
      else Some \<lparr>recProvider = TrimSpace (Provider a), recAuthID = ID a, recAuthFile = cooldownAuthFile a,
             recModel = [], recStatus = ''cooling'', recNextRetryAfter = NextRetryAfter a,
             recReason = cooldownReason (StatusMessage a) (Quota a) (LastError a),
             recQuota = cooldownFieldsOf (Quota a), recLastError = cloneError (LastError a),
             recUpdatedAt = UpdatedAt a, recIndependentState = None, recPropagated = False\<rparr>)"

definition modelCooldownStateRecord ::
  "Auth \<Rightarrow> string \<Rightarrow> ModelState option \<Rightarrow> gotime \<Rightarrow> CooldownStateRecord option" where
  "modelCooldownStateRecord a key state now =
     (let model = TrimSpace key
      in case state of
           None \<Rightarrow> None
         | Some s \<Rightarrow>
             if model = [] \<or> \<not> MUnavailable s \<or> IsZero (MNextRetryAfter s) \<or> \<not> After (MNextRetryAfter s) now
             then None
             else Some \<lparr>recProvider = TrimSpace (Provider a), recAuthID = ID a,
                    recAuthFile = cooldownAuthFile a, recModel = model, recStatus = ''cooling'',
                    recNextRetryAfter = MNextRetryAfter s,
                    recReason = cooldownReason (MStatusMessage s) (MQuota s) (MLastError s),
                    recQuota = cooldownFieldsOf (MQuota s), recLastError = cloneError (MLastError s),
                    recUpdatedAt = MUpdatedAt s, recIndependentState = credentialQuotaShadow s,
                    recPropagated = credentialQuotaPropagated s\<rparr>)"

definition cooldownStateRecordsForAuthLocked ::
  "'r cooldownEnv \<Rightarrow> Auth option \<Rightarrow> gotime \<Rightarrow> CooldownStateRecord list" where
  "cooldownStateRecordsForAuthLocked env auth now =
     (case auth of
        None \<Rightarrow> []
      | Some a \<Rightarrow>
          if ID a = [] \<or> Disabled a \<or> Status a = StatusDisabled \<or> cooldownDisabledForAuth env a then []
          else sort_key recModel
            (List.map_filter (\<lambda>x. x)
              (authCooldownStateRecord a now
               # map (\<lambda>(model, state). modelCooldownStateRecord a model state now) (ModelStates a))))"

definition cooldownStateRecordsSnapshot ::
  "'r cooldownEnv \<Rightarrow> gotime \<Rightarrow> manager \<Rightarrow> CooldownStateRecord list" where
  "cooldownStateRecordsSnapshot env now m =
     sort_key recProvider (sort_key recAuthID (sort_key recModel
       (concat (map (\<lambda>(_, auth). cooldownStateRecordsForAuthLocked env auth now) (mAuths m)))))"

section \<open>Whether the records have changed\<close>

definition cooldownQuotaEqual :: "QuotaState \<Rightarrow> QuotaState \<Rightarrow> bool" where
  "cooldownQuotaEqual a b \<longleftrightarrow> Exceeded a = Exceeded b \<and> Reason a = Reason b
     \<and> BackoffLevel a = BackoffLevel b \<and> NextRecoverAt a = NextRecoverAt b"

definition cooldownErrorEqual :: "Error option \<Rightarrow> Error option \<Rightarrow> bool" where
  "cooldownErrorEqual a b =
     (case (a, b) of
        (Some x, Some y) \<Rightarrow> Code x = Code y \<and> Message x = Message y \<and> Retryable x = Retryable y
          \<and> HTTPStatus x = HTTPStatus y
      | (None, None) \<Rightarrow> True
      | _ \<Rightarrow> False)"

definition cooldownIndependentStateEqual :: "ModelStateBase option \<Rightarrow> ModelStateBase option \<Rightarrow> bool" where
  "cooldownIndependentStateEqual a b =
     (case (a, b) of
        (Some x, Some y) \<Rightarrow>
          MStatus x = MStatus y \<and> MStatusMessage x = MStatusMessage y \<and> MUnavailable x = MUnavailable y
          \<and> MNextRetryAfter x = MNextRetryAfter y \<and> MUpdatedAt x = MUpdatedAt y
          \<and> cooldownQuotaEqual (MQuota x) (MQuota y) \<and> cooldownErrorEqual (MLastError x) (MLastError y)
      | (None, None) \<Rightarrow> True
      | _ \<Rightarrow> False)"

definition cooldownStateRecordEqual :: "CooldownStateRecord \<Rightarrow> CooldownStateRecord \<Rightarrow> bool" where
  "cooldownStateRecordEqual a b \<longleftrightarrow>
     recPropagated a = recPropagated b \<and> recProvider a = recProvider b \<and> recAuthID a = recAuthID b
     \<and> recAuthFile a = recAuthFile b \<and> recModel a = recModel b \<and> recStatus a = recStatus b
     \<and> recReason a = recReason b \<and> recNextRetryAfter a = recNextRetryAfter b
     \<and> recUpdatedAt a = recUpdatedAt b \<and> cooldownQuotaEqual (recQuota a) (recQuota b)
     \<and> cooldownErrorEqual (recLastError a) (recLastError b)
     \<and> cooldownIndependentStateEqual (recIndependentState a) (recIndependentState b)"

definition cooldownStateRecordsEqual :: "CooldownStateRecord list \<Rightarrow> CooldownStateRecord list \<Rightarrow> bool" where
  "cooldownStateRecordsEqual a b = list_all2 cooldownStateRecordEqual a b"

text \<open>\<open>MarkResult\<close> persists the cooldowns when the records of the credential have changed.\<close>

definition cooldownStateChanged :: "'r cooldownEnv \<Rightarrow> gotime \<Rightarrow> Auth \<Rightarrow> Auth \<Rightarrow> bool" where
  "cooldownStateChanged env now before after \<longleftrightarrow>
     \<not> cooldownStateRecordsEqual (cooldownStateRecordsForAuthLocked env (Some before) now)
         (cooldownStateRecordsForAuthLocked env (Some after) now)"

section \<open>The file store\<close>

definition decoded :: "CooldownStateRecord \<Rightarrow> CooldownStateRecord" where
  "decoded r = r\<lparr>recAuthFile := [],
     recIndependentState := map_option
       (\<lambda>s. s\<lparr>McooldownRecordedSeq := 0, credentialQuotaPropagated := False\<rparr>) (recIndependentState r)\<rparr>"

type_synonym stateFiles = "(string, CooldownStateRecord list) gomap"

text \<open>The groups by path; \<open>None\<close> when the path of a record cannot be computed.\<close>

fun groupByPath ::
  "(CooldownStateRecord \<Rightarrow> string option) \<Rightarrow> CooldownStateRecord list \<Rightarrow> stateFiles \<Rightarrow> stateFiles option" where
  "groupByPath statePath [] groups = Some groups"
| "groupByPath statePath (r # rs) groups =
     (if TrimSpace (recAuthID r) = [] then groupByPath statePath rs groups
      else case statePath r of
             None \<Rightarrow> None
           | Some path \<Rightarrow>
               groupByPath statePath rs
                 (AList.update path ((case map_of groups path of None \<Rightarrow> [] | Some xs \<Rightarrow> xs) @ [r]) groups))"

text \<open>
  \<open>Save\<close> writes one file per group, sorted by model, and removes every other file, so that the
  groups are the new content of the directory; with no group it removes all files.
\<close>

definition Save ::
  "(CooldownStateRecord \<Rightarrow> string option) \<Rightarrow> CooldownStateRecord list \<Rightarrow> stateFiles \<Rightarrow> stateFiles option" where
  "Save statePath records files =
     (case groupByPath statePath records [] of
        None \<Rightarrow> None
      | Some groups \<Rightarrow>
          Some (map (\<lambda>(path, rs). (path, map decoded (sort_key recModel rs))) groups))"

definition Load :: "stateFiles \<Rightarrow> CooldownStateRecord list" where
  "Load files = concat (map snd files)"

section \<open>Restoration\<close>

definition devinRecordErrorText :: "CooldownStateRecord \<Rightarrow> string" where
  "devinRecordErrorText record =
     (case recLastError record of
        Some e \<Rightarrow> if TrimSpace (Message e) \<noteq> [] then Message e else []
      | None \<Rightarrow> [])"

definition restoredQuota :: "CooldownStateRecord \<Rightarrow> QuotaState" where
  "restoredQuota record =
     (let quota = recQuota record
      in if Exceeded quota \<and> IsZero (NextRecoverAt quota)
         then quota\<lparr>NextRecoverAt := recNextRetryAfter record\<rparr> else quota)"

definition restoredAt :: "CooldownStateRecord \<Rightarrow> gotime \<Rightarrow> gotime" where
  "restoredAt record now = (if IsZero (recUpdatedAt record) then now else recUpdatedAt record)"

definition recordState :: "CooldownStateRecord \<Rightarrow> gotime \<Rightarrow> ModelState" where
  "recordState record now =
     emptyModelState\<lparr>MUnavailable := True, MStatus := StatusError,
       MStatusMessage := TrimSpace (recReason record), MNextRetryAfter := recNextRetryAfter record,
       MQuota := restoredQuota record, MLastError := cloneError (recLastError record),
       MUpdatedAt := restoredAt record now\<rparr>"

definition liveIndependent :: "gotime \<Rightarrow> ModelState \<Rightarrow> ModelStateBase option" where
  "liveIndependent now state =
     (case credentialQuotaShadow state of
        Some shadow \<Rightarrow> Some shadow
      | None \<Rightarrow>
          if \<not> credentialQuotaPropagated state \<and> Reason (MQuota state) \<noteq> ''credential_quota''
             \<and> isModelStateActiveCooldown (Some state) now
             \<and> \<not> isDevinQuotaExhaustionMessage (devinStateErrorText state)
          then Some (cloneShallow state) else None)"

text \<open>An unwrapped record that lands beneath a live wrap becomes the model's own layer.\<close>

definition landBeneathWrap ::
  "CooldownStateRecord \<Rightarrow> gotime \<Rightarrow> QuotaState \<Rightarrow> ModelStateBase option \<Rightarrow> ModelState \<Rightarrow> ModelState" where
  "landBeneathWrap record now authQuota liveShadow state =
     (let updatedAt = restoredAt record now;
          older = (\<lambda>sh. \<not> After (MUpdatedAt sh) updatedAt);
          state =
            (if isDevinQuotaExhaustionMessage (devinRecordErrorText record) then state
             else
               state\<lparr>credentialQuotaShadow :=
                 (if credentialQuotaShadow state = None \<or> (case liveShadow of Some sh \<Rightarrow> older sh | None \<Rightarrow> False)
                  then Some (cloneShallow (recordState record now))
                  else (case liveShadow of
                          Some sh \<Rightarrow> if older sh then credentialQuotaShadow state else Some sh
                        | None \<Rightarrow> credentialQuotaShadow state))\<rparr>)
      in state\<lparr>credentialQuotaPropagated := True,
           MQuota := applyCooldownFields True ''credential_quota'' (NextRecoverAt authQuota)
                       (BackoffLevel authQuota) (MQuota state),
           MNextRetryAfter := (if Before (MNextRetryAfter state) (NextRecoverAt authQuota)
                               then NextRecoverAt authQuota else MNextRetryAfter state),
           MUnavailable := True, MStatus := StatusError\<rparr>)"

definition rewrap :: "CooldownStateRecord \<Rightarrow> ModelStateBase option \<Rightarrow> ModelState \<Rightarrow> ModelState" where
  "rewrap record liveShadow state =
     state\<lparr>credentialQuotaPropagated := True,
       credentialQuotaShadow :=
         (case recIndependentState record of
            Some own \<Rightarrow>
              (case liveShadow of
                 None \<Rightarrow> Some own
               | Some live \<Rightarrow> if \<not> After (MUpdatedAt live) (MUpdatedAt own) then Some own else Some live)
          | None \<Rightarrow> (case liveShadow of None \<Rightarrow> credentialQuotaShadow state | Some live \<Rightarrow> Some live))\<rparr>"

definition wrappedRecord :: "CooldownStateRecord \<Rightarrow> bool" where
  "wrappedRecord record \<longleftrightarrow> recIndependentState record \<noteq> None \<or> recPropagated record
     \<or> TrimSpace (Reason (restoredQuota record)) = ''credential_quota''"

definition restoreState :: "CooldownStateRecord \<Rightarrow> gotime \<Rightarrow> Auth \<Rightarrow> ModelState \<Rightarrow> ModelState" where
  "restoreState record now a state =
     (let liveShadow = liveIndependent now state;
          wasLiveWrapped = (credentialQuotaPropagated state \<or> Reason (MQuota state) = ''credential_quota''
                            \<or> credentialQuotaActive a now);
          state = the (mergeModelState (Some state) (Some (recordState record now)))
      in if \<not> wrappedRecord record \<and> wasLiveWrapped then landBeneathWrap record now (Quota a) liveShadow state
         else if wrappedRecord record then rewrap record liveShadow state
         else state)"

text \<open>A record that names a model, and one for the whole credential.\<close>

definition restoreModelRecord :: "CooldownStateRecord \<Rightarrow> gotime \<Rightarrow> Auth \<Rightarrow> Auth" where
  "restoreModelRecord record now a =
     (case ensureModelState a (TrimSpace (recModel record)) of
        None \<Rightarrow> a
      | Some (a, key) \<Rightarrow>
          (let a = putState key (restoreState record now a (stateAt a key)) a
           in updateAggregatedAvailability now
                (a\<lparr>Generation := wrapU64 (Generation a + 1), UpdatedAt := restoredAt record now\<rparr>)))"

definition restoreAuthRecord :: "CooldownStateRecord \<Rightarrow> gotime \<Rightarrow> Auth \<Rightarrow> Auth" where
  "restoreAuthRecord record now a =
     (let q = restoredQuota record; reason = TrimSpace (recReason record)
      in a\<lparr>Unavailable := True, Status := StatusError, NextRetryAfter := recNextRetryAfter record,
           Quota := mergeQuotaObservation
             (applyCooldownFields (Exceeded q) (Reason q) (NextRecoverAt q) (BackoffLevel q) (Quota a)) q,
           Generation := wrapU64 (Generation a + 1), UpdatedAt := restoredAt record now,
           StatusMessage := (if reason \<noteq> [] then reason else StatusMessage a),
           LastError := cloneError (recLastError record)\<rparr>)"

definition restoreCooldownRecordLocked ::
  "'r cooldownEnv \<Rightarrow> gotime \<Rightarrow> CooldownStateRecord \<Rightarrow> manager \<Rightarrow> manager \<times> bool" where
  "restoreCooldownRecordLocked env now record m =
     (let authID = TrimSpace (recAuthID record)
      in if authID = [] \<or> IsZero (recNextRetryAfter record) \<or> \<not> After (recNextRetryAfter record) now
         then (m, False)
         else
           (case map_of (mAuths m) authID of
              Some (Some a) \<Rightarrow>
                if Disabled a \<or> Status a = StatusDisabled \<or> cooldownDisabledForAuth env a
                   \<or> hasUnauthorizedAuthFailure (Some a)
                then (m, False)
                else
                  (let a = (if TrimSpace (recModel record) = [] then restoreAuthRecord record now a
                            else restoreModelRecord record now a)
                   in (m\<lparr>mAuths := AList.update authID (Some a) (mAuths m)\<rparr>, True))
            | _ \<Rightarrow> (m, False)))"

text \<open>
  The loops of \<open>RestoreCooldownStates\<close>: records of models first, then records of credentials.
  Besides the manager: the snapshots, one per credential, that are handed to \<open>scheduler.upsertAuth\<close>.
\<close>

definition restoreStep ::
  "'r cooldownEnv \<Rightarrow> gotime \<Rightarrow> CooldownStateRecord \<Rightarrow> manager \<times> (string, Auth) gomap
   \<Rightarrow> manager \<times> (string, Auth) gomap" where
  "restoreStep env now record st =
     (case st of
        (m, snapshotsByID) \<Rightarrow>
          (case restoreCooldownRecordLocked env now record m of
             (m, restored) \<Rightarrow>
               if restored then
                 (case map_of (mAuths m) (TrimSpace (recAuthID record)) of
                    Some (Some a) \<Rightarrow> (m, AList.update (ID a) a snapshotsByID)
                  | _ \<Rightarrow> (m, snapshotsByID))
               else (m, snapshotsByID)))"

definition RestoreCooldownStates ::
  "'r cooldownEnv \<Rightarrow> gotime \<Rightarrow> CooldownStateRecord list \<Rightarrow> manager \<Rightarrow> manager \<times> (string, Auth) gomap" where
  "RestoreCooldownStates env now records m =
     fold (restoreStep env now)
       (filter (\<lambda>r. TrimSpace (recModel r) \<noteq> []) records @ filter (\<lambda>r. TrimSpace (recModel r) = []) records)
       (m, [])"

section \<open>Clearing\<close>

definition clearDisabledCooldownStates ::
  "'r cooldownEnv \<Rightarrow> coolingConfig option \<Rightarrow> gotime \<Rightarrow> manager \<Rightarrow> manager \<times> Auth list" where
  "clearDisabledCooldownStates env cfg now m =
     (let clear = (\<lambda>a. if \<not> quotaCooldownDisabledForAuthWithConfig env a cfg \<and> \<not> Disabled a
                         \<and> Status a \<noteq> StatusDisabled
                       then (a, False) else clearCooldownStateForAuth now a)
      in (m\<lparr>mAuths := map (\<lambda>(i, auth). (i, map_option (fst \<circ> clear) auth)) (mAuths m)\<rparr>,
          List.map_filter (\<lambda>(i, auth). case auth of
             None \<Rightarrow> None | Some a \<Rightarrow> if snd (clear a) then Some (fst (clear a)) else None) (mAuths m)))"

fun dedupeLoop :: "string list \<Rightarrow> string list \<Rightarrow> string list" where
  "dedupeLoop seen [] = []"
| "dedupeLoop seen (v # vs) =
     (let v = TrimSpace v
      in if v = [] \<or> v \<in> set seen then dedupeLoop seen vs else v # dedupeLoop (v # seen) vs)"

definition dedupeStrings :: "string list \<Rightarrow> string list" where
  "dedupeStrings values = (if length values < 2 then values else dedupeLoop [] values)"

text \<open>\<open>registered\<close>: the identifiers of the models the registry holds for the client.\<close>

definition modelsForRegisteredAuth :: "string list \<Rightarrow> string list" where
  "modelsForRegisteredAuth registered =
     map canonicalModelKey (filter (\<lambda>i. TrimSpace i \<noteq> []) registered)"

definition resetStates :: "gotime \<Rightarrow> Auth \<Rightarrow> Auth" where
  "resetStates now a =
     a\<lparr>ModelStates := map (\<lambda>(key, state).
        (key, if TrimSpace key = [] then state else map_option (resetModelState now) state)) (ModelStates a)\<rparr>"

definition resetAuth :: "gotime \<Rightarrow> string list \<Rightarrow> Auth \<Rightarrow> Auth \<times> string list" where
  "resetAuth now registered a =
     (let models = filter (\<lambda>k. TrimSpace k \<noteq> []) (map fst (ModelStates a));
          a = resetStates now a;
          a = (case clearCooldownStateForAuth now a of
                 (a, changed) \<Rightarrow>
                   if changed then a
                   else if ModelStates a \<noteq> [] then updateAggregatedAvailability now a else a);
          models = dedupeStrings (if models = [] then modelsForRegisteredAuth registered else models);
          a = (if \<not> Disabled a \<and> Status a \<noteq> StatusDisabled \<and> \<not> hasModelError a now
                  \<and> \<not> hasUnauthorizedAuthFailure (Some a)
               then a\<lparr>LastError := None, StatusMessage := [], Status := StatusActive\<rparr> else a)
      in (a\<lparr>Generation := wrapU64 (Generation a + 1), UpdatedAt := now\<rparr>, models))"

text \<open>
  The result is the error text, or the snapshot with the models, or nothing for an unknown
  credential.  \<open>persistErr\<close> is what storing the credential returned: the credential is reset even then.
\<close>

definition ResetQuota ::
  "gotime \<Rightarrow> string list \<Rightarrow> string option \<Rightarrow> string \<Rightarrow> manager \<Rightarrow> manager \<times> (string + (Auth \<times> string list) option)" where
  "ResetQuota now registered persistErr authID m =
     (let authID = TrimSpace authID
      in if authID = [] then (m, Inl ''auth id is required'')
         else
           (case map_of (mAuths m) authID of
              Some (Some a) \<Rightarrow>
                (let (a, models) = resetAuth now registered a;
                     m = m\<lparr>mAuths := AList.update authID (Some a) (mAuths m)\<rparr>
                 in case persistErr of
                      Some err \<Rightarrow> (m, Inl err)
                    | None \<Rightarrow> (m, Inr (Some (a, models))))
            | _ \<Rightarrow> (m, Inr None)))"

end
