(* ===== verification/CooldownRestart.thy ===== *)
theory CooldownRestart
  imports CooldownStore ResultCooling "HOL-Library.Multiset"
begin

text \<open>
  What survives a restart.  The interface \<open>CooldownStateStore\<close> is a locale: loading what was saved
  returns the decoded records in some order.  The restoration treats every credential on its own,
  and for a freshly loaded credential its outcome does not depend on the order of the records.
\<close>

section \<open>Stores\<close>

locale cooldown_store =
  fixes save :: "CooldownStateRecord list \<Rightarrow> 'f \<Rightarrow> 'f option"
    and load :: "'f \<Rightarrow> CooldownStateRecord list"
  assumes load_saved: "save rs f = Some f' \<Longrightarrow>
    mset (load f') = image_mset decoded (mset (filter (\<lambda>r. TrimSpace (recAuthID r) \<noteq> []) rs))"
begin

lemma loaded_for:
  assumes "save rs f = Some f'" and "i \<noteq> []"
  shows "mset (filter (\<lambda>r. TrimSpace (recAuthID r) = i) (load f')) =
    image_mset decoded (mset (filter (\<lambda>r. TrimSpace (recAuthID r) = i) rs))"
proof -
  have "filter_mset (\<lambda>r. TrimSpace (recAuthID r) = i) (image_mset decoded (mset (filter (\<lambda>r. TrimSpace (recAuthID r) \<noteq> []) rs)))
    = image_mset decoded (mset (filter (\<lambda>r. TrimSpace (recAuthID r) = i) rs))"
    using assms(2) by (simp add: filter_mset_image_mset decoded_def filter_filter_mset conj_ac cong: conj_cong)
  then show ?thesis using load_saved [OF assms(1)] by simp
qed

end

lemma mset_update_group:
  "distinct (map fst g) \<Longrightarrow>
   mset (concat (map snd (AList.update k ((case map_of g k of None \<Rightarrow> [] | Some xs \<Rightarrow> xs) @ [r]) g)))
   = add_mset r (mset (concat (map snd g)))"
  by (induction g) (auto dest: map_of_SomeD split: option.splits)

lemma groupByPath_mset:
  "groupByPath p rs g = Some g' \<Longrightarrow> distinct (map fst g) \<Longrightarrow>
   mset (concat (map snd g')) = mset (concat (map snd g)) + mset (filter (\<lambda>r. TrimSpace (recAuthID r) \<noteq> []) rs)"
proof (induction p rs g rule: groupByPath.induct)
  case (2 p r rs g)
  show ?case
  proof (cases "TrimSpace (recAuthID r) = []")
    case True
    with 2 show ?thesis by simp
  next
    case False
    with "2.prems" obtain path where p: "p r = Some path" by (auto split: option.splits)
    have "distinct (map fst (AList.update path ((case map_of g path of None \<Rightarrow> [] | Some xs \<Rightarrow> xs) @ [r]) g))"
      using "2.prems"(2) by (rule distinct_update)
    then show ?thesis
      using "2.IH"(2) [OF False p] "2.prems" False p mset_update_group [OF "2.prems"(2), of path r] by simp
  qed
qed simp

interpretation files: cooldown_store "Save statePath" Load for statePath
proof
  fix rs f f'
  assume "Save statePath rs f = Some f'"
  then obtain g where g: "groupByPath statePath rs [] = Some g"
    and f': "f' = map (\<lambda>(path, rs). (path, map decoded (sort_key recModel rs))) g"
    by (auto simp: Save_def split: option.splits)
  have "mset (Load f') = image_mset decoded (mset (concat (map snd g)))"
    unfolding f' Load_def by (induction g) auto
  then show "mset (Load f') = image_mset decoded (mset (filter (\<lambda>r. TrimSpace (recAuthID r) \<noteq> []) rs))"
    using groupByPath_mset [OF g] by simp
qed

section \<open>One credential at a time\<close>

definition restoreInto :: "'r cooldownEnv \<Rightarrow> gotime \<Rightarrow> CooldownStateRecord \<Rightarrow> Auth \<Rightarrow> Auth" where
  "restoreInto env now r a =
     (if IsZero (recNextRetryAfter r) \<or> \<not> After (recNextRetryAfter r) now \<or> Disabled a
         \<or> Status a = StatusDisabled \<or> cooldownDisabledForAuth env a \<or> hasUnauthorizedAuthFailure (Some a)
      then a
      else if TrimSpace (recModel r) = [] then restoreAuthRecord r now a else restoreModelRecord r now a)"

lemma restoreStep_lookup:
  "i \<noteq> [] \<Longrightarrow> map_of (mAuths (fst (restoreStep env now r st))) i =
     (if TrimSpace (recAuthID r) = i then map_option (map_option (restoreInto env now r)) (map_of (mAuths (fst st)) i)
      else map_of (mAuths (fst st)) i)"
  by (cases st) (auto simp: restoreStep_def restoreCooldownRecordLocked_def restoreInto_def Let_def update_conv'
      split: option.splits)

lemma restoreFold_lookup:
  "i \<noteq> [] \<Longrightarrow> map_of (mAuths (fst (fold (restoreStep env now) rs st))) i =
     map_option (map_option (fold (restoreInto env now) (filter (\<lambda>r. TrimSpace (recAuthID r) = i) rs)))
       (map_of (mAuths (fst st)) i)"
  by (induction rs arbitrary: st) (simp_all add: restoreStep_lookup option.map_comp comp_def option.map_id0 [unfolded id_def]
      id_def)

lemma RestoreCooldownStates_lookup:
  assumes "i \<noteq> []"
  defines "mine \<equiv> filter (\<lambda>r. TrimSpace (recAuthID r) = i)"
  shows "map_of (mAuths (fst (RestoreCooldownStates env now rs m))) i =
     map_option (map_option (fold (restoreInto env now)
       (filter (\<lambda>r. TrimSpace (recModel r) \<noteq> []) (mine rs) @ filter (\<lambda>r. TrimSpace (recModel r) = []) (mine rs))))
       (map_of (mAuths m) i)"
  using assms(1) by (simp add: RestoreCooldownStates_def restoreFold_lookup mine_def filter_filter conj_ac option.map_comp
      comp_def)

section \<open>A freshly loaded credential\<close>

text \<open>A record is live when its deadline is still ahead; the state it leaves in a fresh credential.\<close>

definition liveRecord :: "gotime \<Rightarrow> CooldownStateRecord \<Rightarrow> bool" where
  "liveRecord now r \<longleftrightarrow> 0 < recNextRetryAfter r \<and> now < recNextRetryAfter r"

definition freshAuth :: "'r cooldownEnv \<Rightarrow> Auth \<Rightarrow> bool" where
  "freshAuth env b \<longleftrightarrow> ModelStates b = [] \<and> LastError b = None \<and> \<not> Unavailable b
     \<and> \<not> Exceeded (Quota b) \<and> Reason (Quota b) = [] \<and> \<not> Disabled b \<and> Status b \<noteq> StatusDisabled
     \<and> \<not> cooldownDisabledForAuth env b"

definition carries :: "CooldownStateRecord \<Rightarrow> ModelState \<Rightarrow> bool" where
  "carries r s \<longleftrightarrow> MStatus s = StatusError \<and> MUnavailable s \<and> MNextRetryAfter s = recNextRetryAfter r
     \<and> NextRecoverAt (MQuota s) = max 0 (NextRecoverAt (restoredQuota r))"

lemma carries_blocks:
  "carries r s \<Longrightarrow> 0 < recNextRetryAfter r \<Longrightarrow> 0 \<le> u \<Longrightarrow>
   state_blocks u s \<longleftrightarrow> u < recNextRetryAfter r \<or> u < NextRecoverAt (recQuota r)"
  by (auto simp: carries_def state_blocks_def stateBlock_def availabilityBlock_blocked restoredQuota_def
      Let_def max_def status_defs split: if_splits)

lemma rewrap_frame [simp]:
  "MStatus (rewrap r l s) = MStatus s" "MUnavailable (rewrap r l s) = MUnavailable s"
  "MNextRetryAfter (rewrap r l s) = MNextRetryAfter s" "MQuota (rewrap r l s) = MQuota s"
  by (simp_all add: rewrap_def)

lemma restoreState_carries:
  assumes "\<not> credentialQuotaActive a now" and "liveRecord now r"
  shows "carries r (restoreState r now a (emptyModelState\<lparr>MStatus := StatusActive\<rparr>))"
proof -
  let ?e = "emptyModelState\<lparr>MStatus := StatusActive\<rparr>"
  obtain m where m: "mergeModelState (Some ?e) (Some (recordState r now)) = Some m"
    by (simp add: mergeModelState_def Let_def)
  note f = mergeModelState_fields [OF m]
  have "MStatus m = StatusError"
    using m by (auto simp: mergeModelState_def Let_def recordState_def emptyModelState_def status_defs)
  moreover obtain p g where "MQuota m = mergedQuota ?e (recordState r now) p g" using f(3) by blast
  ultimately have "carries r m"
    using f(1,2) assms(2)
    by (simp add: carries_def mergedQuota_simps recordState_def emptyModelState_def emptyQuota_def liveRecord_def)
  moreover have "\<not> (credentialQuotaPropagated ?e \<or> Reason (MQuota ?e) = ''credential_quota'' \<or> credentialQuotaActive a now)"
    using assms(1) by (simp add: emptyModelState_def emptyQuota_def)
  ultimately show ?thesis
    by (simp add: restoreState_def Let_def m) (simp add: carries_def)
qed

lemma updateAggregated_tokens [simp]:
  "RejectedAccessToken (updateAggregatedAvailability now a) = RejectedAccessToken a"
  "RejectedSIWCAccessToken (updateAggregatedAvailability now a) = RejectedSIWCAccessToken a"
  by (auto simp: updateAggregatedAvailability_def clearAggregatedAvailability_def Let_def)

lemma updateAggregated_reason:
  "Reason (Quota a) \<noteq> ''credential_quota'' \<Longrightarrow>
   Reason (Quota (updateAggregatedAvailability now a)) \<noteq> ''credential_quota''"
  by (auto simp: updateAggregatedAvailability_def clearAggregatedAvailability_def aggregateQuota_def
      applyCooldownFields_def Let_def)

lemma cooldownDisabled_cong:
  "Attributes a = Attributes b \<Longrightarrow> Metadata a = Metadata b \<Longrightarrow> Provider a = Provider b \<Longrightarrow>
   cooldownDisabledForAuth env a = cooldownDisabledForAuth env b"
  by (simp add: cooldownDisabledForAuth_def quotaCooldownDisabledForAuthWithConfig_def
      DisableCoolingOverride_def providerCoolingOverrideForAuth_def Let_def cong: option.case_cong)

definition sameCredential :: "Auth \<Rightarrow> Auth \<Rightarrow> bool" where
  "sameCredential b x \<longleftrightarrow> Disabled x = Disabled b \<and> Metadata x = Metadata b \<and> Attributes x = Attributes b
     \<and> Provider x = Provider b \<and> RejectedAccessToken x = RejectedAccessToken b
     \<and> RejectedSIWCAccessToken x = RejectedSIWCAccessToken b"

text \<open>After the records \<open>rs\<close> of its models: exactly their states, nothing credential-wide.\<close>

definition restoredFrom :: "Auth \<Rightarrow> CooldownStateRecord list \<Rightarrow> Auth \<Rightarrow> bool" where
  "restoredFrom b rs x \<longleftrightarrow> sameCredential b x \<and> Status x = Status b \<and> LastError x = None \<and> keys_ok x
     \<and> Reason (Quota x) \<noteq> ''credential_quota'' \<and> (rs = [] \<longrightarrow> x = b)
     \<and> (\<forall>k. case map_of (ModelStates x) k of
          None \<Rightarrow> k \<notin> recModel ` set rs
        | Some v \<Rightarrow> \<exists>r s. r \<in> set rs \<and> recModel r = k \<and> v = Some s \<and> carries r s)"

lemma restoreInto_model:
  assumes x: "restoredFrom b rs x" and b: "freshAuth env b" and r: "liveRecord now r"
    and k: "recModel r \<noteq> []" "canonicalModelKey (recModel r) = recModel r" "recModel r \<notin> recModel ` set rs"
    and old: "\<forall>r \<in> set rs. liveRecord now r"
  shows "restoredFrom b (rs @ [r]) (restoreInto env now r x)"
proof -
  let ?k = "recModel r" and ?e = "emptyModelState\<lparr>MStatus := StatusActive\<rparr>"
  have t: "TrimSpace ?k = ?k" using canonicalModelKey_trimmed [of ?k] k(2) by simp
  have fr: "sameCredential b x" "Status x = Status b" "LastError x = None" "keys_ok x"
    "Reason (Quota x) \<noteq> ''credential_quota''" and m: "\<And>k. case map_of (ModelStates x) k of
          None \<Rightarrow> k \<notin> recModel ` set rs
        | Some v \<Rightarrow> \<exists>r s. r \<in> set rs \<and> recModel r = k \<and> v = Some s \<and> carries r s"
    using x by (auto simp: restoredFrom_def)
  have "map_of (ModelStates x) ?k = None" using m [of ?k] k(3) by (auto split: option.splits) (metis imageI)
  then have e: "ensureModelState x ?k = Some (putState ?k ?e x, ?k)"
    using ensureModelState_canonical [OF fr(4), of ?k] k by simp
  have "\<not> hasUnauthorizedAuthFailure (Some x)" using fr(3) by (simp add: hasUnauthorizedAuthFailure_def)
  moreover have "\<not> cooldownDisabledForAuth env x" "\<not> Disabled x" "Status x \<noteq> StatusDisabled"
    using cooldownDisabled_cong [of x b env] b fr(1,2) by (auto simp: freshAuth_def sameCredential_def)
  ultimately have go: "restoreInto env now r x = restoreModelRecord r now x"
    using r t k(1) by (simp add: restoreInto_def liveRecord_def)
  let ?p = "putState ?k ?e x"
  let ?s = "restoreState r now ?p ?e"
  let ?y = "(putState ?k ?s ?p)\<lparr>Generation := wrapU64 (Generation x + 1), UpdatedAt := restoredAt r now\<rparr>"
  have sp: "stateAt ?p ?k = ?e" by (rule stateAt_Some) (simp add: putState_lookup)
  have y: "restoreInto env now r x = updateAggregatedAvailability now ?y"
    unfolding go by (simp add: restoreModelRecord_def t e Let_def sp) (simp add: putState_def)
  have q: "Quota ?p = Quota x" "Quota ?y = Quota x" by (simp_all add: putState_def)
  have c: "carries r ?s"
    by (rule restoreState_carries [OF _ r]) (use fr(5) in \<open>simp add: credentialQuotaActive_def putState_def\<close>)
  have my: "map_of (ModelStates ?y) j = (if j = ?k then Some (Some ?s) else map_of (ModelStates x) j)" for j
    by (simp add: putState_lookup)
  have cy: "case map_of (ModelStates ?y) j of
          None \<Rightarrow> j \<notin> recModel ` set (rs @ [r])
        | Some v \<Rightarrow> \<exists>r' s. r' \<in> set (rs @ [r]) \<and> recModel r' = j \<and> v = Some s \<and> carries r' s" for j
    using m [of j] c unfolding my by (auto split: option.splits)
  have live: "\<forall>r' \<in> set (rs @ [r]). now < recNextRetryAfter r'" using old r by (auto simp: liveRecord_def)
  have "map_option (map_option (expireState now)) (map_of (ModelStates ?y) j) = map_of (ModelStates ?y) j" for j
    using cy [of j] live by (auto simp: carries_def split: option.splits)
  then have "map_of (ModelStates (updateAggregatedAvailability now ?y)) j = map_of (ModelStates ?y) j" for j
    using updateAggregated_lookup [of now ?y j] by auto
  moreover have "keys_ok ?y"
    using keys_ok_putState [OF keys_ok_putState [OF fr(4) k(1,2)] k(1,2)] by (simp add: keys_ok_def)
  moreover have "sameCredential b ?y" "Status ?y = Status b" "LastError ?y = None"
    using fr(1-3) by (simp_all add: sameCredential_def putState_def)
  ultimately show ?thesis
    unfolding y restoredFrom_def using updateAggregated_reason [of ?y now] fr(5) q(2) cy
    by (simp add: sameCredential_def)
qed

lemma restore_models:
  assumes "freshAuth env b" and "distinct (map recModel rs)"
    and "\<forall>r \<in> set rs. liveRecord now r \<and> recModel r \<noteq> [] \<and> canonicalModelKey (recModel r) = recModel r"
  shows "restoredFrom b rs (fold (restoreInto env now) rs b)"
  using assms(2,3)
proof (induction rs rule: rev_induct)
  case Nil
  then show ?case using assms(1)
    by (simp add: restoredFrom_def freshAuth_def keys_ok_def sameCredential_def)
next
  case (snoc r rs)
  then have "restoredFrom b rs (fold (restoreInto env now) rs b)" by simp
  from restoreInto_model [OF this assms(1)] snoc.prems show ?case by auto
qed

lemma restoreInto_auth:
  assumes "restoredFrom b rs x" and "freshAuth env b" and "liveRecord now r" and "TrimSpace (recModel r) = []"
  shows "restoreInto env now r x = restoreAuthRecord r now x"
proof -
  have fr: "sameCredential b x" "Status x = Status b" "LastError x = None" using assms(1) by (auto simp: restoredFrom_def)
  have "\<not> hasUnauthorizedAuthFailure (Some x)" using fr(3) by (simp add: hasUnauthorizedAuthFailure_def)
  moreover have "\<not> cooldownDisabledForAuth env x" "\<not> Disabled x" "Status x \<noteq> StatusDisabled"
    using cooldownDisabled_cong [of x b env] assms(2) fr(1,2) by (auto simp: freshAuth_def sameCredential_def)
  ultimately show ?thesis using assms(3,4) by (simp add: restoreInto_def liveRecord_def)
qed

lemma restored_lookup:
  assumes "restoredFrom b rs x"
  shows "map_of (ModelStates x) k = Some (Some s) \<Longrightarrow> \<exists>r \<in> set rs. recModel r = k \<and> carries r s"
    and "r \<in> set rs \<Longrightarrow> \<exists>r' s. r' \<in> set rs \<and> recModel r' = recModel r \<and> carries r' s
          \<and> map_of (ModelStates x) (recModel r) = Some (Some s)"
proof -
  have m: "\<And>k. case map_of (ModelStates x) k of
          None \<Rightarrow> k \<notin> recModel ` set rs
        | Some v \<Rightarrow> \<exists>r s. r \<in> set rs \<and> recModel r = k \<and> v = Some s \<and> carries r s"
    using assms by (simp add: restoredFrom_def)
  show "map_of (ModelStates x) k = Some (Some s) \<Longrightarrow> \<exists>r \<in> set rs. recModel r = k \<and> carries r s"
    using m [of k] by auto
  show "r \<in> set rs \<Longrightarrow> \<exists>r' s. r' \<in> set rs \<and> recModel r' = recModel r \<and> carries r' s
          \<and> map_of (ModelStates x) (recModel r) = Some (Some s)"
    using m [of "recModel r"] by (auto split: option.splits)
qed

definition withAuthRecord :: "gotime \<Rightarrow> CooldownStateRecord option \<Rightarrow> Auth \<Rightarrow> Auth" where
  "withAuthRecord now ao x = (case ao of None \<Rightarrow> x | Some r \<Rightarrow> restoreAuthRecord r now x)"

lemma restoreAuthRecord_fields:
  "ModelStates (restoreAuthRecord r now x) = ModelStates x" "Disabled (restoreAuthRecord r now x) = Disabled x"
  "Status (restoreAuthRecord r now x) = StatusError" "Unavailable (restoreAuthRecord r now x)"
  "NextRetryAfter (restoreAuthRecord r now x) = recNextRetryAfter r"
  "Exceeded (Quota (restoreAuthRecord r now x)) = Exceeded (recQuota r)"
  "Reason (Quota (restoreAuthRecord r now x)) = Reason (recQuota r)"
  "NextRecoverAt (Quota (restoreAuthRecord r now x)) = NextRecoverAt (restoredQuota r)"
  "Metadata (restoreAuthRecord r now x) = Metadata x" "Attributes (restoreAuthRecord r now x) = Attributes x"
  "Provider (restoreAuthRecord r now x) = Provider x"
  "RejectedAccessToken (restoreAuthRecord r now x) = RejectedAccessToken x"
  "RejectedSIWCAccessToken (restoreAuthRecord r now x) = RejectedSIWCAccessToken x"
  by (auto simp: restoreAuthRecord_def Let_def mergeQuotaObservation_def restoredQuota_def)

text \<open>Which models a restored credential may not serve, from the records alone.\<close>

lemma restored_blocked:
  assumes x: "restoredFrom b rs x" and b: "freshAuth env b" and tok: "readsTokens accessExp" "\<not> tokenExpired accessExp b u"
    and live: "\<forall>r \<in> set rs. liveRecord now r" "\<And>r. ao = Some r \<Longrightarrow> liveRecord now r"
    and "0 \<le> u" and "model \<noteq> []" and d: "distinct (map recModel rs)"
  shows "blocked (isAuthBlockedForModel accessExp (Some (withAuthRecord now ao x)) model u) \<longleftrightarrow>
     (\<exists>r. ao = Some r \<and> Exceeded (recQuota r) \<and> Reason (recQuota r) = ''credential_quota''
        \<and> u < NextRecoverAt (restoredQuota r))
     \<or> (if rs = [] then \<exists>r. ao = Some r \<and> (u < recNextRetryAfter r \<or> u < NextRecoverAt (recQuota r))
        else \<exists>r \<in> set rs. recModel r = canonicalModelKey model
               \<and> (u < recNextRetryAfter r \<or> u < NextRecoverAt (recQuota r)))"
proof -
  let ?y = "withAuthRecord now ao x"
  have fr: "sameCredential b x" "Status x = Status b" "LastError x = None" "keys_ok x"
    "Reason (Quota x) \<noteq> ''credential_quota''" "rs = [] \<Longrightarrow> x = b" using x by (auto simp: restoredFrom_def)
  have y: "ModelStates ?y = ModelStates x" "\<not> Disabled ?y" "Status ?y \<noteq> StatusDisabled"
    using fr(1,2) b by (auto simp: withAuthRecord_def restoreAuthRecord_fields sameCredential_def freshAuth_def
        status_defs split: option.splits)
  have "\<not> hasUnauthorizedAuthFailure (Some ?y)"
    using fr(3) live(2) by (auto simp: withAuthRecord_def hasUnauthorizedAuthFailure_def restoreAuthRecord_fields
        liveRecord_def split: option.splits)
  moreover have "sameCredential b ?y"
    using fr(1) by (auto simp: sameCredential_def withAuthRecord_def restoreAuthRecord_fields split: option.splits)
  then have "accessExp ?y = accessExp b" using tok(1) unfolding readsTokens_def sameCredential_def by blast
  then have "\<not> tokenExpired accessExp ?y u" using tok(2) by (simp add: tokenExpired_def)
  ultimately have v: "blocked (isAuthBlockedForModel accessExp (Some ?y) model u) \<longleftrightarrow>
      credentialQuotaActive ?y u \<or> blocked (modelBlock ?y model u)"
    using y by (simp add: isAuthBlockedForModel_Some)
  have cq: "credentialQuotaActive ?y u \<longleftrightarrow> (\<exists>r. ao = Some r \<and> Exceeded (recQuota r)
      \<and> Reason (recQuota r) = ''credential_quota'' \<and> u < NextRecoverAt (restoredQuota r))"
    using fr(5) by (auto simp: credentialQuotaActive_def withAuthRecord_def restoreAuthRecord_fields split: option.splits)
  have "blocked (modelBlock ?y model u) \<longleftrightarrow> (if rs = [] then
        \<exists>r. ao = Some r \<and> (u < recNextRetryAfter r \<or> u < NextRecoverAt (recQuota r))
      else \<exists>r \<in> set rs. recModel r = canonicalModelKey model
             \<and> (u < recNextRetryAfter r \<or> u < NextRecoverAt (recQuota r)))"
  proof (cases "rs = []")
    case True
    have "ModelStates b = []" "\<not> Unavailable b" "\<not> Exceeded (Quota b)" using b by (auto simp: freshAuth_def)
    with True fr(6) live(2) assms(7) show ?thesis
      by (cases ao) (auto simp: modelBlock_def withAuthRecord_def restoreAuthRecord_fields availabilityBlock_blocked
          liveRecord_def restoredQuota_def Let_def split: if_splits)
  next
    case False
    let ?k = "canonicalModelKey model"
    from False obtain r where "r \<in> set rs" by (cases rs) auto
    then have "ModelStates ?y \<noteq> []" using restored_lookup(2) [OF x] y(1) by fastforce
    then have "blocked (modelBlock ?y model u) \<longleftrightarrow> (\<exists>s. map_of (ModelStates x) ?k = Some (Some s) \<and> state_blocks u s)"
      using assms(8) y(1) matching_canonical [OF fr(4)] by (auto simp: modelBlock_def stateLoop_blocked_iff)
    also have "\<dots> \<longleftrightarrow> (\<exists>r \<in> set rs. recModel r = ?k \<and> (u < recNextRetryAfter r \<or> u < NextRecoverAt (recQuota r)))"
    proof
      assume "\<exists>s. map_of (ModelStates x) ?k = Some (Some s) \<and> state_blocks u s"
      then obtain s where s: "map_of (ModelStates x) ?k = Some (Some s)" "state_blocks u s" by blast
      from restored_lookup(1) [OF x s(1)] obtain r where r: "r \<in> set rs" "recModel r = ?k" "carries r s" by blast
      with s(2) live(1) carries_blocks [OF r(3)] assms(7)
      show "\<exists>r \<in> set rs. recModel r = ?k \<and> (u < recNextRetryAfter r \<or> u < NextRecoverAt (recQuota r))"
        by (auto simp: liveRecord_def)
    next
      assume "\<exists>r \<in> set rs. recModel r = ?k \<and> (u < recNextRetryAfter r \<or> u < NextRecoverAt (recQuota r))"
      then obtain r where r: "r \<in> set rs" "recModel r = ?k" "u < recNextRetryAfter r \<or> u < NextRecoverAt (recQuota r)"
        by blast
      from restored_lookup(2) [OF x r(1)] obtain r' s where s: "r' \<in> set rs" "recModel r' = recModel r" "carries r' s"
        "map_of (ModelStates x) ?k = Some (Some s)" using r(2) by auto
      have "r' = r" using d s(1,2) r(1) by (auto simp: distinct_map dest: inj_onD)
      with s r(3) live(1) carries_blocks [OF s(3)] assms(7)
      show "\<exists>s. map_of (ModelStates x) ?k = Some (Some s) \<and> state_blocks u s"
        by (auto simp: liveRecord_def)
    qed
    finally show ?thesis using False by simp
  qed
  then show ?thesis unfolding v cq by blast
qed

end
