(* ===== verification/RestartProperties.thy ===== *)
theory RestartProperties
  imports CooldownRestart ResultProperties
begin

text \<open>
  Cooldowns across a restart and their manual reset: the records of a credential, what the store
  returns of them, and the verdicts before and after.
\<close>

section \<open>The records of one credential\<close>

definition pool_ok :: "manager \<Rightarrow> bool" where
  "pool_ok m \<longleftrightarrow> distinct (map fst (mAuths m))
     \<and> (\<forall>(k, auth) \<in> set (mAuths m). \<forall>a. auth = Some a \<longrightarrow> ID a = k \<and> TrimSpace k = k \<and> k \<noteq> [])"

definition modelRecords :: "Auth \<Rightarrow> gotime \<Rightarrow> CooldownStateRecord list" where
  "modelRecords a t = List.map_filter (\<lambda>(k, s). modelCooldownStateRecord a k s t) (ModelStates a)"

definition credentialRecords :: "Auth \<Rightarrow> gotime \<Rightarrow> CooldownStateRecord list" where
  "credentialRecords a t = (case authCooldownStateRecord a t of None \<Rightarrow> [] | Some r \<Rightarrow> [r])"

lemma mset_map_filter_Cons: "mset (List.map_filter f (x # xs)) =
   (case f x of None \<Rightarrow> {#} | Some y \<Rightarrow> {#y#}) + mset (List.map_filter f xs)"
  by (simp add: List.map_filter_simps split: option.splits)

lemma map_filter_comp_map: "List.map_filter (\<lambda>x. x) (map f xs) = List.map_filter f xs"
  by (simp add: List.map_filter_def filter_map comp_def)

lemma records_mset:
  assumes "ID a \<noteq> []" "\<not> Disabled a" "Status a \<noteq> StatusDisabled" "\<not> cooldownDisabledForAuth env a"
  shows "mset (cooldownStateRecordsForAuthLocked env (Some a) t) = mset (credentialRecords a t @ modelRecords a t)"
  using assms
  by (simp add: cooldownStateRecordsForAuthLocked_def credentialRecords_def modelRecords_def List.map_filter_simps
      map_filter_comp_map case_prod_unfold split: option.splits)

lemma credentialRecords_shape: "r \<in> set (credentialRecords a t) \<Longrightarrow> recModel r = [] \<and> recAuthID r = ID a"
  by (auto simp: credentialRecords_def authCooldownStateRecord_def split: option.splits if_splits)

lemma modelRecords_mem:
  "r \<in> set (modelRecords a t) \<longleftrightarrow>
     (\<exists>k s. (k, Some s) \<in> set (ModelStates a) \<and> modelCooldownStateRecord a k (Some s) t = Some r)"
  by (force simp: modelRecords_def List.map_filter_def modelCooldownStateRecord_def Let_def
      split: option.splits if_splits)

lemma modelRecord_fields:
  assumes "modelCooldownStateRecord a k (Some s) t = Some r"
  shows "recModel r = TrimSpace k" "TrimSpace k \<noteq> []" "recAuthID r = ID a" "MUnavailable s"
    "recNextRetryAfter r = MNextRetryAfter s" "t < MNextRetryAfter s" "MNextRetryAfter s \<noteq> 0"
    "NextRecoverAt (recQuota r) = NextRecoverAt (MQuota s)"
  using assms by (auto simp: modelCooldownStateRecord_def cooldownFieldsOf_def Let_def split: if_splits)

lemma modelRecord_some:
  "MUnavailable s \<Longrightarrow> t < MNextRetryAfter s \<Longrightarrow> MNextRetryAfter s \<noteq> 0 \<Longrightarrow> TrimSpace k \<noteq> [] \<Longrightarrow>
   \<exists>r. modelCooldownStateRecord a k (Some s) t = Some r"
  by (simp add: modelCooldownStateRecord_def Let_def)

lemma record_owner:
  "r \<in> set (cooldownStateRecordsForAuthLocked env (Some a) t) \<Longrightarrow> recAuthID r = ID a"
  using mset_eq_setD [OF records_mset, of a env t] credentialRecords_shape [of r a t]
  by (cases "ID a = [] \<or> Disabled a \<or> Status a = StatusDisabled \<or> cooldownDisabledForAuth env a")
    (auto simp: cooldownStateRecordsForAuthLocked_def modelRecords_mem dest: modelRecord_fields)

lemma filter_owner:
  assumes "TrimSpace (ID a) = ID a"
  shows "filter (\<lambda>r. TrimSpace (recAuthID r) = i) (cooldownStateRecordsForAuthLocked env (Some a) t) =
    (if ID a = i then cooldownStateRecordsForAuthLocked env (Some a) t else [])"
  using record_owner [of _ env a t] assms by (auto intro!: filter_True filter_False)

lemma snapshot_for:
  assumes "pool_ok m" and "map_of (mAuths m) i = Some (Some a)"
  shows "mset (filter (\<lambda>r. TrimSpace (recAuthID r) = i) (cooldownStateRecordsSnapshot env t m)) =
    mset (cooldownStateRecordsForAuthLocked env (Some a) t)"
proof -
  let ?R = "\<lambda>auth. cooldownStateRecordsForAuthLocked env auth t"
  let ?F = "filter (\<lambda>r. TrimSpace (recAuthID r) = i)"
  have other: "?F (?R v) = []" if "k \<noteq> i" "\<forall>a. v = Some a \<longrightarrow> ID a = k \<and> TrimSpace k = k \<and> k \<noteq> []" for k v
    using that filter_owner [of "the v" i env t]
    by (cases v) (auto simp: cooldownStateRecordsForAuthLocked_def [of env None])
  have "map_of ss i = Some (Some a) \<longrightarrow> mset (?F (concat (map (\<lambda>(_, auth). ?R auth) ss))) = mset (?R (Some a))"
    if "distinct (map fst ss)" "\<forall>(k, auth) \<in> set ss. \<forall>a. auth = Some a \<longrightarrow> ID a = k \<and> TrimSpace k = k \<and> k \<noteq> []" for ss
    using that
  proof (induction ss)
    case (Cons kv ss)
    obtain k v where kv: "kv = (k, v)" by force
    have rest: "mset (?F (concat (map (\<lambda>(_, auth). ?R auth) ss))) = {#}" if "i \<notin> fst ` set ss"
    proof -
      have "?F (?R (snd x)) = []" if "x \<in> set ss" for x
        by (rule other [of "fst x"]) (use that \<open>i \<notin> fst ` set ss\<close> Cons.prems(2) in auto)
      then show ?thesis by (simp add: filter_concat case_prod_unfold)
    qed
    show ?case
    proof (cases "k = i")
      case True
      with Cons.prems rest filter_owner [of a i env t] show ?thesis by (auto simp: kv)
    next
      case False
      with Cons other [of k v] show ?thesis by (simp add: kv)
    qed
  qed simp
  then show ?thesis
    using assms by (simp add: pool_ok_def cooldownStateRecordsSnapshot_def)
qed

section \<open>The records that come back\<close>

lemma decoded_simps [simp]:
  "recModel (decoded r) = recModel r" "recAuthID (decoded r) = recAuthID r" "recQuota (decoded r) = recQuota r"
  "recNextRetryAfter (decoded r) = recNextRetryAfter r" "restoredQuota (decoded r) = restoredQuota r"
  by (simp_all add: decoded_def restoredQuota_def Let_def)

lemma liveRecord_decoded [simp]: "liveRecord t (decoded r) = liveRecord t r"
  by (simp add: liveRecord_def)

lemma restoreInto_dead: "0 \<le> now \<Longrightarrow> \<not> liveRecord now r \<Longrightarrow> restoreInto env now r x = x"
  by (auto simp: restoreInto_def liveRecord_def)

lemma restore_live: "0 \<le> now \<Longrightarrow>
   fold (restoreInto env now) rs x = fold (restoreInto env now) (filter (liveRecord now) rs) x"
  by (induction rs arbitrary: x) (auto simp: restoreInto_dead)

lemma keys_trimmed: "keys_ok a \<Longrightarrow> k \<in> fst ` set (ModelStates a) \<Longrightarrow> TrimSpace k = k \<and> k \<noteq> [] \<and> canonicalModelKey k = k"
  using canonicalModelKey_trimmed [of k] by (auto simp: keys_ok_def list_all_iff)

lemma modelRecords_models:
  assumes "keys_ok a" shows "distinct (map recModel (modelRecords a t))"
proof -
  have "distinct (map recModel (List.map_filter (\<lambda>(k, s). modelCooldownStateRecord a k s t) ss))
      \<and> recModel ` set (List.map_filter (\<lambda>(k, s). modelCooldownStateRecord a k s t) ss) \<subseteq> fst ` set ss"
    if "distinct (map fst ss)" "\<forall>k \<in> fst ` set ss. TrimSpace k = k" for ss
    using that
  proof (induction ss)
    case (Cons kv ss)
    then show ?case
      by (cases kv) (auto simp: List.map_filter_simps modelCooldownStateRecord_def Let_def image_iff
          split: option.splits if_splits)
  qed (simp add: List.map_filter_simps)
  moreover have "distinct (map fst (ModelStates a))" "\<forall>k \<in> fst ` set (ModelStates a). TrimSpace k = k"
    using assms keys_trimmed [OF assms] by (auto simp: keys_ok_def)
  ultimately show ?thesis unfolding modelRecords_def by blast
qed

lemma modelRecords_lookup:
  assumes "keys_ok a"
  shows "r \<in> set (modelRecords a t) \<Longrightarrow> \<exists>s. map_of (ModelStates a) (recModel r) = Some (Some s) \<and> MUnavailable s
      \<and> recNextRetryAfter r = MNextRetryAfter s \<and> NextRecoverAt (recQuota r) = NextRecoverAt (MQuota s)
      \<and> recModel r \<noteq> [] \<and> canonicalModelKey (recModel r) = recModel r"
    and "map_of (ModelStates a) k = Some (Some s) \<Longrightarrow> MUnavailable s \<Longrightarrow> t < MNextRetryAfter s \<Longrightarrow>
      0 < MNextRetryAfter s \<Longrightarrow> \<exists>r \<in> set (modelRecords a t). recModel r = k
      \<and> recNextRetryAfter r = MNextRetryAfter s \<and> NextRecoverAt (recQuota r) = NextRecoverAt (MQuota s)"
proof -
  assume "r \<in> set (modelRecords a t)"
  then obtain k s where k: "(k, Some s) \<in> set (ModelStates a)" "modelCooldownStateRecord a k (Some s) t = Some r"
    by (auto simp: modelRecords_mem)
  have t: "TrimSpace k = k" "k \<noteq> []" "canonicalModelKey k = k" using keys_trimmed [OF assms, of k] k(1) by force+
  have "map_of (ModelStates a) k = Some (Some s)" using assms k(1) by (simp add: keys_ok_def)
  then show "\<exists>s. map_of (ModelStates a) (recModel r) = Some (Some s) \<and> MUnavailable s
      \<and> recNextRetryAfter r = MNextRetryAfter s \<and> NextRecoverAt (recQuota r) = NextRecoverAt (MQuota s)
      \<and> recModel r \<noteq> [] \<and> canonicalModelKey (recModel r) = recModel r"
    using modelRecord_fields [OF k(2)] t by simp
next
  assume k: "map_of (ModelStates a) k = Some (Some s)" and s: "MUnavailable s" "t < MNextRetryAfter s" "0 < MNextRetryAfter s"
  have m: "(k, Some s) \<in> set (ModelStates a)" using k by (rule map_of_SomeD)
  then have t: "TrimSpace k = k" "k \<noteq> []" using keys_trimmed [OF assms, of k] by force+
  then obtain r where r: "modelCooldownStateRecord a k (Some s) t = Some r"
    using modelRecord_some [of s t k a] s by auto
  then show "\<exists>r \<in> set (modelRecords a t). recModel r = k
      \<and> recNextRetryAfter r = MNextRetryAfter s \<and> NextRecoverAt (recQuota r) = NextRecoverAt (MQuota s)"
    using modelRecord_fields [OF r] m t by (force simp: modelRecords_mem)
qed

lemma mset_eq_short: "mset xs = mset ys \<Longrightarrow> length ys \<le> 1 \<Longrightarrow> xs = ys"
  by (cases ys) (auto simp: mset_single_iff)

text \<open>What a credential looks like after its records came back from a store in any order.\<close>

lemma restored_credential:
  assumes a: "keys_ok a" "ID a \<noteq> []" "\<not> Disabled a" "Status a \<noteq> StatusDisabled" "\<not> cooldownDisabledForAuth env a"
    and b: "freshAuth env' b" and "0 \<le> now"
    and rs: "mset rs = image_mset decoded (mset (cooldownStateRecordsForAuthLocked env (Some a) t))"
  defines "M \<equiv> filter (liveRecord now) (filter (\<lambda>r. TrimSpace (recModel r) \<noteq> []) rs)"
  shows "\<exists>x. restoredFrom b M x \<and> distinct (map recModel M)
    \<and> (\<forall>r. r \<in> set M \<longleftrightarrow> liveRecord now r \<and> r \<in> decoded ` set (modelRecords a t))
    \<and> fold (restoreInto env' now) (filter (\<lambda>r. TrimSpace (recModel r) \<noteq> []) rs @ filter (\<lambda>r. TrimSpace (recModel r) = []) rs) b
      = withAuthRecord now (List.find (liveRecord now) (map decoded (credentialRecords a t))) x"
proof -
  let ?N = "filter (\<lambda>r. TrimSpace (recModel r) \<noteq> []) rs" and ?A = "filter (\<lambda>r. TrimSpace (recModel r) = []) rs"
  let ?C = "map decoded (credentialRecords a t)"
  have m: "mset rs = mset (map decoded (credentialRecords a t @ modelRecords a t))"
    using rs records_mset [OF a(2-5)] by simp
  have ne: "TrimSpace (recModel r) \<noteq> []" if "r \<in> set (modelRecords a t)" for r
    using that modelRecord_fields(1,2) by (fastforce simp: modelRecords_mem)
  have N: "mset ?N = mset (map decoded (modelRecords a t))"
  proof -
    have "filter (\<lambda>r. TrimSpace (recModel r) \<noteq> []) (map decoded (credentialRecords a t @ modelRecords a t))
        = map decoded (modelRecords a t)"
      using ne credentialRecords_shape [of _ a t] by (auto simp: filter_map comp_def intro!: filter_True filter_False)
    then show ?thesis using arg_cong [OF m, of "filter_mset (\<lambda>r. TrimSpace (recModel r) \<noteq> [])"]
      by (metis mset_filter)
  qed
  have "mset ?A = mset ?C"
  proof -
    have "filter (\<lambda>r. TrimSpace (recModel r) = []) (map decoded (credentialRecords a t @ modelRecords a t)) = ?C"
      using ne credentialRecords_shape [of _ a t] by (auto simp: filter_map comp_def intro!: filter_True filter_False)
    then show ?thesis using arg_cong [OF m, of "filter_mset (\<lambda>r. TrimSpace (recModel r) = [])"]
      by (metis mset_filter)
  qed
  then have A: "?A = ?C"
    by (rule mset_eq_short) (simp add: credentialRecords_def split: option.splits)
  have "mset (map recModel ?N) = mset (map recModel (modelRecords a t))"
    using arg_cong [OF N, of "image_mset recModel"] by (simp add: image_mset.compositionality comp_def)
  then have "distinct (map recModel ?N)" using modelRecords_models [OF a(1)] mset_eq_imp_distinct_iff by blast
  then have d: "distinct (map recModel M)" unfolding M_def by (rule distinct_map_filter)
  have sN: "set ?N = decoded ` set (modelRecords a t)" using mset_eq_setD [OF N] by simp
  have ok: "\<forall>r \<in> set M. liveRecord now r \<and> recModel r \<noteq> [] \<and> canonicalModelKey (recModel r) = recModel r"
  proof
    fix r assume "r \<in> set M"
    then have "r \<in> set ?N" and live: "liveRecord now r" unfolding M_def by simp_all
    then obtain r' where r: "r = decoded r'" "r' \<in> set (modelRecords a t)" unfolding sN by blast
    with modelRecords_lookup(1) [OF a(1) r(2)] live
    show "liveRecord now r \<and> recModel r \<noteq> [] \<and> canonicalModelKey (recModel r) = recModel r" by auto
  qed
  have x: "restoredFrom b M (fold (restoreInto env' now) M b)" by (rule restore_models [OF b d ok])
  have "fold (restoreInto env' now) (?N @ ?A) b = fold (restoreInto env' now) (filter (liveRecord now) ?C)
      (fold (restoreInto env' now) M b)"
    using restore_live [OF assms(7), of env' ?C] restore_live [OF assms(7), of env' ?N] by (simp add: A M_def)
  also have "\<dots> = withAuthRecord now (List.find (liveRecord now) ?C) (fold (restoreInto env' now) M b)"
    using restoreInto_auth [OF x b] credentialRecords_shape [of _ a t]
    by (cases "authCooldownStateRecord a t") (auto simp: credentialRecords_def withAuthRecord_def)
  finally have "fold (restoreInto env' now) (?N @ ?A) b
      = withAuthRecord now (List.find (liveRecord now) ?C) (fold (restoreInto env' now) M b)" .
  moreover have "r \<in> set M \<longleftrightarrow> liveRecord now r \<and> r \<in> set ?N" for r by (auto simp: M_def)
  ultimately show ?thesis using x d unfolding sN by blast
qed

section \<open>Verdicts across a restart\<close>

text \<open>
  The shape in which recorded results leave a credential: what blocks a model has a retry time that
  covers the quota window, so has what blocks the credential, and when the credential is marked
  unavailable one of its models is cooling at least as long.
\<close>

definition savable :: "gotime \<Rightarrow> Auth \<Rightarrow> bool" where
  "savable t a \<longleftrightarrow> keys_ok a
     \<and> list_all (\<lambda>s. MStatus s \<noteq> StatusDisabled \<and> (state_blocks t s \<longrightarrow>
          MUnavailable s \<and> 0 < MNextRetryAfter s \<and> NextRecoverAt (MQuota s) \<le> MNextRetryAfter s)) (liveStates a)
     \<and> (Exceeded (Quota a) \<longrightarrow> NextRecoverAt (Quota a) \<noteq> 0)
     \<and> (credentialQuotaActive a t \<or> (ModelStates a = [] \<and> blocked (availabilityBlock (Unavailable a)
            (Exceeded (Quota a)) (NextRetryAfter a) (NextRecoverAt (Quota a)) t)) \<longrightarrow>
          Unavailable a \<and> 0 < NextRetryAfter a \<and> NextRecoverAt (Quota a) \<le> NextRetryAfter a)
     \<and> (ModelStates a \<noteq> [] \<and> Unavailable a \<and> t < NextRetryAfter a \<longrightarrow>
          list_ex (\<lambda>s. MUnavailable s \<and> NextRetryAfter a \<le> MNextRetryAfter s) (liveStates a))"

lemma found_credential_record:
  "List.find (liveRecord now) (map decoded (credentialRecords a t)) = Some r \<Longrightarrow>
     Unavailable a \<and> t < NextRetryAfter a \<and> liveRecord now r \<and> recNextRetryAfter r = NextRetryAfter a
     \<and> recQuota r = cooldownFieldsOf (Quota a)"
  "Unavailable a \<Longrightarrow> 0 \<le> t \<Longrightarrow> t \<le> now \<Longrightarrow> now < NextRetryAfter a \<Longrightarrow>
     \<exists>r. List.find (liveRecord now) (map decoded (credentialRecords a t)) = Some r"
  by (auto simp: credentialRecords_def authCooldownStateRecord_def liveRecord_def decoded_def split: if_splits option.splits)

lemma savable_blocks:
  assumes "savable t a" and "map_of (ModelStates a) k = Some (Some s)" and "0 \<le> t" and "t \<le> u" and "state_blocks u s"
  shows "MUnavailable s \<and> u < MNextRetryAfter s"
proof -
  have "s \<in> set (liveStates a)" using assms(2) by (force simp: set_liveStates dest: map_of_SomeD)
  then have s: "MStatus s \<noteq> StatusDisabled" "state_blocks t s \<Longrightarrow> MUnavailable s \<and> 0 < MNextRetryAfter s
      \<and> NextRecoverAt (MQuota s) \<le> MNextRetryAfter s"
    using assms(1) by (auto simp: savable_def list_all_iff)
  have "state_blocks t s"
    using assms(5) s(1) stateBlock_times(1) [OF assms(3,4), of s] by (auto simp: state_blocks_def)
  with s assms(3-5) show ?thesis by (auto simp: state_blocks_def stateBlock_def availabilityBlock_blocked)
qed

text \<open>The verdict below the credential-wide checks, from the records.\<close>

lemma record_of_state:
  assumes "keys_ok a" and "0 \<le> t" "t \<le> now"
    and M: "\<forall>r. r \<in> set M \<longleftrightarrow> liveRecord now r \<and> r \<in> decoded ` set (modelRecords a t)"
    and k: "map_of (ModelStates a) k = Some (Some s)" "MUnavailable s" "now < MNextRetryAfter s"
  shows "\<exists>r \<in> set M. recModel r = k \<and> recNextRetryAfter r = MNextRetryAfter s
    \<and> NextRecoverAt (recQuota r) = NextRecoverAt (MQuota s)"
proof -
  obtain r where "r \<in> set (modelRecords a t)" "recModel r = k" "recNextRetryAfter r = MNextRetryAfter s"
    "NextRecoverAt (recQuota r) = NextRecoverAt (MQuota s)"
    using modelRecords_lookup(2) [OF assms(1) k(1,2), of t] k(3) assms(2,3) by auto
  then show ?thesis using M k(3) assms(2,3) by (intro bexI [of _ "decoded r"]) (auto simp: liveRecord_def)
qed

lemma state_of_record:
  assumes "keys_ok a" and "\<forall>r. r \<in> set M \<longleftrightarrow> liveRecord now r \<and> r \<in> decoded ` set (modelRecords a t)" and "r \<in> set M"
  shows "\<exists>s. map_of (ModelStates a) (recModel r) = Some (Some s) \<and> MUnavailable s
    \<and> recNextRetryAfter r = MNextRetryAfter s \<and> NextRecoverAt (recQuota r) = NextRecoverAt (MQuota s)"
  using assms(2,3) modelRecords_lookup(1) [OF assms(1)] by force

lemma restart_without_states:
  assumes a: "savable t a" "ModelStates a = []" and t: "0 \<le> t" "t \<le> now" "now \<le> u"
  defines "ao \<equiv> List.find (liveRecord now) (map decoded (credentialRecords a t))"
  shows "blocked (modelBlock a model u) \<longleftrightarrow>
    (\<exists>r. ao = Some r \<and> (u < recNextRetryAfter r \<or> u < NextRecoverAt (recQuota r)))"
proof
  have u: "0 \<le> u" "t \<le> u" using t by auto
  have b: "blocked (modelBlock a model u) \<longleftrightarrow> blocked (availabilityBlock (Unavailable a) (Exceeded (Quota a))
      (NextRetryAfter a) (NextRecoverAt (Quota a)) u)" using a(2) by (simp add: modelBlock_def)
  note rec = found_credential_record(1) [of now a t, folded ao_def]
  {
    assume l: "blocked (modelBlock a model u)"
    then have "blocked (availabilityBlock (Unavailable a) (Exceeded (Quota a)) (NextRetryAfter a) (NextRecoverAt (Quota a)) t)"
      unfolding b using u t by (auto simp: availabilityBlock_blocked)
    then have n: "Unavailable a" "0 < NextRetryAfter a" "NextRecoverAt (Quota a) \<le> NextRetryAfter a"
      using a by (auto simp: savable_def)
    then have "u < NextRetryAfter a" using l u unfolding b by (auto simp: availabilityBlock_blocked)
    then obtain r where "ao = Some r" using found_credential_record(2) [OF n(1) t(1,2)] t(3) unfolding ao_def by auto
    with rec \<open>u < NextRetryAfter a\<close>
    show "\<exists>r. ao = Some r \<and> (u < recNextRetryAfter r \<or> u < NextRecoverAt (recQuota r))" by auto
  next
    assume "\<exists>r. ao = Some r \<and> (u < recNextRetryAfter r \<or> u < NextRecoverAt (recQuota r))"
    then show "blocked (modelBlock a model u)"
      unfolding b using u rec by (auto simp: availabilityBlock_blocked cooldownFieldsOf_def)
  }
qed

lemma restart_with_states:
  assumes a: "savable t a" "ModelStates a \<noteq> []" and t: "0 \<le> t" "t \<le> now" "now \<le> u" and "model \<noteq> []"
    and M: "\<forall>r. r \<in> set M \<longleftrightarrow> liveRecord now r \<and> r \<in> decoded ` set (modelRecords a t)"
  shows "blocked (modelBlock a model u) \<longleftrightarrow> (\<exists>r \<in> set M. recModel r = canonicalModelKey model
      \<and> (u < recNextRetryAfter r \<or> u < NextRecoverAt (recQuota r)))"
proof
  let ?k = "canonicalModelKey model"
  have u: "0 \<le> u" "t \<le> u" using t by auto
  have keys: "keys_ok a" using a(1) by (simp add: savable_def)
  have b: "blocked (modelBlock a model u) \<longleftrightarrow> (\<exists>s. map_of (ModelStates a) ?k = Some (Some s) \<and> state_blocks u s)"
    using assms(6) a(2) matching_canonical [OF keys] by (auto simp: modelBlock_def stateLoop_blocked_iff)
  {
    assume "blocked (modelBlock a model u)"
    then obtain s where s: "map_of (ModelStates a) ?k = Some (Some s)" "state_blocks u s" unfolding b by blast
    have "u < MNextRetryAfter s" "MUnavailable s" using savable_blocks [OF a(1) s(1) t(1) u(2) s(2)] by auto
    with record_of_state [OF keys t(1,2) M s(1)] t(3)
    show "\<exists>r \<in> set M. recModel r = ?k \<and> (u < recNextRetryAfter r \<or> u < NextRecoverAt (recQuota r))" by force
  next
    assume "\<exists>r \<in> set M. recModel r = ?k \<and> (u < recNextRetryAfter r \<or> u < NextRecoverAt (recQuota r))"
    then obtain r where r: "r \<in> set M" "recModel r = ?k" "u < recNextRetryAfter r \<or> u < NextRecoverAt (recQuota r)" by blast
    from state_of_record [OF keys M r(1)] obtain s where s: "map_of (ModelStates a) ?k = Some (Some s)" "MUnavailable s"
      "recNextRetryAfter r = MNextRetryAfter s" "NextRecoverAt (recQuota r) = NextRecoverAt (MQuota s)" using r(2) by auto
    then have "state_blocks u s" using r(3) u(1) by (auto simp: state_blocks_def stateBlock_def availabilityBlock_blocked)
    with s(1) show "blocked (modelBlock a model u)" unfolding b by blast
  }
qed

text \<open>A record of the whole credential comes with the record of a model.\<close>

lemma credential_record_alone:
  assumes a: "savable t a" "ModelStates a \<noteq> []" and t: "0 \<le> t" "t \<le> now"
    and M: "\<forall>r. r \<in> set M \<longleftrightarrow> liveRecord now r \<and> r \<in> decoded ` set (modelRecords a t)" and "M = []"
  shows "List.find (liveRecord now) (map decoded (credentialRecords a t)) = None"
proof (rule ccontr)
  assume "\<not> ?thesis"
  then obtain r where r: "List.find (liveRecord now) (map decoded (credentialRecords a t)) = Some r" by blast
  have keys: "keys_ok a" using a(1) by (simp add: savable_def)
  have n: "Unavailable a" "t < NextRetryAfter a" "now < NextRetryAfter a"
    using found_credential_record(1) [OF r] by (auto simp: liveRecord_def)
  then obtain s where s: "s \<in> set (liveStates a)" "MUnavailable s" "NextRetryAfter a \<le> MNextRetryAfter s"
    using a by (auto simp: savable_def list_ex_iff)
  then obtain k where "(k, Some s) \<in> set (ModelStates a)" by (force simp: set_liveStates)
  then have "map_of (ModelStates a) k = Some (Some s)" using keys by (simp add: keys_ok_def)
  from record_of_state [OF keys t M this s(2)] n(3) s(3) \<open>M = []\<close> show False by auto
qed

lemma restart_models:
  assumes a: "savable t a" and t: "0 \<le> t" "t \<le> now" "now \<le> u" and "model \<noteq> []"
    and M: "\<forall>r. r \<in> set M \<longleftrightarrow> liveRecord now r \<and> r \<in> decoded ` set (modelRecords a t)"
  defines "ao \<equiv> List.find (liveRecord now) (map decoded (credentialRecords a t))"
  shows "blocked (modelBlock a model u) \<longleftrightarrow> (if M = [] then
        \<exists>r. ao = Some r \<and> (u < recNextRetryAfter r \<or> u < NextRecoverAt (recQuota r))
      else \<exists>r \<in> set M. recModel r = canonicalModelKey model
             \<and> (u < recNextRetryAfter r \<or> u < NextRecoverAt (recQuota r)))"
proof (cases "ModelStates a = []")
  case True
  have "keys_ok a" using a by (simp add: savable_def)
  from state_of_record [OF this M] True have "M = []" by (cases M) auto
  then show ?thesis using restart_without_states [OF a True t, folded ao_def] by simp
next
  case False
  show ?thesis
    using restart_with_states [OF a False t assms(5) M] credential_record_alone [OF a False t(1,2) M, folded ao_def]
    by auto
qed

lemma restart_credential:
  assumes a: "savable t a" "\<not> Disabled a" "Status a \<noteq> StatusDisabled" "\<not> hasUnauthorizedAuthFailure (Some a)"
      "\<not> tokenExpired accessExp a u"
    and b: "freshAuth env b" "\<not> tokenExpired accessExp b u" "readsTokens accessExp"
    and "0 \<le> t" "t \<le> now" "now \<le> u" "model \<noteq> []"
    and x: "restoredFrom b M x" "distinct (map recModel M)"
      "\<forall>r. r \<in> set M \<longleftrightarrow> liveRecord now r \<and> r \<in> decoded ` set (modelRecords a t)"
  defines "ao \<equiv> List.find (liveRecord now) (map decoded (credentialRecords a t))"
  shows "blocked (isAuthBlockedForModel accessExp (Some (withAuthRecord now ao x)) model u) \<longleftrightarrow>
     blocked (isAuthBlockedForModel accessExp (Some a) model u)"
proof -
  let ?k = "canonicalModelKey model"
  have u: "0 \<le> u" "0 \<le> now" "t \<le> u" using assms by auto
  have keys: "keys_ok a" using a(1) by (simp add: savable_def)
  note rec = found_credential_record(1) [of now a t, folded ao_def]
  have live: "\<forall>r \<in> set M. liveRecord now r" "\<And>r. ao = Some r \<Longrightarrow> liveRecord now r" using x(3) rec by blast+
  have va: "blocked (isAuthBlockedForModel accessExp (Some a) model u) \<longleftrightarrow>
      credentialQuotaActive a u \<or> blocked (modelBlock a model u)"
    using a(2-5) by (simp add: isAuthBlockedForModel_Some)
  have cq: "credentialQuotaActive a u \<longleftrightarrow> (\<exists>r. ao = Some r \<and> Exceeded (recQuota r)
      \<and> Reason (recQuota r) = ''credential_quota'' \<and> u < NextRecoverAt (restoredQuota r))" (is "?L \<longleftrightarrow> ?R")
  proof
    assume l: ?L
    then have "credentialQuotaActive a t" using u by (auto simp: credentialQuotaActive_def)
    then have n: "Unavailable a" "NextRecoverAt (Quota a) \<le> NextRetryAfter a" using a(1) by (auto simp: savable_def)
    then have "now < NextRetryAfter a" using l assms(11) by (auto simp: credentialQuotaActive_def)
    then obtain r where r: "ao = Some r" using found_credential_record(2) n(1) assms(9,10) unfolding ao_def by blast
    from rec [OF r] l r u show ?R
      by (auto simp: credentialQuotaActive_def restoredQuota_def cooldownFieldsOf_def Let_def)
  next
    assume ?R
    then obtain r where r: "ao = Some r" "Exceeded (recQuota r)" "Reason (recQuota r) = ''credential_quota''"
      "u < NextRecoverAt (restoredQuota r)" by blast
    from rec [OF r(1)] r a(1) show ?L
      by (auto simp: credentialQuotaActive_def restoredQuota_def cooldownFieldsOf_def savable_def Let_def)
  qed
  have mb: "blocked (modelBlock a model u) \<longleftrightarrow> (if M = [] then
        \<exists>r. ao = Some r \<and> (u < recNextRetryAfter r \<or> u < NextRecoverAt (recQuota r))
      else \<exists>r \<in> set M. recModel r = ?k \<and> (u < recNextRetryAfter r \<or> u < NextRecoverAt (recQuota r)))"
    by (rule restart_models [OF a(1) assms(9-12) x(3), folded ao_def])
  show ?thesis
    unfolding va cq mb
    by (rule restored_blocked [OF x(1) b(1) b(3,2) live u(1) assms(12) x(2)])
qed


definition wFresh :: Auth where
  "wFresh = emptyAuth\<lparr>ID := ''a'', Status := StatusActive\<rparr>"

definition wPool :: "Auth \<Rightarrow> manager" where
  "wPool a = \<lparr>mAuths = [(''a'', Some a)], mExecutionSeq = 0, mResultPolicy = None\<rparr>"


section \<open>Manual reset\<close>

definition calm :: "ModelState \<Rightarrow> bool" where
  "calm s \<longleftrightarrow> MStatus s \<noteq> StatusDisabled \<and> \<not> MUnavailable s \<and> \<not> Exceeded (MQuota s)"

definition calmAuth :: "Auth \<Rightarrow> bool" where
  "calmAuth a \<longleftrightarrow> \<not> Unavailable a \<and> \<not> Exceeded (Quota a) \<and> (\<forall>s \<in> set (liveStates a). calm s)"

lemma calm_free: "calm s \<Longrightarrow> \<not> state_blocks u s \<and> \<not> stateUnavailable now s \<and> expireState now s = s"
  by (simp add: calm_def state_blocks_def stateBlock_def availabilityBlock_def notBlocked_def stateUnavailable_def
      expireState_def)

lemma liveStates_map: "liveStates (a\<lparr>ModelStates := map (map_prod id (map_option f)) ss\<rparr>) = map f (List.map_filter snd ss)"
  by (induction ss) (auto simp: liveStates_def List.map_filter_simps split: option.splits)

lemma calm_updateAggregated:
  assumes "calmAuth a"
  shows "calmAuth (updateAggregatedAvailability now a)"
proof -
  have u: "\<not> hasUnauthorizedAuthFailure (Some a)" "\<not> credentialQuotaActive a now"
    using assms by (auto simp: calmAuth_def hasUnauthorizedAuthFailure_def credentialQuotaActive_def split: option.splits)
  have st: "map (expireState now) (liveStates a) = liveStates a"
    using assms calm_free by (intro map_idI) (auto simp: calmAuth_def)
  then have live: "liveStates (a\<lparr>ModelStates := map (map_prod id (map_option (expireState now))) (ModelStates a)\<rparr>) = liveStates a"
    by (simp only: liveStates_map) (simp add: liveStates_def)
  show ?thesis
  proof (cases "liveStates a = []")
    case True
    then show ?thesis
      using u live by (auto simp: updateAggregatedAvailability_def aggregate_loop aggregates_def calmAuth_def
          clearAggregatedAvailability_def liveStates_def emptyAggregate_def Let_def)
  next
    case False
    have "\<not> allUnavailable (aggregates now (set (liveStates a)))" "\<not> quotaExceeded (aggregates now (set (liveStates a)))"
      using assms False calm_free by (auto simp: aggregates_def calmAuth_def calm_def neq_Nil_conv)
    then show ?thesis
      unfolding updateAggregated_eq [OF u False] using assms live
      by (auto simp: calmAuth_def aggregateQuota_def Let_def liveStates_def)
  qed
qed

lemma resetAuth_calm:
  assumes "\<not> hasUnauthorizedAuthFailure (Some a)" and "\<forall>k \<in> fst ` set (ModelStates a). TrimSpace k \<noteq> []"
  shows "calmAuth (fst (resetAuth now registered a))"
proof -
  have "resetStates now a = a\<lparr>ModelStates := map (map_prod id (map_option (resetModelState now))) (ModelStates a)\<rparr>"
    using assms(2) by (force simp: resetStates_def intro!: Auth.fold_congs map_cong)
  then have r: "liveStates (resetStates now a) = map (resetModelState now) (liveStates a)"
    by (simp only: liveStates_map) (simp add: liveStates_def)
  have calm: "\<forall>s \<in> set (liveStates (resetStates now a)). calm s"
    unfolding r by (auto simp: calm_def resetModelState_def status_defs)
  let ?r = "resetStates now a"
  have nu: "\<not> hasUnauthorizedAuthFailure (Some ?r)"
    using assms(1) by (simp add: hasUnauthorizedAuthFailure_def resetStates_def cong: option.case_cong)
  have "calmAuth (fst (clearCooldownStateForAuth now ?r))"
  proof -
    define own where "own = (Unavailable ?r \<or> \<not> IsZero (NextRetryAfter ?r) \<or> Exceeded (Quota ?r)
                    \<or> \<not> IsZero (NextRecoverAt (Quota ?r)))"
    define b where "b = (if own then ?r\<lparr>Unavailable := False, NextRetryAfter := 0,
                    Quota := applyCooldownFields False [] 0 0 (Quota ?r), UpdatedAt := now\<rparr> else ?r)"
    define c where "c = b\<lparr>ModelStates := map (map_prod id (map_option (clearStateCooldown now))) (ModelStates b)\<rparr>"
    have "liveStates c = map (clearStateCooldown now) (liveStates ?r)"
      unfolding c_def liveStates_map by (simp add: b_def liveStates_def)
    moreover have "calm (clearStateCooldown now s)" if "calm s" for s
      using that by (simp add: calm_def clearStateCooldown_def)
    ultimately have "calmAuth c" using calm by (auto simp: calmAuth_def c_def b_def own_def)
    define d where "d = (if ModelStates c \<noteq> [] then updateAggregatedAvailability now c else c)"
    have d: "calmAuth d" using \<open>calmAuth c\<close> calm_updateAggregated by (simp add: d_def)
    have "fst (clearCooldownStateForAuth now ?r) = d
        \<or> fst (clearCooldownStateForAuth now ?r) = d\<lparr>Generation := wrapU64 (Generation d + 1), UpdatedAt := now\<rparr>"
      unfolding d_def c_def b_def own_def using nu by (simp add: clearCooldownStateForAuth_def Let_def)
    with d show ?thesis by (auto simp: calmAuth_def liveStates_def)
  qed
  then have "calmAuth (case clearCooldownStateForAuth now ?r of
      (a, changed) \<Rightarrow> if changed then a else if ModelStates a \<noteq> [] then updateAggregatedAvailability now a else a)"
    using calm_updateAggregated by (auto split: prod.splits)
  then show ?thesis by (auto simp: resetAuth_def Let_def calmAuth_def liveStates_def split: prod.splits)
qed

lemma calm_verdict:
  assumes "calmAuth a" and "\<not> Disabled a" and "Status a \<noteq> StatusDisabled" and "\<not> tokenExpired accessExp a u"
  shows "\<not> blocked (isAuthBlockedForModel accessExp (Some a) model u)"
proof -
  have "set (matching k (ModelStates a)) \<subseteq> set (liveStates a)" for k
    by (force simp: matching_def set_liveStates)
  then have "\<not> (\<exists>s \<in> set (matching k (ModelStates a)). state_blocks u s)" for k
    using assms(1) calm_free by (fastforce simp: calmAuth_def)
  then have "\<not> blocked (stateLoop k u (ModelStates a) False notBlocked)" for k by (simp add: stateLoop_blocked_iff)
  moreover have "availabilityBlock (Unavailable a) (Exceeded (Quota a) \<and> x) ra rc u = notBlocked" for x ra rc
    using assms(1) by (simp add: calmAuth_def availabilityBlock_def)
  ultimately have "\<not> blocked (modelBlock a model u)" by (simp add: modelBlock_def) (simp add: notBlocked_def)
  moreover have "\<not> hasUnauthorizedAuthFailure (Some a)" "\<not> credentialQuotaActive a u"
    using assms(1) by (auto simp: calmAuth_def hasUnauthorizedAuthFailure_def credentialQuotaActive_def split: option.splits)
  ultimately show ?thesis using assms(2-4) by (simp add: isAuthBlockedForModel_Some)
qed

lemma clearCooldown_frame [simp]:
  "Disabled (fst (clearCooldownStateForAuth now a)) = Disabled a"
  "Status (fst (clearCooldownStateForAuth now a)) = Status a"
  by (simp_all add: clearCooldownStateForAuth_def Let_def)

lemma resetAuth_frame:
  "Disabled (fst (resetAuth now registered a)) = Disabled a"
  "Status a \<noteq> StatusDisabled \<Longrightarrow> Status (fst (resetAuth now registered a)) \<noteq> StatusDisabled"
proof -
  have r: "Disabled (resetStates now a) = Disabled a" "Status (resetStates now a) = Status a"
    by (simp_all add: resetStates_def)
  have c: "Disabled b = Disabled a \<and> Status b = Status a" if "clearCooldownStateForAuth now (resetStates now a) = (b, ch)" for b ch
    using clearCooldown_frame [of now "resetStates now a"] r that by simp
  show "Disabled (fst (resetAuth now registered a)) = Disabled a"
    "Status a \<noteq> StatusDisabled \<Longrightarrow> Status (fst (resetAuth now registered a)) \<noteq> StatusDisabled"
    using c by (auto simp: resetAuth_def Let_def status_defs split: prod.splits)
qed

text \<open>
  Claim C27. A manual reset frees the credential at once: for an enabled credential that has not lost
  its authorization, after \<open>ResetQuota\<close> no model is blocked at any time, short of the expiry of its
  token, even if storing the credential failed; and no other credential has changed.
\<close>

theorem reset_frees_credential:
  assumes "map_of (mAuths m) i = Some (Some a)" and "TrimSpace i = i" and "i \<noteq> []"
    and "\<not> Disabled a" and "Status a \<noteq> StatusDisabled" and "\<not> hasUnauthorizedAuthFailure (Some a)"
    and "\<forall>k \<in> fst ` set (ModelStates a). TrimSpace k \<noteq> []"
  shows "\<exists>a' models. map_of (mAuths (fst (ResetQuota now registered persistErr i m))) i = Some (Some a')
    \<and> snd (ResetQuota now registered persistErr i m) =
        (case persistErr of None \<Rightarrow> Inr (Some (a', models)) | Some err \<Rightarrow> Inl err)
    \<and> (\<forall>accessExp model u. \<not> tokenExpired accessExp a' u \<longrightarrow>
         \<not> blocked (isAuthBlockedForModel accessExp (Some a') model u))
    \<and> (\<forall>j. j \<noteq> i \<longrightarrow> map_of (mAuths (fst (ResetQuota now registered persistErr i m))) j = map_of (mAuths m) j)"
proof (intro exI conjI allI impI)
  let ?a = "fst (resetAuth now registered a)"
  show "map_of (mAuths (fst (ResetQuota now registered persistErr i m))) i = Some (Some ?a)"
    using assms(1-3) by (simp add: ResetQuota_def Let_def update_conv' split: prod.splits option.splits)
  show "snd (ResetQuota now registered persistErr i m) =
      (case persistErr of None \<Rightarrow> Inr (Some (?a, snd (resetAuth now registered a))) | Some err \<Rightarrow> Inl err)"
    using assms(1-3) by (simp add: ResetQuota_def Let_def split: prod.splits option.splits)
  show "\<not> blocked (isAuthBlockedForModel accessExp (Some ?a) model u)" if "\<not> tokenExpired accessExp ?a u" for accessExp model u
    using calm_verdict [OF resetAuth_calm [OF assms(6,7)] _ _ that] resetAuth_frame assms(4,5) by blast
  show "map_of (mAuths (fst (ResetQuota now registered persistErr i m))) j = map_of (mAuths m) j" if "j \<noteq> i" for j
    using assms(1-3) that by (simp add: ResetQuota_def Let_def update_conv' split: prod.splits option.splits)
qed

theorem reset_frees_credential_witness:
  "blocked (isAuthBlockedForModel (\<lambda>_. None) (Some wCooled) ''m'' 2000)
   \<and> (\<exists>a'. map_of (mAuths (fst (ResetQuota 2000 [] None ''a'' (wPool wCooled)))) ''a'' = Some (Some a')
        \<and> \<not> blocked (isAuthBlockedForModel (\<lambda>_. None) (Some a') ''m'' 2000))"
proof -
  have h: "map_of (mAuths (wPool wCooled)) ''a'' = Some (Some wCooled)" "TrimSpace ''a'' = ''a''" "''a'' \<noteq> []"
    "\<not> Disabled wCooled" "Status wCooled \<noteq> StatusDisabled" "\<not> hasUnauthorizedAuthFailure (Some wCooled)"
    "\<forall>k \<in> fst ` set (ModelStates wCooled). TrimSpace k \<noteq> []"
    and b: "blocked (isAuthBlockedForModel (\<lambda>_. None) (Some wCooled) ''m'' 2000)"
    by code_simp+
  obtain a' where "map_of (mAuths (fst (ResetQuota 2000 [] None ''a'' (wPool wCooled)))) ''a'' = Some (Some a')"
    "\<And>accessExp model u. \<not> tokenExpired accessExp a' u \<Longrightarrow> \<not> blocked (isAuthBlockedForModel accessExp (Some a') model u)"
    using reset_frees_credential [OF h, of 2000 "[]" None] by blast
  with b show ?thesis by (auto simp: tokenExpired_def)
qed

end
