(* ===== verification/Divergences.thy ===== *)
theory Divergences
  imports ThinkingValidate RestartProperties
begin

text \<open>
  Concrete inputs on which the code does something else than a comment beside it says.
\<close>

text \<open>
  The comment in \<open>ValidateConfig\<close> says that the level generated for automatic mode is clamped so
  that providers never receive an unsupported value.  \<open>clampLevel\<close> only moves to a level of the
  standard scale: for a model whose levels are all outside that scale the generated level stays.
\<close>

lemma auto_fallback_level_unsupported:
  "ValidateConfig \<lparr>Mode = ModeAuto, Budget = - 1, Level = []\<rparr>
     (Some \<lparr>MID = ''m'', MType = ''openai'', MThinking = Some \<lparr>TMin = 0, TMax = 0, ZeroAllowed = False,
        DynamicAllowed = False, Levels = [''deep'']\<rparr>, MUserDefined = False\<rparr>) ''openai'' ''openai'' False
   = Inr \<lparr>Mode = ModeLevel, Budget = 0, Level = ''medium''\<rparr> \<and> \<not> isLevelSupported ''medium'' [''deep'']"
  by code_simp

text \<open>
  The comments in \<open>applyAuthFailureState\<close> and \<open>MarkResult\<close> say that a later failure only extends a
  live cooldown and that only disabled cooling clears it.  A negative transient error setting
  clears it too: here a credential that is cooling after a rate limit is free right after a
  server error, although cooling is not disabled.
\<close>

lemma negative_setting_clears_live_cooldown:
  "\<not> cooldownDisabledForAuth (wCool\<lparr>transientErrorCooldownSeconds := - 1\<rparr>) wCooled
   \<and> After (NextRetryAfter wCooled) 2000
   \<and> NextRetryAfter (applyAuthFailureState (wCool\<lparr>transientErrorCooldownSeconds := - 1\<rparr>)
       (Some (wError 500)) None 2000 False wCooled) = 0"
  by code_simp

text \<open>
  A failure that names no model, on a credential with a healthy model state: the model stays
  available, but after a restart the record of the credential blocks it, because healthy states
  are not saved and the verdict of a credential without states reads the credential-wide fields.
\<close>

lemma credential_record_blocks_after_restart:
  "let a = wFresh\<lparr>Unavailable := True, Status := StatusError, NextRetryAfter := 5000,
             ModelStates := [(''m'', Some (emptyModelState\<lparr>MStatus := StatusActive\<rparr>))]\<rparr>
   in \<not> blocked (isAuthBlockedForModel (\<lambda>_. None) (Some a) ''m'' 2000)
      \<and> blocked (isAuthBlockedForModel (\<lambda>_. None)
            (Some (restoreAuthRecord (the (authCooldownStateRecord a 1000)) 1500 wFresh)) ''m'' 2000)"
  by code_simp

end
