(* ===== verification/MixedPicks.thy ===== *)
theory MixedPicks
  imports SchedulerProperties
begin

text \<open>
  Picks across several providers.  The shards are brought up to date first, so that readiness of an entry
  and availability of its credential coincide; each strategy then finds an entry of the best
  priority in one of the shards whenever there is one.
\<close>

section \<open>Freshly ensured shards\<close>

definition fresh :: "(Auth \<Rightarrow> gotime option) \<Rightarrow> gotime \<Rightarrow> modelScheduler \<Rightarrow> bool" where
  "fresh X now m \<longleftrightarrow> (\<forall>k e. map_of (entries m) k = Some e \<longrightarrow>
     (isReady e \<longleftrightarrow> \<not> blocked (check X (modelKey m) e now)))"

lemma ensured_fresh:
  assumes ok: "provider_ok X Q t p" and t: "0 \<le> t" "t \<le> now" and env: "accessExp env = X"
  shows "fresh X now (snd (ensureModelLocked env model now p))"
proof (cases "map_of (modelShards p) (canonicalModelKey model)")
  case (Some m)
  with ok have m: "indexed m" "judged_by X t m" by (auto simp: provider_ok_def shard_near_def)
  then have "fresh X now (promoteExpiredLocked X now m)"
    using promote_exact [OF m t(2)] promote_structure(3) [OF m(1)] by (simp add: fresh_def)
  with Some env show ?thesis by (simp add: ensureModelLocked_def Let_def)
next
  case None
  let ?key = "canonicalModelKey model"
  let ?m = "buildShard env ?key now (map snd (pAuths p))"
  have key: "modelKey ?m = ?key" using buildShard_ok [OF assms] by (simp add: shard_near_def)
  have "isReady e \<longleftrightarrow> \<not> blocked (check X ?key e now)" if "map_of (entries ?m) k = Some e" for k e
    using buildShard_entries(4) [OF that] judged_at_withVerdict [of X ?key now
        "\<lparr>smeta = smeta e, sstate = scheduledStateReady, nextRetryAt = 0\<rparr>"] env
    by (simp add: judged_at_def Let_def)
  then have "fresh X now ?m" unfolding fresh_def key by blast
  with None show ?thesis by (simp add: ensureModelLocked_def Let_def)
qed

lemma fresh_candidates:
  assumes "fresh X now m" and "indexed m"
  shows "smeta ` candidates m (P \<circ> smeta) = freeMetas X now P m"
proof (intro set_eqI iffI)
  have k: "keyed (entries m)" using assms(2) by (rule indexed_keyed)
  fix x
  show "x \<in> freeMetas X now P m" if "x \<in> smeta ` candidates m (P \<circ> smeta)"
    using that assms(1) by (force simp: candidates_def freeMetas_def fresh_def dest: map_of_SomeD)
  assume "x \<in> freeMetas X now P m"
  then obtain e where e: "e \<in> snd ` set (entries m)" "smeta e = x" "P x"
    "\<not> blocked (isAuthBlockedForModel X (Some (mAuth x)) (modelKey m) now)" by (auto simp: freeMetas_def)
  then have "map_of (entries m) (entryID e) = Some e" using keyed_in_set [OF k] by blast
  with e assms(1) have "e \<in> candidates m (P \<circ> smeta)" by (auto simp: candidates_def fresh_def)
  with e(2) show "x \<in> smeta ` candidates m (P \<circ> smeta)" by blast
qed

lemma freeMetas_serving:
  assumes ok: "provider_ok X Q t p" and t: "0 \<le> t" "t \<le> now" and env: "accessExp env = X"
  shows "freeMetas X u P (snd (ensureModelLocked env model now p)) = freeServing X u P p (canonicalModelKey model)"
proof -
  let ?m = "snd (ensureModelLocked env model now p)"
  have "(\<exists>e \<in> snd ` set (entries ?m). smeta e = x) \<longleftrightarrow> x \<in> smeta ` snd ` set (entries ?m)" for x by blast
  moreover have "modelKey ?m = canonicalModelKey model" using ensured_shard_ok [OF assms] by (simp add: shard_near_def)
  ultimately show ?thesis by (simp add: freeMetas_def freeServing_def ensured_metas [OF assms])
qed

lemma fold_ensure_lookup:
  assumes "distinct ks"
  shows "map_of (providers (fold (ensureProviderModel env key now) ks s)) k =
    (if k \<in> set ks then map_option (\<lambda>p. fst (ensureModelLocked env key now p)) (map_of (providers s) k)
     else map_of (providers s) k)"
  using assms
proof (induction ks arbitrary: s)
  case (Cons j ks)
  have "map_of (providers (ensureProviderModel env key now j s)) k =
      (if k = j then map_option (\<lambda>p. fst (ensureModelLocked env key now p)) (map_of (providers s) k)
       else map_of (providers s) k)"
    by (auto simp: ensureProviderModel_def updateProvider_def gomap_simps split: option.splits)
  with Cons show ?case by auto
qed simp

lemma shardOf_ensured:
  assumes "distinct ks" and "k \<in> set ks"
  shows "shardOf (fold (ensureProviderModel env key now) ks s) key k =
    map_option (\<lambda>p. snd (ensureModelLocked env key now p)) (map_of (providers s) k)"
  by (auto simp: shardOf_def fold_ensure_lookup assms ensureModelLocked_def Let_def gomap_simps split: option.splits)

section \<open>The strategies\<close>

definition cand :: "(scheduledAuthMeta \<Rightarrow> bool) \<Rightarrow> modelScheduler option \<Rightarrow> scheduledAuth set" where
  "cand P sh = (case sh of None \<Rightarrow> {} | Some m \<Rightarrow> candidates m (P \<circ> smeta))"

definition shards_ok :: "modelScheduler option list \<Rightarrow> bool" where
  "shards_ok shards \<longleftrightarrow> (\<forall>m. Some m \<in> set shards \<longrightarrow> indexed m)"

lemma bestReadyPriority_spec:
  assumes "shards_ok shards"
  shows "bestReadyPriority P shards = None \<longleftrightarrow> (\<forall>sh \<in> set shards. cand P sh = {})"
    and "bestReadyPriority P shards = Some q \<Longrightarrow>
      (\<exists>sh \<in> set shards. \<exists>e \<in> cand P sh. mPriority (smeta e) = q)
      \<and> (\<forall>sh \<in> set shards. \<forall>e \<in> cand P sh. mPriority (smeta e) \<le> q)"
proof -
  define best where "best C b \<longleftrightarrow> (case b of None \<Rightarrow> C = {}
     | Some q \<Rightarrow> (\<exists>e \<in> C. mPriority (smeta e) = q) \<and> (\<forall>e \<in> C. mPriority (smeta e) \<le> q))" for C :: "scheduledAuth set" and b :: "int option"
  let ?f = "\<lambda>sh best. case sh of None \<Rightarrow> best | Some shard \<Rightarrow>
     (case highestReadyPriorityLocked False (P \<circ> smeta) shard of None \<Rightarrow> best
      | Some priorityReady \<Rightarrow> (case best of None \<Rightarrow> Some priorityReady
          | Some b \<Rightarrow> if priorityReady > b then Some priorityReady else best))"
  have one: "best (C \<union> cand P sh) (?f sh b)" if "best C b" "\<forall>m. sh = Some m \<longrightarrow> indexed m" for C b sh
  proof (cases sh)
    case (Some m)
    then have i: "indexed m" using that by simp
    have p: "pool False m (P \<circ> smeta) = cand P sh" by (simp add: pool_def cand_def Some)
    note H = highestReadyPriority_pool [OF i, of False "P \<circ> smeta", unfolded p]
    show ?thesis
    proof (cases "highestReadyPriorityLocked False (P \<circ> smeta) m")
      case None
      with H(1) Some that(1) show ?thesis by simp
    next
      case (Some r)
      from H(2) [OF this] have r: "\<exists>e \<in> cand P sh. mPriority (smeta e) = r" "\<forall>e \<in> cand P sh. mPriority (smeta e) \<le> r"
        by blast+
      show ?thesis
      proof (cases b)
        case None
        with that(1) have "C = {}" by (simp add: best_def)
        with None r \<open>sh = Some m\<close> Some show ?thesis by (simp add: best_def)
      next
        case (Some b0)
        with that(1) have c: "\<exists>e \<in> C. mPriority (smeta e) = b0" "\<forall>e \<in> C. mPriority (smeta e) \<le> b0" by (auto simp: best_def)
        have "?f sh b = Some (max r b0)"
          using \<open>sh = Some m\<close> \<open>highestReadyPriorityLocked False (P \<circ> smeta) m = Some r\<close> Some by (simp add: max_def)
        moreover have "best (C \<union> cand P sh) (Some (max r b0))"
          using r c unfolding best_def by (auto simp: max_def intro: order_trans)
        ultimately show ?thesis by simp
      qed
    qed
  qed (use that in \<open>simp add: cand_def\<close>)
  have "best (C \<union> (\<Union>sh \<in> set shs. cand P sh)) (fold ?f shs b)" if "best C b" "shards_ok shs" for C b shs
    using that
  proof (induction shs arbitrary: C b)
    case (Cons sh shs)
    have "best (C \<union> cand P sh) (?f sh b)" by (rule one) (use Cons.prems in \<open>auto simp: shards_ok_def\<close>)
    from Cons.IH [OF this] Cons.prems(2) show ?case by (simp add: shards_ok_def Un_assoc)
  qed simp
  from this [of "{}" None shards] assms have "best (\<Union>sh \<in> set shards. cand P sh) (bestReadyPriority P shards)"
    by (simp add: best_def bestReadyPriority_def)
  then show "bestReadyPriority P shards = None \<longleftrightarrow> (\<forall>sh \<in> set shards. cand P sh = {})"
    and "bestReadyPriority P shards = Some q \<Longrightarrow>
      (\<exists>sh \<in> set shards. \<exists>e \<in> cand P sh. mPriority (smeta e) = q)
      \<and> (\<forall>sh \<in> set shards. \<forall>e \<in> cand P sh. mPriority (smeta e) \<le> q)"
    by (auto simp: best_def split: option.splits)
qed

text \<open>One shard at one priority.\<close>

lemma pickAt_exact:
  assumes "indexed m" and "strat = schedulerStrategyWeightedRoundRobin \<longrightarrow> (\<forall>e. predicate e \<longrightarrow> 0 < mWeight (smeta e))"
  shows "(fst (pickReadyAtPriorityLocked False q strat predicate m) = None \<longleftrightarrow>
      {e \<in> candidates m predicate. mPriority (smeta e) = q} = {})
    \<and> (\<forall>e. fst (pickReadyAtPriorityLocked False q strat predicate m) = Some e \<longrightarrow>
        e \<in> candidates m predicate \<and> mPriority (smeta e) = q)"
proof (cases "map_of (readyByPriority m) q")
  case None
  with indexed_has_bucket(2) [OF assms(1)] show ?thesis by (fastforce simp: pickReadyAtPriorityLocked_def)
next
  case (Some b)
  from pickAtPriority_sound [OF assms(1) Some assms(2) refl, of False] show ?thesis by (simp add: usesWs_def)
qed

lemma readyCount_exact:
  assumes "indexed m"
  shows "readyCountAtPriorityLocked False q predicate m = 0 \<longleftrightarrow> {e \<in> candidates m predicate. mPriority (smeta e) = q} = {}"
proof (cases "map_of (readyByPriority m) q")
  case None
  with indexed_has_bucket(2) [OF assms] show ?thesis by (fastforce simp: readyCountAtPriorityLocked_def)
next
  case (Some b)
  let ?xs = "filter predicate (lookupAll (entries m) (flat (ball b)))"
  have "readyCountAtPriorityLocked False q predicate m = 0 \<longleftrightarrow> set ?xs = {}"
    using Some by (simp add: readyCountAtPriorityLocked_def usesWs_def filter_empty_conv) blast
  also have "set ?xs = {e \<in> candidates m predicate. mPriority (smeta e) = q}"
    by (rule indexed_bucket(1) [OF assms Some])
  finally show ?thesis .
qed

text \<open>What a strategy has to deliver at the best priority.\<close>

definition delivers ::
  "(scheduledAuthMeta \<Rightarrow> bool) \<Rightarrow> int \<Rightarrow> (string \<Rightarrow> modelScheduler option) \<Rightarrow> string set \<Rightarrow> (Auth \<times> string) option \<Rightarrow> bool" where
  "delivers P q sh ks outcome \<longleftrightarrow>
     (case outcome of
        None \<Rightarrow> (\<forall>k \<in> ks. \<forall>e \<in> cand P (sh k). mPriority (smeta e) \<noteq> q)
      | Some (a, k) \<Rightarrow> k \<in> ks \<and> (\<exists>e \<in> cand P (sh k). mPriority (smeta e) = q \<and> mAuth (smeta e) = a))"

lemma tryShard_exact:
  assumes "\<forall>m. shardOf s key k = Some m \<longrightarrow> indexed m" and "strat \<noteq> schedulerStrategyWeightedRoundRobin"
  shows "delivers P q (shardOf s key) {k} (map_option (\<lambda>a. (a, k)) (snd (tryShard key q strat P k s)))"
proof (cases "shardOf s key k")
  case None
  then have "snd (tryShard key q strat P k s) = None" by (auto simp: shardOf_def tryShard_def split: option.splits)
  with None show ?thesis by (simp add: delivers_def cand_def)
next
  case (Some m)
  then have "snd (tryShard key q strat P k s) = map_option (mAuth \<circ> smeta)
      (fst (pickReadyAtPriorityLocked False q strat (P \<circ> smeta) m))"
    by (auto simp: shardOf_def tryShard_def Let_def split_beta split: option.splits)
  with Some pickAt_exact [of m strat "P \<circ> smeta" q] assms show ?thesis
    by (auto simp: delivers_def cand_def split: option.splits)
qed

lemma tryShard_other: "k' \<noteq> k \<Longrightarrow> shardOf (fst (tryShard key q strat P k s)) key' k' = shardOf s key' k'"
  by (simp add: tryShard_def shardOf_def putShard_def Let_def split_beta gomap_simps split: option.splits)

lemma fillFirst_delivers:
  assumes "distinct ks" and "\<forall>k \<in> set ks. \<forall>m. shardOf s key k = Some m \<longrightarrow> indexed m"
  shows "delivers P q (shardOf s key) (set ks) (snd (fillFirstLoop key q P ks s))"
  using assms
proof (induction ks arbitrary: s)
  case (Cons k ks)
  obtain s2 r where t: "tryShard key q schedulerStrategyFillFirst P k s = (s2, r)" by fastforce
  have d: "delivers P q (shardOf s key) {k} (map_option (\<lambda>a. (a, k)) r)"
    using tryShard_exact [of s key k schedulerStrategyFillFirst P q] Cons.prems(2) t by simp
  show ?case
  proof (cases r)
    case (Some a)
    with d t show ?thesis by (auto simp: delivers_def)
  next
    case None
    have other: "shardOf s2 key j = shardOf s key j" if "j \<in> set ks" for j
      using tryShard_other [of j k key q schedulerStrategyFillFirst P s key] that Cons.prems(1) t by auto
    have "delivers P q (shardOf s2 key) (set ks) (snd (fillFirstLoop key q P ks s2))"
      using Cons.prems other by (intro Cons.IH) simp_all
    with None d t other show ?thesis by (auto simp: delivers_def split: option.splits)
  qed
qed (simp add: delivers_def)

lemma mixedEntries_cand:
  assumes "shards_ok shards"
  shows "e \<in> set (mixedEntries q shards) \<and> P (smeta e) \<longleftrightarrow>
    (\<exists>sh \<in> set shards. e \<in> cand P sh \<and> mPriority (smeta e) = q)"
proof -
  let ?L = "\<lambda>sh. case sh of None \<Rightarrow> [] | Some m \<Rightarrow>
      (case map_of (readyByPriority m) q of None \<Rightarrow> [] | Some b \<Rightarrow> lookupAll (entries m) (flat (ball b)))"
  have one: "e \<in> set (?L sh) \<and> P (smeta e) \<longleftrightarrow> e \<in> cand P sh \<and> mPriority (smeta e) = q" if "sh \<in> set shards" for sh
  proof (cases sh)
    case (Some m)
    then have m: "indexed m" using assms that by (auto simp: shards_ok_def)
    show ?thesis
    proof (cases "map_of (readyByPriority m) q")
      case None
      with Some indexed_has_bucket(2) [OF m, of e "P \<circ> smeta"] show ?thesis by (auto simp: cand_def)
    next
      case (Some b)
      have "e \<in> set (?L sh) \<and> P (smeta e) \<longleftrightarrow> e \<in> set (filter (P \<circ> smeta) (lookupAll (entries m) (flat (ball b))))"
        using \<open>sh = Some m\<close> Some by simp
      then show ?thesis unfolding indexed_bucket(1) [OF m Some] using \<open>sh = Some m\<close> by (simp add: cand_def)
    qed
  qed (simp add: cand_def)
  have "set (mixedEntries q shards) = (\<Union>sh \<in> set shards. set (?L sh))" by (simp add: mixedEntries_def)
  with one show ?thesis by blast
qed

lemma mixedWeighted_delivers:
  assumes "shards_ok (map sh ks)" and w: "\<forall>meta. P meta \<longrightarrow> 0 < mWeight meta"
    and route: "\<And>k e. k \<in> set ks \<Longrightarrow> e \<in> cand P (sh k) \<Longrightarrow> mProviderKey (smeta e) = k"
  shows "delivers P q sh (set ks) (snd (mixedWeightedPick ck (mixedEntries q (map sh ks)) P s))"
proof -
  let ?xs = "mixedEntries q (map sh ks)"
  note M = mixedEntries_cand [OF assms(1), of _ q P]
  have el: "e \<in> set (eligible (\<lambda>e. mWeight (smeta e)) (P \<circ> smeta) ?xs) \<longleftrightarrow>
      (\<exists>k \<in> set ks. e \<in> cand P (sh k) \<and> mPriority (smeta e) = q)" for e
    using M [of e] w by (auto simp: eligible_def)
  obtain c where c: "snd (mixedWeightedPick ck ?xs P s) =
      map_option (\<lambda>e. (mAuth (smeta e), mProviderKey (smeta e))) (fst (pickSmoothWeightedScheduled ?xs c (P \<circ> smeta)))"
    by (simp add: mixedWeightedPick_def Let_def split_beta)
  note S = swPick_picked [of entryID "\<lambda>e. mWeight (smeta e)" "P \<circ> smeta" ?xs c]
  show ?thesis
  proof (cases "fst (pickSmoothWeightedScheduled ?xs c (P \<circ> smeta))")
    case None
    then have "eligible (\<lambda>e. mWeight (smeta e)) (P \<circ> smeta) ?xs = []" using S by (simp add: pickSmoothWeightedScheduled_def)
    then have "\<not> (\<exists>k \<in> set ks. e \<in> cand P (sh k) \<and> mPriority (smeta e) = q)" for e using el [of e] by simp
    with None c show ?thesis by (auto simp: delivers_def)
  next
    case (Some e)
    then obtain k where "k \<in> set ks" "e \<in> cand P (sh k)" "mPriority (smeta e) = q"
      using S el by (auto simp: pickSmoothWeightedScheduled_def)
    with Some c route show ?thesis by (auto simp: delivers_def)
  qed
qed

lemma startProvider_exists:
  assumes "slot < sum_list ws"
  shows "\<exists>i. startProvider ws slot = Some i \<and> i < length ws \<and> ws ! i \<noteq> 0"
proof -
  define i where "i = (LEAST i. slot < segmentStart ws (Suc i))"
  have ex: "slot < segmentStart ws (Suc (length ws))" using assms by (simp add: segmentStart_def)
  then have i: "slot < segmentStart ws (Suc i)" unfolding i_def by (rule LeastI)
  have less: "i < length ws"
  proof (rule ccontr)
    assume "\<not> i < length ws"
    then have "slot < segmentStart ws (Suc (length ws - 1))" using assms by (cases ws) (simp_all add: segmentStart_def)
    then have "i \<le> length ws - 1" unfolding i_def by (rule Least_le)
    with \<open>\<not> i < length ws\<close> assms show False by (cases ws) simp_all
  qed
  have "\<not> slot < segmentStart ws i"
  proof (cases i)
    case (Suc j)
    then show ?thesis using not_less_Least [of j "\<lambda>i. slot < segmentStart ws (Suc i)"] i_def by simp
  qed (simp add: segmentStart_def)
  then have nz: "ws ! i \<noteq> 0" using i less by (simp add: segmentStart_def take_Suc_conv_app_nth)
  have "startProvider ws slot \<noteq> None"
    unfolding startProvider_def find_None_iff using less nz i by auto
  then show ?thesis unfolding startProvider_def by (auto simp: find_Some_iff)
qed

lemma mixedRoundRobin_delivers:
  assumes "\<forall>k \<in> set ks. \<forall>m. shardOf s key k = Some m \<longrightarrow> indexed m"
  shows "delivers P q (shardOf s key) (set ks) (snd (mixedRoundRobin ck key q P ks (map (shardOf s key) ks) s))"
proof -
  define ws where "ws = map (\<lambda>sh. case sh of None \<Rightarrow> 0
     | Some shard \<Rightarrow> readyCountAtPriorityLocked False q (P \<circ> smeta) shard) (map (shardOf s key) ks)"
  have len: "length ws = length ks" by (simp add: ws_def)
  have zero: "ws ! i = 0 \<longleftrightarrow> {e \<in> cand P (shardOf s key (ks ! i)). mPriority (smeta e) = q} = {}" if "i < length ks" for i
  proof (cases "shardOf s key (ks ! i)")
    case (Some m)
    then have "indexed m" using assms nth_mem [OF that] by blast
    from readyCount_exact [OF this, of q "P \<circ> smeta"] Some that show ?thesis by (simp add: ws_def cand_def)
  qed (use that in \<open>simp add: ws_def cand_def\<close>)
  show ?thesis
  proof (cases "sum_list ws = 0")
    case True
    then have "\<forall>i < length ks. ws ! i = 0" using len by (simp add: sum_list_eq_0_iff)
    then have "\<forall>k \<in> set ks. {e \<in> cand P (shardOf s key k). mPriority (smeta e) = q} = {}"
      using zero by (metis in_set_conv_nth)
    with True show ?thesis by (auto simp: mixedRoundRobin_def ws_def Let_def delivers_def)
  next
    case False
    define slot where "slot = (case map_of (mixedCursors s) ck of None \<Rightarrow> 0 | Some c \<Rightarrow> c) mod sum_list ws"
    obtain i where i: "startProvider ws slot = Some i" "i < length ks" "ws ! i \<noteq> 0"
      using startProvider_exists [of slot ws] False len by (auto simp: slot_def)
    have k: "ks ! i \<in> set ks" using i(2) by simp
    have ne: "ks \<noteq> []" using i(2) by auto
    obtain s2 r where t: "tryShard key q schedulerStrategyRoundRobin P (ks ! i) s = (s2, r)" by fastforce
    have "delivers P q (shardOf s key) {ks ! i} (map_option (\<lambda>a. (a, ks ! i)) r)"
      using tryShard_exact [of s key "ks ! i" schedulerStrategyRoundRobin P q] assms k t by simp
    moreover have "{e \<in> cand P (shardOf s key (ks ! i)). mPriority (smeta e) = q} \<noteq> {}"
      using zero [OF i(2)] i(3) by simp
    ultimately obtain a where a: "r = Some a" "\<exists>e \<in> cand P (shardOf s key (ks ! i)). mPriority (smeta e) = q \<and> mAuth (smeta e) = a"
      by (cases r) (auto simp: delivers_def)
    have up: "[0..<length ks] = 0 # [1..<length ks]" using ne by (simp add: upt_conv_Cons)
    have "snd (mixedRRLoop ck key q P ks ws i slot [0..<length ks] s) = Some (a, ks ! i)"
      unfolding up using i t a by (simp add: Let_def)
    then have "snd (mixedRoundRobin ck key q P ks (map (shardOf s key) ks) s) = Some (a, ks ! i)"
      unfolding mixedRoundRobin_def Let_def ws_def [symmetric] slot_def [symmetric] if_not_P [OF False] i(1)
      by simp
    with a k show ?thesis by (simp add: delivers_def)
  qed
qed

section \<open>The mixed pick\<close>

definition freeAcross ::
  "(Auth \<Rightarrow> gotime option) \<Rightarrow> gotime \<Rightarrow> (scheduledAuthMeta \<Rightarrow> bool) \<Rightarrow> string list \<Rightarrow> string \<Rightarrow> authScheduler
   \<Rightarrow> (string \<times> scheduledAuthMeta) set" where
  "freeAcross X now P ks key s =
     {(k, meta). k \<in> set ks \<and> (\<exists>p. map_of (providers s) k = Some p \<and> meta \<in> freeServing X now P p key)}"

lemma mixedOutcome_exact:
  assumes ok: "prov.all_ok X Q t s" and t: "0 \<le> t" "t \<le> now" and env: "accessExp env = X" and d: "distinct ks"
    and w: "st = schedulerStrategyWeightedRoundRobin \<longrightarrow> (\<forall>meta. P meta \<longrightarrow> 0 < mWeight meta)"
    and F: "F = freeAcross X now P ks (canonicalModelKey key) s"
  shows "case snd (mixedOutcome env st P ks key now s) of
      None \<Rightarrow> F = {}
    | Some (a, k) \<Rightarrow> (\<exists>meta. (k, meta) \<in> F \<and> mAuth meta = a \<and> (\<forall>(k', meta') \<in> F. mPriority meta' \<le> mPriority meta))"
proof -
  let ?s = "fold (ensureProviderModel env key now) ks s"
  let ?sh = "shardOf ?s key"
  have pok: "provider_ok X Q t p \<and> pProviderKey p = k" if "map_of (providers s) k = Some p" for k p
    using ok that by (simp add: prov.all_ok_def)
  have shard: "\<exists>p. map_of (providers s) k = Some p \<and> m = snd (ensureModelLocked env key now p)
      \<and> shard_ok X Q now p (canonicalModelKey key) m" if "k \<in> set ks" "?sh k = Some m" for k m
    using that shardOf_ensured [OF d that(1), of env key now s] ensured_shard_ok [OF _ t env, of Q] pok by auto
  have ix: "\<forall>k \<in> set ks. \<forall>m. ?sh k = Some m \<longrightarrow> indexed m"
    using shard by (metis shard_near_def)
  then have sok: "shards_ok (map ?sh ks)" by (auto simp: shards_ok_def)
  have C: "smeta ` cand P (?sh k) = {meta. (k, meta) \<in> F}" if k: "k \<in> set ks" for k
  proof (cases "map_of (providers s) k")
    case None
    then show ?thesis using k shardOf_ensured [OF d k, of env key now s] by (simp add: cand_def F freeAcross_def)
  next
    case (Some p)
    let ?m = "snd (ensureModelLocked env key now p)"
    have sh: "?sh k = Some ?m" using Some shardOf_ensured [OF d k, of env key now s] by simp
    have "smeta ` candidates ?m (P \<circ> smeta) = freeMetas X now P ?m"
      by (rule fresh_candidates [OF ensured_fresh [OF _ t env, where Q = Q]]) (use pok [OF Some] ix k sh in auto)
    also have "\<dots> = freeServing X now P p (canonicalModelKey key)"
      by (rule freeMetas_serving [OF _ t env, where Q = Q]) (use pok [OF Some] in simp)
    finally show ?thesis using sh Some k by (simp add: cand_def F freeAcross_def)
  qed
  have route: "mProviderKey (smeta e) = k" if k: "k \<in> set ks" and e: "e \<in> cand P (?sh k)" for k e
  proof -
    obtain m where m: "?sh k = Some m" using e by (cases "?sh k") (simp_all add: cand_def)
    from shard [OF k m] obtain p where p: "map_of (providers s) k = Some p" "shard_ok X Q now p (canonicalModelKey key) m"
      by blast
    then have "metaFor Q p (smeta e)" using e m by (auto simp: cand_def candidates_def shard_near_def)
    with pok [OF p(1)] show ?thesis by (simp add: metaFor_def)
  qed
  show ?thesis
  proof (cases "bestReadyPriority P (map ?sh ks)")
    case None
    then have "\<forall>k \<in> set ks. cand P (?sh k) = {}" using bestReadyPriority_spec(1) [OF sok] by simp
    then have "F = {}" using C by (fastforce simp: F freeAcross_def)
    with None show ?thesis by (simp add: mixedOutcome_def Let_def)
  next
    case (Some q)
    note B = bestReadyPriority_spec(2) [OF sok Some]
    have "delivers P q ?sh (set ks) (snd (mixedOutcome env st P ks key now s))"
      using Some fillFirst_delivers [OF d ix, of P q] mixedRoundRobin_delivers [OF ix, of P q]
        mixedWeighted_delivers [OF sok _ route, where q = q] w
      by (simp add: mixedOutcome_def Let_def)
    then obtain a k e where out: "snd (mixedOutcome env st P ks key now s) = Some (a, k)"
      and e: "k \<in> set ks" "e \<in> cand P (?sh k)" "mPriority (smeta e) = q" "mAuth (smeta e) = a"
      using B by (fastforce simp: delivers_def split: option.splits)
    have "(k, smeta e) \<in> F" using C [OF e(1)] e(2) by blast
    moreover have "mPriority meta' \<le> mPriority (smeta e)" if "(k', meta') \<in> F" for k' meta'
    proof -
      have "k' \<in> set ks" using that by (auto simp: F freeAcross_def)
      then have "meta' \<in> smeta ` cand P (?sh k')" using C that by blast
      with B e(3) \<open>k' \<in> set ks\<close> show ?thesis by auto
    qed
    ultimately show ?thesis using out e(4) by (auto intro!: exI [of _ "smeta e"])
  qed
qed

lemma normalizeLoop_spec:
  "distinct (normalizeLoop seen ps) \<and> set (normalizeLoop seen ps) =
     {canonicalSchedulingProvider p | p. p \<in> set ps} - set seen - {[]}"
  by (induction ps arbitrary: seen) (auto simp: Let_def)

lemma normalizeProviderKeys_spec:
  "distinct (normalizeProviderKeys ps)"
  "set (normalizeProviderKeys ps) = {canonicalSchedulingProvider p | p. p \<in> set ps} - {[]}"
  using normalizeLoop_spec [of "[]" ps] by (simp_all add: normalizeProviderKeys_def)

text \<open>
  Claim C2. A pick across providers is exact.  In every reachable state, a request that names at least two
  distinct providers and no pinned credential fails exactly when no credential of any of them is free for the
  model, allowed, not tried and, under the weighted strategy, of positive weight; otherwise the scheduler
  returns such a credential together with the provider that owns it, and no provider of the request has a
  free one of higher priority.  This holds for every strategy: first fit, weighted, and the slot
  cursor of the round robin.
\<close>

theorem mixed_pick_exact:
  assumes "sched_reach X Q t s" and "ticks t clock" and "accessExp env = X"
    and "ks = normalizeProviderKeys provs" and "2 \<le> length ks" and "pinnedAuthID req = []"
    and "F = freeAcross X (fst clock) (requestPredicate req [] (resolveStrategy strat s)) ks
           (canonicalModelKey (canonicalModelKey model)) s"
  shows "case snd (pickMixedWithStrategy env req provs model strat clock s) of
      Inl e \<Rightarrow> F = {}
    | Inr (a, k) \<Rightarrow> (\<exists>meta. (k, meta) \<in> F \<and> mAuth meta = a \<and> (\<forall>(k', meta') \<in> F. mPriority meta' \<le> mPriority meta))"
proof -
  let ?st = "resolveStrategy strat s"
  let ?P = "requestPredicate req [] ?st"
  have le: "0 \<le> t" "t \<le> fst clock" using assms(2) by (auto simp: ticks_def)
  have d: "distinct ks" unfolding assms(4) by (rule normalizeProviderKeys_spec)
  obtain s2 oc where o: "mixedOutcome env ?st ?P ks (canonicalModelKey model) (fst clock) s = (s2, oc)" by fastforce
  have "snd (pickMixedWithStrategy env req provs model strat clock s) = (case oc of Some r \<Rightarrow> Inr r
      | None \<Rightarrow> Inl (snd (mixedUnavailableErrorLocked env ks model ?P (snd (snd clock)) s2)))"
    using assms(4-6) o by (auto simp: pickMixedWithStrategy_def Let_def split_beta split: option.splits)
  moreover have "case oc of None \<Rightarrow> F = {} | Some (a, k) \<Rightarrow>
      (\<exists>meta. (k, meta) \<in> F \<and> mAuth meta = a \<and> (\<forall>(k', meta') \<in> F. mPriority meta' \<le> mPriority meta))"
    using mixedOutcome_exact [OF reach_providers [OF assms(1)] le assms(3) d requestPredicate_weight assms(7)] o
    by simp
  ultimately show ?thesis by (auto split: option.splits)
qed

theorem mixed_pick_exact_witness:
  "map_sum (\<lambda>_. ()) (map_prod ID id) (snd (pickMixedWithStrategy wEnv (wReq\<lparr>tried := [''a'']\<rparr>) [''p'', ''q''] ''m''
      schedulerStrategyCurrent (2, 2, 2) wSched)) = Inr (''b'', ''q'')
   \<and> (let F = freeAcross (\<lambda>_. None) 2 (requestPredicate (wReq\<lparr>tried := [''a'']\<rparr>) []
                (resolveStrategy schedulerStrategyCurrent wSched)) (normalizeProviderKeys [''p'', ''q''])
                (canonicalModelKey (canonicalModelKey ''m'')) wSched
      in case snd (pickMixedWithStrategy wEnv (wReq\<lparr>tried := [''a'']\<rparr>) [''p'', ''q''] ''m''
           schedulerStrategyCurrent (2, 2, 2) wSched) of
      Inl e \<Rightarrow> F = {}
    | Inr (a, k) \<Rightarrow> (\<exists>meta. (k, meta) \<in> F \<and> mAuth meta = a \<and> (\<forall>(k', meta') \<in> F. mPriority meta' \<le> mPriority meta)))"
proof
  show "map_sum (\<lambda>_. ()) (map_prod ID id) (snd (pickMixedWithStrategy wEnv (wReq\<lparr>tried := [''a'']\<rparr>) [''p'', ''q''] ''m''
      schedulerStrategyCurrent (2, 2, 2) wSched)) = Inr (''b'', ''q'')"
    by code_simp
  have l: "2 \<le> length (normalizeProviderKeys [''p'', ''q''])" by code_simp
  show "let F = freeAcross (\<lambda>_. None) 2 (requestPredicate (wReq\<lparr>tried := [''a'']\<rparr>) []
                (resolveStrategy schedulerStrategyCurrent wSched)) (normalizeProviderKeys [''p'', ''q''])
                (canonicalModelKey (canonicalModelKey ''m'')) wSched
      in case snd (pickMixedWithStrategy wEnv (wReq\<lparr>tried := [''a'']\<rparr>) [''p'', ''q''] ''m''
           schedulerStrategyCurrent (2, 2, 2) wSched) of
      Inl e \<Rightarrow> F = {}
    | Inr (a, k) \<Rightarrow> (\<exists>meta. (k, meta) \<in> F \<and> mAuth meta = a \<and> (\<forall>(k', meta') \<in> F. mPriority meta' \<le> mPriority meta))"
    unfolding Let_def
    by (rule mixed_pick_exact [OF wSched_reach _ _ refl l]) (simp_all add: ticks_def wEnv_def wReq_def)
qed

end
