(* ===== verification/Tombstones.thy ===== *)
theory Tombstones
  imports MixedPicks
begin

text \<open>
  The generation table at work: updates of credentials arrive out of order, and a credential that was
  removed must not come back through an update that was issued before the removal.
\<close>

section \<open>Runs that keep a tombstone\<close>

text \<open>
  What may happen after a removal: any operations on any credentials, except that the generation of the
  removed one is not reset on purpose and that its 64-bit epoch does not wrap around.
\<close>

definition keepsEpoch :: "string \<Rightarrow> authScheduler \<Rightarrow> schedOp \<Rightarrow> bool" where
  "keepsEpoch i s op \<longleftrightarrow>
     (case op of
        OpReset j \<Rightarrow> TrimSpace j \<noteq> i
      | OpRemove j \<Rightarrow> TrimSpace j = i \<longrightarrow> (\<forall>g. map_of (authGenerations s) i = Some g \<longrightarrow> gEpoch g + 1 < 2 ^ 64)
      | _ \<Rightarrow> True)"

inductive sched_run ::
  "(Auth \<Rightarrow> gotime option) \<Rightarrow> string \<Rightarrow> gotime \<Rightarrow> authScheduler \<Rightarrow> gotime \<Rightarrow> authScheduler \<Rightarrow> bool"
  for X i t0 s0 where
  run_refl: "sched_run X i t0 s0 t0 s0"
| run_step: "sched_run X i t0 s0 t s \<Longrightarrow> ticks t clock \<Longrightarrow> accessExp env = X \<Longrightarrow>
    \<forall>a \<in> opAuths op. TrimSpace (ID a) = ID a \<Longrightarrow> keepsEpoch i s op \<Longrightarrow>
    sched_run X i t0 s0 (snd (snd clock)) (schedExec env clock op s)"

definition epochFloor :: "string \<Rightarrow> nat \<Rightarrow> authScheduler \<Rightarrow> bool" where
  "epochFloor i E s \<longleftrightarrow> (\<exists>g. map_of (authGenerations s) i = Some g \<and> E \<le> gEpoch g)"

definition newEnough :: "string \<Rightarrow> nat \<Rightarrow> Auth \<Rightarrow> bool" where
  "newEnough i E a \<longleftrightarrow> (ID a = i \<longrightarrow> E \<le> RegistrationEpoch a)"

lemma floor_accepted: "epochFloor i E s \<Longrightarrow> TrimSpace (ID a) = ID a \<Longrightarrow> accepted (newEnough i E) s a"
  by (auto simp: epochFloor_def accepted_def newEnough_def epoch_stale_def)

lemma gens_simps [simp]:
  "authGenerations (removeAuthFromProvidersLocked j s) = authGenerations s"
  "authGenerations (updateProvider k f s) = authGenerations s"
  "authGenerations (placeAuth env j a now s) = authGenerations s"
  "authGenerations (ensureProviderLocked k s) = authGenerations s"
  "authGenerations (leavePreviousProvider j k s) = authGenerations s"
  "authGenerations (setGeneration j e g u s) =
     AList.update j \<lparr>gEpoch = e, gGeneration = g, gUpdatedAt = u\<rparr> (authGenerations s)"
  by (simp_all add: removeAuthFromProvidersLocked_def updateProvider_def placeAuth_def ensureProviderLocked_def
      leavePreviousProvider_def setGeneration_def Let_def split: option.splits)

lemma floor_cong: "authGenerations s' = authGenerations s \<Longrightarrow> epochFloor i E s' = epochFloor i E s"
  by (simp add: epochFloor_def)

lemma floor_set: "epochFloor i E s \<Longrightarrow> (j = i \<Longrightarrow> E \<le> e) \<Longrightarrow> epochFloor i E (setGeneration j e g u s)"
  by (auto simp: epochFloor_def gomap_simps)

lemma not_stale_epoch:
  "epochFloor i E s \<Longrightarrow> \<not> isStaleScheduledAuth i ep gen u s \<Longrightarrow> E \<le> ep"
  by (auto simp: epochFloor_def isStaleScheduledAuth_def)

lemma floor_lifecycle: "epochFloor i E s \<Longrightarrow> epochFloor i E (upsertAuthLifecycleLocked env auth now s)"
  using not_stale_epoch [of i E s]
  by (auto simp: upsertAuthLifecycleLocked_def Let_def epochFloor_def gomap_simps split: option.splits)

lemma floor_result: "epochFloor i E s \<Longrightarrow> epochFloor i E (upsertAuthResultLocked env auth ts sc now s)"
proof -
  assume f: "epochFloor i E s"
  have "authGenerations (upsertAuthResultLocked env auth ts sc now s) = authGenerations s
     \<or> (\<exists>a. auth = Some a \<and> \<not> isStaleScheduledAuth (TrimSpace (ID a)) (RegistrationEpoch a) (Generation a) (UpdatedAt a) s
        \<and> authGenerations (upsertAuthResultLocked env auth ts sc now s) =
          authGenerations (setGeneration (TrimSpace (ID a)) (RegistrationEpoch a) (Generation a) (UpdatedAt a) s))"
    by (simp add: upsertAuthResultLocked_def Let_def split: option.split)
  then show ?thesis
    using f not_stale_epoch [OF f] floor_set [OF f]
    by (metis floor_cong)
qed

lemma floor_rebuild_step:
  assumes "epochFloor i E s" and "TrimSpace (ID a) = ID a" and "prov.metas_ok (newEnough i E) em"
  shows "epochFloor i E (upsertAuthRebuildLocked env em now (Some a) s)"
proof (cases "rebuildChoice (ID a) a em s")
  case None
  with assms(1,2) show ?thesis by (simp add: upsertAuthRebuildLocked_def Let_def)
next
  case (Some b)
  have "E \<le> RegistrationEpoch b" if "ID a = i" "\<not> unschedulable b"
    using assms that Some
    by (auto simp: rebuildChoice_def epochFloor_def prov.metas_ok_def admits_def newEnough_def
        split: option.splits if_splits)
  with Some assms(1,2) floor_set [OF assms(1)] show ?thesis
    by (auto simp: upsertAuthRebuildLocked_def Let_def split_beta epochFloor_def gomap_simps)
qed

lemma floor_exec:
  assumes fl: "epochFloor i E s" and ok: "prov.all_ok X (newEnough i E) t s"
    and tr: "\<forall>a \<in> opAuths op. TrimSpace (ID a) = ID a" and ke: "keepsEpoch i s op"
  shows "epochFloor i E (schedExec env clock op s)"
proof (cases op)
  case (OpRebuild as)
  define em where "em = fold (\<lambda>(_, p) m. fold (\<lambda>(k, meta) m. AList.update k meta m) (pAuths p) m) (providers s) []"
  have em: "prov.metas_ok (newEnough i E) em" unfolding em_def by (rule prov.existing_ok [OF ok])
  have "epochFloor i E (fold (upsertAuthRebuildLocked env em now) xs s')"
    if "epochFloor i E s'" "set xs \<subseteq> set as" for xs s' now
    using that
  proof (induction xs arbitrary: s')
    case (Cons x xs)
    have "epochFloor i E (upsertAuthRebuildLocked env em now x s')"
      using Cons.prems tr OpRebuild floor_rebuild_step [OF Cons.prems(1) _ em]
      by (cases x) (auto simp: upsertAuthRebuildLocked_def)
    with Cons show ?case by simp
  qed simp
  moreover have "epochFloor i E (s\<lparr>providers := [], authProviders := [], mixedCursors := [], mixedWeightedStates := []\<rparr>)"
    using fl by (simp add: epochFloor_def)
  ultimately show ?thesis using OpRebuild by (simp add: rebuild_def Let_def em_def)
next
  case (OpRemove j)
  from fl obtain g where g: "map_of (authGenerations s) i = Some g" "E \<le> gEpoch g" by (auto simp: epochFloor_def)
  with ke OpRemove show ?thesis
    by (auto simp: keepsEpoch_def removeAuth_def removeAuthLocked_def Let_def epochFloor_def gomap_simps)
next
  case (OpTombstone j ep)
  with fl show ?thesis
    by (auto simp: RecordRemovalTombstone_def recordRemovalTombstoneLocked_def epochFloor_def gomap_simps
        split: option.splits)
next
  case (OpReset j)
  with fl ke show ?thesis by (auto simp: ResetAuthGeneration_def keepsEpoch_def Let_def epochFloor_def gomap_simps)
next
  case (OpPickSingle req prov model strat)
  from same_tables_pickSingle [of s env req prov model strat clock]
  have "authGenerations (schedExec env clock op s) = authGenerations s" by (simp add: OpPickSingle same_tables_def)
  from floor_cong [OF this] fl show ?thesis by simp
next
  case (OpPickMixed req provs model strat)
  from same_tables_pickMixed [of s env req provs model strat clock]
  have "authGenerations (schedExec env clock op s) = authGenerations s" by (simp add: OpPickMixed same_tables_def)
  from floor_cong [OF this] fl show ?thesis by simp
next
  case (OpSetSelector sel)
  with fl show ?thesis by (simp add: setSelector_def epochFloor_def)
qed (use fl floor_lifecycle floor_result in simp_all)

lemma run_keeps:
  assumes "sched_run X i t0 s0 t s" and "epochFloor i E s0" and "prov.all_ok X (newEnough i E) t0 s0"
  shows "epochFloor i E s \<and> prov.all_ok X (newEnough i E) t s"
  using assms
proof (induction rule: sched_run.induct)
  case (run_step t s clock env op)
  then have fl: "epochFloor i E s" and ok: "prov.all_ok X (newEnough i E) t s" by auto
  have "prov.all_ok X (newEnough i E) (snd (snd clock)) (schedExec env clock op s)"
    by (rule prov.all_ok_exec [OF ok run_step.hyps(2,3), where K = "epochFloor i E"])
      (use fl run_step.hyps(4) floor_accepted floor_rebuild_step in \<open>auto simp: epochFloor_def\<close>)
  with floor_exec [OF fl ok run_step.hyps(4,5)] show ?case by simp
qed simp

text \<open>Without the credential in any table, every meta left is new enough.\<close>

lemma provider_ok_absent:
  assumes ok: "provider_ok X Q t p" and no: "map_of (pAuths p) i = None"
  shows "provider_ok X (newEnough i E) t p"
proof -
  have meta: "metaFor (newEnough i E) p x" if "metaFor Q p x" "ID (mAuth x) \<noteq> i" for x
    using that by (simp add: metaFor_def newEnough_def)
  have "shard_ok X (newEnough i E) t p key m" if m: "shard_ok X Q t p key m" for key m
  proof -
    have "metaFor (newEnough i E) p (smeta e)" if e: "map_of (entries m) k = Some e" for k e
    proof (rule meta)
      show "metaFor Q p (smeta e)" using m e by (simp add: shard_near_def)
      have "entryID e = k" using m e by (auto simp: shard_near_def indexed_def keyed_def)
      moreover have "k \<noteq> i" using m e no unfolding shard_near_def by (metis option.distinct(1))
      ultimately show "ID (mAuth (smeta e)) \<noteq> i" by simp
    qed
    with m show ?thesis by (simp add: shard_near_def)
  qed
  moreover have "metaFor (newEnough i E) p x" if "map_of (pAuths p) k = Some x" for k x
    by (rule meta) (use ok no that in \<open>auto simp: provider_ok_def\<close>)
  ultimately show ?thesis using ok by (simp add: provider_ok_def)
qed

lemma tombstone_clears:
  assumes re: "sched_reach X Q t s" and id: "TrimSpace i = i" "i \<noteq> []" and now: "t \<le> now"
    and new: "\<forall>g. map_of (authGenerations s) i = Some g \<longrightarrow> gEpoch g \<le> E"
  shows "epochFloor i E (RecordRemovalTombstone i E now s)"
    and "prov.all_ok X (newEnough i E) now (RecordRemovalTombstone i E now s)"
proof -
  let ?s = "setGeneration i E 0 now s"
  have eq: "RecordRemovalTombstone i E now s = removeAuthFromProvidersLocked i ?s"
    using id new by (auto simp: RecordRemovalTombstone_def recordRemovalTombstoneLocked_def split: option.splits)
  show "epochFloor i E (RecordRemovalTombstone i E now s)" unfolding eq by (simp add: epochFloor_def gomap_simps)
  have ok: "prov.all_ok X Q now (removeAuthFromProvidersLocked i ?s)"
    using prov.all_ok_mono [OF reach_providers [OF re] now] by (simp add: prov.all_ok_removeFromProviders)
  have "located (removeAuthFromProvidersLocked i ?s) i = {}"
    using routed_removeFromProviders(2) [OF _ id(2), of ?s] reach_routed [OF re] by simp
  with ok show "prov.all_ok X (newEnough i E) now (RecordRemovalTombstone i E now s)"
    unfolding eq prov.all_ok_def located_def using provider_ok_absent by blast
qed

lemma serving_metas_ok:
  assumes "provider_ok X Q t p" and "meta \<in> servingMetas p key"
  shows "metaFor Q p meta"
proof (cases "map_of (modelShards p) key")
  case (Some m)
  then have m: "shard_ok X Q t p key m" using assms(1) by (simp add: provider_ok_def)
  obtain e k where e: "(k, e) \<in> set (entries m)" "smeta e = meta" using assms(2) Some by (auto simp: servingMetas_def)
  have "wf_map (entries m)" using m by (simp add: shard_near_def indexed_wf)
  with e have "map_of (entries m) k = Some e" by (simp add: wf_map_in_set)
  with m e(2) show ?thesis by (auto simp: shard_near_def)
next
  case None
  then obtain k where "(k, meta) \<in> set (pAuths p)" using assms(2) by (auto simp: servingMetas_def)
  with assms(1) show ?thesis by (simp add: provider_ok_def wf_map_in_set)
qed

section \<open>Where picked credentials come from\<close>

definition eligiblePick :: "(Auth \<Rightarrow> bool) \<Rightarrow> schedReq \<Rightarrow> Auth \<Rightarrow> string \<Rightarrow> bool" where
  "eligiblePick Q req a k \<longleftrightarrow> Q a \<and> executorKeyFromAuth (Some a) = k \<and> \<not> Disabled a \<and> Status a \<noteq> StatusDisabled
     \<and> allows req a \<and> ID a \<notin> set (tried req) \<and> (pinnedAuthID req \<noteq> [] \<longrightarrow> ID a = pinnedAuthID req)"

lemma freeServing_eligible:
  assumes "provider_ok X Q t p" and "pProviderKey p = k" and "meta \<in> freeServing X u P p key"
    and "P = requestPredicate req (pinnedAuthID req) st"
  shows "eligiblePick Q req (mAuth meta) k"
proof -
  have "metaFor Q p meta" using assms(1,3) by (auto simp: freeServing_def intro: serving_metas_ok)
  then have "executorKeyFromAuth (Some (mAuth meta)) = k" "Q (mAuth meta)" "\<not> unschedulable (mAuth meta)"
    using assms(2) build_simps(3) by (metis metaFor_def)+
  moreover have "P meta" using assms(3) by (simp add: freeServing_def)
  ultimately show ?thesis
    unfolding assms(4) by (auto simp: eligiblePick_def requestPredicate_def scheduledAuthPredicate_def unschedulable_def)
qed

lemma pickFrom_eligible:
  assumes ok: "prov.all_ok X Q t s" and t: "ticks t clock" and env: "accessExp env = X"
    and r: "snd (pickFromProvider env k pe model pw st (requestPredicate req (pinnedAuthID req) st) clock s) = Inr a"
  shows "eligiblePick Q req a k"
proof (cases "map_of (providers s) k")
  case None
  with r show ?thesis by (simp add: pickFromProvider_def split_beta)
next
  case (Some p)
  from pickFrom_exact [OF ok t env Some refl refl, where pin = "pinnedAuthID req" and req = req and strat = st
      and pw = pw and model = model and pe = pe] r obtain meta where
    "meta \<in> metaPool pw (freeServing X (fst (snd clock)) (requestPredicate req (pinnedAuthID req) st) p
       (canonicalModelKey (canonicalModelKey model)))" "mAuth meta = a" by auto
  then show ?thesis
    using freeServing_eligible [OF _ _ _ refl, of X Q t p k meta] ok Some
    by (auto simp: metaPool_def prov.all_ok_def split: if_splits)
qed

lemma pickSingle_eligible:
  "prov.all_ok X Q t s \<Longrightarrow> ticks t clock \<Longrightarrow> accessExp env = X \<Longrightarrow>
   snd (pickSingleWithStrategy env req name model strat clock s) = Inr a \<Longrightarrow>
   eligiblePick Q req a (canonicalSchedulingProvider name)"
  unfolding pickSingleWithStrategy_def Let_def by (rule pickFrom_eligible)

lemma pickMixed_branches:
  "normalizeProviderKeys provs = [k0] \<Longrightarrow> snd (pickMixedWithStrategy env req provs model strat clock s) =
     map_sum id (\<lambda>a. (a, k0)) (snd (pickSingleWithStrategy env req k0 model strat clock s))"
  "2 \<le> length (normalizeProviderKeys provs) \<Longrightarrow> pinnedAuthID req \<noteq> [] \<Longrightarrow>
     pk = str_get (authProviders s) (pinnedAuthID req) \<Longrightarrow> st = resolveStrategy strat s \<Longrightarrow>
     snd (pickMixedWithStrategy env req provs model strat clock s) =
       (if pk = [] \<or> pk \<notin> set (normalizeProviderKeys provs) then Inl errNotFound
        else map_sum id (\<lambda>a. (a, pk)) (snd (pickFromProvider env pk ''mixed'' model False st
          (requestPredicate req (pinnedAuthID req) st) clock s)))"
  "2 \<le> length (normalizeProviderKeys provs) \<Longrightarrow> pinnedAuthID req = [] \<Longrightarrow> st = resolveStrategy strat s \<Longrightarrow>
     snd (pickMixedWithStrategy env req provs model strat clock s) = Inr r \<Longrightarrow>
     snd (mixedOutcome env st (requestPredicate req [] st) (normalizeProviderKeys provs) (canonicalModelKey model)
       (fst clock) s) = Some r"
proof -
  have nz: "normalizeProviderKeys provs \<noteq> []" "length (normalizeProviderKeys provs) \<noteq> 1"
    if "2 \<le> length (normalizeProviderKeys provs)" using that by auto
  show "normalizeProviderKeys provs = [k0] \<Longrightarrow> snd (pickMixedWithStrategy env req provs model strat clock s) =
     map_sum id (\<lambda>a. (a, k0)) (snd (pickSingleWithStrategy env req k0 model strat clock s))"
    by (simp add: pickMixedWithStrategy_def Let_def split_beta split: sum.splits)
  show "2 \<le> length (normalizeProviderKeys provs) \<Longrightarrow> pinnedAuthID req \<noteq> [] \<Longrightarrow>
     pk = str_get (authProviders s) (pinnedAuthID req) \<Longrightarrow> st = resolveStrategy strat s \<Longrightarrow>
     snd (pickMixedWithStrategy env req provs model strat clock s) =
       (if pk = [] \<or> pk \<notin> set (normalizeProviderKeys provs) then Inl errNotFound
        else map_sum id (\<lambda>a. (a, pk)) (snd (pickFromProvider env pk ''mixed'' model False st
          (requestPredicate req (pinnedAuthID req) st) clock s)))"
    using nz unfolding pickMixedWithStrategy_def Let_def by (simp add: split_beta split: sum.splits)
  show "2 \<le> length (normalizeProviderKeys provs) \<Longrightarrow> pinnedAuthID req = [] \<Longrightarrow> st = resolveStrategy strat s \<Longrightarrow>
     snd (pickMixedWithStrategy env req provs model strat clock s) = Inr r \<Longrightarrow>
     snd (mixedOutcome env st (requestPredicate req [] st) (normalizeProviderKeys provs) (canonicalModelKey model)
       (fst clock) s) = Some r"
    using nz unfolding pickMixedWithStrategy_def Let_def by (simp add: split_beta split: option.splits)
qed

lemma pickMixed_eligible:
  assumes ok: "prov.all_ok X Q t s" and t: "ticks t clock" and env: "accessExp env = X"
    and r: "snd (pickMixedWithStrategy env req provs model strat clock s) = Inr (a, k)"
  shows "k \<in> set (normalizeProviderKeys provs)
    \<and> (eligiblePick Q req a k \<or> eligiblePick Q req a (canonicalSchedulingProvider k))"
proof -
  let ?n = "normalizeProviderKeys provs"
  let ?st = "resolveStrategy strat s"
  consider (one) k0 where "?n = [k0]" | (pin) "2 \<le> length ?n" "pinnedAuthID req \<noteq> []"
    | (many) "2 \<le> length ?n" "pinnedAuthID req = []" | (none) "?n = []"
    by (cases ?n rule: remdups_adj.cases) auto
  then show ?thesis
  proof cases
    case one
    define rr where "rr = snd (pickSingleWithStrategy env req k0 model strat clock s)"
    have "map_sum id (\<lambda>a. (a, k0)) rr = Inr (a, k)"
      unfolding rr_def using trans [OF pickMixed_branches(1) [OF one, symmetric] r] .
    then have "rr = Inr a" "k = k0" by (cases rr; simp)+
    then have "snd (pickSingleWithStrategy env req k0 model strat clock s) = Inr a" "k = k0" by (simp_all add: rr_def)
    moreover from this(1) have "eligiblePick Q req a (canonicalSchedulingProvider k0)"
      by (rule pickSingle_eligible [OF ok t env])
    ultimately show ?thesis using one by simp
  next
    case pin
    define pk where "pk = str_get (authProviders s) (pinnedAuthID req)"
    define rr where "rr = snd (pickFromProvider env pk ''mixed'' model False ?st (requestPredicate req (pinnedAuthID req) ?st) clock s)"
    have "(if pk = [] \<or> pk \<notin> set ?n then Inl errNotFound else map_sum id (\<lambda>a. (a, pk)) rr) = Inr (a, k)"
      unfolding rr_def using trans [OF pickMixed_branches(2) [OF pin pk_def refl, symmetric] r] .
    then have "rr = Inr a" "k = pk" "pk \<in> set ?n" by (cases rr; simp split: if_splits)+
    then have "k \<in> set ?n \<and> snd (pickFromProvider env k ''mixed'' model False ?st
        (requestPredicate req (pinnedAuthID req) ?st) clock s) = Inr a" by (simp add: rr_def)
    then show ?thesis using pickFrom_eligible [OF ok t env] by blast
  next
    case many
    let ?P = "requestPredicate req [] ?st"
    have le: "0 \<le> t" "t \<le> fst clock" using t by (auto simp: ticks_def)
    have "snd (mixedOutcome env ?st ?P ?n (canonicalModelKey model) (fst clock) s) = Some (a, k)"
      using pickMixed_branches(3) [OF many refl r] .
    with mixedOutcome_exact [OF ok le env normalizeProviderKeys_spec(1) [of provs]
        requestPredicate_weight [of ?st req "[]"] refl, of "canonicalModelKey model"]
    have "\<exists>meta. (k, meta) \<in> freeAcross X (fst clock) ?P ?n (canonicalModelKey (canonicalModelKey model)) s \<and> mAuth meta = a"
      by fastforce
    then obtain meta where "(k, meta) \<in> freeAcross X (fst clock) ?P ?n (canonicalModelKey (canonicalModelKey model)) s"
      "mAuth meta = a" by auto
    then obtain p where "k \<in> set ?n" "map_of (providers s) k = Some p"
      "meta \<in> freeServing X (fst clock) ?P p (canonicalModelKey (canonicalModelKey model))" "mAuth meta = a"
      by (auto simp: freeAcross_def)
    with freeServing_eligible [of X Q t p k meta _ ?P] ok many show ?thesis
      by (auto simp: prov.all_ok_def)
  qed (use r in \<open>simp add: pickMixedWithStrategy_def Let_def\<close>)
qed

section \<open>Theorems\<close>

text \<open>
  Claim C4. The tables of the scheduler agree in every reachable state.  The routing table names for each
  credential exactly the provider that holds it, so no credential is held twice.  A provider holds under each
  identifier a credential with that identifier that is not disabled and routes to this provider.  Each of its
  shards is indexed consistently and contains exactly the credentials of the provider that support the
  shard's model.
\<close>

theorem scheduler_tables_agree:
  assumes "sched_reach X Q t s"
  shows "(\<forall>i k. map_of (authProviders s) i = Some k \<longleftrightarrow>
        (\<exists>p meta. map_of (providers s) k = Some p \<and> map_of (pAuths p) i = Some meta))
    \<and> (\<forall>k p. map_of (providers s) k = Some p \<longrightarrow>
        (\<forall>i meta. map_of (pAuths p) i = Some meta \<longrightarrow>
           ID (mAuth meta) = i \<and> executorKeyFromAuth (Some (mAuth meta)) = k
           \<and> \<not> Disabled (mAuth meta) \<and> Status (mAuth meta) \<noteq> StatusDisabled)
        \<and> (\<forall>key m. map_of (modelShards p) key = Some m \<longrightarrow> indexed m \<and> modelKey m = key
             \<and> (\<forall>i. map_of (entries m) i \<noteq> None \<longleftrightarrow> (\<exists>meta. map_of (pAuths p) i = Some meta \<and> supportsModel meta key))))"
proof (intro conjI allI impI)
  fix i k
  have "located s i = set_option (map_of (authProviders s) i)" using reach_routed [OF assms] by (simp add: routed_def)
  moreover have "k \<in> located s i \<longleftrightarrow> (\<exists>p meta. map_of (providers s) k = Some p \<and> map_of (pAuths p) i = Some meta)"
    by (auto simp: located_def)
  ultimately show "map_of (authProviders s) i = Some k \<longleftrightarrow>
        (\<exists>p meta. map_of (providers s) k = Some p \<and> map_of (pAuths p) i = Some meta)"
    by (metis elem_set)
next
  fix k p assume p: "map_of (providers s) k = Some p"
  have ok: "provider_ok X Q t p" "pProviderKey p = k" using reach_providers [OF assms] p by (auto simp: prov.all_ok_def)
  {
    fix i meta assume m: "map_of (pAuths p) i = Some meta"
    then have "ID (mAuth meta) = i" "metaFor Q p meta" using ok(1) by (auto simp: provider_ok_def)
    moreover from this(2) have "executorKeyFromAuth (Some (mAuth meta)) = k" "\<not> unschedulable (mAuth meta)"
      using ok(2) build_simps(3) by (metis metaFor_def)+
    ultimately show "ID (mAuth meta) = i" "executorKeyFromAuth (Some (mAuth meta)) = k"
      "\<not> Disabled (mAuth meta)" "Status (mAuth meta) \<noteq> StatusDisabled" by (auto simp: unschedulable_def)
  next
    fix key m assume "map_of (modelShards p) key = Some m"
    then have m: "shard_ok X Q t p key m" using ok(1) by (simp add: provider_ok_def)
    then show "indexed m" "modelKey m = key" by (simp_all add: shard_near_def)
    fix i
    show "map_of (entries m) i \<noteq> None \<longleftrightarrow> (\<exists>meta. map_of (pAuths p) i = Some meta \<and> supportsModel meta key)"
      using m unfolding shard_near_def by blast
  }
qed

theorem scheduler_tables_agree_witness:
  "map_of (authProviders wSched) ''a'' = Some ''p'' \<and>
   (\<exists>p meta. map_of (providers wSched) ''p'' = Some p \<and> map_of (pAuths p) ''a'' = Some meta)"
proof -
  have a: "map_of (authProviders wSched) ''a'' = Some ''p''" by code_simp
  with scheduler_tables_agree [OF wSched_reach] show ?thesis by blast
qed

text \<open>
  Claim C3. A removal outlives late updates.  Once a removal with epoch \<open>E\<close> has been accepted for a
  credential, then after any further operations (results and registrations that were issued before the removal,
  full rebuilds from old snapshots, picks, other removals) the scheduler holds this credential only from a
  registration of epoch \<open>E\<close> or later, and no pick, for one or for several providers, returns an
  older one.  The exceptions are an explicit reset of its generation and a wrap-around of its 64-bit epoch.
\<close>

theorem tombstone_blocks_stale:
  assumes "sched_reach X Q t s" and "TrimSpace i = i" and "i \<noteq> []" and "t \<le> now"
    and "\<forall>g. map_of (authGenerations s) i = Some g \<longrightarrow> gEpoch g \<le> E"
    and "sched_run X i now (RecordRemovalTombstone i E now s) t' s'"
    and "ticks t' clock" and "accessExp env = X"
  shows "(\<forall>k p meta. map_of (providers s') k = Some p \<longrightarrow> map_of (pAuths p) i = Some meta \<longrightarrow>
        E \<le> RegistrationEpoch (mAuth meta))
    \<and> (\<forall>a. snd (pickSingleWithStrategy env req name model strat clock s') = Inr a \<longrightarrow> ID a = i \<longrightarrow>
        E \<le> RegistrationEpoch a)
    \<and> (\<forall>a k. snd (pickMixedWithStrategy env req provs model strat clock s') = Inr (a, k) \<longrightarrow> ID a = i \<longrightarrow>
        E \<le> RegistrationEpoch a)"
proof -
  have ok: "prov.all_ok X (newEnough i E) t' s'"
    using run_keeps [OF assms(6) tombstone_clears [OF assms(1-5)]] by blast
  have "E \<le> RegistrationEpoch (mAuth meta)" if "map_of (providers s') k = Some p" "map_of (pAuths p) i = Some meta" for k p meta
  proof -
    have "provider_ok X (newEnough i E) t' p" using ok that(1) by (simp add: prov.all_ok_def)
    then have "ID (mAuth meta) = i" "metaFor (newEnough i E) p meta" using that(2) by (auto simp: provider_ok_def)
    then show ?thesis by (simp add: metaFor_def newEnough_def)
  qed
  moreover have "E \<le> RegistrationEpoch a"
    if "snd (pickSingleWithStrategy env req name model strat clock s') = Inr a" "ID a = i" for a
    using pickSingle_eligible [OF ok assms(7,8) that(1)] that(2) by (simp add: eligiblePick_def newEnough_def)
  moreover have "E \<le> RegistrationEpoch a"
    if "snd (pickMixedWithStrategy env req provs model strat clock s') = Inr (a, k)" "ID a = i" for a k
    using pickMixed_eligible [OF ok assms(7,8) that(1)] that(2) by (auto simp: eligiblePick_def newEnough_def)
  ultimately show ?thesis by blast
qed

text \<open>
  The run of the witness: the credential is removed with epoch 2, a result of its old registration arrives late,
  and then it is registered again with epoch 3.
\<close>

definition wLate :: authScheduler where
  "wLate = schedExec wEnv (4, 4, 4) (OpResult (Some (wCred ''a'' ''p'' 1)) [] True) (RecordRemovalTombstone ''a'' 2 3 wSched)"

definition wAfter :: authScheduler where
  "wAfter = schedExec wEnv (5, 5, 5) (OpUpsert (Some (wCred ''a'' ''p'' 3))) wLate"

theorem tombstone_blocks_stale_witness:
  "map_of (authProviders wLate) ''a'' = None
   \<and> (\<exists>a. snd (pickSingleWithStrategy wEnv wReq ''p'' ''m'' schedulerStrategyCurrent (6, 6, 6) wAfter) = Inr a
        \<and> ID a = ''a'' \<and> 2 \<le> RegistrationEpoch a)"
proof
  show "map_of (authProviders wLate) ''a'' = None" by code_simp
  have tr: "TrimSpace ''a'' = ''a''" by code_simp
  have gen: "\<forall>g. map_of (authGenerations wSched) ''a'' = Some g \<longrightarrow> gEpoch g \<le> 2"
  proof -
    have "map_option gEpoch (map_of (authGenerations wSched) ''a'') = Some 1" by code_simp
    then show ?thesis by auto
  qed
  have env: "accessExp wEnv = (\<lambda>_. None)" by (simp add: wEnv_def)
  have res: "\<forall>a \<in> opAuths (OpResult (Some (wCred ''a'' ''p'' 1)) [] True). TrimSpace (ID a) = ID a"
    and up: "\<forall>a \<in> opAuths (OpUpsert (Some (wCred ''a'' ''p'' 3))). TrimSpace (ID a) = ID a"
    using tr by (simp_all add: wCred_def emptyAuth_def)
  have "sched_run (\<lambda>_. None) ''a'' 3 (RecordRemovalTombstone ''a'' 2 3 wSched) 4 wLate"
    using run_step [OF run_refl _ env res, of 3 "(4, 4, 4)" "''a''"] by (simp add: wLate_def ticks_def keepsEpoch_def)
  from run_step [OF this _ env up, of "(5, 5, 5)"]
  have run: "sched_run (\<lambda>_. None) ''a'' 3 (RecordRemovalTombstone ''a'' 2 3 wSched) 5 wAfter"
    by (simp add: wAfter_def ticks_def keepsEpoch_def)
  have "map_sum (\<lambda>_. ()) ID (snd (pickSingleWithStrategy wEnv wReq ''p'' ''m'' schedulerStrategyCurrent (6, 6, 6) wAfter)) = Inr ''a''"
    by code_simp
  then obtain a where a: "snd (pickSingleWithStrategy wEnv wReq ''p'' ''m'' schedulerStrategyCurrent (6, 6, 6) wAfter) = Inr a"
    "ID a = ''a''" by (cases "snd (pickSingleWithStrategy wEnv wReq ''p'' ''m'' schedulerStrategyCurrent (6, 6, 6) wAfter)") auto
  have "ticks 5 (6, 6, 6)" "''a'' \<noteq> []" "(1 :: gotime) \<le> 3" by (simp_all add: ticks_def)
  with a tombstone_blocks_stale [OF wSched_reach tr _ _ gen run _ env] show
    "\<exists>a. snd (pickSingleWithStrategy wEnv wReq ''p'' ''m'' schedulerStrategyCurrent (6, 6, 6) wAfter) = Inr a
        \<and> ID a = ''a'' \<and> 2 \<le> RegistrationEpoch a" by blast
qed

end
