(* ===== verification/UsageQueue.thy ===== *)
theory UsageQueue
  imports GoPrelude "HOL-Library.Sublist" "HOL-Library.Multiset"
begin

text \<open>
  The in-memory usage queue of \<open>src/internal/redisqueue/queue.go\<close>.  Items sit in a slice with a moving head;
  the slice is compacted when the dead prefix grows.  Subscribers are channels of bounded capacity, modelled as
  the list of buffered payloads together with a flag for closed channels that still hold messages; a
  channel whose buffer is full is dropped and closed.  The specification is a plain
  first-in first-out list of time-stamped payloads.
\<close>

section \<open>Model\<close>

type_synonym payload = string

record queueItem =
  enqueuedAt :: gotime
  qpayload :: payload

text \<open>A Go channel with its buffer capacity: the payloads waiting in it and whether it is closed.\<close>

record channel =
  chCap :: nat
  chBuf :: "payload list"
  chClosed :: bool

record queue =
  items :: "queueItem list"
  head :: nat
  subscribers :: "(nat, channel) gomap"
  nextSubscriberID :: nat
  detached :: "(nat, channel) gomap"

definition emptyQueue :: queue where
  "emptyQueue = \<lparr>items = [], head = 0, subscribers = [], nextSubscriberID = 0, detached = []\<rparr>"

definition defaultRetentionSeconds :: int where "defaultRetentionSeconds = 60"
definition maxRetentionSeconds :: int where "maxRetentionSeconds = 3600"
definition usageSubscriberBuffer :: nat where "usageSubscriberBuffer = 256"
definition errorSubscriberBuffer :: nat where "errorSubscriberBuffer = 256"

definition SetRetentionSeconds :: "int \<Rightarrow> int" where
  "SetRetentionSeconds v =
     (if v \<le> 0 then defaultRetentionSeconds
      else if v > maxRetentionSeconds then maxRetentionSeconds else v)"

text \<open>\<open>pruneLocked\<close>: the retention window is the value of the atomic.\<close>

function pruneLoop :: "gotime \<Rightarrow> queueItem list \<Rightarrow> nat \<Rightarrow> nat" where
  "pruneLoop cutoff its h =
     (if h < length its \<and> Before (enqueuedAt (its ! h)) cutoff then pruneLoop cutoff its (h + 1) else h)"
  by auto
termination by (relation "measure (\<lambda>(_, its, h). length its - h)") auto

declare pruneLoop.simps [simp del]

definition pruneCutoff :: "int \<Rightarrow> gotime \<Rightarrow> gotime" where
  "pruneCutoff retention now =
     (let windowSeconds = (if retention \<le> 0 then defaultRetentionSeconds else retention)
      in now - windowSeconds * Second)"

definition pruneLocked :: "int \<Rightarrow> gotime \<Rightarrow> queue \<Rightarrow> queue" where
  "pruneLocked retention now q =
     (if head q \<ge> length (items q) then q\<lparr>items := [], head := 0\<rparr>
      else q\<lparr>head := pruneLoop (pruneCutoff retention now) (items q) (head q)\<rparr>)"

definition maybeCompactLocked :: "queue \<Rightarrow> queue" where
  "maybeCompactLocked q =
     (if head q = 0 then q
      else if head q \<ge> length (items q) then q\<lparr>items := [], head := 0\<rparr>
      else if head q < 1024 \<and> head q * 2 < length (items q) then q
      else q\<lparr>items := drop (head q) (items q), head := 0\<rparr>)"

definition queue_enqueue :: "int \<Rightarrow> gotime \<Rightarrow> payload \<Rightarrow> queue \<Rightarrow> queue" where
  "queue_enqueue retention now p q =
     (let q = pruneLocked retention now q
      in maybeCompactLocked (q\<lparr>items := items q @ [\<lparr>enqueuedAt = now, qpayload = p\<rparr>]\<rparr>))"

definition queue_popOldest :: "int \<Rightarrow> gotime \<Rightarrow> nat \<Rightarrow> queue \<Rightarrow> queue \<times> payload list" where
  "queue_popOldest retention now cnt q =
     (let q = pruneLocked retention now q;
          available = length (items q) - head q
      in if available = 0 then (q\<lparr>items := [], head := 0\<rparr>, [])
         else
           (let cnt = (if cnt > available then available else cnt);
                out = map (\<lambda>i. qpayload (items q ! (head q + i))) [0..<cnt]
            in (maybeCompactLocked (q\<lparr>head := head q + cnt\<rparr>), out)))"

text \<open>A non-blocking send: it succeeds when the buffer has room.\<close>

definition hasRoom :: "channel \<Rightarrow> bool" where
  "hasRoom ch \<longleftrightarrow> length (chBuf ch) < chCap ch"

definition closeChannels :: "(nat, channel) gomap \<Rightarrow> (nat, channel) gomap" where
  "closeChannels chs = map_vals (\<lambda>_ ch. ch\<lparr>chClosed := True\<rparr>) chs"

definition publishToSubscribers :: "payload \<Rightarrow> queue \<Rightarrow> queue \<times> bool" where
  "publishToSubscribers p q =
     (if subscribers q = [] then (q, False)
      else (q\<lparr>subscribers := map_vals (\<lambda>_ ch. ch\<lparr>chBuf := chBuf ch @ [p]\<rparr>) (filter (\<lambda>(_, ch). hasRoom ch) (subscribers q)),
              detached := closeChannels (filter (\<lambda>(_, ch). \<not> hasRoom ch) (subscribers q)) @ detached q\<rparr>, True))"

definition subscribe :: "nat \<Rightarrow> payload \<Rightarrow> queue \<Rightarrow> queue \<times> nat" where
  "subscribe buffer initialPayload q =
     (let ch = \<lparr>chCap = buffer, chBuf = (if initialPayload \<noteq> [] then [initialPayload] else []), chClosed = False\<rparr>;
          sid = wrapU64 (nextSubscriberID q + 1)
      in (q\<lparr>nextSubscriberID := sid, subscribers := AList.update sid ch (subscribers q)\<rparr>, sid))"

definition unsubscribe :: "nat \<Rightarrow> queue \<Rightarrow> queue" where
  "unsubscribe sid q =
     (case map_of (subscribers q) sid of
        None \<Rightarrow> q
      | Some ch \<Rightarrow> q\<lparr>subscribers := AList.delete sid (subscribers q),
                     detached := closeChannels [(sid, ch)] @ detached q\<rparr>)"

definition queue_clear :: "queue \<Rightarrow> queue" where
  "queue_clear q = q\<lparr>items := [], head := 0, subscribers := [], detached := closeChannels (subscribers q) @ detached q\<rparr>"

section \<open>The package: two queues, a switch and the retention\<close>

record usageState =
  enabled :: bool
  retentionSeconds :: int
  globalQ :: queue
  errorQ :: queue

definition initUsage :: usageState where
  "initUsage = \<lparr>enabled = False, retentionSeconds = defaultRetentionSeconds, globalQ = emptyQueue, errorQ = emptyQueue\<rparr>"

definition SetEnabled :: "bool \<Rightarrow> usageState \<Rightarrow> usageState" where
  "SetEnabled v u =
     (let u = u\<lparr>enabled := v\<rparr>
      in if \<not> v then u\<lparr>globalQ := queue_clear (globalQ u), errorQ := queue_clear (errorQ u)\<rparr> else u)"

definition setRetention :: "int \<Rightarrow> usageState \<Rightarrow> usageState" where
  "setRetention v u = u\<lparr>retentionSeconds := SetRetentionSeconds v\<rparr>"

definition Enqueue :: "gotime \<Rightarrow> payload \<Rightarrow> usageState \<Rightarrow> usageState" where
  "Enqueue now p u =
     (if \<not> enabled u \<or> p = [] then u
      else
        (let (q, sent) = publishToSubscribers p (globalQ u)
         in if sent then u\<lparr>globalQ := q\<rparr>
            else u\<lparr>globalQ := queue_enqueue (retentionSeconds u) now p q\<rparr>))"

definition EnqueueError :: "payload \<Rightarrow> usageState \<Rightarrow> usageState" where
  "EnqueueError p u =
     (if \<not> enabled u \<or> p = [] then u else u\<lparr>errorQ := fst (publishToSubscribers p (errorQ u))\<rparr>)"

definition PopOldest :: "gotime \<Rightarrow> int \<Rightarrow> usageState \<Rightarrow> usageState \<times> payload list" where
  "PopOldest now cnt u =
     (if \<not> enabled u \<or> cnt \<le> 0 then (u, [])
      else
        (let (q, out) = queue_popOldest (retentionSeconds u) now (nat cnt) (globalQ u)
         in (u\<lparr>globalQ := q\<rparr>, out)))"

definition usageSupportRefreshPayload :: payload where "usageSupportRefreshPayload = ''{\"support_refresh\":true}''"
definition usageRefreshPayload :: payload where "usageRefreshPayload = ''{\"refresh\":true}''"

definition SubscribeUsage :: "usageState \<Rightarrow> usageState \<times> nat" where
  "SubscribeUsage u =
     (let (q, sid) = subscribe usageSubscriberBuffer usageSupportRefreshPayload (globalQ u) in (u\<lparr>globalQ := q\<rparr>, sid))"

definition SubscribeErrors :: "usageState \<Rightarrow> usageState \<times> nat" where
  "SubscribeErrors u =
     (let (q, sid) = subscribe errorSubscriberBuffer [] (errorQ u) in (u\<lparr>errorQ := q\<rparr>, sid))"

definition NotifyUsageRefresh :: "usageState \<Rightarrow> usageState" where
  "NotifyUsageRefresh u = u\<lparr>globalQ := fst (publishToSubscribers usageRefreshPayload (globalQ u))\<rparr>"

section \<open>First in, first out, with retention\<close>

text \<open>
  The contract of a retention queue: entries older than a cutoff that moves with time may be forgotten
  from the front, everything else leaves in the order of arrival.
\<close>

datatype 'p qop = QEnq gotime 'p | QPop gotime nat

fun opTime :: "'p qop \<Rightarrow> gotime" where
  "opTime (QEnq t p) = t"
| "opTime (QPop t n) = t"

definition enqueued :: "'p qop list \<Rightarrow> (gotime \<times> 'p) list" where
  "enqueued ops = List.map_filter (\<lambda>qo. case qo of QEnq t p \<Rightarrow> Some (t, p) | QPop _ _ \<Rightarrow> None) ops"

lemma enqueued_simps [simp]:
  "enqueued [] = []" "enqueued (QEnq t p # ops) = (t, p) # enqueued ops" "enqueued (QPop t n # ops) = enqueued ops"
  "enqueued (xs @ ys) = enqueued xs @ enqueued ys"
  by (simp_all add: enqueued_def List.map_filter_def)

locale retention_queue =
  fixes enq :: "gotime \<Rightarrow> 'p \<Rightarrow> 'q \<Rightarrow> 'q"
    and pop :: "gotime \<Rightarrow> nat \<Rightarrow> 'q \<Rightarrow> 'q \<times> 'p list"
    and contents :: "'q \<Rightarrow> (gotime \<times> 'p) list"
    and ok :: "'q \<Rightarrow> bool"
    and cutoff :: "gotime \<Rightarrow> gotime"
  assumes cutoff_mono: "t \<le> u \<Longrightarrow> cutoff t \<le> cutoff u"
    and enq_ok: "ok q \<Longrightarrow> ok (enq t p q)"
    and pop_ok: "ok q \<Longrightarrow> ok (fst (pop t n q))"
    and enq_contents: "ok q \<Longrightarrow> contents (enq t p q) = dropWhile (\<lambda>x. fst x < cutoff t) (contents q) @ [(t, p)]"
    and pop_contents: "ok q \<Longrightarrow> contents (fst (pop t n q)) = drop n (dropWhile (\<lambda>x. fst x < cutoff t) (contents q))"
    and pop_result: "ok q \<Longrightarrow> snd (pop t n q) = map snd (take n (dropWhile (\<lambda>x. fst x < cutoff t) (contents q)))"
begin

fun run :: "'p qop list \<Rightarrow> 'q \<Rightarrow> 'q \<times> 'p list" where
  "run [] q = (q, [])"
| "run (QEnq t p # ops) q = run ops (enq t p q)"
| "run (QPop t n # ops) q = (fst (run ops (fst (pop t n q))), snd (pop t n q) @ snd (run ops (fst (pop t n q))))"

lemma run_ok: "ok q \<Longrightarrow> ok (fst (run ops q))"
  by (induction ops q rule: run.induct) (simp_all add: enq_ok pop_ok)

text \<open>Every entry is popped, still there, or was too old by the end; order is kept.\<close>

lemma run_accounts:
  assumes "ok q" and "sorted (map opTime ops)" and "\<forall>qo \<in> set ops. opTime qo \<le> fin"
  shows "\<exists>popped lost. snd (run ops q) = map snd popped
    \<and> mset (contents q @ enqueued ops) = mset popped + mset lost + mset (contents (fst (run ops q)))
    \<and> subseq (popped @ contents (fst (run ops q))) (contents q @ enqueued ops)
    \<and> (\<forall>x \<in> set lost. fst x < cutoff fin)"
  using assms
proof (induction ops q rule: run.induct)
  case (1 q)
  show ?case by (rule exI [of _ "[]"], rule exI [of _ "[]"]) simp
next
  case (2 t p ops q)
  let ?P = "\<lambda>x. fst x < cutoff t"
  have d: "contents q = takeWhile ?P (contents q) @ dropWhile ?P (contents q)" by simp
  obtain popped lost where IH: "snd (run ops (enq t p q)) = map snd popped"
    "mset (contents (enq t p q) @ enqueued ops) = mset popped + mset lost + mset (contents (fst (run ops (enq t p q))))"
    "subseq (popped @ contents (fst (run ops (enq t p q)))) (contents (enq t p q) @ enqueued ops)"
    "\<forall>x \<in> set lost. fst x < cutoff fin"
    using "2.IH" "2.prems" enq_ok by fastforce
  let ?lost = "takeWhile ?P (contents q) @ lost"
  have "cutoff t \<le> cutoff fin" using "2.prems"(3) by (intro cutoff_mono) simp
  then have "\<forall>x \<in> set ?lost. fst x < cutoff fin" using IH(4) by (auto dest: set_takeWhileD)
  moreover have "mset (contents q @ enqueued (QEnq t p # ops)) =
      mset popped + mset ?lost + mset (contents (fst (run (QEnq t p # ops) q)))"
  proof -
    have "mset (contents q) = mset (takeWhile ?P (contents q)) + mset (dropWhile ?P (contents q))"
      by (metis d mset_append)
    then show ?thesis using IH(2) by (simp add: enq_contents [OF "2.prems"(1)] ac_simps)
  qed
  moreover have "subseq (popped @ contents (fst (run (QEnq t p # ops) q))) (contents q @ enqueued (QEnq t p # ops))"
  proof -
    have "subseq (popped @ contents (fst (run (QEnq t p # ops) q))) (dropWhile ?P (contents q) @ enqueued (QEnq t p # ops))"
      using IH(3) by (simp add: enq_contents [OF "2.prems"(1)])
    then have "subseq (popped @ contents (fst (run (QEnq t p # ops) q)))
        (takeWhile ?P (contents q) @ dropWhile ?P (contents q) @ enqueued (QEnq t p # ops))"
      by (rule list_emb_append2)
    then show ?thesis by (simp flip: append_assoc)
  qed
  ultimately show ?case using IH(1) by (intro exI [of _ popped] exI [of _ ?lost]) simp
next
  case (3 t n ops q)
  let ?P = "\<lambda>x. fst x < cutoff t"
  let ?live = "dropWhile ?P (contents q)"
  obtain q1 out where pq: "pop t n q = (q1, out)" by fastforce
  have q1: "contents q1 = drop n ?live" "out = map snd (take n ?live)" "ok q1"
    using pop_contents [of q t n] pop_result [of q t n] pop_ok [of q t n] "3.prems"(1) pq by auto
  obtain popped lost where IH: "snd (run ops q1) = map snd popped"
    "mset (contents q1 @ enqueued ops) = mset popped + mset lost + mset (contents (fst (run ops q1)))"
    "subseq (popped @ contents (fst (run ops q1))) (contents q1 @ enqueued ops)"
    "\<forall>x \<in> set lost. fst x < cutoff fin"
    using "3.IH"(1) "3.prems"(2,3) q1(3) pq by fastforce
  let ?lost = "takeWhile ?P (contents q) @ lost" and ?popped = "take n ?live @ popped"
  have split: "contents q = takeWhile ?P (contents q) @ take n ?live @ drop n ?live" by simp
  have r: "fst (run (QPop t n # ops) q) = fst (run ops q1)" "snd (run (QPop t n # ops) q) = map snd ?popped"
    using pq q1(2) IH(1) by (simp_all add: split_beta)
  have "cutoff t \<le> cutoff fin" using "3.prems"(3) by (intro cutoff_mono) simp
  then have "\<forall>x \<in> set ?lost. fst x < cutoff fin" using IH(4) by (auto dest: set_takeWhileD)
  moreover have "mset (contents q @ enqueued (QPop t n # ops)) =
      mset ?popped + mset ?lost + mset (contents (fst (run (QPop t n # ops) q)))"
  proof -
    have "mset (contents q) = mset (takeWhile ?P (contents q)) + mset (take n ?live) + mset (drop n ?live)"
      by (metis split mset_append add.assoc)
    then show ?thesis using IH(2) unfolding r by (simp add: q1(1) ac_simps)
  qed
  moreover have "subseq (?popped @ contents (fst (run (QPop t n # ops) q))) (contents q @ enqueued (QPop t n # ops))"
  proof -
    have "subseq (take n ?live @ popped @ contents (fst (run ops q1))) (take n ?live @ drop n ?live @ enqueued ops)"
      using IH(3) by (simp only: q1(1) subseq_append' append_assoc)
    then have "subseq (take n ?live @ popped @ contents (fst (run ops q1)))
        (takeWhile ?P (contents q) @ take n ?live @ drop n ?live @ enqueued ops)"
      by (rule list_emb_append2)
    then show ?thesis unfolding r by (simp flip: append_assoc) 
  qed
  ultimately show ?case using r by (intro exI [of _ ?popped] exI [of _ ?lost]) blast
qed

end

section \<open>The queue keeps the contract\<close>

definition stamped :: "queue \<Rightarrow> (gotime \<times> payload) list" where
  "stamped q = map (\<lambda>it. (enqueuedAt it, qpayload it)) (drop (head q) (items q))"

definition queue_ok :: "queue \<Rightarrow> bool" where
  "queue_ok q \<longleftrightarrow> head q \<le> length (items q)"

lemma pruneLoop_spec:
  "h \<le> length its \<Longrightarrow> pruneLoop c its h \<le> length its
     \<and> drop (pruneLoop c its h) its = dropWhile (\<lambda>it. enqueuedAt it < c) (drop h its)"
proof (induction c its h rule: pruneLoop.induct)
  case (1 c its h)
  show ?case
  proof (cases "h < length its \<and> enqueuedAt (its ! h) < c")
    case True
    moreover have "drop h its = its ! h # drop (Suc h) its" using True by (simp add: Cons_nth_drop_Suc)
    ultimately show ?thesis using 1 by (simp add: pruneLoop.simps [of c its h])
  next
    case False
    then have "dropWhile (\<lambda>it. enqueuedAt it < c) (drop h its) = drop h its"
      by (cases "h < length its") (simp_all add: dropWhile_eq_self hd_drop_conv_nth)
    moreover have "pruneLoop c its h = h" using False by (subst pruneLoop.simps) auto
    ultimately show ?thesis using 1(2) by simp
  qed
qed

lemma prune_spec:
  assumes "queue_ok q"
  shows "queue_ok (pruneLocked r now q)"
    and "drop (head (pruneLocked r now q)) (items (pruneLocked r now q)) =
      dropWhile (\<lambda>it. enqueuedAt it < pruneCutoff r now) (drop (head q) (items q))"
  using pruneLoop_spec [of "head q" "items q" "pruneCutoff r now"] assms
  by (auto simp: pruneLocked_def queue_ok_def)

lemma compact_spec:
  "queue_ok q \<Longrightarrow> queue_ok (maybeCompactLocked q)
     \<and> drop (head (maybeCompactLocked q)) (items (maybeCompactLocked q)) = drop (head q) (items q)"
  by (simp add: maybeCompactLocked_def queue_ok_def)

lemma stamped_dropWhile:
  "map (\<lambda>it. (enqueuedAt it, qpayload it)) (dropWhile (\<lambda>it. enqueuedAt it < c) xs) =
     dropWhile (\<lambda>x. fst x < c) (map (\<lambda>it. (enqueuedAt it, qpayload it)) xs)"
  by (simp add: dropWhile_map comp_def)

lemma enqueue_spec:
  assumes "queue_ok q"
  shows "queue_ok (queue_enqueue r t p q)"
    and "stamped (queue_enqueue r t p q) = dropWhile (\<lambda>x. fst x < pruneCutoff r t) (stamped q) @ [(t, p)]"
proof -
  let ?q = "pruneLocked r t q"
  let ?q' = "?q\<lparr>items := items ?q @ [\<lparr>enqueuedAt = t, qpayload = p\<rparr>]\<rparr>"
  have ok: "queue_ok ?q'" using prune_spec(1) [OF assms, of r t] by (simp add: queue_ok_def)
  have eq: "queue_enqueue r t p q = maybeCompactLocked ?q'" by (simp add: queue_enqueue_def Let_def)
  show "queue_ok (queue_enqueue r t p q)" unfolding eq using compact_spec [OF ok] by blast
  have "drop (head ?q') (items ?q') = drop (head ?q) (items ?q) @ [\<lparr>enqueuedAt = t, qpayload = p\<rparr>]"
    using prune_spec(1) [OF assms, of r t] by (simp add: queue_ok_def)
  then show "stamped (queue_enqueue r t p q) = dropWhile (\<lambda>x. fst x < pruneCutoff r t) (stamped q) @ [(t, p)]"
    unfolding eq stamped_def using compact_spec [OF ok] prune_spec(2) [OF assms, of r t]
    by (simp add: stamped_dropWhile)
qed

lemma pop_spec:
  assumes "queue_ok q" and live_def: "live = dropWhile (\<lambda>x. fst x < pruneCutoff r t) (stamped q)"
  shows "queue_ok (fst (queue_popOldest r t n q))"
    and "stamped (fst (queue_popOldest r t n q)) = drop n live"
    and "snd (queue_popOldest r t n q) = map snd (take n live)"
proof -
  let ?q = "pruneLocked r t q"
  have ok: "queue_ok ?q" by (rule prune_spec(1) [OF assms(1)])
  have live: "live = map (\<lambda>it. (enqueuedAt it, qpayload it)) (drop (head ?q) (items ?q))"
    unfolding live_def stamped_def prune_spec(2) [OF assms(1)] by (simp add: stamped_dropWhile)
  have "queue_ok (fst (queue_popOldest r t n q)) \<and> stamped (fst (queue_popOldest r t n q)) = drop n live
      \<and> snd (queue_popOldest r t n q) = map snd (take n live)"
  proof (cases "length (items ?q) - head ?q = 0")
    case True
    then have "live = []" by (simp add: live)
    with True show ?thesis by (simp add: queue_popOldest_def Let_def queue_ok_def stamped_def)
  next
    case False
    define c where "c = (if n > length (items ?q) - head ?q then length (items ?q) - head ?q else n)"
    let ?q' = "?q\<lparr>head := head ?q + c\<rparr>"
    have ok': "queue_ok ?q'" using False ok by (auto simp: queue_ok_def c_def)
    have eq: "queue_popOldest r t n q = (maybeCompactLocked ?q', map (\<lambda>i. qpayload (items ?q ! (head ?q + i))) [0..<c])"
      using False by (simp add: queue_popOldest_def Let_def c_def)
    have "drop c live = drop n live" "take c live = take n live" by (auto simp: live c_def)
    moreover have "stamped (maybeCompactLocked ?q') = drop c live"
      using compact_spec [OF ok'] by (simp add: stamped_def live drop_map add.commute)
    moreover have "map (\<lambda>i. qpayload (items ?q ! (head ?q + i))) [0..<c] = map snd (take c live)"
      using False by (intro nth_equalityI) (auto simp: live c_def split: if_splits)
    ultimately show ?thesis unfolding eq using compact_spec [OF ok'] by simp
  qed
  then show "queue_ok (fst (queue_popOldest r t n q))"
    and "stamped (fst (queue_popOldest r t n q)) = drop n live"
    and "snd (queue_popOldest r t n q) = map snd (take n live)" by blast+
qed

interpretation uq: retention_queue "queue_enqueue r" "queue_popOldest r" stamped queue_ok "pruneCutoff r" for r
  by unfold_locales (simp_all add: enqueue_spec pop_spec [OF _ refl] pruneCutoff_def Let_def)

text \<open>A run of the queue's own operations.\<close>

fun queueRun :: "int \<Rightarrow> payload qop list \<Rightarrow> queue \<Rightarrow> queue \<times> payload list" where
  "queueRun r [] q = (q, [])"
| "queueRun r (QEnq t p # ops) q = queueRun r ops (queue_enqueue r t p q)"
| "queueRun r (QPop t n # ops) q =
     (fst (queueRun r ops (fst (queue_popOldest r t n q))),
      snd (queue_popOldest r t n q) @ snd (queueRun r ops (fst (queue_popOldest r t n q))))"

lemma queueRun_run: "queueRun r ops q = uq.run r ops q"
  by (induction r ops q rule: queueRun.induct) simp_all

text \<open>
  Claim C39. The usage queue is first in, first out, and loses nothing young.  Over any sequence of enqueues and
  pops at times that do not decrease, the popped payloads followed by what is left in the queue form a
  subsequence of the enqueued ones in their order, and every payload that is neither popped nor left was
  older than the retention window at the end.  Pruning, the moving head and the compaction of the slice
  are invisible.
\<close>

theorem usage_queue_accounts:
  assumes "sorted (map opTime ops)" and "\<forall>qo \<in> set ops. opTime qo \<le> fin"
  shows "\<exists>popped lost. snd (queueRun r ops emptyQueue) = map snd popped
    \<and> mset (enqueued ops) = mset popped + mset lost + mset (stamped (fst (queueRun r ops emptyQueue)))
    \<and> subseq (popped @ stamped (fst (queueRun r ops emptyQueue))) (enqueued ops)
    \<and> (\<forall>x \<in> set lost. fst x < pruneCutoff r fin)"
proof -
  have "queue_ok emptyQueue" "stamped emptyQueue = []" by (simp_all add: queue_ok_def stamped_def emptyQueue_def)
  with uq.run_accounts [of emptyQueue ops fin r] assms show ?thesis by (simp add: queueRun_run)
qed

definition wOps :: "payload qop list" where
  "wOps = [QEnq 0 ''x'', QEnq (70 * Second) ''y'', QEnq (71 * Second) ''z'', QPop (72 * Second) 1]"

theorem usage_queue_accounts_witness:
  "snd (queueRun 60 wOps emptyQueue) = [''y'']
   \<and> (\<exists>popped lost. snd (queueRun 60 wOps emptyQueue) = map snd popped
    \<and> mset (enqueued wOps) = mset popped + mset lost + mset (stamped (fst (queueRun 60 wOps emptyQueue)))
    \<and> subseq (popped @ stamped (fst (queueRun 60 wOps emptyQueue))) (enqueued wOps)
    \<and> Ball (set lost) (\<lambda>x. fst x < pruneCutoff 60 (72 * Second)))"
proof
  show "snd (queueRun 60 wOps emptyQueue) = [''y'']" by code_simp
  have "sorted (map opTime wOps)" "\<forall>qo \<in> set wOps. opTime qo \<le> 72 * Second"
    by (simp_all add: wOps_def Second_def)
  from usage_queue_accounts [OF this, of 60] show "\<exists>popped lost. snd (queueRun 60 wOps emptyQueue) = map snd popped
    \<and> mset (enqueued wOps) = mset popped + mset lost + mset (stamped (fst (queueRun 60 wOps emptyQueue)))
    \<and> subseq (popped @ stamped (fst (queueRun 60 wOps emptyQueue))) (enqueued wOps)
    \<and> Ball (set lost) (\<lambda>x. fst x < pruneCutoff 60 (72 * Second))" by simp
qed

end
