(* ===== verification/GoList.thy ===== *)
theory GoList
  imports GoPrelude
begin

text \<open>
  Doubly linked lists of Go's \<open>container/list\<close>.  Callers hold pointers to elements and move or remove
  through them, so an element is a value with an identity; a list is the sequence of its elements and
  the next fresh identity.  Operations on an element that is not in the list do nothing, as in Go.
\<close>

section \<open>Model\<close>

type_synonym element = nat

record 'a golist =
  lelems :: "(element \<times> 'a) list"
  lnext :: element

definition list_New :: "'a golist" where
  "list_New = \<lparr>lelems = [], lnext = 0\<rparr>"

definition PushFront :: "'a \<Rightarrow> 'a golist \<Rightarrow> 'a golist \<times> element" where
  "PushFront v l = (l\<lparr>lelems := (lnext l, v) # lelems l, lnext := lnext l + 1\<rparr>, lnext l)"

definition PushBack :: "'a \<Rightarrow> 'a golist \<Rightarrow> 'a golist \<times> element" where
  "PushBack v l = (l\<lparr>lelems := lelems l @ [(lnext l, v)], lnext := lnext l + 1\<rparr>, lnext l)"

definition list_Remove :: "element \<Rightarrow> 'a golist \<Rightarrow> 'a golist" where
  "list_Remove e l = l\<lparr>lelems := filter (\<lambda>x. fst x \<noteq> e) (lelems l)\<rparr>"

definition MoveToFront :: "element \<Rightarrow> 'a golist \<Rightarrow> 'a golist" where
  "MoveToFront e l =
     (case map_of (lelems l) e of
        None \<Rightarrow> l
      | Some v \<Rightarrow> l\<lparr>lelems := (e, v) # filter (\<lambda>x. fst x \<noteq> e) (lelems l)\<rparr>)"

definition list_Front :: "'a golist \<Rightarrow> (element \<times> 'a) option" where
  "list_Front l = (case lelems l of [] \<Rightarrow> None | x # _ \<Rightarrow> Some x)"

definition list_Back :: "'a golist \<Rightarrow> (element \<times> 'a) option" where
  "list_Back l = (case rev (lelems l) of [] \<Rightarrow> None | x # _ \<Rightarrow> Some x)"

definition list_Len :: "'a golist \<Rightarrow> nat" where
  "list_Len l = length (lelems l)"

definition elemValue :: "element \<Rightarrow> 'a golist \<Rightarrow> 'a option" where
  "elemValue e l = map_of (lelems l) e"

section \<open>Well-formed lists and their values\<close>

definition wf_list :: "'a golist \<Rightarrow> bool" where
  "wf_list l \<longleftrightarrow> distinct (map fst (lelems l)) \<and> (\<forall>x \<in> set (lelems l). fst x < lnext l)"

definition listValues :: "'a golist \<Rightarrow> 'a list" where
  "listValues l = map snd (lelems l)"

lemma wf_list_New [simp]: "wf_list list_New" and listValues_New [simp]: "listValues list_New = []"
  by (simp_all add: wf_list_def listValues_def list_New_def)

lemma wf_PushFront: "wf_list l \<Longrightarrow> wf_list (fst (PushFront v l))"
  by (auto simp: wf_list_def PushFront_def)

lemma wf_PushBack: "wf_list l \<Longrightarrow> wf_list (fst (PushBack v l))"
  by (auto simp: wf_list_def PushBack_def)

lemma wf_Remove: "wf_list l \<Longrightarrow> wf_list (list_Remove e l)"
  by (auto simp: wf_list_def list_Remove_def distinct_map_filter)

lemma wf_MoveToFront: "wf_list l \<Longrightarrow> wf_list (MoveToFront e l)"
  by (auto simp: wf_list_def MoveToFront_def distinct_map_filter split: option.split dest: map_of_SomeD)

lemma listValues_PushFront [simp]: "listValues (fst (PushFront v l)) = v # listValues l"
  by (simp add: PushFront_def listValues_def)

lemma listValues_PushBack [simp]: "listValues (fst (PushBack v l)) = listValues l @ [v]"
  by (simp add: PushBack_def listValues_def)

lemma list_Len_values: "list_Len l = length (listValues l)"
  by (simp add: list_Len_def listValues_def)

lemmas golist_wf = wf_PushFront wf_PushBack wf_Remove wf_MoveToFront

text \<open>When the values carry distinct keys, an element is removed exactly when its key is filtered out.\<close>

lemma filter_elem_key:
  assumes "distinct (map fst xs)" and "distinct (map (f \<circ> snd) xs)" and "(e, v) \<in> set xs"
  shows "filter (\<lambda>x. fst x \<noteq> e) xs = filter (\<lambda>x. f (snd x) \<noteq> f v) xs"
proof (rule filter_cong [OF refl])
  fix x assume x: "x \<in> set xs"
  have "inj_on fst (set xs)" "inj_on (f \<circ> snd) (set xs)" using assms(1,2) by (simp_all add: distinct_map)
  then have "fst x = fst (e, v) \<longleftrightarrow> x = (e, v)" "(f \<circ> snd) x = (f \<circ> snd) (e, v) \<longleftrightarrow> x = (e, v)"
    using x assms(3) by (meson inj_on_eq_iff)+
  then show "(fst x \<noteq> e) = (f (snd x) \<noteq> f v)" by simp
qed

lemma Remove_by_key:
  assumes "wf_list l" and "distinct (map f (listValues l))" and "(e, v) \<in> set (lelems l)"
  shows "listValues (list_Remove e l) = filter (\<lambda>w. f w \<noteq> f v) (listValues l)"
  using filter_elem_key [of "lelems l" f e v] assms
  by (simp add: wf_list_def listValues_def list_Remove_def filter_map comp_def)

lemma MoveToFront_by_key:
  assumes "wf_list l" and "distinct (map f (listValues l))" and "(e, v) \<in> set (lelems l)"
  shows "listValues (MoveToFront e l) = v # filter (\<lambda>w. f w \<noteq> f v) (listValues l)"
  using filter_elem_key [of "lelems l" f e v] assms
  by (simp add: wf_list_def listValues_def MoveToFront_def filter_map comp_def)

lemma elemValue_iff: "wf_list l \<Longrightarrow> elemValue e l = Some v \<longleftrightarrow> (e, v) \<in> set (lelems l)"
  by (simp add: elemValue_def wf_list_def)

lemma list_Front_Cons: "list_Front l = Some (e, v) \<Longrightarrow> \<exists>vs. listValues l = v # vs \<and> (e, v) \<in> set (lelems l)"
  by (auto simp: list_Front_def listValues_def split: list.splits)

lemma list_Front_None: "list_Front l = None \<longleftrightarrow> listValues l = []"
  by (simp add: list_Front_def listValues_def split: list.splits)

lemma list_Back_last:
  "list_Back l = Some (e, v) \<Longrightarrow> listValues l \<noteq> [] \<and> List.last (listValues l) = v \<and> (e, v) \<in> set (lelems l)"
  by (auto simp: list_Back_def listValues_def last_map rev_eq_Cons_iff split: list.splits)

lemma list_Back_None: "list_Back l = None \<longleftrightarrow> listValues l = []"
  by (simp add: list_Back_def listValues_def split: list.splits)

text \<open>An index from keys to elements, as callers keep one beside the list.\<close>

definition indexes :: "('k, element) gomap \<Rightarrow> ('a \<Rightarrow> 'k) \<Rightarrow> 'a golist \<Rightarrow> bool" where
  "indexes m f l \<longleftrightarrow> wf_map m \<and> wf_list l \<and> distinct (map f (listValues l))
     \<and> (\<forall>k e. map_of m k = Some e \<longleftrightarrow> (\<exists>v. (e, v) \<in> set (lelems l) \<and> f v = k))"

lemma indexesD:
  assumes "indexes m f l"
  shows "wf_map m" "wf_list l" "distinct (map f (listValues l))"
    and "\<And>k e. map_of m k = Some e \<longleftrightarrow> (\<exists>v. (e, v) \<in> set (lelems l) \<and> f v = k)"
  using assms by (auto simp: indexes_def)

lemma indexes_Some:
  assumes "indexes m f l" and "map_of m k = Some e"
  obtains v where "(e, v) \<in> set (lelems l)" "f v = k" "elemValue e l = Some v" "v \<in> set (listValues l)"
  using assms by (force simp: indexes_def elemValue_iff listValues_def)

lemma indexes_None:
  assumes "indexes m f l"
  shows "map_of m k = None \<longleftrightarrow> k \<notin> f ` set (listValues l)"
proof -
  have "map_of m k \<noteq> None \<longleftrightarrow> k \<in> f ` set (listValues l)"
    using indexesD(4) [OF assms, of k] by (force simp: listValues_def)
  then show ?thesis by blast
qed

lemma indexes_New [simp]: "indexes [] f list_New"
  by (simp add: indexes_def) (simp add: list_New_def)

lemma indexes_length:
  assumes "indexes m f l"
  shows "length m = length (listValues l)"
proof -
  have "fst ` set m = f ` set (listValues l)"
    using indexes_None [OF assms] map_of_not_key [of _ m] by blast
  moreover have "length m = card (fst ` set m)"
    using indexesD(1) [OF assms] by (metis wf_map_def distinct_card length_map set_map)
  moreover have "length (listValues l) = card (f ` set (listValues l))"
    using indexesD(3) [OF assms] by (metis distinct_card length_map set_map)
  ultimately show ?thesis by simp
qed

lemma indexes_fresh:
  assumes "wf_list l"
  shows "(lnext l, v) \<notin> set (lelems l)"
  using assms by (force simp: wf_list_def)

lemma indexes_PushFront:
  assumes "indexes m f l" and "map_of m (f v) = None"
  shows "indexes (AList.update (f v) (snd (PushFront v l)) m) f (fst (PushFront v l))"
  using assms indexes_fresh [OF indexesD(2) [OF assms(1)]] indexes_None [OF assms(1), of "f v"]
  unfolding indexes_def
  by (auto simp: wf_PushFront update_conv') (force simp: PushFront_def listValues_def)+

lemma indexes_PushBack:
  assumes "indexes m f l" and "map_of m (f v) = None"
  shows "indexes (AList.update (f v) (snd (PushBack v l)) m) f (fst (PushBack v l))"
  using assms indexes_fresh [OF indexesD(2) [OF assms(1)]] indexes_None [OF assms(1), of "f v"]
  unfolding indexes_def
  by (auto simp: wf_PushBack update_conv') (force simp: PushBack_def listValues_def)+

lemma key_elem_iff:
  assumes "wf_list l" "distinct (map f (listValues l))" "(e, v) \<in> set (lelems l)" "(e', v') \<in> set (lelems l)"
  shows "e' = e \<longleftrightarrow> f v' = f v" "f v' = f v \<longleftrightarrow> v' = v"
proof -
  have i: "inj_on (f \<circ> snd) (set (lelems l))" "inj_on fst (set (lelems l))"
    using assms(1,2) by (simp_all add: wf_list_def listValues_def distinct_map)
  from inj_on_eq_iff [OF i(1) assms(4,3)] inj_on_eq_iff [OF i(2) assms(4,3)]
  show "e' = e \<longleftrightarrow> f v' = f v" "f v' = f v \<longleftrightarrow> v' = v" by auto
qed

lemma indexes_Remove:
  assumes "indexes m f l" and "(e, v) \<in> set (lelems l)"
  shows "indexes (AList.delete (f v) m) f (list_Remove e l)"
proof -
  note D = indexesD [OF assms(1)]
  have "distinct (map f (listValues (list_Remove e l)))"
    using D(3) by (simp add: Remove_by_key [OF D(2,3) assms(2)] distinct_map_filter)
  moreover have "map_of (AList.delete (f v) m) k = Some d \<longleftrightarrow> (\<exists>w. (d, w) \<in> set (lelems (list_Remove e l)) \<and> f w = k)"
    for k d
  proof -
    have "map_of (AList.delete (f v) m) k = Some d \<longleftrightarrow> k \<noteq> f v \<and> (\<exists>w. (d, w) \<in> set (lelems l) \<and> f w = k)"
      using D(4) [of k d] by (simp add: gomap_simps)
    also have "\<dots> \<longleftrightarrow> (\<exists>w. (d, w) \<in> set (lelems (list_Remove e l)) \<and> f w = k)"
      using key_elem_iff(1) [OF D(2,3) assms(2)] by (auto simp: list_Remove_def)
    finally show ?thesis .
  qed
  ultimately show ?thesis using D(1,2) by (simp add: indexes_def wf_Remove)
qed

lemma MoveToFront_set:
  assumes "wf_list l" shows "set (lelems (MoveToFront e l)) = set (lelems l)"
proof (cases "map_of (lelems l) e")
  case (Some v)
  then have "x \<in> set (lelems l) \<Longrightarrow> fst x = e \<Longrightarrow> x = (e, v)" for x
    using assms by (cases x) (auto simp: wf_list_def)
  with Some show ?thesis by (auto simp: MoveToFront_def dest: map_of_SomeD)
qed (simp add: MoveToFront_def)

lemma indexes_MoveToFront:
  assumes "indexes m f l" and "(e, v) \<in> set (lelems l)"
  shows "indexes m f (MoveToFront e l)"
proof -
  note D = indexesD [OF assms(1)]
  have "distinct (map f (listValues (MoveToFront e l)))"
    using D(3) by (auto simp: MoveToFront_by_key [OF D(2,3) assms(2)] distinct_map_filter)
  then show ?thesis using D by (simp add: indexes_def wf_MoveToFront MoveToFront_set)
qed

end
