(* ===== verification/BoundedLRU.thy ===== *)
theory BoundedLRU
  imports GoList
begin

text \<open>
  The bounded cache of \<open>src/internal/cache/bounded_lru.go\<close>: a map from keys to elements of a linked list
  kept in order of use.  Its specification is the list of key and value pairs, most recently used first.
\<close>

section \<open>Model\<close>

record ('k, 'v) BoundedLRU =
  lruCapacity :: int
  lruEntries :: "('k, element) gomap"
  lruOrder :: "('k \<times> 'v) golist"

definition NewBoundedLRU :: "int \<Rightarrow> ('k, 'v) BoundedLRU" where
  "NewBoundedLRU capacity =
     \<lparr>lruCapacity = (if capacity < 1 then 1 else capacity), lruEntries = [], lruOrder = list_New\<rparr>"

text \<open>
  The operations also return what they pass to the eviction callback.  A missing element value would be
  a failing type assertion in Go, hence the result \<^term>\<open>None\<close>.
\<close>

definition LRU_GetOrAdd ::
  "'k \<Rightarrow> (unit \<Rightarrow> 'v) \<Rightarrow> ('k, 'v) BoundedLRU \<Rightarrow> (('k, 'v) BoundedLRU \<times> 'v \<times> ('k \<times> 'v) list) option" where
  "LRU_GetOrAdd key create c =
     (case map_of (lruEntries c) key of
        Some element \<Rightarrow>
          map_option (\<lambda>entry. (c\<lparr>lruOrder := MoveToFront element (lruOrder c)\<rparr>, snd entry, []))
            (elemValue element (lruOrder c))
      | None \<Rightarrow>
          (let value = create ();
               (order, element) = PushFront (key, value) (lruOrder c);
               entries = AList.update key element (lruEntries c);
               c = c\<lparr>lruEntries := entries, lruOrder := order\<rparr>
           in if int (list_Len order) > lruCapacity c
              then (case list_Back order of
                      None \<Rightarrow> None
                    | Some (oldest, evicted) \<Rightarrow>
                        Some (c\<lparr>lruEntries := AList.delete (fst evicted) entries,
                                lruOrder := list_Remove oldest order\<rparr>, value, [evicted]))
              else Some (c, value, [])))"

definition LRU_Get :: "'k \<Rightarrow> ('k, 'v) BoundedLRU \<Rightarrow> (('k, 'v) BoundedLRU \<times> 'v option) option" where
  "LRU_Get key c =
     (case map_of (lruEntries c) key of
        Some element \<Rightarrow>
          map_option (\<lambda>entry. (c\<lparr>lruOrder := MoveToFront element (lruOrder c)\<rparr>, Some (snd entry)))
            (elemValue element (lruOrder c))
      | None \<Rightarrow> Some (c, None))"

definition LRU_Delete :: "'k \<Rightarrow> ('k, 'v) BoundedLRU \<Rightarrow> (('k, 'v) BoundedLRU \<times> bool \<times> ('k \<times> 'v) list) option" where
  "LRU_Delete key c =
     (case map_of (lruEntries c) key of
        None \<Rightarrow> Some (c, False, [])
      | Some element \<Rightarrow>
          map_option (\<lambda>entry. (c\<lparr>lruEntries := AList.delete key (lruEntries c),
                                lruOrder := list_Remove element (lruOrder c)\<rparr>, True, [entry]))
            (elemValue element (lruOrder c)))"

definition LRU_Len :: "('k, 'v) BoundedLRU \<Rightarrow> nat" where
  "LRU_Len c = length (lruEntries c)"

section \<open>Specification: a list in order of use\<close>

definition useFirst :: "'k \<Rightarrow> 'v \<Rightarrow> ('k \<times> 'v) list \<Rightarrow> ('k \<times> 'v) list" where
  "useFirst k v kvs = (k, v) # filter (\<lambda>x. fst x \<noteq> k) kvs"

datatype ('k, 'v) lruOp = OpGetOrAdd 'k 'v | OpGet 'k | OpDelete 'k

text \<open>The specified effect of an operation: the new list, the value returned and the pairs evicted.\<close>

fun lruSpec :: "nat \<Rightarrow> ('k, 'v) lruOp \<Rightarrow> ('k \<times> 'v) list \<Rightarrow> ('k \<times> 'v) list \<times> 'v option \<times> ('k \<times> 'v) list" where
  "lruSpec cap (OpGetOrAdd k v) kvs =
     (case map_of kvs k of
        Some w \<Rightarrow> (useFirst k w kvs, Some w, [])
      | None \<Rightarrow> (take cap ((k, v) # kvs), Some v, drop cap ((k, v) # kvs)))"
| "lruSpec cap (OpGet k) kvs =
     (case map_of kvs k of Some w \<Rightarrow> (useFirst k w kvs, Some w, []) | None \<Rightarrow> (kvs, None, []))"
| "lruSpec cap (OpDelete k) kvs =
     (filter (\<lambda>x. fst x \<noteq> k) kvs, map_of kvs k, filter (\<lambda>x. fst x = k) kvs)"

text \<open>The code's effect, with results put in the same shape.\<close>

fun lruExec ::
  "('k, 'v) lruOp \<Rightarrow> ('k, 'v) BoundedLRU \<Rightarrow> (('k, 'v) BoundedLRU \<times> 'v option \<times> ('k \<times> 'v) list) option" where
  "lruExec (OpGetOrAdd k v) c = map_option (\<lambda>(c, w, ev). (c, Some w, ev)) (LRU_GetOrAdd k (\<lambda>_. v) c)"
| "lruExec (OpGet k) c = map_option (\<lambda>(c, w). (c, w, [])) (LRU_Get k c)"
| "lruExec (OpDelete k) c = map_option (\<lambda>(c, found, ev). (c, if found then Some (snd (hd ev)) else None, ev)) (LRU_Delete k c)"

definition lru_ok :: "('k, 'v) BoundedLRU \<Rightarrow> bool" where
  "lru_ok c \<longleftrightarrow> 1 \<le> lruCapacity c \<and> indexes (lruEntries c) fst (lruOrder c)
     \<and> int (length (listValues (lruOrder c))) \<le> lruCapacity c"

abbreviation recency :: "('k, 'v) BoundedLRU \<Rightarrow> ('k \<times> 'v) list" where
  "recency c \<equiv> listValues (lruOrder c)"

lemma lru_ok_New [simp]: "lru_ok (NewBoundedLRU n)" and recency_New [simp]: "recency (NewBoundedLRU n) = []"
  by (simp_all add: lru_ok_def NewBoundedLRU_def)

section \<open>The code implements the specification\<close>

lemma indexes_map_of:
  assumes "indexes m fst l"
  shows "map_of m k = None \<Longrightarrow> map_of (listValues l) k = None"
    and "map_of m k = Some e \<Longrightarrow> \<exists>w. elemValue e l = Some (k, w) \<and> map_of (listValues l) k = Some w
           \<and> (e, (k, w)) \<in> set (lelems l)"
proof -
  show "map_of (listValues l) k = None" if "map_of m k = None"
    using that indexes_None [OF assms] by (simp add: map_of_eq_None_iff)
  show "\<exists>w. elemValue e l = Some (k, w) \<and> map_of (listValues l) k = Some w \<and> (e, (k, w)) \<in> set (lelems l)"
    if "map_of m k = Some e"
    using indexes_Some [OF assms that] indexesD(3) [OF assms] by (metis map_of_eq_Some_iff prod.collapse)
qed

lemma use_existing:
  assumes "lru_ok c" and "(e, (k, w)) \<in> set (lelems (lruOrder c))"
  shows "lru_ok (c\<lparr>lruOrder := MoveToFront e (lruOrder c)\<rparr>)"
    and "recency (c\<lparr>lruOrder := MoveToFront e (lruOrder c)\<rparr>) = useFirst k w (recency c)"
proof -
  have ix: "indexes (lruEntries c) fst (lruOrder c)" using assms(1) by (simp add: lru_ok_def)
  note D = indexesD [OF ix]
  have "length (listValues (MoveToFront e (lruOrder c))) = length (recency c)"
    using indexes_length [OF ix] indexes_length [OF indexes_MoveToFront [OF ix assms(2)]] by simp
  then show "lru_ok (c\<lparr>lruOrder := MoveToFront e (lruOrder c)\<rparr>)"
    using assms indexes_MoveToFront [OF ix assms(2)] by (simp add: lru_ok_def)
  show "recency (c\<lparr>lruOrder := MoveToFront e (lruOrder c)\<rparr>) = useFirst k w (recency c)"
    by (simp add: MoveToFront_by_key [OF D(2,3) assms(2)] useFirst_def)
qed

lemma filter_last_key:
  assumes "distinct (map fst xs)" and "xs \<noteq> []"
  shows "filter (\<lambda>x. fst x \<noteq> fst (List.last xs)) xs = butlast xs"
  using assms
proof (induction xs rule: rev_induct)
  case (snoc x xs)
  have "fst x \<notin> fst ` set xs" using snoc.prems(1) by simp
  then have "filter (\<lambda>y. fst y \<noteq> fst x) xs = xs" by (intro filter_True ballI) (metis imageI)
  then show ?case by simp
qed simp

lemma GetOrAdd_missing:
  assumes ok: "lru_ok c" and "map_of (lruEntries c) k = None"
  shows "\<exists>c'. LRU_GetOrAdd k (\<lambda>_. v) c = Some (c', v, drop (nat (lruCapacity c)) ((k, v) # recency c))
    \<and> lru_ok c' \<and> lruCapacity c' = lruCapacity c \<and> recency c' = take (nat (lruCapacity c)) ((k, v) # recency c)"
proof -
  let ?cap = "nat (lruCapacity c)"
  obtain l e where l: "PushFront (k, v) (lruOrder c) = (l, e)" by fastforce
  have ix0: "indexes (lruEntries c) fst (lruOrder c)" using ok by (simp add: lru_ok_def)
  have ix: "indexes (AList.update k e (lruEntries c)) fst l"
    using indexes_PushFront [of _ fst, OF ix0, of "(k, v)"] assms(2) by (simp add: l)
  have vals: "listValues l = (k, v) # recency c" using listValues_PushFront [of "(k, v)" "lruOrder c"] by (simp add: l)
  have cap: "1 \<le> lruCapacity c" "length (recency c) \<le> ?cap" using ok by (auto simp: lru_ok_def)
  show ?thesis
  proof (cases "int (list_Len l) > lruCapacity c")
    case False
    then have "length (listValues l) \<le> ?cap" by (simp add: list_Len_values)
    with False assms(2) cap ix vals show ?thesis
      by (simp add: LRU_GetOrAdd_def l Let_def lru_ok_def list_Len_values)
  next
    case True
    then have len: "length (listValues l) = Suc ?cap" using cap vals by (simp add: list_Len_values)
    then obtain d w where bk: "list_Back l = Some (d, w)" by (metis list_Back_None list.size(3) nat.distinct(1) not_Some_eq surj_pair)
    have w: "List.last (listValues l) = w" "(d, w) \<in> set (lelems l)" using list_Back_last [OF bk] by auto
    have "drop ?cap (listValues l) = [w]" "take ?cap (listValues l) = butlast (listValues l)"
      using len w(1) by (simp_all add: butlast_conv_take)
        (metis append_butlast_last_id append_eq_conv_conj diff_Suc_1 length_butlast list.size(3) nat.distinct(1))
    moreover have "listValues (list_Remove d l) = butlast (listValues l)"
      using Remove_by_key [OF indexesD(2,3) [OF ix] w(2)] filter_last_key [OF indexesD(3) [OF ix]] len w(1) by force
    moreover have "indexes (AList.delete (fst w) (AList.update k e (lruEntries c))) fst (list_Remove d l)"
      by (rule indexes_Remove [OF ix w(2)])
    ultimately show ?thesis
      using True assms(2) cap len vals by (auto simp: LRU_GetOrAdd_def l Let_def bk lru_ok_def)
  qed
qed

lemma filter_key_single:
  "distinct (map fst xs) \<Longrightarrow> map_of xs k = Some v \<Longrightarrow> filter (\<lambda>x. fst x = k) xs = [(k, v)]"
proof (induction xs)
  case (Cons x xs)
  obtain a b where x: "x = (a, b)" by fastforce
  show ?case
  proof (cases "a = k")
    case True
    then have "filter (\<lambda>x. fst x = k) xs = []" using Cons.prems(1) by (force simp: x filter_empty_conv)
    with True Cons.prems(2) show ?thesis by (simp add: x)
  next
    case False
    with Cons show ?thesis by (simp add: x)
  qed
qed simp

lemma Delete_existing:
  assumes ok: "lru_ok c" and e: "map_of (lruEntries c) k = Some e"
  shows "\<exists>c' w. LRU_Delete k c = Some (c', True, [(k, w)]) \<and> lru_ok c' \<and> lruCapacity c' = lruCapacity c
    \<and> map_of (recency c) k = Some w \<and> recency c' = filter (\<lambda>x. fst x \<noteq> k) (recency c)"
proof -
  have ix: "indexes (lruEntries c) fst (lruOrder c)" using ok by (simp add: lru_ok_def)
  obtain w where w: "elemValue e (lruOrder c) = Some (k, w)" "map_of (recency c) k = Some w"
    "(e, (k, w)) \<in> set (lelems (lruOrder c))" using indexes_map_of(2) [OF ix e] by blast
  have "listValues (list_Remove e (lruOrder c)) = filter (\<lambda>x. fst x \<noteq> k) (recency c)"
    using Remove_by_key [OF indexesD(2,3) [OF ix] w(3)] by simp
  moreover have "int (length (filter (\<lambda>x. fst x \<noteq> k) (recency c))) \<le> lruCapacity c"
    using ok length_filter_le [of "\<lambda>x. fst x \<noteq> k" "recency c"] unfolding lru_ok_def by linarith
  ultimately show ?thesis
    using w e ok indexes_Remove [OF ix w(3)] by (simp add: LRU_Delete_def lru_ok_def)
qed

text \<open>One step of the simulation.\<close>

lemma lru_step:
  assumes "lru_ok c"
  shows "\<exists>c'. lruExec oper c = Some (c', snd (lruSpec (nat (lruCapacity c)) oper (recency c)))
    \<and> lru_ok c' \<and> lruCapacity c' = lruCapacity c \<and> recency c' = fst (lruSpec (nat (lruCapacity c)) oper (recency c))"
proof -
  have ix: "indexes (lruEntries c) fst (lruOrder c)" using assms by (simp add: lru_ok_def)
  show ?thesis
  proof (cases oper)
    case (OpGetOrAdd k v)
    show ?thesis
    proof (cases "map_of (lruEntries c) k")
      case None
      from GetOrAdd_missing [OF assms None, of v] indexes_map_of(1) [OF ix None] show ?thesis
        by (auto simp: OpGetOrAdd)
    next
      case (Some e)
      from indexes_map_of(2) [OF ix Some] use_existing [OF assms] Some show ?thesis
        by (auto simp: OpGetOrAdd LRU_GetOrAdd_def)
    qed
  next
    case (OpGet k)
    show ?thesis
    proof (cases "map_of (lruEntries c) k")
      case None
      then show ?thesis using indexes_map_of(1) [OF ix None] assms by (simp add: OpGet LRU_Get_def)
    next
      case (Some e)
      from indexes_map_of(2) [OF ix Some] use_existing [OF assms] Some show ?thesis
        by (auto simp: OpGet LRU_Get_def)
    qed
  next
    case (OpDelete k)
    show ?thesis
    proof (cases "map_of (lruEntries c) k")
      case None
      then have "map_of (recency c) k = None" by (rule indexes_map_of(1) [OF ix])
      moreover from this have "filter (\<lambda>x. fst x \<noteq> k) (recency c) = recency c" "filter (\<lambda>x. fst x = k) (recency c) = []"
        by (auto simp: map_of_eq_None_iff filter_id_conv filter_empty_conv)
      ultimately show ?thesis using None assms by (simp add: OpDelete LRU_Delete_def)
    next
      case (Some e)
      from Delete_existing [OF assms Some] filter_key_single [OF indexesD(3) [OF ix]] show ?thesis
        by (force simp: OpDelete)
    qed
  qed
qed

text \<open>Runs of operations with everything they return.\<close>

fun lruRun :: "('k, 'v) lruOp list \<Rightarrow> ('k, 'v) BoundedLRU \<Rightarrow> (('k, 'v) BoundedLRU \<times> ('v option \<times> ('k \<times> 'v) list) list) option" where
  "lruRun [] c = Some (c, [])"
| "lruRun (oper # opers) c =
     Option.bind (lruExec oper c) (\<lambda>(c, r). map_option (\<lambda>(c, rs). (c, r # rs)) (lruRun opers c))"

fun lruSpecRun :: "nat \<Rightarrow> ('k, 'v) lruOp list \<Rightarrow> ('k \<times> 'v) list \<Rightarrow> ('k \<times> 'v) list \<times> ('v option \<times> ('k \<times> 'v) list) list" where
  "lruSpecRun cap [] kvs = (kvs, [])"
| "lruSpecRun cap (oper # opers) kvs =
     (fst (lruSpecRun cap opers (fst (lruSpec cap oper kvs))),
      snd (lruSpec cap oper kvs) # snd (lruSpecRun cap opers (fst (lruSpec cap oper kvs))))"

lemma lru_run:
  "lru_ok c \<Longrightarrow> \<exists>c'. lruRun opers c = Some (c', snd (lruSpecRun (nat (lruCapacity c)) opers (recency c)))
    \<and> lru_ok c' \<and> lruCapacity c' = lruCapacity c \<and> recency c' = fst (lruSpecRun (nat (lruCapacity c)) opers (recency c))"
proof (induction opers arbitrary: c)
  case (Cons oper opers)
  obtain c1 where c1: "lruExec oper c = Some (c1, snd (lruSpec (nat (lruCapacity c)) oper (recency c)))"
    "lru_ok c1" "lruCapacity c1 = lruCapacity c" "recency c1 = fst (lruSpec (nat (lruCapacity c)) oper (recency c))"
    using lru_step [OF Cons.prems] by blast
  from Cons.IH [OF c1(2)] show ?case by (auto simp: c1)
qed simp

text \<open>
  Claim C38. The bounded cache refines a list in order of use.  From a new cache of any capacity, every
  sequence of \<open>GetOrAdd\<close>, \<open>Get\<close> and \<open>Delete\<close> calls runs without a failing element access, returns the
  values and evicts the pairs that the plain list specification prescribes, and leaves the linked list
  equal to the specification's list, whose length \<open>Len\<close> reports and which never exceeds the capacity.
\<close>

theorem lru_refines_recency_list:
  "case lruRun opers (NewBoundedLRU capacity) of
     None \<Rightarrow> False
   | Some (c, results) \<Rightarrow>
       (recency c, results) = lruSpecRun (max 1 (nat capacity)) opers []
       \<and> LRU_Len c = length (recency c) \<and> LRU_Len c \<le> max 1 (nat capacity)"
proof -
  let ?new = "NewBoundedLRU capacity :: ('a, 'b) BoundedLRU"
  have ok: "lru_ok (?new)" "recency (?new) = []"
    by simp_all
  have cap: "nat (lruCapacity (?new)) = max 1 (nat capacity)"
    by (auto simp: NewBoundedLRU_def)
  define X where "X = lruSpecRun (max 1 (nat capacity)) opers ([] :: ('a \<times> 'b) list)"
  obtain c where c: "lruRun opers (?new) = Some (c, snd X)"
    "lru_ok c" "lruCapacity c = lruCapacity (?new)" "recency c = fst X"
    using lru_run [OF ok(1), of opers] unfolding cap ok(2) X_def by blast
  have "LRU_Len c = length (recency c)"
    unfolding LRU_Len_def by (rule indexes_length [of _ fst]) (use c(2) in \<open>simp add: lru_ok_def\<close>)
  moreover have "length (recency c) \<le> max 1 (nat capacity)" using c(2,3) cap unfolding lru_ok_def by linarith
  moreover have "(recency c, snd X) = X" using c(4) by (simp add: prod_eq_iff)
  ultimately show ?thesis unfolding c(1) X_def [symmetric] by (simp only: option.case prod.case simp_thms)
qed

end
