(* ===== verification/Sessions.thy ===== *)
theory Sessions
  imports GoList
begin

text \<open>
  The cache behind sticky sessions, \<open>src/sdk/cliproxy/auth/session_cache.go\<close>: identifiers of one
  logical session (its aliases) are bound together to a credential.  Four indexes are kept by hand: alias
  to entry, primary alias to group, the eviction order as a linked list with pointers into it, and the
  groups selected for a session.  Maps are association lists whose order is arbitrary, as Go's iteration
  order is; a nil map is an empty one.
\<close>

section \<open>Model\<close>

record sessionBinding =
  sbSessionID :: string
  sbProvider :: string
  sbSequence :: nat

record sessionEntry =
  seAuthID :: string
  seExpiresAt :: gotime
  seAliases :: "string list"
  seBinding :: sessionBinding

record sessionCache =
  scEntries :: "(string, sessionEntry) gomap"
  scGroups :: "(string, sessionEntry) gomap"
  evictionOrder :: "string golist"
  evictionElements :: "(string, element) gomap"
  scMaxEntries :: int
  scTTL :: duration
  sessionGroups :: "(string, (string, unit) gomap) gomap"
  bindingSequence :: nat

definition zeroBinding :: sessionBinding where
  "zeroBinding = \<lparr>sbSessionID = [], sbProvider = [], sbSequence = 0\<rparr>"

definition zeroEntry :: sessionEntry where
  "zeroEntry = \<lparr>seAuthID = [], seExpiresAt = 0, seAliases = [], seBinding = zeroBinding\<rparr>"

definition maxStableSessionAliases :: nat where "maxStableSessionAliases = 64"
definition defaultMaxSessionEntries :: int where "defaultMaxSessionEntries = 65536"

definition NewSessionCacheWithCapacity :: "duration \<Rightarrow> int \<Rightarrow> sessionCache" where
  "NewSessionCacheWithCapacity ttl maxEntries =
     \<lparr>scEntries = [], scGroups = [], evictionOrder = list_New, evictionElements = [],
      scMaxEntries = (if maxEntries \<le> 0 then defaultMaxSessionEntries else maxEntries),
      scTTL = (if ttl \<le> 0 then 30 * Minute else ttl), sessionGroups = [], bindingSequence = 0\<rparr>"

definition NewSessionCache :: "duration \<Rightarrow> sessionCache" where
  "NewSessionCache ttl = NewSessionCacheWithCapacity ttl defaultMaxSessionEntries"

fun equalSessionAliases :: "string list \<Rightarrow> string list \<Rightarrow> bool" where
  "equalSessionAliases left right = (length left = length right \<and> list_all (\<lambda>(x, y). x = y) (zip left right))"

definition sameSessionEntryGroup :: "sessionEntry \<Rightarrow> sessionEntry \<Rightarrow> bool" where
  "sameSessionEntryGroup left right \<longleftrightarrow> seAuthID left = seAuthID right \<and> seExpiresAt left = seExpiresAt right
     \<and> equalSessionAliases (seAliases left) (seAliases right)"

text \<open>\<open>strings.Cut\<close>: around the first occurrence of the separator.\<close>

fun Cut :: "string \<Rightarrow> string \<Rightarrow> (string \<times> string) option" where
  "Cut [] sep = (if sep = [] then Some ([], []) else None)"
| "Cut (ch # rest) sep =
     (if HasPrefix (ch # rest) sep then Some ([], drop (length sep) (ch # rest))
      else map_option (\<lambda>(before, after). (ch # before, after)) (Cut rest sep))"

definition isLocalPromptCacheSessionAlias :: "string \<Rightarrow> bool" where
  "isLocalPromptCacheSessionAlias alias \<longleftrightarrow> HasPrefix alias ''pck:'' \<or>
     (case Cut alias ''::'' of None \<Rightarrow> False | Some (_, sessionAndModel) \<Rightarrow> HasPrefix sessionAndModel ''pck:'')"

text \<open>The loop carries whether a prompt cache key was kept and how many stable aliases were.\<close>

fun compactLoop :: "(string \<Rightarrow> bool) \<Rightarrow> bool \<Rightarrow> nat \<Rightarrow> string list \<Rightarrow> string list" where
  "compactLoop isPromptCacheAlias hasPromptCacheKey stableAliases [] = []"
| "compactLoop isPromptCacheAlias hasPromptCacheKey stableAliases (alias # aliases) =
     (if isPromptCacheAlias alias then
        (if hasPromptCacheKey then compactLoop isPromptCacheAlias hasPromptCacheKey stableAliases aliases
         else alias # compactLoop isPromptCacheAlias True stableAliases aliases)
      else if stableAliases \<ge> maxStableSessionAliases
      then compactLoop isPromptCacheAlias hasPromptCacheKey stableAliases aliases
      else alias # compactLoop isPromptCacheAlias hasPromptCacheKey (stableAliases + 1) aliases)"

definition compactSessionAliasesWith :: "string list \<Rightarrow> (string \<Rightarrow> bool) \<Rightarrow> string list" where
  "compactSessionAliasesWith aliases isPromptCacheAlias = compactLoop isPromptCacheAlias False 0 aliases"

definition compactSessionAliases :: "string list \<Rightarrow> string list" where
  "compactSessionAliases aliases = compactSessionAliasesWith aliases isLocalPromptCacheSessionAlias"

definition compactHomeSessionAliases :: "string list \<Rightarrow> string list" where
  "compactHomeSessionAliases aliases = compactSessionAliasesWith aliases (\<lambda>alias. HasPrefix alias ''pck:'')"

text \<open>\<open>mergeSessionAliases\<close>: the seen set is exactly the aliases collected so far.\<close>

definition addAlias :: "string \<Rightarrow> string list \<Rightarrow> string list" where
  "addAlias alias aliases = (if alias = [] \<or> alias \<in> set aliases then aliases else aliases @ [alias])"

definition mergeSessionAliases :: "string list \<Rightarrow> string list \<Rightarrow> string list" where
  "mergeSessionAliases existing candidates = fold addAlias candidates (fold addAlias existing [])"

text \<open>\<open>removeAliasGroupLocked\<close>, its two halves and the whole.\<close>

definition dropGroupIndexes :: "sessionEntry \<Rightarrow> string \<Rightarrow> sessionCache \<Rightarrow> sessionCache" where
  "dropGroupIndexes entry primaryKey c =
     (let c = c\<lparr>scGroups := AList.delete primaryKey (scGroups c)\<rparr>;
          sid = sbSessionID (seBinding entry);
          c = (case map_of (sessionGroups c) sid of
                 None \<Rightarrow> c
               | Some groups \<Rightarrow>
                   (let groups = AList.delete primaryKey groups
                    in c\<lparr>sessionGroups := (if groups = [] then AList.delete sid (sessionGroups c)
                                          else AList.update sid groups (sessionGroups c))\<rparr>))
      in case map_of (evictionElements c) primaryKey of
           None \<Rightarrow> c
         | Some elem \<Rightarrow> c\<lparr>evictionOrder := list_Remove elem (evictionOrder c),
                          evictionElements := AList.delete primaryKey (evictionElements c)\<rparr>)"

definition dropAlias :: "sessionEntry \<Rightarrow> string \<Rightarrow> sessionCache \<Rightarrow> sessionCache" where
  "dropAlias entry alias c =
     (case map_of (scEntries c) alias of
        None \<Rightarrow> c
      | Some current \<Rightarrow>
          if seAuthID current \<noteq> seAuthID entry \<or> seExpiresAt current \<noteq> seExpiresAt entry
             \<or> \<not> equalSessionAliases (seAliases current) (seAliases entry)
          then c else c\<lparr>scEntries := AList.delete alias (scEntries c)\<rparr>)"

definition removeAliasGroupLocked :: "sessionEntry \<Rightarrow> sessionCache \<Rightarrow> sessionCache" where
  "removeAliasGroupLocked entry c =
     (case seAliases entry of
        [] \<Rightarrow> c
      | primaryKey # _ \<Rightarrow>
          (let c = (case map_of (scGroups c) primaryKey of
                      None \<Rightarrow> c
                    | Some currentGroup \<Rightarrow>
                        if sameSessionEntryGroup currentGroup entry then dropGroupIndexes entry primaryKey c else c)
           in fold (dropAlias entry) (seAliases entry) c))"

text \<open>The eviction loop; that it returns is a theorem about the states the cache can be in.\<close>

partial_function (option) evictExcessLocked :: "sessionCache \<Rightarrow> sessionCache option" where
  "evictExcessLocked c =
     (if int (length (scEntries c)) > scMaxEntries c then
        (case list_Front (evictionOrder c) of
           None \<Rightarrow> Some c
         | Some (oldest, primaryKey) \<Rightarrow>
             (case map_of (scGroups c) primaryKey of
                None \<Rightarrow> evictExcessLocked (c\<lparr>evictionOrder := list_Remove oldest (evictionOrder c),
                                             evictionElements := AList.delete primaryKey (evictionElements c)\<rparr>)
              | Some grp \<Rightarrow> evictExcessLocked (removeAliasGroupLocked grp c)))
      else Some c)"

definition addSessionGroup :: "sessionBinding \<Rightarrow> string \<Rightarrow> sessionCache \<Rightarrow> sessionCache" where
  "addSessionGroup binding primaryKey c =
     (if sbSequence binding \<noteq> 0 then
        (let groups = (case map_of (sessionGroups c) (sbSessionID binding) of None \<Rightarrow> [] | Some g \<Rightarrow> g)
         in c\<lparr>sessionGroups := AList.update (sbSessionID binding) (AList.update primaryKey () groups) (sessionGroups c)\<rparr>)
      else c)"

definition replaceAliasGroupsLocked ::
  "string \<Rightarrow> gotime \<Rightarrow> string list \<Rightarrow> sessionBinding \<Rightarrow> sessionEntry list \<Rightarrow> sessionCache \<Rightarrow> sessionCache option" where
  "replaceAliasGroupsLocked authID expiresAt aliases binding previousGroups c =
     (let c = fold removeAliasGroupLocked previousGroups c
      in case aliases of
           [] \<Rightarrow> Some c
         | primaryKey # _ \<Rightarrow>
             (let c = (case map_of (scGroups c) primaryKey of
                         None \<Rightarrow> c | Some existing \<Rightarrow> removeAliasGroupLocked existing c);
                  entry = \<lparr>seAuthID = authID, seExpiresAt = expiresAt, seAliases = aliases, seBinding = binding\<rparr>;
                  c = c\<lparr>scGroups := AList.update primaryKey entry (scGroups c)\<rparr>;
                  c = addSessionGroup binding primaryKey c;
                  c = c\<lparr>scEntries := fold (\<lambda>alias m. AList.update alias entry m) aliases (scEntries c)\<rparr>;
                  (order, elem) = PushBack primaryKey (evictionOrder c);
                  c = c\<lparr>evictionOrder := order, evictionElements := AList.update primaryKey elem (evictionElements c)\<rparr>
              in if scMaxEntries c > 0 \<and> int (length (scEntries c)) > scMaxEntries c
                 then evictExcessLocked c else Some c))"

section \<open>Operations\<close>

text \<open>
  \<open>Get\<close> reads under the read lock and, when the entry it saw has expired, takes the write lock and looks
  again; the second half is \<open>GetSlow\<close>, so that other calls may come between the two.
\<close>

definition GetSlow :: "gotime \<Rightarrow> string \<Rightarrow> sessionCache \<Rightarrow> sessionCache \<times> string option" where
  "GetSlow now sessionID c =
     (case map_of (scEntries c) sessionID of
        None \<Rightarrow> (c, None)
      | Some entry \<Rightarrow>
          if Before now (seExpiresAt entry) then (c, Some (seAuthID entry))
          else (removeAliasGroupLocked entry c, None))"

definition SC_Get :: "gotime \<Rightarrow> gotime \<Rightarrow> string \<Rightarrow> sessionCache \<Rightarrow> sessionCache \<times> string option" where
  "SC_Get now later sessionID c =
     (if sessionID = [] then (c, None)
      else case map_of (scEntries c) sessionID of
             None \<Rightarrow> (c, None)
           | Some entry \<Rightarrow> if Before now (seExpiresAt entry) then (c, Some (seAuthID entry)) else GetSlow later sessionID c)"

definition GetAndRefresh :: "gotime \<Rightarrow> string \<Rightarrow> sessionCache \<Rightarrow> (sessionCache \<times> string option) option" where
  "GetAndRefresh now sessionID c =
     (if sessionID = [] then Some (c, None)
      else case map_of (scEntries c) sessionID of
             None \<Rightarrow> Some (c, None)
           | Some entry \<Rightarrow>
               if \<not> Before now (seExpiresAt entry) then Some (removeAliasGroupLocked entry c, None)
               else
                 (let aliases = compactSessionAliases (mergeSessionAliases [sessionID] (seAliases entry))
                  in map_option (\<lambda>c. (c, Some (seAuthID entry)))
                       (replaceAliasGroupsLocked (seAuthID entry) (now + scTTL c) aliases (seBinding entry) [entry] c)))"

text \<open>The loop over the given identifiers: expired groups go, live ones are collected with their aliases.\<close>

fun setAliasesLoop ::
  "gotime \<Rightarrow> string list \<Rightarrow> sessionCache \<times> string list \<times> sessionEntry list \<Rightarrow> sessionCache \<times> string list \<times> sessionEntry list" where
  "setAliasesLoop now [] st = st"
| "setAliasesLoop now (sessionID # sessionIDs) (c, aliases, previousGroups) =
     setAliasesLoop now sessionIDs
       (case map_of (scEntries c) sessionID of
          None \<Rightarrow> (c, aliases, previousGroups)
        | Some entry \<Rightarrow>
            if \<not> Before now (seExpiresAt entry) then (removeAliasGroupLocked entry c, aliases, previousGroups)
            else (c, mergeSessionAliases aliases (seAliases entry), previousGroups @ [entry]))"

definition newestBinding :: "sessionEntry list \<Rightarrow> sessionBinding \<Rightarrow> sessionBinding" where
  "newestBinding previousGroups binding =
     fold (\<lambda>previous b. if sbSequence (seBinding previous) > sbSequence b then seBinding previous else b) previousGroups binding"

definition setAliases :: "gotime \<Rightarrow> string \<Rightarrow> sessionBinding \<Rightarrow> string list \<Rightarrow> sessionCache \<Rightarrow> sessionCache option" where
  "setAliases now authID binding sessionIDs c =
     (if authID = [] then Some c
      else
        (let (c, aliases, previousGroups) = setAliasesLoop now sessionIDs (c, mergeSessionAliases [] sessionIDs, []);
             aliases = compactSessionAliases aliases
         in if aliases = [] then Some c
            else if sbSessionID binding \<noteq> [] \<and> sbProvider binding \<noteq> [] then
              (let c = c\<lparr>bindingSequence := wrapU64 (bindingSequence c + 1)\<rparr>
               in replaceAliasGroupsLocked authID (now + scTTL c) aliases (binding\<lparr>sbSequence := bindingSequence c\<rparr>) previousGroups c)
            else replaceAliasGroupsLocked authID (now + scTTL c) aliases (newestBinding previousGroups binding) previousGroups c))"

definition SetAliases :: "gotime \<Rightarrow> string \<Rightarrow> string list \<Rightarrow> sessionCache \<Rightarrow> sessionCache option" where
  "SetAliases now authID sessionIDs c = setAliases now authID zeroBinding sessionIDs c"

definition setSessionAliases :: "gotime \<Rightarrow> string \<Rightarrow> string \<Rightarrow> string \<Rightarrow> string list \<Rightarrow> sessionCache \<Rightarrow> sessionCache option" where
  "setSessionAliases now authID provider sessionID keys c =
     setAliases now authID \<lparr>sbSessionID = sessionID, sbProvider = provider, sbSequence = 0\<rparr> keys c"

definition SC_Set :: "gotime \<Rightarrow> string \<Rightarrow> string \<Rightarrow> sessionCache \<Rightarrow> sessionCache option" where
  "SC_Set now sessionID authID c = SetAliases now authID [sessionID] c"

definition latestSessionAuth :: "gotime \<Rightarrow> string \<Rightarrow> string list \<Rightarrow> sessionCache \<Rightarrow> string" where
  "latestSessionAuth now sessionID providers c =
     (if sessionID = [] \<or> providers = [] then []
      else
        (let keys = (case map_of (sessionGroups c) sessionID of None \<Rightarrow> [] | Some g \<Rightarrow> map fst g)
         in seAuthID (fold (\<lambda>key latest.
              (let entry = (case map_of (scGroups c) key of None \<Rightarrow> zeroEntry | Some e \<Rightarrow> e)
               in if sbProvider (seBinding entry) \<notin> set providers \<or> \<not> Before now (seExpiresAt entry) then latest
                  else if sbSequence (seBinding entry) > sbSequence (seBinding latest) then entry else latest))
              keys zeroEntry)))"

definition Touch :: "gotime \<Rightarrow> string \<Rightarrow> string \<Rightarrow> sessionCache \<Rightarrow> (sessionCache \<times> bool) option" where
  "Touch now sessionID expectedAuthID c =
     (if sessionID = [] \<or> expectedAuthID = [] then Some (c, False)
      else case map_of (scEntries c) sessionID of
             None \<Rightarrow> Some (c, False)
           | Some entry \<Rightarrow>
               if seAuthID entry \<noteq> expectedAuthID \<or> \<not> Before now (seExpiresAt entry) then Some (c, False)
               else
                 (let aliases = compactSessionAliases (mergeSessionAliases [sessionID] (seAliases entry))
                  in map_option (\<lambda>c. (c, True))
                       (replaceAliasGroupsLocked expectedAuthID (now + scTTL c) aliases (seBinding entry) [entry] c)))"

text \<open>The common tail of \<open>CompareAndDelete\<close> and \<open>Invalidate\<close>, written out in both.\<close>

definition detachAlias :: "string \<Rightarrow> sessionEntry \<Rightarrow> sessionCache \<Rightarrow> sessionCache option" where
  "detachAlias sessionID entry c =
     (let c = removeAliasGroupLocked entry c;
          surviving = filter (\<lambda>alias. alias \<noteq> sessionID) (seAliases entry)
      in if surviving \<noteq> []
         then replaceAliasGroupsLocked (seAuthID entry) (seExpiresAt entry) surviving (seBinding entry) [] c
         else Some c)"

definition CompareAndDelete :: "string \<Rightarrow> string \<Rightarrow> sessionCache \<Rightarrow> (sessionCache \<times> bool) option" where
  "CompareAndDelete sessionID expectedAuthID c =
     (if sessionID = [] \<or> expectedAuthID = [] then Some (c, False)
      else case map_of (scEntries c) sessionID of
             None \<Rightarrow> Some (c, False)
           | Some entry \<Rightarrow>
               if seAuthID entry \<noteq> expectedAuthID then Some (c, False)
               else map_option (\<lambda>c. (c, True)) (detachAlias sessionID entry c))"

definition Invalidate :: "string \<Rightarrow> sessionCache \<Rightarrow> sessionCache option" where
  "Invalidate sessionID c =
     (if sessionID = [] then Some c
      else case map_of (scEntries c) sessionID of
             None \<Rightarrow> Some c
           | Some entry \<Rightarrow> detachAlias sessionID entry c)"

text \<open>A loop over the groups that may remove the group it visits; keys already gone are not visited.\<close>

definition removeGroupsWhere :: "(sessionEntry \<Rightarrow> bool) \<Rightarrow> sessionCache \<Rightarrow> sessionCache" where
  "removeGroupsWhere unwanted c =
     fold (\<lambda>key c. case map_of (scGroups c) key of
                     None \<Rightarrow> c | Some grp \<Rightarrow> if unwanted grp then removeAliasGroupLocked grp c else c)
       (map fst (scGroups c)) c"

definition InvalidateAuth :: "string \<Rightarrow> sessionCache \<Rightarrow> sessionCache" where
  "InvalidateAuth authID c = (if authID = [] then c else removeGroupsWhere (\<lambda>grp. seAuthID grp = authID) c)"

definition cleanup :: "gotime \<Rightarrow> sessionCache \<Rightarrow> sessionCache" where
  "cleanup now c = removeGroupsWhere (\<lambda>grp. \<not> Before now (seExpiresAt grp)) c"

definition SC_Len :: "sessionCache \<Rightarrow> nat" where
  "SC_Len c = length (scEntries c)"

end
