(* ===== verification/SessionGroups.thy ===== *)
theory SessionGroups
  imports Sessions
begin

text \<open>
  The specification of the session cache: the list of its alias groups, least recently refreshed first.
  A cache represents such a list when its four indexes are the ones computed from it; removing, evicting
  and replacing groups in the cache then are the plain list operations.
\<close>

section \<open>Lists of groups\<close>

definition primary :: "sessionEntry \<Rightarrow> string" where
  "primary g = hd (seAliases g)"

definition compacted :: "string list \<Rightarrow> bool" where
  "compacted as \<longleftrightarrow> length (filter isLocalPromptCacheSessionAlias as) \<le> 1
     \<and> length (filter (\<lambda>a. \<not> isLocalPromptCacheSessionAlias a) as) \<le> maxStableSessionAliases"

definition group_ok :: "sessionEntry \<Rightarrow> bool" where
  "group_ok g \<longleftrightarrow> seAliases g \<noteq> [] \<and> [] \<notin> set (seAliases g) \<and> distinct (seAliases g) \<and> seAuthID g \<noteq> []
     \<and> compacted (seAliases g)"

definition apart :: "sessionEntry \<Rightarrow> sessionEntry \<Rightarrow> bool" where
  "apart g h \<longleftrightarrow> g = h \<or> set (seAliases g) \<inter> set (seAliases h) = {}"

definition groups_ok :: "sessionEntry list \<Rightarrow> bool" where
  "groups_ok gs \<longleftrightarrow> distinct gs \<and> (\<forall>g \<in> set gs. group_ok g) \<and> (\<forall>g \<in> set gs. \<forall>h \<in> set gs. apart g h)"

definition aliasCount :: "sessionEntry list \<Rightarrow> nat" where
  "aliasCount gs = sum_list (map (\<lambda>g. length (seAliases g)) gs)"

definition groupOf :: "string \<Rightarrow> sessionEntry list \<Rightarrow> sessionEntry option" where
  "groupOf a gs = List.find (\<lambda>g. a \<in> set (seAliases g)) gs"

fun evictGroups :: "nat \<Rightarrow> sessionEntry list \<Rightarrow> sessionEntry list" where
  "evictGroups m [] = []"
| "evictGroups m (g # gs) = (if aliasCount (g # gs) > m then evictGroups m gs else g # gs)"

lemma aliasCount_simps [simp]:
  "aliasCount [] = 0" "aliasCount (g # gs) = length (seAliases g) + aliasCount gs"
  "aliasCount (gs @ hs) = aliasCount gs + aliasCount hs"
  by (simp_all add: aliasCount_def)

lemma groups_ok_Nil [simp]: "groups_ok []"
  by (simp add: groups_ok_def)

lemma groups_ok_filter: "groups_ok gs \<Longrightarrow> groups_ok (filter P gs)"
  by (auto simp: groups_ok_def)

lemma groups_ok_tl: "groups_ok (g # gs) \<Longrightarrow> groups_ok gs"
  by (auto simp: groups_ok_def)

lemma groups_ok_snoc:
  assumes "groups_ok gs" "group_ok e" "\<forall>g \<in> set gs. set (seAliases g) \<inter> set (seAliases e) = {}"
  shows "groups_ok (gs @ [e])"
proof -
  have "seAliases e \<noteq> []" using assms(2) by (simp add: group_ok_def)
  then have "e \<notin> set gs" using assms(3) by (metis Int_absorb set_empty)
  moreover have "apart g e \<and> apart e g" if "g \<in> set gs" for g
    using assms(3) that by (auto simp: apart_def)
  ultimately show ?thesis using assms(1,2) by (auto simp: groups_ok_def) (simp add: apart_def)
qed

lemma groups_ok_alias_unique:
  "groups_ok gs \<Longrightarrow> g \<in> set gs \<Longrightarrow> h \<in> set gs \<Longrightarrow> a \<in> set (seAliases g) \<Longrightarrow> a \<in> set (seAliases h) \<Longrightarrow> g = h"
  by (auto simp: groups_ok_def apart_def)

lemma primary_in: "group_ok g \<Longrightarrow> primary g \<in> set (seAliases g)"
  by (auto simp: group_ok_def primary_def)

lemma group_okE:
  assumes "group_ok g"
  obtains rest where "seAliases g = primary g # rest"
    "\<lparr>seAuthID = seAuthID g, seExpiresAt = seExpiresAt g, seAliases = primary g # rest, seBinding = seBinding g\<rparr> = g"
proof
  show a: "seAliases g = primary g # tl (seAliases g)" using assms by (auto simp: group_ok_def primary_def)
  show "\<lparr>seAuthID = seAuthID g, seExpiresAt = seExpiresAt g, seAliases = primary g # tl (seAliases g), seBinding = seBinding g\<rparr> = g"
    unfolding a [symmetric] by simp
qed

lemma groups_ok_primary_unique:
  assumes "groups_ok gs" "g \<in> set gs" "h \<in> set gs" "primary g = primary h"
  shows "g = h"
  using assms primary_in groups_ok_alias_unique by (metis groups_ok_def)

lemma groups_ok_distinct_primary: "groups_ok gs \<Longrightarrow> distinct (map primary gs)"
  using groups_ok_primary_unique by (auto simp: distinct_map inj_on_def groups_ok_def)

lemma groupOf_iff: "groups_ok gs \<Longrightarrow> groupOf a gs = Some g \<longleftrightarrow> g \<in> set gs \<and> a \<in> set (seAliases g)"
proof -
  assume ok: "groups_ok gs"
  have "groupOf a gs = Some g \<Longrightarrow> g \<in> set gs \<and> a \<in> set (seAliases g)" for g
    by (auto simp: groupOf_def find_Some_iff)
  moreover have "groupOf a gs = None \<Longrightarrow> h \<in> set gs \<Longrightarrow> a \<notin> set (seAliases h)" for h
    by (auto simp: groupOf_def find_None_iff)
  ultimately show ?thesis using groups_ok_alias_unique [OF ok] by (metis option.exhaust)
qed

lemma groupOf_None: "groupOf a gs = None \<longleftrightarrow> (\<forall>g \<in> set gs. a \<notin> set (seAliases g))"
  by (auto simp: groupOf_def find_None_iff)

lemma evictGroups_suffix: "\<exists>n. evictGroups m gs = drop n gs"
proof (induction gs)
  case (Cons g gs)
  then obtain n where "evictGroups m gs = drop n gs" by blast
  then show ?case by (cases "aliasCount (g # gs) > m") (auto intro: exI [of _ "Suc n"] exI [of _ 0])
qed simp

lemma evictGroups_subset: "set (evictGroups m gs) \<subseteq> set gs"
  using evictGroups_suffix [of m gs] set_drop_subset by fastforce

lemma evictGroups_bound: "aliasCount (evictGroups m gs) \<le> m"
  by (induction gs) auto

lemma evictGroups_id: "aliasCount gs \<le> m \<Longrightarrow> evictGroups m gs = gs"
  by (cases gs) auto

lemma evictGroups_keeps_last: "length (seAliases g) \<le> m \<Longrightarrow> g \<in> set (evictGroups m (gs @ [g]))"
  by (induction gs) auto

section \<open>Representation\<close>

definition entriesFor :: "(string, sessionEntry) gomap \<Rightarrow> sessionEntry list \<Rightarrow> bool" where
  "entriesFor m gs \<longleftrightarrow> wf_map m \<and> (\<forall>a e. map_of m a = Some e \<longleftrightarrow> e \<in> set gs \<and> a \<in> set (seAliases e))"

definition groupsFor :: "(string, sessionEntry) gomap \<Rightarrow> sessionEntry list \<Rightarrow> bool" where
  "groupsFor m gs \<longleftrightarrow> wf_map m \<and> (\<forall>k e. map_of m k = Some e \<longleftrightarrow> e \<in> set gs \<and> primary e = k)"

definition orderFor :: "(string, element) gomap \<Rightarrow> string golist \<Rightarrow> sessionEntry list \<Rightarrow> bool" where
  "orderFor m l gs \<longleftrightarrow> indexes m (\<lambda>k. k) l \<and> listValues l = map primary gs"

definition selects :: "(string, (string, unit) gomap) gomap \<Rightarrow> string \<Rightarrow> string \<Rightarrow> bool" where
  "selects m sid k \<longleftrightarrow> (\<exists>ks. map_of m sid = Some ks \<and> k \<in> fst ` set ks)"

definition selectedFor :: "(string, (string, unit) gomap) gomap \<Rightarrow> sessionEntry list \<Rightarrow> bool" where
  "selectedFor m gs \<longleftrightarrow> (\<forall>sid k. selects m sid k \<longleftrightarrow>
     (\<exists>g \<in> set gs. primary g = k \<and> sbSequence (seBinding g) \<noteq> 0 \<and> sbSessionID (seBinding g) = sid))"

definition represents :: "sessionCache \<Rightarrow> sessionEntry list \<Rightarrow> bool" where
  "represents c gs \<longleftrightarrow> groups_ok gs \<and> entriesFor (scEntries c) gs \<and> groupsFor (scGroups c) gs
     \<and> orderFor (evictionElements c) (evictionOrder c) gs \<and> selectedFor (sessionGroups c) gs"

text \<open>What no group operation changes.\<close>

definition settings :: "sessionCache \<Rightarrow> int \<times> duration \<times> nat" where
  "settings c = (scMaxEntries c, scTTL c, bindingSequence c)"

lemma representsD:
  assumes "represents c gs"
  shows "groups_ok gs" "entriesFor (scEntries c) gs" "groupsFor (scGroups c) gs"
    "orderFor (evictionElements c) (evictionOrder c) gs" "selectedFor (sessionGroups c) gs"
  using assms by (auto simp: represents_def)

lemma represents_entry: "represents c gs \<Longrightarrow> map_of (scEntries c) a = groupOf a gs"
proof -
  assume "represents c gs"
  then have "groupOf a gs = Some e \<longleftrightarrow> map_of (scEntries c) a = Some e" for e
    using groupOf_iff by (auto simp: represents_def entriesFor_def)
  then show ?thesis by (metis option.exhaust)
qed

lemma represents_group: "represents c gs \<Longrightarrow> map_of (scGroups c) k = Some g \<longleftrightarrow> g \<in> set gs \<and> primary g = k"
  by (simp add: represents_def groupsFor_def)

lemma equalSessionAliases_eq [simp]: "equalSessionAliases xs ys \<longleftrightarrow> xs = ys"
  by (auto simp: list_all_length list_eq_iff_nth_eq)

declare equalSessionAliases.simps [simp del]

lemma aliases_length: "groups_ok gs \<Longrightarrow> aliasCount gs = card (\<Union>g \<in> set gs. set (seAliases g))"
proof (induction gs)
  case (Cons g gs)
  have "set (seAliases g) \<inter> (\<Union>h \<in> set gs. set (seAliases h)) = {}"
    using Cons.prems by (auto simp: groups_ok_def apart_def)
  moreover have "length (seAliases g) = card (set (seAliases g))"
    using Cons.prems by (simp add: groups_ok_def group_ok_def distinct_card)
  ultimately show ?case using Cons.IH [OF groups_ok_tl [OF Cons.prems]] by (simp add: card_Un_disjoint)
qed simp

lemma represents_length: "represents c gs \<Longrightarrow> length (scEntries c) = aliasCount gs"
proof -
  assume r: "represents c gs"
  have "fst ` set (scEntries c) = (\<Union>g \<in> set gs. set (seAliases g))"
  proof -
    have "a \<in> fst ` set (scEntries c) \<longleftrightarrow> a \<in> (\<Union>g \<in> set gs. set (seAliases g))" for a
      using map_of_not_key [of a "scEntries c"] represents_entry [OF r, of a] groupOf_None [of a gs] by auto
    then show ?thesis by blast
  qed
  moreover have "length (scEntries c) = card (fst ` set (scEntries c))"
    using r by (metis represents_def entriesFor_def wf_map_def distinct_card length_map set_map)
  ultimately show ?thesis using aliases_length [OF representsD(1) [OF r]] by simp
qed

section \<open>Removing a group\<close>

lemma dropAlias_entries:
  "scEntries (fold (dropAlias e) as c) =
     fold (\<lambda>a m. case map_of m a of None \<Rightarrow> m
        | Some cur \<Rightarrow> if sameSessionEntryGroup cur e then AList.delete a m else m) as (scEntries c)"
  by (induction as arbitrary: c) (auto simp: dropAlias_def sameSessionEntryGroup_def split: option.splits)

lemma dropAlias_other:
  "scGroups (fold (dropAlias e) as c) = scGroups c" "evictionOrder (fold (dropAlias e) as c) = evictionOrder c"
  "evictionElements (fold (dropAlias e) as c) = evictionElements c" "sessionGroups (fold (dropAlias e) as c) = sessionGroups c"
  "settings (fold (dropAlias e) as c) = settings c"
  by (induction as arbitrary: c) (auto simp: dropAlias_def settings_def split: option.splits)

lemma dropGroupIndexes_parts:
  "scEntries (dropGroupIndexes e k c) = scEntries c" "settings (dropGroupIndexes e k c) = settings c"
  "scGroups (dropGroupIndexes e k c) = AList.delete k (scGroups c)"
  by (simp_all add: dropGroupIndexes_def Let_def settings_def split: option.splits)

lemma delete_fold_lookup:
  assumes "wf_map m"
  shows "wf_map (fold (\<lambda>a m. case map_of m a of None \<Rightarrow> m | Some cur \<Rightarrow> if P cur then AList.delete a m else m) as m)
    \<and> map_of (fold (\<lambda>a m. case map_of m a of None \<Rightarrow> m | Some cur \<Rightarrow> if P cur then AList.delete a m else m) as m) b =
      (case map_of m b of None \<Rightarrow> None | Some cur \<Rightarrow> if b \<in> set as \<and> P cur then None else Some cur)"
  using assms
proof (induction as arbitrary: m)
  case (Cons a as)
  let ?m = "case map_of m a of None \<Rightarrow> m | Some cur \<Rightarrow> if P cur then AList.delete a m else m"
  have "wf_map ?m" using Cons.prems by (simp split: option.splits)
  from Cons.IH [OF this] show ?case by (auto simp: gomap_simps split: option.splits)
qed (simp split: option.splits)

lemma orderFor_remove:
  assumes "orderFor m l gs" and "groups_ok gs" and "e \<in> set gs"
  obtains d where "map_of m (primary e) = Some d"
    and "orderFor (AList.delete (primary e) m) (list_Remove d l) (filter (\<lambda>g. g \<noteq> e) gs)"
proof -
  have ix: "indexes m (\<lambda>k. k) l" and vals: "listValues l = map primary gs" using assms(1) by (auto simp: orderFor_def)
  have "map_of m (primary e) \<noteq> None" using indexes_None [OF ix, of "primary e"] assms(3) vals by simp
  then obtain d where d: "map_of m (primary e) = Some d" by blast
  then have mem: "(d, primary e) \<in> set (lelems l)" using indexesD(4) [OF ix] by auto
  have "filter (\<lambda>w. w \<noteq> primary e) (map primary gs) = map primary (filter (\<lambda>g. g \<noteq> e) gs)"
    using groups_ok_primary_unique [OF assms(2) _ assms(3)] by (auto simp: filter_map intro!: arg_cong [where f = "map primary"] filter_cong)
  then have "listValues (list_Remove d l) = map primary (filter (\<lambda>g. g \<noteq> e) gs)"
    using Remove_by_key [OF indexesD(2,3) [OF ix] mem] vals by simp
  with indexes_Remove [OF ix mem] d that show thesis by (simp add: orderFor_def)
qed

lemma selectedFor_remove:
  assumes "selectedFor m gs" and "groups_ok gs" and "e \<in> set gs"
  shows "selectedFor (case map_of m (sbSessionID (seBinding e)) of None \<Rightarrow> m
      | Some ks \<Rightarrow> (let ks = AList.delete (primary e) ks in if ks = [] then AList.delete (sbSessionID (seBinding e)) m
          else AList.update (sbSessionID (seBinding e)) ks m)) (filter (\<lambda>g. g \<noteq> e) gs)"
proof -
  let ?sid = "sbSessionID (seBinding e)"
  let ?m = "case map_of m ?sid of None \<Rightarrow> m | Some ks \<Rightarrow> (let ks = AList.delete (primary e) ks
    in if ks = [] then AList.delete ?sid m else AList.update ?sid ks m)"
  have "selects ?m sid k \<longleftrightarrow> selects m sid k \<and> \<not> (sid = ?sid \<and> k = primary e)" for sid k
  proof (cases "map_of m ?sid")
    case None
    then show ?thesis by (auto simp: selects_def)
  next
    case (Some ks)
    moreover have "fst ` set (AList.delete (primary e) ks) = fst ` set ks - {primary e}" by simp
    ultimately show ?thesis unfolding selects_def
      by (cases "AList.delete (primary e) ks = []") (auto simp: Let_def gomap_simps)
  qed
  moreover have "selects m sid k \<longleftrightarrow>
      (\<exists>g \<in> set gs. primary g = k \<and> sbSequence (seBinding g) \<noteq> 0 \<and> sbSessionID (seBinding g) = sid)" for sid k
    using assms(1) by (simp add: selectedFor_def)
  ultimately have "selects ?m sid k \<longleftrightarrow>
      (\<exists>g \<in> set (filter (\<lambda>g. g \<noteq> e) gs). primary g = k \<and> sbSequence (seBinding g) \<noteq> 0 \<and> sbSessionID (seBinding g) = sid)"
    for sid k using groups_ok_primary_unique [OF assms(2) _ assms(3)] by auto
  then show ?thesis by (simp add: selectedFor_def)
qed

lemma dropGroupIndexes_sessions:
  "sessionGroups (dropGroupIndexes e k c) = (case map_of (sessionGroups c) (sbSessionID (seBinding e)) of None \<Rightarrow> sessionGroups c
      | Some ks \<Rightarrow> (let ks = AList.delete k ks in if ks = [] then AList.delete (sbSessionID (seBinding e)) (sessionGroups c)
          else AList.update (sbSessionID (seBinding e)) ks (sessionGroups c)))"
  by (simp add: dropGroupIndexes_def Let_def split: option.splits)

lemma dropGroupIndexes_order:
  "map_of (evictionElements c) k = Some d \<Longrightarrow> evictionOrder (dropGroupIndexes e k c) = list_Remove d (evictionOrder c)
     \<and> evictionElements (dropGroupIndexes e k c) = AList.delete k (evictionElements c)"
  by (simp add: dropGroupIndexes_def Let_def split: option.splits)

lemma groupsFor_remove:
  assumes "groupsFor m gs" and "groups_ok gs" and "e \<in> set gs"
  shows "groupsFor (AList.delete (primary e) m) (filter (\<lambda>g. g \<noteq> e) gs)"
  using assms groups_ok_primary_unique [OF assms(2) _ assms(3)] by (auto simp: groupsFor_def gomap_simps)

lemma entriesFor_remove:
  assumes "entriesFor m gs" and "\<forall>g \<in> set gs. apart g e"
  shows "entriesFor (fold (\<lambda>a m. case map_of m a of None \<Rightarrow> m
        | Some cur \<Rightarrow> if sameSessionEntryGroup cur e then AList.delete a m else m) (seAliases e) m) (filter (\<lambda>g. g \<noteq> e) gs)"
proof -
  let ?m = "fold (\<lambda>a m. case map_of m a of None \<Rightarrow> m
        | Some cur \<Rightarrow> if sameSessionEntryGroup cur e then AList.delete a m else m) (seAliases e) m"
  have wf: "wf_map m" and m: "map_of m a = Some g \<longleftrightarrow> g \<in> set gs \<and> a \<in> set (seAliases g)" for a g
    using assms(1) by (auto simp: entriesFor_def)
  note F = delete_fold_lookup [OF wf, of "\<lambda>cur. sameSessionEntryGroup cur e" "seAliases e"]
  have "map_of ?m a = Some g \<longleftrightarrow> map_of m a = Some g \<and> g \<noteq> e" for a g
  proof (cases "map_of m a")
    case (Some h)
    then have "h \<in> set gs" "a \<in> set (seAliases h)" using m by auto
    then have "a \<in> set (seAliases e) \<and> sameSessionEntryGroup h e \<longleftrightarrow> h = e"
      using assms(2) by (auto simp: apart_def sameSessionEntryGroup_def)
    with Some F show ?thesis by auto
  qed (use F in simp)
  then show ?thesis using F by (auto simp: entriesFor_def m)
qed

lemma remove_rep:
  assumes r: "represents c gs" and e: "group_ok e" and apart: "\<forall>g \<in> set gs. apart g e"
  shows "represents (removeAliasGroupLocked e c) (filter (\<lambda>g. g \<noteq> e) gs)
    \<and> settings (removeAliasGroupLocked e c) = settings c"
proof -
  note R = representsD [OF r]
  define c1 where "c1 = (case map_of (scGroups c) (primary e) of None \<Rightarrow> c
    | Some cur \<Rightarrow> if sameSessionEntryGroup cur e then dropGroupIndexes e (primary e) c else c)"
  have eq: "removeAliasGroupLocked e c = fold (dropAlias e) (seAliases e) c1"
    by (rule group_okE [OF e]) (simp add: removeAliasGroupLocked_def Let_def c1_def)
  have E: "scEntries c1 = scEntries c" "settings c1 = settings c"
    by (auto simp: c1_def dropGroupIndexes_parts split: option.splits)
  have "groupsFor (scGroups c1) (filter (\<lambda>g. g \<noteq> e) gs) \<and> selectedFor (sessionGroups c1) (filter (\<lambda>g. g \<noteq> e) gs)
      \<and> orderFor (evictionElements c1) (evictionOrder c1) (filter (\<lambda>g. g \<noteq> e) gs)"
  proof (cases "e \<in> set gs")
    case True
    then have "map_of (scGroups c) (primary e) = Some e" using represents_group [OF r] by simp
    then have c1: "c1 = dropGroupIndexes e (primary e) c" by (simp add: c1_def sameSessionEntryGroup_def)
    obtain d where "map_of (evictionElements c) (primary e) = Some d"
      "orderFor (AList.delete (primary e) (evictionElements c)) (list_Remove d (evictionOrder c)) (filter (\<lambda>g. g \<noteq> e) gs)"
      using orderFor_remove [OF R(4,1) True] by blast
    then show ?thesis unfolding c1
      using groupsFor_remove [OF R(3,1) True] selectedFor_remove [OF R(5,1) True] dropGroupIndexes_order
      by (simp add: dropGroupIndexes_parts dropGroupIndexes_sessions)
  next
    case False
    have "g \<in> set gs \<Longrightarrow> primary g \<noteq> primary e" for g
      using False apart R(1) primary_in [OF e] primary_in [of g] by (metis IntI apart_def empty_iff groups_ok_def)
    then have "map_of (scGroups c) (primary e) = None" using represents_group [OF r] by (metis option.exhaust)
    then have "c1 = c" by (simp add: c1_def)
    moreover have "filter (\<lambda>g. g \<noteq> e) gs = gs" using False by (auto simp: filter_id_conv)
    ultimately show ?thesis using R by simp
  qed
  moreover have "entriesFor (scEntries (removeAliasGroupLocked e c)) (filter (\<lambda>g. g \<noteq> e) gs)"
    unfolding eq dropAlias_entries E(1) by (rule entriesFor_remove [OF R(2) apart])
  ultimately show ?thesis using groups_ok_filter [OF R(1)] E(2) by (simp add: represents_def eq dropAlias_other)
qed

lemma remove_listed:
  assumes "represents c gs" and "e \<in> set gs"
  shows "represents (removeAliasGroupLocked e c) (filter (\<lambda>g. g \<noteq> e) gs)"
    and "settings (removeAliasGroupLocked e c) = settings c"
  using remove_rep [OF assms(1)] assms representsD(1) [OF assms(1)] by (auto simp: groups_ok_def)

lemma remove_all_rep:
  assumes "represents c gs" and "\<forall>e \<in> set es. group_ok e \<and> (\<forall>g \<in> set gs. apart g e)"
  shows "represents (fold removeAliasGroupLocked es c) (filter (\<lambda>g. g \<notin> set es) gs)
    \<and> settings (fold removeAliasGroupLocked es c) = settings c"
  using assms
proof (induction es arbitrary: c gs)
  case (Cons e es)
  have "represents (removeAliasGroupLocked e c) (filter (\<lambda>g. g \<noteq> e) gs)"
    and s: "settings (removeAliasGroupLocked e c) = settings c"
    using remove_rep [OF Cons.prems(1)] Cons.prems(2) by auto
  from Cons.IH [OF this(1)] Cons.prems(2) s show ?case by (simp add: conj_commute)
qed simp

section \<open>Evicting and adding groups\<close>

lemma evict_rep:
  "represents c gs \<Longrightarrow> \<exists>c'. evictExcessLocked c = Some c' \<and> represents c' (evictGroups (nat (scMaxEntries c)) gs)
     \<and> settings c' = settings c"
proof (induction gs arbitrary: c)
  case Nil
  then have "list_Front (evictionOrder c) = None" by (simp add: list_Front_None represents_def orderFor_def)
  then show ?case using Nil by (subst evictExcessLocked.simps) simp
next
  case (Cons g gs)
  note len = represents_length [OF Cons.prems]
  show ?case
  proof (cases "int (length (scEntries c)) > scMaxEntries c")
    case False
    then have "evictGroups (nat (scMaxEntries c)) (g # gs) = g # gs"
      using len by (intro evictGroups_id) linarith
    with False Cons.prems show ?thesis by (subst evictExcessLocked.simps) simp
  next
    case True
    have "listValues (evictionOrder c) = primary g # map primary gs"
      using Cons.prems by (simp add: represents_def orderFor_def)
    then obtain d where d: "list_Front (evictionOrder c) = Some (d, primary g)"
      by (cases "list_Front (evictionOrder c)") (auto simp: list_Front_None dest!: list_Front_Cons)
    have "map_of (scGroups c) (primary g) = Some g" using represents_group [OF Cons.prems] by simp
    then have eq: "evictExcessLocked c = evictExcessLocked (removeAliasGroupLocked g c)"
      using True d by (subst evictExcessLocked.simps) simp
    have "filter (\<lambda>h. h \<noteq> g) (g # gs) = gs"
      using representsD(1) [OF Cons.prems] by (auto simp: groups_ok_def filter_id_conv)
    then have r: "represents (removeAliasGroupLocked g c) gs" "settings (removeAliasGroupLocked g c) = settings c"
      using remove_listed [OF Cons.prems, of g] by simp_all
    have "seAliases g \<noteq> []" using representsD(1) [OF Cons.prems] by (simp add: groups_ok_def group_ok_def)
    then have "0 < aliasCount (g # gs)" by simp
    then have "aliasCount (g # gs) > nat (scMaxEntries c)" using True len by linarith
    moreover have "scMaxEntries (removeAliasGroupLocked g c) = scMaxEntries c" using r(2) by (simp add: settings_def)
    ultimately show ?thesis using Cons.IH [OF r(1)] unfolding eq r(2) by simp
  qed
qed

lemma addSessionGroup_parts:
  "scEntries (addSessionGroup b k c) = scEntries c" "scGroups (addSessionGroup b k c) = scGroups c"
  "evictionOrder (addSessionGroup b k c) = evictionOrder c" "evictionElements (addSessionGroup b k c) = evictionElements c"
  "settings (addSessionGroup b k c) = settings c"
  by (simp_all add: addSessionGroup_def Let_def settings_def)

lemma selects_add:
  "selects (sessionGroups (addSessionGroup b k c)) sid k' \<longleftrightarrow>
     selects (sessionGroups c) sid k' \<or> sbSequence b \<noteq> 0 \<and> sid = sbSessionID b \<and> k' = k"
  by (cases "map_of (sessionGroups c) (sbSessionID b)")
    (auto simp: selects_def addSessionGroup_def Let_def gomap_simps)

lemma selectedFor_add:
  assumes "selectedFor (sessionGroups c) gs"
  shows "selectedFor (sessionGroups (addSessionGroup (seBinding e) (primary e) c)) (gs @ [e])"
  using assms by (auto simp: selectedFor_def selects_add)

lemma update_fold_lookup:
  "wf_map m \<Longrightarrow> wf_map (fold (\<lambda>a m. AList.update a e m) as m)"
  "map_of (fold (\<lambda>a m. AList.update a e m) as m) b = (if b \<in> set as then Some e else map_of m b)"
  by (induction as arbitrary: m) (auto simp: gomap_simps)

lemma entriesFor_add:
  assumes "entriesFor m gs" and "\<forall>g \<in> set gs. set (seAliases g) \<inter> set (seAliases e) = {}"
  shows "entriesFor (fold (\<lambda>a m. AList.update a e m) (seAliases e) m) (gs @ [e])"
  using assms by (auto simp: entriesFor_def update_fold_lookup)

lemma orderFor_add:
  assumes "orderFor m l gs" and "primary e \<notin> primary ` set gs"
  shows "orderFor (AList.update (primary e) (snd (PushBack (primary e) l)) m) (fst (PushBack (primary e) l)) (gs @ [e])"
proof -
  have ix: "indexes m (\<lambda>k. k) l" and vals: "listValues l = map primary gs" using assms(1) by (auto simp: orderFor_def)
  have "map_of m (primary e) = None" using indexes_None [OF ix] assms(2) vals by simp
  from indexes_PushBack [OF ix this] vals show ?thesis by (simp add: orderFor_def)
qed

lemma replace_rep:
  assumes r: "represents c gs" and prev: "\<forall>p \<in> set prev. group_ok p \<and> (\<forall>g \<in> set gs. apart g p)"
    and e: "group_ok e" and gs1: "gs1 = filter (\<lambda>g. g \<notin> set prev) gs"
    and free: "\<forall>g \<in> set gs1. set (seAliases g) \<inter> set (seAliases e) = {}" and pos: "0 < scMaxEntries c"
  shows "\<exists>c'. replaceAliasGroupsLocked (seAuthID e) (seExpiresAt e) (seAliases e) (seBinding e) prev c = Some c'
    \<and> represents c' (evictGroups (nat (scMaxEntries c)) (gs1 @ [e])) \<and> settings c' = settings c"
proof -
  define c1 where "c1 = fold removeAliasGroupLocked prev c"
  have r1: "represents c1 gs1" "settings c1 = settings c"
    using remove_all_rep [OF r prev] by (simp_all add: c1_def gs1)
  note R = representsD [OF r1(1)]
  have unused: "g \<in> set gs1 \<Longrightarrow> primary g \<noteq> primary e" for g
    using free primary_in [OF e] primary_in [of g] R(1) by (metis IntI empty_iff groups_ok_def)
  then have nogrp: "map_of (scGroups c1) (primary e) = None"
    using represents_group [OF r1(1)] by (metis option.exhaust)
  define c2 where "c2 = addSessionGroup (seBinding e) (primary e) (c1\<lparr>scGroups := AList.update (primary e) e (scGroups c1)\<rparr>)"
  define c3 where "c3 = c2\<lparr>scEntries := fold (\<lambda>a m. AList.update a e m) (seAliases e) (scEntries c2),
    evictionOrder := fst (PushBack (primary e) (evictionOrder c2)),
    evictionElements := AList.update (primary e) (snd (PushBack (primary e) (evictionOrder c2))) (evictionElements c2)\<rparr>"
  obtain rest where al: "seAliases e = primary e # rest"
    "\<lparr>seAuthID = seAuthID e, seExpiresAt = seExpiresAt e, seAliases = primary e # rest, seBinding = seBinding e\<rparr> = e"
    by (rule group_okE [OF e])
  have eq: "replaceAliasGroupsLocked (seAuthID e) (seExpiresAt e) (seAliases e) (seBinding e) prev c =
      (if scMaxEntries c3 > 0 \<and> int (length (scEntries c3)) > scMaxEntries c3 then evictExcessLocked c3 else Some c3)"
    using nogrp by (simp add: replaceAliasGroupsLocked_def Let_def split_beta c3_def c2_def al(1) al(2) flip: c1_def)
  have s3: "settings c3 = settings c" using r1(2)
    by (simp add: c3_def c2_def settings_def addSessionGroup_def Let_def)
  have r3: "represents c3 (gs1 @ [e])" unfolding represents_def
  proof (intro conjI)
    show "groups_ok (gs1 @ [e])" by (rule groups_ok_snoc [OF R(1) e free])
    show "entriesFor (scEntries c3) (gs1 @ [e])"
      using entriesFor_add [OF R(2) free] by (simp add: c3_def c2_def addSessionGroup_parts)
    show "groupsFor (scGroups c3) (gs1 @ [e])" using R(3) unused
      by (auto simp: groupsFor_def c3_def c2_def addSessionGroup_parts gomap_simps)
    show "orderFor (evictionElements c3) (evictionOrder c3) (gs1 @ [e])"
      using orderFor_add [OF R(4)] unused by (force simp: c3_def c2_def addSessionGroup_parts)
    have "selectedFor (sessionGroups (c1\<lparr>scGroups := AList.update (primary e) e (scGroups c1)\<rparr>)) gs1" using R(5) by simp
    from selectedFor_add [OF this] show "selectedFor (sessionGroups c3) (gs1 @ [e])" by (simp add: c3_def c2_def)
  qed
  have m: "scMaxEntries c3 = scMaxEntries c" using s3 by (simp add: settings_def)
  show ?thesis
  proof (cases "int (length (scEntries c3)) > scMaxEntries c3")
    case True
    then show ?thesis using evict_rep [OF r3] s3 pos m by (auto simp: eq)
  next
    case False
    then have "evictGroups (nat (scMaxEntries c)) (gs1 @ [e]) = gs1 @ [e]"
      using represents_length [OF r3] m by (intro evictGroups_id) linarith
    with False r3 s3 show ?thesis by (simp add: eq)
  qed
qed

end
