(* ===== verification/SessionOps.thy ===== *)
theory SessionOps
  imports SessionGroups "HOL-Library.Multiset"
begin

text \<open>
  Every operation of the session cache against the list of groups: the specification of each call, the
  simulation, and what it means for the callers of sticky sessions.
\<close>

section \<open>Aliases\<close>

lemma addAlias_fold_set: "set (fold addAlias xs ys) = set ys \<union> {x \<in> set xs. x \<noteq> []}"
  by (induction xs arbitrary: ys) (auto simp: addAlias_def)

lemma addAlias_fold_distinct: "distinct ys \<Longrightarrow> distinct (fold addAlias xs ys)"
  by (induction xs arbitrary: ys) (auto simp: addAlias_def)

lemma addAlias_fold_append:
  "distinct xs \<Longrightarrow> [] \<notin> set xs \<Longrightarrow> fold addAlias xs ys = ys @ filter (\<lambda>x. x \<notin> set ys) xs"
proof (induction xs arbitrary: ys)
  case (Cons x xs)
  have "filter (\<lambda>z. z \<noteq> x \<and> z \<notin> set ys) xs = filter (\<lambda>z. z \<notin> set ys) xs"
    using Cons.prems by (intro filter_cong) auto
  then show ?case using Cons by (auto simp: addAlias_def)
qed simp

lemma merge_fold: "distinct existing \<Longrightarrow> [] \<notin> set existing \<Longrightarrow>
    mergeSessionAliases existing candidates = fold addAlias candidates existing"
  by (simp add: mergeSessionAliases_def addAlias_fold_append)

lemma compactLoop_subset: "set (compactLoop P b n as) \<subseteq> set as"
proof (induction as arbitrary: b n)
  case (Cons a as)
  show ?case using Cons.IH by (simp add: subset_insertI2)
qed simp

lemma compactLoop_distinct: "distinct as \<Longrightarrow> distinct (compactLoop P b n as)"
proof (induction as arbitrary: b n)
  case (Cons a as)
  then have "a \<notin> set (compactLoop P b n as)" for b n using compactLoop_subset [of P b n as] by auto
  with Cons show ?case by simp
qed simp

lemma compactLoop_prompt: "length (filter P (compactLoop P b n as)) \<le> (if b then 0 else 1)"
proof (induction as arbitrary: b n)
  case (Cons a as)
  from Cons [of True] Cons [of b] show ?case by (cases b) auto
qed simp

lemma compactLoop_stable:
  "n \<le> maxStableSessionAliases \<Longrightarrow> length (filter (\<lambda>a. \<not> P a) (compactLoop P b n as)) + n \<le> maxStableSessionAliases"
proof (induction as arbitrary: b n)
  case (Cons a as)
  from Cons.IH [of n] Cons.IH [of "Suc n"] Cons.prems show ?case by auto
qed simp

lemma compactLoop_id:
  "length (filter P as) \<le> (if b then 0 else 1) \<Longrightarrow> length (filter (\<lambda>a. \<not> P a) as) + n \<le> maxStableSessionAliases \<Longrightarrow>
     compactLoop P b n as = as"
  by (induction as arbitrary: b n) (auto split: if_splits)

lemma compact_compacted: "compacted (compactSessionAliases as)"
  using compactLoop_prompt [of isLocalPromptCacheSessionAlias False 0 as]
    compactLoop_stable [of 0 isLocalPromptCacheSessionAlias False as]
  by (simp add: compacted_def compactSessionAliases_def compactSessionAliasesWith_def)

lemma compact_id: "compacted as \<Longrightarrow> compactSessionAliases as = as"
  by (simp add: compacted_def compactSessionAliases_def compactSessionAliasesWith_def compactLoop_id)

lemma compact_subset: "set (compactSessionAliases as) \<subseteq> set as"
  by (simp add: compactSessionAliases_def compactSessionAliasesWith_def compactLoop_subset)

lemma compact_distinct: "distinct as \<Longrightarrow> distinct (compactSessionAliases as)"
  by (simp add: compactSessionAliases_def compactSessionAliasesWith_def compactLoop_distinct)

lemma compacted_filter: "compacted as \<Longrightarrow> compacted (filter P as)"
proof -
  have "length (filter Q (filter P as)) \<le> length (filter Q as)" for Q
    by (induction as) auto
  then show "compacted as \<Longrightarrow> compacted (filter P as)" unfolding compacted_def by (meson order_trans)
qed

lemma groups_ok_disjoint:
  "groups_ok gs \<Longrightarrow> g \<in> set gs \<Longrightarrow> h \<in> set gs \<Longrightarrow> g \<noteq> h \<Longrightarrow> set (seAliases g) \<inter> set (seAliases h) = {}"
  by (auto simp: groups_ok_def apart_def)

section \<open>Specification of the operations\<close>

datatype sessOp =
    SGet gotime gotime string
  | SGetSlow gotime string
  | SRefresh gotime string
  | SSet gotime string string string "string list"
  | STouch gotime string string
  | SCompareDelete string string
  | SInvalidate string
  | SInvalidateAuth string
  | SCleanup gotime

datatype sessRes = RDone | RAuth "string option" | RBool bool

text \<open>The calls of the code.\<close>

fun sessExec :: "sessOp \<Rightarrow> sessionCache \<Rightarrow> (sessionCache \<times> sessRes) option" where
  "sessExec (SGet now later sid) c = (let (c, r) = SC_Get now later sid c in Some (c, RAuth r))"
| "sessExec (SGetSlow now sid) c = (let (c, r) = GetSlow now sid c in Some (c, RAuth r))"
| "sessExec (SRefresh now sid) c = map_option (\<lambda>(c, r). (c, RAuth r)) (GetAndRefresh now sid c)"
| "sessExec (SSet now authID provider sid keys) c =
     map_option (\<lambda>c. (c, RDone)) (setSessionAliases now authID provider sid keys c)"
| "sessExec (STouch now sid authID) c = map_option (\<lambda>(c, r). (c, RBool r)) (Touch now sid authID c)"
| "sessExec (SCompareDelete sid authID) c = map_option (\<lambda>(c, r). (c, RBool r)) (CompareAndDelete sid authID c)"
| "sessExec (SInvalidate sid) c = map_option (\<lambda>c. (c, RDone)) (Invalidate sid c)"
| "sessExec (SInvalidateAuth authID) c = Some (InvalidateAuth authID c, RDone)"
| "sessExec (SCleanup now) c = Some (cleanup now c, RDone)"

text \<open>\<open>SetAliases\<close> and \<open>Set\<close> are selections without a session and provider.\<close>

lemma SetAliases_session:
  "SetAliases now authID sids c = setSessionAliases now authID [] [] sids c"
  "SC_Set now sid authID c = setSessionAliases now authID [] [] [sid] c"
  by (simp_all add: SetAliases_def SC_Set_def setSessionAliases_def zeroBinding_def)

text \<open>Their specification on the list of groups, with the number of selections made so far.\<close>

record sessSpecState =
  sgroups :: "sessionEntry list"
  sselections :: nat

definition live :: "gotime \<Rightarrow> sessionEntry \<Rightarrow> bool" where
  "live now g \<longleftrightarrow> now < seExpiresAt g"

definition discard :: "sessionEntry \<Rightarrow> sessSpecState \<Rightarrow> sessSpecState" where
  "discard g s = s\<lparr>sgroups := filter (\<lambda>h. h \<noteq> g) (sgroups s)\<rparr>"

definition substitute :: "nat \<Rightarrow> sessionEntry list \<Rightarrow> sessionEntry \<Rightarrow> sessSpecState \<Rightarrow> sessSpecState" where
  "substitute m old new s = s\<lparr>sgroups := evictGroups m (filter (\<lambda>h. h \<notin> set old) (sgroups s) @ [new])\<rparr>"

definition refreshed :: "gotime \<Rightarrow> string \<Rightarrow> sessionEntry \<Rightarrow> sessionEntry" where
  "refreshed expiry sid g = g\<lparr>seExpiresAt := expiry, seAliases := sid # filter (\<lambda>a. a \<noteq> sid) (seAliases g)\<rparr>"

definition detached :: "nat \<Rightarrow> string \<Rightarrow> sessionEntry \<Rightarrow> sessSpecState \<Rightarrow> sessSpecState" where
  "detached m sid g s =
     (let surviving = filter (\<lambda>a. a \<noteq> sid) (seAliases g)
      in if surviving = [] then discard g s else substitute m [g] (g\<lparr>seAliases := surviving\<rparr>) s)"

text \<open>The live groups that the identifiers belong to, and the aliases a new binding covers.\<close>

definition touched :: "gotime \<Rightarrow> string list \<Rightarrow> sessionEntry list \<Rightarrow> sessionEntry list" where
  "touched now sids gs = filter (live now) (List.map_filter (\<lambda>sid. groupOf sid gs) sids)"

definition covered :: "gotime \<Rightarrow> string list \<Rightarrow> sessionEntry list \<Rightarrow> string list" where
  "covered now sids gs = compactSessionAliases (fold addAlias (sids @ concat (map seAliases (touched now sids gs))) [])"

definition stillValid :: "gotime \<Rightarrow> string list \<Rightarrow> sessionEntry list \<Rightarrow> sessionEntry list" where
  "stillValid now sids gs = filter (\<lambda>g. live now g \<or> set (seAliases g) \<inter> set sids = {}) gs"

definition setSpec :: "duration \<Rightarrow> nat \<Rightarrow> gotime \<Rightarrow> string \<Rightarrow> sessionBinding \<Rightarrow> string list \<Rightarrow> sessSpecState \<Rightarrow> sessSpecState" where
  "setSpec ttl m now authID binding sids s =
     (if authID = [] then s
      else
        (let prev = touched now sids (sgroups s);
             aliases = covered now sids (sgroups s);
             s = s\<lparr>sgroups := stillValid now sids (sgroups s)\<rparr>;
             selecting = (sbSessionID binding \<noteq> [] \<and> sbProvider binding \<noteq> []);
             n = (if selecting then wrapU64 (sselections s + 1) else sselections s);
             b = (if selecting then binding\<lparr>sbSequence := n\<rparr> else newestBinding prev binding)
         in if aliases = [] then s
            else substitute m prev \<lparr>seAuthID = authID, seExpiresAt = now + ttl, seAliases = aliases, seBinding = b\<rparr>
                   (s\<lparr>sselections := n\<rparr>)))"

fun sessSpec :: "duration \<Rightarrow> nat \<Rightarrow> sessOp \<Rightarrow> sessSpecState \<Rightarrow> sessSpecState \<times> sessRes" where
  "sessSpec ttl m (SGet now later sid) s =
     (case groupOf sid (sgroups s) of
        None \<Rightarrow> (s, RAuth None)
      | Some g \<Rightarrow> if live now g \<or> live later g then (s, RAuth (Some (seAuthID g))) else (discard g s, RAuth None))"
| "sessSpec ttl m (SGetSlow now sid) s =
     (case groupOf sid (sgroups s) of
        None \<Rightarrow> (s, RAuth None)
      | Some g \<Rightarrow> if live now g then (s, RAuth (Some (seAuthID g))) else (discard g s, RAuth None))"
| "sessSpec ttl m (SRefresh now sid) s =
     (case groupOf sid (sgroups s) of
        None \<Rightarrow> (s, RAuth None)
      | Some g \<Rightarrow> if live now g then (substitute m [g] (refreshed (now + ttl) sid g) s, RAuth (Some (seAuthID g)))
                  else (discard g s, RAuth None))"
| "sessSpec ttl m (SSet now authID provider sid keys) s =
     (setSpec ttl m now authID \<lparr>sbSessionID = sid, sbProvider = provider, sbSequence = 0\<rparr> keys s, RDone)"
| "sessSpec ttl m (STouch now sid authID) s =
     (case groupOf sid (sgroups s) of
        None \<Rightarrow> (s, RBool False)
      | Some g \<Rightarrow> if seAuthID g = authID \<and> live now g then (substitute m [g] (refreshed (now + ttl) sid g) s, RBool True)
                  else (s, RBool False))"
| "sessSpec ttl m (SCompareDelete sid authID) s =
     (case groupOf sid (sgroups s) of
        None \<Rightarrow> (s, RBool False)
      | Some g \<Rightarrow> if seAuthID g = authID then (detached m sid g s, RBool True) else (s, RBool False))"
| "sessSpec ttl m (SInvalidate sid) s =
     (case groupOf sid (sgroups s) of None \<Rightarrow> (s, RDone) | Some g \<Rightarrow> (detached m sid g s, RDone))"
| "sessSpec ttl m (SInvalidateAuth authID) s = (s\<lparr>sgroups := filter (\<lambda>g. seAuthID g \<noteq> authID) (sgroups s)\<rparr>, RDone)"
| "sessSpec ttl m (SCleanup now) s = (s\<lparr>sgroups := filter (live now) (sgroups s)\<rparr>, RDone)"

section \<open>Simulation\<close>

definition simulates :: "duration \<Rightarrow> nat \<Rightarrow> sessionCache \<Rightarrow> sessSpecState \<Rightarrow> bool" where
  "simulates ttl m c s \<longleftrightarrow> represents c (sgroups s) \<and> 0 < m \<and> settings c = (int m, ttl, sselections s)"

lemma simulatesD:
  assumes "simulates ttl m c s"
  shows "represents c (sgroups s)" "groups_ok (sgroups s)" "0 < m" "settings c = (int m, ttl, sselections s)"
    "scMaxEntries c = int m" "scTTL c = ttl" "bindingSequence c = sselections s"
    "map_of (scEntries c) sid = groupOf sid (sgroups s)"
  using assms represents_entry representsD(1) by (auto simp: simulates_def settings_def)

lemma sim_remove:
  assumes "simulates ttl m c s" and "g \<in> set (sgroups s)"
  shows "simulates ttl m (removeAliasGroupLocked g c) (discard g s)"
  using remove_listed [OF simulatesD(1) [OF assms(1)] assms(2)] assms(1) by (simp add: simulates_def discard_def)

lemma sim_substitute:
  assumes s: "simulates ttl m c s" and prev: "set prev \<subseteq> set (sgroups s)" and e: "group_ok e"
    and free: "\<forall>g \<in> set (sgroups s) - set prev. set (seAliases g) \<inter> set (seAliases e) = {}"
  shows "\<exists>c'. replaceAliasGroupsLocked (seAuthID e) (seExpiresAt e) (seAliases e) (seBinding e) prev c = Some c'
    \<and> simulates ttl m c' (substitute m prev e s)"
proof -
  note D = simulatesD [OF s]
  have "\<forall>p \<in> set prev. group_ok p \<and> (\<forall>g \<in> set (sgroups s). apart g p)" using prev D(2) by (auto simp: groups_ok_def)
  from replace_rep [OF D(1) this e refl] free D(3,4,5) show ?thesis
    by (auto simp: simulates_def substitute_def)
qed

lemma groupOf_listed: "simulates ttl m c s \<Longrightarrow> groupOf sid (sgroups s) = Some g \<Longrightarrow>
    g \<in> set (sgroups s) \<and> sid \<in> set (seAliases g) \<and> group_ok g"
  using groupOf_iff simulatesD(2) by (fastforce simp: groups_ok_def)

lemma groupOf_empty: "simulates ttl m c s \<Longrightarrow> groupOf [] (sgroups s) = None"
  using simulatesD(2) by (fastforce simp: groupOf_None groups_ok_def group_ok_def)

lemma compacted_perm: "mset as = mset bs \<Longrightarrow> compacted as \<Longrightarrow> compacted bs"
  unfolding compacted_def by (metis mset_filter size_mset)

lemma refresh_aliases:
  assumes "group_ok g" and "sid \<in> set (seAliases g)"
  shows "compactSessionAliases (mergeSessionAliases [sid] (seAliases g)) = seAliases (refreshed t sid g)"
    and "group_ok (refreshed t sid g)" and "set (seAliases (refreshed t sid g)) = set (seAliases g)"
proof -
  have ok: "distinct (seAliases g)" "[] \<notin> set (seAliases g)" "compacted (seAliases g)" "sid \<noteq> []"
    using assms by (auto simp: group_ok_def)
  let ?as = "sid # filter (\<lambda>a. a \<noteq> sid) (seAliases g)"
  have m: "mergeSessionAliases [sid] (seAliases g) = ?as"
    using ok by (simp add: merge_fold addAlias_fold_append)
  have "distinct ?as" and s: "set ?as = set (seAliases g)" using ok assms(2) by auto
  then have "mset (seAliases g) = mset ?as" using ok(1) set_eq_iff_mset_eq_distinct by blast
  then have c: "compacted ?as" using compacted_perm ok(3) by blast
  show "compactSessionAliases (mergeSessionAliases [sid] (seAliases g)) = seAliases (refreshed t sid g)"
    using compact_id [OF c] by (simp add: m refreshed_def)
  show "group_ok (refreshed t sid g)" using assms ok c by (auto simp: group_ok_def refreshed_def)
  show "set (seAliases (refreshed t sid g)) = set (seAliases g)" using s by (simp add: refreshed_def)
qed

lemma sim_refresh:
  assumes s: "simulates ttl m c s" and g: "groupOf sid (sgroups s) = Some g"
  shows "\<exists>c'. replaceAliasGroupsLocked (seAuthID g) t (compactSessionAliases (mergeSessionAliases [sid] (seAliases g)))
      (seBinding g) [g] c = Some c' \<and> simulates ttl m c' (substitute m [g] (refreshed t sid g) s)"
proof -
  note L = groupOf_listed [OF s g]
  note A = refresh_aliases [of g sid t]
  have "\<forall>h \<in> set (sgroups s) - set [g]. set (seAliases h) \<inter> set (seAliases (refreshed t sid g)) = {}"
    using L A(3) groups_ok_disjoint [OF simulatesD(2) [OF s]] by simp
  from sim_substitute [OF s _ A(2) this] L A(1) show ?thesis by (simp add: refreshed_def)
qed

lemma sim_detach:
  assumes s: "simulates ttl m c s" and g: "groupOf sid (sgroups s) = Some g"
  shows "\<exists>c'. detachAlias sid g c = Some c' \<and> simulates ttl m c' (detached m sid g s)"
proof -
  note L = groupOf_listed [OF s g]
  let ?as = "filter (\<lambda>a. a \<noteq> sid) (seAliases g)" and ?c = "removeAliasGroupLocked g c"
  have r: "simulates ttl m ?c (discard g s)" using sim_remove [OF s] L by blast
  show ?thesis
  proof (cases "?as = []")
    case True
    then show ?thesis using r by (simp add: detachAlias_def detached_def Let_def)
  next
    case False
    let ?e = "g\<lparr>seAliases := ?as\<rparr>"
    have "group_ok ?e" using L False by (auto simp: group_ok_def compacted_filter)
    moreover have "\<forall>h \<in> set (sgroups (discard g s)) - set []. set (seAliases h) \<inter> set (seAliases ?e) = {}"
      using L simulatesD(2) [OF s] by (auto simp: discard_def groups_ok_def apart_def)
    moreover have "substitute m [] ?e (discard g s) = substitute m [g] ?e s" by (simp add: substitute_def discard_def)
    ultimately show ?thesis using sim_substitute [OF r, of "[]" ?e] False
      by (simp add: detachAlias_def detached_def Let_def)
  qed
qed

text \<open>Setting aliases: the loop over the identifiers.\<close>

lemma touched_simps:
  "touched now [] gs = []"
  "touched now (sid # sids) gs =
     (case groupOf sid gs of None \<Rightarrow> [] | Some g \<Rightarrow> if live now g then [g] else []) @ touched now sids gs"
  by (simp_all add: touched_def List.map_filter_def split: option.splits)

lemma touched_discard:
  assumes "groups_ok gs" and "\<not> live now e"
  shows "touched now sids (filter (\<lambda>g. g \<noteq> e) gs) = touched now sids gs"
proof (induction sids)
  case (Cons sid sids)
  have eq: "groupOf sid (filter (\<lambda>g. g \<noteq> e) gs) = Some g \<longleftrightarrow> groupOf sid gs = Some g \<and> g \<noteq> e" for g
    using groupOf_iff [OF assms(1)] groupOf_iff [OF groups_ok_filter [OF assms(1)]] by auto
  have "(case groupOf sid (filter (\<lambda>g. g \<noteq> e) gs) of None \<Rightarrow> [] | Some g \<Rightarrow> if live now g then [g] else []) =
      (case groupOf sid gs of None \<Rightarrow> [] | Some g \<Rightarrow> if live now g then [g] else [])"
  proof (cases "groupOf sid (filter (\<lambda>g. g \<noteq> e) gs)")
    case None
    then have "groupOf sid gs = None \<or> groupOf sid gs = Some e" using eq by (metis option.exhaust)
    with None assms(2) show ?thesis by auto
  next
    case (Some g)
    then have "groupOf sid gs = Some g" using eq by blast
    with Some show ?thesis by simp
  qed
  with Cons show ?case by (simp only: touched_simps)
qed (simp add: touched_simps)

lemma sim_set_loop:
  assumes "simulates ttl m c s" and "distinct as" and "[] \<notin> set as"
  shows "\<exists>c'. setAliasesLoop now sids (c, as, prev) =
      (c', fold addAlias (concat (map seAliases (touched now sids (sgroups s)))) as, prev @ touched now sids (sgroups s))
    \<and> simulates ttl m c' (s\<lparr>sgroups := stillValid now sids (sgroups s)\<rparr>)"
  using assms
proof (induction sids arbitrary: c s as prev)
  case Nil
  have "stillValid now [] (sgroups s) = sgroups s" by (simp add: stillValid_def)
  with Nil show ?case by (simp add: touched_simps)
next
  case (Cons sid sids)
  note D = simulatesD [OF Cons.prems(1)]
  show ?case
  proof (cases "groupOf sid (sgroups s)")
    case None
    then have "stillValid now (sid # sids) (sgroups s) = stillValid now sids (sgroups s)"
      by (auto simp: stillValid_def groupOf_None intro!: filter_cong)
    with None Cons.IH [OF Cons.prems] show ?thesis by (simp add: D(8) touched_simps)
  next
    case (Some g)
    note L = groupOf_listed [OF Cons.prems(1) Some]
    have uniq: "h \<in> set (sgroups s) \<Longrightarrow> sid \<in> set (seAliases h) \<longleftrightarrow> h = g" for h
      using L groups_ok_alias_unique [OF D(2)] by blast
    show ?thesis
    proof (cases "live now g")
      case True
      then have v: "stillValid now (sid # sids) (sgroups s) = stillValid now sids (sgroups s)"
        using uniq by (auto simp: stillValid_def intro!: filter_cong)
      have al: "distinct (seAliases g)" "[] \<notin> set (seAliases g)" using L by (auto simp: group_ok_def)
      have "distinct (fold addAlias (seAliases g) as)" "[] \<notin> set (fold addAlias (seAliases g) as)"
        using Cons.prems al by (auto simp: addAlias_fold_distinct addAlias_fold_set)
      from Cons.IH [OF Cons.prems(1) this, of "prev @ [g]"] True Some v Cons.prems show ?thesis
        by (simp add: D(8) touched_simps live_def merge_fold)
    next
      case False
      have v: "stillValid now (sid # sids) (sgroups s) = stillValid now sids (sgroups (discard g s))"
        using uniq False by (auto simp: stillValid_def discard_def intro!: filter_cong)
      have r: "simulates ttl m (removeAliasGroupLocked g c) (discard g s)" using sim_remove [OF Cons.prems(1)] L by blast
      have t: "touched now sids (sgroups (discard g s)) = touched now sids (sgroups s)"
        using touched_discard [OF D(2) False] by (simp add: discard_def)
      have "(discard g s)\<lparr>sgroups := stillValid now sids (sgroups (discard g s))\<rparr> =
          s\<lparr>sgroups := stillValid now (sid # sids) (sgroups s)\<rparr>" by (simp add: v) (simp add: discard_def)
      with Cons.IH [OF r Cons.prems(2,3)] Some False show ?thesis by (simp add: D(8) touched_simps live_def t)
    qed
  qed
qed

lemma touched_set: "groups_ok gs \<Longrightarrow>
    set (touched now sids gs) = {g \<in> set gs. live now g \<and> set (seAliases g) \<inter> set sids \<noteq> {}}"
proof (induction sids)
  case (Cons sid sids)
  have "set (case groupOf sid gs of None \<Rightarrow> [] | Some g \<Rightarrow> if live now g then [g] else []) =
      {g \<in> set gs. live now g \<and> sid \<in> set (seAliases g)}"
    using groupOf_iff [OF Cons.prems, of sid] groupOf_None [of sid gs]
    by (cases "groupOf sid gs") (auto, (metis option.inject)+)
  with Cons show ?case by (auto simp: touched_simps)
qed (simp add: touched_simps)

lemma covered_facts:
  assumes "groups_ok gs"
  shows "distinct (covered now sids gs)" "[] \<notin> set (covered now sids gs)" "compacted (covered now sids gs)"
    "set (covered now sids gs) \<subseteq> set sids \<union> (\<Union>g \<in> set (touched now sids gs). set (seAliases g))"
proof -
  let ?xs = "fold addAlias (sids @ concat (map seAliases (touched now sids gs))) []"
  have s: "set ?xs \<subseteq> set sids \<union> (\<Union>g \<in> set (touched now sids gs). set (seAliases g))" "[] \<notin> set ?xs"
    unfolding addAlias_fold_set by auto
  show "distinct (covered now sids gs)" unfolding covered_def by (intro compact_distinct addAlias_fold_distinct) simp
  show "compacted (covered now sids gs)" unfolding covered_def by (rule compact_compacted)
  show "[] \<notin> set (covered now sids gs)"
    "set (covered now sids gs) \<subseteq> set sids \<union> (\<Union>g \<in> set (touched now sids gs). set (seAliases g))"
    using compact_subset [of ?xs] s unfolding covered_def by auto
qed

lemma covered_free:
  assumes ok: "groups_ok gs" and g: "g \<in> set (stillValid now sids gs)" "g \<notin> set (touched now sids gs)"
  shows "set (seAliases g) \<inter> set (covered now sids gs) = {}"
proof -
  have gs: "g \<in> set gs" using g(1) by (simp add: stillValid_def)
  have "set (seAliases g) \<inter> set sids = {}"
    using g gs by (auto simp: stillValid_def touched_set [OF ok])
  moreover have "set (seAliases g) \<inter> set (seAliases h) = {}" if "h \<in> set (touched now sids gs)" for h
    using that g(2) gs groups_ok_disjoint [OF ok, of g h] by (auto simp: touched_set [OF ok])
  ultimately show ?thesis using covered_facts(4) [OF ok, of now sids] by blast
qed

lemma sim_set:
  assumes s: "simulates ttl m c s"
  shows "\<exists>c'. setAliases now authID binding sids c = Some c' \<and> simulates ttl m c' (setSpec ttl m now authID binding sids s)"
proof (cases "authID = []")
  case True
  with s show ?thesis by (simp add: setAliases_def setSpec_def)
next
  case False
  let ?gs = "sgroups s"
  let ?prev = "touched now sids ?gs" and ?as = "covered now sids ?gs"
  let ?s1 = "s\<lparr>sgroups := stillValid now sids ?gs\<rparr>"
  note D = simulatesD [OF s]
  have m0: "mergeSessionAliases [] sids = fold addAlias sids []" by (simp add: mergeSessionAliases_def)
  have "distinct (fold addAlias sids [])" "[] \<notin> set (fold addAlias sids [])"
    by (simp_all add: addAlias_fold_distinct addAlias_fold_set)
  from sim_set_loop [OF s this, of now sids "[]"] obtain c1 where
    c1: "setAliasesLoop now sids (c, mergeSessionAliases [] sids, []) =
        (c1, fold addAlias (sids @ concat (map seAliases ?prev)) [], ?prev)" "simulates ttl m c1 ?s1"
    by (auto simp: m0)
  define sel where "sel \<longleftrightarrow> sbSessionID binding \<noteq> [] \<and> sbProvider binding \<noteq> []"
  define n where "n = (if sel then wrapU64 (sselections s + 1) else sselections s)"
  define b where "b = (if sel then binding\<lparr>sbSequence := n\<rparr> else newestBinding ?prev binding)"
  define c2 where "c2 = c1\<lparr>bindingSequence := n\<rparr>"
  define e where "e = \<lparr>seAuthID = authID, seExpiresAt = now + ttl, seAliases = ?as, seBinding = b\<rparr>"
  have c2: "simulates ttl m c2 (?s1\<lparr>sselections := n\<rparr>)" using c1(2)
    by (auto simp: simulates_def c2_def settings_def represents_def)
  have eq: "setAliases now authID binding sids c = (if ?as = [] then Some c1 else
      replaceAliasGroupsLocked authID (now + ttl) ?as b ?prev c2)"
  proof -
    have "scTTL c1 = ttl" "bindingSequence c1 = sselections s" "\<not> sel \<Longrightarrow> c2 = c1"
      using simulatesD(6,7) [OF c1(2)] by (simp_all add: c2_def n_def)
    note F = this
    show ?thesis
    proof (cases sel)
      case True
      then show ?thesis using False F(1,2)
        by (simp add: setAliases_def c1(1) Let_def covered_def b_def n_def c2_def flip: sel_def)
    next
      case f: False
      show ?thesis unfolding F(3) [OF f] using f False F(1)
        by (simp add: setAliases_def c1(1) Let_def covered_def b_def flip: sel_def)
    qed
  qed
  show ?thesis
  proof (cases "?as = []")
    case True
    then show ?thesis using False c1(2) by (simp add: eq setSpec_def Let_def)
  next
    case as: False
    have "group_ok e" using covered_facts(1-3) [OF D(2), of now sids] as False by (simp add: group_ok_def e_def)
    moreover have "set ?prev \<subseteq> set (stillValid now sids ?gs)"
      by (auto simp: touched_set [OF D(2)] stillValid_def)
    moreover have "\<forall>g \<in> set (stillValid now sids ?gs) - set ?prev. set (seAliases g) \<inter> set (seAliases e) = {}"
      using covered_free [OF D(2)] by (auto simp: e_def)
    ultimately have "\<exists>c'. replaceAliasGroupsLocked authID (now + ttl) ?as b ?prev c2 = Some c' \<and>
        simulates ttl m c' (substitute m ?prev e (?s1\<lparr>sselections := n\<rparr>))"
      using sim_substitute [OF c2, of ?prev e] by (simp add: e_def)
    moreover have "setSpec ttl m now authID binding sids s = substitute m ?prev e (?s1\<lparr>sselections := n\<rparr>)"
      using False as by (simp add: setSpec_def Let_def e_def b_def n_def sel_def)
    ultimately show ?thesis using as by (simp add: eq)
  qed
qed

text \<open>Loops over all groups.\<close>

lemma sim_remove_keys:
  assumes "simulates ttl m c s"
  shows "simulates ttl m (fold (\<lambda>key c. case map_of (scGroups c) key of
      None \<Rightarrow> c | Some grp \<Rightarrow> if unwanted grp then removeAliasGroupLocked grp c else c) keys c)
    (s\<lparr>sgroups := filter (\<lambda>g. \<not> (unwanted g \<and> primary g \<in> set keys)) (sgroups s)\<rparr>)"
  using assms
proof (induction keys arbitrary: c s)
  case (Cons key keys)
  let ?c = "case map_of (scGroups c) key of None \<Rightarrow> c | Some grp \<Rightarrow> if unwanted grp then removeAliasGroupLocked grp c else c"
  let ?s = "s\<lparr>sgroups := filter (\<lambda>g. \<not> (unwanted g \<and> primary g = key)) (sgroups s)\<rparr>"
  note grp = represents_group [OF simulatesD(1) [OF Cons.prems]]
  note uniq = groups_ok_primary_unique [OF simulatesD(2) [OF Cons.prems]]
  have "simulates ttl m ?c ?s"
  proof (cases "\<exists>g \<in> set (sgroups s). primary g = key \<and> unwanted g")
    case True
    then obtain g where g: "g \<in> set (sgroups s)" "primary g = key" "unwanted g" by blast
    then have "map_of (scGroups c) key = Some g" using grp by blast
    moreover have "?s = discard g s"
    proof -
      have "(unwanted h \<and> primary h = key) = (h = g)" if "h \<in> set (sgroups s)" for h
        using g uniq [OF that g(1)] by (metis (no_types))
      then have "filter (\<lambda>h. \<not> (unwanted h \<and> primary h = key)) (sgroups s) = filter (\<lambda>h. h \<noteq> g) (sgroups s)"
        by (intro filter_cong) simp_all
      then show ?thesis by (simp add: discard_def)
    qed
    ultimately show ?thesis using sim_remove [OF Cons.prems g(1)] g(3) by simp
  next
    case False
    then have "filter (\<lambda>g. \<not> (unwanted g \<and> primary g = key)) (sgroups s) = sgroups s" by (auto simp: filter_id_conv)
    then have "?s = s" by simp
    moreover have "?c = c" using False grp by (auto split: option.splits)
    ultimately show ?thesis using Cons.prems by simp
  qed
  moreover have "filter (\<lambda>g. \<not> (unwanted g \<and> primary g \<in> set keys)) (sgroups ?s) =
      filter (\<lambda>g. \<not> (unwanted g \<and> primary g \<in> set (key # keys))) (sgroups s)" by (auto intro!: filter_cong)
  ultimately show ?case using Cons.IH [of ?c ?s] by simp
qed simp

lemma sim_remove_where:
  assumes "simulates ttl m c s"
  shows "simulates ttl m (removeGroupsWhere unwanted c) (s\<lparr>sgroups := filter (\<lambda>g. \<not> unwanted g) (sgroups s)\<rparr>)"
proof -
  have "g \<in> set (sgroups s) \<Longrightarrow> primary g \<in> set (map fst (scGroups c))" for g
    using represents_group [OF simulatesD(1) [OF assms], of "primary g" g] map_of_key_in [of "scGroups c" "primary g" g] by simp
  then have "filter (\<lambda>g. \<not> (unwanted g \<and> primary g \<in> set (map fst (scGroups c)))) (sgroups s) =
      filter (\<lambda>g. \<not> unwanted g) (sgroups s)" by (intro filter_cong) auto
  then show ?thesis using sim_remove_keys [OF assms, of unwanted "map fst (scGroups c)"]
    by (simp add: removeGroupsWhere_def)
qed

lemma sim_all_named: "simulates ttl m c s \<Longrightarrow> filter (\<lambda>g. seAuthID g \<noteq> []) (sgroups s) = sgroups s"
  using simulatesD(2) by (fastforce simp: filter_id_conv groups_ok_def group_ok_def)

text \<open>One step.\<close>

lemma sess_step:
  assumes s: "simulates ttl m c s"
  shows "\<exists>c'. sessExec oper c = Some (c', snd (sessSpec ttl m oper s)) \<and> simulates ttl m c' (fst (sessSpec ttl m oper s))"
proof -
  note D = simulatesD [OF s]
  note G = D(8) groupOf_empty [OF s]
  show ?thesis
  proof (cases oper)
    case (SGet now later sid)
    then show ?thesis using s sim_remove [OF s] groupOf_listed [OF s, of sid]
      by (cases "groupOf sid (sgroups s)") (auto simp: SC_Get_def GetSlow_def G live_def)
  next
    case (SGetSlow now sid)
    then show ?thesis using s sim_remove [OF s] groupOf_listed [OF s, of sid]
      by (cases "groupOf sid (sgroups s)") (auto simp: GetSlow_def G live_def)
  next
    case (SRefresh now sid)
    then show ?thesis using s sim_remove [OF s] groupOf_listed [OF s, of sid] sim_refresh [OF s, of sid _ "now + ttl"]
      by (cases "groupOf sid (sgroups s)") (fastforce simp: GetAndRefresh_def G live_def D(6) Let_def)+
  next
    case (SSet now authID provider sid keys)
    then show ?thesis using sim_set [OF s] by (fastforce simp: setSessionAliases_def)
  next
    case (STouch now sid authID)
    have "groupOf sid (sgroups s) = Some g \<Longrightarrow> seAuthID g \<noteq> []" for g
      using groupOf_listed [OF s, of sid g] by (simp add: group_ok_def)
    with STouch show ?thesis using s sim_refresh [OF s, of sid _ "now + ttl"]
      by (cases "groupOf sid (sgroups s)") (fastforce simp: Touch_def G live_def D(6) Let_def)+
  next
    case (SCompareDelete sid authID)
    have "groupOf sid (sgroups s) = Some g \<Longrightarrow> seAuthID g \<noteq> []" for g
      using groupOf_listed [OF s, of sid g] by (simp add: group_ok_def)
    with SCompareDelete show ?thesis using s sim_detach [OF s, of sid]
      by (cases "groupOf sid (sgroups s)") (fastforce simp: CompareAndDelete_def G)+
  next
    case (SInvalidate sid)
    then show ?thesis using s sim_detach [OF s, of sid]
      by (cases "groupOf sid (sgroups s)") (fastforce simp: Invalidate_def G)+
  next
    case (SInvalidateAuth authID)
    then show ?thesis using s sim_remove_where [OF s, of "\<lambda>g. seAuthID g = authID"] sim_all_named [OF s]
      by (cases "authID = []") (simp_all add: InvalidateAuth_def)
  next
    case (SCleanup now)
    then show ?thesis using sim_remove_where [OF s, of "\<lambda>g. \<not> now < seExpiresAt g"]
      by (simp add: cleanup_def live_def [abs_def])
  qed
qed

text \<open>Runs.\<close>

fun sessRun :: "sessOp list \<Rightarrow> sessionCache \<Rightarrow> (sessionCache \<times> sessRes list) option" where
  "sessRun [] c = Some (c, [])"
| "sessRun (oper # opers) c =
     Option.bind (sessExec oper c) (\<lambda>(c, r). map_option (\<lambda>(c, rs). (c, r # rs)) (sessRun opers c))"

fun sessSpecRun :: "duration \<Rightarrow> nat \<Rightarrow> sessOp list \<Rightarrow> sessSpecState \<Rightarrow> sessSpecState \<times> sessRes list" where
  "sessSpecRun ttl m [] s = (s, [])"
| "sessSpecRun ttl m (oper # opers) s =
     (fst (sessSpecRun ttl m opers (fst (sessSpec ttl m oper s))),
      snd (sessSpec ttl m oper s) # snd (sessSpecRun ttl m opers (fst (sessSpec ttl m oper s))))"

lemma sess_run:
  "simulates ttl m c s \<Longrightarrow> \<exists>c'. sessRun opers c = Some (c', snd (sessSpecRun ttl m opers s))
     \<and> simulates ttl m c' (fst (sessSpecRun ttl m opers s))"
proof (induction opers arbitrary: c s)
  case (Cons oper opers)
  obtain c1 where c1: "sessExec oper c = Some (c1, snd (sessSpec ttl m oper s))"
    "simulates ttl m c1 (fst (sessSpec ttl m oper s))" using sess_step [OF Cons.prems] by blast
  from Cons.IH [OF c1(2)] show ?case by (auto simp: c1)
qed simp

definition noSessions :: sessSpecState where
  "noSessions = \<lparr>sgroups = [], sselections = 0\<rparr>"

definition effectiveTTL :: "duration \<Rightarrow> duration" where
  "effectiveTTL ttl = (if ttl \<le> 0 then 30 * Minute else ttl)"

definition effectiveMax :: "int \<Rightarrow> nat" where
  "effectiveMax maxEntries = nat (if maxEntries \<le> 0 then defaultMaxSessionEntries else maxEntries)"

lemma simulates_New:
  "simulates (effectiveTTL ttl) (effectiveMax maxEntries) (NewSessionCacheWithCapacity ttl maxEntries) noSessions"
  by (auto simp: simulates_def represents_def settings_def NewSessionCacheWithCapacity_def noSessions_def entriesFor_def
      groupsFor_def orderFor_def selectedFor_def selects_def effectiveTTL_def effectiveMax_def defaultMaxSessionEntries_def)

text \<open>What every specified state satisfies.\<close>

lemma sess_bound:
  assumes "aliasCount (sgroups s) \<le> m"
  shows "aliasCount (sgroups (fst (sessSpec ttl m oper s))) \<le> m"
proof -
  have f: "aliasCount (filter P (sgroups s)) \<le> m" for P
    using assms sum_list_filter_le_nat [of "\<lambda>g. length (seAliases g)" P "sgroups s"] by (simp add: aliasCount_def)
  show ?thesis using assms f
    by (cases oper) (auto simp: discard_def substitute_def detached_def setSpec_def stillValid_def Let_def
        evictGroups_bound split: option.splits)
qed

end
