(* ===== verification/SessionProperties.thy ===== *)
theory SessionProperties
  imports SessionOps
begin

text \<open>What the session cache promises its callers, from the simulation by groups.\<close>

section \<open>The cache is its list of groups\<close>

lemma sess_run_bound:
  "aliasCount (sgroups s) \<le> m \<Longrightarrow> aliasCount (sgroups (fst (sessSpecRun ttl m opers s))) \<le> m"
  by (induction opers arbitrary: s) (simp_all add: sess_bound)

lemma sess_new_run:
  fixes ttl maxEntries
  defines "t \<equiv> effectiveTTL ttl" and "m \<equiv> effectiveMax maxEntries"
  obtains c where "sessRun opers (NewSessionCacheWithCapacity ttl maxEntries) = Some (c, snd (sessSpecRun t m opers noSessions))"
    "simulates t m c (fst (sessSpecRun t m opers noSessions))" "aliasCount (sgroups (fst (sessSpecRun t m opers noSessions))) \<le> m"
  using sess_run [OF simulates_New, of opers] sess_run_bound [of noSessions m t opers]
  unfolding t_def m_def by (auto simp: noSessions_def)

text \<open>
  Claim C30. The session cache refines the list of its alias groups.  From a new cache, every sequence of
  look-ups, refreshes, bindings, touches, deletions, invalidations and cleanups returns (the eviction loop
  always ends), returns what the specification on lists returns, and leaves four indexes that are exactly those
  of the specified list: each alias points to its one group, the eviction list holds the groups in order of
  refresh, and the number of aliases never exceeds the limit.
\<close>

theorem session_cache_refines_groups:
  "case sessRun opers (NewSessionCacheWithCapacity ttl maxEntries) of
     None \<Rightarrow> False
   | Some (c, results) \<Rightarrow>
       (let (s, specified) = sessSpecRun (effectiveTTL ttl) (effectiveMax maxEntries) opers noSessions
        in results = specified \<and> represents c (sgroups s) \<and> SC_Len c = aliasCount (sgroups s)
           \<and> SC_Len c \<le> effectiveMax maxEntries)"
proof -
  define r where "r = sessSpecRun (effectiveTTL ttl) (effectiveMax maxEntries) opers noSessions"
  obtain c where c: "sessRun opers (NewSessionCacheWithCapacity ttl maxEntries) = Some (c, snd r)"
    "simulates (effectiveTTL ttl) (effectiveMax maxEntries) c (fst r)" "aliasCount (sgroups (fst r)) \<le> effectiveMax maxEntries"
    using sess_new_run [of opers ttl maxEntries] unfolding r_def by blast
  have "SC_Len c = aliasCount (sgroups (fst r))"
    using represents_length [OF simulatesD(1) [OF c(2)]] by (simp add: SC_Len_def)
  with c(3) simulatesD(1) [OF c(2)] show ?thesis
    unfolding c(1) r_def [symmetric] by (simp add: split_beta)
qed

section \<open>The eviction loop\<close>

lemma evictGroups_steps: "\<exists>n. evictGroups m gs = drop n gs \<and> (\<forall>j < n. m < aliasCount (drop j gs))"
proof (induction gs)
  case (Cons g gs)
  then obtain n where n: "evictGroups m gs = drop n gs" "\<forall>j < n. m < aliasCount (drop j gs)" by blast
  show ?case
  proof (cases "m < aliasCount (g # gs)")
    case True
    have "m < aliasCount (drop j (g # gs))" if "j < Suc n" for j
      using that n(2) True by (cases j) simp_all
    with True n(1) show ?thesis by (intro exI [of _ "Suc n"]) simp
  next
    case False
    then show ?thesis by (intro exI [of _ 0]) simp
  qed
qed (auto intro: exI [of _ 0])

text \<open>
  Claim C31. The eviction loop ends, whatever the limit.  From every state the cache can reach and for
  every limit, zero and negative ones included, the loop returns a cache within the limit; it has
  dropped whole alias groups, the longest unused ones, and none more than needed: before each group
  it dropped the cache was over the limit.
\<close>

theorem eviction_ends:
  assumes "sessRun opers (NewSessionCacheWithCapacity ttl maxEntries) = Some (c, results)"
  shows "\<exists>c' gs n. evictExcessLocked (c\<lparr>scMaxEntries := limit\<rparr>) = Some c' \<and> int (length (scEntries c')) \<le> max limit 0
    \<and> represents c gs \<and> represents c' (drop n gs) \<and> (\<forall>j < n. limit < int (aliasCount (drop j gs)))"
proof -
  define r where "r = sessSpecRun (effectiveTTL ttl) (effectiveMax maxEntries) opers noSessions"
  let ?gs = "sgroups (fst r)"
  obtain d where d: "sessRun opers (NewSessionCacheWithCapacity ttl maxEntries) = Some (d, snd r)"
    "simulates (effectiveTTL ttl) (effectiveMax maxEntries) d (fst r)"
    using sess_new_run [of opers ttl maxEntries] unfolding r_def by blast
  have r: "represents c ?gs" using simulatesD(1) [OF d(2)] d(1) assms by simp
  then have "represents (c\<lparr>scMaxEntries := limit\<rparr>) ?gs" by (simp add: represents_def)
  from evict_rep [OF this] obtain c' where c': "evictExcessLocked (c\<lparr>scMaxEntries := limit\<rparr>) = Some c'"
    "represents c' (evictGroups (nat limit) ?gs)" by auto
  obtain n where n: "evictGroups (nat limit) ?gs = drop n ?gs" "\<forall>j < n. nat limit < aliasCount (drop j ?gs)"
    using evictGroups_steps by blast
  have "int (length (scEntries c')) \<le> max limit 0"
    using evictGroups_bound [of "nat limit" ?gs] represents_length [OF c'(2)] by linarith
  moreover have "\<forall>j < n. limit < int (aliasCount (drop j ?gs))" using n(2) zless_nat_conj by fastforce
  ultimately show ?thesis using c' r n(1) by (intro exI [of _ c'] exI [of _ ?gs] exI [of _ n]) simp
qed

theorem eviction_ends_witness:
  "\<exists>c c' gs n. sessRun [SSet 5 ''auth-1'' ''p'' ''s'' [''k1''], SSet 6 ''auth-2'' ''p'' ''t'' [''k2'']]
       (NewSessionCacheWithCapacity 100 0) = Some c
    \<and> SC_Len (fst c) = 2 \<and> evictExcessLocked ((fst c)\<lparr>scMaxEntries := 1\<rparr>) = Some c' \<and> length (scEntries c') \<le> 1
    \<and> represents (fst c) gs \<and> represents c' (drop n gs) \<and> (\<forall>j < n. 1 < int (aliasCount (drop j gs)))"
proof -
  let ?run = "sessRun [SSet 5 ''auth-1'' ''p'' ''s'' [''k1''], SSet 6 ''auth-2'' ''p'' ''t'' [''k2'']]
    (NewSessionCacheWithCapacity 100 0)"
  have 1: "?run \<noteq> None \<and> SC_Len (fst (the ?run)) = 2" by code_simp
  then obtain c results where c: "?run = Some (c, results)" by auto
  obtain c' gs n where "evictExcessLocked (c\<lparr>scMaxEntries := 1\<rparr>) = Some c'" "int (length (scEntries c')) \<le> max 1 0"
    "represents c gs" "represents c' (drop n gs)" "\<forall>j < n. (1::int) < int (aliasCount (drop j gs))"
    using eviction_ends [OF c, of 1] by blast
  then show ?thesis using c 1
    by (intro exI [of _ "(c, results)"] exI [of _ c'] exI [of _ gs] exI [of _ n]) simp
qed

section \<open>A binding holds for its whole session\<close>

lemma covered_first:
  assumes "sid \<noteq> []"
  shows "\<exists>rest. covered now (sid # keys) gs = sid # rest"
proof -
  have pre: "\<exists>zs. fold addAlias xs ys = ys @ zs" for xs ys
  proof (induction xs arbitrary: ys)
    case (Cons x xs)
    then obtain zs where "fold addAlias xs (addAlias x ys) = addAlias x ys @ zs" by blast
    then show ?case by (cases "x = [] \<or> x \<in> set ys") (simp_all add: addAlias_def [of x ys])
  qed simp
  have "fold addAlias ((sid # keys) @ concat (map seAliases (touched now (sid # keys) gs))) [] =
      fold addAlias (keys @ concat (map seAliases (touched now (sid # keys) gs))) [sid]"
    using assms by (simp add: addAlias_def)
  then obtain zs where "fold addAlias ((sid # keys) @ concat (map seAliases (touched now (sid # keys) gs))) [] = sid # zs"
    using pre [of "keys @ concat (map seAliases (touched now (sid # keys) gs))" "[sid]"] by auto
  then show ?thesis unfolding covered_def compactSessionAliases_def compactSessionAliasesWith_def
    by (simp add: maxStableSessionAliases_def)
qed

lemma compacted_length: "compacted as \<Longrightarrow> length as \<le> 65"
  using sum_length_filter_compl [of isLocalPromptCacheSessionAlias as]
  by (simp add: compacted_def maxStableSessionAliases_def)

lemma sim_get:
  assumes "simulates ttl m c s" and "groupOf a (sgroups s) = Some g" and "t < seExpiresAt g"
  shows "SC_Get t t' a c = (c, Some (seAuthID g))"
  using assms groupOf_empty [OF assms(1)] by (auto simp: SC_Get_def simulatesD(8) [OF assms(1)])

text \<open>
  A selection sticks.  In every state the cache can reach, if its limit leaves room for one group
  (65 aliases), then after binding a session's keys to a credential the first key resolves to that credential,
  and so does every other alias of its group, at every time before the new expiry; the group gathers at
  most 65 aliases.
\<close>

theorem set_then_get:
  assumes "sessRun opers (NewSessionCacheWithCapacity ttl maxEntries) = Some (c, results)"
    and "authID \<noteq> []" and "key \<noteq> []" and "65 \<le> effectiveMax maxEntries"
  shows "\<exists>c' e. setSessionAliases now authID provider sid (key # keys) c = Some c' \<and> map_of (scEntries c') key = Some e
    \<and> key \<in> set (seAliases e) \<and> length (seAliases e) \<le> 65
    \<and> (\<forall>a \<in> set (seAliases e). \<forall>t t'. t < now + effectiveTTL ttl \<longrightarrow> SC_Get t t' a c' = (c', Some authID))"
proof -
  let ?t = "effectiveTTL ttl" and ?m = "effectiveMax maxEntries"
  obtain s where s: "simulates ?t ?m c s" using sess_new_run [of opers ttl maxEntries] assms(1) by auto
  define b where "b = \<lparr>sbSessionID = sid, sbProvider = provider, sbSequence = 0\<rparr>"
  obtain c' where c': "setAliases now authID b (key # keys) c = Some c'"
    "simulates ?t ?m c' (setSpec ?t ?m now authID b (key # keys) s)" using sim_set [OF s] by blast
  let ?as = "covered now (key # keys) (sgroups s)"
  obtain rest where as: "?as = key # rest" using covered_first [OF assms(3)] by blast
  obtain e gs where e: "sgroups (setSpec ?t ?m now authID b (key # keys) s) = evictGroups ?m (gs @ [e])"
    "seAliases e = ?as" "seAuthID e = authID" "seExpiresAt e = now + ?t"
    using assms(2) as by (fastforce simp: setSpec_def Let_def substitute_def)
  have len: "length (seAliases e) \<le> 65"
    using compacted_length covered_facts(3) [OF simulatesD(2) [OF s]] e(2) by simp
  have mem: "e \<in> set (sgroups (setSpec ?t ?m now authID b (key # keys) s))"
    unfolding e(1) using len assms(4) by (intro evictGroups_keeps_last) linarith
  have grp: "groupOf a (sgroups (setSpec ?t ?m now authID b (key # keys) s)) = Some e" if "a \<in> set (seAliases e)" for a
    using groupOf_iff [OF simulatesD(2) [OF c'(2)]] mem that by blast
  have key: "key \<in> set (seAliases e)" using e(2) as by simp
  have "map_of (scEntries c') key = Some e" using simulatesD(8) [OF c'(2), of key] grp [OF key] by simp
  moreover have "SC_Get t t' a c' = (c', Some authID)" if "a \<in> set (seAliases e)" "t < now + ?t" for a t t'
    using sim_get [OF c'(2) grp [OF that(1)]] that(2) e(3,4) by simp
  ultimately show ?thesis using c'(1) key len by (auto simp: setSessionAliases_def b_def)
qed

theorem set_then_get_witness:
  "\<exists>c' e. setSessionAliases 5 ''auth-1'' ''p'' ''s'' [''k'', ''conv''] (NewSessionCacheWithCapacity 100 0) = Some c'
    \<and> map_of (scEntries c') ''k'' = Some e \<and> ''k'' \<in> set (seAliases e) \<and> length (seAliases e) \<le> 65
    \<and> (\<forall>a \<in> set (seAliases e). \<forall>t t'. t < 5 + effectiveTTL 100 \<longrightarrow> SC_Get t t' a c' = (c', Some ''auth-1''))"
proof (rule set_then_get [of "[]"])
  show "sessRun [] (NewSessionCacheWithCapacity 100 0) = Some (NewSessionCacheWithCapacity 100 0, [])" by simp
  show "65 \<le> effectiveMax 0" by (simp add: effectiveMax_def defaultMaxSessionEntries_def)
qed simp_all

section \<open>Invalidation\<close>

lemma aliasCount_discard:
  "distinct gs \<Longrightarrow> g \<in> set gs \<Longrightarrow> aliasCount gs = aliasCount (filter (\<lambda>h. h \<noteq> g) gs) + length (seAliases g)"
proof (induction gs)
  case (Cons h gs)
  show ?case
  proof (cases "h = g")
    case True
    then have "filter (\<lambda>h. h \<noteq> g) gs = gs" using Cons.prems by (auto simp: filter_id_conv)
    with True show ?thesis by simp
  next
    case False
    with Cons show ?thesis by simp
  qed
qed simp

lemma detached_groupOf:
  assumes ok: "groups_ok gs" and g: "groupOf sid gs = Some g" and b: "aliasCount gs \<le> m"
    and ok': "groups_ok (sgroups (detached m sid g s))" and s: "sgroups s = gs"
  shows "map_option seAuthID (groupOf a (sgroups (detached m sid g s))) =
    (if a = sid then None else map_option seAuthID (groupOf a gs))"
proof -
  let ?as = "filter (\<lambda>a. a \<noteq> sid) (seAliases g)" and ?rest = "filter (\<lambda>h. h \<noteq> g) gs"
  have g': "g \<in> set gs" "sid \<in> set (seAliases g)" using groupOf_iff [OF ok] g by blast+
  define e where "e = g\<lparr>seAliases := ?as\<rparr>"
  have e: "seAliases e = ?as" "seAuthID e = seAuthID g" by (simp_all add: e_def)
  have bound: "aliasCount (?rest @ [e]) \<le> m"
  proof -
    have "aliasCount gs = aliasCount ?rest + length (seAliases g)"
      using aliasCount_discard g'(1) ok by (simp add: groups_ok_def)
    then show ?thesis using b length_filter_le [of "\<lambda>a. a \<noteq> sid" "seAliases g"] by (simp add: e del: length_filter_le)
  qed
  let ?new = "if ?as = [] then [] else [e]"
  have gs': "sgroups (detached m sid g s) = ?rest @ ?new"
    using evictGroups_id [OF bound] s by (auto simp: detached_def discard_def substitute_def Let_def simp flip: e_def)
  have "sid \<notin> set (seAliases e)" using e(1) by simp
  then have eg: "e \<noteq> g" using g'(2) by blast
  have mem: "groupOf a (?rest @ ?new) = Some h \<longleftrightarrow>
      h \<in> set gs \<and> h \<noteq> g \<and> a \<in> set (seAliases h) \<or> h = e \<and> a \<in> set ?as" for h
    using groupOf_iff [OF ok' [unfolded gs'], of a h] e(1) eg by (cases "?as = []") auto
  show ?thesis
  proof (cases "groupOf a gs")
    case None
    then have "groupOf a (?rest @ ?new) = None"
      using g'(1) by (auto simp: groupOf_None e)
    with None show ?thesis by (simp add: gs')
  next
    case (Some h)
    then have h: "h \<in> set gs" "a \<in> set (seAliases h)" using groupOf_iff [OF ok] by blast+
    show ?thesis
    proof (cases "a = sid")
      case True
      then have "h = g" using h g' groups_ok_alias_unique [OF ok] by blast
      have "groupOf a (?rest @ ?new) = None"
        using groups_ok_alias_unique [OF ok _ g'(1) _ g'(2)] by (auto simp: groupOf_None True e)
      with True show ?thesis by (simp add: gs')
    next
      case False
      show ?thesis
      proof (cases "h = g")
        case True
        then have "groupOf a (?rest @ ?new) = Some (e)" using mem h False by simp
        then show ?thesis using False Some True by (simp add: gs' e)
      next
        case ne: False
        then have "groupOf a (?rest @ ?new) = Some h" using mem h by simp
        then show ?thesis using False Some by (simp add: gs')
      qed
    qed
  qed
qed

text \<open>
  Invalidation is exact.  In every reachable state, invalidating a session identifier removes the
  binding of that identifier and keeps the credential of every other one, aliases of the same group
  included; invalidating a credential removes exactly the identifiers bound to it.
\<close>

theorem invalidate_exact:
  assumes "sessRun opers (NewSessionCacheWithCapacity ttl maxEntries) = Some (c, results)"
  shows "(\<exists>c'. Invalidate sid c = Some c' \<and> (\<forall>a. map_option seAuthID (map_of (scEntries c') a) =
      (if a = sid then None else map_option seAuthID (map_of (scEntries c) a))))
    \<and> (\<forall>a. map_of (scEntries (InvalidateAuth authID c)) a =
      (case map_of (scEntries c) a of None \<Rightarrow> None | Some e \<Rightarrow> if seAuthID e = authID then None else Some e))"
proof -
  let ?t = "effectiveTTL ttl" and ?m = "effectiveMax maxEntries"
  obtain s where s: "simulates ?t ?m c s" "aliasCount (sgroups s) \<le> ?m"
    using sess_new_run [of opers ttl maxEntries] assms(1) by auto
  note D = simulatesD [OF s(1)]
  have "\<exists>c'. Invalidate sid c = Some c' \<and> (\<forall>a. map_option seAuthID (map_of (scEntries c') a) =
      (if a = sid then None else map_option seAuthID (map_of (scEntries c) a)))"
  proof (cases "groupOf sid (sgroups s)")
    case None
    then show ?thesis by (auto simp: Invalidate_def D(8))
  next
    case (Some g)
    obtain c' where c': "detachAlias sid g c = Some c'" "simulates ?t ?m c' (detached ?m sid g s)"
      using sim_detach [OF s(1) Some] by blast
    have "sid \<noteq> []" using groupOf_empty [OF s(1)] Some by auto
    then have "Invalidate sid c = Some c'" using c'(1) Some by (simp add: Invalidate_def D(8))
    moreover have "map_option seAuthID (map_of (scEntries c') a) =
        (if a = sid then None else map_option seAuthID (map_of (scEntries c) a))" for a
      unfolding simulatesD(8) [OF c'(2)] D(8)
      by (rule detached_groupOf [OF D(2) Some s(2) simulatesD(2) [OF c'(2)] refl])
    ultimately show ?thesis by blast
  qed
  moreover have "map_of (scEntries (InvalidateAuth authID c)) a =
      (case map_of (scEntries c) a of None \<Rightarrow> None | Some e \<Rightarrow> if seAuthID e = authID then None else Some e)" for a
  proof -
    let ?s = "s\<lparr>sgroups := filter (\<lambda>g. seAuthID g \<noteq> authID) (sgroups s)\<rparr>"
    have c': "simulates ?t ?m (InvalidateAuth authID c) ?s"
      using sess_step [OF s(1), of "SInvalidateAuth authID"] by simp
    have "groupOf a (sgroups ?s) = Some e \<longleftrightarrow> groupOf a (sgroups s) = Some e \<and> seAuthID e \<noteq> authID" for e
      using groupOf_iff [OF D(2)] groupOf_iff [OF simulatesD(2) [OF c']] by auto
    then show ?thesis unfolding simulatesD(8) [OF c'] D(8)
      by (cases "groupOf a (sgroups s)"; cases "groupOf a (sgroups ?s)") (auto split: if_splits)
  qed
  ultimately show ?thesis by blast
qed

theorem invalidate_exact_witness:
  "\<exists>c results. sessRun [SSet 5 ''auth-1'' [] [] [''k'', ''conv'']] (NewSessionCacheWithCapacity 100 0) = Some (c, results)
   \<and> map_option seAuthID (map_of (scEntries c) ''k'') = Some ''auth-1''
   \<and> (\<exists>c'. Invalidate ''k'' c = Some c' \<and> (\<forall>a. map_option seAuthID (map_of (scEntries c') a) =
      (if a = ''k'' then None else map_option seAuthID (map_of (scEntries c) a))))
    \<and> (\<forall>a. map_of (scEntries (InvalidateAuth ''auth-1'' c)) a =
      (case map_of (scEntries c) a of None \<Rightarrow> None | Some e \<Rightarrow> if seAuthID e = ''auth-1'' then None else Some e))"
proof -
  let ?run = "sessRun [SSet 5 ''auth-1'' [] [] [''k'', ''conv'']] (NewSessionCacheWithCapacity 100 0)"
  have 1: "?run \<noteq> None \<and> map_option seAuthID (map_of (scEntries (fst (the ?run))) ''k'') = Some ''auth-1''" by code_simp
  then obtain c results where c: "?run = Some (c, results)" by auto
  with 1 invalidate_exact [OF c, of "''k''" "''auth-1''"] show ?thesis by auto
qed

section \<open>The newest selection of a session\<close>

abbreviation sequenceOf :: "sessionEntry \<Rightarrow> nat" where
  "sequenceOf g \<equiv> sbSequence (seBinding g)"

definition seqs_ok :: "sessionEntry list \<Rightarrow> nat \<Rightarrow> bool" where
  "seqs_ok gs n \<longleftrightarrow> (\<forall>g \<in> set gs. sequenceOf g \<le> n) \<and> inj_on sequenceOf {g \<in> set gs. sequenceOf g \<noteq> 0}"

lemma seqs_ok_subset: "seqs_ok gs n \<Longrightarrow> set hs \<subseteq> set gs \<Longrightarrow> seqs_ok hs n"
  by (auto simp: seqs_ok_def intro: inj_on_subset)

lemma seqs_ok_discard: "seqs_ok (sgroups s) n \<Longrightarrow> seqs_ok (sgroups (discard g s)) n"
  by (erule seqs_ok_subset) (auto simp: discard_def)

lemma seqs_ok_snoc:
  assumes "seqs_ok gs n" "n \<le> n'" "sequenceOf e \<le> n'" "\<forall>g \<in> set gs. sequenceOf g \<noteq> 0 \<longrightarrow> sequenceOf g \<noteq> sequenceOf e"
  shows "seqs_ok (gs @ [e]) n'"
  using assms by (fastforce simp: seqs_ok_def inj_on_def)

lemma seqs_ok_substitute:
  assumes "seqs_ok (sgroups s) n" "n \<le> n'" "sequenceOf e \<le> n'"
    and "sequenceOf e = 0 \<or> n < sequenceOf e \<or> (\<exists>p \<in> set old \<inter> set (sgroups s). sequenceOf p = sequenceOf e)"
  shows "seqs_ok (sgroups (substitute m old e s)) n'"
proof -
  let ?rest = "filter (\<lambda>h. h \<notin> set old) (sgroups s)"
  have "\<forall>g \<in> set ?rest. sequenceOf g \<noteq> 0 \<longrightarrow> sequenceOf g \<noteq> sequenceOf e"
    using assms(1,4) unfolding seqs_ok_def inj_on_def by force
  then have "seqs_ok (?rest @ [e]) n'"
    using assms(2,3) seqs_ok_subset [OF assms(1), of ?rest] by (intro seqs_ok_snoc) auto
  then show ?thesis by (rule seqs_ok_subset) (simp add: substitute_def, rule subset_trans [OF evictGroups_subset], auto)
qed

lemma newestBinding_from: "newestBinding prev b = b \<or> (\<exists>p \<in> set prev. newestBinding prev b = seBinding p)"
proof (induction prev arbitrary: b)
  case (Cons p prev)
  from Cons [of "seBinding p"] Cons [of b] show ?case by (auto simp: newestBinding_def)
qed (simp add: newestBinding_def)

lemma seqs_ok_set:
  assumes "groups_ok (sgroups s)" and "seqs_ok (sgroups s) (sselections s)" and "sselections s + 1 < 2 ^ 64" and "sbSequence b = 0"
  shows "seqs_ok (sgroups (setSpec ttl m now authID b sids s)) (sselections (setSpec ttl m now authID b sids s))
    \<and> sselections (setSpec ttl m now authID b sids s) \<le> sselections s + 1"
proof -
  let ?prev = "touched now sids (sgroups s)"
  define s1 where "s1 = s\<lparr>sgroups := stillValid now sids (sgroups s)\<rparr>"
  have s1: "seqs_ok (sgroups s1) (sselections s)" using assms(2)
    by (rule seqs_ok_subset) (auto simp: s1_def stillValid_def)
  have sub: "set ?prev \<subseteq> set (sgroups s1)" by (auto simp: touched_set [OF assms(1)] s1_def stillValid_def)
  define sel where "sel \<longleftrightarrow> sbSessionID b \<noteq> [] \<and> sbProvider b \<noteq> []"
  define n where "n = (if sel then wrapU64 (sselections s + 1) else sselections s)"
  define b' where "b' = (if sel then b\<lparr>sbSequence := n\<rparr> else newestBinding ?prev b)"
  define e where "e = \<lparr>seAuthID = authID, seExpiresAt = now + ttl, seAliases = covered now sids (sgroups s), seBinding = b'\<rparr>"
  have n: "sselections s \<le> n" "n \<le> sselections s + 1" "sel \<Longrightarrow> n = sselections s + 1"
    using assms(3) by (auto simp: n_def)
  have cond: "sequenceOf e = 0 \<or> sselections s < sequenceOf e \<or> (\<exists>p \<in> set ?prev \<inter> set (sgroups s1). sequenceOf p = sequenceOf e)"
    using newestBinding_from [of ?prev b] sub assms(4) n(3) by (auto simp: e_def b'_def)
  moreover have "sequenceOf e \<le> n"
  proof (cases sel)
    case False
    have "sequenceOf p \<le> n" if "p \<in> set ?prev" for p
      using that sub s1 n(1) unfolding seqs_ok_def by (meson order_trans subsetD)
    then show ?thesis using False newestBinding_from [of ?prev b] assms(4) by (auto simp: e_def b'_def)
  qed (simp add: e_def b'_def)
  ultimately have "seqs_ok (sgroups (substitute m ?prev e (s1\<lparr>sselections := n\<rparr>))) n"
    using seqs_ok_substitute [of "s1\<lparr>sselections := n\<rparr>" "sselections s" n e ?prev m] s1 n(1) by simp
  moreover have "setSpec ttl m now authID b sids s = (if authID = [] then s else if covered now sids (sgroups s) = [] then s1
      else substitute m ?prev e (s1\<lparr>sselections := n\<rparr>))"
    by (simp add: setSpec_def Let_def s1_def e_def b'_def n_def sel_def)
  moreover have "sselections (substitute m ?prev e (s1\<lparr>sselections := n\<rparr>)) = n" "sselections s1 = sselections s"
    by (simp_all add: substitute_def s1_def)
  ultimately show ?thesis using n assms(2) s1 by simp
qed

lemma seqs_ok_step:
  assumes ok: "groups_ok (sgroups s)" and q: "seqs_ok (sgroups s) (sselections s)" and lt: "sselections s + 1 < 2 ^ 64"
  shows "seqs_ok (sgroups (fst (sessSpec ttl m oper s))) (sselections (fst (sessSpec ttl m oper s)))
    \<and> sselections (fst (sessSpec ttl m oper s)) \<le> sselections s + 1"
proof -
  have d: "seqs_ok (sgroups (discard g s)) (sselections s)" for g by (rule seqs_ok_discard [OF q])
  have bound: "g \<in> set (sgroups s) \<Longrightarrow> sequenceOf g \<le> sselections s" for g using q by (simp add: seqs_ok_def)
  have sub: "seqs_ok (sgroups (substitute m [g] e s)) (sselections s)"
    if "groupOf a (sgroups s) = Some g" "seBinding e = seBinding g" for a g e
    using that bound groupOf_iff [OF ok] by (intro seqs_ok_substitute [OF q]) auto
  have sel: "sselections (discard g s) = sselections s" "sselections (substitute m old e s) = sselections s" for g old e
    by (simp_all add: discard_def substitute_def)
  have f: "seqs_ok (filter P (sgroups s)) (sselections s)" for P by (rule seqs_ok_subset [OF q]) auto
  show ?thesis
    using q d sub f seqs_ok_set [OF ok q lt]
    by (cases oper) (auto simp: sel refreshed_def detached_def Let_def split: option.splits)
qed

lemma seqs_ok_run:
  assumes "simulates ttl m c s" and "seqs_ok (sgroups s) (sselections s)" and "sselections s + length opers < 2 ^ 64"
  shows "seqs_ok (sgroups (fst (sessSpecRun ttl m opers s))) (sselections (fst (sessSpecRun ttl m opers s)))
    \<and> sselections (fst (sessSpecRun ttl m opers s)) \<le> sselections s + length opers"
  using assms
proof (induction opers arbitrary: c s)
  case (Cons oper opers)
  obtain c1 where c1: "simulates ttl m c1 (fst (sessSpec ttl m oper s))" using sess_step [OF Cons.prems(1)] by blast
  have "sselections s + 1 < 2 ^ 64" using Cons.prems(3) by simp
  note st = seqs_ok_step [OF simulatesD(2) [OF Cons.prems(1)] Cons.prems(2) this, of ttl m oper]
  from Cons.IH [OF c1] st Cons.prems(3) show ?case by simp
qed simp

text \<open>A live selection for a session on one of the providers.\<close>

definition selection :: "gotime \<Rightarrow> string \<Rightarrow> string list \<Rightarrow> sessionCache \<Rightarrow> sessionEntry \<Rightarrow> bool" where
  "selection now sid providers c e \<longleftrightarrow> (\<exists>a. map_of (scEntries c) a = Some e) \<and> sbSessionID (seBinding e) = sid
     \<and> sequenceOf e \<noteq> 0 \<and> sbProvider (seBinding e) \<in> set providers \<and> now < seExpiresAt e"

lemma fold_newest:
  assumes "\<forall>x \<in> set xs. P x \<longrightarrow> 0 < f x" and "f z = (0 :: nat)"
  shows "(fold (\<lambda>x latest. if \<not> P x then latest else if f x > f latest then x else latest) xs z = z \<and> (\<forall>x \<in> set xs. \<not> P x))
    \<or> (\<exists>x \<in> set xs. P x \<and> fold (\<lambda>x latest. if \<not> P x then latest else if f x > f latest then x else latest) xs z = x
        \<and> (\<forall>y \<in> set xs. P y \<longrightarrow> f y \<le> f x))"
  using assms(1)
proof (induction xs rule: rev_induct)
  case (snoc x xs)
  then show ?case using assms(2) by (cases "P x") (auto, (force+)?)
qed simp

lemma latest_spec:
  assumes s: "simulates ttl m c s" and q: "seqs_ok (sgroups s) n" and "sid \<noteq> []"
  shows "(\<exists>e. selection now sid providers c e \<and> latestSessionAuth now sid providers c = seAuthID e
      \<and> (\<forall>e'. selection now sid providers c e' \<longrightarrow> e' = e \<or> sequenceOf e' < sequenceOf e))
    \<or> latestSessionAuth now sid providers c = [] \<and> (\<forall>e. \<not> selection now sid providers c e)"
proof -
  let ?look = "\<lambda>key. case map_of (scGroups c) key of None \<Rightarrow> zeroEntry | Some e \<Rightarrow> e"
  let ?P = "\<lambda>e. sbProvider (seBinding e) \<in> set providers \<and> now < seExpiresAt e"
  define keys where "keys = (case map_of (sessionGroups c) sid of None \<Rightarrow> [] | Some g \<Rightarrow> map fst g)"
  define r where "r = fold (\<lambda>x latest. if \<not> ?P x then latest else if sequenceOf x > sequenceOf latest then x else latest)
    (map ?look keys) zeroEntry"
  note D = simulatesD [OF s]
  have keys: "key \<in> set keys \<longleftrightarrow> (\<exists>g \<in> set (sgroups s). primary g = key \<and> sequenceOf g \<noteq> 0 \<and> sbSessionID (seBinding g) = sid)" for key
  proof -
    have "key \<in> set keys \<longleftrightarrow> selects (sessionGroups c) sid key"
      by (cases "map_of (sessionGroups c) sid") (simp_all add: keys_def selects_def)
    then show ?thesis using representsD(5) [OF D(1)] by (simp add: selectedFor_def)
  qed
  have look: "?look (primary g) = g" if "g \<in> set (sgroups s)" for g
    using represents_group [OF D(1), of "primary g" g] that by simp
  have groups: "set (map ?look keys) = {g \<in> set (sgroups s). sequenceOf g \<noteq> 0 \<and> sbSessionID (seBinding g) = sid}"
  proof (intro set_eqI iffI)
    fix e assume "e \<in> set (map ?look keys)"
    then obtain key where key: "key \<in> set keys" "e = ?look key" by auto
    then obtain g where g: "g \<in> set (sgroups s)" "primary g = key" "sequenceOf g \<noteq> 0" "sbSessionID (seBinding g) = sid"
      unfolding keys by blast
    moreover have "e = g" using look [OF g(1)] key(2) g(2) by simp
    ultimately show "e \<in> {g \<in> set (sgroups s). sequenceOf g \<noteq> 0 \<and> sbSessionID (seBinding g) = sid}" by simp
  next
    fix e assume "e \<in> {g \<in> set (sgroups s). sequenceOf g \<noteq> 0 \<and> sbSessionID (seBinding g) = sid}"
    then have e: "e \<in> set (sgroups s)" "primary e \<in> set keys" unfolding keys by blast+
    have "?look (primary e) \<in> ?look ` set keys" using e(2) by (rule imageI)
    then show "e \<in> set (map ?look keys)" unfolding look [OF e(1)] by (simp only: set_map)
  qed
  have listed: "(\<exists>a. map_of (scEntries c) a = Some e) \<longleftrightarrow> e \<in> set (sgroups s)" for e
  proof -
    have "e \<in> set (sgroups s) \<Longrightarrow> seAliases e \<noteq> []" using D(2) by (auto simp: groups_ok_def group_ok_def)
    then show ?thesis using groupOf_iff [OF D(2)] D(8) by (metis hd_in_set)
  qed
  have sel: "selection now sid providers c e \<longleftrightarrow> e \<in> set (map ?look keys) \<and> ?P e" for e
    unfolding selection_def listed groups by auto
  have latest: "latestSessionAuth now sid providers c = (if providers = [] then [] else seAuthID r)"
    using assms(3) by (simp add: latestSessionAuth_def r_def keys_def Let_def fold_map comp_def)
  have pos: "\<forall>x \<in> set (map ?look keys). ?P x \<longrightarrow> 0 < sequenceOf x" using groups by auto
  have z: "sequenceOf zeroEntry = 0" "seAuthID zeroEntry = []" by (simp_all add: zeroEntry_def zeroBinding_def)
  show ?thesis
  proof (cases "\<exists>e. selection now sid providers c e")
    case False
    then have "r = zeroEntry" using fold_newest [OF pos z(1), folded r_def] sel by blast
    with False z(2) show ?thesis by (auto simp: latest)
  next
    case True
    then have ne: "providers \<noteq> []" by (auto simp: selection_def)
    have max: "r \<in> set (map ?look keys)" "?P r" "\<forall>y \<in> set (map ?look keys). ?P y \<longrightarrow> sequenceOf y \<le> sequenceOf r"
      using fold_newest [OF pos z(1), folded r_def] True sel by blast+
    have "e' = r \<or> sequenceOf e' < sequenceOf r" if "selection now sid providers c e'" for e'
    proof -
      have "sequenceOf e' \<le> sequenceOf r" using max(3) that sel by blast
      moreover have "sequenceOf e' = sequenceOf r \<Longrightarrow> e' = r"
        using q that sel max(1) unfolding groups seqs_ok_def inj_on_def by auto
      ultimately show ?thesis by linarith
    qed
    then show ?thesis using max(1,2) sel ne by (auto simp: latest)
  qed
qed

text \<open>
  Claim C32. A session's newest selection wins.  In every state reached by fewer than \<open>2\<^sup>6\<^sup>4 - 1\<close> calls the
  cache reports for a session and a set of providers the credential of the live selection with the
  highest sequence number, which is strictly higher than that of every other one, and the empty
  string exactly when there is none; right after a selection it reports that selection's credential.
\<close>

theorem latest_selection_wins:
  assumes "sessRun opers (NewSessionCacheWithCapacity ttl maxEntries) = Some (c, results)"
    and "length opers + 1 < 2 ^ 64" and "sid \<noteq> []"
  shows "((\<exists>e. selection now sid providers c e \<and> latestSessionAuth now sid providers c = seAuthID e
        \<and> (\<forall>e'. selection now sid providers c e' \<longrightarrow> e' = e \<or> sequenceOf e' < sequenceOf e))
      \<or> latestSessionAuth now sid providers c = [] \<and> (\<forall>e. \<not> selection now sid providers c e))
    \<and> (authID \<noteq> [] \<longrightarrow> key \<noteq> [] \<longrightarrow> provider \<noteq> [] \<longrightarrow> 65 \<le> effectiveMax maxEntries \<longrightarrow> provider \<in> set providers \<longrightarrow>
        (\<exists>c'. setSessionAliases now authID provider sid (key # keys) c = Some c'
          \<and> (\<forall>t < now + effectiveTTL ttl. latestSessionAuth t sid providers c' = authID)))"
proof -
  let ?t = "effectiveTTL ttl" and ?m = "effectiveMax maxEntries"
  let ?s = "fst (sessSpecRun ?t ?m opers noSessions)"
  have s: "simulates ?t ?m c ?s" using sess_new_run [of opers ttl maxEntries] assms(1) by auto
  have n0: "seqs_ok (sgroups noSessions) (sselections noSessions)" "sselections noSessions = 0"
    by (simp_all add: noSessions_def seqs_ok_def)
  have q: "seqs_ok (sgroups ?s) (sselections ?s)" "sselections ?s + 1 < 2 ^ 64"
    using seqs_ok_run [OF simulates_New [of ttl maxEntries], of opers] assms(2) n0 by auto
  have "\<exists>c'. setSessionAliases now authID provider sid (key # keys) c = Some c'
      \<and> (\<forall>t < now + ?t. latestSessionAuth t sid providers c' = authID)"
    if a: "authID \<noteq> []" "key \<noteq> []" "provider \<noteq> []" "65 \<le> ?m" "provider \<in> set providers"
  proof -
    define b where "b = \<lparr>sbSessionID = sid, sbProvider = provider, sbSequence = 0\<rparr>"
    define s' where "s' = setSpec ?t ?m now authID b (key # keys) ?s"
    obtain c' where c': "setAliases now authID b (key # keys) c = Some c'" "simulates ?t ?m c' s'"
      using sim_set [OF s] unfolding s'_def by blast
    have q': "seqs_ok (sgroups s') (sselections s')"
      using seqs_ok_set [OF simulatesD(2) [OF s] q] by (simp add: s'_def b_def)
    obtain e gs where e: "sgroups s' = evictGroups ?m (gs @ [e])" "seAliases e = covered now (key # keys) (sgroups ?s)"
      "seAuthID e = authID" "seExpiresAt e = now + ?t" "seBinding e = b\<lparr>sbSequence := sselections ?s + 1\<rparr>"
      "sselections s' = sselections ?s + 1"
      using a(1,3) assms(3) q(2) covered_first [OF a(2), of now keys "sgroups ?s"]
      by (auto simp: s'_def setSpec_def Let_def substitute_def b_def)
    have "length (seAliases e) \<le> 65"
      using compacted_length covered_facts(3) [OF simulatesD(2) [OF s]] e(2) by simp
    then have mem: "e \<in> set (sgroups s')" unfolding e(1) using a(4) by (intro evictGroups_keeps_last) linarith
    have "map_of (scEntries c') (primary e) = Some e"
      using groupOf_iff [OF simulatesD(2) [OF c'(2)]] mem simulatesD(2) [OF c'(2)] primary_in
      unfolding simulatesD(8) [OF c'(2)] groups_ok_def by blast
    then have sel: "selection t sid providers c' e" if "t < now + ?t" for t
      using that a(5) e(4,5) unfolding selection_def b_def by auto
    have "latestSessionAuth t sid providers c' = authID" if t: "t < now + ?t" for t
    proof -
      obtain f where f: "selection t sid providers c' f" "latestSessionAuth t sid providers c' = seAuthID f"
        "\<forall>e'. selection t sid providers c' e' \<longrightarrow> e' = f \<or> sequenceOf e' < sequenceOf f"
        using latest_spec [OF c'(2) q' assms(3)] sel [OF t] by blast
      have "f \<in> set (sgroups s')"
        using f(1) groupOf_iff [OF simulatesD(2) [OF c'(2)]] simulatesD(8) [OF c'(2)] unfolding selection_def by metis
      then have "sequenceOf f \<le> sequenceOf e" using q' e(5,6) by (simp add: seqs_ok_def)
      then show ?thesis using f sel [OF t] e(3) by auto
    qed
    then show ?thesis using c'(1) by (auto simp: setSessionAliases_def b_def)
  qed
  with latest_spec [OF s q(1) assms(3), of now providers] show ?thesis by blast
qed

definition wSelections :: "sessOp list" where
  "wSelections = [SSet 5 ''auth-1'' ''p'' ''s'' [''k1''], SSet 6 ''auth-2'' ''p'' ''s'' [''k2'']]"

theorem latest_selection_wins_witness:
  "\<exists>c results. sessRun wSelections (NewSessionCacheWithCapacity 100 0) = Some (c, results)
    \<and> latestSessionAuth 7 ''s'' [''p''] c = ''auth-2''
    \<and> ((\<exists>e. selection 7 ''s'' [''p''] c e \<and> latestSessionAuth 7 ''s'' [''p''] c = seAuthID e
        \<and> (\<forall>e'. selection 7 ''s'' [''p''] c e' \<longrightarrow> e' = e \<or> sequenceOf e' < sequenceOf e))
      \<or> latestSessionAuth 7 ''s'' [''p''] c = [] \<and> (\<forall>e. \<not> selection 7 ''s'' [''p''] c e))
    \<and> (\<exists>c'. setSessionAliases 7 ''auth-3'' ''p'' ''s'' [''k3''] c = Some c'
          \<and> (\<forall>t < 7 + effectiveTTL 100. latestSessionAuth t ''s'' [''p''] c' = ''auth-3''))"
proof -
  let ?run = "sessRun wSelections (NewSessionCacheWithCapacity 100 0)"
  have 1: "?run \<noteq> None \<and> latestSessionAuth 7 ''s'' [''p''] (fst (the ?run)) = ''auth-2''" by code_simp
  then obtain c results where c: "?run = Some (c, results)" by auto
  have "length wSelections + 1 < 2 ^ 64" "65 \<le> effectiveMax 0"
    by (simp_all add: wSelections_def effectiveMax_def defaultMaxSessionEntries_def)
  with latest_selection_wins [OF c, of "''s''" 7 "[''p'']" "''auth-3''" "''k3''" "''p''" "[]"] c 1
  show ?thesis by (intro exI [of _ c] exI [of _ results]) simp
qed

end
