(* ===== verification/Access.thy ===== *)
theory Access
  imports GoPrelude
begin

text \<open>
  Who may use the proxy: \<open>src/sdk/access\<close>.  Providers of authentication are code of other packages, so a
  provider is a parameter: the function from requests to the pair of result and error that its
  \<open>Authenticate\<close> method returns, both of which may be nil.  The global registry keeps providers in
  registration order; the manager asks its providers one after the other.
\<close>

section \<open>Errors\<close>

datatype AuthErrorCode =
    AuthErrorCodeNoCredentials
  | AuthErrorCodeInvalidCredential
  | AuthErrorCodeNotHandled
  | AuthErrorCodeDenied
  | AuthErrorCodeRequestTooLarge
  | AuthErrorCodeInternal
  | AuthErrorCodeOther string

record AuthError =
  aeCode :: AuthErrorCode
  aeMessage :: string
  aeStatusCode :: int
  aeCause :: "string option"

definition newAuthError :: "AuthErrorCode \<Rightarrow> string \<Rightarrow> int \<Rightarrow> string option \<Rightarrow> AuthError" where
  "newAuthError code message statusCode cause =
     \<lparr>aeCode = code, aeMessage = message, aeStatusCode = statusCode, aeCause = cause\<rparr>"

definition AuthError_Error :: "AuthError option \<Rightarrow> string" where
  "AuthError_Error err =
     (case err of
        None \<Rightarrow> []
      | Some e \<Rightarrow>
          (let message = TrimSpace (aeMessage e);
               message = (if message = [] then ''authentication error'' else message)
           in case aeCause e of None \<Rightarrow> message | Some cause \<Rightarrow> message @ '': '' @ cause))"

definition HTTPStatusCode :: "AuthError option \<Rightarrow> int" where
  "HTTPStatusCode err =
     (case err of
        None \<Rightarrow> 500
      | Some e \<Rightarrow> if aeStatusCode e \<le> 0 then (if aeCode e = AuthErrorCodeDenied then 403 else 500) else aeStatusCode e)"

definition NewNoCredentialsError :: AuthError where
  "NewNoCredentialsError = newAuthError AuthErrorCodeNoCredentials ''Missing API key'' 401 None"

definition NewInvalidCredentialError :: AuthError where
  "NewInvalidCredentialError = newAuthError AuthErrorCodeInvalidCredential ''Invalid API key'' 401 None"

definition NewNotHandledError :: AuthError where
  "NewNotHandledError = newAuthError AuthErrorCodeNotHandled ''authentication provider did not handle request'' 0 None"

text \<open>\<open>http.StatusText\<close> is a table of the standard library, here a parameter.\<close>

definition NewDeniedError :: "(int \<Rightarrow> string) \<Rightarrow> string \<Rightarrow> int \<Rightarrow> AuthError" where
  "NewDeniedError StatusText message statusCode =
     (let statusCode = (if statusCode \<le> 0 then 403 else statusCode);
          normalizedMessage = TrimSpace message;
          normalizedMessage =
            (if normalizedMessage = []
             then (let text = StatusText statusCode in if text = [] then ''Access denied'' else text)
             else normalizedMessage)
      in newAuthError AuthErrorCodeDenied normalizedMessage statusCode None)"

definition NewRequestEntityTooLargeError :: "string option \<Rightarrow> AuthError" where
  "NewRequestEntityTooLargeError cause = newAuthError AuthErrorCodeRequestTooLarge ''http: request body too large'' 413 cause"

definition NewInternalAuthError :: "string \<Rightarrow> string option \<Rightarrow> AuthError" where
  "NewInternalAuthError message cause =
     (let normalizedMessage = TrimSpace message
      in newAuthError AuthErrorCodeInternal
           (if normalizedMessage = [] then ''Authentication service error'' else normalizedMessage) 500 cause)"

definition IsAuthErrorCode :: "AuthError option \<Rightarrow> AuthErrorCode \<Rightarrow> bool" where
  "IsAuthErrorCode err code = (case err of None \<Rightarrow> False | Some e \<Rightarrow> aeCode e = code)"

section \<open>Providers and the manager\<close>

record accessResult =
  arProvider :: string
  arPrincipal :: string
  arMetadata :: "(string, string) gomap"

type_synonym 'req verdict = "'req \<Rightarrow> accessResult option \<times> AuthError option"

record 'req provider =
  pIdentifier :: string
  pAuthenticate :: "'req verdict"

text \<open>An interface value of the list may be nil.\<close>

type_synonym 'req accessManager = "'req provider option list"

definition NewManager :: "'req accessManager" where
  "NewManager = []"

definition SetProviders :: "'req provider option list \<Rightarrow> 'req accessManager \<Rightarrow> 'req accessManager" where
  "SetProviders providers m = providers"

definition Providers :: "'req accessManager \<Rightarrow> 'req provider option list" where
  "Providers m = m"

fun authLoop ::
  "'req provider option list \<Rightarrow> 'req \<Rightarrow> bool \<Rightarrow> bool \<Rightarrow> accessResult option \<times> AuthError option" where
  "authLoop [] r missing invalid =
     (if invalid then (None, Some NewInvalidCredentialError)
      else if missing then (None, Some NewNoCredentialsError)
      else (None, Some NewNoCredentialsError))"
| "authLoop (None # providers) r missing invalid = authLoop providers r missing invalid"
| "authLoop (Some provider # providers) r missing invalid =
     (let (res, authErr) = pAuthenticate provider r
      in if authErr = None then (res, None)
         else if IsAuthErrorCode authErr AuthErrorCodeNotHandled then authLoop providers r missing invalid
         else if IsAuthErrorCode authErr AuthErrorCodeNoCredentials then authLoop providers r True invalid
         else if IsAuthErrorCode authErr AuthErrorCodeInvalidCredential then authLoop providers r missing True
         else (None, authErr))"

definition Authenticate :: "'req accessManager \<Rightarrow> 'req \<Rightarrow> accessResult option \<times> AuthError option" where
  "Authenticate m r = (if Providers m = [] then (None, None) else authLoop (Providers m) r False False)"

section \<open>The registry\<close>

record 'req accessRegistry =
  registry :: "(string, 'req provider) gomap"
  order :: "string list"
  exclusiveProvider :: string

definition emptyRegistry :: "'req accessRegistry" where
  "emptyRegistry = \<lparr>registry = [], order = [], exclusiveProvider = []\<rparr>"

definition RegisterProvider :: "string \<Rightarrow> 'req provider option \<Rightarrow> 'req accessRegistry \<Rightarrow> 'req accessRegistry" where
  "RegisterProvider ty provider s =
     (let normalizedType = TrimSpace ty
      in case provider of
           None \<Rightarrow> s
         | Some p \<Rightarrow>
             if normalizedType = [] then s
             else
               (let s = (if map_of (registry s) normalizedType = None then s\<lparr>order := order s @ [normalizedType]\<rparr> else s)
                in s\<lparr>registry := AList.update normalizedType p (registry s)\<rparr>))"

fun removeFirst :: "string \<Rightarrow> string list \<Rightarrow> string list" where
  "removeFirst x [] = []"
| "removeFirst x (y # ys) = (if y \<noteq> x then y # removeFirst x ys else ys)"

definition UnregisterProvider :: "string \<Rightarrow> 'req accessRegistry \<Rightarrow> 'req accessRegistry" where
  "UnregisterProvider ty s =
     (let normalizedType = TrimSpace ty
      in if normalizedType = [] then s
         else if map_of (registry s) normalizedType = None then s
         else s\<lparr>registry := AList.delete normalizedType (registry s), order := removeFirst normalizedType (order s)\<rparr>)"

definition SetExclusiveProvider :: "string \<Rightarrow> 'req accessRegistry \<Rightarrow> 'req accessRegistry" where
  "SetExclusiveProvider ty s = s\<lparr>exclusiveProvider := TrimSpace ty\<rparr>"

definition ClearExclusiveProvider :: "'req accessRegistry \<Rightarrow> 'req accessRegistry" where
  "ClearExclusiveProvider s = s\<lparr>exclusiveProvider := []\<rparr>"

definition inOrder :: "'req accessRegistry \<Rightarrow> 'req provider list" where
  "inOrder s = List.map_filter (\<lambda>providerType. map_of (registry s) providerType) (order s)"

definition RegisteredProviders :: "'req accessRegistry \<Rightarrow> 'req provider list" where
  "RegisteredProviders s =
     (if order s = [] then []
      else if exclusiveProvider s \<noteq> [] then
        (case map_of (registry s) (exclusiveProvider s) of
           Some provider \<Rightarrow> [provider]
         | None \<Rightarrow> inOrder s)
      else inOrder s)"

section \<open>The registry is a list of typed providers\<close>

datatype 'req regOp = Register string "'req provider option" | Unregister string | Exclusive string | ClearExclusive

fun regExec :: "'req regOp \<Rightarrow> 'req accessRegistry \<Rightarrow> 'req accessRegistry" where
  "regExec (Register ty p) s = RegisterProvider ty p s"
| "regExec (Unregister ty) s = UnregisterProvider ty s"
| "regExec (Exclusive ty) s = SetExclusiveProvider ty s"
| "regExec ClearExclusive s = ClearExclusiveProvider s"

text \<open>
  The specification: a list of pairs in registration order and the exclusive type.  Registering a known
  type replaces its provider in place.
\<close>

fun regSpec :: "'req regOp \<Rightarrow> (string \<times> 'req provider) list \<times> string \<Rightarrow> (string \<times> 'req provider) list \<times> string" where
  "regSpec (Register ty p) (tps, ex) =
     ((case p of None \<Rightarrow> tps | Some q \<Rightarrow> if TrimSpace ty = [] then tps else AList.update (TrimSpace ty) q tps), ex)"
| "regSpec (Unregister ty) (tps, ex) = (filter (\<lambda>tp. fst tp \<noteq> TrimSpace ty) tps, ex)"
| "regSpec (Exclusive ty) (tps, ex) = (tps, TrimSpace ty)"
| "regSpec ClearExclusive (tps, ex) = (tps, [])"

definition specProviders :: "(string \<times> 'req provider) list \<times> string \<Rightarrow> 'req provider list" where
  "specProviders sp = (case map_of (fst sp) (snd sp) of Some p \<Rightarrow> [p] | None \<Rightarrow> map snd (fst sp))"

definition regRel :: "'req accessRegistry \<Rightarrow> (string \<times> 'req provider) list \<times> string \<Rightarrow> bool" where
  "regRel s sp \<longleftrightarrow> exclusiveProvider s = snd sp \<and> order s = map fst (fst sp) \<and> distinct (map fst (fst sp))
     \<and> map_of (registry s) = map_of (fst sp) \<and> [] \<notin> fst ` set (fst sp)"

lemma regRelD:
  assumes "regRel s (tps, ex)"
  shows "exclusiveProvider s = ex" "order s = map fst tps" "distinct (map fst tps)" "map_of (registry s) = map_of tps"
    "[] \<notin> fst ` set tps"
  using assms by (auto simp: regRel_def)

lemma keys_update: "map fst (AList.update k v xs) = (if map_of xs k = None then map fst xs @ [k] else map fst xs)"
  by (induction xs) auto

lemma removeFirst_filter: "distinct xs \<Longrightarrow> removeFirst x xs = filter (\<lambda>y. y \<noteq> x) xs"
proof (induction xs)
  case (Cons y ys)
  show ?case
  proof (cases "y = x")
    case True
    then have "filter (\<lambda>y. y \<noteq> x) ys = ys" using Cons.prems by (auto simp: filter_id_conv)
    with True show ?thesis by simp
  qed (use Cons in simp)
qed simp

lemma reg_step: "regRel s sp \<Longrightarrow> regRel (regExec oper s) (regSpec oper sp)"
proof -
  assume "regRel s sp"
  then obtain tps ex where sp: "sp = (tps, ex)" and r: "regRel s (tps, ex)" by (cases sp) auto
  note R = regRelD [OF r]
  show ?thesis
  proof (cases oper)
    case (Register ty p)
    show ?thesis
    proof (cases "p = None \<or> TrimSpace ty = []")
      case True
      then show ?thesis using r by (auto simp: Register sp RegisterProvider_def Let_def split: option.splits)
    next
      case False
      then obtain q where q: "p = Some q" "TrimSpace ty \<noteq> []" by auto
      have "distinct (map fst (AList.update (TrimSpace ty) q tps))" using R(3) by (rule distinct_update)
      then show ?thesis using q R(1,2,4,5)
        by (auto simp: regRel_def Register sp RegisterProvider_def Let_def keys_update update_conv')
    qed
  next
    case (Unregister ty)
    show ?thesis
    proof (cases "map_of tps (TrimSpace ty) = None")
      case True
      then have "filter (\<lambda>tp. fst tp \<noteq> TrimSpace ty) tps = tps"
        by (intro filter_True ballI) (metis imageI map_of_eq_None_iff)
      with True show ?thesis using r R(4) by (simp add: Unregister sp UnregisterProvider_def Let_def)
    next
      case False
      then have "TrimSpace ty \<noteq> []" using R(5) by (metis map_of_eq_None_iff)
      moreover have "map_of (AList.delete (TrimSpace ty) (registry s)) = map_of (filter (\<lambda>tp. fst tp \<noteq> TrimSpace ty) tps)"
      proof -
        have "filter (\<lambda>tp. fst tp \<noteq> TrimSpace ty) tps = AList.delete (TrimSpace ty) tps"
          by (auto simp: AList.delete_eq case_prod_beta intro!: filter_cong)
        then show ?thesis using R(4) by (auto simp: delete_conv')
      qed
      ultimately show ?thesis using False R
        by (auto simp: regRel_def Unregister sp UnregisterProvider_def Let_def removeFirst_filter filter_map comp_def
            distinct_map_filter)
    qed
  qed (use R in \<open>auto simp: sp regRel_def SetExclusiveProvider_def ClearExclusiveProvider_def\<close>)
qed

lemma reg_run: "regRel s sp \<Longrightarrow> regRel (fold regExec opers s) (fold regSpec opers sp)"
  by (induction opers arbitrary: s sp) (simp_all add: reg_step)

lemma map_filter_keys: "distinct (map fst tps) \<Longrightarrow> List.map_filter (map_of tps) (map fst tps) = map snd tps"
proof (induction tps)
  case (Cons tp tps)
  have "map_of (tp # tps) k = map_of tps k" if "k \<in> set (map fst tps)" for k
    using Cons.prems that by (cases tp) auto
  then have "List.map_filter (map_of (tp # tps)) (map fst tps) = List.map_filter (map_of tps) (map fst tps)"
    unfolding List.map_filter_def by (intro map_cong filter_cong) auto
  with Cons have 1: "List.map_filter (map_of (tp # tps)) (map fst tps) = map snd tps" by simp
  define g where "g = map_of (tp # tps)"
  have "g (fst tp) = Some (snd tp)" by (simp add: g_def)
  with 1 show ?case unfolding g_def [symmetric] by (simp add: List.map_filter_simps)
qed (simp add: List.map_filter_def)

lemma regRel_providers: "regRel s sp \<Longrightarrow> RegisteredProviders s = specProviders sp"
proof -
  assume "regRel s sp"
  then obtain tps ex where sp: "sp = (tps, ex)" and r: "regRel s (tps, ex)" by (cases sp) auto
  note R = regRelD [OF r]
  have "inOrder s = map snd tps" using map_filter_keys [OF R(3)] R(2,4) by (simp add: inOrder_def)
  moreover have "map_of tps [] = None" using R(5) by (simp add: map_of_eq_None_iff)
  ultimately show ?thesis using R by (auto simp: RegisteredProviders_def specProviders_def sp split: option.splits)
qed

text \<open>
  The registry of access providers refines a list of typed providers.  After any sequence of
  registrations, removals and changes of the exclusive provider, the reported providers are the last
  ones registered under each type that is still registered, in the order of first registration, or the exclusive one
  alone when it is registered.
\<close>

theorem registry_refines_typed_list:
  "RegisteredProviders (fold regExec opers emptyRegistry) = specProviders (fold regSpec opers ([], []))"
  by (rule regRel_providers, rule reg_run) (simp add: regRel_def emptyRegistry_def)

section \<open>The decision\<close>

text \<open>A verdict settles the request unless it is one of the three errors that pass it on.\<close>

definition passesOn :: "accessResult option \<times> AuthError option \<Rightarrow> bool" where
  "passesOn v \<longleftrightarrow> (\<exists>e. snd v = Some e \<and>
     aeCode e \<in> {AuthErrorCodeNotHandled, AuthErrorCodeNoCredentials, AuthErrorCodeInvalidCredential})"

definition verdicts :: "'req accessManager \<Rightarrow> 'req \<Rightarrow> (accessResult option \<times> AuthError option) list" where
  "verdicts m r = map (\<lambda>p. pAuthenticate p r) (List.map_filter (\<lambda>p. p) m)"

lemma verdicts_simps:
  "verdicts [] r = []" "verdicts (None # m) r = verdicts m r" "verdicts (Some p # m) r = pAuthenticate p r # verdicts m r"
  by (simp_all add: verdicts_def List.map_filter_def)

lemma authLoop_decision:
  "authLoop m r missing invalid =
     (case List.find (\<lambda>v. \<not> passesOn v) (verdicts m r) of
        Some v \<Rightarrow> (if snd v = None then (fst v, None) else (None, snd v))
      | None \<Rightarrow> (None, Some (if invalid \<or> (\<exists>v \<in> set (verdicts m r). IsAuthErrorCode (snd v) AuthErrorCodeInvalidCredential)
                           then NewInvalidCredentialError else NewNoCredentialsError)))"
proof (induction m r missing invalid rule: authLoop.induct)
  case (3 p ps r missing invalid)
  obtain res err where v: "pAuthenticate p r = (res, err)" by fastforce
  show ?case
  proof (cases err)
    case None
    then show ?thesis by (simp add: v verdicts_simps passesOn_def)
  next
    case (Some e)
    show ?thesis
    proof (cases "aeCode e \<in> {AuthErrorCodeNotHandled, AuthErrorCodeNoCredentials, AuthErrorCodeInvalidCredential}")
      case False
      then show ?thesis by (simp add: v Some verdicts_simps passesOn_def IsAuthErrorCode_def)
    next
      case True
      then have "passesOn (res, Some e)" by (simp add: passesOn_def)
      then show ?thesis using True 3 [OF v [symmetric]] by (auto simp: v Some verdicts_simps IsAuthErrorCode_def)
    qed
  qed
next
  case (2 ps r missing invalid)
  then show ?case by (simp only: authLoop.simps verdicts_simps)
qed (simp add: verdicts_simps)


definition wDenier :: "string provider" where
  "wDenier = \<lparr>pIdentifier = ''keys'', pAuthenticate = (\<lambda>key. (None, Some NewInvalidCredentialError))\<rparr>"

definition wAccepter :: "string provider" where
  "wAccepter = \<lparr>pIdentifier = ''plugin'', pAuthenticate = (\<lambda>key.
     if key = ''k'' then (Some \<lparr>arProvider = ''plugin'', arPrincipal = key, arMetadata = []\<rparr>, None)
     else (None, Some NewNotHandledError))\<rparr>"


end
