(* ===== verification/ExecRegistry.thy ===== *)
theory ExecRegistry
  imports GoPrelude
begin

text \<open>
  The registry of dispatched executions, \<open>src/sdk/cliproxy/executionregistry\<close>.  Calls run concurrently, so
  each call is cut at its critical sections: every definition below is one section, executed under the
  registry's or the scope's mutex, and calls that span several sections keep a program counter (the phase
  of a scope's end, of a drain, of the close).  Scopes are objects that outlive their registration,
  kept in a heap by identity; a bound resource is closed by a goroutine of its own.
\<close>

section \<open>Data\<close>

datatype regError =
    ErrRegistryNotAccepting | ErrRegistryClosed | ErrInvalidPendingDispatch
  | ErrInvalidExecutionResource | ErrExecutionResourceAlreadyBound

datatype regState = StateAccepting | StateDraining | StateClosed

record ScopeSpec =
  RequestID :: string
  CredentialID :: string
  Model :: string
  Kind :: string
  StartedAt :: gotime
  Accounted :: bool

type_synonym releaseGroup = "string \<times> string"

record ReleaseTicket =
  rtGroup :: releaseGroup
  rtSequence :: int

text \<open>\<open>closeDone\<close>: nil, open while the goroutine closes the resource, closed when it is done.\<close>

datatype closing = NotClosing | CloseRunning | CloseFinished

text \<open>Where the one execution of \<open>EndWithRelease\<close>'s body is.\<close>

datatype endPhase =
    EndNot | EndDeactivated | EndWaiting | EndClosed
  | EndMarked "(releaseGroup \<times> int) option" | EndNotified | EndDone

record scope =
  sSpec :: ScopeSpec
  sCloseFn :: bool
  sCloseDone :: closing
  sTicket :: "ReleaseTicket option"
  sActive :: bool
  sEnd :: endPhase

datatype drainPhase = DrainCollect | DrainClosing "nat list" | DrainWaiting | DrainReturned

datatype closePhase = CloseNotStarted | CloseSwitch | CloseCollect | CloseStart "nat list" | CloseAwait nat "nat list" | CloseReturned

record execRegistry =
  xState :: regState
  xNext :: nat
  snapshotRevision :: int
  observedBarrier :: int
  pendingBarrierSequence :: nat
  publishedBarrier :: int
  xPending :: "(nat, unit) gomap"
  onceDone :: "nat list"
  xScopes :: "(nat, unit) gomap"
  xHeap :: "(nat, scope) gomap"
  releaseSequences :: "(releaseGroup, int) gomap"
  hasSink :: bool
  outbox :: "(releaseGroup \<times> int) list"
  delivered :: "(releaseGroup \<times> int) list"
  drains :: "drainPhase list"
  closer :: closePhase

definition newRegistry :: execRegistry where
  "newRegistry =
     \<lparr>xState = StateAccepting, xNext = 0, snapshotRevision = 0, observedBarrier = 0, pendingBarrierSequence = 0,
      publishedBarrier = 0, xPending = [], onceDone = [], xScopes = [], xHeap = [], releaseSequences = [],
      hasSink = False, outbox = [], delivered = [], drains = [], closer = CloseNotStarted\<rparr>"

definition NewReleaseTicket :: "releaseGroup \<Rightarrow> int \<Rightarrow> bool \<Rightarrow> ReleaseTicket option" where
  "NewReleaseTicket grp sequence hasDone =
     (if sequence \<le> 0 \<or> \<not> hasDone then None else Some \<lparr>rtGroup = grp, rtSequence = sequence\<rparr>)"

definition onScope :: "nat \<Rightarrow> (scope \<Rightarrow> scope) \<Rightarrow> execRegistry \<Rightarrow> execRegistry" where
  "onScope sid f r = (case map_of (xHeap r) sid of None \<Rightarrow> r | Some s \<Rightarrow> r\<lparr>xHeap := AList.update sid (f s) (xHeap r)\<rparr>)"

section \<open>Dispatching\<close>

definition BeginDispatch :: "execRegistry \<Rightarrow> execRegistry \<times> (regError + nat)" where
  "BeginDispatch r =
     (if xState r \<noteq> StateAccepting then (r, Inl ErrRegistryNotAccepting)
      else
        (let r = r\<lparr>xNext := wrapU64 (xNext r + 1)\<rparr>
         in (r\<lparr>xPending := AList.update (xNext r) () (xPending r)\<rparr>, Inr (xNext r))))"

definition Pending_End :: "nat \<Rightarrow> execRegistry \<Rightarrow> execRegistry" where
  "Pending_End pid r =
     (if pid \<in> set (onceDone r) then r
      else r\<lparr>onceDone := pid # onceDone r, xPending := AList.delete pid (xPending r)\<rparr>)"

definition Install :: "nat \<Rightarrow> ScopeSpec \<Rightarrow> execRegistry \<Rightarrow> execRegistry \<times> (regError + nat)" where
  "Install pid spec r =
     (if xState r \<noteq> StateAccepting
      then (r\<lparr>onceDone := pid # onceDone r, xPending := AList.delete pid (xPending r)\<rparr>, Inl ErrRegistryNotAccepting)
      else if map_of (xPending r) pid = None then (r, Inl ErrInvalidPendingDispatch)
      else
        (let scope = \<lparr>sSpec = spec, sCloseFn = False, sCloseDone = NotClosing, sTicket = None, sActive = True, sEnd = EndNot\<rparr>
         in (r\<lparr>onceDone := pid # onceDone r, xPending := AList.delete pid (xPending r),
               xHeap := AList.update pid scope (xHeap r), xScopes := AList.update pid () (xScopes r)\<rparr>, Inr pid)))"

text \<open>\<open>WaitPending\<close> returns without an error in a state without pending dispatches.\<close>

definition WaitPending_returns :: "execRegistry \<Rightarrow> bool" where
  "WaitPending_returns r \<longleftrightarrow> xPending r = []"

section \<open>Scopes\<close>

definition Bind :: "nat \<Rightarrow> bool \<Rightarrow> execRegistry \<Rightarrow> execRegistry \<times> regError option" where
  "Bind sid hasCloseFn r =
     (if \<not> hasCloseFn then (r, Some ErrInvalidExecutionResource)
      else
        (case map_of (xHeap r) sid of
           None \<Rightarrow> (r, Some ErrInvalidExecutionResource)
         | Some s \<Rightarrow>
             if xState r \<noteq> StateAccepting \<or> \<not> sActive s then (r, Some ErrRegistryNotAccepting)
             else if sCloseFn s \<or> sCloseDone s \<noteq> NotClosing then (r, Some ErrExecutionResourceAlreadyBound)
             else (onScope sid (\<lambda>s. s\<lparr>sCloseFn := True\<rparr>) r, None)))"

definition startBoundResourceClose :: "nat \<Rightarrow> execRegistry \<Rightarrow> execRegistry" where
  "startBoundResourceClose sid r =
     onScope sid (\<lambda>s. if sCloseDone s \<noteq> NotClosing then s
                      else if \<not> sCloseFn s then s
                      else s\<lparr>sCloseFn := False, sCloseDone := CloseRunning\<rparr>) r"

text \<open>The goroutine that closes the resource and then the channel.\<close>

definition closeResource :: "nat \<Rightarrow> execRegistry \<Rightarrow> execRegistry option" where
  "closeResource sid r =
     (case map_of (xHeap r) sid of
        None \<Rightarrow> None
      | Some s \<Rightarrow> if sCloseDone s = CloseRunning then Some (onScope sid (\<lambda>s. s\<lparr>sCloseDone := CloseFinished\<rparr>) r) else None)"

definition releaseGroupOf :: "ScopeSpec \<Rightarrow> releaseGroup" where
  "releaseGroupOf spec = (CredentialID spec, Model spec)"

definition sequenceAt :: "releaseGroup \<Rightarrow> execRegistry \<Rightarrow> int" where
  "sequenceAt grp r = (case map_of (releaseSequences r) grp of None \<Rightarrow> 0 | Some n \<Rightarrow> n)"

definition markReleasedLocked :: "ScopeSpec \<Rightarrow> execRegistry \<Rightarrow> execRegistry \<times> (releaseGroup \<times> int) option" where
  "markReleasedLocked spec r =
     (if \<not> Accounted spec then (r, None)
      else
        (let grp = releaseGroupOf spec;
             n = wrap64 (sequenceAt grp r + 1);
             r = r\<lparr>releaseSequences := AList.update grp n (releaseSequences r)\<rparr>
         in (r, if hasSink r \<and> n > 0 then Some (grp, n) else None)))"

text \<open>
  The sections of \<open>EndWithRelease\<close>: deactivate, start closing the resource, wait for it, count the release,
  call the sink, remember its ticket, and leave the registry.  The sink's ticket is its answer, an input here.
\<close>

definition endStep :: "nat \<Rightarrow> ReleaseTicket option \<Rightarrow> execRegistry \<Rightarrow> execRegistry option" where
  "endStep sid ticket r =
     (case map_of (xHeap r) sid of
        None \<Rightarrow> None
      | Some s \<Rightarrow>
          (case sEnd s of
             EndNot \<Rightarrow> Some (onScope sid (\<lambda>s. s\<lparr>sActive := False, sEnd := EndDeactivated\<rparr>) r)
           | EndDeactivated \<Rightarrow>
               Some (onScope sid (\<lambda>s. s\<lparr>sEnd := (if sCloseDone s = NotClosing then EndClosed else EndWaiting)\<rparr>)
                       (startBoundResourceClose sid r))
           | EndWaiting \<Rightarrow>
               if sCloseDone s = CloseFinished then Some (onScope sid (\<lambda>s. s\<lparr>sEnd := EndClosed\<rparr>) r) else None
           | EndClosed \<Rightarrow>
               (let (r, delivery) = markReleasedLocked (sSpec s) r
                in Some (onScope sid (\<lambda>s. s\<lparr>sEnd := EndMarked delivery\<rparr>) r))
           | EndMarked None \<Rightarrow> Some (onScope sid (\<lambda>s. s\<lparr>sTicket := None, sEnd := EndNotified\<rparr>) r)
           | EndMarked (Some d) \<Rightarrow>
               Some (onScope sid (\<lambda>s. s\<lparr>sTicket := ticket, sEnd := EndNotified\<rparr>) (r\<lparr>delivered := delivered r @ [d]\<rparr>))
           | EndNotified \<Rightarrow>
               Some (onScope sid (\<lambda>s. s\<lparr>sEnd := EndDone\<rparr>) (r\<lparr>xScopes := AList.delete sid (xScopes r)\<rparr>))
           | EndDone \<Rightarrow> None))"

text \<open>Replacing the sink: the known sequences are copied under the lock and delivered afterwards.\<close>

definition SetReleaseSink :: "bool \<Rightarrow> execRegistry \<Rightarrow> execRegistry" where
  "SetReleaseSink present r =
     (let r = r\<lparr>hasSink := present\<rparr>
      in if present then r\<lparr>outbox := outbox r @ filter (\<lambda>d. snd d > 0) (releaseSequences r)\<rparr> else r)"

definition deliverReplay :: "nat \<Rightarrow> execRegistry \<Rightarrow> execRegistry option" where
  "deliverReplay i r =
     (if i < length (outbox r)
      then Some (r\<lparr>outbox := take i (outbox r) @ drop (i + 1) (outbox r), delivered := delivered r @ [outbox r ! i]\<rparr>)
      else None)"

section \<open>Draining and closing\<close>

definition Drain_begin :: "execRegistry \<Rightarrow> execRegistry \<times> regError option" where
  "Drain_begin r =
     (case xState r of
        StateAccepting \<Rightarrow> (r\<lparr>xState := StateDraining, drains := drains r @ [DrainCollect]\<rparr>, None)
      | StateDraining \<Rightarrow> (r\<lparr>drains := drains r @ [DrainCollect]\<rparr>, None)
      | StateClosed \<Rightarrow> (r, Some ErrRegistryClosed))"

definition drainStep :: "nat \<Rightarrow> execRegistry \<Rightarrow> execRegistry option" where
  "drainStep i r =
     (if i < length (drains r) then
        (case drains r ! i of
           DrainCollect \<Rightarrow> Some (r\<lparr>drains := (drains r)[i := DrainClosing (map fst (xScopes r))]\<rparr>)
         | DrainClosing [] \<Rightarrow> Some (r\<lparr>drains := (drains r)[i := DrainWaiting]\<rparr>)
         | DrainClosing (sid # sids) \<Rightarrow>
             Some ((startBoundResourceClose sid r)\<lparr>drains := (drains r)[i := DrainClosing sids]\<rparr>)
         | DrainWaiting \<Rightarrow>
             if xPending r = [] \<and> xScopes r = []
             then Some (r\<lparr>xState := StateClosed, drains := (drains r)[i := DrainReturned]\<rparr>) else None
         | DrainReturned \<Rightarrow> None)
      else None)"

definition closeStep :: "execRegistry \<Rightarrow> execRegistry option" where
  "closeStep r =
     (case closer r of
        CloseNotStarted \<Rightarrow> if xState r = StateClosed then None else Some (r\<lparr>closer := CloseSwitch\<rparr>)
      | CloseSwitch \<Rightarrow> Some (r\<lparr>xState := StateClosed, closer := CloseCollect\<rparr>)
      | CloseCollect \<Rightarrow> Some (r\<lparr>closer := CloseStart (map fst (xScopes r))\<rparr>)
      | CloseStart [] \<Rightarrow> Some (r\<lparr>closer := CloseReturned\<rparr>)
      | CloseStart (sid # sids) \<Rightarrow> Some ((startBoundResourceClose sid r)\<lparr>closer := CloseAwait sid sids\<rparr>)
      | CloseAwait sid sids \<Rightarrow>
          (case map_of (xHeap r) sid of
             None \<Rightarrow> None
           | Some s \<Rightarrow> if sCloseDone s = CloseRunning then None else Some (r\<lparr>closer := CloseStart sids\<rparr>))
      | CloseReturned \<Rightarrow> None)"

section \<open>Observation\<close>

definition ObserveBarrier :: "int \<Rightarrow> execRegistry \<Rightarrow> execRegistry" where
  "ObserveBarrier revision r =
     (if revision \<le> 0 then r
      else if revision > observedBarrier r
      then r\<lparr>observedBarrier := revision, pendingBarrierSequence := xNext r\<rparr> else r)"

record Freeze =
  fRevision :: int
  fBarrierRevision :: int
  fExecutions :: "ScopeSpec list"

definition FreezeInFlight :: "execRegistry \<Rightarrow> execRegistry \<times> Freeze" where
  "FreezeInFlight r =
     (let r = (if observedBarrier r > publishedBarrier r
                  \<and> \<not> list_ex (\<lambda>p. fst p \<le> pendingBarrierSequence r) (xPending r)
               then r\<lparr>publishedBarrier := observedBarrier r\<rparr> else r);
          r = r\<lparr>snapshotRevision := wrap64 (snapshotRevision r + 1)\<rparr>
      in (r, \<lparr>fRevision = snapshotRevision r, fBarrierRevision = publishedBarrier r,
              fExecutions = List.map_filter (\<lambda>p. map_option sSpec (map_of (xHeap r) (fst p))) (xScopes r)\<rparr>))"

end
