(* ===== verification/ExecRegistryProofs.thy ===== *)
theory ExecRegistryProofs
  imports ExecRegistry
begin

text \<open>
  Interleavings of the registry's critical sections as a transition system, its invariants by rule
  induction, and what they give: releases are counted exactly once, a finished drain leaves nothing
  behind, a drain closes every resource, and published barriers are honest.
\<close>

section \<open>The transition system\<close>

datatype regAct =
    ABegin | APendingEnd nat | AInstall nat ScopeSpec | ABind nat bool | ACloseResource nat
  | AEnd nat "ReleaseTicket option" | ASink bool | AReplay nat | ADrain | ADrainStep nat | AClose
  | AObserve int | AFreeze

text \<open>
  An action is one section; it is disabled when it would block.  Tokens are pointers to dispatches begun
  before.  Runs are limited to fewer than \<open>2\<^sup>6\<^sup>3\<close> dispatches.
\<close>

fun regAction :: "regAct \<Rightarrow> execRegistry \<Rightarrow> execRegistry option" where
  "regAction ABegin r = (if int (xNext r) < maxInt64 then Some (fst (BeginDispatch r)) else None)"
| "regAction (APendingEnd pid) r = (if pid \<in> {1..xNext r} then Some (Pending_End pid r) else None)"
| "regAction (AInstall pid spec) r = (if pid \<in> {1..xNext r} then Some (fst (Install pid spec r)) else None)"
| "regAction (ABind sid hasFn) r = Some (fst (Bind sid hasFn r))"
| "regAction (ACloseResource sid) r = closeResource sid r"
| "regAction (AEnd sid ticket) r = endStep sid ticket r"
| "regAction (ASink present) r = Some (SetReleaseSink present r)"
| "regAction (AReplay i) r = deliverReplay i r"
| "regAction ADrain r = Some (fst (Drain_begin r))"
| "regAction (ADrainStep i) r = drainStep i r"
| "regAction AClose r = closeStep r"
| "regAction (AObserve revision) r = Some (ObserveBarrier revision r)"
| "regAction AFreeze r = Some (fst (FreezeInFlight r))"

text \<open>The second component records the observations that took effect, with the last dispatch begun before each.\<close>

fun observed :: "regAct \<Rightarrow> execRegistry \<Rightarrow> (int \<times> nat) list" where
  "observed (AObserve revision) r = (if 0 < revision \<and> observedBarrier r < revision then [(revision, xNext r)] else [])"
| "observed _ r = []"

inductive reg_reach :: "execRegistry \<Rightarrow> (int \<times> nat) list \<Rightarrow> bool" where
  init: "reg_reach newRegistry []"
| step: "reg_reach r obs \<Longrightarrow> regAction act r = Some r' \<Longrightarrow> reg_reach r' (obs @ observed act r)"

section \<open>Fields after each section\<close>

named_theorems reg_fields \<open>fields of the registry after a section\<close>

lemma onScope_fields [reg_fields]:
  "xState (onScope sid f r) = xState r" "xNext (onScope sid f r) = xNext r" "xPending (onScope sid f r) = xPending r"
  "xScopes (onScope sid f r) = xScopes r" "releaseSequences (onScope sid f r) = releaseSequences r"
  "drains (onScope sid f r) = drains r" "closer (onScope sid f r) = closer r" "observedBarrier (onScope sid f r) = observedBarrier r"
  "publishedBarrier (onScope sid f r) = publishedBarrier r" "pendingBarrierSequence (onScope sid f r) = pendingBarrierSequence r"
  "hasSink (onScope sid f r) = hasSink r"
  by (simp_all add: onScope_def split: option.splits)

lemma onScope_heap [reg_fields]:
  "map_of (xHeap (onScope sid f r)) k = (if k = sid then map_option f (map_of (xHeap r) k) else map_of (xHeap r) k)"
  by (auto simp: onScope_def gomap_simps split: option.splits)

lemma start_fields [reg_fields]:
  "xState (startBoundResourceClose sid r) = xState r" "xNext (startBoundResourceClose sid r) = xNext r"
  "xPending (startBoundResourceClose sid r) = xPending r" "xScopes (startBoundResourceClose sid r) = xScopes r"
  "releaseSequences (startBoundResourceClose sid r) = releaseSequences r" "drains (startBoundResourceClose sid r) = drains r"
  "closer (startBoundResourceClose sid r) = closer r" "observedBarrier (startBoundResourceClose sid r) = observedBarrier r"
  "publishedBarrier (startBoundResourceClose sid r) = publishedBarrier r"
  "pendingBarrierSequence (startBoundResourceClose sid r) = pendingBarrierSequence r"
  by (simp_all add: startBoundResourceClose_def reg_fields)

lemma wf_onScope [simp]: "wf_map (xHeap r) \<Longrightarrow> wf_map (xHeap (onScope sid f r))"
  by (auto simp: onScope_def split: option.splits)

lemma mark_fields [reg_fields]:
  "xState (fst (markReleasedLocked spec r)) = xState r" "xNext (fst (markReleasedLocked spec r)) = xNext r"
  "xPending (fst (markReleasedLocked spec r)) = xPending r" "xScopes (fst (markReleasedLocked spec r)) = xScopes r"
  "xHeap (fst (markReleasedLocked spec r)) = xHeap r" "drains (fst (markReleasedLocked spec r)) = drains r"
  "closer (fst (markReleasedLocked spec r)) = closer r" "observedBarrier (fst (markReleasedLocked spec r)) = observedBarrier r"
  "publishedBarrier (fst (markReleasedLocked spec r)) = publishedBarrier r"
  "pendingBarrierSequence (fst (markReleasedLocked spec r)) = pendingBarrierSequence r"
  by (simp_all add: markReleasedLocked_def Let_def)

section \<open>Tokens, scopes and the heap\<close>

definition tokens_ok :: "execRegistry \<Rightarrow> bool" where
  "tokens_ok r \<longleftrightarrow> wf_map (xPending r) \<and> wf_map (xScopes r) \<and> wf_map (xHeap r) \<and> int (xNext r) \<le> maxInt64
     \<and> (\<forall>k. map_of (xPending r) k \<noteq> None \<longrightarrow> k \<in> {1..xNext r} \<and> map_of (xHeap r) k = None)
     \<and> (\<forall>k s. map_of (xHeap r) k = Some s \<longrightarrow> k \<in> {1..xNext r} \<and> (sCloseFn s \<longrightarrow> sCloseDone s = NotClosing))
     \<and> (\<forall>k. map_of (xScopes r) k \<noteq> None \<longleftrightarrow> (\<exists>s. map_of (xHeap r) k = Some s \<and> sEnd s \<noteq> EndDone))"

lemma tokens_okD:
  assumes "tokens_ok r"
  shows "wf_map (xPending r)" "wf_map (xScopes r)" "wf_map (xHeap r)" "int (xNext r) \<le> maxInt64"
    "map_of (xPending r) k \<noteq> None \<Longrightarrow> k \<in> {1..xNext r} \<and> map_of (xHeap r) k = None"
    "map_of (xHeap r) k = Some s \<Longrightarrow> k \<in> {1..xNext r} \<and> (sCloseFn s \<longrightarrow> sCloseDone s = NotClosing)"
    "map_of (xScopes r) k \<noteq> None \<longleftrightarrow> (\<exists>s. map_of (xHeap r) k = Some s \<and> sEnd s \<noteq> EndDone)"
  using assms unfolding tokens_ok_def by blast+

text \<open>Sections that change one scope without ending it.\<close>

lemma tokens_onScope:
  assumes ok: "tokens_ok r" and f: "\<And>s. map_of (xHeap r) sid = Some s \<Longrightarrow>
      (sEnd (f s) = EndDone \<longleftrightarrow> sEnd s = EndDone) \<and> (sCloseFn (f s) \<longrightarrow> sCloseDone (f s) = NotClosing)"
  shows "tokens_ok (onScope sid f r)"
proof -
  note D = tokens_okD [OF ok]
  have heap: "k \<in> {1..xNext r} \<and> (sCloseFn s' \<longrightarrow> sCloseDone s' = NotClosing)"
    if "map_of (xHeap (onScope sid f r)) k = Some s'" for k s'
    using that f D(6) [of k] by (auto simp: reg_fields split: if_splits)
  have none: "map_of (xHeap (onScope sid f r)) k = None" if "map_of (xPending r) k \<noteq> None" for k
    using D(5) [OF that] by (auto simp: reg_fields)
  have scopes: "map_of (xScopes r) k \<noteq> None \<longleftrightarrow> (\<exists>s. map_of (xHeap (onScope sid f r)) k = Some s \<and> sEnd s \<noteq> EndDone)" for k
    using D(7) [of k] f by (auto simp: reg_fields)
  show ?thesis unfolding tokens_ok_def onScope_fields
    using D(1,2,4) wf_onScope [OF D(3)] D(5) none heap scopes by blast
qed

lemma tokens_start: "tokens_ok r \<Longrightarrow> tokens_ok (startBoundResourceClose sid r)"
  unfolding startBoundResourceClose_def by (rule tokens_onScope) (auto dest: tokens_okD(6))

lemma tokens_same:
  assumes "tokens_ok r" and "xPending r' = xPending r" "xScopes r' = xScopes r" "xHeap r' = xHeap r" "xNext r' = xNext r"
  shows "tokens_ok r'"
  using assms by (simp add: tokens_ok_def)

lemma tokens_begin: "tokens_ok r \<Longrightarrow> int (xNext r) < maxInt64 \<Longrightarrow> tokens_ok (fst (BeginDispatch r))"
proof -
  assume ok: "tokens_ok r" and lt: "int (xNext r) < maxInt64"
  have "int (xNext r) + 1 < 2 ^ 64" using lt by (simp add: maxInt64_def)
  then have "int (xNext r + 1) < int (2 ^ 64)" by simp
  then have w: "wrapU64 (xNext r + 1) = xNext r + 1" by (intro wrapU64_small) (simp only: of_nat_less_iff)
  have "map_of (xHeap r) (xNext r + 1) = None" using tokens_okD(6) [OF ok, of "xNext r + 1"] by force
  then have pend: "k \<in> {1..xNext r + 1} \<and> map_of (xHeap r) k = None"
    if "map_of (AList.update (xNext r + 1) () (xPending r)) k \<noteq> None" for k
    using that tokens_okD(5) [OF ok, of k] by (auto simp: gomap_simps split: if_splits)
  have heap: "k \<in> {1..xNext r + 1} \<and> (sCloseFn s \<longrightarrow> sCloseDone s = NotClosing)" if "map_of (xHeap r) k = Some s" for k s
    using tokens_okD(6) [OF ok that] by auto
  show ?thesis
  proof (cases "xState r = StateAccepting")
    case True
    have "tokens_ok (r\<lparr>xNext := xNext r + 1, xPending := AList.update (xNext r + 1) () (xPending r)\<rparr>)"
      unfolding tokens_ok_def using tokens_okD(1-4,7) [OF ok] lt pend heap by auto
    with True show ?thesis by (simp add: BeginDispatch_def w [simplified])
  qed (use ok in \<open>simp add: BeginDispatch_def\<close>)
qed

lemma tokens_drop: "tokens_ok r \<Longrightarrow> tokens_ok (r\<lparr>onceDone := xs, xPending := AList.delete pid (xPending r)\<rparr>)"
  by (auto simp: tokens_ok_def gomap_simps split: if_splits)

lemma tokens_install: "tokens_ok r \<Longrightarrow> tokens_ok (fst (Install pid spec r))"
proof -
  assume ok: "tokens_ok r"
  note D = tokens_okD [OF ok]
  show ?thesis
  proof (cases "xState r = StateAccepting \<and> map_of (xPending r) pid \<noteq> None")
    case False
    then show ?thesis using ok tokens_drop [OF ok] by (auto simp: Install_def)
  next
    case True
    then have "pid \<in> {1..xNext r}" "map_of (xHeap r) pid = None" using D(5) by blast+
    with True ok show ?thesis unfolding tokens_ok_def
      by (auto simp: Install_def Let_def gomap_simps split: if_splits)
  qed
qed

lemma tokens_bind: "tokens_ok r \<Longrightarrow> tokens_ok (fst (Bind sid hasFn r))"
  by (auto simp: Bind_def split: option.splits intro: tokens_onScope)

lemma tokens_remove:
  assumes "tokens_ok r" and "map_of (xHeap r) sid = Some s"
  shows "tokens_ok (onScope sid (\<lambda>s. s\<lparr>sEnd := EndDone\<rparr>) (r\<lparr>xScopes := AList.delete sid (xScopes r)\<rparr>))"
proof -
  note D = tokens_okD [OF assms(1)]
  let ?r = "onScope sid (\<lambda>s. s\<lparr>sEnd := EndDone\<rparr>) (r\<lparr>xScopes := AList.delete sid (xScopes r)\<rparr>)"
  have "wf_map (xHeap ?r)" using D(3) by simp
  moreover have "map_of (xHeap ?r) k = (if k = sid then Some (s\<lparr>sEnd := EndDone\<rparr>) else map_of (xHeap r) k)" for k
    using assms(2) by (simp add: reg_fields)
  ultimately show ?thesis using D assms(2) unfolding tokens_ok_def onScope_fields by (auto simp: gomap_simps)
qed

lemma tokens_mark:
  assumes "tokens_ok r"
  shows "tokens_ok (fst (markReleasedLocked spec r))"
  by (rule tokens_same [OF assms]) (simp_all add: reg_fields)

lemma tokens_end:
  assumes ok: "tokens_ok r" and st: "endStep sid ticket r = Some r'"
  shows "tokens_ok r'"
proof -
  obtain s where s: "map_of (xHeap r) sid = Some s" using st by (auto simp: endStep_def split: option.splits)
  show ?thesis
  proof (cases "sEnd s")
    case EndNot
    then have "r' = onScope sid (\<lambda>s. s\<lparr>sActive := False, sEnd := EndDeactivated\<rparr>) r" using st s by (simp add: endStep_def)
    then show ?thesis using s EndNot tokens_okD(6) [OF ok] by (auto intro!: tokens_onScope [OF ok])
  next
    case EndDeactivated
    let ?f = "\<lambda>s. s\<lparr>sEnd := (if sCloseDone s = NotClosing then EndClosed else EndWaiting)\<rparr>"
    have "r' = onScope sid ?f (startBoundResourceClose sid r)" using st s EndDeactivated by (simp add: endStep_def)
    moreover have "map_of (xHeap (startBoundResourceClose sid r)) sid = Some t \<Longrightarrow> sEnd t = EndDeactivated" for t
      using s EndDeactivated by (auto simp: startBoundResourceClose_def reg_fields)
    ultimately show ?thesis
      using tokens_okD(6) [OF tokens_start [OF ok]] by (auto intro!: tokens_onScope [OF tokens_start [OF ok]] split: if_splits)
  next
    case EndWaiting
    then have "r' = onScope sid (\<lambda>s. s\<lparr>sEnd := EndClosed\<rparr>) r" using st s by (simp add: endStep_def split: if_splits)
    then show ?thesis using s EndWaiting tokens_okD(6) [OF ok] by (auto intro!: tokens_onScope [OF ok])
  next
    case EndClosed
    let ?m = "markReleasedLocked (sSpec s) r"
    have "r' = onScope sid (\<lambda>s. s\<lparr>sEnd := EndMarked (snd ?m)\<rparr>) (fst ?m)" using st s EndClosed by (simp add: endStep_def split_beta Let_def)
    then show ?thesis using s EndClosed tokens_okD(6) [OF ok]
      by (auto simp: reg_fields intro!: tokens_onScope [OF tokens_mark [OF ok]])
  next
    case (EndMarked d)
    have "tokens_ok (r\<lparr>delivered := xs\<rparr>)" for xs by (rule tokens_same [OF ok]) simp_all
    then show ?thesis using st s EndMarked ok tokens_okD(6) [OF ok]
      by (cases d) (auto simp: endStep_def intro!: tokens_onScope)
  next
    case EndNotified
    then show ?thesis using st s tokens_remove [OF ok s] by (simp add: endStep_def)
  next
    case EndDone
    then show ?thesis using st s by (simp add: endStep_def)
  qed
qed

lemma tokens_action:
  assumes ok: "tokens_ok r" and st: "regAction act r = Some r'"
  shows "tokens_ok r'"
proof (cases act)
  case ABegin
  then show ?thesis using st tokens_begin [OF ok] by (auto split: if_splits)
next
  case (APendingEnd pid)
  then show ?thesis using st ok tokens_drop [OF ok] by (auto simp: Pending_End_def split: if_splits)
next
  case (AInstall pid spec)
  then show ?thesis using st tokens_install [OF ok] by (auto split: if_splits)
next
  case (ABind sid hasFn)
  then show ?thesis using st tokens_bind [OF ok] by auto
next
  case (ACloseResource sid)
  then show ?thesis using st tokens_okD(6) [OF ok]
    by (auto simp: closeResource_def split: option.splits if_splits intro!: tokens_onScope [OF ok])
next
  case (AEnd sid ticket)
  then show ?thesis using st tokens_end [OF ok] by simp
next
  case (ASink present)
  then show ?thesis using st by (intro tokens_same [OF ok]) (auto simp: SetReleaseSink_def Let_def)
next
  case (AReplay i)
  then show ?thesis using st by (intro tokens_same [OF ok]) (auto simp: deliverReplay_def split: if_splits)
next
  case ADrain
  then show ?thesis using st by (intro tokens_same [OF ok]) (auto simp: Drain_begin_def split: regState.splits)
next
  case (ADrainStep i)
  have "tokens_ok (x\<lparr>drains := ds\<rparr>)" "tokens_ok (x\<lparr>xState := y, drains := ds\<rparr>)" if "tokens_ok x" for x y ds
    using that by (auto intro: tokens_same)
  then show ?thesis using st ok tokens_start [OF ok]
    by (auto simp: ADrainStep drainStep_def split: if_splits drainPhase.splits list.splits)
next
  case AClose
  have "tokens_ok (x\<lparr>closer := ds\<rparr>)" "tokens_ok (x\<lparr>xState := y, closer := ds\<rparr>)" if "tokens_ok x" for x y ds
    using that by (auto intro: tokens_same)
  then show ?thesis using st ok tokens_start [OF ok]
    by (auto simp: AClose closeStep_def split: if_splits closePhase.splits list.splits option.splits)
next
  case (AObserve revision)
  then show ?thesis using st by (intro tokens_same [OF ok]) (auto simp: ObserveBarrier_def)
next
  case AFreeze
  then show ?thesis using st by (intro tokens_same [OF ok]) (auto simp: FreezeInFlight_def Let_def)
qed

lemma reach_tokens: "reg_reach r obs \<Longrightarrow> tokens_ok r"
proof (induction rule: reg_reach.induct)
  case init
  show ?case by (simp add: tokens_ok_def newRegistry_def maxInt64_def)
qed (rule tokens_action)

section \<open>Barriers\<close>

definition barriers_ok :: "execRegistry \<Rightarrow> (int \<times> nat) list \<Rightarrow> bool" where
  "barriers_ok r obs \<longleftrightarrow> publishedBarrier r \<le> observedBarrier r \<and> pendingBarrierSequence r \<le> xNext r
     \<and> (\<forall>(rev, n) \<in> set obs. rev \<le> observedBarrier r \<and> n \<le> pendingBarrierSequence r
          \<and> (rev \<le> publishedBarrier r \<longrightarrow> (\<forall>k. map_of (xPending r) k \<noteq> None \<longrightarrow> n < k)))"

lemma barriers_less:
  assumes "barriers_ok r obs" and "publishedBarrier r' = publishedBarrier r" "observedBarrier r' = observedBarrier r"
    "pendingBarrierSequence r' = pendingBarrierSequence r" "xNext r' = xNext r"
    and "\<And>k. map_of (xPending r') k \<noteq> None \<Longrightarrow> map_of (xPending r) k \<noteq> None"
  shows "barriers_ok r' obs"
  using assms by (fastforce simp: barriers_ok_def)

lemma endStep_fields:
  assumes "endStep sid ticket r = Some r'"
  shows "xState r' = xState r" "xNext r' = xNext r" "xPending r' = xPending r" "drains r' = drains r" "closer r' = closer r"
    "observedBarrier r' = observedBarrier r" "publishedBarrier r' = publishedBarrier r"
    "pendingBarrierSequence r' = pendingBarrierSequence r"
  using assms by (auto simp: endStep_def split_beta Let_def reg_fields
      split: option.splits endPhase.splits if_splits)

lemma bind_fields [reg_fields]:
  "xState (fst (Bind sid h r)) = xState r" "xNext (fst (Bind sid h r)) = xNext r" "xPending (fst (Bind sid h r)) = xPending r"
  "xScopes (fst (Bind sid h r)) = xScopes r" "drains (fst (Bind sid h r)) = drains r" "closer (fst (Bind sid h r)) = closer r"
  "observedBarrier (fst (Bind sid h r)) = observedBarrier r" "publishedBarrier (fst (Bind sid h r)) = publishedBarrier r"
  "pendingBarrierSequence (fst (Bind sid h r)) = pendingBarrierSequence r"
  by (simp_all add: Bind_def reg_fields split: option.splits)

lemma barriers_action:
  assumes b: "barriers_ok r obs" and ok: "tokens_ok r" and st: "regAction act r = Some r'"
  shows "barriers_ok r' (obs @ observed act r)"
proof -
  note same = barriers_less [OF b]
  show ?thesis
  proof (cases act)
    case ABegin
    have "int (xNext r) < maxInt64" using st ABegin by (auto split: if_splits)
    then have "int (xNext r + 1) < int (2 ^ 64)" by (simp add: maxInt64_def)
    then have w: "wrapU64 (Suc (xNext r)) = Suc (xNext r)" by (intro wrapU64_small) (simp only: of_nat_less_iff Suc_eq_plus1)
    show ?thesis
    proof (cases "xState r = StateAccepting")
      case True
      have "n < Suc (xNext r)" if "(rev, n) \<in> set obs" for rev n
        using b that by (force simp: barriers_ok_def)
      then show ?thesis using st b True unfolding barriers_ok_def
        by (fastforce simp: ABegin BeginDispatch_def w gomap_simps split: if_splits)
    qed (use st b in \<open>auto simp: ABegin BeginDispatch_def split: if_splits\<close>)
  next
    case (APendingEnd pid)
    then show ?thesis using st b
      by (auto simp: Pending_End_def gomap_simps split: if_splits intro!: same)
  next
    case (AInstall pid spec)
    then show ?thesis using st b
      by (auto simp: Install_def Let_def gomap_simps split: if_splits intro!: same)
  next
    case (ABind sid hasFn)
    then show ?thesis using st by (auto simp: reg_fields intro!: same)
  next
    case (ACloseResource sid)
    then show ?thesis using st
      by (auto simp: closeResource_def reg_fields split: option.splits if_splits intro!: same)
  next
    case (AEnd sid ticket)
    then show ?thesis using st endStep_fields [of sid ticket r r'] by (auto intro!: same)
  next
    case (ASink present)
    then show ?thesis using st by (auto simp: SetReleaseSink_def Let_def split: if_splits intro!: same)
  next
    case (AReplay i)
    then show ?thesis using st by (auto simp: deliverReplay_def split: if_splits intro!: same)
  next
    case ADrain
    then show ?thesis using st by (auto simp: Drain_begin_def split: regState.splits intro!: same)
  next
    case (ADrainStep i)
    then show ?thesis using st
      by (auto simp: drainStep_def reg_fields split: if_splits drainPhase.splits list.splits intro!: same)
  next
    case AClose
    then show ?thesis using st
      by (auto simp: closeStep_def reg_fields split: if_splits closePhase.splits list.splits option.splits intro!: same)
  next
    case (AObserve revision)
    then show ?thesis using st b unfolding barriers_ok_def
      by (fastforce simp: ObserveBarrier_def split: if_splits)
  next
    case AFreeze
    have "\<not> list_ex (\<lambda>p. fst p \<le> pendingBarrierSequence r) (xPending r) \<Longrightarrow> map_of (xPending r) k \<noteq> None \<Longrightarrow>
        pendingBarrierSequence r < k" for k
      by (auto simp: list_ex_iff dest!: map_of_SomeD)
    note quiet = this
    define cond where "cond \<longleftrightarrow> observedBarrier r > publishedBarrier r \<and> \<not> list_ex (\<lambda>p. fst p \<le> pendingBarrierSequence r) (xPending r)"
    have r': "publishedBarrier r' = (if cond then observedBarrier r else publishedBarrier r)" "observedBarrier r' = observedBarrier r"
      "pendingBarrierSequence r' = pendingBarrierSequence r" "xNext r' = xNext r" "xPending r' = xPending r"
      using st by (auto simp: AFreeze FreezeInFlight_def Let_def cond_def)
    show ?thesis
    proof (cases cond)
      case True
      then have "n < k" if "(rev, n) \<in> set obs" "map_of (xPending r) k \<noteq> None" for rev n k
        using quiet [of k] that b by (force simp: cond_def barriers_ok_def)
      with b True show ?thesis by (auto simp: barriers_ok_def r' AFreeze)
    next
      case False
      then show ?thesis using r' by (auto simp: AFreeze intro!: same)
    qed
  qed
qed

lemma reach_barriers: "reg_reach r obs \<Longrightarrow> barriers_ok r obs"
proof (induction rule: reg_reach.induct)
  case (step r obs act r')
  then show ?case using barriers_action reach_tokens by blast
qed (simp add: barriers_ok_def newRegistry_def)

section \<open>Draining and closing\<close>

text \<open>The registered scopes whose resource nobody has begun to close.\<close>

definition unclosed :: "execRegistry \<Rightarrow> nat set" where
  "unclosed r = {k. map_of (xScopes r) k \<noteq> None \<and> (\<exists>s. map_of (xHeap r) k = Some s \<and> sCloseFn s)}"

fun drain_ok :: "execRegistry \<Rightarrow> drainPhase \<Rightarrow> bool" where
  "drain_ok r DrainCollect = True"
| "drain_ok r (DrainClosing sids) = (unclosed r \<subseteq> set sids)"
| "drain_ok r DrainWaiting = (unclosed r = {})"
| "drain_ok r DrainReturned = (xState r = StateClosed \<and> xPending r = [] \<and> xScopes r = [])"

fun close_ok :: "execRegistry \<Rightarrow> closePhase \<Rightarrow> bool" where
  "close_ok r CloseNotStarted = True"
| "close_ok r CloseSwitch = True"
| "close_ok r CloseCollect = (xState r = StateClosed)"
| "close_ok r (CloseStart sids) = (xState r = StateClosed \<and> unclosed r \<subseteq> set sids)"
| "close_ok r (CloseAwait sid sids) = (xState r = StateClosed \<and> unclosed r \<subseteq> set sids)"
| "close_ok r CloseReturned = (xState r = StateClosed \<and> unclosed r = {})"

definition shutdown_ok :: "execRegistry \<Rightarrow> bool" where
  "shutdown_ok r \<longleftrightarrow> (drains r \<noteq> [] \<longrightarrow> xState r \<noteq> StateAccepting) \<and> list_all (drain_ok r) (drains r) \<and> close_ok r (closer r)"

text \<open>Once the registry no longer accepts, nothing new appears and no resource is bound.\<close>

definition quieter :: "execRegistry \<Rightarrow> execRegistry \<Rightarrow> bool" where
  "quieter r r' \<longleftrightarrow> (xState r \<noteq> StateAccepting \<longrightarrow> xState r' \<noteq> StateAccepting \<and> unclosed r' \<subseteq> unclosed r
      \<and> (xPending r = [] \<longrightarrow> xPending r' = []) \<and> (xScopes r = [] \<longrightarrow> xScopes r' = []))
    \<and> (xState r = StateClosed \<longrightarrow> xState r' = StateClosed)"

lemma quieter_drain: "quieter r r' \<Longrightarrow> xState r \<noteq> StateAccepting \<Longrightarrow> drain_ok r d \<Longrightarrow> drain_ok r' d"
  by (cases d) (auto simp: quieter_def)

lemma quieter_close: "quieter r r' \<Longrightarrow> close_ok r p \<Longrightarrow> close_ok r' p"
  by (cases p) (auto simp: quieter_def)

lemma shutdown_quieter:
  assumes "shutdown_ok r" and "quieter r r'" and "drains r' = drains r" and "closer r' = closer r"
  shows "shutdown_ok r'"
proof -
  have "list_all (drain_ok r') (drains r)"
    using assms(1) quieter_drain [OF assms(2)] by (cases "drains r = []") (auto simp: shutdown_ok_def list_all_iff)
  then show ?thesis using assms quieter_close [OF assms(2)] by (auto simp: shutdown_ok_def quieter_def)
qed

lemma unclosed_onScope:
  assumes "\<And>s. map_of (xHeap r) sid = Some s \<Longrightarrow> sCloseFn (f s) \<Longrightarrow> sCloseFn s"
  shows "unclosed (onScope sid f r) \<subseteq> unclosed r"
  using assms by (auto simp: unclosed_def reg_fields split: if_splits)

lemma unclosed_start:
  assumes "tokens_ok r"
  shows "unclosed (startBoundResourceClose sid r) \<subseteq> unclosed r - {sid}"
proof -
  have "unclosed (startBoundResourceClose sid r) \<subseteq> unclosed r"
    unfolding startBoundResourceClose_def by (rule unclosed_onScope) (simp split: if_splits)
  moreover have "\<not> sCloseFn s" if after: "map_of (xHeap (startBoundResourceClose sid r)) sid = Some s" for s
  proof -
    obtain t where t: "map_of (xHeap r) sid = Some t" using after by (auto simp: startBoundResourceClose_def reg_fields)
    then show ?thesis using after tokens_okD(6) [OF assms t] by (auto simp: startBoundResourceClose_def reg_fields split: if_splits)
  qed
  ultimately show ?thesis by (auto simp: unclosed_def)
qed

lemma quieter_onScope:
  assumes "\<And>s. map_of (xHeap r) sid = Some s \<Longrightarrow> sCloseFn (f s) \<Longrightarrow> sCloseFn s"
  shows "quieter r (onScope sid f r)"
  using unclosed_onScope [OF assms] by (simp add: quieter_def reg_fields)

lemma quieter_fewer:
  assumes "xState r' = xState r" "xPending r = [] \<Longrightarrow> xPending r' = []" "xHeap r' = xHeap r"
    "\<And>k. map_of (xScopes r') k \<noteq> None \<Longrightarrow> map_of (xScopes r) k \<noteq> None" "xScopes r = [] \<Longrightarrow> xScopes r' = []"
  shows "quieter r r'"
  using assms by (auto simp: quieter_def unclosed_def)

lemma quieter_trans: "quieter r r1 \<Longrightarrow> quieter r1 r2 \<Longrightarrow> quieter r r2"
  unfolding quieter_def by (meson subset_trans)

lemma quieter_start: "tokens_ok r \<Longrightarrow> quieter r (startBoundResourceClose sid r)"
  using unclosed_start [of r sid] by (auto simp: quieter_def reg_fields)

lemma quieter_end:
  assumes ok: "tokens_ok r" and st: "endStep sid ticket r = Some r'"
  shows "quieter r r'"
proof -
  obtain s where s: "map_of (xHeap r) sid = Some s" using st by (auto simp: endStep_def split: option.splits)
  have mark: "quieter r (fst (markReleasedLocked spec r))" for spec by (rule quieter_fewer) (simp_all add: reg_fields)
  have log: "quieter r (r\<lparr>delivered := xs\<rparr>)" for xs by (rule quieter_fewer) simp_all
  have leave: "quieter r (r\<lparr>xScopes := AList.delete sid (xScopes r)\<rparr>)"
    by (rule quieter_fewer) (auto simp: gomap_simps split: if_splits)
  show ?thesis
    using st s quieter_start [OF ok, of sid] mark log leave
    by (auto simp: endStep_def split_beta Let_def split: endPhase.splits option.splits if_splits
        intro!: quieter_onScope intro: quieter_trans [OF _ quieter_onScope])
qed

lemma quieter_bind: "quieter r (fst (Bind sid hasFn r))"
  by (auto simp: Bind_def quieter_def reg_fields split: option.splits)

lemma quieter_install: "quieter r (fst (Install pid spec r))"
  by (cases "xState r = StateAccepting") (auto simp: Install_def Let_def quieter_def unclosed_def gomap_simps)

text \<open>The sections of a drain and of the close.\<close>

lemma shutdown_drain:
  assumes ok: "tokens_ok r" and sd: "shutdown_ok r" and q: "quieter r r1"
    and d: "drains r1 = drains r" "closer r1 = closer r" and new: "drain_ok r1 p" and st: "xState r1 \<noteq> StateAccepting"
  shows "shutdown_ok (r1\<lparr>drains := (drains r)[i := p]\<rparr>)"
proof -
  have "shutdown_ok r1" by (rule shutdown_quieter [OF sd q d])
  then have "list_all (drain_ok r1) ((drains r)[i := p])" "close_ok r1 (closer r)"
    using new d by (auto simp: shutdown_ok_def list_all_iff dest!: set_update_subset_insert [THEN subsetD])
  moreover have "drain_ok (r1\<lparr>drains := ds\<rparr>) e \<longleftrightarrow> drain_ok r1 e" for ds e by (cases e) (simp_all add: unclosed_def)
  moreover have "close_ok (r1\<lparr>drains := ds\<rparr>) c \<longleftrightarrow> close_ok r1 c" for ds c by (cases c) (simp_all add: unclosed_def)
  ultimately show ?thesis using st d by (simp add: shutdown_ok_def list_all_iff)
qed

lemma shutdown_close:
  assumes "shutdown_ok r" and "quieter r r1" and "drains r1 = drains r" "closer r1 = closer r" and "close_ok r1 p"
  shows "shutdown_ok (r1\<lparr>closer := p\<rparr>)"
proof -
  have "shutdown_ok r1" by (rule shutdown_quieter [OF assms(1-4)])
  moreover have "drain_ok (r1\<lparr>closer := c\<rparr>) e \<longleftrightarrow> drain_ok r1 e" for c e by (cases e) (simp_all add: unclosed_def)
  moreover have "close_ok (r1\<lparr>closer := c\<rparr>) c' \<longleftrightarrow> close_ok r1 c'" for c c' by (cases c') (simp_all add: unclosed_def)
  ultimately show ?thesis using assms(5) by (simp add: shutdown_ok_def list_all_iff)
qed

lemma quieter_refl [simp]: "quieter r r"
  by (simp add: quieter_def)

lemma quieter_closed: "quieter r (r\<lparr>xState := StateClosed\<rparr>)"
  by (simp add: quieter_def unclosed_def)

lemma unclosed_listed: "unclosed r \<subseteq> set (map fst (xScopes r))"
proof
  fix k assume "k \<in> unclosed r"
  then obtain u where "map_of (xScopes r) k = Some u" by (auto simp: unclosed_def)
  then show "k \<in> set (map fst (xScopes r))" using map_of_key_in by simp
qed

lemma shutdown_drainStep:
  assumes ok: "tokens_ok r" and sd: "shutdown_ok r" and st: "drainStep i r = Some r'"
  shows "shutdown_ok r'"
proof -
  have i: "i < length (drains r)" using st by (simp add: drainStep_def split: if_splits)
  then have acc: "xState r \<noteq> StateAccepting" using sd by (auto simp: shutdown_ok_def)
  have cur: "drain_ok r (drains r ! i)" using sd i by (simp add: shutdown_ok_def list_all_length)
  note D = shutdown_drain [OF ok sd, of _ _ i]
  show ?thesis
  proof (cases "drains r ! i")
    case DrainCollect
    then have "r' = r\<lparr>drains := (drains r)[i := DrainClosing (map fst (xScopes r))]\<rparr>" using st i by (simp add: drainStep_def)
    then show ?thesis using D [of r] acc unclosed_listed [of r] by simp
  next
    case (DrainClosing sids)
    show ?thesis
    proof (cases sids)
      case Nil
      then have "r' = r\<lparr>drains := (drains r)[i := DrainWaiting]\<rparr>" using st i DrainClosing by (simp add: drainStep_def)
      then show ?thesis using D [of r] acc cur DrainClosing Nil by simp
    next
      case (Cons sid rest)
      then have "r' = (startBoundResourceClose sid r)\<lparr>drains := (drains r)[i := DrainClosing rest]\<rparr>"
        using st i DrainClosing by (simp add: drainStep_def)
      moreover have "unclosed (startBoundResourceClose sid r) \<subseteq> set rest"
        using unclosed_start [OF ok, of sid] cur DrainClosing Cons by auto
      ultimately show ?thesis
        using D [OF quieter_start [OF ok, of sid]] acc by (simp add: reg_fields)
    qed
  next
    case DrainWaiting
    then have r': "r' = (r\<lparr>xState := StateClosed\<rparr>)\<lparr>drains := (drains r)[i := DrainReturned]\<rparr>"
      and "xPending r = []" "xScopes r = []" using st i by (auto simp: drainStep_def split: if_splits)
    then show ?thesis using D [OF quieter_closed] by simp
  next
    case DrainReturned
    then show ?thesis using st i by (simp add: drainStep_def)
  qed
qed

lemma shutdown_closeStep:
  assumes ok: "tokens_ok r" and sd: "shutdown_ok r" and st: "closeStep r = Some r'"
  shows "shutdown_ok r'"
proof -
  have cur: "close_ok r (closer r)" using sd by (simp add: shutdown_ok_def)
  note C = shutdown_close [OF sd]
  show ?thesis
  proof (cases "closer r")
    case CloseNotStarted
    then have "r' = r\<lparr>closer := CloseSwitch\<rparr>" using st by (simp add: closeStep_def split: if_splits)
    then show ?thesis using C [of r] by simp
  next
    case CloseSwitch
    then have "r' = (r\<lparr>xState := StateClosed\<rparr>)\<lparr>closer := CloseCollect\<rparr>" using st by (simp add: closeStep_def)
    then show ?thesis using C [OF quieter_closed] by simp
  next
    case CloseCollect
    then have "r' = r\<lparr>closer := CloseStart (map fst (xScopes r))\<rparr>" using st by (simp add: closeStep_def)
    then show ?thesis using C [of r] cur CloseCollect unclosed_listed [of r] by simp
  next
    case (CloseStart sids)
    show ?thesis
    proof (cases sids)
      case Nil
      then have "r' = r\<lparr>closer := CloseReturned\<rparr>" using st CloseStart by (simp add: closeStep_def)
      then show ?thesis using C [of r] cur CloseStart Nil by simp
    next
      case (Cons sid rest)
      then have "r' = (startBoundResourceClose sid r)\<lparr>closer := CloseAwait sid rest\<rparr>"
        using st CloseStart by (simp add: closeStep_def)
      moreover have "unclosed (startBoundResourceClose sid r) \<subseteq> set rest"
        using unclosed_start [OF ok, of sid] cur CloseStart Cons by auto
      ultimately show ?thesis
        using C [OF quieter_start [OF ok, of sid]] cur CloseStart by (simp add: reg_fields)
    qed
  next
    case (CloseAwait sid sids)
    then have "r' = r\<lparr>closer := CloseStart sids\<rparr>" using st by (auto simp: closeStep_def split: option.splits if_splits)
    then show ?thesis using C [of r] cur CloseAwait by simp
  next
    case CloseReturned
    then show ?thesis using st by (simp add: closeStep_def)
  qed
qed

lemma shutdown_begin: "shutdown_ok r \<Longrightarrow> shutdown_ok (fst (Drain_begin r))"
proof -
  assume sd: "shutdown_ok r"
  have d: "drain_ok (r\<lparr>xState := StateDraining, drains := ds\<rparr>) e \<longleftrightarrow> drain_ok (r\<lparr>xState := StateDraining\<rparr>) e"
    "drain_ok (r\<lparr>drains := ds\<rparr>) e \<longleftrightarrow> drain_ok r e" for ds e by (cases e; simp add: unclosed_def)+
  have c: "close_ok (r\<lparr>xState := StateDraining, drains := ds\<rparr>) p \<longleftrightarrow> close_ok (r\<lparr>xState := StateDraining\<rparr>) p"
    "close_ok (r\<lparr>drains := ds\<rparr>) p \<longleftrightarrow> close_ok r p" for ds p by (cases p; simp add: unclosed_def)+
  show ?thesis
  proof (cases "xState r")
    case StateAccepting
    then have "drains r = []" "closer r \<in> {CloseNotStarted, CloseSwitch}"
      using sd by (auto simp: shutdown_ok_def) (cases "closer r"; simp)
    then show ?thesis using StateAccepting sd by (auto simp: Drain_begin_def shutdown_ok_def d c)
  next
    case StateDraining
    then show ?thesis using sd by (simp add: Drain_begin_def shutdown_ok_def d c list_all_iff)
  next
    case StateClosed
    then show ?thesis using sd by (simp add: Drain_begin_def)
  qed
qed

lemma shutdown_action:
  assumes ok: "tokens_ok r" and sd: "shutdown_ok r" and st: "regAction act r = Some r'"
  shows "shutdown_ok r'"
proof -
  note Q = shutdown_quieter [OF sd]
  show ?thesis
  proof (cases act)
    case ABegin
    have "quieter r (fst (BeginDispatch r))" by (auto simp: BeginDispatch_def quieter_def unclosed_def Let_def)
    then show ?thesis using st ABegin by (auto intro!: Q simp: BeginDispatch_def Let_def split: if_splits)
  next
    case (APendingEnd pid)
    have "quieter r (Pending_End pid r)" by (rule quieter_fewer) (auto simp: Pending_End_def split: if_splits)
    then show ?thesis using st APendingEnd by (auto intro!: Q simp: Pending_End_def split: if_splits)
  next
    case (AInstall pid spec)
    then show ?thesis using st quieter_install [of r pid spec]
      by (auto intro!: Q simp: Install_def Let_def split: if_splits)
  next
    case (ABind sid hasFn)
    then show ?thesis using st quieter_bind [of r sid hasFn] by (auto intro!: Q simp: reg_fields)
  next
    case (ACloseResource sid)
    then show ?thesis using st
      by (auto intro!: Q quieter_onScope simp: closeResource_def reg_fields split: option.splits if_splits)
  next
    case (AEnd sid ticket)
    then show ?thesis using st quieter_end [OF ok] endStep_fields by (auto intro!: Q)
  next
    case (ASink present)
    have "quieter r (SetReleaseSink present r)" by (rule quieter_fewer) (auto simp: SetReleaseSink_def Let_def split: if_splits)
    then show ?thesis using st ASink by (auto intro!: Q simp: SetReleaseSink_def Let_def split: if_splits)
  next
    case (AReplay i)
    then have "quieter r r'" using st by (intro quieter_fewer) (auto simp: deliverReplay_def split: if_splits)
    then show ?thesis using st AReplay by (auto intro!: Q simp: deliverReplay_def split: if_splits)
  next
    case ADrain
    then show ?thesis using st shutdown_begin [OF sd] by auto
  next
    case (ADrainStep i)
    then show ?thesis using st shutdown_drainStep [OF ok sd] by simp
  next
    case AClose
    then show ?thesis using st shutdown_closeStep [OF ok sd] by simp
  next
    case (AObserve revision)
    have "quieter r (ObserveBarrier revision r)" by (rule quieter_fewer) (auto simp: ObserveBarrier_def split: if_splits)
    then show ?thesis using st AObserve by (auto intro!: Q simp: ObserveBarrier_def)
  next
    case AFreeze
    have "quieter r (fst (FreezeInFlight r))" by (rule quieter_fewer) (auto simp: FreezeInFlight_def Let_def split: if_splits)
    then show ?thesis using st AFreeze by (auto intro!: Q simp: FreezeInFlight_def Let_def)
  qed
qed

lemma reach_shutdown: "reg_reach r obs \<Longrightarrow> shutdown_ok r"
proof (induction rule: reg_reach.induct)
  case (step r obs act r')
  then show ?case using shutdown_action reach_tokens by blast
qed (simp add: shutdown_ok_def newRegistry_def)

end
