(* ===== verification/ExecRegistryProperties.thy ===== *)
theory ExecRegistryProperties
  imports ExecRegistryProofs
begin

text \<open>Exactly-once accounting of releases, and the claims about the execution registry.\<close>

section \<open>Counting releases\<close>

definition marked :: "scope \<Rightarrow> bool" where
  "marked s \<longleftrightarrow> (case sEnd s of EndMarked _ \<Rightarrow> True | EndNotified \<Rightarrow> True | EndDone \<Rightarrow> True | _ \<Rightarrow> False)"

definition counts :: "releaseGroup \<Rightarrow> scope \<Rightarrow> bool" where
  "counts g s \<longleftrightarrow> Accounted (sSpec s) \<and> releaseGroupOf (sSpec s) = g \<and> marked s"

definition releasedCount :: "releaseGroup \<Rightarrow> (nat, scope) gomap \<Rightarrow> nat" where
  "releasedCount g h = length (filter (\<lambda>p. counts g (snd p)) h)"

lemma filter_update_existing:
  "wf_map m \<Longrightarrow> map_of m k = Some v \<Longrightarrow>
     length (filter (\<lambda>p. P (snd p)) (AList.update k w m)) + (if P v then 1 else 0) =
     length (filter (\<lambda>p. P (snd p)) m) + (if P w then 1 else 0)"
proof (induction m)
  case (Cons p m)
  obtain a b where p: "p = (a, b)" by fastforce
  have wf: "wf_map m" using Cons.prems by (simp add: wf_map_def)
  show ?case
  proof (cases "a = k")
    case True
    then show ?thesis using Cons.prems by (simp add: p)
  next
    case False
    then have "map_of m k = Some v" using Cons.prems by (simp add: p)
    from Cons.IH [OF wf this] False show ?thesis by (auto simp: p)
  qed
qed simp

lemma filter_update_new:
  "map_of m k = None \<Longrightarrow>
     length (filter (\<lambda>p. P (snd p)) (AList.update k w m)) = length (filter (\<lambda>p. P (snd p)) m) + (if P w then 1 else 0)"
  by (induction m) auto

lemma releasedCount_onScope:
  assumes "wf_map (xHeap r)" and "map_of (xHeap r) sid = Some s"
  shows "releasedCount g (xHeap (onScope sid f r)) + (if counts g s then 1 else 0) =
    releasedCount g (xHeap r) + (if counts g (f s) then 1 else 0)"
  using filter_update_existing [OF assms, of "counts g" "f s"] assms(2) by (simp add: releasedCount_def onScope_def)

lemma releasedCount_same:
  assumes "wf_map (xHeap r)" and "\<And>s. map_of (xHeap r) sid = Some s \<Longrightarrow> counts g (f s) = counts g s"
  shows "releasedCount g (xHeap (onScope sid f r)) = releasedCount g (xHeap r)"
proof (cases "map_of (xHeap r) sid")
  case (Some s)
  then show ?thesis using releasedCount_onScope [OF assms(1) Some, of g f] assms(2) [OF Some] by (simp split: if_splits)
qed (simp add: onScope_def)

lemma counts_cong: "sSpec s = sSpec t \<Longrightarrow> sEnd s = sEnd t \<Longrightarrow> counts g s = counts g t"
  by (simp add: counts_def marked_def)

lemma releasedCount_start:
  "wf_map (xHeap r) \<Longrightarrow> releasedCount g (xHeap (startBoundResourceClose sid r)) = releasedCount g (xHeap r)"
  unfolding startBoundResourceClose_def by (rule releasedCount_same) (auto intro!: counts_cong)

lemma heap_bound:
  assumes "tokens_ok r"
  shows "int (length (xHeap r)) \<le> maxInt64"
proof -
  note D = tokens_okD [OF assms]
  have "fst ` set (xHeap r) \<subseteq> {1..xNext r}"
    using D(6) by (metis (no_types, opaque_lifting) map_of_not_key not_None_eq subsetI)
  then have "card (fst ` set (xHeap r)) \<le> xNext r" using card_mono [of "{1..xNext r}"] by simp
  moreover have "length (xHeap r) = card (fst ` set (xHeap r))"
    using D(3) by (metis wf_map_def distinct_card length_map set_map)
  ultimately show ?thesis using D(4) by linarith
qed

text \<open>Sequences equal counts, and nothing is delivered ahead of its count.\<close>

definition deliverable :: "execRegistry \<Rightarrow> (releaseGroup \<times> int) set" where
  "deliverable r = set (delivered r) \<union> set (outbox r) \<union> {d. \<exists>k s. map_of (xHeap r) k = Some s \<and> sEnd s = EndMarked (Some d)}"

definition releases_ok :: "execRegistry \<Rightarrow> bool" where
  "releases_ok r \<longleftrightarrow> (\<forall>g. sequenceAt g r = int (releasedCount g (xHeap r)))
     \<and> wf_map (releaseSequences r) \<and> (\<forall>(g, n) \<in> deliverable r. 1 \<le> n \<and> n \<le> sequenceAt g r)"

lemma sequenceAt_same: "releaseSequences r' = releaseSequences r \<Longrightarrow> sequenceAt g r' = sequenceAt g r"
  by (simp add: sequenceAt_def)

lemma releases_less:
  assumes "releases_ok r" and "releaseSequences r' = releaseSequences r"
    and "\<And>g. releasedCount g (xHeap r') = releasedCount g (xHeap r)" and "deliverable r' \<subseteq> deliverable r"
  shows "releases_ok r'"
  using assms sequenceAt_same [OF assms(2)] unfolding releases_ok_def by fastforce

lemma releases_quiet:
  assumes "releases_ok r" "releaseSequences r' = releaseSequences r" "xHeap r' = xHeap r"
    "set (delivered r') \<union> set (outbox r') \<subseteq> set (delivered r) \<union> set (outbox r)"
  shows "releases_ok r'"
  by (rule releases_less [OF assms(1,2)]) (use assms(3,4) in \<open>auto simp: deliverable_def\<close>)

lemma deliverable_onScope:
  assumes "\<And>s d. map_of (xHeap r) sid = Some s \<Longrightarrow> sEnd (f s) = EndMarked (Some d) \<Longrightarrow> d \<in> deliverable r"
  shows "deliverable (onScope sid f r) \<subseteq> deliverable r"
proof
  fix d assume "d \<in> deliverable (onScope sid f r)"
  then consider "d \<in> set (delivered r) \<union> set (outbox r)" | k s where "map_of (xHeap (onScope sid f r)) k = Some s" "sEnd s = EndMarked (Some d)"
    by (auto simp: deliverable_def onScope_def split: option.splits)
  then show "d \<in> deliverable r"
  proof cases
    case 2
    show ?thesis
    proof (cases "k = sid")
      case True
      then obtain z where "map_of (xHeap r) sid = Some z" "s = f z" using 2(1) by (auto simp: reg_fields)
      with assms 2(2) show ?thesis by blast
    next
      case False
      then show ?thesis using 2 by (auto simp: reg_fields deliverable_def)
    qed
  qed (simp add: deliverable_def)
qed

lemma releases_onScope:
  assumes "releases_ok r" "tokens_ok r"
    and "\<And>s. map_of (xHeap r) sid = Some s \<Longrightarrow> sSpec (f s) = sSpec s \<and> marked (f s) = marked s
          \<and> (\<forall>d. sEnd (f s) = EndMarked (Some d) \<longrightarrow> sEnd s = EndMarked (Some d))"
  shows "releases_ok (onScope sid f r)"
proof (rule releases_less [OF assms(1)])
  show "releasedCount g (xHeap (onScope sid f r)) = releasedCount g (xHeap r)" for g
    using assms(3) by (intro releasedCount_same [OF tokens_okD(3) [OF assms(2)]]) (simp add: counts_def)
  show "deliverable (onScope sid f r) \<subseteq> deliverable r"
    using assms(3) by (intro deliverable_onScope) (auto simp: deliverable_def)
qed (simp add: reg_fields)

lemma releases_start: "releases_ok r \<Longrightarrow> tokens_ok r \<Longrightarrow> releases_ok (startBoundResourceClose sid r)"
  unfolding startBoundResourceClose_def by (rule releases_onScope) (auto simp: marked_def)

lemma releases_mark:
  assumes rel: "releases_ok r" and ok: "tokens_ok r" and s: "map_of (xHeap r) sid = Some s" "sEnd s = EndClosed"
    and m: "markReleasedLocked (sSpec s) r = (r1, d)"
  shows "releases_ok (onScope sid (\<lambda>s. s\<lparr>sEnd := EndMarked d\<rparr>) r1)" (is "releases_ok ?r'")
proof -
  let ?f = "\<lambda>s. s\<lparr>sEnd := EndMarked d\<rparr>" and ?grp = "releaseGroupOf (sSpec s)"
  have heap: "xHeap r1 = xHeap r" "delivered r1 = delivered r" "outbox r1 = outbox r"
    using m by (auto simp: markReleasedLocked_def Let_def split: if_splits)
  have wf: "wf_map (xHeap r)" by (rule tokens_okD(3) [OF ok])
  have c: "releasedCount g (xHeap ?r') = releasedCount g (xHeap r) + (if Accounted (sSpec s) \<and> ?grp = g then 1 else 0)" for g
    using releasedCount_onScope [of r1 sid s g ?f] wf s heap by (simp add: counts_def marked_def)
  have bound: "int (releasedCount ?grp (xHeap r)) + 1 \<le> maxInt64" if "Accounted (sSpec s)"
  proof -
    have "releasedCount ?grp (xHeap ?r') \<le> length (xHeap ?r')" by (simp add: releasedCount_def)
    moreover have "length (xHeap ?r') = length (xHeap r)"
      using s heap arg_cong [OF update_keys [of sid "?f s" "xHeap r"], of length] map_of_key_in [OF s(1)]
      by (simp add: onScope_def)
    ultimately show ?thesis using c that heap_bound [OF ok] by simp
  qed
  have wf1: "wf_map (releaseSequences r1)"
    using m rel by (auto simp: markReleasedLocked_def Let_def releases_ok_def split: if_splits)
  have seq: "sequenceAt g r = int (releasedCount g (xHeap r))" for g using rel unfolding releases_ok_def by blast
  have seq': "sequenceAt g ?r' = sequenceAt g r + (if Accounted (sSpec s) \<and> ?grp = g then 1 else 0)" for g
  proof (cases "Accounted (sSpec s)")
    case True
    have "in_int64 (sequenceAt ?grp r + 1)" using bound [OF True] by (simp add: seq in_int64_def minInt64_def)
    then have "releaseSequences r1 = AList.update ?grp (sequenceAt ?grp r + 1) (releaseSequences r)"
      using m True by (auto simp: markReleasedLocked_def Let_def)
    then show ?thesis using True by (simp add: sequenceAt_def reg_fields gomap_simps)
  next
    case False
    then have "r1 = r" using m by (simp add: markReleasedLocked_def)
    with False show ?thesis by (simp add: sequenceAt_def reg_fields)
  qed
  have "1 \<le> n \<and> n \<le> sequenceAt g ?r'" if "(g, n) \<in> deliverable ?r'" for g n
  proof (cases "d = Some (g, n)")
    case True
    then have "Accounted (sSpec s)" "g = ?grp" "n = wrap64 (sequenceAt ?grp r + 1)"
      using m by (auto simp: markReleasedLocked_def Let_def split: if_splits)
    moreover from this have "in_int64 (sequenceAt ?grp r + 1)" using bound by (simp add: seq in_int64_def minInt64_def)
    ultimately show ?thesis using seq' [of ?grp] seq [of ?grp] by simp
  next
    case False
    then have "(g, n) \<in> deliverable r"
      using that s heap by (auto simp: deliverable_def reg_fields onScope_def gomap_simps split: if_splits option.splits)
    then show ?thesis using rel seq' [of g] by (auto simp: releases_ok_def)
  qed
  then show ?thesis unfolding releases_ok_def seq' c using seq wf1 by (auto simp: reg_fields)
qed

lemma releases_end:
  assumes rel: "releases_ok r" and ok: "tokens_ok r" and st: "endStep sid ticket r = Some r'"
  shows "releases_ok r'"
proof -
  obtain s where s: "map_of (xHeap r) sid = Some s" using st by (auto simp: endStep_def split: option.splits)
  note on = releases_onScope [OF rel ok]
  show ?thesis
  proof (cases "sEnd s")
    case EndNot
    then have "r' = onScope sid (\<lambda>s. s\<lparr>sActive := False, sEnd := EndDeactivated\<rparr>) r" using st s by (simp add: endStep_def)
    then show ?thesis using s EndNot by (auto intro!: on simp: marked_def)
  next
    case EndDeactivated
    have "r' = onScope sid (\<lambda>s. s\<lparr>sEnd := (if sCloseDone s = NotClosing then EndClosed else EndWaiting)\<rparr>)
        (startBoundResourceClose sid r)" using st s EndDeactivated by (simp add: endStep_def)
    moreover have "map_of (xHeap (startBoundResourceClose sid r)) sid = Some t \<Longrightarrow> sEnd t = EndDeactivated" for t
      using s EndDeactivated by (auto simp: startBoundResourceClose_def reg_fields)
    ultimately show ?thesis
      by (auto intro!: releases_onScope [OF releases_start [OF rel ok] tokens_start [OF ok]] simp: marked_def split: if_splits)
  next
    case EndWaiting
    then have "r' = onScope sid (\<lambda>s. s\<lparr>sEnd := EndClosed\<rparr>) r" using st s by (simp add: endStep_def split: if_splits)
    then show ?thesis using s EndWaiting by (auto intro!: on simp: marked_def)
  next
    case EndClosed
    obtain r1 d where m: "markReleasedLocked (sSpec s) r = (r1, d)" by fastforce
    then have "r' = onScope sid (\<lambda>s. s\<lparr>sEnd := EndMarked d\<rparr>) r1" using st s EndClosed by (simp add: endStep_def)
    then show ?thesis using releases_mark [OF rel ok s EndClosed m] by simp
  next
    case (EndMarked d)
    show ?thesis
    proof (cases d)
      case None
      then have "r' = onScope sid (\<lambda>s. s\<lparr>sTicket := None, sEnd := EndNotified\<rparr>) r" using st s EndMarked by (simp add: endStep_def)
      then show ?thesis using s EndMarked by (auto intro!: on simp: marked_def)
    next
      case (Some x)
      then have r': "r' = onScope sid (\<lambda>s. s\<lparr>sTicket := ticket, sEnd := EndNotified\<rparr>) (r\<lparr>delivered := delivered r @ [x]\<rparr>)"
        using st s EndMarked by (simp add: endStep_def)
      have "releases_ok (r\<lparr>delivered := delivered r @ [x]\<rparr>)"
        using s EndMarked Some by (intro releases_less [OF rel]) (auto simp: deliverable_def)
      moreover have "tokens_ok (r\<lparr>delivered := delivered r @ [x]\<rparr>)" by (rule tokens_same [OF ok]) simp_all
      ultimately show ?thesis unfolding r' using s EndMarked by (intro releases_onScope) (auto simp: marked_def)
    qed
  next
    case EndNotified
    then have r': "r' = onScope sid (\<lambda>s. s\<lparr>sEnd := EndDone\<rparr>) (r\<lparr>xScopes := AList.delete sid (xScopes r)\<rparr>)"
      using st s by (simp add: endStep_def)
    show ?thesis unfolding r'
    proof (rule releases_less [OF rel])
      show "releasedCount g (xHeap (onScope sid (\<lambda>s. s\<lparr>sEnd := EndDone\<rparr>) (r\<lparr>xScopes := AList.delete sid (xScopes r)\<rparr>))) =
          releasedCount g (xHeap r)" for g
        using releasedCount_same [of "r\<lparr>xScopes := AList.delete sid (xScopes r)\<rparr>" sid g "\<lambda>s. s\<lparr>sEnd := EndDone\<rparr>"]
          tokens_okD(3) [OF ok] s EndNotified by (simp add: counts_def marked_def)
      show "deliverable (onScope sid (\<lambda>s. s\<lparr>sEnd := EndDone\<rparr>) (r\<lparr>xScopes := AList.delete sid (xScopes r)\<rparr>)) \<subseteq> deliverable r"
        using deliverable_onScope [of "r\<lparr>xScopes := AList.delete sid (xScopes r)\<rparr>" sid "\<lambda>s. s\<lparr>sEnd := EndDone\<rparr>"]
        by (simp add: deliverable_def)
    qed (simp add: reg_fields)
  next
    case EndDone
    then show ?thesis using st s by (simp add: endStep_def)
  qed
qed

lemma releases_action:
  assumes rel: "releases_ok r" and ok: "tokens_ok r" and st: "regAction act r = Some r'"
  shows "releases_ok r'"
proof (cases act)
  case ABegin
  then show ?thesis using st by (intro releases_quiet [OF rel]) (auto simp: BeginDispatch_def Let_def split: if_splits)
next
  case (APendingEnd pid)
  then show ?thesis using st by (intro releases_quiet [OF rel]) (auto simp: Pending_End_def split: if_splits)
next
  case (AInstall pid spec)
  show ?thesis
  proof (cases "xState r = StateAccepting \<and> map_of (xPending r) pid \<noteq> None")
    case False
    then show ?thesis using st AInstall by (intro releases_quiet [OF rel]) (auto simp: Install_def split: if_splits)
  next
    case True
    then have fresh: "map_of (xHeap r) pid = None" using tokens_okD(5) [OF ok] by blast
    let ?s = "\<lparr>sSpec = spec, sCloseFn = False, sCloseDone = NotClosing, sTicket = None, sActive = True, sEnd = EndNot\<rparr>"
    have r': "xHeap r' = AList.update pid ?s (xHeap r)" "delivered r' = delivered r" "outbox r' = outbox r"
      "releaseSequences r' = releaseSequences r"
      using st AInstall True by (auto simp: Install_def Let_def split: if_splits)
    show ?thesis
    proof (rule releases_less [OF rel r'(4)])
      show "releasedCount g (xHeap r') = releasedCount g (xHeap r)" for g
        unfolding r'(1) releasedCount_def filter_update_new [OF fresh] by (simp add: counts_def marked_def)
      show "deliverable r' \<subseteq> deliverable r"
        unfolding deliverable_def r' by (auto simp: gomap_simps split: if_splits)
    qed
  qed
next
  case (ABind sid hasFn)
  then show ?thesis using st rel
    by (auto simp: Bind_def split: option.splits if_splits intro!: releases_onScope [OF rel ok] simp: marked_def)
next
  case (ACloseResource sid)
  then show ?thesis using st
    by (auto simp: closeResource_def split: option.splits if_splits intro!: releases_onScope [OF rel ok] simp: marked_def)
next
  case (AEnd sid ticket)
  then show ?thesis using st releases_end [OF rel ok] by simp
next
  case (ASink present)
  have "1 \<le> n \<and> n \<le> sequenceAt g r" if "(g, n) \<in> set (releaseSequences r)" "0 < n" "wf_map (releaseSequences r)" for g n
    using that by (auto simp: sequenceAt_def wf_map_in_set)
  note known = this
  let ?r = "SetReleaseSink present r"
  have seq: "sequenceAt g ?r = sequenceAt g r" for g by (simp add: sequenceAt_def SetReleaseSink_def Let_def)
  have split: "deliverable ?r \<subseteq> deliverable r \<union> {d \<in> set (releaseSequences r). 0 < snd d}"
    by (auto simp: deliverable_def SetReleaseSink_def Let_def split: if_splits)
  have "1 \<le> n \<and> n \<le> sequenceAt g r" if "(g, n) \<in> deliverable ?r" for g n
  proof (cases "(g, n) \<in> deliverable r")
    case True
    then show ?thesis using rel unfolding releases_ok_def by blast
  next
    case False
    then have "(g, n) \<in> set (releaseSequences r)" "0 < n"
      using that split by auto
    then show ?thesis using known rel unfolding releases_ok_def by blast
  qed
  moreover have "xHeap ?r = xHeap r" "releaseSequences ?r = releaseSequences r" by (simp_all add: SetReleaseSink_def Let_def)
  ultimately have "releases_ok ?r" using rel unfolding releases_ok_def seq by auto
  then show ?thesis using st ASink by simp
next
  case (AReplay i)
  then show ?thesis using st
    by (intro releases_quiet [OF rel]) (auto simp: deliverReplay_def split: if_splits dest: in_set_takeD in_set_dropD)
next
  case ADrain
  then show ?thesis using st by (intro releases_quiet [OF rel]) (auto simp: Drain_begin_def split: regState.splits)
next
  case (ADrainStep i)
  have "releases_ok (x\<lparr>drains := ds\<rparr>)" "releases_ok (x\<lparr>xState := y, drains := ds\<rparr>)" if "releases_ok x" for x y ds
    using that by (auto intro: releases_quiet)
  then show ?thesis using st rel releases_start [OF rel ok]
    by (auto simp: ADrainStep drainStep_def split: if_splits drainPhase.splits list.splits)
next
  case AClose
  have "releases_ok (x\<lparr>closer := ds\<rparr>)" "releases_ok (x\<lparr>xState := y, closer := ds\<rparr>)" if "releases_ok x" for x y ds
    using that by (auto intro: releases_quiet)
  then show ?thesis using st rel releases_start [OF rel ok]
    by (auto simp: AClose closeStep_def split: if_splits closePhase.splits list.splits option.splits)
next
  case (AObserve revision)
  then show ?thesis using st by (intro releases_quiet [OF rel]) (auto simp: ObserveBarrier_def split: if_splits)
next
  case AFreeze
  then show ?thesis using st by (intro releases_quiet [OF rel]) (auto simp: FreezeInFlight_def Let_def split: if_splits)
qed

lemma reach_releases: "reg_reach r obs \<Longrightarrow> releases_ok r"
proof (induction rule: reg_reach.induct)
  case (step r obs act r')
  then show ?case using releases_action reach_tokens by blast
qed (simp add: releases_ok_def newRegistry_def sequenceAt_def releasedCount_def deliverable_def)

section \<open>A resource is closed before its release counts\<close>

definition scope_ok :: "scope \<Rightarrow> bool" where
  "scope_ok s \<longleftrightarrow> (sEnd s \<noteq> EndNot \<longrightarrow> \<not> sActive s) \<and> (sEnd s \<notin> {EndNot, EndDeactivated} \<longrightarrow> \<not> sCloseFn s)
     \<and> (sEnd s \<notin> {EndNot, EndDeactivated, EndWaiting} \<longrightarrow> sCloseDone s \<noteq> CloseRunning)"

definition scopes_ok :: "execRegistry \<Rightarrow> bool" where
  "scopes_ok r \<longleftrightarrow> (\<forall>k s. map_of (xHeap r) k = Some s \<longrightarrow> scope_ok s)"

lemma scopes_same: "scopes_ok r \<Longrightarrow> xHeap r' = xHeap r \<Longrightarrow> scopes_ok r'"
  by (simp add: scopes_ok_def)

lemma scopes_onScope:
  assumes "scopes_ok r" and "\<And>s. map_of (xHeap r) sid = Some s \<Longrightarrow> scope_ok s \<Longrightarrow> scope_ok (f s)"
  shows "scopes_ok (onScope sid f r)"
  using assms by (auto simp: scopes_ok_def reg_fields split: if_splits)

lemma scopes_start: "scopes_ok r \<Longrightarrow> scopes_ok (startBoundResourceClose sid r)"
  unfolding startBoundResourceClose_def by (rule scopes_onScope) (auto simp: scope_ok_def)

lemma scopes_end:
  assumes sc: "scopes_ok r" and ok: "tokens_ok r" and st: "endStep sid ticket r = Some r'"
  shows "scopes_ok r'"
proof -
  obtain s where s: "map_of (xHeap r) sid = Some s" using st by (auto simp: endStep_def split: option.splits)
  then have sk: "scope_ok s" using sc by (simp add: scopes_ok_def)
  have other: "scopes_ok (fst (markReleasedLocked (sSpec s) r))" "scopes_ok (r\<lparr>delivered := xs\<rparr>)"
    "scopes_ok (r\<lparr>xScopes := ys\<rparr>)" for xs ys
    by (rule scopes_same [OF sc]; simp add: reg_fields)+
  show ?thesis
  proof (cases "sEnd s")
    case EndDeactivated
    let ?f = "\<lambda>s. s\<lparr>sEnd := (if sCloseDone s = NotClosing then EndClosed else EndWaiting)\<rparr>"
    have "r' = onScope sid ?f (startBoundResourceClose sid r)" using st s EndDeactivated by (simp add: endStep_def)
    moreover have "sEnd t = EndDeactivated \<and> \<not> sCloseFn t \<and> \<not> sActive t"
      if t: "map_of (xHeap (startBoundResourceClose sid r)) sid = Some t" for t
      using t s sk EndDeactivated tokens_okD(6) [OF ok s]
      by (auto simp: startBoundResourceClose_def reg_fields scope_ok_def split: if_splits)
    ultimately show ?thesis by (auto intro!: scopes_onScope [OF scopes_start [OF sc]] simp: scope_ok_def)
  qed (use st s sk sc other in \<open>auto simp: endStep_def split_beta Let_def reg_fields scope_ok_def
      split: option.splits if_splits intro!: scopes_onScope\<close>)
qed

lemma scopes_action:
  assumes sc: "scopes_ok r" and ok: "tokens_ok r" and st: "regAction act r = Some r'"
  shows "scopes_ok r'"
proof (cases act)
  case (AInstall pid spec)
  then show ?thesis using st sc
    by (auto simp: Install_def Let_def scopes_ok_def scope_ok_def gomap_simps split: if_splits)
next
  case (ABind sid hasFn)
  then show ?thesis using st sc
    by (auto simp: Bind_def split: option.splits if_splits intro!: scopes_onScope simp: scope_ok_def)
next
  case (ACloseResource sid)
  then show ?thesis using st sc
    by (auto simp: closeResource_def split: option.splits if_splits intro!: scopes_onScope simp: scope_ok_def)
next
  case (AEnd sid ticket)
  then show ?thesis using st scopes_end [OF sc ok] by simp
next
  case (ADrainStep i)
  have "scopes_ok (x\<lparr>drains := ds\<rparr>)" "scopes_ok (x\<lparr>xState := y, drains := ds\<rparr>)" if "scopes_ok x" for x y ds
    using that by (auto intro: scopes_same)
  then show ?thesis using st sc scopes_start [OF sc]
    by (auto simp: ADrainStep drainStep_def split: if_splits drainPhase.splits list.splits)
next
  case AClose
  have "scopes_ok (x\<lparr>closer := ds\<rparr>)" "scopes_ok (x\<lparr>xState := y, closer := ds\<rparr>)" if "scopes_ok x" for x y ds
    using that by (auto intro: scopes_same)
  then show ?thesis using st sc scopes_start [OF sc]
    by (auto simp: AClose closeStep_def split: if_splits closePhase.splits list.splits option.splits)
qed (use st in \<open>auto intro!: scopes_same [OF sc] simp: BeginDispatch_def Pending_End_def SetReleaseSink_def deliverReplay_def
    Drain_begin_def ObserveBarrier_def FreezeInFlight_def Let_def split: if_splits regState.splits\<close>)

lemma reach_scopes: "reg_reach r obs \<Longrightarrow> scopes_ok r"
proof (induction rule: reg_reach.induct)
  case (step r obs act r')
  then show ?case using scopes_action reach_tokens by blast
qed (simp add: scopes_ok_def newRegistry_def)

section \<open>Claims\<close>

lemma action_quieter:
  assumes ok: "tokens_ok r" and st: "regAction act r = Some r'"
  shows "quieter r r'"
proof (cases act)
  case ABegin
  then show ?thesis using st by (auto simp: BeginDispatch_def quieter_def unclosed_def Let_def split: if_splits)
next
  case (AInstall pid spec)
  then show ?thesis using st quieter_install by (auto split: if_splits)
next
  case (ABind sid hasFn)
  then show ?thesis using st quieter_bind by auto
next
  case (ACloseResource sid)
  then show ?thesis using st by (auto intro!: quieter_onScope simp: closeResource_def split: option.splits if_splits)
next
  case (AEnd sid ticket)
  then show ?thesis using st quieter_end [OF ok] by simp
next
  case (ADrainStep i)
  have "quieter x (x\<lparr>drains := ds\<rparr>)" "quieter x (x\<lparr>xState := StateClosed, drains := ds\<rparr>)" for x ds
    by (simp_all add: quieter_def unclosed_def)
  moreover from this have "quieter r ((startBoundResourceClose sid r)\<lparr>drains := ds\<rparr>)" for sid ds
    using quieter_trans [OF quieter_start [OF ok]] by blast
  ultimately show ?thesis using st by (auto simp: ADrainStep drainStep_def split: if_splits drainPhase.splits list.splits)
next
  case AClose
  have "quieter x (x\<lparr>closer := ds\<rparr>)" "quieter x (x\<lparr>xState := StateClosed, closer := ds\<rparr>)" for x ds
    by (simp_all add: quieter_def unclosed_def)
  moreover from this have "quieter r ((startBoundResourceClose sid r)\<lparr>closer := ds\<rparr>)" for sid ds
    using quieter_trans [OF quieter_start [OF ok]] by blast
  ultimately show ?thesis using st
    by (auto simp: AClose closeStep_def split: if_splits closePhase.splits list.splits option.splits)
qed (use st in \<open>auto simp: Pending_End_def SetReleaseSink_def deliverReplay_def Drain_begin_def ObserveBarrier_def FreezeInFlight_def
    Let_def quieter_def unclosed_def split: if_splits regState.splits\<close>)

lemma drains_kept:
  assumes "regAction act r = Some r'" and "DrainReturned \<in> set (drains r)"
  shows "DrainReturned \<in> set (drains r')"
proof (cases act)
  case (ADrainStep i)
  obtain j where j: "j < length (drains r)" "drains r ! j = DrainReturned" using assms(2) by (auto simp: in_set_conv_nth)
  have st: "drainStep i r = Some r'" using assms(1) ADrainStep by simp
  then have "j \<noteq> i" using j by (auto simp: drainStep_def)
  then have "j < length (drains r')" "drains r' ! j = DrainReturned"
    using st j by (auto simp: drainStep_def reg_fields split: if_splits drainPhase.splits list.splits)
  then show ?thesis by (metis nth_mem)
next
  case (AEnd sid ticket)
  then show ?thesis using assms endStep_fields(4) by simp
qed (use assms in \<open>auto simp: BeginDispatch_def Pending_End_def Install_def SetReleaseSink_def deliverReplay_def closeResource_def
    Drain_begin_def closeStep_def ObserveBarrier_def FreezeInFlight_def Let_def reg_fields
    split: if_splits regState.splits option.splits closePhase.splits list.splits\<close>)

text \<open>Runs of given actions, for evaluation.\<close>

fun regRun :: "regAct list \<Rightarrow> execRegistry \<times> (int \<times> nat) list \<Rightarrow> (execRegistry \<times> (int \<times> nat) list) option" where
  "regRun [] st = Some st"
| "regRun (act # acts) (r, obs) =
     (case regAction act r of None \<Rightarrow> None | Some r' \<Rightarrow> regRun acts (r', obs @ observed act r))"

lemma regRun_reach: "reg_reach r obs \<Longrightarrow> regRun acts (r, obs) = Some (r', obs') \<Longrightarrow> reg_reach r' obs'"
proof (induction acts arbitrary: r obs)
  case (Cons act acts)
  then obtain r1 where r1: "regAction act r = Some r1" "regRun acts (r1, obs @ observed act r) = Some (r', obs')"
    by (auto split: option.splits)
  with Cons.IH reg_reach.step [OF Cons.prems(1) r1(1)] show ?case by blast
qed simp

definition wSpec :: ScopeSpec where
  "wSpec = \<lparr>RequestID = ''r'', CredentialID = ''c'', Model = ''m'', Kind = ''chat'', StartedAt = 7, Accounted = True\<rparr>"

definition wActs :: "regAct list" where
  "wActs = [ABegin, ABegin, AInstall 1 wSpec, ABind 1 True, AObserve 5, ASink True, APendingEnd 2, ADrain, ADrainStep 0, ADrainStep 0,
     ADrainStep 0, AEnd 1 None, AEnd 1 None, ACloseResource 1, AEnd 1 None, AEnd 1 None, AEnd 1 None, AEnd 1 None, AFreeze]"

definition wReg :: "execRegistry \<times> (int \<times> nat) list" where
  "wReg = (case regRun wActs (newRegistry, []) of Some st \<Rightarrow> st | None \<Rightarrow> (newRegistry, []))"

lemma wReg_reach: "reg_reach (fst wReg) (snd wReg)"
proof (cases "regRun wActs (newRegistry, [])")
  case None
  then show ?thesis by (simp add: wReg_def reg_reach.init)
next
  case (Some st)
  then have "reg_reach (fst st) (snd st)" using regRun_reach [OF reg_reach.init, of wActs "fst st" "snd st"] by simp
  then show ?thesis using Some by (simp add: wReg_def)
qed

lemma card_count: "wf_map m \<Longrightarrow> card {k. \<exists>s. map_of m k = Some s \<and> P s} = length (filter (\<lambda>p. P (snd p)) m)"
proof -
  assume wf: "wf_map m"
  have "{k. \<exists>s. map_of m k = Some s \<and> P s} = fst ` set (filter (\<lambda>p. P (snd p)) m)"
    using wf_map_in_set [OF wf] by (auto simp: image_iff)
  moreover have "distinct (map fst (filter (\<lambda>p. P (snd p)) m))" using wf by (simp add: wf_map_def distinct_map_filter)
  ultimately show ?thesis by (metis distinct_card length_map set_map)
qed

text \<open>
  Claim C33. Every accounted execution is released exactly once.  In every state that any interleaving of
  the registry's critical sections reaches, the cumulative sequence of a credential and model equals the number
  of its accounted executions that have been released, no delivered sequence runs ahead of it, and an
  execution is counted only after its bound resource has been closed; once no scope is registered the sequence counts every
  accounted execution ever installed for that credential and model.
\<close>

theorem releases_counted_once:
  assumes "reg_reach r obs"
  shows "sequenceAt g r = int (card {k. \<exists>s. map_of (xHeap r) k = Some s \<and> counts g s})
    \<and> (\<forall>n. (g, n) \<in> set (delivered r) \<longrightarrow> 1 \<le> n \<and> n \<le> sequenceAt g r)
    \<and> (\<forall>k s. map_of (xHeap r) k = Some s \<and> counts g s \<longrightarrow> \<not> sCloseFn s \<and> sCloseDone s \<noteq> CloseRunning)
    \<and> (xScopes r = [] \<longrightarrow> sequenceAt g r =
        int (card {k. \<exists>s. map_of (xHeap r) k = Some s \<and> Accounted (sSpec s) \<and> releaseGroupOf (sSpec s) = g}))"
proof (intro conjI allI impI)
  have rel: "releases_ok r" and ok: "tokens_ok r" using reach_releases reach_tokens assms by blast+
  show eq: "sequenceAt g r = int (card {k. \<exists>s. map_of (xHeap r) k = Some s \<and> counts g s})"
    unfolding card_count [OF tokens_okD(3) [OF ok]] using rel unfolding releases_ok_def releasedCount_def by blast
  show "1 \<le> n" "n \<le> sequenceAt g r" if "(g, n) \<in> set (delivered r)" for n
    using rel that unfolding releases_ok_def deliverable_def by blast+
  show "\<not> sCloseFn s" "sCloseDone s \<noteq> CloseRunning" if "map_of (xHeap r) k = Some s \<and> counts g s" for k s
    using reach_scopes [OF assms] that
    by (auto simp: scopes_ok_def scope_ok_def counts_def marked_def split: endPhase.splits)
  show "sequenceAt g r = int (card {k. \<exists>s. map_of (xHeap r) k = Some s \<and> Accounted (sSpec s) \<and> releaseGroupOf (sSpec s) = g})"
    if "xScopes r = []"
  proof -
    have "map_of (xHeap r) k = Some s \<Longrightarrow> sEnd s = EndDone" for k s using tokens_okD(7) [OF ok, of k] that by auto
    then have "{k. \<exists>s. map_of (xHeap r) k = Some s \<and> counts g s} =
        {k. \<exists>s. map_of (xHeap r) k = Some s \<and> Accounted (sSpec s) \<and> releaseGroupOf (sSpec s) = g}"
      by (auto simp: counts_def marked_def)
    then show ?thesis using eq by simp
  qed
qed

theorem releases_counted_once_witness:
  "map fst (xHeap (fst wReg)) = [1] \<and> xScopes (fst wReg) = [] \<and> delivered (fst wReg) = [((''c'', ''m''), 1)]
   \<and> (let r = fst wReg; g = (''c'', ''m'') in
      sequenceAt g r = int (card {k. \<exists>s. map_of (xHeap r) k = Some s \<and> counts g s})
    \<and> (\<forall>n. (g, n) \<in> set (delivered r) \<longrightarrow> 1 \<le> n \<and> n \<le> sequenceAt g r)
    \<and> (\<forall>k s. map_of (xHeap r) k = Some s \<and> counts g s \<longrightarrow> \<not> sCloseFn s \<and> sCloseDone s \<noteq> CloseRunning)
    \<and> (xScopes r = [] \<longrightarrow> sequenceAt g r =
        int (card {k. \<exists>s. map_of (xHeap r) k = Some s \<and> Accounted (sSpec s) \<and> releaseGroupOf (sSpec s) = g})))"
proof (intro conjI)
  show "map fst (xHeap (fst wReg)) = [1]" "xScopes (fst wReg) = []" "delivered (fst wReg) = [((''c'', ''m''), 1)]" by code_simp+
qed (unfold Let_def, rule releases_counted_once [OF wReg_reach])

text \<open>
  Claim C34. A finished drain leaves nothing behind.  In every reachable state in which some drain has
  returned without an error, no dispatch is pending, no execution is registered, every execution ever
  installed has ended with its resource closed, and the registry refuses dispatches and stays closed through every further
  section.
\<close>

theorem drained_registry_is_empty:
  assumes "reg_reach r obs" and "DrainReturned \<in> set (drains r)"
  shows "xState r = StateClosed \<and> xPending r = [] \<and> xScopes r = [] \<and> snd (BeginDispatch r) = Inl ErrRegistryNotAccepting
    \<and> (\<forall>k s. map_of (xHeap r) k = Some s \<longrightarrow> sEnd s = EndDone \<and> \<not> sCloseFn s \<and> sCloseDone s \<noteq> CloseRunning)
    \<and> (\<forall>act r'. regAction act r = Some r' \<longrightarrow> xState r' = StateClosed \<and> xPending r' = [] \<and> xScopes r' = [])"
proof -
  have empty: "xState q = StateClosed \<and> xPending q = [] \<and> xScopes q = []"
    if "reg_reach q o'" "DrainReturned \<in> set (drains q)" for q o'
    using reach_shutdown [OF that(1)] that(2) by (fastforce simp: shutdown_ok_def list_all_iff)
  note E = empty [OF assms]
  have ended: "sEnd s = EndDone" if "map_of (xHeap r) k = Some s" for k s
    using tokens_okD(7) [OF reach_tokens [OF assms(1)], of k] E that by auto
  have "\<not> sCloseFn s \<and> sCloseDone s \<noteq> CloseRunning" if "map_of (xHeap r) k = Some s" for k s
    using reach_scopes [OF assms(1)] that ended [OF that] by (auto simp: scopes_ok_def scope_ok_def)
  moreover have "xState r' = StateClosed \<and> xPending r' = [] \<and> xScopes r' = []" if "regAction act r = Some r'" for act r'
    by (rule empty [OF reg_reach.step [OF assms(1) that] drains_kept [OF that assms(2)]])
  ultimately show ?thesis using E ended by (simp add: BeginDispatch_def)
qed

definition wDrained :: "execRegistry \<times> (int \<times> nat) list" where
  "wDrained = (case regRun (wActs @ [ADrainStep 0]) (newRegistry, []) of Some st \<Rightarrow> st | None \<Rightarrow> (newRegistry, []))"

lemma wDrained_reach: "reg_reach (fst wDrained) (snd wDrained)"
  by (cases "regRun (wActs @ [ADrainStep 0]) (newRegistry, [])")
    (auto simp: wDrained_def reg_reach.init intro: regRun_reach [OF reg_reach.init])

theorem drained_registry_is_empty_witness:
  "drains (fst wDrained) = [DrainReturned] \<and> map fst (xHeap (fst wDrained)) = [1]
   \<and> (let r = fst wDrained in
    xState r = StateClosed \<and> xPending r = [] \<and> xScopes r = [] \<and> snd (BeginDispatch r) = Inl ErrRegistryNotAccepting
    \<and> (\<forall>k s. map_of (xHeap r) k = Some s \<longrightarrow> sEnd s = EndDone \<and> \<not> sCloseFn s \<and> sCloseDone s \<noteq> CloseRunning)
    \<and> (\<forall>act r'. regAction act r = Some r' \<longrightarrow> xState r' = StateClosed \<and> xPending r' = [] \<and> xScopes r' = []))"
proof (intro conjI)
  show d: "drains (fst wDrained) = [DrainReturned]" and "map fst (xHeap (fst wDrained)) = [1]" by code_simp+
qed (unfold Let_def, rule drained_registry_is_empty [OF wDrained_reach], code_simp)

text \<open>
  Claim C35. Shutting down closes every resource.  In every reachable state in which a drain has passed its
  closing loop, or the close has returned, each registered execution that had bound a resource has had its closing begun;
  none can be bound afterwards, so no resource escapes the shutdown whatever calls ran beside it.
\<close>

theorem shutdown_closes_every_resource:
  assumes "reg_reach r obs" and "DrainWaiting \<in> set (drains r) \<or> closer r = CloseReturned"
  shows "xState r \<noteq> StateAccepting \<and> unclosed r = {} \<and> (\<forall>act r'. regAction act r = Some r' \<longrightarrow> unclosed r' = {})
    \<and> (\<forall>sid hasFn. snd (Bind sid hasFn r) \<noteq> None)"
proof -
  have sd: "shutdown_ok r" by (rule reach_shutdown [OF assms(1)])
  have st: "xState r \<noteq> StateAccepting" "unclosed r = {}"
    using assms(2) sd by (auto simp: shutdown_ok_def list_all_iff)
  moreover have "unclosed r' = {}" if "regAction act r = Some r'" for act r'
    using action_quieter [OF reach_tokens [OF assms(1)] that] st by (auto simp: quieter_def)
  moreover have "snd (Bind sid hasFn r) \<noteq> None" for sid hasFn
    using st(1) by (simp add: Bind_def split: option.splits)
  ultimately show ?thesis by blast
qed

definition wWaiting :: "execRegistry \<times> (int \<times> nat) list" where
  "wWaiting = (case regRun (take 11 wActs) (newRegistry, []) of Some st \<Rightarrow> st | None \<Rightarrow> (newRegistry, []))"

lemma wWaiting_reach: "reg_reach (fst wWaiting) (snd wWaiting)"
  by (cases "regRun (take 11 wActs) (newRegistry, [])")
    (auto simp: wWaiting_def reg_reach.init intro: regRun_reach [OF reg_reach.init])

theorem shutdown_closes_every_resource_witness:
  "drains (fst wWaiting) = [DrainWaiting] \<and> map fst (xScopes (fst wWaiting)) = [1]
   \<and> (let r = fst wWaiting in
    xState r \<noteq> StateAccepting \<and> unclosed r = {} \<and> (\<forall>act r'. regAction act r = Some r' \<longrightarrow> unclosed r' = {})
    \<and> (\<forall>sid hasFn. snd (Bind sid hasFn r) \<noteq> None))"
proof (intro conjI)
  show "drains (fst wWaiting) = [DrainWaiting]" "map fst (xScopes (fst wWaiting)) = [1]" by code_simp+
qed (unfold Let_def, rule shutdown_closes_every_resource [OF wWaiting_reach], code_simp)

text \<open>
  Claim C36. A published barrier is honest.  Whenever a snapshot carries a barrier revision, every dispatch
  begun before that barrier (or an earlier one) was first observed has been resolved: it is no longer pending, and if it was installed and
  has not ended, it is among the snapshot's executions.
\<close>

theorem barrier_covers_earlier_dispatches:
  assumes "reg_reach r obs" and "(revision, n) \<in> set obs" and "revision \<le> fBarrierRevision (snd (FreezeInFlight r))"
    and "k \<le> n"
  shows "map_of (xPending r) k = None
    \<and> (case map_of (xHeap r) k of None \<Rightarrow> True
       | Some s \<Rightarrow> sEnd s = EndDone \<or> sSpec s \<in> set (fExecutions (snd (FreezeInFlight r))))"
proof -
  let ?r' = "fst (FreezeInFlight r)"
  have r': "reg_reach ?r' (obs @ observed AFreeze r)" by (rule reg_reach.step [OF assms(1), of AFreeze]) simp
  have same: "xPending ?r' = xPending r" "xHeap ?r' = xHeap r" "xScopes ?r' = xScopes r"
    by (simp_all add: FreezeInFlight_def Let_def)
  have "fBarrierRevision (snd (FreezeInFlight r)) = publishedBarrier ?r'" by (simp add: FreezeInFlight_def Let_def)
  then have "\<forall>j. map_of (xPending ?r') j \<noteq> None \<longrightarrow> n < j"
    using reach_barriers [OF r'] assms(2,3) unfolding barriers_ok_def by auto
  then have "map_of (xPending r) k = None" using assms(4) unfolding same by (metis not_le)
  moreover have "sSpec s \<in> set (fExecutions (snd (FreezeInFlight r)))" if s: "map_of (xHeap r) k = Some s" "sEnd s \<noteq> EndDone" for s
  proof -
    have "map_of (xScopes r) k \<noteq> None" using tokens_okD(7) [OF reach_tokens [OF assms(1)], of k] s by blast
    then obtain u where "(k, u) \<in> set (xScopes r)" by (auto dest: map_of_SomeD)
    then show ?thesis using s(1) by (force simp: FreezeInFlight_def Let_def List.map_filter_def image_iff)
  qed
  ultimately show ?thesis by (auto split: option.splits)
qed

definition wObserved :: "execRegistry \<times> (int \<times> nat) list" where
  "wObserved = (case regRun (take 7 wActs) (newRegistry, []) of Some st \<Rightarrow> st | None \<Rightarrow> (newRegistry, []))"

lemma wObserved_reach: "reg_reach (fst wObserved) (snd wObserved)"
  by (cases "regRun (take 7 wActs) (newRegistry, [])")
    (auto simp: wObserved_def reg_reach.init intro: regRun_reach [OF reg_reach.init])

theorem barrier_covers_earlier_dispatches_witness:
  "snd wObserved = [(5, 2)] \<and> fBarrierRevision (snd (FreezeInFlight (fst wObserved))) = 5
   \<and> map_of (xPending (fst wObserved)) 1 = None
   \<and> (case map_of (xHeap (fst wObserved)) 1 of None \<Rightarrow> True
       | Some s \<Rightarrow> sEnd s = EndDone \<or> sSpec s \<in> set (fExecutions (snd (FreezeInFlight (fst wObserved)))))"
proof -
  have 1: "snd wObserved = [(5, 2)]" "fBarrierRevision (snd (FreezeInFlight (fst wObserved))) = 5" by code_simp+
  with barrier_covers_earlier_dispatches [OF wObserved_reach, of 5 2 1] show ?thesis by simp
qed

end
