(* ===== verification/ModelRegistry.thy ===== *)
theory ModelRegistry
  imports Thinking
begin

text \<open>
  The model registry of \<open>src/internal/registry/model_registry.go\<close>: which client (credential)
  serves which model, through which provider, with reference counts per model and per provider,
  quota and suspension marks, registration epochs that fence late writers, an index of the clients
  that advertise web search, and a cache of the model listing.

  Every operation of the source takes the registry's mutex, so each is one function on the whole
  state.  A pointer to a registration or to a model's data is owned by the map that holds it
  (\<open>cloneModelInfo\<close> copies deeply wherever data crosses a map), so records are plain values and
  copying is the identity.  A \<open>nil\<close> map and an empty one behave alike in every operation and are
  both the empty list.  Stored times, provider infos and client infos are never \<open>nil\<close>: every
  write stores the address of a fresh value.  Debug logging is left out; the callbacks started by
  the hook are collected in the order they are launched.
\<close>

section \<open>Data\<close>

record NativeCapabilities =
  WebSearch :: "bool option"
  ToolSearch :: "bool option"

text \<open>\<open>registry.ModelInfo\<close>: the fields the thinking package reads come first.\<close>

record RegModelInfo = ModelInfo +
  MetadataModelID :: string
  ExplicitThinking :: bool
  ExplicitInputModalities :: bool
  Object :: string
  Created :: int
  OwnedBy :: string
  DisplayName :: string
  MName :: string
  Version :: string
  Description :: string
  InputTokenLimit :: int
  OutputTokenLimit :: int
  SupportedGenerationMethods :: "string list"
  ContextLength :: int
  MaxContextLength :: int
  MaxCompletionTokens :: int
  SupportedParameters :: "string list"
  SupportedInputModalities :: "string list"
  SupportedOutputModalities :: "string list"
  SupportsWebSearch :: bool
  SupportConfigurationUpdate :: bool
  MNativeCapabilities :: "NativeCapabilities option"
  OverrideHeader :: "(string, string) gomap option"
  IsCompat :: bool

record ModelRegistration =
  Info :: "RegModelInfo option"
  InfoByProvider :: "(string, RegModelInfo) gomap"
  Count :: int
  LastUpdated :: gotime
  QuotaExceededClients :: "(string, gotime) gomap"
  Providers :: "(string, int) gomap"
  SuspendedClients :: "(string, string) gomap"

text \<open>A value of the \<open>map[string]any\<close> that a listing is made of.\<close>

datatype listingValue = LStr string | LInt int | LStrs "string list"

type_synonym listing = "(string, listingValue) gomap"

record availableModelsCacheEntry =
  cmodels :: "listing list"
  expiresAt :: gotime

datatype HookEvent =
    OnModelsRegistered string string "RegModelInfo list"
  | OnModelsUnregistered string string

record ModelRegistry =
  models :: "(string, ModelRegistration) gomap"
  clientModels :: "(string, string list) gomap"
  clientModelInfos :: "(string, (string, RegModelInfo) gomap) gomap"
  clientProviders :: "(string, string) gomap"
  clientEpochs :: "(string, nat) gomap"
  clientGenerations :: "(string, nat) gomap"
  availableModelsCache :: "(string, availableModelsCacheEntry) gomap"
  webSearchClientCounts :: "(string, int) gomap"
  webSearchProviderCounts :: "(string, (string, int) gomap) gomap"
  generation :: nat
  registrationEpoch :: nat
  hook :: bool
  launched :: "HookEvent list"

definition newModelRegistry :: ModelRegistry where
  "newModelRegistry =
     \<lparr>models = [], clientModels = [], clientModelInfos = [], clientProviders = [],
      clientEpochs = [], clientGenerations = [], availableModelsCache = [],
      webSearchClientCounts = [], webSearchProviderCounts = [], generation = 0,
      registrationEpoch = 0, hook = False, launched = []\<rparr>"

text \<open>Reading a Go map of numbers, strings or maps gives the zero value for a missing key.\<close>

definition numAt :: "('k, 'n :: zero) gomap \<Rightarrow> 'k \<Rightarrow> 'n" where
  "numAt m k = (case map_of m k of None \<Rightarrow> 0 | Some n \<Rightarrow> n)"

definition listAt :: "('k, 'x list) gomap \<Rightarrow> 'k \<Rightarrow> 'x list" where
  "listAt m k = (case map_of m k of None \<Rightarrow> [] | Some l \<Rightarrow> l)"

section \<open>Cache invalidation and hooks\<close>

definition invalidateAvailableModelsCacheLocked :: "ModelRegistry \<Rightarrow> ModelRegistry" where
  "invalidateAvailableModelsCacheLocked r =
     r\<lparr>generation := wrapU64 (generation r + 1), availableModelsCache := []\<rparr>"

text \<open>The first entry of every model with an identifier.\<close>

fun cloneUniqueLoop :: "string list \<Rightarrow> RegModelInfo option list \<Rightarrow> RegModelInfo list" where
  "cloneUniqueLoop seen [] = []"
| "cloneUniqueLoop seen (None # ms) = cloneUniqueLoop seen ms"
| "cloneUniqueLoop seen (Some m # ms) =
     (if MID m = [] \<or> MID m \<in> set seen then cloneUniqueLoop seen ms
      else m # cloneUniqueLoop (MID m # seen) ms)"

definition cloneModelInfosUnique :: "RegModelInfo option list \<Rightarrow> RegModelInfo list" where
  "cloneModelInfosUnique ms = cloneUniqueLoop [] ms"

definition triggerModelsRegistered ::
  "string \<Rightarrow> string \<Rightarrow> RegModelInfo option list \<Rightarrow> ModelRegistry \<Rightarrow> ModelRegistry" where
  "triggerModelsRegistered provider clientID ms r =
     (if hook r
      then r\<lparr>launched := launched r @ [OnModelsRegistered provider clientID (cloneModelInfosUnique ms)]\<rparr>
      else r)"

definition triggerModelsUnregistered :: "string \<Rightarrow> string \<Rightarrow> ModelRegistry \<Rightarrow> ModelRegistry" where
  "triggerModelsUnregistered provider clientID r =
     (if hook r then r\<lparr>launched := launched r @ [OnModelsUnregistered provider clientID]\<rparr> else r)"

definition SetHook :: "bool \<Rightarrow> ModelRegistry \<Rightarrow> ModelRegistry" where
  "SetHook h r = r\<lparr>hook := h\<rparr>"

section \<open>The web search index\<close>

definition clientInfo :: "ModelRegistry \<Rightarrow> string \<Rightarrow> string \<Rightarrow> RegModelInfo option" where
  "clientInfo r clientID modelID = map_of (listAt (clientModelInfos r) clientID) modelID"

definition advertises :: "ModelRegistry \<Rightarrow> string \<Rightarrow> string \<Rightarrow> bool" where
  "advertises r clientID modelID =
     (case clientInfo r clientID modelID of None \<Rightarrow> False | Some info \<Rightarrow> SupportsWebSearch info)"

definition hasClientSupportingWebSearchLocked ::
  "ModelRegistry \<Rightarrow> string \<Rightarrow> string \<Rightarrow> string \<Rightarrow> bool" where
  "hasClientSupportingWebSearchLocked r modelID provider excludeClientID =
     (if provider \<noteq> [] then
        (let count = numAt (listAt (webSearchProviderCounts r) modelID) provider
         in if count \<le> 0 then False
            else (let count' = (if listAt (clientProviders r) excludeClientID = provider \<and>
                                   advertises r excludeClientID modelID
                                then count - 1 else count)
                  in 0 < count'))
      else
        (let count = numAt (webSearchClientCounts r) modelID
         in if count \<le> 0 then False
            else (let count' = (if advertises r excludeClientID modelID then count - 1 else count)
                  in 0 < count')))"

definition incrementWebSearchCountLocked ::
  "string \<Rightarrow> string \<Rightarrow> ModelRegistry \<Rightarrow> ModelRegistry" where
  "incrementWebSearchCountLocked modelID provider r =
     (if modelID = [] then r
      else
        (let r1 = r\<lparr>webSearchClientCounts :=
               AList.update modelID (numAt (webSearchClientCounts r) modelID + 1) (webSearchClientCounts r)\<rparr>
         in if provider = [] then r1
            else
              (let counts = listAt (webSearchProviderCounts r1) modelID
               in r1\<lparr>webSearchProviderCounts :=
                    AList.update modelID (AList.update provider (numAt counts provider + 1) counts)
                      (webSearchProviderCounts r1)\<rparr>)))"

definition decrementCount :: "'k \<Rightarrow> ('k, int) gomap \<Rightarrow> ('k, int) gomap" where
  "decrementCount k m =
     (if 1 < numAt m k then AList.update k (numAt m k - 1) m else AList.delete k m)"

definition decrementWebSearchCountLocked ::
  "string \<Rightarrow> string \<Rightarrow> ModelRegistry \<Rightarrow> ModelRegistry" where
  "decrementWebSearchCountLocked modelID provider r =
     (if modelID = [] then r
      else
        (let r1 = r\<lparr>webSearchClientCounts := decrementCount modelID (webSearchClientCounts r)\<rparr>
         in if provider = [] then r1
            else
              (case map_of (webSearchProviderCounts r1) modelID of
                 None \<Rightarrow> r1
               | Some counts \<Rightarrow>
                   (let counts' = decrementCount provider counts
                    in r1\<lparr>webSearchProviderCounts :=
                         (if counts' = [] then AList.delete modelID (webSearchProviderCounts r1)
                          else AList.update modelID counts' (webSearchProviderCounts r1))\<rparr>))))"

definition dropClientWebSearchCountsLocked :: "string \<Rightarrow> ModelRegistry \<Rightarrow> ModelRegistry" where
  "dropClientWebSearchCountsLocked clientID r =
     (let provider = listAt (clientProviders r) clientID
      in fold (\<lambda>(modelID, info) s. if SupportsWebSearch info
                                    then decrementWebSearchCountLocked modelID provider s else s)
           (listAt (clientModelInfos r) clientID) r)"

definition addClientWebSearchCountsLocked :: "string \<Rightarrow> ModelRegistry \<Rightarrow> ModelRegistry" where
  "addClientWebSearchCountsLocked clientID r =
     (let provider = listAt (clientProviders r) clientID
      in fold (\<lambda>(modelID, info) s. if SupportsWebSearch info
                                    then incrementWebSearchCountLocked modelID provider s else s)
           (listAt (clientModelInfos r) clientID) r)"

section \<open>One registration\<close>

definition setWebSearch :: "bool \<Rightarrow> RegModelInfo \<Rightarrow> RegModelInfo" where
  "setWebSearch b info = info\<lparr>SupportsWebSearch := b\<rparr>"

text \<open>\<open>if reg.InfoByProvider[p] != nil { reg.InfoByProvider[p].SupportsWebSearch = b }\<close>.\<close>

definition refreshProviderInfo :: "string \<Rightarrow> bool \<Rightarrow> ModelRegistration \<Rightarrow> ModelRegistration" where
  "refreshProviderInfo p b reg =
     (case map_of (InfoByProvider reg) p of
        None \<Rightarrow> reg
      | Some info \<Rightarrow> reg\<lparr>InfoByProvider := AList.update p (setWebSearch b info) (InfoByProvider reg)\<rparr>)"

definition refreshInfo :: "bool \<Rightarrow> ModelRegistration \<Rightarrow> ModelRegistration" where
  "refreshInfo b reg = reg\<lparr>Info := map_option (setWebSearch b) (Info reg)\<rparr>"

definition setRegistration :: "string \<Rightarrow> ModelRegistration \<Rightarrow> ModelRegistry \<Rightarrow> ModelRegistry" where
  "setRegistration modelID reg r = r\<lparr>models := AList.update modelID reg (models r)\<rparr>"

definition addModelRegistration ::
  "string \<Rightarrow> string \<Rightarrow> RegModelInfo option \<Rightarrow> gotime \<Rightarrow> string \<Rightarrow> ModelRegistry \<Rightarrow> ModelRegistry" where
  "addModelRegistration modelID provider model now excludeClientID r =
     (case model of
        None \<Rightarrow> r
      | Some m \<Rightarrow>
          if modelID = [] then r
          else
            (case map_of (models r) modelID of
               Some existing \<Rightarrow>
                 (let hasWebSearch = SupportsWebSearch m \<or>
                        hasClientSupportingWebSearchLocked r modelID [] excludeClientID;
                      e1 = existing\<lparr>Count := Count existing + 1, LastUpdated := now,
                             Info := Some (setWebSearch hasWebSearch m)\<rparr>;
                      hasProvWebSearch = SupportsWebSearch m \<or>
                        hasClientSupportingWebSearchLocked r modelID provider excludeClientID;
                      e2 = (if provider = [] then e1
                            else e1\<lparr>Providers :=
                                       AList.update provider (numAt (Providers e1) provider + 1) (Providers e1),
                                     InfoByProvider :=
                                       AList.update provider (setWebSearch hasProvWebSearch m) (InfoByProvider e1)\<rparr>)
                  in setRegistration modelID e2 r)
             | None \<Rightarrow>
                 setRegistration modelID
                   \<lparr>Info = Some m,
                    InfoByProvider = (if provider = [] then [] else [(provider, m)]),
                    Count = 1, LastUpdated = now, QuotaExceededClients = [],
                    Providers = (if provider = [] then [] else [(provider, 1)]),
                    SuspendedClients = []\<rparr> r))"

definition forgetClient :: "string \<Rightarrow> ModelRegistration \<Rightarrow> ModelRegistration" where
  "forgetClient clientID reg =
     reg\<lparr>QuotaExceededClients := AList.delete clientID (QuotaExceededClients reg),
         SuspendedClients := AList.delete clientID (SuspendedClients reg)\<rparr>"

text \<open>One provider reference less; with the last one the provider's model data goes as well.\<close>

definition releaseProvider :: "string \<Rightarrow> ModelRegistration \<Rightarrow> ModelRegistration" where
  "releaseProvider provider reg =
     (case map_of (Providers reg) provider of
        None \<Rightarrow> reg
      | Some count \<Rightarrow>
          if count \<le> 1
          then reg\<lparr>Providers := AList.delete provider (Providers reg),
                   InfoByProvider := AList.delete provider (InfoByProvider reg)\<rparr>
          else reg\<lparr>Providers := AList.update provider (count - 1) (Providers reg)\<rparr>)"

text \<open>
  The tail shared by both removals: with no client left the registration goes, otherwise the
  capabilities are recomputed without the leaving client.
\<close>

definition settleRemoval ::
  "string \<Rightarrow> string \<Rightarrow> string \<Rightarrow> bool \<Rightarrow> ModelRegistration \<Rightarrow> ModelRegistry \<Rightarrow> ModelRegistry" where
  "settleRemoval clientID modelID provider named reg r =
     (if Count reg \<le> 0 then r\<lparr>models := AList.delete modelID (models r)\<rparr>
      else
        (let g1 = refreshInfo (hasClientSupportingWebSearchLocked r modelID [] clientID) reg;
             g2 = (if named
                   then refreshProviderInfo provider
                          (hasClientSupportingWebSearchLocked r modelID provider clientID) g1
                   else g1)
         in setRegistration modelID g2 r))"

definition removeModelRegistration ::
  "string \<Rightarrow> string \<Rightarrow> string \<Rightarrow> gotime \<Rightarrow> bool \<Rightarrow> ModelRegistry \<Rightarrow> ModelRegistry" where
  "removeModelRegistration clientID modelID provider now preserveState r =
     (case map_of (models r) modelID of
        None \<Rightarrow> r
      | Some registration \<Rightarrow>
          (let g1 = registration\<lparr>Count := Count registration - 1, LastUpdated := now\<rparr>;
               g2 = (if preserveState then g1 else forgetClient clientID g1);
               g3 = (if Count g2 < 0 then g2\<lparr>Count := 0\<rparr> else g2);
               g4 = (if provider \<noteq> [] then releaseProvider provider g3 else g3)
           in settleRemoval clientID modelID provider (provider \<noteq> []) g4 r))"

text \<open>Metadata of a client without models: capabilities are refreshed before it is discarded.\<close>

definition clearOrphanedClientModelInfosLocked :: "string \<Rightarrow> ModelRegistry \<Rightarrow> ModelRegistry" where
  "clearOrphanedClientModelInfosLocked clientID r =
     (let provider = map_of (clientProviders r) clientID;
          r1 = fold (\<lambda>(modelID, _) s.
                 case map_of (models s) modelID of
                   None \<Rightarrow> s
                 | Some reg \<Rightarrow>
                     (let g1 = refreshInfo (hasClientSupportingWebSearchLocked s modelID [] clientID) reg;
                          g2 = (case provider of
                                  None \<Rightarrow> g1
                                | Some p \<Rightarrow> refreshProviderInfo p
                                    (hasClientSupportingWebSearchLocked s modelID p clientID) g1)
                      in setRegistration modelID g2 s))
               (listAt (clientModelInfos r) clientID) r;
          r2 = dropClientWebSearchCountsLocked clientID r1
      in r2\<lparr>clientModelInfos := AList.delete clientID (clientModelInfos r2)\<rparr>)"

section \<open>Unregistering a client\<close>

definition bumpClient :: "string \<Rightarrow> ModelRegistry \<Rightarrow> ModelRegistry" where
  "bumpClient clientID r =
     r\<lparr>clientEpochs :=
          AList.update clientID (wrapU64 (numAt (clientEpochs r) clientID + 1)) (clientEpochs r),
        registrationEpoch := wrapU64 (registrationEpoch r + 1)\<rparr>"

definition unregisterModelStep ::
  "string \<Rightarrow> string option \<Rightarrow> gotime \<Rightarrow> string \<Rightarrow> ModelRegistry \<Rightarrow> ModelRegistry" where
  "unregisterModelStep clientID provider now modelID r =
     (case map_of (models r) modelID of
        None \<Rightarrow> r
      | Some registration \<Rightarrow>
          (let g1 = registration\<lparr>Count := Count registration - 1, LastUpdated := now\<rparr>;
               g2 = forgetClient clientID g1;
               g3 = (case provider of None \<Rightarrow> g2 | Some p \<Rightarrow> releaseProvider p g2)
           in settleRemoval clientID modelID (case provider of None \<Rightarrow> [] | Some p \<Rightarrow> p)
                (provider \<noteq> None) g3 r))"

definition unregisterClientInternal :: "string \<Rightarrow> gotime \<Rightarrow> ModelRegistry \<Rightarrow> ModelRegistry" where
  "unregisterClientInternal clientID now r0 =
     (let r1 = bumpClient clientID r0;
          r = r1\<lparr>clientGenerations :=
                AList.update clientID (wrapU64 (numAt (clientGenerations r1) clientID + 1))
                  (clientGenerations r1)\<rparr>;
          provider = map_of (clientProviders r) clientID
      in case map_of (clientModels r) clientID of
           None \<Rightarrow>
             (let r2 = clearOrphanedClientModelInfosLocked clientID r
              in if provider \<noteq> None
                 then r2\<lparr>clientProviders := AList.delete clientID (clientProviders r2)\<rparr> else r2)
         | Some ms \<Rightarrow>
             (let r2 = fold (unregisterModelStep clientID provider now) ms r;
                  r3 = dropClientWebSearchCountsLocked clientID r2;
                  r4 = r3\<lparr>clientModels := AList.delete clientID (clientModels r3),
                          clientModelInfos := AList.delete clientID (clientModelInfos r3),
                          clientProviders :=
                            (if provider \<noteq> None then AList.delete clientID (clientProviders r3)
                             else clientProviders r3)\<rparr>
              in triggerModelsUnregistered (case provider of None \<Rightarrow> [] | Some p \<Rightarrow> p) clientID r4))"

definition UnregisterClient :: "string \<Rightarrow> gotime \<Rightarrow> ModelRegistry \<Rightarrow> ModelRegistry" where
  "UnregisterClient clientID now r =
     invalidateAvailableModelsCacheLocked (unregisterClientInternal clientID now r)"

section \<open>Registering a client\<close>

text \<open>The first loop over the supplied models.\<close>

record collectedModels =
  uniqueModelIDs :: "string list"
  rawModelIDs :: "string list"
  newModels :: "(string, RegModelInfo) gomap"
  newCounts :: "(string, int) gomap"

definition addCount :: "'k \<Rightarrow> ('k, int) gomap \<Rightarrow> ('k, int) gomap" where
  "addCount k m = AList.update k (numAt m k + 1) m"

definition collectModelStep :: "RegModelInfo option \<Rightarrow> collectedModels \<Rightarrow> collectedModels" where
  "collectModelStep model c =
     (case model of
        None \<Rightarrow> c
      | Some m \<Rightarrow>
          if MID m = [] then c
          else
            (let c1 = c\<lparr>rawModelIDs := rawModelIDs c @ [MID m],
                        newCounts := addCount (MID m) (newCounts c)\<rparr>
             in if map_of (newModels c1) (MID m) \<noteq> None then c1
                else c1\<lparr>newModels := AList.update (MID m) m (newModels c1),
                        uniqueModelIDs := uniqueModelIDs c1 @ [MID m]\<rparr>))"

definition collectModels :: "RegModelInfo option list \<Rightarrow> collectedModels" where
  "collectModels ms =
     fold collectModelStep ms \<lparr>uniqueModelIDs = [], rawModelIDs = [], newModels = [], newCounts = []\<rparr>"

text \<open>Client bookkeeping at the end of both kinds of registration.\<close>

definition storeClient ::
  "string \<Rightarrow> string \<Rightarrow> collectedModels \<Rightarrow> ModelRegistry \<Rightarrow> ModelRegistry" where
  "storeClient clientID provider c r =
     addClientWebSearchCountsLocked clientID
       (r\<lparr>clientModels := AList.update clientID (rawModelIDs c) (clientModels r),
          clientModelInfos := AList.update clientID (newModels c) (clientModelInfos r),
          clientProviders :=
            (if provider \<noteq> [] then AList.update clientID provider (clientProviders r)
             else AList.delete clientID (clientProviders r))\<rparr>)"

definition registerFresh ::
  "string \<Rightarrow> string \<Rightarrow> collectedModels \<Rightarrow> gotime \<Rightarrow> ModelRegistry \<Rightarrow> ModelRegistry" where
  "registerFresh clientID provider c now r =
     (let r1 = clearOrphanedClientModelInfosLocked clientID r;
          r2 = fold (\<lambda>modelID. addModelRegistration modelID provider (map_of (newModels c) modelID) now clientID)
                 (rawModelIDs c) r1
      in storeClient clientID provider c r2)"

text \<open>The provider references of models the client keeps, when it moves to another provider.\<close>

definition moveProviderStep ::
  "string \<Rightarrow> string \<Rightarrow> (string, int) gomap \<Rightarrow> string \<times> int \<Rightarrow> ModelRegistry \<Rightarrow> ModelRegistry" where
  "moveProviderStep clientID oldProvider oldCounts idCount r =
     (let id = fst idCount; newCount = snd idCount; oldCount = numAt oldCounts id
      in if newCount = 0 \<or> oldCount = 0 then r
         else
           (let toRemove = (if oldCount < newCount then oldCount else newCount)
            in case map_of (models r) id of
                 None \<Rightarrow> r
               | Some reg \<Rightarrow>
                   (case map_of (Providers reg) oldProvider of
                      None \<Rightarrow> r
                    | Some count \<Rightarrow>
                        if count \<le> toRemove
                        then setRegistration id
                               (reg\<lparr>Providers := AList.delete oldProvider (Providers reg),
                                    InfoByProvider := AList.delete oldProvider (InfoByProvider reg)\<rparr>) r
                        else setRegistration id
                               (refreshProviderInfo oldProvider
                                  (hasClientSupportingWebSearchLocked r id oldProvider clientID)
                                  (reg\<lparr>Providers := AList.update oldProvider (count - toRemove) (Providers reg)\<rparr>)) r)))"

definition removeTimes ::
  "nat \<Rightarrow> string \<Rightarrow> string \<Rightarrow> string \<Rightarrow> gotime \<Rightarrow> bool \<Rightarrow> ModelRegistry \<Rightarrow> ModelRegistry" where
  "removeTimes n clientID modelID provider now keep r =
     (removeModelRegistration clientID modelID provider now keep ^^ n) r"

definition overageStep ::
  "string \<Rightarrow> string \<Rightarrow> (string, int) gomap \<Rightarrow> gotime \<Rightarrow> bool \<Rightarrow> string \<times> int \<Rightarrow> ModelRegistry \<Rightarrow> ModelRegistry" where
  "overageStep clientID oldProvider nCounts now keep idCount r =
     (let id = fst idCount; oldCount = snd idCount; newCount = numAt nCounts id
      in if newCount = 0 \<or> oldCount \<le> newCount then r
         else removeTimes (nat (oldCount - newCount)) clientID id oldProvider now keep r)"

definition additionStep ::
  "string \<Rightarrow> string \<Rightarrow> (string, RegModelInfo) gomap \<Rightarrow> (string, int) gomap \<Rightarrow> gotime \<Rightarrow>
   string \<times> int \<Rightarrow> ModelRegistry \<Rightarrow> ModelRegistry" where
  "additionStep clientID provider nModels oldCounts now idCount r =
     (let id = fst idCount; newCount = snd idCount; oldCount = numAt oldCounts id
      in if newCount \<le> oldCount then r
         else (addModelRegistration id provider (map_of nModels id) now clientID
                 ^^ nat (newCount - oldCount)) r)"

text \<open>Metadata and state of the models that remain associated with the client.\<close>

record reconcileArgs =
  raClient :: string
  raProvider :: string
  raOldProvider :: string
  raOldCounts :: "(string, int) gomap"
  raCollected :: collectedModels
  raNow :: gotime
  raPreserve :: bool

definition providerChanged :: "reconcileArgs \<Rightarrow> bool" where
  "providerChanged a \<longleftrightarrow> raOldProvider a \<noteq> raProvider a"

definition metadataStep :: "reconcileArgs \<Rightarrow> string \<Rightarrow> ModelRegistry \<Rightarrow> ModelRegistry" where
  "metadataStep a modelID r =
     (case (map_of (newModels (raCollected a)) modelID, map_of (models r) modelID) of
        (Some model, Some reg) \<Rightarrow>
          (let clientID = raClient a; provider = raProvider a; oldProvider = raOldProvider a;
               g1 = reg\<lparr>Info := Some (setWebSearch
                      (SupportsWebSearch model \<or> hasClientSupportingWebSearchLocked r modelID [] clientID) model)\<rparr>;
               g2 = (if provider \<noteq> []
                     then g1\<lparr>InfoByProvider := AList.update provider (setWebSearch
                            (SupportsWebSearch model \<or> hasClientSupportingWebSearchLocked r modelID provider clientID)
                            model) (InfoByProvider g1)\<rparr>
                     else g1);
               g3 = (if providerChanged a \<and> oldProvider \<noteq> []
                     then refreshProviderInfo oldProvider
                            (hasClientSupportingWebSearchLocked r modelID oldProvider clientID) g2
                     else g2);
               g4 = g3\<lparr>LastUpdated := raNow a\<rparr>;
               oldCount = numAt (raOldCounts a) modelID;
               newCount = numAt (newCounts (raCollected a)) modelID;
               g5 = (if \<not> raPreserve a \<or> providerChanged a \<or> oldCount = 0
                     then forgetClient clientID g4 else g4);
               overlapCount = (if oldCount < newCount then oldCount else newCount);
               g6 = (if providerChanged a \<and> provider \<noteq> [] \<and> oldCount \<noteq> 0 \<and> 0 < overlapCount
                     then g5\<lparr>Providers :=
                            AList.update provider (numAt (Providers g5) provider + overlapCount) (Providers g5)\<rparr>
                     else g5)
           in setRegistration modelID g6 r)
      | _ \<Rightarrow> r)"

definition reconcileModels :: "reconcileArgs \<Rightarrow> ModelRegistry \<Rightarrow> ModelRegistry" where
  "reconcileModels a r0 =
     (let c = raCollected a; clientID = raClient a; oldProvider = raOldProvider a; oldCounts = raOldCounts a;
          removed = filter (\<lambda>(id, _). numAt (newCounts c) id = 0) oldCounts;
          r1 = (if providerChanged a \<and> oldProvider \<noteq> []
                then fold (moveProviderStep clientID oldProvider oldCounts) (newCounts c) r0 else r0);
          r2 = fold (\<lambda>(id, n). removeTimes (nat n) clientID id oldProvider (raNow a) False) removed r1;
          r3 = fold (overageStep clientID oldProvider (newCounts c) (raNow a)
                       (raPreserve a \<and> \<not> providerChanged a)) oldCounts r2;
          r4 = fold (additionStep clientID (raProvider a) (newModels c) oldCounts (raNow a)) (newCounts c) r3
      in fold (metadataStep a) (uniqueModelIDs c) r4)"

definition registerExisting :: "reconcileArgs \<Rightarrow> ModelRegistry \<Rightarrow> ModelRegistry" where
  "registerExisting a r =
     storeClient (raClient a) (raProvider a) (raCollected a)
       (dropClientWebSearchCountsLocked (raClient a) (reconcileModels a r))"

definition registerClientLocked ::
  "string \<Rightarrow> string \<Rightarrow> RegModelInfo option list \<Rightarrow> bool \<Rightarrow> gotime \<Rightarrow> ModelRegistry \<Rightarrow> ModelRegistry" where
  "registerClientLocked clientID clientProvider ms preserveState now r =
     (let provider = ToLower clientProvider; c = collectModels ms
      in if uniqueModelIDs c = [] then
           (let r1 = unregisterClientInternal clientID now r
            in invalidateAvailableModelsCacheLocked
                 (r1\<lparr>clientModels := AList.delete clientID (clientModels r1),
                     clientModelInfos := AList.delete clientID (clientModelInfos r1),
                     clientProviders := AList.delete clientID (clientProviders r1)\<rparr>))
         else
           (let oldModels = map_of (clientModels r) clientID;
                oldProvider = listAt (clientProviders r) clientID;
                r1 = bumpClient clientID r;
                r2 = (if \<not> preserveState \<or> oldModels = None \<or> oldProvider \<noteq> provider
                      then r1\<lparr>clientGenerations := AList.update clientID 0 (clientGenerations r1)\<rparr>
                      else r1);
                r3 = (case oldModels of
                        None \<Rightarrow> registerFresh clientID provider c now r2
                      | Some olds \<Rightarrow>
                          registerExisting
                            \<lparr>raClient = clientID, raProvider = provider, raOldProvider = oldProvider,
                             raOldCounts = fold addCount olds [], raCollected = c, raNow = now,
                             raPreserve = preserveState\<rparr> r2)
            in triggerModelsRegistered provider clientID ms (invalidateAvailableModelsCacheLocked r3)))"

definition RegisterClient ::
  "string \<Rightarrow> string \<Rightarrow> RegModelInfo option list \<Rightarrow> gotime \<Rightarrow> ModelRegistry \<Rightarrow> ModelRegistry" where
  "RegisterClient clientID clientProvider ms now r =
     registerClientLocked clientID clientProvider ms False now r"

text \<open>
  The fenced variants.  \<open>publish\<close> is a callback of the caller that may refuse; it is \<open>None\<close> for
  \<open>nil\<close> and otherwise its answer.
\<close>

definition RegisterClientIfEpochCurrent ::
  "string \<Rightarrow> string \<Rightarrow> nat \<Rightarrow> RegModelInfo option list \<Rightarrow> bool option \<Rightarrow> gotime \<Rightarrow>
   ModelRegistry \<Rightarrow> bool \<times> ModelRegistry" where
  "RegisterClientIfEpochCurrent clientID clientProvider expectedEpoch ms publish now r =
     (if numAt (clientEpochs r) clientID \<noteq> expectedEpoch \<or> publish \<noteq> Some True then (False, r)
      else (True, registerClientLocked clientID clientProvider ms False now r))"

definition UnregisterClientIfEpochCurrent ::
  "string \<Rightarrow> nat \<Rightarrow> bool option \<Rightarrow> gotime \<Rightarrow> ModelRegistry \<Rightarrow> bool \<times> ModelRegistry" where
  "UnregisterClientIfEpochCurrent clientID expectedEpoch publish now r =
     (if numAt (clientEpochs r) clientID \<noteq> expectedEpoch \<or> publish \<noteq> Some True then (False, r)
      else (True, invalidateAvailableModelsCacheLocked (unregisterClientInternal clientID now r)))"

definition ReplaceClientModels ::
  "string \<Rightarrow> string \<Rightarrow> nat \<Rightarrow> RegModelInfo option list \<Rightarrow> gotime \<Rightarrow>
   ModelRegistry \<Rightarrow> (nat \<times> bool) \<times> ModelRegistry" where
  "ReplaceClientModels clientID clientProvider expectedEpoch ms now r =
     (if numAt (clientEpochs r) clientID \<noteq> expectedEpoch then ((0, False), r)
      else (let r' = registerClientLocked clientID clientProvider ms True now r
            in ((numAt (clientEpochs r') clientID, True), r')))"

end
