(* ===== verification/ModelMarks.thy ===== *)
theory ModelMarks
  imports ModelRegistry
begin

text \<open>
  The second half of \<open>src/internal/registry/model_registry.go\<close>: quota and suspension marks, the
  fenced projection of a credential's state onto its models, capability updates, the availability
  of a model, the listings and the other queries.
\<close>

section \<open>Quota and suspension marks\<close>

definition modelQuotaExceededWindow :: duration where
  "modelQuotaExceededWindow = 5 * Minute"

definition SetModelQuotaExceeded ::
  "string \<Rightarrow> string \<Rightarrow> gotime \<Rightarrow> ModelRegistry \<Rightarrow> ModelRegistry" where
  "SetModelQuotaExceeded clientID modelID now r =
     (case map_of (models r) modelID of
        None \<Rightarrow> r
      | Some reg \<Rightarrow>
          invalidateAvailableModelsCacheLocked
            (setRegistration modelID
               (reg\<lparr>QuotaExceededClients := AList.update clientID now (QuotaExceededClients reg)\<rparr>) r))"

definition ClearModelQuotaExceeded :: "string \<Rightarrow> string \<Rightarrow> ModelRegistry \<Rightarrow> ModelRegistry" where
  "ClearModelQuotaExceeded clientID modelID r =
     (case map_of (models r) modelID of
        None \<Rightarrow> r
      | Some reg \<Rightarrow>
          invalidateAvailableModelsCacheLocked
            (setRegistration modelID
               (reg\<lparr>QuotaExceededClients := AList.delete clientID (QuotaExceededClients reg)\<rparr>) r))"

definition SuspendClientModel ::
  "string \<Rightarrow> string \<Rightarrow> string \<Rightarrow> gotime \<Rightarrow> ModelRegistry \<Rightarrow> ModelRegistry" where
  "SuspendClientModel clientID modelID reason now r =
     (if clientID = [] \<or> modelID = [] then r
      else
        (case map_of (models r) modelID of
           None \<Rightarrow> r
         | Some reg \<Rightarrow>
             if map_of (SuspendedClients reg) clientID \<noteq> None then r
             else invalidateAvailableModelsCacheLocked
                    (setRegistration modelID
                       (reg\<lparr>SuspendedClients := AList.update clientID reason (SuspendedClients reg),
                            LastUpdated := now\<rparr>) r)))"

definition ResumeClientModel ::
  "string \<Rightarrow> string \<Rightarrow> gotime \<Rightarrow> ModelRegistry \<Rightarrow> ModelRegistry" where
  "ResumeClientModel clientID modelID now r =
     (if clientID = [] \<or> modelID = [] then r
      else
        (case map_of (models r) modelID of
           None \<Rightarrow> r
         | Some reg \<Rightarrow>
             if map_of (SuspendedClients reg) clientID = None then r
             else invalidateAvailableModelsCacheLocked
                    (setRegistration modelID
                       (reg\<lparr>SuspendedClients := AList.delete clientID (SuspendedClients reg),
                            LastUpdated := now\<rparr>) r)))"

text \<open>Whether the sweep drops a mark: \<open>now.Sub(*quotaTime) >= modelQuotaExceededWindow\<close>.\<close>

definition quotaExpired :: "gotime \<Rightarrow> gotime \<Rightarrow> bool" where
  "quotaExpired now quotaTime \<longleftrightarrow> modelQuotaExceededWindow \<le> time_Sub now quotaTime"

definition CleanupExpiredQuotas :: "gotime \<Rightarrow> ModelRegistry \<Rightarrow> ModelRegistry" where
  "CleanupExpiredQuotas now r =
     (let invalidated = list_ex (\<lambda>(_, reg). list_ex (\<lambda>(_, t). quotaExpired now t) (QuotaExceededClients reg))
                          (models r);
          r1 = r\<lparr>models := map_vals (\<lambda>_ reg. reg\<lparr>QuotaExceededClients :=
                    filter (\<lambda>(_, t). \<not> quotaExpired now t) (QuotaExceededClients reg)\<rparr>) (models r)\<rparr>
      in if invalidated then invalidateAvailableModelsCacheLocked r1 else r1)"

section \<open>Projection of a credential's state\<close>

record ClientModelProjection =
  PModelID :: string
  PSuspended :: bool
  PSuspendReason :: string
  PQuotaExceeded :: bool

definition projectSuspension ::
  "string \<Rightarrow> gotime \<Rightarrow> ClientModelProjection \<Rightarrow> ModelRegistration \<Rightarrow> ModelRegistration \<times> bool" where
  "projectSuspension clientID now proj reg =
     (if PSuspended proj then
        (if map_of (SuspendedClients reg) clientID \<noteq> Some (PSuspendReason proj)
         then (reg\<lparr>SuspendedClients := AList.update clientID (PSuspendReason proj) (SuspendedClients reg),
                   LastUpdated := now\<rparr>, True)
         else (reg, False))
      else if map_of (SuspendedClients reg) clientID \<noteq> None
        then (reg\<lparr>SuspendedClients := AList.delete clientID (SuspendedClients reg), LastUpdated := now\<rparr>, True)
        else (reg, False))"

definition projectQuota ::
  "string \<Rightarrow> gotime \<Rightarrow> ClientModelProjection \<Rightarrow> ModelRegistration \<Rightarrow> ModelRegistration \<times> bool" where
  "projectQuota clientID now proj reg =
     (if PQuotaExceeded proj then
        (if map_of (QuotaExceededClients reg) clientID = None
         then (reg\<lparr>QuotaExceededClients := AList.update clientID now (QuotaExceededClients reg),
                   LastUpdated := now\<rparr>, True)
         else (reg, False))
      else if map_of (QuotaExceededClients reg) clientID \<noteq> None
        then (reg\<lparr>QuotaExceededClients := AList.delete clientID (QuotaExceededClients reg),
                  LastUpdated := now\<rparr>, True)
        else (reg, False))"

definition projectionTarget :: "string list \<Rightarrow> ModelRegistry \<Rightarrow> ClientModelProjection \<Rightarrow> bool" where
  "projectionTarget registered r proj \<longleftrightarrow>
     TrimSpace (PModelID proj) \<noteq> [] \<and> TrimSpace (PModelID proj) \<in> set registered \<and>
     map_of (models r) (TrimSpace (PModelID proj)) \<noteq> None"

definition projectStep ::
  "string \<Rightarrow> gotime \<Rightarrow> string list \<Rightarrow> ClientModelProjection \<Rightarrow> ModelRegistry \<times> bool \<Rightarrow> ModelRegistry \<times> bool" where
  "projectStep clientID now registered proj rc =
     (let r = fst rc; modelID = TrimSpace (PModelID proj)
      in if \<not> projectionTarget registered r proj then rc
         else case map_of (models r) modelID of
                None \<Rightarrow> rc
              | Some reg \<Rightarrow>
                  (let (g1, c1) = projectSuspension clientID now proj reg;
                       (g2, c2) = projectQuota clientID now proj g1
                   in (setRegistration modelID g2 r, snd rc \<or> c1 \<or> c2)))"

definition ApplyClientModelProjections ::
  "string \<Rightarrow> nat \<Rightarrow> nat \<Rightarrow> ClientModelProjection list \<Rightarrow> gotime \<Rightarrow> ModelRegistry \<Rightarrow> bool \<times> ModelRegistry" where
  "ApplyClientModelProjections rawClientID epoch gen projections now r =
     (let clientID = TrimSpace rawClientID;
          owned = listAt (clientModels r) clientID;
          registered = filter (\<lambda>m. m \<noteq> []) (map TrimSpace owned)
      in if clientID = [] \<or> owned = [] \<or> epoch \<noteq> numAt (clientEpochs r) clientID \<or>
            gen < numAt (clientGenerations r) clientID \<or>
            \<not> list_ex (projectionTarget registered r) projections
         then (False, r)
         else
           (let r1 = r\<lparr>clientGenerations := AList.update clientID gen (clientGenerations r)\<rparr>;
                (r2, changed) = fold (projectStep clientID now registered) projections (r1, False)
            in (True, if changed then invalidateAvailableModelsCacheLocked r2 else r2)))"

text \<open>\<open>mutate\<close> is the caller's in-place change of one model's data.\<close>

definition clientCapabilityStep ::
  "(string \<Rightarrow> RegModelInfo \<Rightarrow> RegModelInfo) \<Rightarrow> string \<Rightarrow> string \<Rightarrow> string \<Rightarrow> ModelRegistry \<Rightarrow> ModelRegistry" where
  "clientCapabilityStep mutate clientID provider modelID r =
     (case clientInfo r clientID modelID of
        None \<Rightarrow> r
      | Some info \<Rightarrow>
          (let info' = mutate modelID info;
               r1 = r\<lparr>clientModelInfos := AList.update clientID
                      (AList.update modelID info' (listAt (clientModelInfos r) clientID)) (clientModelInfos r)\<rparr>;
               r2 = (if SupportsWebSearch info' then incrementWebSearchCountLocked modelID provider r1 else r1)
           in case map_of (models r2) modelID of
                None \<Rightarrow> r2
              | Some reg \<Rightarrow>
                  (let g1 = refreshInfo (hasClientSupportingWebSearchLocked r2 modelID [] []) reg;
                       g2 = (if provider \<noteq> []
                             then refreshProviderInfo provider
                                    (hasClientSupportingWebSearchLocked r2 modelID provider []) g1
                             else g1)
                   in setRegistration modelID g2 r2)))"

definition ApplyClientModelCapabilities ::
  "string \<Rightarrow> nat \<Rightarrow> (string \<Rightarrow> RegModelInfo \<Rightarrow> RegModelInfo) option \<Rightarrow> ModelRegistry \<Rightarrow> bool \<times> ModelRegistry" where
  "ApplyClientModelCapabilities rawClientID expectedEpoch mutate r =
     (case mutate of
        None \<Rightarrow> (False, r)
      | Some f \<Rightarrow>
          (let clientID = TrimSpace rawClientID; infos = listAt (clientModelInfos r) clientID
           in if clientID = [] \<or> numAt (clientEpochs r) clientID \<noteq> expectedEpoch \<or> infos = []
              then (False, r)
              else
                (let provider = listAt (clientProviders r) clientID;
                     r1 = dropClientWebSearchCountsLocked clientID r;
                     r2 = fold (clientCapabilityStep f clientID provider) (map fst infos) r1
                 in (True, invalidateAvailableModelsCacheLocked r2))))"

section \<open>Queries about one client\<close>

definition ClientSupportsModel :: "string \<Rightarrow> string \<Rightarrow> ModelRegistry \<Rightarrow> bool" where
  "ClientSupportsModel rawClientID rawModelID r =
     (let clientID = TrimSpace rawClientID; modelID = TrimSpace rawModelID
      in clientID \<noteq> [] \<and> modelID \<noteq> [] \<and>
         list_ex (\<lambda>m. EqualFold (TrimSpace m) modelID) (listAt (clientModels r) clientID))"

definition IsModelSuspendedForClient :: "string \<Rightarrow> string \<Rightarrow> ModelRegistry \<Rightarrow> bool" where
  "IsModelSuspendedForClient rawClientID rawModelID r =
     (let clientID = TrimSpace rawClientID; modelID = TrimSpace rawModelID
      in clientID \<noteq> [] \<and> modelID \<noteq> [] \<and>
         (case map_of (models r) modelID of
            None \<Rightarrow> False
          | Some reg \<Rightarrow> map_of (SuspendedClients reg) clientID \<noteq> None))"

definition IsModelQuotaExceededForClient :: "string \<Rightarrow> string \<Rightarrow> ModelRegistry \<Rightarrow> bool" where
  "IsModelQuotaExceededForClient rawClientID rawModelID r =
     (let clientID = TrimSpace rawClientID; modelID = TrimSpace rawModelID
      in clientID \<noteq> [] \<and> modelID \<noteq> [] \<and>
         (case map_of (models r) modelID of
            None \<Rightarrow> False
          | Some reg \<Rightarrow> map_of (QuotaExceededClients reg) clientID \<noteq> None))"

definition ClientRegistrationEpoch :: "string \<Rightarrow> ModelRegistry \<Rightarrow> nat" where
  "ClientRegistrationEpoch clientID r = numAt (clientEpochs r) clientID"

definition GetGeneration :: "ModelRegistry \<Rightarrow> nat" where
  "GetGeneration r = generation r"

definition RegistrationEpoch :: "ModelRegistry \<Rightarrow> nat" where
  "RegistrationEpoch r = registrationEpoch r"

fun clientModelLoop :: "string \<Rightarrow> ModelRegistry \<Rightarrow> string list \<Rightarrow> string list \<Rightarrow> RegModelInfo list" where
  "clientModelLoop clientID r seen [] = []"
| "clientModelLoop clientID r seen (modelID # ms) =
     (if modelID \<in> set seen then clientModelLoop clientID r seen ms
      else
        (case clientInfo r clientID modelID of
           Some info \<Rightarrow> info # clientModelLoop clientID r (modelID # seen) ms
         | None \<Rightarrow>
             (case map_of (models r) modelID of
                None \<Rightarrow> clientModelLoop clientID r (modelID # seen) ms
              | Some reg \<Rightarrow>
                  (case Info reg of
                     None \<Rightarrow> clientModelLoop clientID r (modelID # seen) ms
                   | Some info \<Rightarrow> info # clientModelLoop clientID r (modelID # seen) ms))))"

definition GetModelsAndEpochForClient :: "string \<Rightarrow> ModelRegistry \<Rightarrow> RegModelInfo list \<times> nat" where
  "GetModelsAndEpochForClient clientID r =
     (clientModelLoop clientID r [] (listAt (clientModels r) clientID), numAt (clientEpochs r) clientID)"

definition GetModelsForClient :: "string \<Rightarrow> ModelRegistry \<Rightarrow> RegModelInfo list" where
  "GetModelsForClient clientID r = fst (GetModelsAndEpochForClient clientID r)"

end
