(* ===== verification/ModelListing.thy ===== *)
theory ModelListing
  imports ModelMarks "HOL-Library.Product_Lexorder"
begin

text \<open>
  What the model registry answers about models: availability, counts, providers, model data, and
  the listings with their cache (\<open>src/internal/registry/model_registry.go\<close>).  The order in which
  the registry's maps are walked is that of the association lists.
\<close>

section \<open>Availability of a model\<close>

definition isQuotaSuspension :: "string \<Rightarrow> bool" where
  "isQuotaSuspension reason \<longleftrightarrow> EqualFold reason ''quota'' \<or> EqualFold reason ''credential_quota''"

text \<open>\<open>now.Before(quotaTime.Add(modelQuotaExceededWindow))\<close>.\<close>

definition quotaActive :: "gotime \<Rightarrow> gotime \<Rightarrow> bool" where
  "quotaActive now quotaTime \<longleftrightarrow> Before now (quotaTime + modelQuotaExceededWindow)"

definition countIf :: "('x \<Rightarrow> bool) \<Rightarrow> 'x list \<Rightarrow> int" where
  "countIf P xs = int (length (filter P xs))"

definition quotaAlso :: "gotime \<Rightarrow> ModelRegistration \<Rightarrow> string \<times> string \<Rightarrow> bool" where
  "quotaAlso now reg cr =
     (case map_of (QuotaExceededClients reg) (fst cr) of None \<Rightarrow> False | Some t \<Rightarrow> quotaActive now t)"

definition recoveryStep :: "gotime \<Rightarrow> string \<times> gotime \<Rightarrow> gotime \<Rightarrow> gotime" where
  "recoveryStep now quota e =
     (let recoveryAt = snd quota + modelQuotaExceededWindow
      in if quotaActive now (snd quota) \<and> (IsZero e \<or> Before recoveryAt e) then recoveryAt else e)"

definition earliestRecovery :: "gotime \<Rightarrow> (string \<times> gotime) list \<Rightarrow> gotime" where
  "earliestRecovery now quotas = fold (recoveryStep now) quotas 0"

text \<open>The final formula, shared by the global and the per-provider listing.\<close>

definition usableClients :: "int \<Rightarrow> int \<Rightarrow> int \<Rightarrow> int \<Rightarrow> int \<Rightarrow> bool" where
  "usableClients availableClients expiredClients cooldownSuspended otherSuspended quotaAndSuspended =
     (let e = availableClients - expiredClients - cooldownSuspended - otherSuspended + quotaAndSuspended;
          effectiveClients = (if e < 0 then 0 else e)
      in 0 < effectiveClients \<or>
         (0 < availableClients \<and> (0 < expiredClients \<or> 0 < cooldownSuspended) \<and> otherSuspended = 0))"

definition modelRegistrationAvailability :: "ModelRegistration \<Rightarrow> gotime \<Rightarrow> bool \<times> gotime" where
  "modelRegistrationAvailability reg now =
     (usableClients (Count reg)
        (countIf (\<lambda>(_, t). quotaActive now t) (QuotaExceededClients reg))
        (countIf (\<lambda>(_, reason). isQuotaSuspension reason) (SuspendedClients reg))
        (countIf (\<lambda>(_, reason). \<not> isQuotaSuspension reason) (SuspendedClients reg))
        (countIf (quotaAlso now reg) (SuspendedClients reg)),
      earliestRecovery now (QuotaExceededClients reg))"

definition GetModelCount :: "string \<Rightarrow> gotime \<Rightarrow> ModelRegistry \<Rightarrow> int" where
  "GetModelCount modelID now r =
     (case map_of (models r) modelID of
        None \<Rightarrow> 0
      | Some reg \<Rightarrow>
          (let expiredClients = countIf (\<lambda>(_, t). time_Sub now t < modelQuotaExceededWindow)
                                  (QuotaExceededClients reg);
               suspendedClients = countIf (\<lambda>cr. \<not> quotaAlso now reg cr) (SuspendedClients reg);
               n = Count reg - expiredClients - suspendedClients
           in if n < 0 then 0 else n))"

text \<open>Providers by falling count, then by name; the order is total on the entries of a map.\<close>

definition GetModelProviders :: "string \<Rightarrow> ModelRegistry \<Rightarrow> string list" where
  "GetModelProviders modelID r =
     (case map_of (models r) modelID of
        None \<Rightarrow> []
      | Some reg \<Rightarrow>
          map fst (sort_key (\<lambda>(name, count). (- count, name))
            (filter (\<lambda>(_, count). 0 < count) (Providers reg))))"

definition GetModelInfo :: "string \<Rightarrow> string \<Rightarrow> ModelRegistry \<Rightarrow> RegModelInfo option" where
  "GetModelInfo modelID provider r =
     (case map_of (models r) modelID of
        None \<Rightarrow> None
      | Some reg \<Rightarrow>
          if provider \<noteq> [] \<and> 0 < numAt (Providers reg) provider \<and> map_of (InfoByProvider reg) provider \<noteq> None
          then map_of (InfoByProvider reg) provider
          else Info reg)"

text \<open>The static catalogue \<open>LookupStaticModelInfo\<close> is generated data: a parameter.\<close>

definition LookupModelInfo ::
  "(string \<Rightarrow> RegModelInfo option) \<Rightarrow> string \<Rightarrow> string option \<Rightarrow> ModelRegistry \<Rightarrow> RegModelInfo option" where
  "LookupModelInfo staticModel rawModelID rawProvider r =
     (let modelID = TrimSpace rawModelID;
          p = (case rawProvider of None \<Rightarrow> [] | Some q \<Rightarrow> ToLower (TrimSpace q))
      in if modelID = [] then None
         else case GetModelInfo modelID p r of Some info \<Rightarrow> Some info | None \<Rightarrow> staticModel modelID)"

definition ModelOverrideHeaders ::
  "(string \<Rightarrow> RegModelInfo option) \<Rightarrow> string \<Rightarrow> string option \<Rightarrow> ModelRegistry \<Rightarrow> (string, string) gomap option" where
  "ModelOverrideHeaders staticModel modelID provider r =
     (case LookupModelInfo staticModel modelID provider r of
        None \<Rightarrow> None
      | Some info \<Rightarrow>
          (case OverrideHeader info of
             None \<Rightarrow> None
           | Some h \<Rightarrow>
               (let out = fold (\<lambda>(k, v) m. if TrimSpace k = [] then m else AList.update (TrimSpace k) v m) h []
                in if out = [] then None else Some out)))"

section \<open>Native web search across routes\<close>

definition responsesWebSearchProviderPathSupport :: "string \<Rightarrow> bool option" where
  "responsesWebSearchProviderPathSupport rawProvider =
     (let provider = ToLower (TrimSpace rawProvider)
      in if provider \<in> {''codex'', ''xai'', ''claude'', ''antigravity''} then Some True
         else if provider \<in> {''openai'', ''openai-compatibility'', ''gemini'', ''aistudio'', ''vertex'',
                ''kimi'', ''kimi-ai'', ''kimi.ai'', ''kimi.com'', ''interactions'', ''gemini-interactions''}
         then Some False
         else if HasPrefix provider ''openai-compatible-'' then Some False
         else None)"

type_synonym nativeRoute = "string \<times> NativeCapabilities option"

definition routeWebSearch :: "nativeRoute \<Rightarrow> bool option" where
  "routeWebSearch route = (case snd route of None \<Rightarrow> None | Some c \<Rightarrow> WebSearch c)"

fun resolveWebSearchLoop :: "bool \<Rightarrow> nativeRoute list \<Rightarrow> bool option" where
  "resolveWebSearchLoop hasUnknown [] = (if hasUnknown then None else Some True)"
| "resolveWebSearchLoop hasUnknown (route # routes) =
     (if routeWebSearch route = Some False then Some False
      else case responsesWebSearchProviderPathSupport (fst route) of
             None \<Rightarrow> resolveWebSearchLoop True routes
           | Some False \<Rightarrow> Some False
           | Some True \<Rightarrow> resolveWebSearchLoop (hasUnknown \<or> routeWebSearch route = None) routes)"

definition ResolveResponsesWebSearchCapability :: "nativeRoute list \<Rightarrow> bool option" where
  "ResolveResponsesWebSearchCapability routes =
     (if routes = [] then None else resolveWebSearchLoop False routes)"

definition webSearchRoutes :: "string \<Rightarrow> ModelRegistry \<Rightarrow> nativeRoute list" where
  "webSearchRoutes modelID r =
     concat (map (\<lambda>(clientID, ids).
       map (\<lambda>m. (listAt (clientProviders r) clientID,
                 case clientInfo r clientID m of None \<Rightarrow> None | Some info \<Rightarrow> MNativeCapabilities info))
         (filter (\<lambda>m. TrimSpace m = modelID) ids)) (clientModels r))"

definition GetResponsesWebSearchCapability :: "string \<Rightarrow> ModelRegistry \<Rightarrow> bool option" where
  "GetResponsesWebSearchCapability rawModelID r =
     (let modelID = TrimSpace rawModelID
      in if modelID = [] then None else ResolveResponsesWebSearchCapability (webSearchRoutes modelID r))"

section \<open>Formats of a listing\<close>

fun decimal :: "nat \<Rightarrow> string" where
  "decimal n = (if n < 10 then [char_of (48 + n)] else decimal (n div 10) @ [char_of (48 + n mod 10)])"

declare decimal.simps [simp del]

definition padded :: "nat \<Rightarrow> int \<Rightarrow> string" where
  "padded w n = replicate (w - length (decimal (nat n))) (CHR ''0'') @ decimal (nat n)"

text \<open>\<open>time.Unix(secs, 0).UTC().Format(time.RFC3339)\<close> for \<open>secs > 0\<close>: Gregorian date and time.\<close>

definition rfc3339 :: "int \<Rightarrow> string" where
  "rfc3339 secs =
     (let z = secs div 86400 + 719468; t = secs mod 86400;
          era = z div 146097; doe = z mod 146097;
          yoe = (doe - doe div 1460 + doe div 36524 - doe div 146096) div 365;
          doy = doe - (365 * yoe + yoe div 4 - yoe div 100);
          mp = (5 * doy + 2) div 153;
          d = doy - (153 * mp + 2) div 5 + 1;
          m = (if mp < 10 then mp + 3 else mp - 9);
          y = yoe + era * 400 + (if m \<le> 2 then 1 else 0)
      in padded 4 y @ ''-'' @ padded 2 m @ ''-'' @ padded 2 d @ ''T'' @
         padded 2 (t div 3600) @ '':'' @ padded 2 (t mod 3600 div 60) @ '':'' @ padded 2 (t mod 60) @ ''Z'')"

definition whenStr :: "string \<Rightarrow> string \<Rightarrow> listing" where
  "whenStr k v = (if v \<noteq> [] then [(k, LStr v)] else [])"

definition whenPos :: "string \<Rightarrow> int \<Rightarrow> listing" where
  "whenPos k v = (if 0 < v then [(k, LInt v)] else [])"

definition whenStrs :: "string \<Rightarrow> string list \<Rightarrow> listing" where
  "whenStrs k v = (if v \<noteq> [] then [(k, LStrs v)] else [])"

definition orElse :: "string \<Rightarrow> string \<Rightarrow> string" where
  "orElse a b = (if a \<noteq> [] then a else b)"

definition orElsePos :: "int \<Rightarrow> int \<Rightarrow> int" where
  "orElsePos a b = (if a \<le> 0 then b else a)"

definition DefaultClaudeMaxInputTokens :: int where "DefaultClaudeMaxInputTokens = 200000"
definition DefaultClaudeMaxOutputTokens :: int where "DefaultClaudeMaxOutputTokens = 64000"

definition openaiListing :: "RegModelInfo \<Rightarrow> listing" where
  "openaiListing m =
     [(''id'', LStr (MID m)), (''object'', LStr ''model''), (''owned_by'', LStr (OwnedBy m))] @
     whenPos ''created'' (Created m) @ whenStr ''type'' (MType m) @
     whenStr ''display_name'' (DisplayName m) @ whenStr ''version'' (Version m) @
     whenStr ''description'' (Description m) @ whenPos ''context_length'' (ContextLength m) @
     whenPos ''max_context_length'' (MaxContextLength m) @
     whenPos ''max_completion_tokens'' (MaxCompletionTokens m) @
     whenStrs ''supported_parameters'' (SupportedParameters m)"

definition claudeListing :: "RegModelInfo \<Rightarrow> listing" where
  "claudeListing m =
     [(''id'', LStr (MID m)), (''object'', LStr ''model''), (''owned_by'', LStr (OwnedBy m))] @
     (if 0 < Created m then [(''created_at'', LStr (rfc3339 (Created m)))] else []) @
     [(''type'', LStr ''model''), (''display_name'', LStr (orElse (DisplayName m) (MID m))),
      (''max_input_tokens'', LInt (orElsePos (ContextLength m) DefaultClaudeMaxInputTokens)),
      (''max_tokens'', LInt (orElsePos (MaxCompletionTokens m) DefaultClaudeMaxOutputTokens))]"

definition geminiListing :: "RegModelInfo \<Rightarrow> listing" where
  "geminiListing m =
     [(''name'', LStr (orElse (MName m) (MID m)))] @ whenStr ''version'' (Version m) @
     whenStr ''displayName'' (DisplayName m) @ whenStr ''description'' (Description m) @
     whenPos ''inputTokenLimit'' (orElsePos (InputTokenLimit m) (ContextLength m)) @
     whenPos ''outputTokenLimit'' (orElsePos (OutputTokenLimit m) (MaxCompletionTokens m)) @
     whenStrs ''supportedGenerationMethods'' (SupportedGenerationMethods m) @
     whenStrs ''supportedInputModalities'' (SupportedInputModalities m) @
     whenStrs ''supportedOutputModalities'' (SupportedOutputModalities m)"

definition genericListing :: "RegModelInfo \<Rightarrow> listing" where
  "genericListing m =
     [(''id'', LStr (MID m)), (''object'', LStr ''model'')] @ whenStr ''owned_by'' (OwnedBy m) @
     whenStr ''type'' (MType m) @ (if Created m \<noteq> 0 then [(''created'', LInt (Created m))] else [])"

definition convertModelToMap :: "RegModelInfo option \<Rightarrow> string \<Rightarrow> listing option" where
  "convertModelToMap model handlerType =
     map_option (if handlerType = ''openai'' then openaiListing
                 else if handlerType = ''claude'' then claudeListing
                 else if handlerType = ''gemini'' then geminiListing
                 else genericListing) model"

section \<open>Listings\<close>

definition buildStep ::
  "string \<Rightarrow> gotime \<Rightarrow> string \<times> ModelRegistration \<Rightarrow> listing list \<times> gotime \<Rightarrow> listing list \<times> gotime" where
  "buildStep handlerType now entry acc =
     (let (available, regExpiresAt) = modelRegistrationAvailability (snd entry) now;
          e = (if \<not> IsZero regExpiresAt \<and> (IsZero (snd acc) \<or> Before regExpiresAt (snd acc))
               then regExpiresAt else snd acc)
      in if \<not> available then (fst acc, e)
         else case convertModelToMap (Info (snd entry)) handlerType of
                None \<Rightarrow> (fst acc, e)
              | Some l \<Rightarrow> (fst acc @ [l], e))"

definition buildAvailableModelsLocked :: "string \<Rightarrow> gotime \<Rightarrow> ModelRegistry \<Rightarrow> listing list \<times> gotime" where
  "buildAvailableModelsLocked handlerType now r = fold (buildStep handlerType now) (models r) ([], 0)"

definition GetAvailableModels :: "string \<Rightarrow> gotime \<Rightarrow> ModelRegistry \<Rightarrow> listing list \<times> ModelRegistry" where
  "GetAvailableModels handlerType now r =
     (case map_of (availableModelsCache r) handlerType of
        Some entry \<Rightarrow>
          if IsZero (expiresAt entry) \<or> Before now (expiresAt entry) then (cmodels entry, r)
          else (let (ms, e) = buildAvailableModelsLocked handlerType now r
                in (ms, r\<lparr>availableModelsCache := AList.update handlerType
                           \<lparr>cmodels = ms, expiresAt = e\<rparr> (availableModelsCache r)\<rparr>))
      | None \<Rightarrow>
          (let (ms, e) = buildAvailableModelsLocked handlerType now r
           in (ms, r\<lparr>availableModelsCache := AList.update handlerType
                      \<lparr>cmodels = ms, expiresAt = e\<rparr> (availableModelsCache r)\<rparr>)))"

definition GetAvailableModelInfos :: "gotime \<Rightarrow> ModelRegistry \<Rightarrow> RegModelInfo list" where
  "GetAvailableModelInfos now r =
     sort_key (\<lambda>info. TrimSpace (MID info))
       (List.map_filter (\<lambda>(_, reg). if fst (modelRegistrationAvailability reg now) then Info reg else None)
          (models r))"

text \<open>Per-provider listing: first the bindings of the provider's clients, then the verdicts.\<close>

record providerModel =
  pcount :: int
  pinfo :: "RegModelInfo option"

definition providerModelStep ::
  "string \<Rightarrow> ModelRegistry \<Rightarrow> string \<Rightarrow> (string, providerModel) gomap \<Rightarrow> (string, providerModel) gomap" where
  "providerModelStep clientID r rawModelID acc =
     (let modelID = TrimSpace rawModelID
      in if modelID = [] then acc
         else
           (let entry = (case map_of acc modelID of None \<Rightarrow> \<lparr>pcount = 0, pinfo = None\<rparr> | Some e \<Rightarrow> e);
                info = (case pinfo entry of
                          Some i \<Rightarrow> Some i
                        | None \<Rightarrow>
                            (case clientInfo r clientID modelID of
                               Some i \<Rightarrow> Some i
                             | None \<Rightarrow> (case map_of (models r) modelID of None \<Rightarrow> None | Some reg \<Rightarrow> Info reg)))
            in AList.update modelID \<lparr>pcount = pcount entry + 1, pinfo = info\<rparr> acc))"

definition providerModelsOf :: "string \<Rightarrow> ModelRegistry \<Rightarrow> (string, providerModel) gomap" where
  "providerModelsOf provider r =
     fold (\<lambda>(clientID, p). if p \<noteq> provider then (\<lambda>acc. acc)
                            else fold (providerModelStep clientID r) (listAt (clientModels r) clientID))
       (clientProviders r) []"

definition ofProvider :: "string \<Rightarrow> ModelRegistry \<Rightarrow> string \<Rightarrow> bool" where
  "ofProvider provider r clientID \<longleftrightarrow> clientID \<noteq> [] \<and> map_of (clientProviders r) clientID = Some provider"

definition providerAvailable :: "string \<Rightarrow> gotime \<Rightarrow> ModelRegistry \<Rightarrow> string \<Rightarrow> providerModel \<Rightarrow> bool" where
  "providerAvailable provider now r modelID entry =
     (case map_of (models r) modelID of
        None \<Rightarrow> usableClients (pcount entry) 0 0 0 0
      | Some reg \<Rightarrow>
          (let quotas = filter (\<lambda>(c, _). ofProvider provider r c) (QuotaExceededClients reg);
               suspended = filter (\<lambda>(c, _). ofProvider provider r c) (SuspendedClients reg)
           in usableClients (pcount entry)
                (countIf (\<lambda>(_, t). time_Sub now t < modelQuotaExceededWindow) quotas)
                (countIf (\<lambda>(_, reason). isQuotaSuspension reason) suspended)
                (countIf (\<lambda>(_, reason). \<not> isQuotaSuspension reason) suspended)
                (countIf (quotaAlso now reg) suspended)))"

definition GetAvailableModelsByProvider :: "string \<Rightarrow> gotime \<Rightarrow> ModelRegistry \<Rightarrow> RegModelInfo list" where
  "GetAvailableModelsByProvider rawProvider now r =
     (let provider = ToLower (TrimSpace rawProvider)
      in if provider = [] then []
         else List.map_filter
                (\<lambda>(modelID, entry).
                   if 0 < pcount entry \<and> providerAvailable provider now r modelID entry
                   then (case pinfo entry of
                           Some i \<Rightarrow> Some i
                         | None \<Rightarrow> (case map_of (models r) modelID of None \<Rightarrow> None | Some reg \<Rightarrow> Info reg))
                   else None)
                (providerModelsOf provider r))"

end
