(* ===== verification/ModelCounts.thy ===== *)
theory ModelCounts
  imports ModelRegistry
begin

text \<open>
  The reference counts of the model registry.  A registration \<open>holds\<close> a number of bindings in all
  and per provider; the lemmas give the effect of every step of a registration on these numbers,
  and \<open>counts_exact\<close> states that they are the numbers of bindings in the clients' own lists.
\<close>

section \<open>Maps of numbers\<close>

named_theorems registry_frame \<open>what a step of a registration leaves alone\<close>

lemma numAt_update [gomap_simps]: "numAt (AList.update k v m) j = (if j = k then v else numAt m j)"
  by (simp add: numAt_def gomap_simps)

lemma numAt_Nil [simp]: "numAt [] k = 0"
  by (simp add: numAt_def)

lemma listAt_update [gomap_simps]: "listAt (AList.update k v m) j = (if j = k then v else listAt m j)"
  by (simp add: listAt_def gomap_simps)

lemma listAt_delete [gomap_simps]: "listAt (AList.delete k m) j = (if j = k then [] else listAt m j)"
  by (simp add: listAt_def gomap_simps)

text \<open>A map that counts the elements of a list.\<close>

definition counts_of :: "'k list \<Rightarrow> ('k, int) gomap \<Rightarrow> bool" where
  "counts_of xs m \<longleftrightarrow> wf_map m \<and>
     (\<forall>k. map_of m k = (if count_list xs k = 0 then None else Some (int (count_list xs k))))"

lemma counts_of_Nil [simp]: "counts_of [] []"
  by (simp add: counts_of_def)

lemma counts_of_numAt: "counts_of xs m \<Longrightarrow> numAt m k = int (count_list xs k)"
  by (simp add: counts_of_def numAt_def)

lemma counts_of_addCount: "counts_of xs m \<Longrightarrow> counts_of (xs @ [k]) (addCount k m)"
  by (auto simp: counts_of_def addCount_def gomap_simps numAt_def)

lemma counts_of_fold: "counts_of xs m \<Longrightarrow> counts_of (xs @ ys) (fold addCount ys m)"
proof (induction ys arbitrary: xs m)
  case (Cons y ys)
  from Cons.IH [OF counts_of_addCount [OF Cons.prems]] show ?case by simp
qed simp

lemma counts_of_distinct: "counts_of xs m \<Longrightarrow> distinct (map fst m)"
  by (simp add: counts_of_def wf_map_def)

lemma counts_of_entry:
  assumes "counts_of xs m" and "e \<in> set m"
  shows "snd e = int (count_list xs (fst e))" and "0 < count_list xs (fst e)"
proof -
  have "map_of m (fst e) = Some (snd e)"
    using assms wf_map_in_set [of m "fst e" "snd e"] by (auto simp: counts_of_def)
  with assms show "snd e = int (count_list xs (fst e))" "0 < count_list xs (fst e)"
    by (auto simp: counts_of_def split: if_splits)
qed

lemma counts_of_key: "counts_of xs m \<Longrightarrow> k \<in> fst ` set m \<longleftrightarrow> 0 < count_list xs k"
proof -
  assume "counts_of xs m"
  then have "map_of m k = None \<longleftrightarrow> count_list xs k = 0" by (simp add: counts_of_def)
  then show ?thesis using map_of_not_key [of k m] by (metis neq0_conv)
qed

section \<open>Sums over the entries of a map\<close>

definition total :: "('k \<Rightarrow> 'v \<Rightarrow> nat) \<Rightarrow> ('k, 'v) gomap \<Rightarrow> nat" where
  "total f m = sum_list (map (\<lambda>(k, v). f k v) m)"

lemma total_Nil [simp]: "total f [] = 0"
  by (simp add: total_def)

lemma total_Cons [simp]: "total f (x # m) = f (fst x) (snd x) + total f m"
  by (simp add: total_def split: prod.splits)

lemma total_cong: "(\<And>k v. (k, v) \<in> set m \<Longrightarrow> f k v = g k v) \<Longrightarrow> total f m = total g m"
  unfolding total_def by (rule arg_cong [where f = sum_list]) (auto intro!: map_cong)

lemma delete_id: "k \<notin> fst ` set m \<Longrightarrow> AList.delete k m = m"
  by (induction m) auto

lemma total_delete:
  assumes "wf_map m"
  shows "total f m = (case map_of m k of None \<Rightarrow> 0 | Some v \<Rightarrow> f k v) + total f (AList.delete k m)"
  using assms
proof (induction m)
  case (Cons x m)
  then show ?case
    by (cases "fst x = k") (auto simp: wf_map_def delete_id split: option.splits)
qed simp

lemma delete_update_same [simp]: "AList.delete k (AList.update k v m) = AList.delete k m"
  by (induction m) auto

lemma total_pos: "0 < total f m \<longleftrightarrow> (\<exists>(k, v) \<in> set m. 0 < f k v)"
  by (induction m) auto

lemma total_mono: "(\<And>k v. f k v \<le> g k v) \<Longrightarrow> total f m \<le> total g m"
  by (induction m) (auto intro: add_mono)

section \<open>What a step leaves alone\<close>

abbreviation look :: "ModelRegistry \<Rightarrow> string \<Rightarrow> ModelRegistration option" where
  "look r m \<equiv> map_of (models r) m"

text \<open>Everything but the registrations.\<close>

definition frame :: "ModelRegistry \<Rightarrow> ModelRegistry" where
  "frame r = r\<lparr>models := []\<rparr>"

lemma frame_models [simp]: "frame (r\<lparr>models := x\<rparr>) = frame r"
  by (simp add: frame_def)

lemma frameD:
  assumes "frame r = frame s"
  shows "clientModels r = clientModels s" "clientModelInfos r = clientModelInfos s"
    "clientProviders r = clientProviders s" "clientEpochs r = clientEpochs s"
    "clientGenerations r = clientGenerations s" "availableModelsCache r = availableModelsCache s"
    "webSearchClientCounts r = webSearchClientCounts s"
    "webSearchProviderCounts r = webSearchProviderCounts s"
    "registrationEpoch r = registrationEpoch s" "hook r = hook s"
  using assms by (cases r; cases s; simp add: frame_def)+


lemma frame_setRegistration [registry_frame]: "frame (setRegistration m g r) = frame r"
  by (simp add: setRegistration_def)

lemma look_setRegistration: "look (setRegistration m g r) j = (if j = m then Some g else look r j)"
  by (simp add: setRegistration_def gomap_simps)

lemma frame_add [registry_frame]: "frame (addModelRegistration m p model now c r) = frame r"
  by (simp add: addModelRegistration_def Let_def frame_setRegistration split: option.splits)

lemma frame_settle [registry_frame]: "frame (settleRemoval c m p b g r) = frame r"
  by (simp add: settleRemoval_def Let_def frame_setRegistration)

lemma frame_remove [registry_frame]: "frame (removeModelRegistration c m p now keep r) = frame r"
  by (simp add: removeModelRegistration_def Let_def frame_settle split: option.splits)

lemma frame_unregisterStep [registry_frame]: "frame (unregisterModelStep c p now m r) = frame r"
  by (simp add: unregisterModelStep_def Let_def frame_settle split: option.splits)

lemma frame_funpow: "(\<And>r. frame (f r) = frame r) \<Longrightarrow> frame ((f ^^ n) r) = frame r"
  by (induction n) auto

lemma frame_fold: "(\<And>x r. frame (f x r) = frame r) \<Longrightarrow> frame (fold f xs r) = frame r"
  by (induction xs arbitrary: r) auto

lemma frame_removeTimes [registry_frame]: "frame (removeTimes n c m p now keep r) = frame r"
  by (simp add: removeTimes_def frame_funpow frame_remove)

lemma frame_move [registry_frame]: "frame (moveProviderStep c q oc e r) = frame r"
  by (simp add: moveProviderStep_def Let_def frame_setRegistration split: option.splits)

lemma frame_overage [registry_frame]: "frame (overageStep c q nc now keep e r) = frame r"
  by (simp add: overageStep_def Let_def frame_removeTimes)

lemma frame_addition [registry_frame]: "frame (additionStep c p nm oc now e r) = frame r"
  by (simp add: additionStep_def Let_def frame_funpow frame_add)

lemma frame_metadata [registry_frame]: "frame (metadataStep a m r) = frame r"
  by (simp add: metadataStep_def Let_def frame_setRegistration split: option.splits)

lemma frame_reconcile [registry_frame]: "frame (reconcileModels a r) = frame r"
  by (simp add: reconcileModels_def Let_def frame_fold registry_frame case_prod_beta)

text \<open>A step for one model leaves every other registration alone.\<close>

named_theorems look_other \<open>registrations of other models after a step\<close>

lemma look_add_other [look_other]:
  "j \<noteq> m \<Longrightarrow> look (addModelRegistration m p model now c r) j = look r j"
  by (simp add: addModelRegistration_def Let_def look_setRegistration split: option.splits)

lemma look_settle_other [look_other]: "j \<noteq> m \<Longrightarrow> look (settleRemoval c m p b g r) j = look r j"
  by (simp add: settleRemoval_def Let_def look_setRegistration gomap_simps)

lemma look_remove_other [look_other]:
  "j \<noteq> m \<Longrightarrow> look (removeModelRegistration c m p now keep r) j = look r j"
  by (simp add: removeModelRegistration_def Let_def look_settle_other split: option.splits)

lemma look_unregister_other [look_other]:
  "j \<noteq> m \<Longrightarrow> look (unregisterModelStep c p now m r) j = look r j"
  by (simp add: unregisterModelStep_def Let_def look_settle_other split: option.splits)

lemma look_funpow_other: "(\<And>r. look (f r) j = look r j) \<Longrightarrow> look ((f ^^ n) r) j = look r j"
  by (induction n) auto

lemma look_removeTimes_other [look_other]:
  "j \<noteq> m \<Longrightarrow> look (removeTimes n c m p now keep r) j = look r j"
  by (simp add: removeTimes_def look_funpow_other look_remove_other)

lemma look_move_other [look_other]: "j \<noteq> fst e \<Longrightarrow> look (moveProviderStep c q oc e r) j = look r j"
  by (simp add: moveProviderStep_def Let_def look_setRegistration split: option.splits)

lemma look_overage_other [look_other]: "j \<noteq> fst e \<Longrightarrow> look (overageStep c q nc now keep e r) j = look r j"
  by (simp add: overageStep_def Let_def look_removeTimes_other)

lemma look_addition_other [look_other]: "j \<noteq> fst e \<Longrightarrow> look (additionStep c p nm oc now e r) j = look r j"
  by (simp add: additionStep_def Let_def look_funpow_other look_add_other)

lemma look_metadata_other [look_other]: "j \<noteq> m \<Longrightarrow> look (metadataStep a m r) j = look r j"
  by (simp add: metadataStep_def Let_def look_setRegistration split: option.splits)

text \<open>
  A loop whose steps each treat another model: what a step establishes for its model holds after
  the loop, and models without a step keep their registration.
\<close>

lemma look_fold_skip:
  assumes "\<And>x r j. j \<noteq> k x \<Longrightarrow> look (f x r) j = look r j" and "j \<notin> k ` set xs"
  shows "look (fold f xs r) j = look r j"
  using assms by (induction xs arbitrary: r) auto

lemma fold_local:
  assumes other: "\<And>x r j. j \<noteq> k x \<Longrightarrow> look (f x r) j = look r j"
    and dist: "distinct (map k xs)"
    and step: "\<And>x r. x \<in> set xs \<Longrightarrow> Q (k x) (look r (k x)) \<Longrightarrow> R (k x) (look (f x r) (k x))"
    and skip: "\<And>g. j \<notin> k ` set xs \<Longrightarrow> Q j g \<Longrightarrow> R j g"
    and init: "Q j (look r j)"
  shows "R j (look (fold f xs r) j)"
proof (cases "j \<in> k ` set xs")
  case False
  from look_fold_skip [OF other False] have eq: "look (fold f xs r) j = look r j" .
  show ?thesis unfolding eq by (rule skip [OF False init])
next
  case True
  then obtain x where x: "x \<in> set xs" "j = k x" by blast
  then obtain as bs where xs: "xs = as @ x # bs" by (meson split_list)
  have skipped: "k x \<notin> k ` set as" "k x \<notin> k ` set bs" using dist by (auto simp: xs)
  have "Q (k x) (look (fold f as r) (k x))"
    using init x look_fold_skip [OF other skipped(1)] by simp
  then have "R (k x) (look (f x (fold f as r)) (k x))" by (rule step [OF x(1)])
  then show ?thesis using look_fold_skip [OF other skipped(2)] x by (simp add: xs)
qed

section \<open>Counts held by one registration\<close>

definition refs_ok :: "(string, int) gomap \<Rightarrow> (string \<Rightarrow> nat) \<Rightarrow> bool" where
  "refs_ok m P \<longleftrightarrow> wf_map m \<and> (\<forall>p. map_of m p = (if P p = 0 then None else Some (int (P p))))"

lemma refs_ok_numAt: "refs_ok m P \<Longrightarrow> numAt m p = int (P p)"
  by (simp add: refs_ok_def numAt_def)

lemma refs_ok_update: "refs_ok m P \<Longrightarrow> 0 < k \<Longrightarrow> refs_ok (AList.update p (int k) m) (P(p := k))"
  by (simp add: refs_ok_def gomap_simps)

lemma refs_ok_delete: "refs_ok m P \<Longrightarrow> refs_ok (AList.delete p m) (P(p := 0))"
  by (simp add: refs_ok_def gomap_simps)

lemma refs_ok_Nil [simp]: "refs_ok [] P \<longleftrightarrow> (\<forall>p. P p = 0)"
  by (simp add: refs_ok_def)

lemma refs_ok_single: "p \<noteq> [] \<Longrightarrow> refs_ok [(p, 1)] ((\<lambda>_. 0)(p := Suc 0))"
  by (simp add: refs_ok_def wf_map_def)

definition holds :: "ModelRegistration option \<Rightarrow> nat \<Rightarrow> (string \<Rightarrow> nat) \<Rightarrow> bool" where
  "holds g n P =
     (case g of
        None \<Rightarrow> n = 0 \<and> (\<forall>p. P p = 0)
      | Some reg \<Rightarrow> 0 < n \<and> Count reg = int n \<and>
          refs_ok (Providers reg) P)"

text \<open>References of one provider more or less; a client without a provider has none.\<close>

definition moreRefs :: "string \<Rightarrow> nat \<Rightarrow> (string \<Rightarrow> nat) \<Rightarrow> string \<Rightarrow> nat" where
  "moreRefs p k P = (if p = [] then P else P(p := k + P p))"

definition fewerRefs :: "string \<Rightarrow> nat \<Rightarrow> (string \<Rightarrow> nat) \<Rightarrow> string \<Rightarrow> nat" where
  "fewerRefs p k P = (if p = [] then P else P(p := P p - k))"

lemma moreRefs_0 [simp]: "moreRefs p 0 P = P"
  by (simp add: moreRefs_def)

lemma fewerRefs_0 [simp]: "fewerRefs p 0 P = P"
  by (simp add: fewerRefs_def)

lemma moreRefs_add: "moreRefs p a (moreRefs p b P) = moreRefs p (a + b) P"
  by (simp add: moreRefs_def add.assoc)

lemma fewerRefs_add: "fewerRefs p a (fewerRefs p b P) = fewerRefs p (a + b) P"
  by (simp add: fewerRefs_def add.commute)

lemma fewerRefs_more: "k \<le> n \<Longrightarrow> fewerRefs p k (moreRefs p n P) = moreRefs p (n - k) P"
  by (auto simp: fewerRefs_def moreRefs_def)

lemma holds_add:
  assumes h: "holds (look r m) n P" and "m \<noteq> []" and "model \<noteq> None"
  shows "holds (look (addModelRegistration m p model now c r) m) (Suc n) (moreRefs p 1 P)"
proof (cases "look r m")
  case None
  with h have "n = 0" "P = (\<lambda>_. 0)" by (auto simp: holds_def)
  with None assms(2,3) show ?thesis
    by (auto simp: holds_def addModelRegistration_def look_setRegistration moreRefs_def refs_ok_single)
next
  case (Some g)
  with h have g: "Count g = int n" "refs_ok (Providers g) P" by (auto simp: holds_def)
  have "refs_ok (AList.update p (numAt (Providers g) p + 1) (Providers g)) (P(p := Suc (P p)))"
    using refs_ok_update [OF g(2), of "Suc (P p)" p] refs_ok_numAt [OF g(2)] by (simp add: add.commute)
  with g Some assms(2,3) show ?thesis
    by (auto simp: holds_def addModelRegistration_def Let_def look_setRegistration moreRefs_def)
qed

lemma holds_add_times:
  assumes "holds (look r m) n P" and "m \<noteq> []" and "model \<noteq> None"
  shows "holds (look ((addModelRegistration m p model now c ^^ k) r) m) (n + k) (moreRefs p k P)"
proof (induction k)
  case (Suc k)
  from holds_add [OF Suc assms(2,3), of p now c] show ?case by (simp add: moreRefs_add)
qed (use assms in simp)

lemma Providers_forget [simp]: "Providers (forgetClient c g) = Providers g" "Count (forgetClient c g) = Count g"
  by (simp_all add: forgetClient_def)

lemma Count_release [simp]: "Count (releaseProvider p g) = Count g"
  by (simp add: releaseProvider_def split: option.splits)

lemma Providers_release:
  assumes "refs_ok (Providers g) P"
  shows "refs_ok (Providers (releaseProvider q g)) (P(q := P q - 1))"
  using assms by (auto simp: releaseProvider_def gomap_simps refs_ok_def split: option.splits if_splits)

lemma refresh_counts [simp]:
  "Count (refreshInfo b g) = Count g" "Providers (refreshInfo b g) = Providers g"
  "Count (refreshProviderInfo p b g) = Count g" "Providers (refreshProviderInfo p b g) = Providers g"
  by (simp_all add: refreshInfo_def refreshProviderInfo_def split: option.splits)

lemma holds_settle:
  assumes "Count g = int n" and "n = 0 \<Longrightarrow> \<forall>p. P p = 0"
    and "refs_ok (Providers g) P"
  shows "holds (look (settleRemoval c m p b g r) m) n P"
  using assms by (auto simp: holds_def settleRemoval_def Let_def look_setRegistration gomap_simps)

lemma holds_remove:
  assumes h: "holds (look r m) (Suc n) P" and last: "n = 0 \<Longrightarrow> \<forall>q. fewerRefs p 1 P q = 0"
  shows "holds (look (removeModelRegistration c m p now keep r) m) n (fewerRefs p 1 P)"
proof -
  obtain g where g: "look r m = Some g" "Count g = int (Suc n)"
    and P: "refs_ok (Providers g) P"
    using h by (auto simp: holds_def split: option.splits)
  show ?thesis
    unfolding removeModelRegistration_def g option.case Let_def
    by (rule holds_settle)
      (use g last P in \<open>auto simp: fewerRefs_def intro!: Providers_release [of _ P p, simplified]\<close>)
qed

lemma holds_removeTimes:
  assumes "holds (look r m) (n + k) P" and "n = 0 \<Longrightarrow> \<forall>q. fewerRefs p k P q = 0"
  shows "holds (look (removeTimes k c m p now keep r) m) n (fewerRefs p k P)"
  using assms
proof (induction k arbitrary: n)
  case (Suc k)
  have "holds (look (removeTimes k c m p now keep r) m) (Suc n) (fewerRefs p k P)"
    using Suc.prems by (intro Suc.IH) auto
  then show ?case
    using holds_remove [of _ m n "fewerRefs p k P" p] Suc.prems(2)
    by (simp add: removeTimes_def fewerRefs_add)
qed (simp add: removeTimes_def)

section \<open>The steps of a registration\<close>

lemma holds_unregister:
  assumes h: "holds (look r m) (Suc n) P" and last: "n = 0 \<Longrightarrow> \<forall>q. fewerRefs p 1 P q = 0"
    and prov: "provider = (if p = [] then None else Some p)"
  shows "holds (look (unregisterModelStep c provider now m r) m) n (fewerRefs p 1 P)"
proof -
  obtain g where g: "look r m = Some g" "Count g = int (Suc n)" and P: "refs_ok (Providers g) P"
    using h by (auto simp: holds_def split: option.splits)
  show ?thesis
    unfolding unregisterModelStep_def g option.case Let_def
    by (rule holds_settle)
      (use g last P prov in \<open>auto simp: fewerRefs_def intro!: Providers_release [of _ P p, simplified]\<close>)
qed

text \<open>Unregistering walks the client's own list, one reference per entry.\<close>

lemma holds_unregister_all:
  assumes "holds (look r m) (N + count_list ids m) (moreRefs p (count_list ids m) P)"
    and "N = 0 \<Longrightarrow> \<forall>q. P q = 0" and prov: "provider = (if p = [] then None else Some p)"
  shows "holds (look (fold (unregisterModelStep c provider now) ids r) m) N P"
  using assms(1)
proof (induction ids arbitrary: r)
  case (Cons i ids)
  show ?case
  proof (cases "i = m")
    case True
    let ?P = "moreRefs p (Suc (count_list ids m)) P"
    have less: "fewerRefs p 1 ?P = moreRefs p (count_list ids m) P" by (simp add: fewerRefs_more)
    have "holds (look (unregisterModelStep c provider now m r) m) (N + count_list ids m) (fewerRefs p 1 ?P)"
    proof (rule holds_unregister [OF _ _ prov])
      show "holds (look r m) (Suc (N + count_list ids m)) ?P" using Cons.prems True by simp
      show "\<forall>q. fewerRefs p 1 ?P q = 0" if "N + count_list ids m = 0"
        unfolding less using that assms(2) by simp
    qed
    from Cons.IH [OF this [unfolded less]] show ?thesis by (simp add: True)
  next
    case False
    then have "look (unregisterModelStep c provider now i r) m = look r m" by (simp add: look_other)
    then show ?thesis using Cons False by simp
  qed
qed simp

lemma holds_move:
  assumes h: "holds (look r (fst e)) n P" and "q \<noteq> []"
    and e: "snd e = int w" and old: "numAt oc (fst e) = int ol"
  shows "holds (look (moveProviderStep c q oc e r) (fst e)) n (fewerRefs q (min ol w) P)"
proof (cases "w = 0 \<or> ol = 0 \<or> look r (fst e) = None")
  case True
  with assms show ?thesis
    by (cases "look r (fst e)") (auto simp: moveProviderStep_def Let_def holds_def fewerRefs_def)
next
  case False
  then obtain g where g: "look r (fst e) = Some g" by blast
  with h have n: "0 < n" "Count g = int n" "refs_ok (Providers g) P" by (auto simp: holds_def)
  have k: "(if int ol < int w then int ol else int w) = int (min ol w)" by simp
  have "refs_ok (AList.update q (int (P q - min ol w)) (Providers g)) (P(q := P q - min ol w))"
    if "min ol w < P q" by (rule refs_ok_update [OF n(3)]) (use that in simp)
  moreover have "refs_ok (AList.delete q (Providers g)) (P(q := P q - min ol w))" if "P q \<le> min ol w"
    using refs_ok_delete [OF n(3), of q] that by simp
  moreover have "map_of (Providers g) q = (if P q = 0 then None else Some (int (P q)))"
    using n(3) by (simp add: refs_ok_def)
  ultimately show ?thesis
    using False g n assms(2) unfolding moveProviderStep_def Let_def e old k
    by (auto simp: holds_def look_setRegistration fewerRefs_def of_nat_diff fun_upd_idem)
qed

lemma holds_overage:
  assumes h: "holds (look r (fst e)) (N + ol) P" and e: "snd e = int ol" and new: "numAt nc (fst e) = int w"
  shows "holds (look (overageStep c q nc now keep e r) (fst e))
           (if w = 0 then N + ol else N + min ol w) (if w = 0 then P else fewerRefs q (ol - w) P)"
proof (cases "w = 0 \<or> ol \<le> w")
  case True
  with assms show ?thesis by (auto simp: overageStep_def)
next
  case False
  then have "holds (look (removeTimes (ol - w) c (fst e) q now keep r) (fst e)) (N + w) (fewerRefs q (ol - w) P)"
    by (intro holds_removeTimes) (use h in auto)
  moreover have "nat (int ol - int w) = ol - w" by simp
  ultimately show ?thesis using False by (simp add: overageStep_def e new min_def)
qed

lemma holds_addition:
  assumes h: "holds (look r (fst e)) n P" and "fst e \<noteq> []" and "map_of nm (fst e) \<noteq> None"
    and e: "snd e = int w" and old: "numAt oc (fst e) = int ol"
  shows "holds (look (additionStep c p nm oc now e r) (fst e)) (n + (w - ol)) (moreRefs p (w - ol) P)"
proof (cases "w \<le> ol")
  case False
  have "nat (int w - int ol) = w - ol" by simp
  with False holds_add_times [OF h assms(2,3), of "w - ol" p now c] show ?thesis
    by (simp add: additionStep_def Let_def e old)
qed (use h in \<open>simp add: additionStep_def e old\<close>)

lemma holds_metadata:
  assumes h: "holds (look r m) n P" and "0 < n"
    and model: "map_of (newModels (raCollected a)) m \<noteq> None"
    and old: "numAt (raOldCounts a) m = int ol" and new: "numAt (newCounts (raCollected a)) m = int w"
  shows "holds (look (metadataStep a m r) m) n
           (if providerChanged a then moreRefs (raProvider a) (min ol w) P else P)"
proof -
  obtain g where g: "look r m = Some g" "Count g = int n" "refs_ok (Providers g) P"
    using h \<open>0 < n\<close> by (auto simp: holds_def split: option.splits)
  obtain i where i: "map_of (newModels (raCollected a)) m = Some i" using model by blast
  let ?p = "raProvider a"
  have k: "(if int ol < int w then int ol else int w) = int (min ol w)" by simp
  have "refs_ok (AList.update ?p (numAt (Providers g) ?p + int (min ol w)) (Providers g))
          (P(?p := min ol w + P ?p))" if "0 < min ol w"
    using refs_ok_update [OF g(3), of "min ol w + P ?p" ?p] refs_ok_numAt [OF g(3)] that
    by (simp add: add.commute)
  then show ?thesis
    using g \<open>0 < n\<close> unfolding metadataStep_def i Let_def old new k
    by (auto simp: holds_def look_setRegistration moreRefs_def)
qed

section \<open>Collecting the supplied models\<close>

definition collected_ok :: "collectedModels \<Rightarrow> bool" where
  "collected_ok c \<longleftrightarrow>
     counts_of (rawModelIDs c) (newCounts c) \<and> [] \<notin> set (rawModelIDs c) \<and>
     distinct (uniqueModelIDs c) \<and> set (uniqueModelIDs c) = set (rawModelIDs c) \<and>
     wf_map (newModels c) \<and> fst ` set (newModels c) = set (rawModelIDs c)"

lemma collected_ok_step: "collected_ok c \<Longrightarrow> collected_ok (collectModelStep model c)"
proof (cases model)
  case (Some m)
  assume c: "collected_ok c"
  have "map_of (newModels c) (MID m) = None \<longleftrightarrow> MID m \<notin> set (rawModelIDs c)"
    using c map_of_not_key [of "MID m" "newModels c"] by (simp add: collected_ok_def)
  with c Some show ?thesis
    by (auto simp: collected_ok_def collectModelStep_def Let_def counts_of_addCount)
qed (simp add: collectModelStep_def)

lemma collectModels_ok: "collected_ok (collectModels ms)"
proof -
  have "collected_ok c \<Longrightarrow> collected_ok (fold collectModelStep ms c)" for c
    by (induction ms arbitrary: c) (auto simp: collected_ok_step)
  then show ?thesis by (simp add: collectModels_def collected_ok_def)
qed

section \<open>Reconciling a registered client\<close>

text \<open>
  \<open>N\<close> and \<open>P\<close> are the references of the other clients; the client had the models \<open>olds\<close>
  and gets those that were collected.
\<close>

locale reconciliation =
  fixes a :: reconcileArgs and olds :: "string list" and N :: "string \<Rightarrow> nat" and P :: "string \<Rightarrow> string \<Rightarrow> nat"
  assumes olds: "counts_of olds (raOldCounts a)" and coll: "collected_ok (raCollected a)"
    and others: "N m = 0 \<Longrightarrow> \<forall>q. P m q = 0"
begin

abbreviation (input) o_ct :: "string \<Rightarrow> nat" where
  "o_ct m \<equiv> count_list olds m"

abbreviation (input) n_ct :: "string \<Rightarrow> nat" where
  "n_ct m \<equiv> count_list (rawModelIDs (raCollected a)) m"

abbreviation (input) both :: "string \<Rightarrow> nat" where
  "both m \<equiv> min (o_ct m) (n_ct m)"

abbreviation (input) q0 :: string where
  "q0 \<equiv> raOldProvider a"

lemma new: "counts_of (rawModelIDs (raCollected a)) (newCounts (raCollected a))"
  using coll by (simp add: collected_ok_def)

lemmas old_num = counts_of_numAt [OF olds]
lemmas new_num = counts_of_numAt [OF new]

lemma new_model: "0 < n_ct m \<Longrightarrow> m \<noteq> [] \<and> map_of (newModels (raCollected a)) m \<noteq> None"
proof -
  assume "0 < n_ct m"
  then have "m \<in> set (rawModelIDs (raCollected a))" by (metis count_notin neq0_conv)
  then show ?thesis
    using coll map_of_not_key [of m "newModels (raCollected a)"] by (auto simp: collected_ok_def)
qed

definition moved :: "string \<Rightarrow> nat" where
  "moved m = (if providerChanged a then both m else 0)"

lemma moved_none: "n_ct m = 0 \<Longrightarrow> moved m = 0"
  by (simp add: moved_def)

lemma move_stage:
  assumes h: "\<And>m. holds (look r m) (N m + o_ct m) (moreRefs q0 (o_ct m) (P m))"
  shows "holds (look (if providerChanged a \<and> q0 \<noteq> []
                      then fold (moveProviderStep (raClient a) q0 (raOldCounts a)) (newCounts (raCollected a)) r
                      else r) m)
           (N m + o_ct m) (moreRefs q0 (o_ct m - moved m) (P m))"
proof (cases "providerChanged a \<and> q0 \<noteq> []")
  case True
  let ?Q = "\<lambda>m g. holds g (N m + o_ct m) (moreRefs q0 (o_ct m) (P m))"
  let ?R = "\<lambda>m g. holds g (N m + o_ct m) (moreRefs q0 (o_ct m - moved m) (P m))"
  have "?R m (look (fold (moveProviderStep (raClient a) q0 (raOldCounts a)) (newCounts (raCollected a)) r) m)"
  proof (rule fold_local [where k = fst and Q = ?Q and R = ?R])
    fix x s assume x: "x \<in> set (newCounts (raCollected a))" and Q: "?Q (fst x) (look s (fst x))"
    from holds_move [OF Q conjunct2 [OF True] counts_of_entry(1) [OF new x] old_num]
    show "?R (fst x) (look (moveProviderStep (raClient a) q0 (raOldCounts a) x s) (fst x))"
      using True by (simp add: fewerRefs_more moved_def)
  next
    fix g assume "m \<notin> fst ` set (newCounts (raCollected a))" and "?Q m g"
    then show "?R m g" using counts_of_key [OF new, of m] by (simp add: moved_def)
  qed (use counts_of_distinct [OF new] h in \<open>auto simp: look_other\<close>)
  with True show ?thesis by simp
next
  case False
  with h [of m] show ?thesis by (auto simp: moved_def moreRefs_def)
qed

lemma remove_stage:
  assumes h: "\<And>m. holds (look r m) (N m + o_ct m) (moreRefs q0 (o_ct m - moved m) (P m))"
  shows "holds (look (fold (\<lambda>(i, n). removeTimes (nat n) (raClient a) i q0 (raNow a) False)
                       (filter (\<lambda>(i, _). numAt (newCounts (raCollected a)) i = 0) (raOldCounts a)) r) m)
           (if n_ct m = 0 then N m else N m + o_ct m)
           (if n_ct m = 0 then P m else moreRefs q0 (o_ct m - moved m) (P m))"
    (is "holds (look (fold ?f ?xs r) m) _ _")
proof -
  let ?Q = "\<lambda>m g. holds g (N m + o_ct m) (moreRefs q0 (o_ct m - moved m) (P m))"
  let ?R = "\<lambda>m g. holds g (if n_ct m = 0 then N m else N m + o_ct m)
              (if n_ct m = 0 then P m else moreRefs q0 (o_ct m - moved m) (P m))"
  show "?R m (look (fold ?f ?xs r) m)"
  proof (rule fold_local [where k = fst and Q = ?Q and R = ?R])
    show "distinct (map fst ?xs)"
      using counts_of_distinct [OF olds] by (simp add: distinct_map_filter)
  next
    fix x s assume x: "x \<in> set ?xs" and Q: "?Q (fst x) (look s (fst x))"
    then have z: "n_ct (fst x) = 0" and e: "snd x = int (o_ct (fst x))"
      using counts_of_entry(1) [OF olds, of x] by (auto simp: new_num)
    have "holds (look (removeTimes (o_ct (fst x)) (raClient a) (fst x) q0 (raNow a) False s) (fst x))
            (N (fst x)) (fewerRefs q0 (o_ct (fst x)) (moreRefs q0 (o_ct (fst x)) (P (fst x))))"
      by (rule holds_removeTimes) (use Q z others in \<open>simp_all add: moved_none fewerRefs_more\<close>)
    then show "?R (fst x) (look (?f x s) (fst x))"
      using z e by (simp add: case_prod_beta fewerRefs_more)
  next
    fix g assume m: "m \<notin> fst ` set ?xs" and Q: "?Q m g"
    have "o_ct m = 0" if "n_ct m = 0"
    proof (rule ccontr)
      assume "o_ct m \<noteq> 0"
      then obtain e where "e \<in> set (raOldCounts a)" "fst e = m"
        using counts_of_key [OF olds, of m] by auto
      with that m show False by (force simp: new_num)
    qed
    with Q show "?R m g" by (auto simp: moved_def)
  qed (use h in \<open>auto simp: look_other\<close>)
qed

lemma overage_stage:
  assumes h: "\<And>m. holds (look r m) (if n_ct m = 0 then N m else N m + o_ct m)
                (if n_ct m = 0 then P m else moreRefs q0 (o_ct m - moved m) (P m))"
  shows "holds (look (fold (overageStep (raClient a) q0 (newCounts (raCollected a)) (raNow a) keep) (raOldCounts a) r) m)
           (N m + both m) (moreRefs q0 (both m - moved m) (P m))"
    (is "holds (look (fold ?f _ r) m) _ _")
proof -
  let ?Q = "\<lambda>m g. holds g (if n_ct m = 0 then N m else N m + o_ct m)
              (if n_ct m = 0 then P m else moreRefs q0 (o_ct m - moved m) (P m))"
  let ?R = "\<lambda>m g. holds g (N m + both m) (moreRefs q0 (both m - moved m) (P m))"
  show "?R m (look (fold ?f (raOldCounts a) r) m)"
  proof (rule fold_local [where k = fst and Q = ?Q and R = ?R])
    fix x s assume x: "x \<in> set (raOldCounts a)" and Q: "?Q (fst x) (look s (fst x))"
    show "?R (fst x) (look (?f x s) (fst x))"
    proof (cases "n_ct (fst x) = 0")
      case True
      with Q show ?thesis by (simp add: overageStep_def Let_def new_num)
    next
      case False
      then have "holds (look s (fst x)) (N (fst x) + o_ct (fst x))
          (moreRefs q0 (o_ct (fst x) - moved (fst x)) (P (fst x)))" using Q by simp
      from holds_overage [OF this counts_of_entry(1) [OF olds x] new_num, of "raClient a" q0 "raNow a" keep] False
      show ?thesis
        by (auto simp: moved_def fewerRefs_more min_def)
    qed
  next
    fix g assume "m \<notin> fst ` set (raOldCounts a)" and "?Q m g"
    then show "?R m g" using counts_of_key [OF olds, of m] by (auto simp: moved_def split: if_splits)
  qed (use counts_of_distinct [OF olds] h in \<open>auto simp: look_other\<close>)
qed

lemma addition_stage:
  assumes h: "\<And>m. holds (look r m) (N m + both m) (moreRefs q0 (both m - moved m) (P m))"
  shows "holds (look (fold (additionStep (raClient a) (raProvider a) (newModels (raCollected a)) (raOldCounts a) (raNow a))
                       (newCounts (raCollected a)) r) m)
           (N m + n_ct m) (moreRefs (raProvider a) (n_ct m - both m) (moreRefs q0 (both m - moved m) (P m)))"
    (is "holds (look (fold ?f _ r) m) _ _")
proof -
  let ?Q = "\<lambda>m g. holds g (N m + both m) (moreRefs q0 (both m - moved m) (P m))"
  let ?R = "\<lambda>m g. holds g (N m + n_ct m)
              (moreRefs (raProvider a) (n_ct m - both m) (moreRefs q0 (both m - moved m) (P m)))"
  show "?R m (look (fold ?f (newCounts (raCollected a)) r) m)"
  proof (rule fold_local [where k = fst and Q = ?Q and R = ?R])
    fix x s assume x: "x \<in> set (newCounts (raCollected a))" and Q: "?Q (fst x) (look s (fst x))"
    have m: "fst x \<noteq> []" "map_of (newModels (raCollected a)) (fst x) \<noteq> None"
      using new_model [OF counts_of_entry(2) [OF new x]] by auto
    have sub: "n_ct i - both i = n_ct i - o_ct i" "both i + (n_ct i - o_ct i) = n_ct i" for i
      by (simp_all add: min_def)
    from holds_addition [OF Q m counts_of_entry(1) [OF new x] old_num] sub
    show "?R (fst x) (look (?f x s) (fst x))" by (simp add: add.assoc)
  next
    fix g assume "m \<notin> fst ` set (newCounts (raCollected a))" and "?Q m g"
    then show "?R m g" using counts_of_key [OF new, of m] by simp
  qed (use counts_of_distinct [OF new] h in \<open>auto simp: look_other\<close>)
qed

lemma metadata_stage:
  assumes h: "\<And>m. holds (look r m) (N m + n_ct m)
    (moreRefs (raProvider a) (n_ct m - both m) (moreRefs q0 (both m - moved m) (P m)))"
  shows "holds (look (fold (metadataStep a) (uniqueModelIDs (raCollected a)) r) m)
           (N m + n_ct m) (moreRefs (raProvider a) (n_ct m) (P m))"
proof -
  let ?Q = "\<lambda>m g. holds g (N m + n_ct m)
              (moreRefs (raProvider a) (n_ct m - both m) (moreRefs q0 (both m - moved m) (P m)))"
  let ?R = "\<lambda>m g. holds g (N m + n_ct m) (moreRefs (raProvider a) (n_ct m) (P m))"
  show "?R m (look (fold (metadataStep a) (uniqueModelIDs (raCollected a)) r) m)"
  proof (rule fold_local [where k = "\<lambda>i. i" and Q = ?Q and R = ?R])
    fix x s assume "x \<in> set (uniqueModelIDs (raCollected a))" and Q: "?Q x (look s x)"
    then have "x \<in> set (rawModelIDs (raCollected a))" using coll by (simp add: collected_ok_def)
    then have n: "0 < n_ct x" by (metis count_list_0_iff neq0_conv)
    show "?R x (look (metadataStep a x s) x)"
      using holds_metadata [OF Q _ conjunct2 [OF new_model [OF n]] old_num new_num] n
      by (auto simp: moved_def moreRefs_add providerChanged_def split: if_splits)
  next
    fix g assume "m \<notin> (\<lambda>i. i) ` set (uniqueModelIDs (raCollected a))" and "?Q m g"
    then show "?R m g" using coll by (auto simp: collected_ok_def moved_def)
  qed (use coll h in \<open>auto simp: look_other collected_ok_def\<close>)
qed

lemma reconciled:
  assumes "\<And>m. holds (look r m) (N m + o_ct m) (moreRefs q0 (o_ct m) (P m))"
  shows "holds (look (reconcileModels a r) m) (N m + n_ct m) (moreRefs (raProvider a) (n_ct m) (P m))"
  unfolding reconcileModels_def Let_def
  by (intro metadata_stage addition_stage overage_stage remove_stage move_stage assms)

end

end
