(* ===== verification/RegistryRuns.thy ===== *)
theory RegistryRuns
  imports ModelListing ModelCounts
begin

text \<open>
  Runs of the model registry: every exported operation that changes it as one step, sequences of
  steps at given times, and the contract an invariant has to meet to hold after every run.
\<close>

section \<open>Steps and runs\<close>

datatype registryOp =
    ORegister string string "RegModelInfo option list"
  | ORegisterIf string string nat "RegModelInfo option list" "bool option"
  | OUnregister string
  | OUnregisterIf string nat "bool option"
  | OReplace string string nat "RegModelInfo option list"
  | OSetQuota string string
  | OClearQuota string string
  | OSuspend string string string
  | OResume string string
  | OProject string nat nat "ClientModelProjection list"
  | OCapabilities string nat "(string \<Rightarrow> RegModelInfo \<Rightarrow> RegModelInfo) option"
  | OCleanup
  | OList string
  | OSetHook bool

fun registryStep :: "gotime \<times> registryOp \<Rightarrow> ModelRegistry \<Rightarrow> ModelRegistry" where
  "registryStep (now, ORegister c p ms) r = RegisterClient c p ms now r"
| "registryStep (now, ORegisterIf c p e ms pub) r = snd (RegisterClientIfEpochCurrent c p e ms pub now r)"
| "registryStep (now, OUnregister c) r = UnregisterClient c now r"
| "registryStep (now, OUnregisterIf c e pub) r = snd (UnregisterClientIfEpochCurrent c e pub now r)"
| "registryStep (now, OReplace c p e ms) r = snd (ReplaceClientModels c p e ms now r)"
| "registryStep (now, OSetQuota c m) r = SetModelQuotaExceeded c m now r"
| "registryStep (now, OClearQuota c m) r = ClearModelQuotaExceeded c m r"
| "registryStep (now, OSuspend c m reason) r = SuspendClientModel c m reason now r"
| "registryStep (now, OResume c m) r = ResumeClientModel c m now r"
| "registryStep (now, OProject c e g ps) r = snd (ApplyClientModelProjections c e g ps now r)"
| "registryStep (now, OCapabilities c e f) r = snd (ApplyClientModelCapabilities c e f r)"
| "registryStep (now, OCleanup) r = CleanupExpiredQuotas now r"
| "registryStep (now, OList h) r = snd (GetAvailableModels h now r)"
| "registryStep (now, OSetHook b) r = SetHook b r"

definition registryRun :: "(gotime \<times> registryOp) list \<Rightarrow> ModelRegistry" where
  "registryRun ops = fold registryStep ops newModelRegistry"

section \<open>The web search counters leave the tables alone\<close>

definition frameW :: "ModelRegistry \<Rightarrow> ModelRegistry" where
  "frameW r = r\<lparr>webSearchClientCounts := [], webSearchProviderCounts := []\<rparr>"

lemma frameWD:
  assumes "frameW r = frameW s"
  shows "models r = models s" "clientModels r = clientModels s" "clientModelInfos r = clientModelInfos s"
    "clientProviders r = clientProviders s" "clientEpochs r = clientEpochs s"
    "clientGenerations r = clientGenerations s" "availableModelsCache r = availableModelsCache s"
    "registrationEpoch r = registrationEpoch s" "hook r = hook s"
  using assms by (cases r; cases s; simp add: frameW_def)+

lemma frameW_fold: "(\<And>x r. frameW (f x r) = frameW r) \<Longrightarrow> frameW (fold f xs r) = frameW r"
  by (induction xs arbitrary: r) auto

lemma frameW_increment: "frameW (incrementWebSearchCountLocked m p r) = frameW r"
  by (simp add: incrementWebSearchCountLocked_def Let_def frameW_def)

lemma frameW_decrement: "frameW (decrementWebSearchCountLocked m p r) = frameW r"
  by (simp add: decrementWebSearchCountLocked_def Let_def frameW_def split: option.splits)

lemma frameW_drop: "frameW (dropClientWebSearchCountsLocked c r) = frameW r"
  by (simp add: dropClientWebSearchCountsLocked_def Let_def frameW_fold frameW_decrement case_prod_beta)

lemma frameW_add: "frameW (addClientWebSearchCountsLocked c r) = frameW r"
  by (simp add: addClientWebSearchCountsLocked_def Let_def frameW_fold frameW_increment case_prod_beta)

lemmas drop_tables [simp] = frameWD [OF frameW_drop]
lemmas add_tables [simp] = frameWD [OF frameW_add]
lemmas increment_tables [simp] = frameWD [OF frameW_increment]

lemma trigger_tables [simp]:
  "models (triggerModelsRegistered p c ms r) = models r"
  "clientModels (triggerModelsRegistered p c ms r) = clientModels r"
  "clientModelInfos (triggerModelsRegistered p c ms r) = clientModelInfos r"
  "clientProviders (triggerModelsRegistered p c ms r) = clientProviders r"
  "clientEpochs (triggerModelsRegistered p c ms r) = clientEpochs r"
  "webSearchClientCounts (triggerModelsRegistered p c ms r) = webSearchClientCounts r"
  "webSearchProviderCounts (triggerModelsRegistered p c ms r) = webSearchProviderCounts r"
  "availableModelsCache (triggerModelsRegistered p c ms r) = availableModelsCache r"
  "models (triggerModelsUnregistered p c r) = models r"
  "clientModels (triggerModelsUnregistered p c r) = clientModels r"
  "clientModelInfos (triggerModelsUnregistered p c r) = clientModelInfos r"
  "clientProviders (triggerModelsUnregistered p c r) = clientProviders r"
  "clientEpochs (triggerModelsUnregistered p c r) = clientEpochs r"
  "webSearchClientCounts (triggerModelsUnregistered p c r) = webSearchClientCounts r"
  "webSearchProviderCounts (triggerModelsUnregistered p c r) = webSearchProviderCounts r"
  by (simp_all add: triggerModelsRegistered_def triggerModelsUnregistered_def)

lemma invalidate_tables [simp]:
  "models (invalidateAvailableModelsCacheLocked r) = models r"
  "clientModels (invalidateAvailableModelsCacheLocked r) = clientModels r"
  "clientModelInfos (invalidateAvailableModelsCacheLocked r) = clientModelInfos r"
  "clientProviders (invalidateAvailableModelsCacheLocked r) = clientProviders r"
  "clientEpochs (invalidateAvailableModelsCacheLocked r) = clientEpochs r"
  "webSearchClientCounts (invalidateAvailableModelsCacheLocked r) = webSearchClientCounts r"
  "webSearchProviderCounts (invalidateAvailableModelsCacheLocked r) = webSearchProviderCounts r"
  "availableModelsCache (invalidateAvailableModelsCacheLocked r) = []"
  by (simp_all add: invalidateAvailableModelsCacheLocked_def)

lemma bump_tables [simp]:
  "models (bumpClient c r) = models r" "clientModels (bumpClient c r) = clientModels r"
  "clientModelInfos (bumpClient c r) = clientModelInfos r"
  "clientProviders (bumpClient c r) = clientProviders r"
  "webSearchClientCounts (bumpClient c r) = webSearchClientCounts r"
  "webSearchProviderCounts (bumpClient c r) = webSearchProviderCounts r"
  "clientGenerations (bumpClient c r) = clientGenerations r"
  by (simp_all add: bumpClient_def)

text \<open>Discarding orphaned metadata only touches capabilities.\<close>

definition orphanStep :: "string \<Rightarrow> string option \<Rightarrow> string \<Rightarrow> ModelRegistry \<Rightarrow> ModelRegistry" where
  "orphanStep c provider m s =
     (case look s m of
        None \<Rightarrow> s
      | Some reg \<Rightarrow>
          (let g1 = refreshInfo (hasClientSupportingWebSearchLocked s m [] c) reg;
               g2 = (case provider of None \<Rightarrow> g1
                     | Some p \<Rightarrow> refreshProviderInfo p (hasClientSupportingWebSearchLocked s m p c) g1)
           in setRegistration m g2 s))"

lemma clearOrphaned_alt:
  "clearOrphanedClientModelInfosLocked c r =
     (let r1 = fold (\<lambda>(m, _). orphanStep c (map_of (clientProviders r) c) m) (listAt (clientModelInfos r) c) r;
          r2 = dropClientWebSearchCountsLocked c r1
      in r2\<lparr>clientModelInfos := AList.delete c (clientModelInfos r2)\<rparr>)"
  by (simp add: clearOrphanedClientModelInfosLocked_def orphanStep_def [abs_def] Let_def case_prod_beta)

lemma frame_orphan: "frame (orphanStep c p m s) = frame s"
  by (simp add: orphanStep_def Let_def frame_setRegistration split: option.splits)

lemma frame_orphan_fold: "frame (fold (\<lambda>(m, _). orphanStep c p m) xs s) = frame s"
  by (rule frame_fold) (simp add: case_prod_beta frame_orphan)

lemma orphan_tables [simp]:
  "clientModels (clearOrphanedClientModelInfosLocked c r) = clientModels r"
  "clientProviders (clearOrphanedClientModelInfosLocked c r) = clientProviders r"
  "clientModelInfos (clearOrphanedClientModelInfosLocked c r) = AList.delete c (clientModelInfos r)"
  by (simp_all add: clearOrphaned_alt Let_def frameD [OF frame_orphan_fold])

lemma unregister_tables:
  "clientModels (unregisterClientInternal c now r) = AList.delete c (clientModels r)"
  "clientModelInfos (unregisterClientInternal c now r) = AList.delete c (clientModelInfos r)"
  "clientProviders (unregisterClientInternal c now r) = AList.delete c (clientProviders r)"
proof -
  have f: "frame (fold (unregisterModelStep c p now) ms s) = frame s" for p ms s
    by (rule frame_fold) (rule frame_unregisterStep)
  have d: "map_of m c = None \<Longrightarrow> AList.delete c m = m" for m :: "(string, 'v) gomap"
    by (simp add: delete_id map_of_not_key)
  show "clientModels (unregisterClientInternal c now r) = AList.delete c (clientModels r)"
    "clientModelInfos (unregisterClientInternal c now r) = AList.delete c (clientModelInfos r)"
    "clientProviders (unregisterClientInternal c now r) = AList.delete c (clientProviders r)"
    using frameD [OF f]
    by (auto simp: unregisterClientInternal_def Let_def d split: option.splits)
qed

lemma store_tables:
  "models (storeClient c p coll r) = models r"
  "clientModels (storeClient c p coll r) = AList.update c (rawModelIDs coll) (clientModels r)"
  "clientModelInfos (storeClient c p coll r) = AList.update c (newModels coll) (clientModelInfos r)"
  "clientProviders (storeClient c p coll r) =
     (if p \<noteq> [] then AList.update c p (clientProviders r) else AList.delete c (clientProviders r))"
  by (simp_all add: storeClient_def)

section \<open>What marks, listings and hooks leave alone\<close>

definition core :: "ModelRegistration \<Rightarrow> RegModelInfo option \<times> (string, RegModelInfo) gomap \<times> int \<times> (string, int) gomap" where
  "core g = (Info g, InfoByProvider g, Count g, Providers g)"

definition marks_wf :: "ModelRegistration \<Rightarrow> bool" where
  "marks_wf g \<longleftrightarrow> wf_map (QuotaExceededClients g) \<and> wf_map (SuspendedClients g)"

definition remarked :: "ModelRegistration \<Rightarrow> ModelRegistration \<Rightarrow> bool" where
  "remarked g g' \<longleftrightarrow> core g' = core g \<and> (marks_wf g \<longrightarrow> marks_wf g')"

definition core_eq :: "ModelRegistry \<Rightarrow> ModelRegistry \<Rightarrow> bool" where
  "core_eq r s \<longleftrightarrow>
     clientModels s = clientModels r \<and> clientModelInfos s = clientModelInfos r \<and>
     clientProviders s = clientProviders r \<and>
     webSearchClientCounts s = webSearchClientCounts r \<and> webSearchProviderCounts s = webSearchProviderCounts r \<and>
     (\<forall>m. rel_option remarked (look r m) (look s m))"

lemma marked_refl [simp]: "remarked g g"
  by (simp add: remarked_def)

lemma marked_trans: "remarked g h \<Longrightarrow> remarked h k \<Longrightarrow> remarked g k"
  by (simp add: remarked_def)

lemma rel_marked_refl [simp]: "rel_option remarked x x"
  by (cases x) simp_all

lemma rel_marked_trans: "rel_option remarked x y \<Longrightarrow> rel_option remarked y z \<Longrightarrow> rel_option remarked x z"
  by (cases x; cases y; cases z) (auto intro: marked_trans)

lemma core_eq_look: "core_eq r s \<Longrightarrow> map_option core (look s m) = map_option core (look r m)"
proof -
  assume "core_eq r s"
  then have "rel_option remarked (look r m) (look s m)" by (simp add: core_eq_def)
  then show ?thesis by (cases "look r m"; cases "look s m") (simp_all add: remarked_def)
qed

lemma core_eq_refl [simp]: "core_eq r r"
  by (simp add: core_eq_def)

lemma core_eq_trans: "core_eq r s \<Longrightarrow> core_eq s t \<Longrightarrow> core_eq r t"
  unfolding core_eq_def by (auto intro: rel_marked_trans)

lemma core_eq_invalidate [simp]: "core_eq r (invalidateAvailableModelsCacheLocked s) = core_eq r s"
  by (simp add: core_eq_def invalidateAvailableModelsCacheLocked_def)

lemma core_eq_trigger [simp]: "core_eq r (triggerModelsRegistered p c ms s) = core_eq r s"
  by (simp add: core_eq_def triggerModelsRegistered_def)

lemma core_eq_bump: "core_eq r (bumpClient c r)" "core_eq r ((bumpClient c r)\<lparr>clientGenerations := x\<rparr>)"
  by (simp_all add: core_eq_def bumpClient_def)

lemma core_eq_mark:
  assumes "look r m = Some g" and "remarked g g'"
  shows "core_eq r (setRegistration m g' r)"
  using assms by (auto simp: core_eq_def setRegistration_def gomap_simps)

lemma core_eq_mark_trans:
  "core_eq r s \<Longrightarrow> look s m = Some g \<Longrightarrow> remarked g g' \<Longrightarrow> core_eq r (setRegistration m g' s)"
  by (blast intro: core_eq_trans core_eq_mark)

text \<open>Every way the operations write a mark.\<close>

lemma marked_marks:
  "remarked g (g\<lparr>QuotaExceededClients := AList.update c t (QuotaExceededClients g)\<rparr>)"
  "remarked g (g\<lparr>QuotaExceededClients := AList.delete c (QuotaExceededClients g)\<rparr>)"
  "remarked g (g\<lparr>SuspendedClients := AList.update c x (SuspendedClients g), LastUpdated := now\<rparr>)"
  "remarked g (g\<lparr>SuspendedClients := AList.delete c (SuspendedClients g), LastUpdated := now\<rparr>)"
  "remarked g (g\<lparr>QuotaExceededClients := AList.update c t (QuotaExceededClients g), LastUpdated := now\<rparr>)"
  "remarked g (g\<lparr>QuotaExceededClients := AList.delete c (QuotaExceededClients g), LastUpdated := now\<rparr>)"
  by (auto simp: remarked_def core_def marks_wf_def)

lemma core_eq_quota: "core_eq r (SetModelQuotaExceeded c m now r)" "core_eq r (ClearModelQuotaExceeded c m r)"
  by (simp_all add: SetModelQuotaExceeded_def ClearModelQuotaExceeded_def core_eq_mark marked_marks split: option.splits)

lemma core_eq_suspend:
  "core_eq r (SuspendClientModel c m reason now r)" "core_eq r (ResumeClientModel c m now r)"
  by (simp_all add: SuspendClientModel_def ResumeClientModel_def core_eq_mark marked_marks split: option.splits)

lemma marked_project: "remarked g (fst (projectQuota c now p (fst (projectSuspension c now p g))))"
proof -
  have "remarked g (fst (projectSuspension c now p g))" "remarked h (fst (projectQuota c now p h))" for h
    by (simp_all add: projectSuspension_def projectQuota_def marked_marks)
  then show ?thesis by (blast intro: marked_trans)
qed

lemma core_eq_projectStep: "core_eq r (fst rc) \<Longrightarrow> core_eq r (fst (projectStep c now reg p rc))"
  by (auto simp: projectStep_def Let_def case_prod_beta split: option.splits
      intro!: core_eq_mark_trans marked_project)

lemma core_eq_projections: "core_eq r (snd (ApplyClientModelProjections c e g ps now r))"
proof -
  have "core_eq r (fst rc) \<Longrightarrow> core_eq r (fst (fold (projectStep d now reg) ps rc))" for d reg rc
    by (induction ps arbitrary: rc) (simp_all add: core_eq_projectStep)
  moreover have "core_eq r (r\<lparr>clientGenerations := x\<rparr>)" for x by (simp add: core_eq_def)
  ultimately show ?thesis
    by (auto simp: ApplyClientModelProjections_def Let_def case_prod_beta)
qed

lemma core_eq_cleanup: "core_eq r (CleanupExpiredQuotas now r)"
proof -
  have "remarked g (g\<lparr>QuotaExceededClients := filter P (QuotaExceededClients g)\<rparr>)" for g P
    by (simp add: remarked_def core_def marks_wf_def wf_map_def distinct_map_filter)
  then have "rel_option remarked x (map_option (\<lambda>g. g\<lparr>QuotaExceededClients := filter P (QuotaExceededClients g)\<rparr>) x)" for x P
    by (cases x) simp_all
  then show ?thesis by (simp add: CleanupExpiredQuotas_def Let_def core_eq_def map_of_map_vals)
qed

lemma core_eq_list: "core_eq r (snd (GetAvailableModels h now r))"
  by (auto simp: GetAvailableModels_def core_eq_def case_prod_beta split: option.splits)

lemma core_eq_hook: "core_eq r (SetHook b r)"
  by (simp add: SetHook_def core_eq_def)

section \<open>The contract of an invariant\<close>

locale registry_invariant =
  fixes I :: "ModelRegistry \<Rightarrow> bool"
  assumes new: "I newModelRegistry"
    and core: "I r \<Longrightarrow> core_eq r s \<Longrightarrow> I s"
    and unregister: "I r \<Longrightarrow> I (unregisterClientInternal c now r)"
    and fresh: "I r \<Longrightarrow> map_of (clientModels r) c = None \<Longrightarrow> collectModels ms = coll \<Longrightarrow>
      uniqueModelIDs coll \<noteq> [] \<Longrightarrow> I (registerFresh c p coll now r)"
    and existing: "I r \<Longrightarrow> map_of (clientModels r) c = Some olds \<Longrightarrow> collectModels ms = coll \<Longrightarrow>
      uniqueModelIDs coll \<noteq> [] \<Longrightarrow>
      I (registerExisting \<lparr>raClient = c, raProvider = p, raOldProvider = listAt (clientProviders r) c,
           raOldCounts = fold addCount olds [], raCollected = coll, raNow = now, raPreserve = keep\<rparr> r)"
    and capabilities: "I r \<Longrightarrow> I (snd (ApplyClientModelCapabilities c e f r))"
begin

lemma register:
  assumes r: "I r"
  shows "I (registerClientLocked c clientProvider ms keep now r)"
proof -
  let ?coll = "collectModels ms" and ?p = "ToLower clientProvider"
  have finish: "I (triggerModelsRegistered ?p c ms (invalidateAvailableModelsCacheLocked s))" if "I s" for s
    using core [OF that, of "triggerModelsRegistered ?p c ms (invalidateAvailableModelsCacheLocked s)"] by simp
  show ?thesis
  proof (cases "uniqueModelIDs ?coll = []")
    case True
    let ?u = "unregisterClientInternal c now r"
    have "core_eq ?u (?u\<lparr>clientModels := AList.delete c (clientModels ?u),
        clientModelInfos := AList.delete c (clientModelInfos ?u),
        clientProviders := AList.delete c (clientProviders ?u)\<rparr>)"
      by (simp add: core_eq_def unregister_tables delete_id)
    then show ?thesis using unregister [OF r, of c now] True
      by (auto simp: registerClientLocked_def Let_def intro: core)
  next
    case False
    define q where "q = listAt (clientProviders r) c"
    define s where "s = (if \<not> keep \<or> map_of (clientModels r) c = None \<or> q \<noteq> ?p
      then (bumpClient c r)\<lparr>clientGenerations := AList.update c 0 (clientGenerations (bumpClient c r))\<rparr>
      else bumpClient c r)"
    have s: "I s" "clientModels s = clientModels r" "clientProviders s = clientProviders r"
      using core [OF r core_eq_bump(1)] core [OF r core_eq_bump(2)] by (auto simp: s_def)
    show ?thesis
    proof (cases "map_of (clientModels r) c")
      case None
      from fresh [OF s(1) _ refl False, of c ?p now] None s(2)
      have "I (registerFresh c ?p ?coll now s)" by simp
      from finish [OF this] None False show ?thesis
        by (simp add: registerClientLocked_def Let_def s_def q_def)
    next
      case (Some olds)
      from existing [OF s(1) _ refl False, of c olds ?p now keep] Some s(2,3)
      have "I (registerExisting \<lparr>raClient = c, raProvider = ?p, raOldProvider = q,
          raOldCounts = fold addCount olds [], raCollected = ?coll, raNow = now, raPreserve = keep\<rparr> s)"
        by (simp add: q_def)
      from finish [OF this] Some False show ?thesis
        by (simp add: registerClientLocked_def Let_def s_def q_def)
    qed
  qed
qed

lemma step_keeps: "I r \<Longrightarrow> I (registryStep tp r)"
proof (cases tp)
  case (Pair now opn)
  assume r: "I r"
  have u: "I (invalidateAvailableModelsCacheLocked (unregisterClientInternal c now r))" for c
    by (rule core [OF unregister [OF r, of c now]]) simp
  from Pair r show ?thesis
    by (cases opn)
      (auto simp: RegisterClient_def RegisterClientIfEpochCurrent_def UnregisterClient_def
        UnregisterClientIfEpochCurrent_def ReplaceClientModels_def Let_def register u capabilities
        intro: core core_eq_quota core_eq_suspend core_eq_projections core_eq_cleanup core_eq_list core_eq_hook)
qed

lemma keeps_after: "I r \<Longrightarrow> I (fold registryStep ops r)"
  by (induction ops arbitrary: r) (simp_all add: step_keeps)

lemma run_holds: "I (registryRun ops)"
  unfolding registryRun_def by (rule keeps_after [OF new])

end

end
