(* ===== verification/RegistryCounts.thy ===== *)
theory RegistryCounts
  imports RegistryRuns
begin

text \<open>
  The invariant of the reference counts over whole registries: in the registration of a model the
  count is the number of bindings of the model over all clients, and the count of a provider is the
  number over the clients of that provider; a model without a binding has no registration.
\<close>

section \<open>Bindings of the clients\<close>

definition bindings :: "ModelRegistry \<Rightarrow> string \<Rightarrow> nat" where
  "bindings r m = total (\<lambda>_ ids. count_list ids m) (clientModels r)"

definition providerBindings :: "ModelRegistry \<Rightarrow> string \<Rightarrow> string \<Rightarrow> nat" where
  "providerBindings r m p =
     (if p = [] then 0
      else total (\<lambda>c ids. if listAt (clientProviders r) c = p then count_list ids m else 0) (clientModels r))"

definition others :: "string \<Rightarrow> ModelRegistry \<Rightarrow> string \<Rightarrow> nat" where
  "others c r m = total (\<lambda>_ ids. count_list ids m) (AList.delete c (clientModels r))"

definition otherRefs :: "string \<Rightarrow> ModelRegistry \<Rightarrow> string \<Rightarrow> string \<Rightarrow> nat" where
  "otherRefs c r m p =
     (if p = [] then 0
      else total (\<lambda>c ids. if listAt (clientProviders r) c = p then count_list ids m else 0)
             (AList.delete c (clientModels r)))"

lemma otherRefs_le: "otherRefs c r m p \<le> others c r m"
  unfolding otherRefs_def others_def by (auto intro: total_mono)

lemma others_none: "others c r m = 0 \<Longrightarrow> \<forall>q. otherRefs c r m q = 0"
  using otherRefs_le [of c r m] by (metis le_zero_eq)

interpretation rec: reconciliation
    "\<lparr>raClient = c, raProvider = p, raOldProvider = q, raOldCounts = fold addCount olds [],
      raCollected = collectModels ms, raNow = now, raPreserve = keep\<rparr>" olds "others c r" "otherRefs c r"
  for c p q olds ms now keep r
  by unfold_locales (use counts_of_fold [of "[]" "[]" olds] collectModels_ok others_none in auto)

lemma bindings_split:
  assumes "wf_map (clientModels r)"
  shows "bindings r m = others c r m + count_list (listAt (clientModels r) c) m"
  using total_delete [OF assms, of "\<lambda>_ ids. count_list ids m" c]
  by (simp add: bindings_def others_def listAt_def split: option.splits)

lemma providerBindings_split:
  assumes "wf_map (clientModels r)"
  shows "providerBindings r m =
    moreRefs (listAt (clientProviders r) c) (count_list (listAt (clientModels r) c) m) (otherRefs c r m)"
proof
  fix p
  show "providerBindings r m p =
      moreRefs (listAt (clientProviders r) c) (count_list (listAt (clientModels r) c) m) (otherRefs c r m) p"
    using total_delete [OF assms, of "\<lambda>c ids. if listAt (clientProviders r) c = p then count_list ids m else 0" c]
    by (auto simp: providerBindings_def otherRefs_def moreRefs_def listAt_def split: option.splits)
qed

text \<open>The other clients do not notice what a registry says about one client.\<close>

definition same_others :: "string \<Rightarrow> ModelRegistry \<Rightarrow> ModelRegistry \<Rightarrow> bool" where
  "same_others c r s \<longleftrightarrow>
     AList.delete c (clientModels s) = AList.delete c (clientModels r) \<and>
     (\<forall>d. d \<noteq> c \<longrightarrow> listAt (clientProviders s) d = listAt (clientProviders r) d)"

lemma same_others_others: "same_others c r s \<Longrightarrow> others c s m = others c r m"
  by (simp add: same_others_def others_def)

lemma same_others_refs: "same_others c r s \<Longrightarrow> otherRefs c s m = otherRefs c r m"
proof
  fix p assume s: "same_others c r s"
  have "d \<noteq> c" if "(d, ids) \<in> set (AList.delete c (clientModels r))" for d ids
    using that by (auto simp: AList.delete_eq)
  then show "otherRefs c s m p = otherRefs c r m p"
    using s by (auto simp: same_others_def otherRefs_def intro!: total_cong)
qed

section \<open>The invariant\<close>

definition counts_exact :: "ModelRegistry \<Rightarrow> bool" where
  "counts_exact r \<longleftrightarrow>
     wf_map (clientModels r) \<and> (\<forall>c. map_of (clientProviders r) c \<noteq> Some []) \<and>
     (\<forall>m. holds (look r m) (bindings r m) (providerBindings r m))"

lemma counts_exact_cong:
  assumes "clientModels s = clientModels r" "clientProviders s = clientProviders r"
    and "\<And>m n P. holds (look s m) n P = holds (look r m) n P"
  shows "counts_exact s = counts_exact r"
proof -
  have "bindings s = bindings r" "providerBindings s = providerBindings r"
    using assms by (simp_all add: fun_eq_iff bindings_def providerBindings_def)
  then show ?thesis using assms by (simp add: counts_exact_def)
qed

text \<open>What a rewrite of one client's entry has to establish.\<close>

lemma counts_exactI:
  assumes r: "counts_exact r" and others: "same_others c r s" and wf: "wf_map (clientModels s)"
    and prov: "map_of (clientProviders s) c \<noteq> Some []" "\<And>d. d \<noteq> c \<Longrightarrow> map_of (clientProviders s) d = map_of (clientProviders r) d"
    and held: "\<And>m. holds (look s m) (others c r m + count_list (listAt (clientModels s) c) m)
                 (moreRefs (listAt (clientProviders s) c) (count_list (listAt (clientModels s) c) m) (otherRefs c r m))"
  shows "counts_exact s"
proof -
  have "map_of (clientProviders s) d \<noteq> Some []" for d
    using prov r by (cases "d = c") (auto simp: counts_exact_def)
  moreover have "holds (look s m) (bindings s m) (providerBindings s m)" for m
    using held [of m] same_others_others [OF others] same_others_refs [OF others]
    by (simp add: bindings_split [OF wf, of m c] providerBindings_split [OF wf, of m c])
  ultimately show ?thesis using wf by (simp add: counts_exact_def)
qed

lemma counts_exact_client:
  assumes "counts_exact r"
  shows "holds (look r m) (others c r m + count_list (listAt (clientModels r) c) m)
    (moreRefs (listAt (clientProviders r) c) (count_list (listAt (clientModels r) c) m) (otherRefs c r m))"
proof -
  have "wf_map (clientModels r)" and "holds (look r m) (bindings r m) (providerBindings r m)"
    using assms by (simp_all add: counts_exact_def)
  then show ?thesis by (simp add: bindings_split [of r m c] providerBindings_split [of r m c])
qed

lemma counts_exact_new: "counts_exact newModelRegistry"
  by (simp add: counts_exact_def newModelRegistry_def bindings_def providerBindings_def holds_def)

section \<open>Unregistering and registering\<close>

lemma holds_refresh:
  "holds (Some (refreshInfo b g)) n P = holds (Some g) n P"
  "holds (Some (refreshProviderInfo p b g)) n P = holds (Some g) n P"
  by (simp_all add: holds_def)

lemma holds_orphan: "holds (look (orphanStep c p m s) j) n P = holds (look s j) n P"
  by (auto simp: orphanStep_def Let_def look_setRegistration holds_refresh split: option.splits)

lemma holds_orphan_fold: "holds (look (fold (\<lambda>(m, _). orphanStep c p m) xs s) j) n P = holds (look s j) n P"
  by (induction xs arbitrary: s) (simp_all add: case_prod_beta holds_orphan)

lemma holds_orphaned:
  "holds (look (clearOrphanedClientModelInfosLocked c r) j) n P = holds (look r j) n P"
  by (simp add: clearOrphaned_alt Let_def holds_orphan_fold)

lemma provider_option:
  assumes "counts_exact r"
  shows "map_of (clientProviders r) c =
    (if listAt (clientProviders r) c = [] then None else Some (listAt (clientProviders r) c))"
  using assms by (auto simp: counts_exact_def listAt_def split: option.splits)

lemma counts_exact_unregister:
  assumes r: "counts_exact r"
  shows "counts_exact (unregisterClientInternal c now r)"
proof (rule counts_exactI [OF r, of c])
  let ?s = "unregisterClientInternal c now r" and ?p = "listAt (clientProviders r) c"
  show "same_others c r ?s" by (auto simp: same_others_def unregister_tables gomap_simps)
  show "wf_map (clientModels ?s)" using r by (auto simp: unregister_tables counts_exact_def)
  show "map_of (clientProviders ?s) c \<noteq> Some []" by (simp add: unregister_tables gomap_simps)
  show "map_of (clientProviders ?s) d = map_of (clientProviders r) d" if "d \<noteq> c" for d
    using that by (simp add: unregister_tables gomap_simps)
  fix m
  have own: "holds (look r m) (others c r m + count_list (listAt (clientModels r) c) m)
      (moreRefs ?p (count_list (listAt (clientModels r) c) m) (otherRefs c r m))"
    by (rule counts_exact_client [OF r])
  have "holds (look ?s m) (others c r m) (otherRefs c r m)"
  proof (cases "map_of (clientModels r) c")
    case None
    with own show ?thesis
      by (simp add: unregisterClientInternal_def Let_def holds_orphaned listAt_def)
  next
    case (Some ids)
    with own have "holds (look r m) (others c r m + count_list ids m)
        (moreRefs ?p (count_list ids m) (otherRefs c r m))" by (simp add: listAt_def)
    with Some show ?thesis
      by (simp add: unregisterClientInternal_def Let_def
          holds_unregister_all [OF _ others_none provider_option [OF r]])
  qed
  then show "holds (look ?s m) (others c r m + count_list (listAt (clientModels ?s) c) m)
      (moreRefs (listAt (clientProviders ?s) c) (count_list (listAt (clientModels ?s) c) m) (otherRefs c r m))"
    by (simp add: unregister_tables gomap_simps)
qed

text \<open>Both kinds of registration end by storing the client's entry.\<close>

lemma counts_exact_store:
  assumes r: "counts_exact r"
    and s: "clientModels s = clientModels r" "clientProviders s = clientProviders r"
    and held: "\<And>m. holds (look s m) (others c r m + count_list (rawModelIDs coll) m)
                 (moreRefs p (count_list (rawModelIDs coll) m) (otherRefs c r m))"
  shows "counts_exact (storeClient c p coll s)"
proof (rule counts_exactI [OF r, of c])
  show "same_others c r (storeClient c p coll s)"
    by (auto simp: same_others_def store_tables s gomap_simps)
  show "wf_map (clientModels (storeClient c p coll s))"
    using r by (simp add: store_tables s counts_exact_def)
  show "map_of (clientProviders (storeClient c p coll s)) c \<noteq> Some []"
    by (simp add: store_tables gomap_simps)
  show "map_of (clientProviders (storeClient c p coll s)) d = map_of (clientProviders r) d" if "d \<noteq> c" for d
    using that by (simp add: store_tables s gomap_simps)
  show "holds (look (storeClient c p coll s) m)
      (others c r m + count_list (listAt (clientModels (storeClient c p coll s)) c) m)
      (moreRefs (listAt (clientProviders (storeClient c p coll s)) c)
        (count_list (listAt (clientModels (storeClient c p coll s)) c) m) (otherRefs c r m))" for m
    using held [of m] by (cases "p = []") (simp_all add: store_tables gomap_simps)
qed

lemma frame_addFold: "frame (fold (\<lambda>m. addModelRegistration m p (f m) now c) ids r) = frame r"
  by (rule frame_fold) (rule frame_add)

lemma holds_addFold:
  assumes "holds (look r m) n P" and "\<And>i. i \<in> set ids \<Longrightarrow> i \<noteq> [] \<and> f i \<noteq> None"
  shows "holds (look (fold (\<lambda>m. addModelRegistration m p (f m) now c) ids r) m)
           (n + count_list ids m) (moreRefs p (count_list ids m) P)"
  using assms
proof (induction ids arbitrary: r n P)
  case (Cons i ids)
  show ?case
  proof (cases "i = m")
    case True
    with Cons.prems have "holds (look (addModelRegistration m p (f m) now c r) m) (Suc n) (moreRefs p 1 P)"
      by (intro holds_add) auto
    from Cons.IH [OF this] Cons.prems(2) True show ?thesis by (simp add: moreRefs_add)
  next
    case False
    then have "look (addModelRegistration i p (f i) now c r) m = look r m" by (simp add: look_other)
    with Cons False show ?thesis by simp
  qed
qed simp

lemma counts_exact_fresh:
  assumes r: "counts_exact r" and none: "map_of (clientModels r) c = None"
  shows "counts_exact (registerFresh c p (collectModels ms) now r)"
  unfolding registerFresh_def Let_def
proof (rule counts_exact_store [OF r])
  let ?coll = "collectModels ms"
  let ?s = "fold (\<lambda>m. addModelRegistration m p (map_of (newModels ?coll) m) now c) (rawModelIDs ?coll)
              (clearOrphanedClientModelInfosLocked c r)"
  show "clientModels ?s = clientModels r" "clientProviders ?s = clientProviders r"
    by (simp_all add: frameD [OF frame_addFold])
  fix m
  have "listAt (clientModels r) c = []" using none by (simp add: listAt_def)
  with counts_exact_client [OF r, of m c]
  have "holds (look (clearOrphanedClientModelInfosLocked c r) m) (others c r m) (otherRefs c r m)"
    by (simp add: holds_orphaned)
  then show "holds (look ?s m) (others c r m + count_list (rawModelIDs ?coll) m)
      (moreRefs p (count_list (rawModelIDs ?coll) m) (otherRefs c r m))"
  proof (rule holds_addFold)
    fix i assume "i \<in> set (rawModelIDs ?coll)"
    then show "i \<noteq> [] \<and> map_of (newModels ?coll) i \<noteq> None"
      using collectModels_ok [of ms] map_of_not_key [of i "newModels ?coll"] by (auto simp: collected_ok_def)
  qed
qed

lemma counts_exact_existing:
  assumes r: "counts_exact r" and olds: "map_of (clientModels r) c = Some olds"
  shows "counts_exact (registerExisting
    \<lparr>raClient = c, raProvider = p, raOldProvider = listAt (clientProviders r) c,
     raOldCounts = fold addCount olds [], raCollected = collectModels ms, raNow = now, raPreserve = keep\<rparr> r)"
    (is "counts_exact (registerExisting ?a r)")
  unfolding registerExisting_def
proof (rule counts_exact_store [OF r])
  show "clientModels (dropClientWebSearchCountsLocked (raClient ?a) (reconcileModels ?a r)) = clientModels r"
    "clientProviders (dropClientWebSearchCountsLocked (raClient ?a) (reconcileModels ?a r)) = clientProviders r"
    by (simp_all add: frameD [OF frame_reconcile])
  fix m
  have "listAt (clientModels r) c = olds" using olds by (simp add: listAt_def)
  with counts_exact_client [OF r, of _ c]
  have "holds (look r j) (others c r j + count_list olds j)
      (moreRefs (raOldProvider ?a) (count_list olds j) (otherRefs c r j))" for j
    by simp
  from rec.reconciled [OF this, of m]
  show "holds (look (dropClientWebSearchCountsLocked (raClient ?a) (reconcileModels ?a r)) m)
      (others (raClient ?a) r m + count_list (rawModelIDs (raCollected ?a)) m)
      (moreRefs (raProvider ?a) (count_list (rawModelIDs (raCollected ?a)) m) (otherRefs (raClient ?a) r m))"
    by simp
qed

section \<open>The invariant holds after every run\<close>

lemma counts_exact_core: "counts_exact r \<Longrightarrow> core_eq r s \<Longrightarrow> counts_exact s"
proof -
  assume r: "counts_exact r" and s: "core_eq r s"
  have "holds (look s m) n P = holds (look r m) n P" for m n P
  proof -
    have "map_option core (look s m) = map_option core (look r m)" by (rule core_eq_look [OF s])
    then show ?thesis by (cases "look s m"; cases "look r m") (auto simp: holds_def core_def)
  qed
  with r s counts_exact_cong [of s r] show ?thesis by (simp add: core_eq_def)
qed

lemma capabilityStep_tables [simp]:
  "clientModels (clientCapabilityStep f c p m r) = clientModels r"
  "clientProviders (clientCapabilityStep f c p m r) = clientProviders r"
  by (auto simp: clientCapabilityStep_def Let_def setRegistration_def split: option.splits)

lemma holds_capabilityStep: "holds (look (clientCapabilityStep f c p m r) j) n P = holds (look r j) n P"
  by (auto simp: clientCapabilityStep_def Let_def look_setRegistration holds_refresh split: option.splits)

lemma counts_exact_capabilities:
  assumes r: "counts_exact r"
  shows "counts_exact (snd (ApplyClientModelCapabilities c e f r))"
proof -
  have "counts_exact s \<Longrightarrow> counts_exact (clientCapabilityStep g d p m s)" for g d p m s
    using counts_exact_cong [of "clientCapabilityStep g d p m s" s] by (simp add: holds_capabilityStep)
  then have "counts_exact s \<Longrightarrow> counts_exact (fold (clientCapabilityStep g d p) ms s)" for g d p ms s
    by (induction ms arbitrary: s) auto
  moreover have "counts_exact (dropClientWebSearchCountsLocked d r)" for d
    using r counts_exact_cong [of "dropClientWebSearchCountsLocked d r" r] by simp
  moreover have "counts_exact s \<Longrightarrow> counts_exact (invalidateAvailableModelsCacheLocked s)" for s
    using counts_exact_cong [of "invalidateAvailableModelsCacheLocked s" s] by simp
  ultimately show ?thesis using r by (simp add: ApplyClientModelCapabilities_def Let_def split: option.splits)
qed

interpretation counts: registry_invariant counts_exact
proof unfold_locales
  show "counts_exact newModelRegistry" by (rule counts_exact_new)
qed (auto intro: counts_exact_core counts_exact_unregister counts_exact_fresh counts_exact_existing
    counts_exact_capabilities)

end
