(* ===== verification/RegistryWellformed.thy ===== *)
theory RegistryWellformed
  imports RegistryCounts
begin

text \<open>
  Well-formed registries: the tables about clients speak of the same clients and the same models,
  every map has distinct keys, and every registration has its model data, overall and for exactly
  the providers that have a reference.
\<close>

section \<open>One registration\<close>

definition reg_ok :: "ModelRegistration \<Rightarrow> bool" where
  "reg_ok g \<longleftrightarrow> Info g \<noteq> None \<and> marks_wf g \<and> wf_map (InfoByProvider g)"

definition mkeys :: "('k, 'v) gomap \<Rightarrow> 'k set" where
  "mkeys m = fst ` set m"

lemma mkeys_simps [simp]:
  "mkeys [] = {}" "mkeys [(k, v)] = {k}" "mkeys (AList.update k v m) = insert k (mkeys m)"
  "mkeys (AList.delete k m) = mkeys m - {k}"
  by (simp_all add: mkeys_def)

lemma mkeys_Some: "map_of m k = Some v \<Longrightarrow> insert k (mkeys m) = mkeys m"
  using map_of_key_in [of m k v] by (auto simp: mkeys_def)

lemma mkeysI: "map_of m k = Some v \<Longrightarrow> k \<in> mkeys m"
  using map_of_key_in [of m k v] by (simp add: mkeys_def)

definition good :: "ModelRegistration \<Rightarrow> bool" where
  "good g \<longleftrightarrow> reg_ok g \<and> mkeys (InfoByProvider g) = mkeys (Providers g)"

lemma good_fields [simp]:
  "good (g\<lparr>Count := n\<rparr>) = good g" "good (g\<lparr>LastUpdated := t\<rparr>) = good g"
  by (simp_all add: good_def reg_ok_def marks_wf_def)

lemma good_forget [simp]: "good g \<Longrightarrow> good (forgetClient c g)"
  by (auto simp: good_def reg_ok_def marks_wf_def forgetClient_def)

lemma good_release [simp]: "good g \<Longrightarrow> good (releaseProvider p g)"
  by (auto simp: good_def reg_ok_def marks_wf_def releaseProvider_def dest: mkeys_Some split: option.splits)

lemma good_refreshInfo [simp]: "good g \<Longrightarrow> good (refreshInfo b g)"
  by (auto simp: good_def reg_ok_def marks_wf_def refreshInfo_def)

lemma good_refreshProvider [simp]: "good g \<Longrightarrow> good (refreshProviderInfo p b g)"
  by (auto simp: good_def reg_ok_def marks_wf_def refreshProviderInfo_def dest: mkeys_Some split: option.splits)

definition regs_ok :: "ModelRegistry \<Rightarrow> bool" where
  "regs_ok r \<longleftrightarrow> (\<forall>m. case look r m of None \<Rightarrow> True | Some g \<Rightarrow> good g)"

lemma regs_okD: "regs_ok r \<Longrightarrow> look r m = Some g \<Longrightarrow> good g"
  unfolding regs_ok_def by (metis option.case(2))

lemma regs_ok_set: "regs_ok r \<Longrightarrow> good g \<Longrightarrow> regs_ok (setRegistration m g r)"
  by (simp add: regs_ok_def look_setRegistration)

lemma regs_ok_models: "models s = models r \<Longrightarrow> regs_ok s = regs_ok r"
  by (simp add: regs_ok_def)

lemma regs_ok_fold: "(\<And>x r. regs_ok r \<Longrightarrow> regs_ok (f x r)) \<Longrightarrow> regs_ok r \<Longrightarrow> regs_ok (fold f xs r)"
  by (induction xs arbitrary: r) auto

lemma regs_ok_funpow: "(\<And>r. regs_ok r \<Longrightarrow> regs_ok (f r)) \<Longrightarrow> regs_ok r \<Longrightarrow> regs_ok ((f ^^ n) r)"
  by (induction n) auto

lemma regs_ok_add: "regs_ok r \<Longrightarrow> regs_ok (addModelRegistration m p model now c r)"
proof (cases "look r m")
  case None
  assume "regs_ok r"
  with None show ?thesis
    by (auto simp: addModelRegistration_def good_def reg_ok_def marks_wf_def wf_map_def intro!: regs_ok_set
        split: option.splits)
next
  case (Some g)
  assume r: "regs_ok r"
  from regs_okD [OF r Some] r show ?thesis
    by (auto simp: addModelRegistration_def Some Let_def good_def reg_ok_def marks_wf_def intro!: regs_ok_set
        split: option.splits)
qed

lemma regs_ok_settle: "regs_ok r \<Longrightarrow> good g \<Longrightarrow> regs_ok (settleRemoval c m p b g r)"
proof -
  assume r: "regs_ok r" and g: "good g"
  then have "regs_ok (r\<lparr>models := AList.delete m (models r)\<rparr>)" by (simp add: regs_ok_def gomap_simps)
  with r g show ?thesis by (simp add: settleRemoval_def Let_def regs_ok_set)
qed

lemma regs_ok_remove: "regs_ok r \<Longrightarrow> regs_ok (removeModelRegistration c m p now keep r)"
  by (auto simp: removeModelRegistration_def Let_def dest: regs_okD intro!: regs_ok_settle split: option.splits)

lemma regs_ok_unregisterStep: "regs_ok r \<Longrightarrow> regs_ok (unregisterModelStep c p now m r)"
  by (auto simp: unregisterModelStep_def Let_def dest: regs_okD intro!: regs_ok_settle split: option.splits)

lemma good_move:
  assumes "good g" and "map_of (Providers g) q = Some n"
  shows "good (g\<lparr>Providers := AList.delete q (Providers g), InfoByProvider := AList.delete q (InfoByProvider g)\<rparr>)"
    "good (g\<lparr>Providers := AList.update q k (Providers g)\<rparr>)"
  using assms mkeys_Some [OF assms(2)] by (auto simp: good_def reg_ok_def marks_wf_def)

lemma regs_ok_move: "regs_ok r \<Longrightarrow> regs_ok (moveProviderStep c q oc e r)"
  by (auto simp: moveProviderStep_def Let_def dest: regs_okD intro!: regs_ok_set good_refreshProvider good_move
      split: option.splits)

lemma regs_ok_removeTimes: "regs_ok r \<Longrightarrow> regs_ok (removeTimes n c m p now keep r)"
  unfolding removeTimes_def by (rule regs_ok_funpow [OF regs_ok_remove])

lemma regs_ok_overage: "regs_ok r \<Longrightarrow> regs_ok (overageStep c q nc now keep e r)"
  by (simp add: overageStep_def Let_def regs_ok_removeTimes)

lemma regs_ok_addition: "regs_ok r \<Longrightarrow> regs_ok (additionStep c p nm oc now e r)"
  by (simp add: additionStep_def Let_def regs_ok_funpow regs_ok_add)

lemma regs_ok_orphan: "regs_ok r \<Longrightarrow> regs_ok (orphanStep c p m r)"
  by (auto simp: orphanStep_def Let_def dest: regs_okD intro!: regs_ok_set split: option.splits)

lemma regs_ok_orphaned: "regs_ok r \<Longrightarrow> regs_ok (clearOrphanedClientModelInfosLocked c r)"
  using regs_ok_fold [of "\<lambda>(m, _). orphanStep c (map_of (clientProviders r) c) m" r "listAt (clientModelInfos r) c"]
  by (simp add: clearOrphaned_alt Let_def regs_ok_models [of "_\<lparr>clientModelInfos := _\<rparr>"]
      regs_ok_models [OF drop_tables(1)] regs_ok_orphan case_prod_beta)

lemma regs_ok_capability: "regs_ok r \<Longrightarrow> regs_ok (clientCapabilityStep f c p m r)"
proof (cases "clientInfo r c m")
  case (Some info)
  assume r: "regs_ok r"
  let ?r1 = "r\<lparr>clientModelInfos := AList.update c (AList.update m (f m info) (listAt (clientModelInfos r) c)) (clientModelInfos r)\<rparr>"
  let ?r2 = "if SupportsWebSearch (f m info) then incrementWebSearchCountLocked m p ?r1 else ?r1"
  have m: "models ?r2 = models r" by simp
  then have "regs_ok ?r2" using r regs_ok_models by blast
  with Some m show ?thesis
    by (auto simp: clientCapabilityStep_def Let_def dest: regs_okD intro!: regs_ok_set split: option.splits)
qed (simp add: clientCapabilityStep_def)

section \<open>Reconciliation\<close>

text \<open>
  Updating the metadata may store a provider's data before its reference is seen; the counts show
  that the reference is there in the end.
\<close>

definition near :: "string \<Rightarrow> ModelRegistration \<Rightarrow> bool" where
  "near p g \<longleftrightarrow> reg_ok g \<and>
     mkeys (InfoByProvider g) = (if p = [] then mkeys (Providers g) else insert p (mkeys (Providers g)))"

lemma near_steps:
  "good g \<Longrightarrow> near [] (g\<lparr>Info := Some i\<rparr>)"
  "good g \<Longrightarrow> p \<noteq> [] \<Longrightarrow> near p (g\<lparr>Info := Some i, InfoByProvider := AList.update p j (InfoByProvider g)\<rparr>)"
  "near p g \<Longrightarrow> near p (g\<lparr>LastUpdated := t\<rparr>)" "near p g \<Longrightarrow> near p (forgetClient c g)"
  "near p g \<Longrightarrow> p \<noteq> [] \<Longrightarrow> insert p (mkeys l) = insert p (mkeys (Providers g)) \<Longrightarrow> near p (g\<lparr>Providers := l\<rparr>)"
  by (auto simp: near_def good_def reg_ok_def marks_wf_def forgetClient_def)

lemma near_refresh: "near p g \<Longrightarrow> near p (refreshProviderInfo q b g)"
  using mkeys_Some [of "InfoByProvider g" q]
  by (auto simp: near_def reg_ok_def marks_wf_def refreshProviderInfo_def split: option.splits)

definition nearly_good :: "string \<Rightarrow> ModelRegistration option \<Rightarrow> bool" where
  "nearly_good p reg \<longleftrightarrow> (case reg of None \<Rightarrow> True | Some g \<Rightarrow> near p g)"

lemma metadata_nearly_good:
  assumes "case look r m of None \<Rightarrow> True | Some g \<Rightarrow> good g" and "map_of (newModels (raCollected a)) m \<noteq> None"
  shows "nearly_good (raProvider a) (look (metadataStep a m r) m)"
proof (cases "look r m")
  case None
  then show ?thesis using assms(2) by (auto simp: metadataStep_def nearly_good_def)
next
  case (Some g)
  then have "good g" using assms(1) by simp
  obtain i where i: "map_of (newModels (raCollected a)) m = Some i" using assms(2) by blast
  show ?thesis
    unfolding metadataStep_def i Some Let_def using \<open>good g\<close>
    by (cases "raProvider a = []") (simp_all add: look_setRegistration nearly_good_def near_steps near_refresh)
qed

lemma reconcile_nearly_good:
  assumes r: "regs_ok r" and coll: "collected_ok (raCollected a)"
  shows "if m \<in> set (uniqueModelIDs (raCollected a)) then nearly_good (raProvider a) (look (reconcileModels a r) m)
    else (case look (reconcileModels a r) m of None \<Rightarrow> True | Some g \<Rightarrow> good g)"
proof -
  define r4 where "r4 = (let c = raCollected a; clientID = raClient a; oldProvider = raOldProvider a; oldCounts = raOldCounts a;
      removed = filter (\<lambda>(id, _). numAt (newCounts c) id = 0) oldCounts;
      r1 = (if providerChanged a \<and> oldProvider \<noteq> []
            then fold (moveProviderStep clientID oldProvider oldCounts) (newCounts c) r else r);
      r2 = fold (\<lambda>(id, n). removeTimes (nat n) clientID id oldProvider (raNow a) False) removed r1;
      r3 = fold (overageStep clientID oldProvider (newCounts c) (raNow a) (raPreserve a \<and> \<not> providerChanged a)) oldCounts r2
      in fold (additionStep clientID (raProvider a) (newModels c) oldCounts (raNow a)) (newCounts c) r3)"
  have r4: "regs_ok r4"
    unfolding r4_def Let_def using r
    by (auto intro!: regs_ok_fold regs_ok_addition regs_ok_overage regs_ok_removeTimes regs_ok_move)
  have eq: "reconcileModels a r = fold (metadataStep a) (uniqueModelIDs (raCollected a)) r4"
    by (simp add: reconcileModels_def r4_def Let_def)
  let ?Q = "\<lambda>m g. case g of None \<Rightarrow> True | Some g \<Rightarrow> good g"
  let ?R = "\<lambda>m g. if m \<in> set (uniqueModelIDs (raCollected a)) then nearly_good (raProvider a) g else ?Q m g"
  have "?R m (look (fold (metadataStep a) (uniqueModelIDs (raCollected a)) r4) m)"
  proof (rule fold_local [where k = "\<lambda>i. i" and Q = ?Q and R = ?R])
    fix x s assume x: "x \<in> set (uniqueModelIDs (raCollected a))" and Q: "?Q x (look s x)"
    then have "map_of (newModels (raCollected a)) x \<noteq> None"
      using coll map_of_not_key [of x "newModels (raCollected a)"] by (auto simp: collected_ok_def)
    from metadata_nearly_good [OF Q this] x show "?R x (look (metadataStep a x s) x)" by simp
  qed (use coll r4 in \<open>auto simp: look_other collected_ok_def regs_ok_def\<close>)
  then show ?thesis by (simp add: eq)
qed

lemma regs_ok_existing:
  assumes r: "regs_ok r" and coll: "collected_ok (raCollected a)" and counts: "counts_exact (registerExisting a r)"
  shows "regs_ok (registerExisting a r)"
  unfolding regs_ok_def
proof
  fix m
  let ?s = "registerExisting a r" and ?p = "raProvider a" and ?c = "raClient a"
  have look: "look ?s m = look (reconcileModels a r) m" by (simp add: registerExisting_def store_tables)
  note near = reconcile_nearly_good [OF r coll, of m]
  show "case look ?s m of None \<Rightarrow> True | Some g \<Rightarrow> good g"
  proof (cases "m \<in> set (uniqueModelIDs (raCollected a)) \<and> look ?s m \<noteq> None")
    case False
    with near show ?thesis by (auto simp: look split: option.splits)
  next
    case True
    then obtain g where g: "look ?s m = Some g" and n: "near ?p g"
      using near by (auto simp: look nearly_good_def)
    have h: "holds (Some g) (bindings ?s m) (providerBindings ?s m)"
      using counts g unfolding counts_exact_def by metis
    have "m \<in> set (rawModelIDs (raCollected a))" using True coll by (simp add: collected_ok_def)
    then have "0 < count_list (rawModelIDs (raCollected a)) m" by (metis count_list_0_iff neq0_conv)
    then have "0 < providerBindings ?s m ?p" if "?p \<noteq> []"
      using that counts providerBindings_split [of ?s m ?c]
      by (simp add: counts_exact_def registerExisting_def store_tables gomap_simps moreRefs_def)
    with h have "?p \<noteq> [] \<Longrightarrow> ?p \<in> mkeys (Providers g)"
      by (auto simp: holds_def refs_ok_def intro: mkeysI)
    then have "?p \<noteq> [] \<Longrightarrow> insert ?p (mkeys (Providers g)) = mkeys (Providers g)" by blast
    with n g show ?thesis by (auto simp: good_def near_def)
  qed
qed

section \<open>The clients' tables\<close>

definition client_ok :: "ModelRegistry \<Rightarrow> string \<Rightarrow> bool" where
  "client_ok r c \<longleftrightarrow>
     (case map_of (clientModels r) c of
        None \<Rightarrow> map_of (clientModelInfos r) c = None \<and> map_of (clientProviders r) c = None
      | Some ids \<Rightarrow> ids \<noteq> [] \<and> [] \<notin> set ids \<and> map_of (clientProviders r) c \<noteq> Some [] \<and>
          (case map_of (clientModelInfos r) c of
             None \<Rightarrow> False
           | Some infos \<Rightarrow> wf_map infos \<and> mkeys infos = set ids))"

definition clients_ok :: "ModelRegistry \<Rightarrow> bool" where
  "clients_ok r \<longleftrightarrow> wf_map (clientModels r) \<and> wf_map (clientModelInfos r) \<and> wf_map (clientProviders r) \<and>
     (\<forall>c. client_ok r c)"

definition wf_registry :: "ModelRegistry \<Rightarrow> bool" where
  "wf_registry r \<longleftrightarrow> counts_exact r \<and> clients_ok r \<and> regs_ok r"

lemma client_ok_cong:
  assumes "map_of (clientModels s) c = map_of (clientModels r) c"
    "map_of (clientModelInfos s) c = map_of (clientModelInfos r) c"
    "map_of (clientProviders s) c = map_of (clientProviders r) c"
  shows "client_ok s c = client_ok r c"
  unfolding client_ok_def assms by (rule refl)

lemma clients_ok_cong:
  assumes "clientModels s = clientModels r" "clientModelInfos s = clientModelInfos r"
    "clientProviders s = clientProviders r"
  shows "clients_ok s = clients_ok r"
  unfolding clients_ok_def client_ok_def assms by (rule refl)

lemma clients_ok_forget:
  assumes "clients_ok r" and "clientModels s = AList.delete c (clientModels r)"
    "clientModelInfos s = AList.delete c (clientModelInfos r)" "clientProviders s = AList.delete c (clientProviders r)"
  shows "clients_ok s"
proof -
  have "client_ok s d" for d
    using assms client_ok_cong [of s d r] by (cases "d = c") (auto simp: gomap_simps clients_ok_def client_ok_def)
  then show ?thesis using assms by (auto simp: clients_ok_def)
qed

lemma clients_ok_store:
  assumes r: "clients_ok r" and coll: "collected_ok coll" "uniqueModelIDs coll \<noteq> []"
    and s: "clientModels s = clientModels r" "clientProviders s = clientProviders r"
      "clientModelInfos s = clientModelInfos r \<or> clientModelInfos s = AList.delete c (clientModelInfos r)"
  shows "clients_ok (storeClient c p coll s)"
proof -
  have ids: "rawModelIDs coll \<noteq> []" "[] \<notin> set (rawModelIDs coll)" "wf_map (newModels coll)"
    "mkeys (newModels coll) = set (rawModelIDs coll)"
    using coll by (auto simp: collected_ok_def mkeys_def)
  have "client_ok (storeClient c p coll s) d" for d
  proof (cases "d = c")
    case True
    with ids show ?thesis by (simp add: client_ok_def store_tables gomap_simps)
  next
    case False
    with r s client_ok_cong [of "storeClient c p coll s" d r] show ?thesis
      by (auto simp: clients_ok_def store_tables gomap_simps)
  qed
  then show ?thesis using r s by (auto simp: clients_ok_def store_tables)
qed

lemma clients_ok_capability:
  assumes "clients_ok r"
  shows "clients_ok (clientCapabilityStep f c p m r)"
proof (cases "clientInfo r c m")
  case None
  with assms show ?thesis by (simp add: clientCapabilityStep_def)
next
  case (Some info)
  let ?s = "clientCapabilityStep f c p m r" and ?infos = "listAt (clientModelInfos r) c"
  have infos: "clientModelInfos ?s = AList.update c (AList.update m (f m info) ?infos) (clientModelInfos r)"
    using Some by (auto simp: clientCapabilityStep_def Let_def setRegistration_def split: option.splits)
  have k: "insert m (mkeys ?infos) = mkeys ?infos" 
    using Some mkeysI [of ?infos m info] by (auto simp: clientInfo_def)
  have "map_of (clientModelInfos r) c = Some ?infos"
    using Some by (cases "map_of (clientModelInfos r) c") (simp_all add: clientInfo_def listAt_def)
  then have "client_ok ?s d" for d
    using assms k client_ok_cong [of ?s d r]
    by (cases "d = c") (auto simp: clients_ok_def client_ok_def infos gomap_simps split: option.splits)
  then show ?thesis using assms by (simp add: clients_ok_def infos)
qed

section \<open>Every operation keeps a registry well-formed\<close>

lemma wf_registry_core: "wf_registry r \<Longrightarrow> core_eq r s \<Longrightarrow> wf_registry s"
proof -
  assume r: "wf_registry r" and s: "core_eq r s"
  have "case look s m of None \<Rightarrow> True | Some g \<Rightarrow> good g" for m
  proof -
    have "rel_option remarked (look r m) (look s m)" using s by (simp add: core_eq_def)
    then show ?thesis using regs_okD [of r m] r
      by (cases "look r m"; cases "look s m")
        (auto simp: remarked_def core_def good_def reg_ok_def wf_registry_def)
  qed
  moreover have "clients_ok s" 
    using r s clients_ok_cong [of s r] by (simp add: wf_registry_def core_eq_def)
  ultimately show ?thesis using r counts_exact_core [OF _ s] by (simp add: wf_registry_def regs_ok_def)
qed

lemma regs_ok_unregister: "regs_ok r \<Longrightarrow> regs_ok (unregisterClientInternal c now r)"
proof -
  assume r: "regs_ok r"
  define s where "s = (bumpClient c r)\<lparr>clientGenerations :=
    AList.update c (wrapU64 (numAt (clientGenerations (bumpClient c r)) c + 1)) (clientGenerations (bumpClient c r))\<rparr>"
  have s: "regs_ok s" "clientModels s = clientModels r" "clientProviders s = clientProviders r"
    using r regs_ok_models [of s r] by (simp_all add: s_def)
  show ?thesis
  proof (cases "map_of (clientModels r) c")
    case None
    then have "models (unregisterClientInternal c now r) = models (clearOrphanedClientModelInfosLocked c s)"
      by (simp add: unregisterClientInternal_def Let_def s_def)
    from regs_ok_models [OF this] show ?thesis using regs_ok_orphaned [OF s(1)] by blast
  next
    case (Some ids)
    let ?t = "fold (unregisterModelStep c (map_of (clientProviders r) c) now) ids s"
    from Some have "models (unregisterClientInternal c now r) = models ?t"
      by (simp add: unregisterClientInternal_def Let_def s_def)
    moreover have "regs_ok ?t" by (rule regs_ok_fold [OF regs_ok_unregisterStep s(1)])
    ultimately show ?thesis using regs_ok_models by blast
  qed
qed

interpretation wellformed: registry_invariant wf_registry
proof unfold_locales
  show "wf_registry newModelRegistry"
    using counts_exact_new
    by (simp add: wf_registry_def clients_ok_def client_ok_def regs_ok_def newModelRegistry_def)
next
  fix r s assume "wf_registry r" "core_eq r s"
  then show "wf_registry s" by (rule wf_registry_core)
next
  fix r c now assume r: "wf_registry r"
  have "clients_ok (unregisterClientInternal c now r)"
    by (rule clients_ok_forget [OF _ unregister_tables]) (use r in \<open>simp add: wf_registry_def\<close>)
  with r show "wf_registry (unregisterClientInternal c now r)"
    by (simp add: wf_registry_def counts_exact_unregister regs_ok_unregister)
next
  fix r c p now and ms coll
  assume r: "wf_registry r" and none: "map_of (clientModels r) c = None"
    and coll: "collectModels ms = coll" "uniqueModelIDs coll \<noteq> []"
  let ?s = "fold (\<lambda>m. addModelRegistration m p (map_of (newModels coll) m) now c) (rawModelIDs coll)
      (clearOrphanedClientModelInfosLocked c r)"
  have "counts_exact (registerFresh c p coll now r)"
    using counts_exact_fresh [of r c p ms now] r none coll by (simp add: wf_registry_def)
  moreover have "clients_ok (registerFresh c p coll now r)"
    unfolding registerFresh_def Let_def
  proof (rule clients_ok_store)
    show "clients_ok r" "collected_ok coll" "uniqueModelIDs coll \<noteq> []"
      using r coll collectModels_ok [of ms] by (simp_all add: wf_registry_def)
    show "clientModels ?s = clientModels r" "clientProviders ?s = clientProviders r"
      "clientModelInfos ?s = clientModelInfos r \<or> clientModelInfos ?s = AList.delete c (clientModelInfos r)"
      by (simp_all add: frameD [OF frame_addFold])
  qed
  moreover have "regs_ok ?s"
    using r by (intro regs_ok_fold regs_ok_add) (auto simp: wf_registry_def regs_ok_orphaned)
  then have "regs_ok (registerFresh c p coll now r)"
    by (simp add: registerFresh_def Let_def regs_ok_models [OF store_tables(1)])
  ultimately show "wf_registry (registerFresh c p coll now r)" by (simp add: wf_registry_def)
next
  fix r c olds ms coll p now keep
  assume r: "wf_registry r" and olds: "map_of (clientModels r) c = Some olds"
    and coll: "collectModels ms = coll" "uniqueModelIDs coll \<noteq> []"
  let ?a = "\<lparr>raClient = c, raProvider = p, raOldProvider = listAt (clientProviders r) c,
    raOldCounts = fold addCount olds [], raCollected = coll, raNow = now, raPreserve = keep\<rparr>"
  have counts: "counts_exact (registerExisting ?a r)"
    using counts_exact_existing [of r c olds p ms now keep] r olds coll by (simp add: wf_registry_def)
  have ok: "collected_ok (raCollected ?a)" using coll collectModels_ok [of ms] by simp
  have "clients_ok (registerExisting ?a r)"
    unfolding registerExisting_def
  proof (rule clients_ok_store)
    let ?s = "dropClientWebSearchCountsLocked (raClient ?a) (reconcileModels ?a r)"
    show "clients_ok r" "collected_ok (raCollected ?a)" "uniqueModelIDs (raCollected ?a) \<noteq> []"
      using r coll ok by (simp_all add: wf_registry_def)
    show "clientModels ?s = clientModels r" "clientProviders ?s = clientProviders r"
      "clientModelInfos ?s = clientModelInfos r \<or>
       clientModelInfos ?s = AList.delete (raClient ?a) (clientModelInfos r)"
      by (simp_all add: frameD [OF frame_reconcile])
  qed
  with counts regs_ok_existing [OF _ ok counts] r show "wf_registry (registerExisting ?a r)"
    by (simp add: wf_registry_def)
next
  fix r c e f assume r: "wf_registry r"
  have "clients_ok (fold (clientCapabilityStep g d p) ms s)" if "clients_ok s" for g d p ms s
    using that by (induction ms arbitrary: s) (simp_all add: clients_ok_capability)
  moreover have "regs_ok (fold (clientCapabilityStep g d p) ms s)" if "regs_ok s" for g d p ms s
    by (rule regs_ok_fold [OF regs_ok_capability that])
  moreover have "clients_ok (dropClientWebSearchCountsLocked d r)" "regs_ok (dropClientWebSearchCountsLocked d r)" for d
    using r clients_ok_cong [of "dropClientWebSearchCountsLocked d r" r]
      regs_ok_models [of "dropClientWebSearchCountsLocked d r" r] by (simp_all add: wf_registry_def)
  moreover have "clients_ok (invalidateAvailableModelsCacheLocked s) = clients_ok s"
    "regs_ok (invalidateAvailableModelsCacheLocked s) = regs_ok s" for s
    by (simp_all add: clients_ok_cong [of "invalidateAvailableModelsCacheLocked s" s]
        regs_ok_models [of "invalidateAvailableModelsCacheLocked s" s])
  ultimately have "clients_ok (snd (ApplyClientModelCapabilities c e f r)) \<and> regs_ok (snd (ApplyClientModelCapabilities c e f r))"
    using r by (simp add: ApplyClientModelCapabilities_def Let_def wf_registry_def split: option.splits)
  then show "wf_registry (snd (ApplyClientModelCapabilities c e f r))"
    using r by (simp add: wf_registry_def counts_exact_capabilities)
qed

section \<open>The result\<close>


end
