(* ===== verification/RegistryIndex.thy ===== *)
theory RegistryIndex
  imports RegistryCounts
begin

text \<open>
  The index of the clients that advertise web search for a model.  The counters are kept by hand
  next to the clients' own model data; the invariant says they always are the numbers a scan of
  that data gives.
\<close>

section \<open>Counters as numbers\<close>

definition index_holds :: "ModelRegistry \<Rightarrow> (string \<Rightarrow> nat) \<Rightarrow> (string \<Rightarrow> string \<Rightarrow> nat) \<Rightarrow> bool" where
  "index_holds r W WP \<longleftrightarrow> refs_ok (webSearchClientCounts r) W \<and>
     (\<forall>m. refs_ok (listAt (webSearchProviderCounts r) m) (WP m))"

lemma refs_ok_increment: "refs_ok m P \<Longrightarrow> refs_ok (AList.update k (numAt m k + 1) m) (P(k := Suc (P k)))"
  using refs_ok_update [of m P "Suc (P k)" k] refs_ok_numAt [of m P k] by (simp add: add.commute)

lemma refs_ok_decrement:
  assumes "refs_ok m P"
  shows "refs_ok (decrementCount k m) (P(k := P k - Suc 0))"
proof (cases "1 < P k")
  case True
  with refs_ok_update [OF assms, of "P k - 1" k] refs_ok_numAt [OF assms, of k] show ?thesis
    by (simp add: decrementCount_def of_nat_diff)
next
  case False
  with refs_ok_delete [OF assms, of k] refs_ok_numAt [OF assms, of k] show ?thesis
    by (simp add: decrementCount_def)
qed

lemma indexed_increment:
  assumes i: "index_holds r W WP" and "m \<noteq> []"
  shows "index_holds (incrementWebSearchCountLocked m p r) (W(m := Suc (W m))) (WP(m := moreRefs p 1 (WP m)))"
proof -
  have "refs_ok (listAt (webSearchProviderCounts r) m) (WP m)" using i by (simp add: index_holds_def)
  from refs_ok_increment [OF this, of p] i assms(2) show ?thesis
    by (auto simp: index_holds_def incrementWebSearchCountLocked_def Let_def refs_ok_increment moreRefs_def
        gomap_simps)
qed

lemma indexed_decrement:
  assumes i: "index_holds r W WP" and "m \<noteq> []"
  shows "index_holds (decrementWebSearchCountLocked m p r) (W(m := W m - 1)) (WP(m := fewerRefs p 1 (WP m)))"
proof (cases "map_of (webSearchProviderCounts r) m")
  case None
  then have "refs_ok [] (WP m)" using i by (metis index_holds_def listAt_def option.case(1))
  with None i assms(2) show ?thesis
    by (auto simp: index_holds_def decrementWebSearchCountLocked_def Let_def refs_ok_decrement fewerRefs_def listAt_def)
next
  case (Some counts)
  then have "refs_ok counts (WP m)" using i by (metis index_holds_def listAt_def option.case(2))
  from refs_ok_decrement [OF this, of p]
  have d: "refs_ok (decrementCount p counts) ((WP m)(p := WP m p - Suc 0))" .
  then have "decrementCount p counts = [] \<Longrightarrow> refs_ok [] ((WP m)(p := WP m p - Suc 0))" by simp
  with d Some i assms(2) show ?thesis
    by (auto simp: index_holds_def decrementWebSearchCountLocked_def Let_def refs_ok_decrement fewerRefs_def
        gomap_simps)
qed

text \<open>How often a list of model data advertises a model; at most once when its keys are distinct.\<close>

definition adverts :: "(string, RegModelInfo) gomap \<Rightarrow> string \<Rightarrow> nat" where
  "adverts infos m = length (filter (\<lambda>(k, info). k = m \<and> SupportsWebSearch info) infos)"

lemma adverts_simps [simp]:
  "adverts [] m = 0"
  "adverts ((k, info) # infos) m = (if k = m \<and> SupportsWebSearch info then Suc (adverts infos m) else adverts infos m)"
  by (simp_all add: adverts_def)

lemma adverts_zero: "m \<notin> fst ` set infos \<Longrightarrow> adverts infos m = 0"
  by (induction infos) auto

lemma adverts_wf:
  assumes "wf_map infos"
  shows "adverts infos m = (case map_of infos m of None \<Rightarrow> 0 | Some info \<Rightarrow> if SupportsWebSearch info then 1 else 0)"
  using assms
proof (induction infos)
  case (Cons x infos)
  then show ?case by (cases x) (auto simp: wf_map_def adverts_zero)
qed simp

lemma indexed_drop_list:
  assumes "index_holds r W WP" and "[] \<notin> fst ` set infos"
  shows "index_holds (fold (\<lambda>(m, info) s. if SupportsWebSearch info then decrementWebSearchCountLocked m p s else s) infos r)
           (\<lambda>m. W m - adverts infos m) (\<lambda>m. fewerRefs p (adverts infos m) (WP m))"
  using assms
proof (induction infos arbitrary: r W WP)
  case (Cons x infos)
  obtain k info where x: "x = (k, info)" by (cases x)
  show ?case
  proof (cases "SupportsWebSearch info")
    case True
    have "index_holds (decrementWebSearchCountLocked k p r) (W(k := W k - 1)) (WP(k := fewerRefs p 1 (WP k)))"
      using Cons.prems x by (intro indexed_decrement) auto
    from Cons.IH [OF this] Cons.prems(2)
    have "index_holds (fold (\<lambda>(m, info) s. if SupportsWebSearch info then decrementWebSearchCountLocked m p s else s)
        infos (decrementWebSearchCountLocked k p r))
        (\<lambda>m. (W(k := W k - 1)) m - adverts infos m)
        (\<lambda>m. fewerRefs p (adverts infos m) ((WP(k := fewerRefs p 1 (WP k))) m))" by auto
    moreover have "(\<lambda>m. (W(k := W k - 1)) m - adverts infos m) = (\<lambda>m. W m - adverts (x # infos) m)"
      "(\<lambda>m. fewerRefs p (adverts infos m) ((WP(k := fewerRefs p 1 (WP k))) m)) =
       (\<lambda>m. fewerRefs p (adverts (x # infos) m) (WP m))"
      using True by (auto simp: x fun_eq_iff fewerRefs_add)
    ultimately show ?thesis using True by (simp add: x)
  qed (use Cons x in simp)
qed simp

lemma indexed_add_list:
  assumes "index_holds r W WP" and "[] \<notin> fst ` set infos"
  shows "index_holds (fold (\<lambda>(m, info) s. if SupportsWebSearch info then incrementWebSearchCountLocked m p s else s) infos r)
           (\<lambda>m. W m + adverts infos m) (\<lambda>m. moreRefs p (adverts infos m) (WP m))"
  using assms
proof (induction infos arbitrary: r W WP)
  case (Cons x infos)
  obtain k info where x: "x = (k, info)" by (cases x)
  show ?case
  proof (cases "SupportsWebSearch info")
    case True
    have "index_holds (incrementWebSearchCountLocked k p r) (W(k := Suc (W k))) (WP(k := moreRefs p 1 (WP k)))"
      using Cons.prems x by (intro indexed_increment) auto
    from Cons.IH [OF this] Cons.prems(2)
    have "index_holds (fold (\<lambda>(m, info) s. if SupportsWebSearch info then incrementWebSearchCountLocked m p s else s)
        infos (incrementWebSearchCountLocked k p r))
        (\<lambda>m. (W(k := Suc (W k))) m + adverts infos m)
        (\<lambda>m. moreRefs p (adverts infos m) ((WP(k := moreRefs p 1 (WP k))) m))" by auto
    moreover have "(\<lambda>m. (W(k := Suc (W k))) m + adverts infos m) = (\<lambda>m. W m + adverts (x # infos) m)"
      "(\<lambda>m. moreRefs p (adverts infos m) ((WP(k := moreRefs p 1 (WP k))) m)) =
       (\<lambda>m. moreRefs p (adverts (x # infos) m) (WP m))"
      using True by (auto simp: x fun_eq_iff moreRefs_add)
    ultimately show ?thesis using True by (simp add: x)
  qed (use Cons x in simp)
qed simp

section \<open>The invariant\<close>

definition advertisers :: "ModelRegistry \<Rightarrow> string \<Rightarrow> nat" where
  "advertisers r m = total (\<lambda>_ infos. adverts infos m) (clientModelInfos r)"

definition providerAdvertisers :: "ModelRegistry \<Rightarrow> string \<Rightarrow> string \<Rightarrow> nat" where
  "providerAdvertisers r m p =
     (if p = [] then 0
      else total (\<lambda>c infos. if listAt (clientProviders r) c = p then adverts infos m else 0) (clientModelInfos r))"

definition otherAdv :: "string \<Rightarrow> ModelRegistry \<Rightarrow> string \<Rightarrow> nat" where
  "otherAdv c r m = total (\<lambda>_ infos. adverts infos m) (AList.delete c (clientModelInfos r))"

definition otherProvAdv :: "string \<Rightarrow> ModelRegistry \<Rightarrow> string \<Rightarrow> string \<Rightarrow> nat" where
  "otherProvAdv c r m p =
     (if p = [] then 0
      else total (\<lambda>c infos. if listAt (clientProviders r) c = p then adverts infos m else 0)
             (AList.delete c (clientModelInfos r)))"

definition infos_ok :: "ModelRegistry \<Rightarrow> bool" where
  "infos_ok r \<longleftrightarrow> wf_map (clientModelInfos r) \<and>
     (\<forall>c. wf_map (listAt (clientModelInfos r) c) \<and> [] \<notin> fst ` set (listAt (clientModelInfos r) c))"

definition index_exact :: "ModelRegistry \<Rightarrow> bool" where
  "index_exact r \<longleftrightarrow> infos_ok r \<and> index_holds r (advertisers r) (providerAdvertisers r)"

lemma advertisers_split:
  assumes "wf_map (clientModelInfos r)"
  shows "advertisers r m = otherAdv c r m + adverts (listAt (clientModelInfos r) c) m"
  using total_delete [OF assms, of "\<lambda>_ infos. adverts infos m" c]
  by (simp add: advertisers_def otherAdv_def listAt_def split: option.splits)

lemma providerAdvertisers_split:
  assumes "wf_map (clientModelInfos r)"
  shows "providerAdvertisers r m =
    moreRefs (listAt (clientProviders r) c) (adverts (listAt (clientModelInfos r) c) m) (otherProvAdv c r m)"
proof
  fix p
  show "providerAdvertisers r m p =
      moreRefs (listAt (clientProviders r) c) (adverts (listAt (clientModelInfos r) c) m) (otherProvAdv c r m) p"
    using total_delete [OF assms, of "\<lambda>c infos. if listAt (clientProviders r) c = p then adverts infos m else 0" c]
    by (auto simp: providerAdvertisers_def otherProvAdv_def moreRefs_def listAt_def split: option.splits)
qed

text \<open>After retracting a client's contributions the counters are those of the other clients.\<close>

lemma indexed_drop:
  assumes "index_exact r"
  shows "index_holds (dropClientWebSearchCountsLocked c r) (otherAdv c r) (otherProvAdv c r)"
proof -
  let ?infos = "listAt (clientModelInfos r) c" and ?p = "listAt (clientProviders r) c"
  have wf: "wf_map (clientModelInfos r)" and k: "[] \<notin> fst ` set ?infos"
    and i: "index_holds r (advertisers r) (providerAdvertisers r)"
    using assms by (auto simp: index_exact_def infos_ok_def)
  have "index_holds (dropClientWebSearchCountsLocked c r) (\<lambda>m. advertisers r m - adverts ?infos m)
      (\<lambda>m. fewerRefs ?p (adverts ?infos m) (providerAdvertisers r m))"
    unfolding dropClientWebSearchCountsLocked_def Let_def by (rule indexed_drop_list [OF i k])
  then show ?thesis
    by (simp add: advertisers_split [OF wf, of _ c] providerAdvertisers_split [OF wf, of _ c] fewerRefs_more)
qed

lemma indexed_same:
  "webSearchClientCounts s = webSearchClientCounts r \<Longrightarrow> webSearchProviderCounts s = webSearchProviderCounts r \<Longrightarrow>
   index_holds s W WP = index_holds r W WP"
  by (simp add: index_holds_def)

text \<open>What a rewrite of one client's data has to establish.\<close>

lemma index_exactI:
  assumes wf: "infos_ok s"
    and infos: "AList.delete c (clientModelInfos s) = AList.delete c (clientModelInfos r)"
    and prov: "\<And>d. d \<noteq> c \<Longrightarrow> listAt (clientProviders s) d = listAt (clientProviders r) d"
    and i: "index_holds s (\<lambda>m. otherAdv c r m + adverts (listAt (clientModelInfos s) c) m)
              (\<lambda>m. moreRefs (listAt (clientProviders s) c) (adverts (listAt (clientModelInfos s) c) m) (otherProvAdv c r m))"
  shows "index_exact s"
proof -
  have wfm: "wf_map (clientModelInfos s)" using wf by (simp add: infos_ok_def)
  have o: "otherAdv c s = otherAdv c r" by (simp add: fun_eq_iff otherAdv_def infos)
  have "d \<noteq> c" if "(d, x) \<in> set (AList.delete c (clientModelInfos r))" for d x
    using that by (auto simp: AList.delete_eq)
  then have op: "otherProvAdv c s m = otherProvAdv c r m" for m
    using prov by (auto simp: fun_eq_iff otherProvAdv_def infos intro!: total_cong)
  have "advertisers s = (\<lambda>m. otherAdv c r m + adverts (listAt (clientModelInfos s) c) m)"
    "providerAdvertisers s =
      (\<lambda>m. moreRefs (listAt (clientProviders s) c) (adverts (listAt (clientModelInfos s) c) m) (otherProvAdv c r m))"
    by (simp_all add: fun_eq_iff advertisers_split [OF wfm, of _ c] providerAdvertisers_split [OF wfm, of _ c] o op)
  then show ?thesis using wf i by (simp add: index_exact_def)
qed

section \<open>Every operation keeps it\<close>

lemma index_exact_new: "index_exact newModelRegistry"
  by (simp add: index_exact_def infos_ok_def index_holds_def newModelRegistry_def advertisers_def
      providerAdvertisers_def listAt_def)

lemma index_exact_cong:
  assumes "clientModelInfos s = clientModelInfos r" "clientProviders s = clientProviders r"
    "webSearchClientCounts s = webSearchClientCounts r" "webSearchProviderCounts s = webSearchProviderCounts r"
  shows "index_exact s = index_exact r"
proof -
  have "advertisers s = advertisers r" "providerAdvertisers s = providerAdvertisers r"
    using assms by (simp_all add: fun_eq_iff advertisers_def providerAdvertisers_def)
  then show ?thesis using assms by (simp add: index_exact_def infos_ok_def index_holds_def)
qed

lemma index_exact_core: "index_exact r \<Longrightarrow> core_eq r s \<Longrightarrow> index_exact s"
  using index_exact_cong [of s r] by (simp add: core_eq_def)

lemma index_exact_frame: "frame s = frame r \<Longrightarrow> index_exact s = index_exact r"
  using frameD [of s r] by (intro index_exact_cong) auto

lemma infos_ok_delete:
  assumes "infos_ok r" and "clientModelInfos s = AList.delete c (clientModelInfos r)"
  shows "infos_ok s"
  using assms by (auto simp: infos_ok_def gomap_simps)

text \<open>A client whose contributions were retracted and whose data was deleted.\<close>

lemma index_exact_forgotten:
  assumes r: "index_exact r"
    and s: "clientModelInfos s = AList.delete c (clientModelInfos r)"
      "\<And>d. d \<noteq> c \<Longrightarrow> listAt (clientProviders s) d = listAt (clientProviders r) d"
      "index_holds s (otherAdv c r) (otherProvAdv c r)"
  shows "index_exact s"
proof (rule index_exactI [where c = c and r = r])
  show "infos_ok s" using r s(1) by (auto simp: index_exact_def intro: infos_ok_delete)
  show "AList.delete c (clientModelInfos s) = AList.delete c (clientModelInfos r)" by (simp add: s(1))
qed (use s in \<open>auto simp: gomap_simps\<close>)

lemma webcounts_update [simp]:
  "index_holds (r\<lparr>clientModelInfos := x\<rparr>) W WP = index_holds r W WP"
  "index_holds (r\<lparr>clientProviders := y\<rparr>) W WP = index_holds r W WP"
  "index_holds (r\<lparr>clientModels := z\<rparr>) W WP = index_holds r W WP"
  "index_holds (triggerModelsUnregistered p c r) W WP = index_holds r W WP"
  by (simp_all add: index_holds_def)

lemma indexed_orphaned:
  assumes r: "index_exact r"
  shows "index_holds (clearOrphanedClientModelInfosLocked c r) (otherAdv c r) (otherProvAdv c r)"
proof -
  let ?s = "fold (\<lambda>(m, _). orphanStep c (map_of (clientProviders r) c) m) (listAt (clientModelInfos r) c) r"
  have f: "frame ?s = frame r" by (rule frame_orphan_fold)
  have "otherAdv c ?s = otherAdv c r" "otherProvAdv c ?s = otherProvAdv c r"
    by (simp_all add: fun_eq_iff otherAdv_def otherProvAdv_def frameD [OF f])
  with indexed_drop [of ?s c] index_exact_frame [OF f] r show ?thesis
    by (simp add: clearOrphaned_alt Let_def)
qed

lemma index_exact_orphaned: "index_exact r \<Longrightarrow> index_exact (clearOrphanedClientModelInfosLocked c r)"
  by (rule index_exact_forgotten [where c = c and r = r]) (simp_all add: indexed_orphaned)

lemma index_exact_unregister:
  assumes r: "index_exact r"
  shows "index_exact (unregisterClientInternal c now r)"
proof (rule index_exact_forgotten [where c = c and r = r, OF r])
  let ?s = "(bumpClient c r)\<lparr>clientGenerations := AList.update c
      (wrapU64 (numAt (clientGenerations (bumpClient c r)) c + 1)) (clientGenerations (bumpClient c r))\<rparr>"
  have s: "index_exact ?s" using r index_exact_core [OF _ core_eq_bump(2)] by blast
  have o: "otherAdv c t = otherAdv c r" "otherProvAdv c t = otherProvAdv c r"
    if "clientModelInfos t = clientModelInfos r" "clientProviders t = clientProviders r" for t
    using that by (simp_all add: fun_eq_iff otherAdv_def otherProvAdv_def)
  show "index_holds (unregisterClientInternal c now r) (otherAdv c r) (otherProvAdv c r)"
  proof (cases "map_of (clientModels r) c")
    case None
    with indexed_orphaned [OF s, of c] o [of ?s] show ?thesis
      by (simp add: unregisterClientInternal_def Let_def)
  next
    case (Some ids)
    let ?t = "fold (unregisterModelStep c (map_of (clientProviders r) c) now) ids ?s"
    have f: "frame ?t = frame ?s" by (rule frame_fold) (rule frame_unregisterStep)
    with index_exact_frame [OF f] s indexed_drop [of ?t c] o [of ?t] frameD [OF f] Some
    show ?thesis by (simp add: unregisterClientInternal_def Let_def)
  qed
qed (simp_all add: unregister_tables gomap_simps)

lemma index_exact_store:
  assumes r: "infos_ok r" and coll: "collected_ok coll"
    and s: "AList.delete c (clientModelInfos s) = AList.delete c (clientModelInfos r)" "infos_ok s"
      "\<And>d. d \<noteq> c \<Longrightarrow> listAt (clientProviders s) d = listAt (clientProviders r) d"
      "index_holds s (otherAdv c r) (otherProvAdv c r)"
  shows "index_exact (storeClient c p coll s)"
proof (rule index_exactI [where c = c and r = r])
  have k: "wf_map (newModels coll)" "[] \<notin> fst ` set (newModels coll)" using coll by (auto simp: collected_ok_def)
  show "infos_ok (storeClient c p coll s)"
    using s(2) k by (auto simp: infos_ok_def store_tables gomap_simps)
  show "AList.delete c (clientModelInfos (storeClient c p coll s)) = AList.delete c (clientModelInfos r)"
    by (simp add: store_tables s(1))
  show "listAt (clientProviders (storeClient c p coll s)) e = listAt (clientProviders r) e" if "e \<noteq> c" for e
    using that by (simp add: store_tables gomap_simps s(3))
  let ?t = "s\<lparr>clientModels := AList.update c (rawModelIDs coll) (clientModels s),
              clientModelInfos := AList.update c (newModels coll) (clientModelInfos s),
              clientProviders := (if p \<noteq> [] then AList.update c p (clientProviders s)
                                  else AList.delete c (clientProviders s))\<rparr>"
  have "index_holds ?t (otherAdv c r) (otherProvAdv c r)" using s(4) by (simp add: index_holds_def)
  from indexed_add_list [OF this k(2), of p]
  show "index_holds (storeClient c p coll s)
      (\<lambda>m. otherAdv c r m + adverts (listAt (clientModelInfos (storeClient c p coll s)) c) m)
      (\<lambda>m. moreRefs (listAt (clientProviders (storeClient c p coll s)) c)
        (adverts (listAt (clientModelInfos (storeClient c p coll s)) c) m) (otherProvAdv c r m))"
    by (cases "p = []")
      (simp_all add: store_tables gomap_simps, simp_all add: storeClient_def addClientWebSearchCountsLocked_def gomap_simps
        cong: if_cong)
qed

lemma index_exact_fresh:
  assumes r: "index_exact r"
  shows "index_exact (registerFresh c p (collectModels ms) now r)"
  unfolding registerFresh_def Let_def
proof (rule index_exact_store [OF _ collectModels_ok, where r = r])
  let ?o = "clearOrphanedClientModelInfosLocked c r"
  let ?s = "fold (\<lambda>m. addModelRegistration m p (map_of (newModels (collectModels ms)) m) now c)
              (rawModelIDs (collectModels ms)) ?o"
  have f: "frame ?s = frame ?o" by (rule frame_addFold)
  show "infos_ok r" using r by (simp add: index_exact_def)
  show "infos_ok ?s" using index_exact_orphaned [OF r, of c] index_exact_frame [OF f]
    by (simp add: index_exact_def)
  show "AList.delete c (clientModelInfos ?s) = AList.delete c (clientModelInfos r)"
    "\<And>d. listAt (clientProviders ?s) d = listAt (clientProviders r) d"
    by (simp_all add: frameD [OF f])
  show "index_holds ?s (otherAdv c r) (otherProvAdv c r)"
    using indexed_orphaned [OF r, of c] indexed_same [of ?s ?o] frameD [OF f] by simp
qed

lemma index_exact_existing:
  assumes r: "index_exact r" and coll: "collected_ok (raCollected a)"
  shows "index_exact (registerExisting a r)"
  unfolding registerExisting_def
proof (rule index_exact_store [OF _ coll, where r = r])
  let ?s = "reconcileModels a r" and ?c = "raClient a"
  have f: "frame ?s = frame r" by (rule frame_reconcile)
  have s: "index_exact ?s" using r index_exact_frame [OF f] by simp
  have "otherAdv ?c ?s = otherAdv ?c r" "otherProvAdv ?c ?s = otherProvAdv ?c r"
    by (simp_all add: fun_eq_iff otherAdv_def otherProvAdv_def frameD [OF f])
  with indexed_drop [OF s, of ?c]
  show "index_holds (dropClientWebSearchCountsLocked ?c ?s) (otherAdv ?c r) (otherProvAdv ?c r)" by simp
  show "infos_ok r" using r by (simp add: index_exact_def)
  then show "infos_ok (dropClientWebSearchCountsLocked ?c ?s)" by (simp add: infos_ok_def frameD [OF f])
qed (simp_all add: frameD [OF frame_reconcile])

text \<open>Capability updates rewrite one model's data at a time and count it again.\<close>

lemma capabilityStep_infos:
  "clientModelInfos (clientCapabilityStep f c p m r) =
     (case clientInfo r c m of
        None \<Rightarrow> clientModelInfos r
      | Some info \<Rightarrow> AList.update c (AList.update m (f m info) (listAt (clientModelInfos r) c)) (clientModelInfos r))"
  by (auto simp: clientCapabilityStep_def Let_def setRegistration_def split: option.splits)

lemma capabilityStep_index:
  assumes i: "index_holds r W WP" and "m \<noteq> []" and info: "clientInfo r c m = Some info"
  shows "index_holds (clientCapabilityStep f c p m r)
    (W(m := W m + (if SupportsWebSearch (f m info) then 1 else 0)))
    (WP(m := moreRefs p (if SupportsWebSearch (f m info) then 1 else 0) (WP m)))"
proof -
  have s: "index_holds (setRegistration j g t) V VP = index_holds t V VP" for j g t V VP
    by (simp add: index_holds_def setRegistration_def)
  let ?r1 = "r\<lparr>clientModelInfos := AList.update c (AList.update m (f m info) (listAt (clientModelInfos r) c)) (clientModelInfos r)\<rparr>"
  have "index_holds ?r1 W WP" using i by simp
  from indexed_increment [OF this assms(2), of p] this show ?thesis
    by (auto simp: clientCapabilityStep_def info Let_def s split: option.splits)
qed

definition doneAdv :: "string set \<Rightarrow> string \<Rightarrow> ModelRegistry \<Rightarrow> string \<Rightarrow> nat" where
  "doneAdv S c r m = (if m \<in> S \<and> advertises r c m then 1 else 0)"

lemma capability_fold:
  assumes "index_holds r W WP" and "infos_ok r" and "distinct ms" and "[] \<notin> set ms"
    and "set ms \<subseteq> fst ` set (listAt (clientModelInfos r) c)"
  shows "let s = fold (clientCapabilityStep f c p) ms r
    in index_holds s (\<lambda>m. W m + doneAdv (set ms) c s m) (\<lambda>m. moreRefs p (doneAdv (set ms) c s m) (WP m)) \<and>
       infos_ok s \<and> AList.delete c (clientModelInfos s) = AList.delete c (clientModelInfos r) \<and>
       clientProviders s = clientProviders r \<and>
       fst ` set (listAt (clientModelInfos s) c) = fst ` set (listAt (clientModelInfos r) c) \<and>
       (\<forall>m. m \<notin> set ms \<longrightarrow> clientInfo s c m = clientInfo r c m)"
  using assms
proof (induction ms arbitrary: r W WP)
  case Nil
  then show ?case by (simp add: doneAdv_def)
next
  case (Cons m ms)
  let ?r = "clientCapabilityStep f c p m r" and ?infos = "listAt (clientModelInfos r) c"
  obtain info where info: "clientInfo r c m = Some info"
    using Cons.prems(5) map_of_not_key [of m ?infos] by (auto simp: clientInfo_def)
  have infos: "clientModelInfos ?r = AList.update c (AList.update m (f m info) ?infos) (clientModelInfos r)"
    by (simp add: capabilityStep_infos info)
  have del: "AList.delete c (clientModelInfos ?r) = AList.delete c (clientModelInfos r)"
    by (simp add: infos)
  have keys: "fst ` set (listAt (clientModelInfos ?r) c) = fst ` set ?infos"
    using Cons.prems(5) by (auto simp: infos gomap_simps)
  have ok: "infos_ok ?r"
    using Cons.prems(2,4) by (auto simp: infos_ok_def infos gomap_simps)
  have same: "clientInfo ?r c j = (if j = m then Some (f m info) else clientInfo r c j)" for j
    by (simp add: clientInfo_def infos gomap_simps)
  let ?a = "if SupportsWebSearch (f m info) then 1 else 0"
  have i: "index_holds ?r (W(m := W m + ?a)) (WP(m := moreRefs p ?a (WP m)))"
    by (rule capabilityStep_index [OF Cons.prems(1) _ info]) (use Cons.prems(4) in auto)
  from Cons.IH [OF i ok] Cons.prems keys
  have IH: "let s = fold (clientCapabilityStep f c p) ms ?r
    in index_holds s (\<lambda>j. (W(m := W m + ?a)) j + doneAdv (set ms) c s j)
         (\<lambda>j. moreRefs p (doneAdv (set ms) c s j) ((WP(m := moreRefs p ?a (WP m))) j)) \<and>
       infos_ok s \<and> AList.delete c (clientModelInfos s) = AList.delete c (clientModelInfos ?r) \<and>
       clientProviders s = clientProviders ?r \<and>
       fst ` set (listAt (clientModelInfos s) c) = fst ` set (listAt (clientModelInfos ?r) c) \<and>
       (\<forall>j. j \<notin> set ms \<longrightarrow> clientInfo s c j = clientInfo ?r c j)"
    by simp
  define s where "s = fold (clientCapabilityStep f c p) ms ?r"
  have m: "clientInfo s c m = Some (f m info)"
    using IH Cons.prems(3) same [of m] by (simp add: s_def Let_def)
  then have adv: "doneAdv (set (m # ms)) c s m = ?a" "doneAdv (set ms) c s m = 0"
    using Cons.prems(3) by (simp_all add: doneAdv_def advertises_def)
  have "j \<noteq> m \<Longrightarrow> doneAdv (set (m # ms)) c s j = doneAdv (set ms) c s j" for j by (simp add: doneAdv_def)
  with adv have "(\<lambda>j. (W(m := W m + ?a)) j + doneAdv (set ms) c s j) = (\<lambda>j. W j + doneAdv (set (m # ms)) c s j)"
    "(\<lambda>j. moreRefs p (doneAdv (set ms) c s j) ((WP(m := moreRefs p ?a (WP m))) j)) =
     (\<lambda>j. moreRefs p (doneAdv (set (m # ms)) c s j) (WP j))"
    by (auto simp: fun_eq_iff)
  with IH del keys same show ?case by (simp add: s_def Let_def)
qed

lemma index_exact_capabilities:
  assumes r: "index_exact r"
  shows "index_exact (snd (ApplyClientModelCapabilities rawClientID e mutate r))"
proof -
  define c where "c = TrimSpace rawClientID"
  define p where "p = listAt (clientProviders r) c"
  let ?infos = "listAt (clientModelInfos r) c" and ?d = "dropClientWebSearchCountsLocked c r"
  have inv: "index_exact (invalidateAvailableModelsCacheLocked s) = index_exact s" for s
    by (rule index_exact_cong) simp_all
  have "index_exact (fold (clientCapabilityStep f c p) (map fst ?infos) ?d)" for f
  proof (rule index_exactI [where c = c and r = r])
    let ?s = "fold (clientCapabilityStep f c p) (map fst ?infos) ?d"
    have d: "index_holds ?d (otherAdv c r) (otherProvAdv c r)" by (rule indexed_drop [OF r])
    have ok: "infos_ok r" "infos_ok ?d" using r by (simp_all add: index_exact_def infos_ok_def)
    then have k: "wf_map ?infos" "[] \<notin> fst ` set ?infos" by (simp_all add: infos_ok_def)
    note fold = capability_fold [OF d ok(2), of "map fst ?infos" c f p, unfolded Let_def]
    show "infos_ok ?s" "AList.delete c (clientModelInfos ?s) = AList.delete c (clientModelInfos r)"
      "\<And>x. listAt (clientProviders ?s) x = listAt (clientProviders r) x"
      using fold k by (simp_all add: wf_map_def)
    have keys: "fst ` set (listAt (clientModelInfos ?s) c) = fst ` set ?infos" using fold k by (simp add: wf_map_def)
    have "doneAdv (set (map fst ?infos)) c ?s m = adverts (listAt (clientModelInfos ?s) c) m" for m
    proof -
      have wf: "wf_map (listAt (clientModelInfos ?s) c)" using \<open>infos_ok ?s\<close> by (simp add: infos_ok_def)
      have "m \<notin> fst ` set ?infos \<longleftrightarrow> map_of (listAt (clientModelInfos ?s) c) m = None"
        using keys map_of_not_key [of m "listAt (clientModelInfos ?s) c"] by simp
      then show ?thesis
        by (auto simp: adverts_wf [OF wf] doneAdv_def advertises_def clientInfo_def split: option.splits)
    qed
    then show "index_holds ?s (\<lambda>m. otherAdv c r m + adverts (listAt (clientModelInfos ?s) c) m)
        (\<lambda>m. moreRefs (listAt (clientProviders ?s) c) (adverts (listAt (clientModelInfos ?s) c) m) (otherProvAdv c r m))"
      using fold k by (simp add: wf_map_def p_def)
  qed
  then show ?thesis
    using r by (simp add: ApplyClientModelCapabilities_def Let_def inv c_def p_def split: option.splits)
qed

interpretation index: registry_invariant index_exact
proof unfold_locales
  show "index_exact newModelRegistry" by (rule index_exact_new)
qed (auto intro: index_exact_core index_exact_unregister index_exact_fresh index_exact_capabilities
    index_exact_existing simp: collectModels_ok)

section \<open>The index answers as a scan\<close>

text \<open>The scan over all clients that the index replaces.\<close>

definition scanWebSearch :: "ModelRegistry \<Rightarrow> string \<Rightarrow> string \<Rightarrow> string \<Rightarrow> bool" where
  "scanWebSearch r modelID provider excludeClientID =
     list_ex (\<lambda>(c, infos). c \<noteq> excludeClientID \<and> (provider = [] \<or> listAt (clientProviders r) c = provider) \<and>
        (case map_of infos modelID of None \<Rightarrow> False | Some info \<Rightarrow> SupportsWebSearch info)) (clientModelInfos r)"

lemma index_scan:
  assumes "index_exact r"
  shows "hasClientSupportingWebSearchLocked r m p x = scanWebSearch r m p x"
proof -
  have wf: "wf_map (clientModelInfos r)" and own: "wf_map (listAt (clientModelInfos r) c)" for c
    using assms by (simp_all add: index_exact_def infos_ok_def)
  have adv: "adverts (listAt (clientModelInfos r) x) m = (if advertises r x m then 1 else 0)"
    by (simp add: adverts_wf [OF own] advertises_def clientInfo_def split: option.splits)
  have entry: "0 < adverts infos m \<longleftrightarrow> (case map_of infos m of None \<Rightarrow> False | Some info \<Rightarrow> SupportsWebSearch info)"
    if "(c, infos) \<in> set (clientModelInfos r)" for c infos
  proof -
    have "listAt (clientModelInfos r) c = infos"
      using that wf by (simp add: listAt_def wf_map_in_set [OF wf])
    with own [of c] show ?thesis by (simp add: adverts_wf split: option.splits)
  qed
  have num: "numAt (webSearchClientCounts r) m = int (advertisers r m)"
    "numAt (listAt (webSearchProviderCounts r) m) p = int (providerAdvertisers r m p)"
    using assms by (auto simp: index_exact_def index_holds_def intro: refs_ok_numAt)
  have has: "hasClientSupportingWebSearchLocked r m p x \<longleftrightarrow>
      (if p = [] then 0 < otherAdv x r m else 0 < otherProvAdv x r m p)"
    unfolding hasClientSupportingWebSearchLocked_def Let_def num
    by (auto simp: advertisers_split [OF wf, of m x] providerAdvertisers_split [OF wf, of m x] moreRefs_def adv)
  have scan: "scanWebSearch r m p x \<longleftrightarrow> (\<exists>(c, infos) \<in> set (clientModelInfos r).
      c \<noteq> x \<and> (p = [] \<or> listAt (clientProviders r) c = p) \<and> 0 < adverts infos m)"
    unfolding scanWebSearch_def list_ex_iff by (rule bex_cong) (auto simp: entry)
  show ?thesis
  proof (cases "p = []")
    case True
    then show ?thesis unfolding has scan by (auto simp: otherAdv_def AList.delete_eq total_pos)
  next
    case False
    then show ?thesis unfolding has scan
      by (auto simp: otherProvAdv_def AList.delete_eq total_pos split: if_splits)
  qed
qed

end
