(* ===== verification/RegistryCache.thy ===== *)
theory RegistryCache
  imports RegistryRuns
begin

text \<open>
  The cache of the model listing.  An entry is dropped by every operation that changes a
  registration, and otherwise expires when the first quota mark it depends on does; so what it
  holds is always what a rebuild would give.
\<close>

section \<open>A listing is stable until it expires\<close>

text \<open>\<open>R\<close> is zero or positive, and below every recovery time of an active mark.\<close>

definition bounds_recoveries :: "gotime \<Rightarrow> (string, gotime) gomap \<Rightarrow> gotime \<Rightarrow> bool" where
  "bounds_recoveries t0 quotas R \<longleftrightarrow>
     (\<forall>(c, q) \<in> set quotas. quotaActive t0 q \<longrightarrow> 0 < R \<and> R \<le> q + modelQuotaExceededWindow)"

lemma earliest_fold:
  assumes t0: "0 \<le> t0"
  shows "0 \<le> e \<Longrightarrow> bounds_recoveries t0 quotas (fold (recoveryStep t0) quotas e) \<and>
    0 \<le> fold (recoveryStep t0) quotas e \<and>
    (0 < e \<longrightarrow> 0 < fold (recoveryStep t0) quotas e \<and> fold (recoveryStep t0) quotas e \<le> e)"
proof (induction quotas arbitrary: e)
  case (Cons x quotas)
  let ?e = "recoveryStep t0 x e" and ?w = "snd x + modelQuotaExceededWindow"
  have pos: "quotaActive t0 (snd x) \<Longrightarrow> 0 < ?w" using t0 by (simp add: quotaActive_def)
  have e: "0 \<le> ?e" "quotaActive t0 (snd x) \<Longrightarrow> 0 < ?e \<and> ?e \<le> ?w" "0 < e \<Longrightarrow> 0 < ?e \<and> ?e \<le> e"
    using pos Cons.prems by (auto simp: recoveryStep_def Let_def)
  from Cons.IH [OF e(1)] e(2,3) show ?case
    by (cases x) (fastforce simp: bounds_recoveries_def)
qed (simp add: bounds_recoveries_def)

lemma earliestRecovery_bounds:
  assumes "0 \<le> t0"
  shows "bounds_recoveries t0 quotas (earliestRecovery t0 quotas)" "0 \<le> earliestRecovery t0 quotas"
  unfolding earliestRecovery_def using earliest_fold [OF assms, of 0 quotas] by simp_all

lemma buildStep_expiry:
  "snd (buildStep h t0 x acc) =
     (let q = earliestRecovery t0 (QuotaExceededClients (snd x))
      in if q \<noteq> 0 \<and> (snd acc = 0 \<or> q < snd acc) then q else snd acc)"
  by (simp add: buildStep_def modelRegistrationAvailability_def Let_def split: option.splits)

lemma bounds_smaller: "bounds_recoveries t0 quotas q \<Longrightarrow> (0 < q \<Longrightarrow> 0 < R \<and> R \<le> q) \<Longrightarrow> bounds_recoveries t0 quotas R"
  by (fastforce simp: bounds_recoveries_def)

lemma build_expiry:
  assumes t0: "0 \<le> t0"
  shows "0 \<le> snd acc \<Longrightarrow> 0 \<le> snd (fold (buildStep h t0) ms acc) \<and>
    (0 < snd acc \<longrightarrow> 0 < snd (fold (buildStep h t0) ms acc) \<and> snd (fold (buildStep h t0) ms acc) \<le> snd acc) \<and>
    (\<forall>x \<in> set ms. bounds_recoveries t0 (QuotaExceededClients (snd x)) (snd (fold (buildStep h t0) ms acc)))"
proof (induction ms arbitrary: acc)
  case (Cons x ms)
  let ?q = "earliestRecovery t0 (QuotaExceededClients (snd x))" and ?a = "buildStep h t0 x acc"
  have q: "bounds_recoveries t0 (QuotaExceededClients (snd x)) ?q" "0 \<le> ?q"
    by (rule earliestRecovery_bounds [OF t0])+
  have a: "0 \<le> snd ?a" "0 < snd acc \<Longrightarrow> 0 < snd ?a \<and> snd ?a \<le> snd acc" "0 < ?q \<Longrightarrow> 0 < snd ?a \<and> snd ?a \<le> ?q"
    using q(2) Cons.prems by (auto simp: buildStep_expiry Let_def)
  note IH = Cons.IH [OF a(1)]
  have "bounds_recoveries t0 (QuotaExceededClients (snd x)) (snd (fold (buildStep h t0) ms ?a))"
    by (rule bounds_smaller [OF q(1)]) (use IH a(3) in force)
  with IH a(2) show ?case by force
qed simp

lemma availability_stable:
  assumes "t0 \<le> now" and "bounds_recoveries t0 (QuotaExceededClients g) R" and "R = 0 \<or> now < R"
  shows "fst (modelRegistrationAvailability g now) = fst (modelRegistrationAvailability g t0)"
proof -
  have act: "quotaActive now q = quotaActive t0 q" if "(c, q) \<in> set (QuotaExceededClients g)" for c q
    using that assms by (fastforce simp: bounds_recoveries_def quotaActive_def)
  have "countIf (\<lambda>(_, t). quotaActive now t) (QuotaExceededClients g) =
      countIf (\<lambda>(_, t). quotaActive t0 t) (QuotaExceededClients g)"
    using act by (auto simp: countIf_def intro!: arg_cong [where f = length] filter_cong)
  moreover have "quotaAlso now g = quotaAlso t0 g"
  proof
    fix cr
    show "quotaAlso now g cr = quotaAlso t0 g cr"
      using act map_of_SomeD [of "QuotaExceededClients g" "fst cr"]
      by (auto simp: quotaAlso_def split: option.splits)
  qed
  ultimately show ?thesis by (simp add: modelRegistrationAvailability_def)
qed

lemma build_stable:
  assumes t: "0 \<le> t0" "t0 \<le> now" and b: "buildAvailableModelsLocked h t0 r = (ms, e)" and "e = 0 \<or> now < e"
  shows "fst (buildAvailableModelsLocked h now r) = ms"
proof -
  have bd: "bounds_recoveries t0 (QuotaExceededClients g) e" if "(m, g) \<in> set (models r)" for m g
    using build_expiry [OF t(1), of "([], 0)" h "models r"] b that
    by (force simp: buildAvailableModelsLocked_def)
  have "fst (fold (buildStep h now) gs acc) = fst (fold (buildStep h t0) gs acc')"
    if "set gs \<subseteq> set (models r)" "fst acc = fst acc'" for gs acc acc'
    using that
  proof (induction gs arbitrary: acc acc')
    case (Cons x gs)
    obtain m g where x: "x = (m, g)" by (cases x)
    have "fst (modelRegistrationAvailability g now) = fst (modelRegistrationAvailability g t0)"
      using availability_stable [OF t(2) bd assms(4)] Cons.prems x by auto
    then have "fst (buildStep h now x acc) = fst (buildStep h t0 x acc')"
      using Cons.prems(2) by (simp add: buildStep_def x case_prod_beta Let_def split: option.splits)
    with Cons show ?case by simp
  qed simp
  from this [of "models r" "([], 0)" "([], 0)"] b show ?thesis
    by (simp add: buildAvailableModelsLocked_def)
qed

section \<open>Every change of a registration drops the cache\<close>

definition drops_or_keeps :: "ModelRegistry \<Rightarrow> ModelRegistry \<Rightarrow> bool" where
  "drops_or_keeps r s \<longleftrightarrow> availableModelsCache s = [] \<or>
     (models s = models r \<and> availableModelsCache s = availableModelsCache r)"

lemma drops_invalidate [simp]: "drops_or_keeps r (invalidateAvailableModelsCacheLocked s)"
  by (simp add: drops_or_keeps_def)

lemma keeps_refl [simp]: "drops_or_keeps r r"
  by (simp add: drops_or_keeps_def)

lemma update_same: "map_of m k = Some v \<Longrightarrow> AList.update k v m = m"
  by (induction m) auto

lemma project_same:
  "\<not> snd (projectSuspension c now p g) \<Longrightarrow> fst (projectSuspension c now p g) = g"
  "\<not> snd (projectQuota c now p g) \<Longrightarrow> fst (projectQuota c now p g) = g"
  by (auto simp: projectSuspension_def projectQuota_def split: if_splits)

lemma projectStep_unchanged:
  "\<not> snd (projectStep c now reg p rc) \<Longrightarrow>
   \<not> snd rc \<and> models (fst (projectStep c now reg p rc)) = models (fst rc)"
  by (auto simp: projectStep_def Let_def case_prod_beta project_same setRegistration_def update_same
      split: option.splits if_splits)

lemma projectStep_cache: "availableModelsCache (fst (projectStep c now reg p rc)) = availableModelsCache (fst rc)"
  by (auto simp: projectStep_def Let_def case_prod_beta setRegistration_def split: option.splits)

lemma project_unchanged:
  "\<not> snd (fold (projectStep c now reg) ps rc) \<Longrightarrow>
   \<not> snd rc \<and> models (fst (fold (projectStep c now reg) ps rc)) = models (fst rc)"
proof (induction ps arbitrary: rc)
  case (Cons p ps)
  from Cons.prems Cons.IH [of "projectStep c now reg p rc"] projectStep_unchanged [of c now reg p rc]
  show ?case by simp
qed simp

lemma project_cache: "availableModelsCache (fst (fold (projectStep c now reg) ps rc)) = availableModelsCache (fst rc)"
  by (induction ps arbitrary: rc) (simp_all add: projectStep_cache)

lemma drops_projections: "drops_or_keeps r (snd (ApplyClientModelProjections c e g ps now r))"
  using project_unchanged project_cache
  by (auto simp: ApplyClientModelProjections_def Let_def case_prod_beta drops_or_keeps_def)

lemma drops_cleanup: "drops_or_keeps r (CleanupExpiredQuotas now r)"
proof (cases "list_ex (\<lambda>(_, reg). list_ex (\<lambda>(_, t). quotaExpired now t) (QuotaExceededClients reg)) (models r)")
  case False
  then have "map_vals (\<lambda>_ reg. reg\<lparr>QuotaExceededClients :=
      filter (\<lambda>(_, t). \<not> quotaExpired now t) (QuotaExceededClients reg)\<rparr>) (models r) = models r"
    unfolding map_vals_def
  proof (intro map_idI)
    fix x assume "x \<in> set (models r)"
    with False have "filter (\<lambda>(_, t). \<not> quotaExpired now t) (QuotaExceededClients (snd x)) = QuotaExceededClients (snd x)"
      by (intro filter_True) (cases x, force simp: list_ex_iff)
    then show "(case x of (k, v) \<Rightarrow> (k, v\<lparr>QuotaExceededClients :=
        filter (\<lambda>(_, t). \<not> quotaExpired now t) (QuotaExceededClients v)\<rparr>)) = x"
      by (simp add: case_prod_beta)
  qed
  with False show ?thesis by (simp add: CleanupExpiredQuotas_def drops_or_keeps_def)
qed (simp add: CleanupExpiredQuotas_def)

lemma drops_register: "drops_or_keeps r (registerClientLocked c p ms keep now r)"
  by (simp add: registerClientLocked_def Let_def drops_or_keeps_def)

lemma drops_step:
  assumes "\<And>h. opn \<noteq> OList h"
  shows "drops_or_keeps r (registryStep (now, opn) r)"
proof (cases opn)
  case (OProject c e g ps)
  then show ?thesis by (simp add: drops_projections)
next
  case OCleanup
  then show ?thesis by (simp add: drops_cleanup)
next
  case (OSetHook b)
  then show ?thesis by (simp add: SetHook_def drops_or_keeps_def)
qed (use assms in \<open>auto simp: drops_register RegisterClient_def RegisterClientIfEpochCurrent_def UnregisterClient_def
      UnregisterClientIfEpochCurrent_def ReplaceClientModels_def Let_def SetModelQuotaExceeded_def
      ClearModelQuotaExceeded_def SuspendClientModel_def ResumeClientModel_def
      ApplyClientModelCapabilities_def split: option.splits\<close>)

section \<open>The cache after every run\<close>

definition cache_ok :: "gotime \<Rightarrow> ModelRegistry \<Rightarrow> bool" where
  "cache_ok t r \<longleftrightarrow> (\<forall>h entry. map_of (availableModelsCache r) h = Some entry \<longrightarrow>
     (\<exists>t0. 0 \<le> t0 \<and> t0 \<le> t \<and> buildAvailableModelsLocked h t0 r = (cmodels entry, expiresAt entry)))"

lemma build_models: "models s = models r \<Longrightarrow> buildAvailableModelsLocked h t s = buildAvailableModelsLocked h t r"
  by (simp add: buildAvailableModelsLocked_def)

lemma cache_ok_later: "cache_ok t r \<Longrightarrow> t \<le> t' \<Longrightarrow> cache_ok t' r"
  unfolding cache_ok_def by (meson order_trans)

lemma cache_ok_list:
  assumes "cache_ok now r" and "0 \<le> now"
  shows "cache_ok now (snd (GetAvailableModels h now r))"
proof -
  obtain ms e where b: "buildAvailableModelsLocked h now r = (ms, e)" by (cases "buildAvailableModelsLocked h now r")
  let ?s = "r\<lparr>availableModelsCache := AList.update h \<lparr>cmodels = ms, expiresAt = e\<rparr> (availableModelsCache r)\<rparr>"
  have "buildAvailableModelsLocked k t ?s = buildAvailableModelsLocked k t r" for k t by (rule build_models) simp
  then have "cache_ok now ?s" using assms b by (auto simp: cache_ok_def gomap_simps)
  then show ?thesis using assms(1) by (auto simp: GetAvailableModels_def b split: option.splits)
qed

lemma cache_ok_step:
  assumes "cache_ok now r" and "0 \<le> now"
  shows "cache_ok now (registryStep (now, opn) r)"
proof (cases "\<exists>h. opn = OList h")
  case True
  then show ?thesis using cache_ok_list [OF assms] by auto
next
  case False
  then have "drops_or_keeps r (registryStep (now, opn) r)" by (intro drops_step) auto
  then show ?thesis using assms(1) build_models [of "registryStep (now, opn) r" r]
    by (auto simp: drops_or_keeps_def cache_ok_def)
qed

lemma cache_ok_run:
  assumes "cache_ok t r" and "sorted (t # map fst ops)" and "0 \<le> t"
  shows "cache_ok (last (t # map fst ops)) (fold registryStep ops r)"
  using assms
proof (induction ops arbitrary: t r)
  case (Cons x ops)
  obtain now opn where x: "x = (now, opn)" by (cases x)
  have now: "t \<le> now" "0 \<le> now" "sorted (now # map fst ops)" using Cons.prems by (auto simp: x)
  have "cache_ok now (registryStep x r)"
    unfolding x by (rule cache_ok_step [OF cache_ok_later [OF Cons.prems(1) now(1)] now(2)])
  from Cons.IH [OF this now(3,2)] show ?case by (simp add: x)
qed simp

end
