(* ===== verification/RegistryEpochs.thy ===== *)
theory RegistryEpochs
  imports RegistryRuns
begin

text \<open>
  Registration epochs: every registration and every removal of a client advances its 64-bit epoch
  by one, nothing else does, so a writer that holds an older epoch is refused.  Also what a
  registration stores is what a reader of the client's models gets back.
\<close>

section \<open>Who advances an epoch\<close>

definition bumped :: "string \<Rightarrow> ModelRegistry \<Rightarrow> (string, nat) gomap" where
  "bumped c r = AList.update c (wrapU64 (numAt (clientEpochs r) c + 1)) (clientEpochs r)"

lemma epochs_bump: "clientEpochs (bumpClient c r) = bumped c r"
  by (simp add: bumpClient_def bumped_def)

lemma epochs_orphan: "clientEpochs (clearOrphanedClientModelInfosLocked c r) = clientEpochs r"
  by (simp add: clearOrphaned_alt Let_def frameD [OF frame_orphan_fold])

lemma epochs_unregister: "clientEpochs (unregisterClientInternal c now r) = bumped c r"
proof -
  have f: "frame (fold (unregisterModelStep c p now) ms s) = frame s" for p ms s
    by (rule frame_fold) (rule frame_unregisterStep)
  show ?thesis
    by (auto simp: unregisterClientInternal_def Let_def epochs_orphan epochs_bump frameD [OF f]
        split: option.splits)
qed

lemma epochs_store: "clientEpochs (storeClient c p coll r) = clientEpochs r"
  by (simp add: storeClient_def)

lemma epochs_register: "clientEpochs (registerClientLocked c p ms keep now r) = bumped c r"
proof -
  have "frame (fold (\<lambda>m. addModelRegistration m q (f m) now c) ids s) = frame s" for q f ids s
    by (rule frame_fold) (rule frame_add)
  then show ?thesis
    by (auto simp: registerClientLocked_def Let_def registerFresh_def registerExisting_def epochs_unregister
        epochs_store epochs_orphan epochs_bump frameD [of "fold _ _ _"] frameD [OF frame_reconcile]
        split: option.splits)
qed

lemma epochs_project: "clientEpochs (snd (ApplyClientModelProjections c e g ps now r)) = clientEpochs r"
proof -
  have "clientEpochs (fst (projectStep d now reg p rc)) = clientEpochs (fst rc)" for d reg p rc
    by (auto simp: projectStep_def Let_def case_prod_beta setRegistration_def split: option.splits)
  then have "clientEpochs (fst (fold (projectStep d now reg) ps rc)) = clientEpochs (fst rc)" for d reg rc
    by (induction ps arbitrary: rc) simp_all
  then show ?thesis by (simp add: ApplyClientModelProjections_def Let_def case_prod_beta)
qed

lemma epochs_capabilities: "clientEpochs (snd (ApplyClientModelCapabilities c e f r)) = clientEpochs r"
proof -
  have "clientEpochs (clientCapabilityStep g d p m s) = clientEpochs s" for g d p m s
    by (auto simp: clientCapabilityStep_def Let_def setRegistration_def split: option.splits)
  then have "clientEpochs (fold (clientCapabilityStep g d p) ms s) = clientEpochs s" for g d p ms s
    by (induction ms arbitrary: s) simp_all
  then show ?thesis by (simp add: ApplyClientModelCapabilities_def Let_def split: option.splits)
qed

text \<open>The steps that (un)register a client whatever its epoch is.\<close>

fun renews :: "string \<Rightarrow> registryOp \<Rightarrow> bool" where
  "renews c (ORegister d p ms) \<longleftrightarrow> d = c"
| "renews c (OUnregister d) \<longleftrightarrow> d = c"
| "renews c _ \<longleftrightarrow> False"

lemma epoch_step:
  "\<exists>k \<le> 1. numAt (clientEpochs (registryStep (now, opn) r)) c = (if k = 0 then numAt (clientEpochs r) c
      else wrapU64 (numAt (clientEpochs r) c + 1)) \<and> (renews c opn \<longrightarrow> k = (1::nat))"
proof -
  have b: "numAt (bumped d r) c = (if c = d then wrapU64 (numAt (clientEpochs r) c + 1) else numAt (clientEpochs r) c)" for d
    by (simp add: bumped_def gomap_simps)
  have m: "clientEpochs (setRegistration m g s) = clientEpochs s" for m g s by (simp add: setRegistration_def)
  have "numAt (clientEpochs (registryStep (now, opn) r)) c = wrapU64 (numAt (clientEpochs r) c + 1) \<or>
      (numAt (clientEpochs (registryStep (now, opn) r)) c = numAt (clientEpochs r) c \<and> \<not> renews c opn)"
    by (cases opn)
      (auto simp: RegisterClient_def RegisterClientIfEpochCurrent_def UnregisterClient_def
        UnregisterClientIfEpochCurrent_def ReplaceClientModels_def Let_def epochs_register epochs_unregister b m
        epochs_project epochs_capabilities SetModelQuotaExceeded_def ClearModelQuotaExceeded_def
        SuspendClientModel_def ResumeClientModel_def CleanupExpiredQuotas_def SetHook_def
        GetAvailableModels_def case_prod_beta split: option.splits)
  then show ?thesis
    by (metis (no_types, lifting) le_numeral_extra(4) zero_le_one zero_neq_one)
qed

lemma wrapU64_mod: "wrapU64 n = n mod 2 ^ 64"
  by (simp add: wrapU64_def nat_mod_as_int)

lemma wrapU64_add: "wrapU64 (wrapU64 a + b) = wrapU64 (a + b)"
  by (simp add: wrapU64_mod mod_simps)

lemma epoch_run:
  assumes "numAt (clientEpochs r) c = wrapU64 e"
  shows "\<exists>k \<le> length ops. numAt (clientEpochs (fold registryStep ops r)) c = wrapU64 (e + k) \<and>
    ((\<exists>x \<in> set ops. renews c (snd x)) \<longrightarrow> 0 < k)"
  using assms
proof (induction ops arbitrary: r e)
  case (Cons x ops)
  obtain now opn where x: "x = (now, opn)" by (cases x)
  from epoch_step [of now opn r c] obtain k :: nat where k: "k \<le> 1 \<and>
      numAt (clientEpochs (registryStep (now, opn) r)) c =
        (if k = 0 then numAt (clientEpochs r) c else wrapU64 (numAt (clientEpochs r) c + 1)) \<and>
      (renews c opn \<longrightarrow> k = 1)" by (rule exE)
  then have "numAt (clientEpochs (registryStep x r)) c = wrapU64 (e + k)"
    using Cons.prems wrapU64_add [of e 1] by (auto simp: x le_Suc_eq)
  from Cons.IH [OF this] obtain j where j: "j \<le> length ops"
    "numAt (clientEpochs (fold registryStep ops (registryStep x r))) c = wrapU64 (e + k + j)"
    "(\<exists>x \<in> set ops. renews c (snd x)) \<longrightarrow> 0 < j" by blast
  then show ?case using k x by (intro exI [of _ "k + j"]) (auto simp: add.assoc)
qed (use assms in auto)

lemma wrapU64_differs:
  assumes "0 < k" and "k < 2 ^ 64"
  shows "wrapU64 (e + k) \<noteq> wrapU64 e"
proof
  assume "wrapU64 (e + k) = wrapU64 e"
  then have "2 ^ 64 dvd (e + k) - e" by (simp add: wrapU64_mod mod_eq_dvd_iff_nat)
  with assms show False by (auto dest: dvd_imp_le)
qed

lemma epoch_in_range: "numAt (clientEpochs (registryRun ops)) c = wrapU64 (numAt (clientEpochs (registryRun ops)) c)"
proof -
  obtain k where "numAt (clientEpochs (registryRun ops)) c = wrapU64 k"
    using epoch_run [of newModelRegistry c 0 ops] by (auto simp: registryRun_def newModelRegistry_def wrapU64_mod)
  then show ?thesis by (simp add: wrapU64_mod)
qed

lemma epoch_renewed:
  assumes "length later < 2 ^ 64" and "\<exists>x \<in> set later. renews c (snd x)"
  shows "ClientRegistrationEpoch c (fold registryStep later (registryRun ops)) \<noteq>
    ClientRegistrationEpoch c (registryRun ops)"
proof -
  let ?e = "ClientRegistrationEpoch c (registryRun ops)"
  have e: "numAt (clientEpochs (registryRun ops)) c = wrapU64 ?e" "?e = wrapU64 ?e"
    using epoch_in_range by (simp_all add: ClientRegistrationEpoch_def)
  from epoch_run [OF e(1), of later] assms obtain k where "k \<le> length later" "0 < k"
    "ClientRegistrationEpoch c (fold registryStep later (registryRun ops)) = wrapU64 (?e + k)"
    unfolding ClientRegistrationEpoch_def by blast
  moreover from this assms(1) have "k < 2 ^ 64" by linarith
  ultimately show ?thesis using wrapU64_differs [of k ?e] e(2) by metis
qed

section \<open>What was registered is what is read\<close>

text \<open>The first valid entry for an identifier.\<close>

fun firstModel :: "RegModelInfo option list \<Rightarrow> string \<Rightarrow> RegModelInfo option" where
  "firstModel [] i = None"
| "firstModel (None # ms) i = firstModel ms i"
| "firstModel (Some m # ms) i = (if MID m = i \<and> i \<noteq> [] then Some m else firstModel ms i)"

fun validIDs :: "RegModelInfo option list \<Rightarrow> string list" where
  "validIDs [] = []"
| "validIDs (None # ms) = validIDs ms"
| "validIDs (Some m # ms) = (if MID m = [] then validIDs ms else MID m # validIDs ms)"

lemma collect_fold:
  "rawModelIDs (fold collectModelStep ms c) = rawModelIDs c @ validIDs ms \<and>
   map_of (newModels (fold collectModelStep ms c)) i =
     (case map_of (newModels c) i of Some m \<Rightarrow> Some m | None \<Rightarrow> firstModel ms i)"
proof (induction ms arbitrary: c rule: validIDs.induct)
  case (3 m ms)
  from "3.IH" [of "collectModelStep (Some m) c"] show ?case
    by (auto simp: collectModelStep_def Let_def gomap_simps split: option.splits)
qed (auto simp: collectModelStep_def split: option.splits)

lemma collect_raw: "rawModelIDs (collectModels ms) = validIDs ms"
  and collect_models: "map_of (newModels (collectModels ms)) i = firstModel ms i"
  using collect_fold [of ms "\<lparr>uniqueModelIDs = [], rawModelIDs = [], newModels = [], newCounts = []\<rparr>" i]
  by (simp_all add: collectModels_def)

lemma unique_empty: "uniqueModelIDs (collectModels ms) = [] \<longleftrightarrow> validIDs ms = []"
  using collectModels_ok [of ms] by (auto simp: collected_ok_def collect_raw)

lemma clone_empty: "validIDs ms = [] \<Longrightarrow> cloneUniqueLoop seen ms = []"
  by (induction ms rule: validIDs.induct) (auto split: if_splits)

lemma loop_reads:
  assumes "\<And>i. i \<notin> set seen \<Longrightarrow> i \<in> set (validIDs ms) \<Longrightarrow> clientInfo r c i = firstModel ms i"
  shows "clientModelLoop c r seen (validIDs ms) = cloneUniqueLoop seen ms"
  using assms
proof (induction ms arbitrary: seen rule: validIDs.induct)
  case (3 m ms)
  show ?case
  proof (cases "MID m = [] \<or> MID m \<in> set seen")
    case True
    have "clientModelLoop c r seen (validIDs ms) = cloneUniqueLoop seen ms"
    proof (cases "MID m = []")
      case True
      show ?thesis by (rule "3.IH"(1) [OF True]) (use 3(3) True in auto)
    next
      case False
      show ?thesis by (rule "3.IH"(2) [OF False]) (use 3(3) True False in auto)
    qed
    with True show ?thesis by auto
  next
    case False
    have "clientInfo r c (MID m) = Some m" using 3(3) [of "MID m"] False by simp
    moreover have "clientModelLoop c r (MID m # seen) (validIDs ms) = cloneUniqueLoop (MID m # seen) ms"
      by (rule "3.IH"(2)) (use 3(3) False in auto)
    ultimately show ?thesis using False by simp
  qed
qed auto

lemma registered_tables:
  assumes "validIDs ms \<noteq> []"
  shows "listAt (clientModels (registerClientLocked c p ms keep now r)) c = validIDs ms"
    and "listAt (clientModelInfos (registerClientLocked c p ms keep now r)) c = newModels (collectModels ms)"
  using assms unique_empty [of ms]
  by (auto simp: registerClientLocked_def Let_def registerFresh_def registerExisting_def store_tables gomap_simps
      collect_raw split: option.splits)

lemma register_reads:
  "GetModelsAndEpochForClient c (registerClientLocked c p ms keep now r) =
     (cloneModelInfosUnique ms, wrapU64 (ClientRegistrationEpoch c r + 1))"
proof (cases "validIDs ms = []")
  case True
  then have "listAt (clientModels (registerClientLocked c p ms keep now r)) c = []"
    using unique_empty [of ms] by (simp add: registerClientLocked_def Let_def gomap_simps)
  with clone_empty [OF True] show ?thesis
    by (simp add: GetModelsAndEpochForClient_def epochs_register bumped_def gomap_simps ClientRegistrationEpoch_def
        cloneModelInfosUnique_def)
next
  case False
  note tables = registered_tables [OF False, of c p keep now r]
  have "clientModelLoop c (registerClientLocked c p ms keep now r) [] (validIDs ms) = cloneUniqueLoop [] ms"
    by (rule loop_reads) (simp add: clientInfo_def tables collect_models)
  then show ?thesis
    by (simp add: GetModelsAndEpochForClient_def tables epochs_register bumped_def gomap_simps
        ClientRegistrationEpoch_def cloneModelInfosUnique_def)
qed

end
