(* ===== verification/RegistryProjection.thy ===== *)
theory RegistryProjection
  imports CooldownStore RegistryProperties
begin

text \<open>
  The conductor publishes the state of a credential to the model registry
  (\<open>clientModelProjectionForAuth\<close> in \<open>src/sdk/cliproxy/auth/conductor_models.go\<close> and the end of
  \<open>MarkResult\<close> in \<open>src/sdk/cliproxy/auth/conductor_cooldown.go\<close>): one projection for every model
  the registry lists for the client, applied under the epoch read with that list.  This is where
  the verdicts of the selectors meet the availability that the model listings show.
\<close>

section \<open>Projections\<close>

definition projectionKey :: "'r cooldownEnv \<Rightarrow> Auth \<Rightarrow> string \<Rightarrow> string" where
  "projectionKey env a targetModel =
     (let targetKey = canonicalModelKey (selectionModelForAuth env a targetModel)
      in if targetKey = [] then canonicalModelKey targetModel else targetKey)"

definition stateSuspended :: "ModelState \<Rightarrow> gotime \<Rightarrow> bool" where
  "stateSuspended s now \<longleftrightarrow> MStatus s = StatusDisabled \<or> MUnavailable s \<or>
     (\<not> IsZero (MNextRetryAfter s) \<and> After (MNextRetryAfter s) now)"

definition stateQuotaExceeded :: "ModelState \<Rightarrow> gotime \<Rightarrow> bool" where
  "stateQuotaExceeded s now \<longleftrightarrow> Exceeded (MQuota s) \<and>
     (IsZero (NextRecoverAt (MQuota s)) \<or> After (NextRecoverAt (MQuota s)) now)"

definition clientModelProjectionForAuth ::
  "'r cooldownEnv \<Rightarrow> Auth option \<Rightarrow> string \<Rightarrow> gotime \<Rightarrow> ClientModelProjection" where
  "clientModelProjectionForAuth env auth routeModel now =
     (let targetModel = TrimSpace routeModel;
          none = \<lparr>PModelID = [], PSuspended = False, PSuspendReason = [], PQuotaExceeded = False\<rparr>
      in if targetModel = [] then none
         else
           (case auth of
              None \<Rightarrow> none\<lparr>PModelID := targetModel\<rparr>
            | Some a \<Rightarrow>
                (let state = existingModelState a (projectionKey env a targetModel);
                     s1 = (Disabled a \<or> Status a = StatusDisabled \<or> credentialQuotaActive a now);
                     s2 = (s1 \<or> (case state of None \<Rightarrow> False | Some s \<Rightarrow> stateSuspended s now));
                     q = (case state of None \<Rightarrow> False | Some s \<Rightarrow> stateQuotaExceeded s now);
                     r1 = (case state of
                             None \<Rightarrow> []
                           | Some s \<Rightarrow> if s2 then cooldownReason (MStatusMessage s) (MQuota s) (MLastError s) else []);
                     s3 = (s2 \<or> (ModelStates a = [] \<and> Unavailable a \<and> After (NextRetryAfter a) now));
                     r2 = (if s3 \<and> r1 = [] then cooldownReason (StatusMessage a) (Quota a) (LastError a) else r1)
                 in \<lparr>PModelID = targetModel, PSuspended = s3, PSuspendReason = r2, PQuotaExceeded = q\<rparr>)))"

definition publishProjections ::
  "'r cooldownEnv \<Rightarrow> string \<Rightarrow> Auth option \<Rightarrow> gotime \<Rightarrow> gotime \<Rightarrow> ModelRegistry \<Rightarrow> ModelRegistry" where
  "publishProjections env authID snapshot now applied r =
     (let (supportedModels, regEpoch) = GetModelsAndEpochForClient authID r;
          projections = map (\<lambda>sm. clientModelProjectionForAuth env snapshot (MID sm) now)
            (filter (\<lambda>sm. TrimSpace (MID sm) \<noteq> []) supportedModels)
      in case snapshot of
           None \<Rightarrow> r
         | Some a \<Rightarrow>
             if projections = [] then r
             else snd (ApplyClientModelProjections authID regEpoch (Generation a) projections applied r))"

section \<open>Applying a projection\<close>

definition displays :: "ModelRegistry \<Rightarrow> string \<Rightarrow> string \<Rightarrow> bool \<Rightarrow> bool \<Rightarrow> bool" where
  "displays r c m s q \<longleftrightarrow> (case look r m of
      None \<Rightarrow> False
    | Some g \<Rightarrow> (map_of (SuspendedClients g) c \<noteq> None) = s \<and> (map_of (QuotaExceededClients g) c \<noteq> None) = q)"

lemma project_marks:
  "(map_of (SuspendedClients (fst (projectQuota c now p (fst (projectSuspension c now p g))))) c \<noteq> None) = PSuspended p"
  "(map_of (QuotaExceededClients (fst (projectQuota c now p (fst (projectSuspension c now p g))))) c \<noteq> None) = PQuotaExceeded p"
  by (auto simp: projectSuspension_def projectQuota_def gomap_simps)

lemma projectStep_same:
  assumes "TrimSpace (PModelID p) = m" and "m \<noteq> []" "m \<in> set reg" and "look (fst rc) m \<noteq> None"
  shows "displays (fst (projectStep c now reg p rc)) c m (PSuspended p) (PQuotaExceeded p)"
proof -
  obtain g where g: "look (fst rc) m = Some g" using assms(4) by blast
  have "projectionTarget reg (fst rc) p" using assms by (simp add: projectionTarget_def)
  with g assms(1) project_marks [of c now p g] show ?thesis
    by (simp add: projectStep_def Let_def case_prod_beta displays_def look_setRegistration)
qed

lemma projectStep_other:
  "TrimSpace (PModelID p) \<noteq> m \<Longrightarrow> look (fst (projectStep c now reg p rc)) m = look (fst rc) m"
  by (auto simp: projectStep_def Let_def case_prod_beta look_setRegistration split: option.splits)

lemma project_fold:
  assumes "\<And>p. p \<in> set ps \<Longrightarrow> TrimSpace (PModelID p) = m \<Longrightarrow> PSuspended p = s \<and> PQuotaExceeded p = q"
    and m: "m \<noteq> []" "m \<in> set reg" and "look (fst rc) m \<noteq> None"
    and "displays (fst rc) c m s q \<or> (\<exists>p \<in> set ps. TrimSpace (PModelID p) = m)"
  shows "displays (fst (fold (projectStep c now reg) ps rc)) c m s q"
  using assms
proof (induction ps arbitrary: rc)
  case (Cons p ps)
  let ?rc = "projectStep c now reg p rc"
  have "look (fst ?rc) m \<noteq> None \<and> (displays (fst ?rc) c m s q \<or> (\<exists>p \<in> set ps. TrimSpace (PModelID p) = m))"
  proof (cases "TrimSpace (PModelID p) = m")
    case True
    with projectStep_same [OF True m Cons.prems(4), of c now] Cons.prems(1) [of p] show ?thesis
      by (auto simp: displays_def split: option.splits)
  next
    case False
    with projectStep_other [OF False, of c now reg rc] Cons.prems(4,5) show ?thesis
      by (auto simp: displays_def)
  qed
  with Cons.IH [of ?rc] Cons.prems(1) m show ?case by simp
qed simp

section \<open>Verdict and projection\<close>

text \<open>With canonical keys a credential has at most one state for a model.\<close>

lemma matching_existing:
  assumes "\<forall>(k, s) \<in> set (ModelStates a). canonicalModelKey k = k" and "distinct (map fst (ModelStates a))"
    and "canonicalModelKey key = key" and "key \<noteq> []"
  shows "set (matching key (ModelStates a)) = set_option (existingModelState a key)"
proof -
  have "s \<in> set (matching key (ModelStates a)) \<longleftrightarrow> (key, Some s) \<in> set (ModelStates a)" for s
    using assms(1) by (force simp: matching_def image_iff)
  moreover have "(key, Some s) \<in> set (ModelStates a) \<longleftrightarrow> map_of (ModelStates a) key = Some (Some s)" for s
    using assms(2) by simp
  ultimately have eq: "s \<in> set (matching key (ModelStates a)) \<longleftrightarrow> map_of (ModelStates a) key = Some (Some s)" for s
    by simp
  show ?thesis
  proof (rule set_eqI)
    fix s
    show "s \<in> set (matching key (ModelStates a)) \<longleftrightarrow> s \<in> set_option (existingModelState a key)"
      unfolding eq using assms(3,4) by (simp add: existingModelState_def split: option.splits)
  qed
qed

lemma blocked_state_projected:
  "0 \<le> now \<Longrightarrow> state_blocks now s \<Longrightarrow> stateSuspended s now \<or> stateQuotaExceeded s now"
  by (auto simp: state_blocks_def stateBlock_def availabilityBlock_blocked stateSuspended_def stateQuotaExceeded_def)

lemma projection_covers_verdict:
  assumes "TrimSpace routeModel = m" and "m \<noteq> []" and key: "key = projectionKey env a m" "key \<noteq> []" "canonicalModelKey key = key"
    and states: "\<forall>(k, s) \<in> set (ModelStates a). canonicalModelKey k = k" "distinct (map fst (ModelStates a))"
    and wide: "ModelStates a = [] \<Longrightarrow> Unavailable a \<and> now < NextRetryAfter a \<or> \<not> Unavailable a \<and> \<not> Exceeded (Quota a)"
    and auth: "\<not> hasUnauthorizedAuthFailure (Some a)" "\<not> tokenExpired accessExp a now" and "0 \<le> now"
    and blk: "blocked (isAuthBlockedForModel accessExp (Some a) key now)"
  shows "PSuspended (clientModelProjectionForAuth env (Some a) routeModel now) \<or>
    PQuotaExceeded (clientModelProjectionForAuth env (Some a) routeModel now)"
proof (cases "Disabled a \<or> Status a = StatusDisabled \<or> credentialQuotaActive a now")
  case True
  with assms(1,2) show ?thesis by (simp add: clientModelProjectionForAuth_def Let_def)
next
  case False
  with blk auth have mb: "blocked (modelBlock a key now)"
    by (simp add: isAuthBlockedForModel_Some split: if_splits)
  show ?thesis
  proof (cases "ModelStates a = []")
    case True
    with mb wide have "Unavailable a \<and> now < NextRetryAfter a"
      using \<open>0 \<le> now\<close> by (auto simp: modelBlock_def availabilityBlock_blocked key)
    with True assms(1,2) show ?thesis by (simp add: clientModelProjectionForAuth_def Let_def)
  next
    case False
    with mb key have "blocked (stateLoop key now (ModelStates a) False notBlocked)"
      by (simp add: modelBlock_def)
    then obtain s where "existingModelState a key = Some s" "state_blocks now s"
      using matching_existing [OF states key(3,2)] by (auto simp: stateLoop_blocked_iff)
    with blocked_state_projected [OF \<open>0 \<le> now\<close>, of s] assms(1,2) key show ?thesis
      by (auto simp: clientModelProjectionForAuth_def Let_def)
  qed
qed

lemma projection_model: "TrimSpace routeModel \<noteq> [] \<Longrightarrow> PModelID (clientModelProjectionForAuth env (Some a) routeModel now) = TrimSpace routeModel"
  by (simp add: clientModelProjectionForAuth_def Let_def)

lemma projection_trim:
  "clientModelProjectionForAuth env auth (TrimSpace m) now = clientModelProjectionForAuth env auth m now"
  by (simp add: clientModelProjectionForAuth_def)

lemma registered_model:
  assumes "counts_exact r" and "m \<in> set (listAt (clientModels r) c)"
  shows "look r m \<noteq> None"
proof
  assume "look r m = None"
  with counts_exact_client [OF assms(1), of m c] have "count_list (listAt (clientModels r) c) m = 0"
    by (simp add: holds_def)
  with assms(2) show False by (simp add: count_list_0_iff)
qed

lemma projection_published:
  fixes env :: "'r cooldownEnv" and now :: gotime
  assumes r: "counts_exact r" and c: "TrimSpace c = c" "c \<noteq> []"
    and info: "info \<in> set (GetModelsForClient c r)" "TrimSpace (MID info) = m" "m \<noteq> []"
    and m: "m \<in> set (listAt (clientModels r) c)" "numAt (clientGenerations r) c \<le> Generation a"
  defines "p \<equiv> clientModelProjectionForAuth env (Some a) m now"
  shows "displays (publishProjections env c (Some a) now applied r) c m (PSuspended p) (PQuotaExceeded p)"
proof -
  let ?models = "filter (\<lambda>sm. TrimSpace (MID sm) \<noteq> []) (GetModelsForClient c r)"
  let ?ps = "map (\<lambda>sm. clientModelProjectionForAuth env (Some a) (MID sm) now) ?models"
  let ?reg = "filter (\<lambda>m. m \<noteq> []) (map TrimSpace (listAt (clientModels r) c))"
  have reg: "m \<in> set ?reg" using m(1) info(2,3) TrimSpace_idem [of "MID info"] by (force intro: image_eqI [of _ _ m])
  have look: "look r m \<noteq> None" by (rule registered_model [OF r m(1)])
  have same: "clientModelProjectionForAuth env (Some a) i now = p" if "TrimSpace i = m" for i
    using that projection_trim [of env "Some a" i now] by (simp add: p_def)
  have here: "p \<in> set ?ps" using info same by (force intro: image_eqI [of _ _ info])
  have pm: "TrimSpace (PModelID p) = m" using info(2,3) projection_model [of m env a now] by (auto simp: p_def)
  then have "projectionTarget ?reg r p" using reg look info(3) by (simp add: projectionTarget_def)
  then have valid: "list_ex (projectionTarget ?reg r) ?ps" using here by (auto simp: list_ex_iff)
  have only: "x = p" if "x \<in> set ?ps" "TrimSpace (PModelID x) = m" for x
  proof -
    obtain i where i: "x = clientModelProjectionForAuth env (Some a) i now" "TrimSpace i \<noteq> []"
      using \<open>x \<in> set ?ps\<close> by auto
    with that(2) projection_model [OF i(2), of env a now] have "TrimSpace i = m" by simp
    with same i show ?thesis by simp
  qed
  let ?r1 = "r\<lparr>clientGenerations := AList.update c (Generation a) (clientGenerations r)\<rparr>"
  let ?f = "fold (projectStep c applied ?reg) ?ps (?r1, False)"
  have "displays (fst ?f) c m (PSuspended p) (PQuotaExceeded p)"
  proof (rule project_fold [OF _ info(3) reg])
    show "PSuspended x = PSuspended p \<and> PQuotaExceeded x = PQuotaExceeded p"
      if "x \<in> set ?ps" "TrimSpace (PModelID x) = m" for x
      using only [OF that] by simp
    show "look (fst (?r1, False)) m \<noteq> None" using look by simp
    show "displays (fst (?r1, False)) c m (PSuspended p) (PQuotaExceeded p) \<or>
        (\<exists>x \<in> set ?ps. TrimSpace (PModelID x) = m)"
      using here pm by blast
  qed
  moreover have "listAt (clientModels r) c \<noteq> []" using m(1) by auto
  moreover have "displays (invalidateAvailableModelsCacheLocked t) c m s q = displays t c m s q" for t s q
    by (simp add: displays_def)
  ultimately show ?thesis
    using c m(2) valid here
    by (auto simp: publishProjections_def GetModelsForClient_def GetModelsAndEpochForClient_def
        ApplyClientModelProjections_def Let_def case_prod_beta)
qed

section \<open>The published verdict\<close>


definition wCooling :: Auth where
  "wCooling = emptyAuth\<lparr>ID := ''a'', Generation := 3, Status := StatusActive, ModelStates :=
     [(''m'', Some (emptyModelState\<lparr>MStatus := StatusError, MUnavailable := True, MNextRetryAfter := 900\<rparr>))]\<rparr>"

definition wProjEnv :: "string cooldownEnv" where
  "wProjEnv = \<lparr>ojValid = (\<lambda>_. False), ojGet = (\<lambda>_ _. []), ojSub = (\<lambda>_ _. []), ojExists = (\<lambda>_. False),
     ojString = (\<lambda>s. s), ojIsJSON = (\<lambda>_. False), jsonUnmarshal = (\<lambda>_. None),
     transientErrorCooldownSeconds = 0, quotaCooldownDisabled = False, runtimeConfig = None,
     selectionModelForAuth = (\<lambda>_ m. m), siwcAccessToken = (\<lambda>_. []), siwcHasRefresh = (\<lambda>_ _. False)\<rparr>"


end
