(* ===== verification/Spec2Isabelle.thy ===== *)
theory Spec2Isabelle
  imports ThinkingValidate RecentRequests Selector CooldownProperties CooldownView ResultScheduling Divergences Tombstones UsageQueue BoundedLRU SessionProperties Access ExecRegistryProperties RegistryProjection
begin

text \<open>
  Verification of the credential scheduling core of KorpProxy (a fork of CLIProxyAPI), a proxy that
  serves chat requests from a pool of upstream credentials.

  \<^bold>\<open>The program and its parts.\<close>  A request first passes access control (\<open>src/sdk/access\<close>).  Its model
  name may carry a thinking suffix, which is parsed and validated against the model's abilities
  (\<open>src/internal/thinking\<close>).  The conductor (\<open>src/sdk/cliproxy/auth\<close>) then needs a credential: the
  scheduler picks one that is available for the model, by priority and by a strategy (round robin,
  weighted, fill first); a session may stick to a credential through the session cache.  The
  models each credential serves are kept in the model registry (\<open>src/internal/registry\<close>).  The
  execution is registered (\<open>src/sdk/cliproxy/executionregistry\<close>) so that a drain can wait for it.  When
  it ends, its result is recorded: a success frees the model, a failure cools the model or the whole
  credential for a time, and the changed credential is published to the scheduler and projected onto
  its models in the model registry.  Usage records
  go to an in-memory queue (\<open>src/internal/redisqueue\<close>).

  \<^bold>\<open>Shared ground.\<close>
  \<^item> \<open>GoPrelude\<close>, \<open>GoList\<close>: what the sources use of Go and its library: text, 64 bit integers with
    their wrap-around written out, times as nanoseconds since the zero time, maps as association
    lists in an arbitrary order, sorting and searching, doubly linked lists with element identity.
  \<^item> \<open>CredentialWeight\<close> (\<open>src/internal/credentialweight/weight.go\<close>): weights of credentials; accepted
    weights are in range.
  \<^item> \<open>AuthTypes\<close> (\<open>types.go\<close>, \<open>status.go\<close>, \<open>errors.go\<close>): the credential record, model states, errors.

  \<^bold>\<open>Thinking.\<close>  \<open>Thinking\<close> holds \<open>suffix.go\<close>, \<open>types.go\<close>, \<open>convert.go\<close> and the pure helpers of \<open>apply.go\<close>;
  \<open>ThinkingValidate\<close> is \<open>ValidateConfig\<close> block by block.  Shown: suffix notation and parsing are inverse,
  levels and budgets form an adjoint pair, a validated level is supported and a validated budget in
  range.

  \<^bold>\<open>Availability.\<close>  \<open>Availability\<close> (\<open>isAuthBlockedForModel\<close> and \<open>availabilityBlock\<close> of \<open>selector.go\<close>): the
  verdict on a credential, a model and a time.  How verdicts evolve with time is the locale
  \<open>availability_oracle\<close>, interpreted on that code; the scheduler shard relies on the locale only.
  \<open>RecentRequests\<close> is the ring of counters of \<open>types.go\<close>, equal to a recount of the whole history.

  \<^bold>\<open>Picking.\<close>  \<open>Rotation\<close> and \<open>SmoothWeighted\<close> are the two fair orders, the first as a locale with its
  starvation bound, the second as a refinement of unbounded accumulators with exact cycles and
  share bounds.  \<open>Selector\<close> has the three selectors of \<open>selector.go\<close> and their common contract
  \<open>selector_contract\<close>.  \<open>ModelScheduler\<close> is one shard of \<open>scheduler.go\<close> (entries, ready views, blocked
  queue), \<open>AuthScheduler\<close> the whole scheduler with its routing and generation tables.
  \<open>ModelSchedulerProofs\<close> shows that the lazily maintained shard picks what a fresh scan would pick;
  \<open>AuthSchedulerProofs\<close> carries a provider invariant through every operation (locale
  \<open>provider_invariant\<close>); \<open>SchedulerProperties\<close>, \<open>MixedPicks\<close> and \<open>Tombstones\<close> state, for every state
  reachable by any sequence of operations, the exact outcome of picks for one and several
  providers, the agreement of the tables, and that a removed credential does not come back.

  \<^bold>\<open>Results and cooldowns.\<close>  \<open>ErrorClass\<close> (\<open>conductor_cooldown.go\<close>, \<open>client_error.go\<close>) decides whose fault a
  failure is.  \<open>Cooldown\<close> has the deadlines, the backoff ladder, the model states with their
  normalisation and aggregation, and failures without a model; \<open>MarkResult\<close> is the critical section
  of \<open>Manager.MarkResult\<close>, one function per part, with the two layers of a credential-wide quota
  around each model's own cooldown.  \<open>CooldownProofs\<close>, \<open>MarkResultProofs\<close> and \<open>ResultCooling\<close> are the
  lemma libraries: what the ladder and the aggregation compute, that a state which blocks carries
  the time it stops, and how a running cooldown survives later results.  \<open>CooldownProperties\<close>,
  \<open>ResultProperties\<close> and \<open>ResultScheduling\<close> state the outcome: windows climb one level at a time, every
  block ends, later failures never shorten, an older success does not lift and a newer one does,
  blameless failures change nothing, and after the result has been published no pick returns the
  cooled credential before its deadline.  \<open>CooldownStore\<close> holds the records of cooldowns, the file store of \<open>cooldown_state.go\<close>, their
  restoration and the manual reset; \<open>CooldownRestart\<close> states the interface \<open>CooldownStateStore\<close> as a
  locale, interprets it on the file store and restores credential by credential;
  \<open>RestartProperties\<close> shows that a restart changes no verdict and that a reset frees the
  credential.  \<open>CooldownView\<close> is \<open>cooldown_view.go\<close>, whose list agrees with the verdicts.
  \<open>Divergences\<close> has concrete inputs on which the code differs from a comment or from itself.

  \<^bold>\<open>Model registry.\<close>  \<open>ModelRegistry\<close>, \<open>ModelMarks\<close> and \<open>ModelListing\<close> are \<open>model_registry.go\<close>: registration
  and removal of clients with their reconciliation step by step, the counters of clients that
  advertise web search, quota and suspension marks, projections and capability updates under an
  epoch, availability, the cached listings in their four formats, and the queries.
  \<open>ModelCounts\<close> gives the effect of every step on the reference counts of one model and carries them
  through a reconciliation (locale \<open>reconciliation\<close>).  \<open>RegistryRuns\<close> makes every exported operation a
  step and states what an invariant has to meet to hold after every run as the locale
  \<open>registry_invariant\<close>; \<open>RegistryCounts\<close>, \<open>RegistryWellformed\<close> and \<open>RegistryIndex\<close> interpret it for the
  reference counts, for the agreement of all tables and for the web search index.  \<open>RegistryCache\<close> shows that each change of a registration drops the cached
  listings and that a listing is stable until it expires; \<open>RegistryEpochs\<close> counts epochs modulo 64 bits
  and reads back what was registered; \<open>RegistryProperties\<close> states the results for every run.
  \<open>RegistryProjection\<close> (\<open>conductor_models.go\<close>, end of \<open>MarkResult\<close>) joins the two sides: what the
  selectors refuse is marked suspended or over quota in the registry.

  \<^bold>\<open>Sessions.\<close>  \<open>Sessions\<close> is \<open>session_cache.go\<close> over its four hand-kept indexes; \<open>SessionGroups\<close>, \<open>SessionOps\<close>
  and \<open>SessionProperties\<close> show that every run of operations agrees with a list of alias groups.

  \<^bold>\<open>Execution registry.\<close>  \<open>ExecRegistry\<close> cuts the calls of \<open>registry.go\<close> and \<open>observation.go\<close> at their critical
  sections; \<open>ExecRegistryProofs\<close> and \<open>ExecRegistryProperties\<close> cover every interleaving of them.

  \<^bold>\<open>Other components.\<close>  \<open>Access\<close> (\<open>src/sdk/access\<close>), \<open>BoundedLRU\<close> (\<open>src/internal/cache/bounded_lru.go\<close>), \<open>UsageQueue\<close>
  (\<open>src/internal/redisqueue/queue.go\<close>, against the locale \<open>retention_queue\<close>).

  \<^bold>\<open>Bounds and fuel.\<close>  No definition needs fuel: loops are structural or have a measure, and the
  eviction loop of the session cache, an optional value, is shown to return from every reachable state.  Integers are
  unbounded HOL integers with \<open>wrap64\<close> or \<open>wrapU64\<close> where Go's arithmetic may leave its range; the
  sum of a time and a duration is not wrapped, since times of this program are far inside Go's
  range.  The weighted fairness results assume a bound on the total weight, which the bound on
  single weights gives for all pools that fit in memory.  Every reading of the clock is an
  argument; results over runs hold for all times that do not go backwards.

  \<^bold>\<open>Parameters.\<close>  Code outside the modelled files enters as an argument: the expiry of an access token,
  for the scheduler the look-ups in the global model registry (\<open>schedEnv\<close>), the static model
  catalogue, the change a caller makes to a model's capabilities, the JSON readers, configuration and
  token metadata (\<open>errorEnv\<close>, \<open>cooldownEnv\<close>), access providers, release sinks and result policies.

  \<^bold>\<open>Not modelled.\<close>  The conductor's execution loops, the provider executors, the HTTP server, logins,
  stores, the plugin host, the cluster client and the user interfaces are I/O.  The protocol
  translators and the appliers of thinking settings rewrite JSON bodies through a third-party
  library.  Of the modelled files: the affinity selector (it hashes request bodies), file
  system errors of the cooldown store and its exchange at run time, hooks and error events of
  the conductor, the choice of the first available model (an unstable sort) and the catalogue
  updaters of the model registry, classifiers over arbitrary wrapped Go errors, log output, and the goroutines that only
  call a modelled operation on a timer.
\<close>

end
